(* ===== verification/Prelude.thy ===== *)
theory Prelude
  imports Main "HOL-Library.AList" "HOL-Library.Char_ord" "HOL-Library.List_Lexorder"
begin

section \<open>Prelude: errors, short-circuit iteration, dictionaries and text\<close>

text \<open>
  What every component of the development shares.
  \<^item> Python exceptions are values of \<open>py_error\<close>; an operation that can raise returns
    \<open>'a res = py_error + 'a\<close> and is sequenced with \<open>bind_r\<close>.
  \<^item> Loops over containers that stop at the first hit are \<open>first_some\<close>, \<open>all_r\<close>,
    \<open>any_r\<close> and \<open>map_r\<close>; each has the congruence rule that lets a recursive definition
    pass itself to them.
  \<^item> A Python \<open>dict\<close> is an association list in insertion order: \<open>map_of\<close> reads it,
    \<open>AList.update\<close> writes it (in place, or at the end for a new key), \<open>AList.delete\<close>
    removes a key. The locale \<open>py_dict\<close> states the laws clients rely on.
  \<^item> Text: decimal rendering of list indices, \<open>sep.join(...)\<close>, \<open>sorted(...)\<close>.
\<close>

named_theorems res_simps \<open>evaluation rules of the exception monad\<close>
named_theorems size_laws \<open>size decrease facts for termination proofs\<close>

subsection \<open>Exceptions\<close>

text \<open>An exception is its class with its message; \<open>OtherError c cs m\<close> is of a class
  named \<open>c # cs\<close> that the components never raise themselves but may receive from a collaborator.\<close>

datatype py_error =
    ValueError string
  | TypeError string
  | AttributeError string
  | RuntimeError string
  | IndexError string
  | KeyError string
  | IntegrityError string
  | OverflowError string
  | OtherError char string string

type_synonym 'a res = "py_error + 'a"

definition bind_r :: "'a res \<Rightarrow> ('a \<Rightarrow> 'b res) \<Rightarrow> 'b res" where
  "bind_r m f = (case m of Inl e \<Rightarrow> Inl e | Inr x \<Rightarrow> f x)"

lemma bind_r_simps [simp, res_simps]:
  "bind_r (Inl e) f = Inl e"
  "bind_r (Inr x) f = f x"
  by (simp_all add: bind_r_def)

lemma bind_r_cong [fundef_cong]:
  "m = m' \<Longrightarrow> (\<And>x. m' = Inr x \<Longrightarrow> f x = g x) \<Longrightarrow> bind_r m f = bind_r m' g"
  by (auto simp: bind_r_def split: sum.split)

lemma bind_r_Inr_iff: "bind_r m f = Inr y \<longleftrightarrow> (\<exists>x. m = Inr x \<and> f x = Inr y)"
  by (auto simp: bind_r_def split: sum.split)

definition guard_r :: "bool \<Rightarrow> py_error \<Rightarrow> unit res" where
  "guard_r b e = (if b then Inr () else Inl e)"

lemma guard_r_simps [simp, res_simps]:
  "guard_r True e = Inr ()"
  "guard_r False e = Inl e"
  by (simp_all add: guard_r_def)

lemma guard_r_Inr_iff: "guard_r b e = Inr u \<longleftrightarrow> b"
  by (simp add: guard_r_def)

subsection \<open>Iteration that stops early\<close>

text \<open>\<open>first_some f xs\<close> is the loop that returns the first hit of \<open>f\<close>.\<close>

fun first_some :: "('a \<Rightarrow> 'b option) \<Rightarrow> 'a list \<Rightarrow> 'b option" where
  "first_some f [] = None"
| "first_some f (x # xs) = (case f x of None \<Rightarrow> first_some f xs | Some y \<Rightarrow> Some y)"

lemma first_some_cong [fundef_cong]:
  "xs = ys \<Longrightarrow> (\<And>x. x \<in> set ys \<Longrightarrow> f x = g x) \<Longrightarrow> first_some f xs = first_some g ys"
  by (induction xs arbitrary: ys) (auto split: option.splits)

lemma first_some_None_iff: "first_some f xs = None \<longleftrightarrow> (\<forall>x \<in> set xs. f x = None)"
  by (induction xs) (auto split: option.splits)

lemma first_some_SomeD: "first_some f xs = Some y \<Longrightarrow> \<exists>x \<in> set xs. f x = Some y"
  by (induction xs) (auto split: option.splits)

lemma first_some_map: "first_some f (map h xs) = first_some (\<lambda>x. f (h x)) xs"
  by (induction xs) (auto split: option.splits)

text \<open>\<open>map_r f xs\<close> is a list comprehension whose element expression may raise.\<close>

fun map_r :: "('a \<Rightarrow> 'b res) \<Rightarrow> 'a list \<Rightarrow> 'b list res" where
  "map_r f [] = Inr []"
| "map_r f (x # xs) = bind_r (f x) (\<lambda>y. bind_r (map_r f xs) (\<lambda>ys. Inr (y # ys)))"

lemma map_r_cong [fundef_cong]:
  "xs = ys \<Longrightarrow> (\<And>x. x \<in> set ys \<Longrightarrow> f x = g x) \<Longrightarrow> map_r f xs = map_r g ys"
  by (induction xs arbitrary: ys) auto

lemma map_r_Inr_iff:
  "map_r f xs = Inr ys \<longleftrightarrow> list_all2 (\<lambda>x y. f x = Inr y) xs ys"
  by (induction xs arbitrary: ys) (auto simp: bind_r_Inr_iff list_all2_Cons1)

lemma map_r_all_Inr: "(\<And>x. x \<in> set xs \<Longrightarrow> f x = Inr (g x)) \<Longrightarrow> map_r f xs = Inr (map g xs)"
  by (induction xs) auto

text \<open>\<open>all_r\<close> and \<open>any_r\<close> are Python's \<open>all\<close> and \<open>any\<close> over a generator: they stop
  at the first deciding element, so an exception behind it is never raised.\<close>

fun all_r :: "('a \<Rightarrow> bool res) \<Rightarrow> 'a list \<Rightarrow> bool res" where
  "all_r f [] = Inr True"
| "all_r f (x # xs) = bind_r (f x) (\<lambda>b. if b then all_r f xs else Inr False)"

fun any_r :: "('a \<Rightarrow> bool res) \<Rightarrow> 'a list \<Rightarrow> bool res" where
  "any_r f [] = Inr False"
| "any_r f (x # xs) = bind_r (f x) (\<lambda>b. if b then Inr True else any_r f xs)"

lemma all_r_cong [fundef_cong]:
  "xs = ys \<Longrightarrow> (\<And>x. x \<in> set ys \<Longrightarrow> f x = g x) \<Longrightarrow> all_r f xs = all_r g ys"
  by (induction xs arbitrary: ys) (auto intro!: bind_r_cong)

lemma any_r_cong [fundef_cong]:
  "xs = ys \<Longrightarrow> (\<And>x. x \<in> set ys \<Longrightarrow> f x = g x) \<Longrightarrow> any_r f xs = any_r g ys"
  by (induction xs arbitrary: ys) (auto intro!: bind_r_cong)

lemma all_r_TrueD: "all_r f xs = Inr True \<Longrightarrow> x \<in> set xs \<Longrightarrow> f x = Inr True"
  by (induction xs) (auto simp: bind_r_Inr_iff split: if_splits)

lemma any_r_TrueD: "any_r f xs = Inr True \<Longrightarrow> \<exists>x \<in> set xs. f x = Inr True"
  by (induction xs) (auto simp: bind_r_Inr_iff split: if_splits)

text \<open>\<open>iter_r\<close> is a \<open>for\<close> loop whose body only checks.\<close>

fun iter_r :: "('a \<Rightarrow> unit res) \<Rightarrow> 'a list \<Rightarrow> unit res" where
  "iter_r f [] = Inr ()"
| "iter_r f (x # xs) = bind_r (f x) (\<lambda>_. iter_r f xs)"

lemma iter_r_cong [fundef_cong]:
  "xs = ys \<Longrightarrow> (\<And>x. x \<in> set ys \<Longrightarrow> f x = g x) \<Longrightarrow> iter_r f xs = iter_r g ys"
  by (induction xs arbitrary: ys) (auto intro!: bind_r_cong)

lemma iter_r_Inr_iff: "iter_r f xs = Inr u \<longleftrightarrow> (\<forall>x \<in> set xs. f x = Inr ())"
  by (induction xs) (auto simp: bind_r_Inr_iff)

fun fold_r :: "('a \<Rightarrow> 'b \<Rightarrow> 'b res) \<Rightarrow> 'a list \<Rightarrow> 'b \<Rightarrow> 'b res" where
  "fold_r f [] acc = Inr acc"
| "fold_r f (x # xs) acc = bind_r (f x acc) (fold_r f xs)"

lemma map_r_in: "map_r f xs = Inr ys \<Longrightarrow> y \<in> set ys \<Longrightarrow> \<exists>x \<in> set xs. f x = Inr y"
  by (induction xs arbitrary: ys) (auto simp: bind_r_Inr_iff)

lemma map_r_out: "map_r f xs = Inr ys \<Longrightarrow> x \<in> set xs \<Longrightarrow> \<exists>y \<in> set ys. f x = Inr y"
  by (induction xs arbitrary: ys) (auto simp: bind_r_Inr_iff)

subsection \<open>Dictionaries\<close>

text \<open>The laws of a Python dictionary, over any representation of it.\<close>

locale py_dict =
  fixes get :: "'d \<Rightarrow> 'k \<Rightarrow> 'v option"
    and put :: "'k \<Rightarrow> 'v \<Rightarrow> 'd \<Rightarrow> 'd"
    and drop_key :: "'k \<Rightarrow> 'd \<Rightarrow> 'd"
    and dkeys :: "'d \<Rightarrow> 'k list"
    and dict_ok :: "'d \<Rightarrow> bool"
  assumes get_put: "get (put k v d) k' = (if k' = k then Some v else get d k')"
    and get_drop: "get (drop_key k d) k' = (if k' = k then None else get d k')"
    and get_keys: "get d k \<noteq> None \<longleftrightarrow> k \<in> set (dkeys d)"
    and ok_distinct: "dict_ok d \<longleftrightarrow> distinct (dkeys d)"
    and ok_put: "dict_ok d \<Longrightarrow> dict_ok (put k v d)"
    and ok_drop: "dict_ok d \<Longrightarrow> dict_ok (drop_key k d)"
begin

lemma put_same: "get (put k v d) k = Some v"
  by (simp add: get_put)

lemma put_other: "k' \<noteq> k \<Longrightarrow> get (put k v d) k' = get d k'"
  by (simp add: get_put)

lemma keys_put: "set (dkeys (put k v d)) = insert k (set (dkeys d))"
proof -
  have "x \<in> set (dkeys (put k v d)) \<longleftrightarrow> x = k \<or> x \<in> set (dkeys d)" for x
    using get_keys[of "put k v d" x] get_keys[of d x] by (auto simp: get_put split: if_splits)
  then show ?thesis by blast
qed

lemma keys_drop: "set (dkeys (drop_key k d)) = set (dkeys d) - {k}"
proof -
  have "x \<in> set (dkeys (drop_key k d)) \<longleftrightarrow> x \<noteq> k \<and> x \<in> set (dkeys d)" for x
    using get_keys[of "drop_key k d" x] get_keys[of d x] by (auto simp: get_drop split: if_splits)
  then show ?thesis by blast
qed

lemma ok_fold_put: "dict_ok d \<Longrightarrow> dict_ok (fold (\<lambda>(k, v). put k v) kvs d)"
  by (induction kvs arbitrary: d) (auto intro: ok_put)

lemma get_fold_put:
  "get (fold (\<lambda>(k, v). put k v) kvs d) k =
     (case map_of (rev kvs) k of None \<Rightarrow> get d k | Some v \<Rightarrow> Some v)"
  by (induction kvs arbitrary: d) (auto simp: get_put map_add_def split: option.splits)

end

abbreviation keys_of :: "('k \<times> 'v) list \<Rightarrow> 'k list" where
  "keys_of d \<equiv> map fst d"

abbreviation vals_of :: "('k \<times> 'v) list \<Rightarrow> 'v list" where
  "vals_of d \<equiv> map snd d"

interpretation ad: py_dict map_of AList.update AList.delete keys_of "\<lambda>d. distinct (keys_of d)"
proof unfold_locales
  show "map_of (AList.update k v d) k' = (if k' = k then Some v else map_of d k')"
    for k k' :: 'a and v :: 'b and d
    by (simp add: update_conv')
  show "map_of (AList.delete k d) k' = (if k' = k then None else map_of d k')"
    for k k' :: 'a and d :: "('a \<times> 'b) list"
    by (simp add: delete_conv')
  show "(map_of d k \<noteq> None) = (k \<in> set (keys_of d))" for d :: "('a \<times> 'b) list" and k
    by (simp add: map_of_eq_None_iff)
qed (auto simp: distinct_update intro: distinct_delete)

lemmas dict_simps [simp] = ad.get_put ad.get_drop

lemma keys_update_old: "k \<in> set (keys_of m) \<Longrightarrow> keys_of (AList.update k v m) = keys_of m"
  by (induction m) auto

lemma update_fresh: "k \<notin> set (keys_of al) \<Longrightarrow> AList.update k v al = al @ [(k, v)]"
  by (induction al) auto

lemma found_key: "map_of m k = Some x \<Longrightarrow> k \<in> set (keys_of m)"
  using ad.get_keys[of m k] by simp

lemma key_lookup: "k \<in> set (keys_of m) \<Longrightarrow> \<exists>v. map_of m k = Some v"
  by (cases "map_of m k") (auto simp: map_of_eq_None_iff)

lemma key_unknown: "k \<in> set (keys_of m) \<longleftrightarrow> map_of m k \<noteq> None"
  by (simp add: map_of_eq_None_iff)

lemma map_of_in_set: "map_of d k = Some v \<Longrightarrow> (k, v) \<in> set d"
  by (rule map_of_SomeD)

lemma map_of_in_vals: "map_of d k = Some v \<Longrightarrow> v \<in> set (vals_of d)"
  by (auto dest: map_of_SomeD simp: image_iff intro: rev_bexI)

text \<open>\<open>dict(pairs)\<close>: later pairs overwrite earlier ones, positions stay those of the
  first insertion.\<close>

definition dict_of :: "('k \<times> 'v) list \<Rightarrow> ('k \<times> 'v) list" where
  "dict_of kvs = fold (\<lambda>(k, v). AList.update k v) kvs []"

lemma dict_of_ok: "distinct (keys_of (dict_of kvs))"
  unfolding dict_of_def by (rule ad.ok_fold_put) simp

lemma dict_of_get: "map_of (dict_of kvs) k = map_of (rev kvs) k"
  unfolding dict_of_def by (subst ad.get_fold_put) (auto split: option.splits)

lemma fold_update_distinct:
  "distinct (keys_of (d @ kvs)) \<Longrightarrow> fold (\<lambda>(k, v). AList.update k v) kvs d = d @ kvs"
proof (induction kvs arbitrary: d)
  case (Cons kv kvs)
  obtain k v where kv: "kv = (k, v)" by force
  have "AList.update k v d = d @ [(k, v)]"
    using Cons.prems kv by (induction d) auto
  with Cons kv show ?case by simp
qed simp

lemma dict_of_distinct [simp]: "distinct (keys_of kvs) \<Longrightarrow> dict_of kvs = kvs"
  unfolding dict_of_def by (subst fold_update_distinct) simp_all

lemma set_enumerate_snd: "snd ` set (enumerate n xs) = set xs"
  by (metis map_snd_enumerate set_map)

lemma ball_enumerate: "(\<forall>(i, x) \<in> set (enumerate n xs). P x) \<longleftrightarrow> (\<forall>x \<in> set xs. P x)"
  unfolding set_enumerate_snd[of n xs, symmetric] by (simp add: case_prod_beta)

lemma enumerate_mem: "(i, x) \<in> set (enumerate n xs) \<Longrightarrow> x \<in> set xs"
  by (metis map_snd_enumerate image_eqI set_map snd_conv)

subsection \<open>Sizes\<close>

lemma size_list_mem [size_laws]: "x \<in> set xs \<Longrightarrow> f x < Suc (size_list f xs)"
  by (induction xs) auto

lemma size_list_mem_le [size_laws]: "x \<in> set xs \<Longrightarrow> f x \<le> size_list f xs"
  by (induction xs) auto

subsection \<open>Text\<close>

definition digit_char :: "nat \<Rightarrow> char" where
  "digit_char d = char_of (48 + d)"

fun nat_str :: "nat \<Rightarrow> string" where
  "nat_str n = (if n < 10 then [digit_char n] else nat_str (n div 10) @ [digit_char (n mod 10)])"

declare nat_str.simps [simp del]

fun join_str :: "string \<Rightarrow> string list \<Rightarrow> string" where
  "join_str sep [] = []"
| "join_str sep [x] = x"
| "join_str sep (x # y # ys) = x @ sep @ join_str sep (y # ys)"

definition quoted :: "string \<Rightarrow> string" where
  "quoted s = CHR 0x27 # s @ [CHR 0x27]"

text \<open>\<open>sorted(set(xs))\<close> on strings: ascending by code points, without repetition.\<close>

definition sorted_set :: "string list \<Rightarrow> string list" where
  "sorted_set xs = sort (remdups xs)"

lemma sorted_set_props [simp]:
  "set (sorted_set xs) = set xs" "distinct (sorted_set xs)" "sorted (sorted_set xs)"
  by (simp_all add: sorted_set_def)

lemma sorted_set_cong: "set xs = set ys \<Longrightarrow> sorted_set xs = sorted_set ys"
  by (rule sorted_distinct_set_unique) simp_all

end
