(* ===== verification/Py_Value.thy ===== *)
theory Py_Value
  imports Prelude "HOL-Library.Word"
begin

section \<open>Python values at the data boundaries\<close>

text \<open>
  The Python objects that reach the Engine's data boundaries. A \<open>float\<close> is its IEEE 754
  binary64 pattern, so that \<open>math.isfinite\<close> and \<open>==\<close> are those of the machine; \<open>int\<close>
  is unbounded. A \<open>dict\<close> is an association list in insertion order whose keys may be
  something other than strings (\<open>KOther\<close>), because the validators have a branch for
  that; \<open>PObj\<close> is any object outside JSON, named by its type. Values are trees: sharing
  of containers between owners is not modelled. A \<open>char\<close> is a code point below 256. Instances of subclasses of the built-in types and mappings other
  than \<open>dict\<close> are outside the model.
\<close>

type_synonym float64 = "64 word"

text \<open>Sign bit 63, exponent bits 62 to 52, significand bits 51 to 0.\<close>

definition float_exponent :: "float64 \<Rightarrow> float64" where
  "float_exponent f = take_bit 11 (drop_bit 52 f)"

definition float_isfinite :: "float64 \<Rightarrow> bool" where
  "float_isfinite f \<longleftrightarrow> float_exponent f \<noteq> 0x7FF"

definition float_isnan :: "float64 \<Rightarrow> bool" where
  "float_isnan f \<longleftrightarrow> float_exponent f = 0x7FF \<and> take_bit 52 f \<noteq> 0"

definition float_iszero :: "float64 \<Rightarrow> bool" where
  "float_iszero f \<longleftrightarrow> take_bit 63 f = 0"

definition float_eq :: "float64 \<Rightarrow> float64 \<Rightarrow> bool" where
  "float_eq a b \<longleftrightarrow>
     \<not> float_isnan a \<and> \<not> float_isnan b \<and> (a = b \<or> float_iszero a \<and> float_iszero b)"

lemma float_iszero_finite: "float_iszero f \<Longrightarrow> float_isfinite f"
proof -
  assume z: "float_iszero f"
  have "float_exponent f = drop_bit 52 (take_bit 63 f)"
    by (simp add: float_exponent_def drop_bit_take_bit)
  with z show ?thesis by (simp add: float_iszero_def float_isfinite_def)
qed

lemma float_eq_finite: "float_eq a b \<Longrightarrow> float_isfinite a \<longleftrightarrow> float_isfinite b"
  by (auto simp: float_eq_def dest: float_iszero_finite)

lemma float_eq_refl: "float_isfinite a \<Longrightarrow> float_eq a a"
  by (simp add: float_eq_def float_isnan_def float_isfinite_def)

lemma float_eq_sym: "float_eq a b \<longleftrightarrow> float_eq b a"
  by (auto simp: float_eq_def)

lemma float_eq_trans: "float_eq a b \<Longrightarrow> float_eq b c \<Longrightarrow> float_eq a c"
  by (auto simp: float_eq_def)

datatype pykey = KStr string | KOther string

datatype pyval =
    PNone
  | PBool bool
  | PInt int
  | PFloat float64
  | PStr string
  | PList "pyval list"
  | PDict "(pykey \<times> pyval) list"
  | PObj string

lemma size_dict_item [size_laws]: "(k, v) \<in> set kvs \<Longrightarrow> size v < size (PDict kvs)"
  by (induction kvs) auto

lemma size_list_item [size_laws]: "v \<in> set xs \<Longrightarrow> size v < size (PList xs)"
  by (induction xs) auto

lemma size_enum_item [size_laws]: "(i, v) \<in> set (enumerate n xs) \<Longrightarrow> size v < size (PList xs)"
  by (rule size_list_item) (auto simp: in_set_enumerate_eq)

definition dict_items :: "pyval \<Rightarrow> (pykey \<times> pyval) list" where
  "dict_items v = (case v of PDict kvs \<Rightarrow> kvs | _ \<Rightarrow> [])"

text \<open>A \<open>dict\<close> holds every key once, at every depth.\<close>

fun wf_val :: "pyval \<Rightarrow> bool" where
  "wf_val (PList xs) = list_all wf_val xs"
| "wf_val (PDict kvs) = (distinct (keys_of kvs) \<and> list_all (\<lambda>(k, v). wf_val v) kvs)"
| "wf_val _ = True"

lemma wf_val_item: "wf_val (PDict kvs) \<Longrightarrow> (k, v) \<in> set kvs \<Longrightarrow> wf_val v"
  by (auto simp: list_all_iff)

lemma wf_val_elem: "wf_val (PList xs) \<Longrightarrow> v \<in> set xs \<Longrightarrow> wf_val v"
  by (auto simp: list_all_iff)

text \<open>The values JSON can carry: built-in types, finite numbers, string keys.\<close>

fun exact_json :: "pyval \<Rightarrow> bool" where
  "exact_json (PFloat f) = float_isfinite f"
| "exact_json (PList xs) = list_all exact_json xs"
| "exact_json (PDict kvs) = list_all (\<lambda>(k, v). (\<exists>s. k = KStr s) \<and> exact_json v) kvs"
| "exact_json (PObj _) = False"
| "exact_json _ = True"

subsection \<open>Literal equality\<close>

text \<open>
  \<open>json_values_equal\<close> compares two values by their runtime types, never by Python's
  numeric coercion: \<open>1\<close>, \<open>1.0\<close> and \<open>True\<close> are three different literals.
  Objects are equal when they hold the same keys and equal values, in any order.
\<close>

function (sequential) json_values_equal :: "pyval \<Rightarrow> pyval \<Rightarrow> bool" where
  "json_values_equal (PDict a) (PDict b) =
     (set (keys_of a) = set (keys_of b) \<and>
      list_all (\<lambda>(k, v). case map_of b k of None \<Rightarrow> False | Some w \<Rightarrow> json_values_equal v w) a)"
| "json_values_equal (PList xs) (PList ys) =
     (length xs = length ys \<and> list_all (\<lambda>(x, y). json_values_equal x y) (zip xs ys))"
| "json_values_equal (PFloat f) (PFloat g) = float_eq f g"
| "json_values_equal PNone PNone = True"
| "json_values_equal (PBool a) (PBool b) = (a = b)"
| "json_values_equal (PInt a) (PInt b) = (a = b)"
| "json_values_equal (PStr a) (PStr b) = (a = b)"
| "json_values_equal (PObj a) (PObj b) = (a = b)"
| "json_values_equal _ _ = False"
  by pat_completeness auto
termination
  by (relation "measure (\<lambda>(v, w). size v)")
    (auto simp del: pyval.size dest: set_zip_leftD intro: size_dict_item size_list_item)

definition json_value_in :: "pyval \<Rightarrow> pyval list \<Rightarrow> bool" where
  "json_value_in v candidates = list_ex (json_values_equal v) candidates"

lemma json_equal_finite_refl: "exact_json v \<Longrightarrow> wf_val v \<Longrightarrow> json_values_equal v v"
proof (induction v rule: wf_val.induct)
  case (1 xs)
  then show ?case by (auto simp: list_all_iff zip_same_conv_map)
next
  case (2 kvs)
  have "json_values_equal v v" if "(k, v) \<in> set kvs" for k v
  proof -
    from "2.prems" that have "exact_json v" "wf_val v" by (auto simp: list_all_iff)
    with "2.IH"[OF that refl] show ?thesis by blast
  qed
  with "2.prems" show ?case by (auto simp: list_all_iff)
qed (auto intro: float_eq_refl)

lemma json_equal_dictD:
  assumes "json_values_equal (PDict a) (PDict b)" and "map_of a k = Some v"
  shows "\<exists>w. map_of b k = Some w \<and> json_values_equal v w"
  using assms by (fastforce simp: list_all_iff dest: map_of_in_set split: option.splits)

lemma json_equal_dict_keys:
  "json_values_equal (PDict a) (PDict b) \<Longrightarrow> set (keys_of a) = set (keys_of b)"
  by simp

lemma json_equal_sym:
  "wf_val v \<Longrightarrow> wf_val w \<Longrightarrow> json_values_equal v w \<Longrightarrow> json_values_equal w v"
proof (induction v w rule: json_values_equal.induct)
  case (1 a b)
  have "\<exists>v. map_of a k = Some v \<and> json_values_equal w v" if kw: "(k, w) \<in> set b" for k w
  proof -
    from kw "1.prems" have "k \<in> set (keys_of a)" by force
    then obtain v where v: "map_of a k = Some v" by (auto simp: map_of_eq_None_iff dest!: weak_map_of_SomeI)
    from kw "1.prems" have w: "map_of b k = Some w" by simp
    from json_equal_dictD[OF "1.prems"(3) v] w have vw: "json_values_equal v w" by simp
    have "(k, v) \<in> set a" using v by (rule map_of_in_set)
    moreover from this "1.prems" have "wf_val v" by (blast intro: wf_val_item)
    moreover from kw "1.prems" have "wf_val w" by (blast intro: wf_val_item)
    ultimately have "json_values_equal w v"
      using "1.IH"[of "(k, v)" k v w] w vw by blast
    with v show ?thesis by blast
  qed
  then have "list_all (\<lambda>(k, w). case map_of a k of None \<Rightarrow> False | Some v \<Rightarrow> json_values_equal w v) b"
    by (fastforce simp: list_all_iff)
  with "1.prems" show ?case by auto
next
  case (2 xs ys)
  have "json_values_equal (ys ! i) (xs ! i)" if "i < length xs" for i
  proof -
    from 2 that have "(xs ! i, ys ! i) \<in> set (zip xs ys)" by (auto simp: in_set_zip)
    from "2.IH"[OF this refl] that "2.prems" show ?thesis
      by (auto simp: list_all_length)
  qed
  with "2.prems" show ?case by (auto simp: list_all_length)
qed (auto simp: float_eq_sym)

lemma json_equal_trans:
  "json_values_equal u v \<Longrightarrow> json_values_equal v w \<Longrightarrow> json_values_equal u w"
proof (induction u v arbitrary: w rule: json_values_equal.induct)
  case (1 a b)
  then obtain c where w: "w = PDict c" by (cases w) auto
  have "\<exists>z. map_of c k = Some z \<and> json_values_equal x z" if kx: "(k, x) \<in> set a" for k x
  proof -
    from "1.prems"(1) kx obtain y where y: "map_of b k = Some y" "json_values_equal x y"
      by (fastforce simp: list_all_iff split: option.splits)
    from "1.prems"(2) y(1) w obtain z where "map_of c k = Some z" "json_values_equal y z"
      by (blast dest: json_equal_dictD)
    with "1.IH"[OF kx refl y(1)] y(2) show ?thesis by blast
  qed
  moreover have "set (keys_of a) = set (keys_of c)"
    using 1 w by simp
  ultimately show ?case using w by (fastforce simp: list_all_iff split: option.splits)
next
  case (2 xs ys)
  then obtain zs where w: "w = PList zs" by (cases w) auto
  have "json_values_equal (xs ! i) (zs ! i)" if "i < length xs" for i
  proof -
    from 2 w that have e: "json_values_equal (xs ! i) (ys ! i)" "json_values_equal (ys ! i) (zs ! i)"
      by (auto simp: list_all_length)
    from 2 that have "(xs ! i, ys ! i) \<in> set (zip xs ys)" by (auto simp: in_set_zip)
    from "2.IH"[OF this refl e] show ?thesis .
  qed
  with 2 w show ?case by (auto simp: list_all_length)
next
  case (3 f g)
  then show ?case by (cases w) (auto intro: float_eq_trans)
qed auto

end
