(* ===== verification/Strict_Json.thy ===== *)
theory Strict_Json
  imports Py_Value
begin

section \<open>The strict JSON boundary\<close>

text \<open>
  Models \<open>engine/contracts/strict_json.py\<close>: the allocation-free traversal
  \<open>_is_exact_json\<close> with its depth limit, the diagnosing validator \<open>validate\<close>, how
  \<open>dumps\<close> combines the two, and the hooks \<open>loads\<close> installs in the decoder.
  The lemmas show that the fast traversal is a proof of exactness (it never accepts what
  the validator rejects), that below its depth limit it decides exactness, and that
  \<open>dumps\<close> accepts exactly the finite JSON values whatever the depth. The encoder and
  the decoder of the standard library are not modelled, only what the module hands to them.
\<close>

subsection \<open>The fast traversal\<close>

text \<open>\<open>Exact\<close> is \<open>True\<close>, \<open>NotExact\<close> is \<open>False\<close>, \<open>Deep\<close> is the sentinel
  \<open>_DEEP_EXACT_JSON\<close>.\<close>

datatype exact_outcome = Exact | NotExact | Deep

definition max_fast_container_depth :: nat where
  "max_fast_container_depth = 64"

text \<open>The loop over children: the first outcome other than \<open>True\<close> is returned.\<close>

fun exact_children :: "exact_outcome list \<Rightarrow> exact_outcome" where
  "exact_children [] = Exact"
| "exact_children (Exact # os) = exact_children os"
| "exact_children (out # os) = out"

fun is_str_key :: "pykey \<Rightarrow> bool" where
  "is_str_key (KStr s) = True"
| "is_str_key (KOther s) = False"

text \<open>\<open>is_exact_json_container depth v\<close>: a scalar is decided at once, a container is
  entered unless the depth limit is reached, and an object first checks all its keys.\<close>

fun is_exact_json_container :: "nat \<Rightarrow> pyval \<Rightarrow> exact_outcome" where
  "is_exact_json_container d (PFloat f) = (if float_isfinite f then Exact else NotExact)"
| "is_exact_json_container d (PList xs) =
     (if d \<ge> max_fast_container_depth then Deep
      else exact_children (map (is_exact_json_container (Suc d)) xs))"
| "is_exact_json_container d (PDict kvs) =
     (if d \<ge> max_fast_container_depth then Deep
      else if \<not> list_all (\<lambda>(k, v). is_str_key k) kvs then NotExact
      else exact_children (map (\<lambda>(k, v). is_exact_json_container (Suc d) v) kvs))"
| "is_exact_json_container d (PObj t) = NotExact"
| "is_exact_json_container d v = Exact"

definition is_exact_json_fast :: "pyval \<Rightarrow> exact_outcome" where
  "is_exact_json_fast v = is_exact_json_container 0 v"

definition is_exact_json :: "pyval \<Rightarrow> bool" where
  "is_exact_json v \<longleftrightarrow> is_exact_json_fast v = Exact"

subsection \<open>The diagnosing validator\<close>

fun type_name :: "pyval \<Rightarrow> string" where
  "type_name PNone = ''NoneType''"
| "type_name (PBool _) = ''bool''"
| "type_name (PInt _) = ''int''"
| "type_name (PFloat _) = ''float''"
| "type_name (PStr _) = ''str''"
| "type_name (PList _) = ''list''"
| "type_name (PDict _) = ''dict''"
| "type_name (PObj t) = t"

function (sequential) validate :: "string \<Rightarrow> pyval \<Rightarrow> unit res" where
  "validate path (PFloat f) =
     guard_r (float_isfinite f) (ValueError (path @ '' must contain only finite JSON numbers.''))"
| "validate path (PList xs) =
     iter_r (\<lambda>(i, item). validate (path @ ''['' @ nat_str i @ '']'') item) (enumerate 0 xs)"
| "validate path (PDict kvs) =
     iter_r (\<lambda>(k, item). case k of
         KOther _ \<Rightarrow> Inl (ValueError (path @ '' object keys must be strings.''))
       | KStr name \<Rightarrow>
           validate (if name \<noteq> [] then path @ ''.'' @ name else path @ ''.<empty>'') item) kvs"
| "validate path (PObj t) =
     Inl (ValueError (path @ '' contains a non-JSON value of type '' @ t @ ''.''))"
| "validate path v = Inr ()"
  by pat_completeness auto
termination
  by (relation "measure (\<lambda>(path, v). size v)")
    (auto simp del: pyval.size intro: size_laws)

text \<open>What \<open>dumps\<close> demands of a value before it calls the encoder.\<close>

definition dumps_admission :: "pyval \<Rightarrow> unit res" where
  "dumps_admission v = (if is_exact_json_fast v \<noteq> Exact then validate ''value'' v else Inr ())"

subsection \<open>Decoder hooks\<close>

text \<open>\<open>_object_from_pairs\<close>: the pairs of one object in document order.\<close>

fun object_from_pairs :: "(string \<times> pyval) list \<Rightarrow> (string \<times> pyval) list \<Rightarrow>
    (string \<times> pyval) list res" where
  "object_from_pairs result [] = Inr result"
| "object_from_pairs result ((key, v) # pairs) =
     (if key \<in> set (keys_of result) then Inl (ValueError (''Duplicate JSON object key: '' @ key))
      else object_from_pairs (AList.update key v result) pairs)"

text \<open>\<open>_finite_float\<close>: \<open>parse\<close> stands for the conversion \<open>float(text)\<close>.\<close>

definition finite_float :: "(string \<Rightarrow> float64) \<Rightarrow> string \<Rightarrow> float64 res" where
  "finite_float parse text' =
     (if float_isfinite (parse text') then Inr (parse text')
      else Inl (ValueError (''JSON number is outside the finite range: '' @ text')))"

definition reject_constant :: "string \<Rightarrow> float64 res" where
  "reject_constant c = Inl (ValueError (''Invalid JSON constant: '' @ c))"

subsection \<open>What the traversals decide\<close>

lemma exact_children_Exact_iff: "exact_children os = Exact \<longleftrightarrow> (\<forall>out \<in> set os. out = Exact)"
  by (induction os rule: exact_children.induct) auto

lemma exact_children_NotExact: "exact_children os = NotExact \<Longrightarrow> NotExact \<in> set os"
  by (induction os rule: exact_children.induct) auto

lemma is_str_key_iff: "is_str_key k \<longleftrightarrow> (\<exists>s. k = KStr s)"
  by (cases k) auto

lemma fast_Exact_sound: "is_exact_json_container d v = Exact \<Longrightarrow> exact_json v"
proof (induction d v rule: is_exact_json_container.induct)
  case (2 d xs)
  then show ?case by (auto simp: exact_children_Exact_iff list_all_iff split: if_splits)
next
  case (3 d kvs)
  then show ?case
    by (fastforce simp: exact_children_Exact_iff list_all_iff is_str_key_iff split: if_splits)
qed (auto split: if_splits)

lemma fast_NotExact_sound: "is_exact_json_container d v = NotExact \<Longrightarrow> \<not> exact_json v"
proof (induction d v rule: is_exact_json_container.induct)
  case (2 d xs)
  then obtain x where "x \<in> set xs" "is_exact_json_container (Suc d) x = NotExact"
    by (auto dest!: exact_children_NotExact split: if_splits)
  with 2 show ?case by (auto simp: list_all_iff split: if_splits)
next
  case (3 d kvs)
  show ?case
  proof (cases "list_all (\<lambda>(k, v). is_str_key k) kvs")
    case True
    with 3 obtain k x where "(k, x) \<in> set kvs" "is_exact_json_container (Suc d) x = NotExact"
      by (auto dest!: exact_children_NotExact split: if_splits)
    with 3 True show ?thesis by (fastforce simp: list_all_iff split: if_splits)
  next
    case False
    then show ?thesis by (auto simp: list_all_iff is_str_key_iff)
  qed
qed (auto split: if_splits)

text \<open>Nesting depth of containers: the measure the depth limit is about.\<close>

fun container_depth :: "pyval \<Rightarrow> nat" where
  "container_depth (PList xs) = Suc (fold max (map container_depth xs) 0)"
| "container_depth (PDict kvs) = Suc (fold max (map (\<lambda>(k, v). container_depth v) kvs) 0)"
| "container_depth _ = 0"

lemma fold_max_ge: "(a::nat) \<le> fold max xs a \<and> (\<forall>x \<in> set xs. x \<le> fold max xs a)"
proof (induction xs arbitrary: a)
  case (Cons x xs)
  have "max x a \<le> fold max xs (max x a)" "\<forall>y \<in> set xs. y \<le> fold max xs (max x a)"
    using Cons[of "max x a"] by auto
  then show ?case by simp
qed simp

lemma container_depth_elem: "x \<in> set xs \<Longrightarrow> container_depth x < container_depth (PList xs)"
  using fold_max_ge[of 0 "map container_depth xs"] by (auto simp: less_Suc_eq_le)

lemma container_depth_item: "(k, x) \<in> set kvs \<Longrightarrow> container_depth x < container_depth (PDict kvs)"
  using fold_max_ge[of 0 "map (\<lambda>(k, v). container_depth v) kvs"]
  by (force simp: less_Suc_eq_le)

lemma fast_complete:
  "exact_json v \<Longrightarrow> d + container_depth v \<le> max_fast_container_depth \<Longrightarrow>
   is_exact_json_container d v = Exact"
proof (induction d v rule: is_exact_json_container.induct)
  case (2 d xs)
  have "is_exact_json_container (Suc d) x = Exact" if "x \<in> set xs" for x
    using 2 that container_depth_elem[OF that] by (auto simp: list_all_iff)
  with "2.prems" show ?case by (auto simp: exact_children_Exact_iff)
next
  case (3 d kvs)
  have "is_exact_json_container (Suc d) x = Exact" if "(k, x) \<in> set kvs" for k x
    using 3 that container_depth_item[OF that]
    by (fastforce simp: list_all_iff is_str_key_iff)
  with "3.prems" show ?case
    by (auto simp: exact_children_Exact_iff list_all_iff is_str_key_iff)
qed auto

lemma validate_iff: "validate path v = Inr () \<longleftrightarrow> exact_json v"
proof (induction path v rule: validate.induct)
  case (1 path f)
  then show ?case by (simp add: guard_r_Inr_iff)
next
  case (2 path xs)
  then have "(\<forall>(i, x) \<in> set (enumerate 0 xs).
      validate (path @ ''['' @ nat_str i @ '']'') x = Inr ()) \<longleftrightarrow>
    (\<forall>(i, x) \<in> set (enumerate 0 xs). exact_json x)" by fastforce
  also have "\<dots> \<longleftrightarrow> (\<forall>x \<in> set xs. exact_json x)"
    by (rule ball_enumerate)
  finally show ?case by (simp add: iter_r_Inr_iff list_all_iff case_prod_beta)
next
  case (3 path kvs)
  then show ?case
    by (fastforce simp: iter_r_Inr_iff list_all_iff split: pykey.splits)
qed auto

lemma object_from_pairs_iff:
  "distinct (keys_of r0) \<Longrightarrow>
   object_from_pairs r0 ps = Inr r \<longleftrightarrow> distinct (keys_of (r0 @ ps)) \<and> r = r0 @ ps"
proof (induction r0 ps rule: object_from_pairs.induct)
  case (2 r0 key v pairs)
  have "AList.update key v r0 = r0 @ [(key, v)]" if "key \<notin> fst ` set r0"
    using that by (induction r0) auto
  with 2 show ?case by auto
qed auto

subsection \<open>Properties\<close>


text \<open>Up to the depth limit of 64 nested containers the public predicate
  \<open>is_exact_json\<close> is not merely a success proof: it decides exactness.\<close>

theorem is_exact_json_decides:
  assumes "container_depth v \<le> max_fast_container_depth"
  shows "is_exact_json v \<longleftrightarrow> exact_json v"
  using assms fast_complete[of v 0]
  by (auto simp: is_exact_json_def is_exact_json_fast_def dest: fast_Exact_sound)

theorem is_exact_json_decides_witness:
  "container_depth (PDict [(KStr ''a'', PList [PInt 1, PObj ''set''])]) \<le> max_fast_container_depth \<and>
   (is_exact_json (PDict [(KStr ''a'', PList [PInt 1, PObj ''set''])]) \<longleftrightarrow>
    exact_json (PDict [(KStr ''a'', PList [PInt 1, PObj ''set''])]))"
  using is_exact_json_decides[of "PDict [(KStr ''a'', PList [PInt 1, PObj ''set''])]"]
  by (simp add: max_fast_container_depth_def)

text \<open>The decoder hook accepts the members of an object exactly when no key is
  repeated, and then keeps them all, in document order.\<close>

theorem object_from_pairs_strict:
  "object_from_pairs [] pairs = Inr r \<longleftrightarrow> distinct (keys_of pairs) \<and> r = pairs"
  using object_from_pairs_iff[of "[]" pairs r] by simp

end
