(* ===== verification/Data_Path.thy ===== *)
theory Data_Path
  imports Py_Value "HOL-Library.Sublist"
begin

section \<open>DataKey paths\<close>

text \<open>
  Models \<open>engine/contracts/data_path.py\<close> on values: the parser of dotted paths, reading,
  writing and deleting one path of a Data Dict, path plans and their projection. A path
  argument is a string; \<open>None\<close> stands for the sentinel \<open>_MISSING\<close>. In-place mutation
  is state passing: a write returns the new dictionary. On values the copy-on-write variants
  compute what the functions here compute; what they leave of objects shared with other owners is not modelled.
\<close>

subsection \<open>Parsing\<close>

text \<open>\<open>str.strip()\<close> for code points below 256.\<close>

definition is_space :: "char \<Rightarrow> bool" where
  "is_space c = (let n = (of_char c :: nat) in
     9 \<le> n \<and> n \<le> 13 \<or> 28 \<le> n \<and> n \<le> 32 \<or> n = 133 \<or> n = 160)"

definition strip :: "string \<Rightarrow> string" where
  "strip s = rev (dropWhile is_space (rev (dropWhile is_space s)))"

text \<open>\<open>text.split(".")\<close>\<close>

fun split_dot :: "string \<Rightarrow> string list" where
  "split_dot [] = [[]]"
| "split_dot (c # cs) =
     (if c = CHR ''.'' then [] # split_dot cs
      else case split_dot cs of [] \<Rightarrow> [[c]] | p # ps \<Rightarrow> (c # p) # ps)"

text \<open>One character of \<open>[A-Za-z0-9_-]\<close>.\<close>

definition segment_char :: "char \<Rightarrow> bool" where
  "segment_char c = (let n = (of_char c :: nat) in
     65 \<le> n \<and> n \<le> 90 \<or> 97 \<le> n \<and> n \<le> 122 \<or> 48 \<le> n \<and> n \<le> 57 \<or> n = 95 \<or> n = 45)"

definition valid_segment :: "string \<Rightarrow> bool" where
  "valid_segment p \<longleftrightarrow> p \<noteq> [] \<and> list_all segment_char p"

definition split_data_path_text :: "string \<Rightarrow> string list res" where
  "split_data_path_text text' =
     (let parts = (if text' \<noteq> [] then split_dot text' else []) in
      if parts = [] \<or> \<not> list_all valid_segment parts
      then Inl (ValueError (''Invalid DataKey path '' @ quoted text' @ ''.''))
      else Inr parts)"

definition split_data_path :: "string \<Rightarrow> string list res" where
  "split_data_path path = split_data_path_text (strip path)"

definition canonical_data_key_order :: "string \<Rightarrow> string \<Rightarrow> (string list \<times> string) res" where
  "canonical_data_key_order data_key identity =
     bind_r (split_data_path data_key) (\<lambda>parts. Inr (parts, identity))"

subsection \<open>Reading\<close>

fun find_segments :: "pyval \<Rightarrow> string list \<Rightarrow> pyval option" where
  "find_segments node [] = Some node"
| "find_segments (PDict kvs) (seg # segs) =
     (case map_of kvs (KStr seg) of None \<Rightarrow> None | Some child \<Rightarrow> find_segments child segs)"
| "find_segments _ (seg # segs) = None"

definition get_data_segments :: "pyval \<Rightarrow> string list \<Rightarrow> pyval \<Rightarrow> pyval" where
  "get_data_segments data segments default' =
     (case find_segments data segments of None \<Rightarrow> default' | Some v \<Rightarrow> v)"

definition get_data_path :: "pyval \<Rightarrow> string \<Rightarrow> pyval \<Rightarrow> pyval res" where
  "get_data_path data path default' =
     bind_r (split_data_path path) (\<lambda>segs. Inr (get_data_segments data segs default'))"

definition require_data_segments :: "pyval \<Rightarrow> string list \<Rightarrow> string option \<Rightarrow> pyval res" where
  "require_data_segments data segments path =
     (case find_segments data segments of
        None \<Rightarrow>
          (let label = (case path of Some p \<Rightarrow> p | None \<Rightarrow> join_str ''.'' segments) in
           Inl (ValueError (''Required DataKey path '' @ quoted label @
             '' is missing from the data JSON.'')))
      | Some v \<Rightarrow> Inr v)"

definition require_data_path :: "pyval \<Rightarrow> string \<Rightarrow> pyval res" where
  "require_data_path data path =
     bind_r (split_data_path path) (\<lambda>segs. require_data_segments data segs (Some path))"

subsection \<open>Writing and deleting\<close>

fun is_mapping :: "pyval \<Rightarrow> bool" where
  "is_mapping (PDict kvs) = True"
| "is_mapping _ = False"

definition collision_error :: "string list \<Rightarrow> nat \<Rightarrow> py_error" where
  "collision_error parts index =
     ValueError (''DataKey path '' @ quoted (join_str ''.'' parts) @
       '' collides with non-object path '' @ quoted (join_str ''.'' (take (Suc index) parts)) @ ''.'')"

definition structure_error :: "string list \<Rightarrow> py_error" where
  "structure_error parts =
     ValueError (''DataKey path '' @ quoted (join_str ''.'' parts) @ '' changes JSON structure.'')"

text \<open>
  The write loop at position \<open>index\<close> of \<open>parts\<close>, over the segments still to go: a
  missing ancestor is created as \<open>{}\<close>, a non-object ancestor is a collision, and the leaf
  may not change between object and non-object. The result is the updated node.
\<close>

fun write_segments :: "string list \<Rightarrow> nat \<Rightarrow> string list \<Rightarrow> (pykey \<times> pyval) list \<Rightarrow> pyval \<Rightarrow>
    (pykey \<times> pyval) list res" where
  "write_segments parts index [] node v = Inl (IndexError ''tuple index out of range'')"
| "write_segments parts index [leaf] node v =
     (case map_of node (KStr leaf) of
        None \<Rightarrow> Inr (AList.update (KStr leaf) v node)
      | Some existing \<Rightarrow>
          if is_mapping existing \<noteq> is_mapping v then Inl (structure_error parts)
          else Inr (AList.update (KStr leaf) v node))"
| "write_segments parts index (seg # seg2 # segs) node v =
     (case map_of node (KStr seg) of
        None \<Rightarrow> bind_r (write_segments parts (Suc index) (seg2 # segs) [] v)
          (\<lambda>child. Inr (AList.update (KStr seg) (PDict child) node))
      | Some (PDict existing) \<Rightarrow> bind_r (write_segments parts (Suc index) (seg2 # segs) existing v)
          (\<lambda>child. Inr (AList.update (KStr seg) (PDict child) node))
      | Some _ \<Rightarrow> Inl (collision_error parts index))"

definition set_data_segments ::
    "(pykey \<times> pyval) list \<Rightarrow> string list \<Rightarrow> pyval \<Rightarrow> (pykey \<times> pyval) list res" where
  "set_data_segments data parts v = write_segments parts 0 parts data v"

definition set_data_path ::
    "(pykey \<times> pyval) list \<Rightarrow> string \<Rightarrow> pyval \<Rightarrow> (pykey \<times> pyval) list res" where
  "set_data_path data path v =
     bind_r (split_data_path path) (\<lambda>parts. set_data_segments data parts v)"

text \<open>The variants with the explicit destination check.\<close>

definition set_data_segments_copy_on_write :: "pyval \<Rightarrow> string list \<Rightarrow> pyval \<Rightarrow> pyval res" where
  "set_data_segments_copy_on_write data parts v =
     (case data of
        PDict d \<Rightarrow> bind_r (write_segments parts 0 parts d v) (\<lambda>d'. Inr (PDict d'))
      | _ \<Rightarrow> Inl (ValueError ''Copy-on-write DataKey destination must be an object.''))"

fun remove_segments :: "string list \<Rightarrow> (pykey \<times> pyval) list \<Rightarrow> (pykey \<times> pyval) list" where
  "remove_segments [] node = node"
| "remove_segments [leaf] node = AList.delete (KStr leaf) node"
| "remove_segments (seg # seg2 # segs) node =
     (case map_of node (KStr seg) of
        Some (PDict existing) \<Rightarrow>
          AList.update (KStr seg) (PDict (remove_segments (seg2 # segs) existing)) node
      | _ \<Rightarrow> node)"

definition delete_data_segments_copy_on_write :: "pyval \<Rightarrow> string list \<Rightarrow> pyval res" where
  "delete_data_segments_copy_on_write data parts =
     (case data of
        PDict d \<Rightarrow> (if parts = [] then Inl (IndexError ''tuple index out of range'')
                    else Inr (PDict (remove_segments parts d)))
      | _ \<Rightarrow> Inl (ValueError ''Copy-on-write DataKey destination must be an object.''))"

subsection \<open>Plans and projection\<close>

text \<open>\<open>dict.fromkeys(xs)\<close>: first occurrences, in order.\<close>

definition from_keys :: "'a list \<Rightarrow> 'a list" where
  "from_keys xs = rev (remdups (rev xs))"

definition compile_data_path_plan :: "string list \<Rightarrow> (string \<times> string list) list res" where
  "compile_data_path_plan paths =
     map_r (\<lambda>path. bind_r (split_data_path path) (\<lambda>segs. Inr (path, segs))) (from_keys paths)"

fun project_plan :: "pyval \<Rightarrow> (string \<times> string list) list \<Rightarrow> (pykey \<times> pyval) list \<Rightarrow>
    (pykey \<times> pyval) list res" where
  "project_plan data [] result = Inr result"
| "project_plan data ((path, parts) # plan) result =
     (case find_segments data parts of
        None \<Rightarrow> project_plan data plan result
      | Some v \<Rightarrow> bind_r (set_data_segments result parts v) (project_plan data plan))"

definition project_compiled_data_paths ::
    "pyval \<Rightarrow> (string \<times> string list) list \<Rightarrow> (pykey \<times> pyval) list res" where
  "project_compiled_data_paths data plan = project_plan data plan []"

definition project_data_paths :: "pyval \<Rightarrow> string list \<Rightarrow> (pykey \<times> pyval) list res" where
  "project_data_paths data paths =
     bind_r (compile_data_path_plan paths) (project_compiled_data_paths data)"

subsection \<open>Parsing and printing are inverse\<close>

lemma split_dot_nonempty [simp]: "split_dot s \<noteq> []"
  by (cases s) (auto split: list.splits)

lemma join_split_dot: "join_str ''.'' (split_dot s) = s"
proof (induction s)
  case (Cons c cs)
  obtain p ps where ps: "split_dot cs = p # ps" by (cases "split_dot cs") auto
  with Cons show ?case by (cases ps) auto
qed simp

lemma split_dot_no_dot: "CHR ''.'' \<notin> set p \<Longrightarrow> split_dot p = [p]"
  by (induction p) auto

lemma split_dot_append: "CHR ''.'' \<notin> set p \<Longrightarrow> split_dot (p @ CHR ''.'' # s) = p # split_dot s"
  by (induction p) auto

lemma split_dot_join:
  "parts \<noteq> [] \<Longrightarrow> \<forall>p \<in> set parts. CHR ''.'' \<notin> set p \<Longrightarrow> split_dot (join_str ''.'' parts) = parts"
proof (induction parts rule: induct_list012)
  case (3 x y zs)
  then show ?case by (simp add: split_dot_append)
qed (auto simp: split_dot_no_dot)

lemma valid_segment_chars:
  assumes "valid_segment p" and "c \<in> set p"
  shows "c \<noteq> CHR ''.''" and "\<not> is_space c"
  using assms by (auto simp: valid_segment_def list_all_iff segment_char_def is_space_def Let_def)

lemma strip_no_space: "\<forall>c \<in> set s. \<not> is_space c \<Longrightarrow> strip s = s"
proof -
  assume ns: "\<forall>c \<in> set s. \<not> is_space c"
  have dw: "dropWhile is_space xs = xs" if "\<forall>c \<in> set xs. \<not> is_space c" for xs
    using that by (cases xs) auto
  from dw[OF ns] dw[of "rev s"] ns show ?thesis by (simp add: strip_def)
qed

lemma join_no_space:
  "list_all valid_segment parts \<Longrightarrow> \<forall>c \<in> set (join_str ''.'' parts). \<not> is_space c"
proof (induction parts rule: induct_list012)
  case (3 x y zs)
  then show ?case using valid_segment_chars(2) by (auto simp: is_space_def Let_def)
qed (use valid_segment_chars(2) in auto)

lemma split_text_iff:
  "split_data_path_text t = Inr parts \<longleftrightarrow>
     parts \<noteq> [] \<and> list_all valid_segment parts \<and> t = join_str ''.'' parts"
proof
  assume "split_data_path_text t = Inr parts"
  then show "parts \<noteq> [] \<and> list_all valid_segment parts \<and> t = join_str ''.'' parts"
    by (auto simp: split_data_path_text_def Let_def join_split_dot split: if_splits)
next
  assume r: "parts \<noteq> [] \<and> list_all valid_segment parts \<and> t = join_str ''.'' parts"
  have "split_dot t = parts"
    using r valid_segment_chars(1) by (auto simp: list_all_iff intro!: split_dot_join)
  moreover from this r have "t \<noteq> []"
    by (auto simp: valid_segment_def)
  ultimately show "split_data_path_text t = Inr parts"
    using r by (simp add: split_data_path_text_def)
qed

lemma split_data_path_segments:
  "split_data_path p = Inr parts \<Longrightarrow> parts \<noteq> [] \<and> list_all valid_segment parts"
  by (simp add: split_data_path_def split_text_iff)

subsection \<open>Reading what was written\<close>

text \<open>
  The contract of a store addressed by paths. \<open>read_below\<close> covers the written path
  itself and everything under it; \<open>read_apart\<close> says that a write is invisible on every
  path that is neither above nor below it.
\<close>

locale path_store =
  fixes read_at :: "'s \<Rightarrow> string list \<Rightarrow> pyval option"
    and write_at :: "'s \<Rightarrow> string list \<Rightarrow> pyval \<Rightarrow> 's res"
  assumes read_below: "write_at s p v = Inr s' \<Longrightarrow> read_at s' (p @ q) = find_segments v q"
    and read_apart: "write_at s p v = Inr s' \<Longrightarrow> \<not> prefix p q \<Longrightarrow> \<not> prefix q p \<Longrightarrow>
      read_at s' q = read_at s q"
begin

lemma read_written: "write_at s p v = Inr s' \<Longrightarrow> read_at s' p = Some v"
  using read_below[of s p v s' "[]"] by simp

fun write_many :: "'s \<Rightarrow> (string list \<times> pyval) list \<Rightarrow> 's res" where
  "write_many s [] = Inr s"
| "write_many s ((p, v) # ws) = bind_r (write_at s p v) (\<lambda>s'. write_many s' ws)"

text \<open>A batch of writes to paths that are pairwise apart can be read back entry by entry, so
  the order of such a batch does not matter to any reader of these paths.\<close>

lemma write_many_untouched:
  "write_many s ws = Inr s' \<Longrightarrow> \<forall>(p, v) \<in> set ws. \<not> prefix p q \<and> \<not> prefix q p \<Longrightarrow>
   read_at s' q = read_at s q"
proof (induction ws arbitrary: s)
  case (Cons w ws)
  obtain p v where w: "w = (p, v)" by force
  from Cons.prems w obtain s1 where s1: "write_at s p v = Inr s1" "write_many s1 ws = Inr s'"
    by (auto simp: bind_r_Inr_iff)
  with Cons w have "read_at s' q = read_at s1 q" by auto
  with read_apart[OF s1(1)] Cons.prems w show ?case by auto
qed simp

lemma write_many_read:
  assumes "write_many s (ws1 @ (p, v) # ws2) = Inr s'"
    and "\<forall>(q, u) \<in> set ws2. \<not> prefix p q \<and> \<not> prefix q p"
  shows "read_at s' p = Some v"
proof -
  have split: "write_many s (a @ b) = bind_r (write_many s a) (\<lambda>t. write_many t b)" for s a b
    by (induction a arbitrary: s) (auto simp: bind_r_def split: sum.split)
  from assms(1) obtain t u where t: "write_at t p v = Inr u" "write_many u ws2 = Inr s'"
    by (auto simp: split bind_r_Inr_iff)
  with assms(2) have "read_at s' p = read_at u p"
    by (intro write_many_untouched) auto
  with read_written[OF t(1)] show ?thesis by simp
qed

end

lemma find_segments_append:
  "find_segments v (p @ q) = (case find_segments v p of None \<Rightarrow> None | Some w \<Rightarrow> find_segments w q)"
  by (induction v p rule: find_segments.induct) (auto split: option.splits)

lemma find_update_same [simp]:
  "find_segments (PDict (AList.update (KStr k) v d)) (k # q) = find_segments v q"
  by simp

lemma find_update_other [simp]:
  "k \<noteq> k' \<Longrightarrow> find_segments (PDict (AList.update (KStr k) v d)) (k' # q) = find_segments (PDict d) (k' # q)"
  by simp

lemma write_segments_below:
  "write_segments parts i p d v = Inr d' \<Longrightarrow> find_segments (PDict d') (p @ q) = find_segments v q"
proof (induction parts i p d v arbitrary: d' rule: write_segments.induct)
  case (3 parts i seg seg2 segs node v)
  then obtain e c where "write_segments parts (Suc i) (seg2 # segs) e v = Inr c"
      "d' = AList.update (KStr seg) (PDict c) node"
      "map_of node (KStr seg) = None \<and> e = [] \<or> map_of node (KStr seg) = Some (PDict e)"
    by (auto simp: bind_r_Inr_iff split: option.splits pyval.splits)
  with "3.IH" show ?case by auto
qed (auto split: option.splits if_splits)

lemma write_segments_apart:
  "write_segments parts i p d v = Inr d' \<Longrightarrow> \<not> prefix p q \<Longrightarrow> \<not> prefix q p \<Longrightarrow>
   find_segments (PDict d') q = find_segments (PDict d) q"
proof (induction parts i p d v arbitrary: d' q rule: write_segments.induct)
  case (3 parts i seg seg2 segs node v)
  then obtain e c where e: "write_segments parts (Suc i) (seg2 # segs) e v = Inr c"
      "d' = AList.update (KStr seg) (PDict c) node"
      "map_of node (KStr seg) = None \<and> e = [] \<or> map_of node (KStr seg) = Some (PDict e)"
    by (auto simp: bind_r_Inr_iff split: option.splits pyval.splits)
  obtain k q' where q: "q = k # q'" using "3.prems" by (cases q) auto
  show ?case
  proof (cases "k = seg")
    case True
    with "3.prems" q have ap: "\<not> prefix (seg2 # segs) q'" "\<not> prefix q' (seg2 # segs)" by auto
    then obtain k2 q2 where q2: "q' = k2 # q2" by (cases q') auto
    from e(3) have "find_segments (PDict c) q' = find_segments (PDict e) q'"
      using "3.IH" e(1) ap by auto
    with e q q2 True show ?thesis by auto
  next
    case False
    with e q show ?thesis by simp
  qed
next
  case (2 parts i leaf node v)
  then obtain k q' where q: "q = k # q'" by (cases q) auto
  with 2 show ?case by (auto split: option.splits if_splits)
qed auto

interpretation ds: path_store "\<lambda>d. find_segments (PDict d)" set_data_segments
  by unfold_locales
    (auto simp: set_data_segments_def intro: write_segments_below write_segments_apart)

interpretation cow: path_store find_segments set_data_segments_copy_on_write
  by unfold_locales
    (auto simp: set_data_segments_copy_on_write_def bind_r_Inr_iff split: pyval.splits
      intro: write_segments_below write_segments_apart)

subsection \<open>When a write is refused\<close>

text \<open>The runtime condition of a write: every ancestor that exists is an object, and an
  existing leaf keeps its kind.\<close>

fun writable :: "string list \<Rightarrow> pyval \<Rightarrow> pyval \<Rightarrow> bool" where
  "writable [] node v = False"
| "writable [leaf] node v =
     (case find_segments node [leaf] of None \<Rightarrow> True | Some e \<Rightarrow> is_mapping e = is_mapping v)"
| "writable (seg # seg2 # segs) node v =
     (case find_segments node [seg] of None \<Rightarrow> True
      | Some e \<Rightarrow> is_mapping e \<and> writable (seg2 # segs) e v)"

lemma is_mapping_iff: "is_mapping v \<longleftrightarrow> (\<exists>d. v = PDict d)"
  by (cases v) auto

lemma write_fresh: "p \<noteq> [] \<Longrightarrow> \<exists>d'. write_segments parts i p [] v = Inr d'"
  by (induction p arbitrary: i rule: induct_list012) (auto simp: bind_r_Inr_iff)

lemma write_segments_iff:
  "(\<exists>d'. write_segments parts i p d v = Inr d') \<longleftrightarrow> writable p (PDict d) v"
proof (induction parts i p d v rule: write_segments.induct)
  case (3 parts i seg seg2 segs node v)
  show ?case
  proof (cases "map_of node (KStr seg)")
    case None
    then show ?thesis
      using write_fresh[of "seg2 # segs" parts "Suc i" v] by (auto simp: bind_r_Inr_iff)
  next
    case (Some e)
    with 3 show ?thesis by (cases e) (auto simp: bind_r_Inr_iff)
  qed
qed (auto split: option.splits)

subsection \<open>Deletion\<close>

lemma remove_segments_gone: "p \<noteq> [] \<Longrightarrow> find_segments (PDict (remove_segments p d)) p = None"
proof (induction p d rule: remove_segments.induct)
  case (3 seg seg2 segs node)
  then show ?case
    by (cases "map_of node (KStr seg)")
      (auto split: pyval.splits option.splits)
qed auto

lemma remove_segments_apart:
  "\<not> prefix p q \<Longrightarrow> \<not> prefix q p \<Longrightarrow>
   find_segments (PDict (remove_segments p d)) q = find_segments (PDict d) q"
proof (induction p d arbitrary: q rule: remove_segments.induct)
  case (2 leaf node)
  then show ?case by (cases q) auto
next
  case (3 seg seg2 segs node)
  from 3 obtain k q' where q: "q = k # q'" by (cases q) auto
  show ?case
  proof (cases "\<exists>e. map_of node (KStr seg) = Some (PDict e)")
    case True
    then obtain e where e: "map_of node (KStr seg) = Some (PDict e)" by blast
    from 3 q e show ?thesis by (cases "k = seg") auto
  next
    case False
    then have "remove_segments (seg # seg2 # segs) node = node"
      by (auto split: option.splits pyval.splits)
    then show ?thesis by simp
  qed
qed auto

subsection \<open>Projection\<close>

text \<open>\<open>part_of r d\<close>: the projected value \<open>r\<close> is \<open>d\<close> itself or an object holding parts of
  members of \<open>d\<close>.\<close>

inductive part_of :: "pyval \<Rightarrow> pyval \<Rightarrow> bool" where
  whole: "part_of v v"
| members: "(\<And>k r. map_of rs k = Some r \<Longrightarrow> \<exists>d. map_of ds k = Some d \<and> part_of r d) \<Longrightarrow>
    part_of (PDict rs) (PDict ds)"

inductive_cases part_of_dictE: "part_of (PDict rs) (PDict ds)"

lemma part_of_member:
  "part_of (PDict rs) (PDict ds) \<Longrightarrow> map_of rs k = Some r \<Longrightarrow> \<exists>d. map_of ds k = Some d \<and> part_of r d"
  by (auto elim!: part_of_dictE intro: part_of.whole)

lemma part_of_mapping: "part_of r d \<Longrightarrow> is_mapping r = is_mapping d"
  by (auto elim: part_of.cases)

lemma part_of_find:
  "part_of r d \<Longrightarrow> find_segments r q = Some x \<Longrightarrow> \<exists>y. find_segments d q = Some y \<and> part_of x y"
proof (induction r q arbitrary: d rule: find_segments.induct)
  case (2 rs seg segs)
  then obtain ds where d: "d = PDict ds"
    using part_of_mapping[of "PDict rs" d] by (auto simp: is_mapping_iff)
  from "2.prems" obtain c where c: "map_of rs (KStr seg) = Some c" "find_segments c segs = Some x"
    by (auto split: option.splits)
  from part_of_member[OF "2.prems"(1)[unfolded d] c(1)] obtain e
    where "map_of ds (KStr seg) = Some e" "part_of c e" by blast
  with "2.IH"[OF c(1) _ c(2)] d show ?case by auto
qed auto

lemma part_of_update:
  "part_of (PDict rs) (PDict ds) \<Longrightarrow> map_of ds k = Some d \<Longrightarrow> part_of r d \<Longrightarrow>
   part_of (PDict (AList.update k r rs)) (PDict ds)"
  by (rule part_of.members) (auto dest: part_of_member split: if_splits)

lemma part_of_empty: "part_of (PDict []) (PDict ds)"
  by (rule part_of.members) simp

text \<open>Writing a value of the source at its own path never collides and stays within the
  source.\<close>

lemma write_part:
  "part_of (PDict rs) (PDict ds) \<Longrightarrow> p \<noteq> [] \<Longrightarrow> find_segments (PDict ds) p = Some v \<Longrightarrow>
   \<exists>rs'. write_segments parts i p rs v = Inr rs' \<and> part_of (PDict rs') (PDict ds)"
proof (induction p arbitrary: i rs ds rule: induct_list012)
  case (2 leaf)
  then have v: "map_of ds (KStr leaf) = Some v" by (auto split: option.splits)
  have "is_mapping e = is_mapping v" if "map_of rs (KStr leaf) = Some e" for e
    using part_of_member[OF "2.prems"(1) that] v part_of_mapping by fastforce
  then show ?case
    using part_of_update[OF "2.prems"(1) v part_of.whole] by (auto split: option.splits)
next
  case (3 seg seg2 segs)
  then obtain c where c: "map_of ds (KStr seg) = Some c" "find_segments c (seg2 # segs) = Some v"
    by (auto split: option.splits)
  then obtain ds1 where ds1: "c = PDict ds1" by (cases c) auto
  have sub: "\<exists>rs'. write_segments parts (Suc i) (seg2 # segs) e v = Inr rs' \<and>
      part_of (PDict rs') (PDict ds1)" if "part_of (PDict e) (PDict ds1)" for e
    using "3.IH"(2)[OF that] c ds1 by simp
  show ?case
  proof (cases "map_of rs (KStr seg)")
    case None
    with sub[OF part_of_empty] c ds1 show ?thesis
      using part_of_update[OF "3.prems"(1) c(1)] by auto
  next
    case (Some r)
    from part_of_member[OF "3.prems"(1) Some] c ds1 have r: "part_of r (PDict ds1)" by simp
    with part_of_mapping[OF r] obtain e where e: "r = PDict e" by (auto simp: is_mapping_iff)
    with sub r Some c ds1 show ?thesis
      using part_of_update[OF "3.prems"(1) c(1)] by fastforce
  qed
qed simp

lemma update_noop: "map_of d k = Some v \<Longrightarrow> AList.update k v d = d"
  by (induction d) (auto split: if_splits)

lemma write_noop: "p \<noteq> [] \<Longrightarrow> find_segments (PDict d) p = Some v \<Longrightarrow> write_segments parts i p d v = Inr d"
proof (induction p arbitrary: i d rule: induct_list012)
  case (3 seg seg2 segs)
  then obtain e where "map_of d (KStr seg) = Some (PDict e)" "find_segments (PDict e) (seg2 # segs) = Some v"
    by (auto split: option.splits elim: find_segments.elims)
  with 3 show ?case by (simp add: update_noop)
qed (auto simp: update_noop split: option.splits)

lemma write_above:
  "write_segments parts i (q @ t) r v = Inr r' \<Longrightarrow> t \<noteq> [] \<Longrightarrow>
   find_segments (PDict r) q = Some (PDict e) \<Longrightarrow>
   \<exists>e'. write_segments parts (i + length q) t e v = Inr e' \<and> find_segments (PDict r') q = Some (PDict e')"
proof (induction q arbitrary: i r r')
  case (Cons seg q)
  from Cons.prems obtain c where c: "map_of r (KStr seg) = Some c" "find_segments c q = Some (PDict e)"
    by (auto split: option.splits)
  obtain x xs where x: "q @ t = x # xs" using Cons.prems(2) by (cases "q @ t") auto
  from Cons.prems(1) c(1) x obtain e1 c' where e1: "c = PDict e1"
      "write_segments parts (Suc i) (q @ t) e1 v = Inr c'"
      "r' = AList.update (KStr seg) (PDict c') r"
    by (auto simp: bind_r_Inr_iff split: pyval.splits)
  from Cons.IH[OF e1(2) Cons.prems(2)] c e1 show ?case by simp
qed auto

lemma write_keeps_projected:
  assumes w: "write_segments parts i p r v = Inr r'" and p: "p \<noteq> []"
    and src: "find_segments d p = Some v"
    and q: "find_segments (PDict r) q = find_segments d q"
  shows "find_segments (PDict r') q = find_segments d q"
proof -
  consider (apart) "\<not> prefix p q" "\<not> prefix q p" | (below) t where "q = p @ t"
    | (above) t where "p = q @ t" "t \<noteq> []"
    by (metis append_Nil2 prefix_def)
  then show ?thesis
  proof cases
    case apart
    with write_segments_apart[OF w] q show ?thesis by simp
  next
    case (below t)
    with write_segments_below[OF w] src show ?thesis by (simp add: find_segments_append)
  next
    case (above t)
    with src obtain x where x: "find_segments d q = Some x" "find_segments x t = Some v"
      by (auto simp: find_segments_append split: option.splits)
    with above(2) obtain e where e: "x = PDict e" by (cases x; cases t) auto
    from write_above[OF w[unfolded above(1)] above(2)] q x e
    obtain e' where "write_segments parts (i + length q) t e v = Inr e'"
        "find_segments (PDict r') q = Some (PDict e')" by auto
    moreover have "write_segments parts (i + length q) t e v = Inr e"
      using write_noop[OF above(2)] x e by simp
    ultimately show ?thesis using x e by simp
  qed
qed

lemma project_plan_correct:
  "list_all (\<lambda>(path, parts). parts \<noteq> []) plan \<Longrightarrow> part_of (PDict r) (PDict d) \<Longrightarrow>
   \<forall>q \<in> done'. find_segments (PDict r) q = find_segments (PDict d) q \<Longrightarrow>
   \<exists>r'. project_plan (PDict d) plan r = Inr r' \<and> part_of (PDict r') (PDict d) \<and>
     (\<forall>q \<in> done' \<union> snd ` set plan. find_segments (PDict r') q = find_segments (PDict d) q)"
proof (induction plan arbitrary: r done')
  case (Cons pp plan)
  obtain path parts where pp: "pp = (path, parts)" by force
  show ?case
  proof (cases "find_segments (PDict d) parts")
    case None
    have "find_segments (PDict r) parts = None"
      using part_of_find[OF Cons.prems(2), of parts] None
      by (cases "find_segments (PDict r) parts") auto
    with Cons.prems Cons.IH[of r "insert parts done'"] None pp show ?thesis by auto
  next
    case (Some v)
    from Cons.prems pp have ne: "parts \<noteq> []" by simp
    from write_part[OF Cons.prems(2) ne Some] obtain r1 where
      r1: "write_segments parts 0 parts r v = Inr r1" "part_of (PDict r1) (PDict d)" by blast
    have "find_segments (PDict r1) parts = find_segments (PDict d) parts"
      using write_segments_below[OF r1(1), of "[]"] Some by simp
    moreover have "\<forall>q \<in> done'. find_segments (PDict r1) q = find_segments (PDict d) q"
      using write_keeps_projected[OF r1(1) ne Some] Cons.prems(3) by blast
    ultimately show ?thesis
      using Cons.prems Cons.IH[of r1 "insert parts done'"] r1 Some pp
      by (auto simp: set_data_segments_def)
  qed
qed auto

subsection \<open>Properties\<close>

text \<open>\<^bold>\<open>C36\<close>. The path parser accepts exactly the non-empty dotted sequences of segments over
  \<open>[A-Za-z0-9_-]\<close> (surrounding blanks aside), and it is the inverse of joining with
  dots: what it returns is the unique segment list that prints as the stripped text.\<close>

theorem split_data_path_iff:
  "split_data_path path = Inr parts \<longleftrightarrow>
     parts \<noteq> [] \<and> list_all valid_segment parts \<and> strip path = join_str ''.'' parts"
  by (simp add: split_data_path_def split_text_iff)

text \<open>\<^bold>\<open>C35\<close>. After a successful write every reader of the written path, or of a path below
  it, sees the written value, and a reader of a path apart from it sees what was there
  before.\<close>

theorem set_data_segments_read:
  assumes "set_data_segments data parts v = Inr data'"
  shows "find_segments (PDict data') (parts @ q) = find_segments v q \<and>
    (\<not> prefix parts p \<and> \<not> prefix p parts \<longrightarrow>
      find_segments (PDict data') p = find_segments (PDict data) p)"
  using ds.read_below[OF assms] ds.read_apart[OF assms] by blast

theorem set_data_segments_read_witness:
  "set_data_segments [(KStr ''b'', PInt 7)] [''a'', ''x''] (PInt 1) =
     Inr [(KStr ''b'', PInt 7), (KStr ''a'', PDict [(KStr ''x'', PInt 1)])] \<and>
   find_segments (PDict [(KStr ''b'', PInt 7), (KStr ''a'', PDict [(KStr ''x'', PInt 1)])])
     ([''a'', ''x''] @ []) = find_segments (PInt 1) [] \<and>
   find_segments (PDict [(KStr ''b'', PInt 7), (KStr ''a'', PDict [(KStr ''x'', PInt 1)])]) [''b'']
     = find_segments (PDict [(KStr ''b'', PInt 7)]) [''b'']"
proof -
  let ?d' = "[(KStr ''b'', PInt 7), (KStr ''a'', PDict [(KStr ''x'', PInt 1)])]"
  have w: "set_data_segments [(KStr ''b'', PInt 7)] [''a'', ''x''] (PInt 1) = Inr ?d'"
    by (simp add: set_data_segments_def)
  have "\<not> prefix [''a'', ''x''] [''b'']" "\<not> prefix [''b''] [''a'', ''x'']" by simp_all
  with w set_data_segments_read[OF w] show ?thesis by blast
qed

text \<open>A write is refused exactly when an existing ancestor is not an object or an
  existing leaf would change between object and non-object; in every other case it
  succeeds.\<close>

theorem set_data_segments_refused_iff:
  "(\<exists>data'. set_data_segments data parts v = Inr data') \<longleftrightarrow> writable parts (PDict data) v"
  by (simp add: set_data_segments_def write_segments_iff)

text \<open>\<^bold>\<open>C34\<close>. Projecting a Data Dict along a compiled path plan never raises, whatever the
  overlap between the requested paths; the projection holds at every requested path exactly
  what the source holds there (and nothing where the source has nothing), and contains
  nothing that is not part of the source.\<close>

theorem project_data_paths_correct:
  assumes "compile_data_path_plan paths = Inr plan"
  shows "\<exists>r. project_data_paths (PDict d) paths = Inr r \<and> part_of (PDict r) (PDict d) \<and>
    (\<forall>parts \<in> snd ` set plan. find_segments (PDict r) parts = find_segments (PDict d) parts)"
proof -
  have "list_all (\<lambda>(path, parts). parts \<noteq> []) plan"
    using assms unfolding compile_data_path_plan_def map_r_Inr_iff
    by (auto simp: list_all2_conv_all_nth list_all_length bind_r_Inr_iff dest!: split_data_path_segments)
  from project_plan_correct[OF this part_of_empty, of "{}" d] show ?thesis
    by (simp add: project_data_paths_def project_compiled_data_paths_def assms)
qed

theorem project_data_paths_correct_witness:
  "compile_data_path_plan [''a.x'', ''a'', ''b''] =
     Inr [(''a.x'', [''a'', ''x'']), (''a'', [''a'']), (''b'', [''b''])] \<and>
   (\<exists>r. project_data_paths (PDict [(KStr ''a'', PDict [(KStr ''y'', PInt 2), (KStr ''x'', PInt 1)])])
      [''a.x'', ''a'', ''b''] = Inr r)"
proof -
  have plan: "compile_data_path_plan [''a.x'', ''a'', ''b''] =
      Inr [(''a.x'', [''a'', ''x'']), (''a'', [''a'']), (''b'', [''b''])]"
    by code_simp
  with project_data_paths_correct[OF plan] show ?thesis by blast
qed

text \<open>Deleting a path removes it and leaves every path apart from it as it was, also
  when an ancestor is missing.\<close>

theorem delete_data_segments_correct:
  assumes "delete_data_segments_copy_on_write (PDict d) parts = Inr data'"
  shows "find_segments data' parts = None \<and>
    (\<not> prefix parts q \<and> \<not> prefix q parts \<longrightarrow> find_segments data' q = find_segments (PDict d) q)"
  using assms
  by (auto simp: delete_data_segments_copy_on_write_def remove_segments_gone remove_segments_apart
      split: if_splits)

theorem delete_data_segments_correct_witness:
  "find_segments (PDict [(KStr ''a'', PDict [(KStr ''y'', PInt 2)])]) [''a'', ''x''] = None"
proof -
  have d: "delete_data_segments_copy_on_write
      (PDict [(KStr ''a'', PDict [(KStr ''x'', PInt 1), (KStr ''y'', PInt 2)])]) [''a'', ''x''] =
    Inr (PDict [(KStr ''a'', PDict [(KStr ''y'', PInt 2)])])"
    by (simp add: delete_data_segments_copy_on_write_def)
  show ?thesis using delete_data_segments_correct[OF d] by blast
qed

end
