(* ===== verification/Data_Model.thy ===== *)
theory Data_Model
  imports Strict_Json Data_Path
begin

section \<open>Recursive JSON Schema contracts\<close>

text \<open>
  Models \<open>engine/contracts/data_model.py\<close>. A contract is a JSON Schema in the Engine's
  transportable subset. Raw contracts are Python values; \<open>normalize_schema\<close> parses one
  into a \<open>schema\<close>: \<open>SFalse\<close> is the schema \<open>False\<close>, \<open>SObj k\<close> is a schema object
  whose keywords are the fields of \<open>k\<close> (\<open>None\<close> is an absent keyword), and \<open>STrue\<close>
  only occurs as the value of \<open>additionalProperties\<close>. \<open>schema_to_py\<close> is the dictionary
  the code keeps for it, up to the order of keywords, which no operation observes.
  \<open>validate_normalized\<close> is the reference validator, \<open>compile_validation_plan\<close> and
  \<open>compiled_validation_failure\<close> the compiled one.
\<close>

subsection \<open>Types and schemas\<close>

datatype jtype = JNull | JBoolean | JObject | JArray | JNumber | JInteger | JString

fun jtype_name :: "jtype \<Rightarrow> string" where
  "jtype_name JNull = ''null''"
| "jtype_name JBoolean = ''boolean''"
| "jtype_name JObject = ''object''"
| "jtype_name JArray = ''array''"
| "jtype_name JNumber = ''number''"
| "jtype_name JInteger = ''integer''"
| "jtype_name JString = ''string''"

definition json_types :: "jtype list" where
  "json_types = [JNull, JBoolean, JObject, JArray, JNumber, JInteger, JString]"

definition jtype_of :: "string \<Rightarrow> jtype option" where
  "jtype_of s = find (\<lambda>t. jtype_name t = s) json_types"

datatype 's kws = Kws
  (kw_type: "jtype list option")
  (kw_props: "(string \<times> 's) list option")
  (kw_required: "string list option")
  (kw_additional: "'s option")
  (kw_items: "'s option")
  (kw_enum: "pyval list option")
  (kw_const: "pyval option")
  (kw_any: "'s list option")
  (kw_one: "'s list option")
  (kw_all: "'s list option")
  (kw_annot: "(string \<times> pyval) list")

datatype schema = STrue | SFalse | SObj "schema kws"

definition no_kws :: "'s kws" where
  "no_kws = Kws None None None None None None None None None None []"

lemma no_kws_sel [simp]:
  "kw_type no_kws = None" "kw_props no_kws = None" "kw_required no_kws = None"
  "kw_additional no_kws = None" "kw_items no_kws = None" "kw_enum no_kws = None"
  "kw_const no_kws = None" "kw_any no_kws = None" "kw_one no_kws = None" "kw_all no_kws = None"
  "kw_annot no_kws = []"
  by (simp_all add: no_kws_def)

abbreviation any_schema :: schema where
  "any_schema \<equiv> SObj no_kws"

text \<open>\<open>schema.get(keyword, [])\<close>\<close>

definition opt_list :: "'a list option \<Rightarrow> 'a list" where
  "opt_list x = (case x of None \<Rightarrow> [] | Some xs \<Rightarrow> xs)"

lemma opt_list_simps [simp]: "opt_list None = []" "opt_list (Some xs) = xs"
  by (simp_all add: opt_list_def)

lemma opt_list_mem: "x \<in> set (opt_list o') \<Longrightarrow> \<exists>xs. o' = Some xs \<and> x \<in> set xs"
  by (cases o') auto

subsubsection \<open>Sub-schemas\<close>

lemma kws_members [size_laws]:
  "kw_props k = Some ps \<Longrightarrow> (n, s) \<in> set ps \<Longrightarrow> s \<in> set_kws k"
  "kw_additional k = Some s \<Longrightarrow> s \<in> set_kws k"
  "kw_items k = Some s \<Longrightarrow> s \<in> set_kws k"
  "kw_any k = Some bs \<Longrightarrow> s \<in> set bs \<Longrightarrow> s \<in> set_kws k"
  "kw_one k = Some bs \<Longrightarrow> s \<in> set bs \<Longrightarrow> s \<in> set_kws k"
  "kw_all k = Some bs \<Longrightarrow> s \<in> set bs \<Longrightarrow> s \<in> set_kws k"
  by (cases k; force)+

lemma size_option_mem: "x = Some y \<Longrightarrow> f y \<le> size_option f x"
  by simp

lemma size_kws_mem: "s \<in> set_kws k \<Longrightarrow> size s < size (SObj k)"
proof (cases k)
  case (Kws ty ps req ad it en co an on al anno)
  assume "s \<in> set_kws k"
  then consider (props) xs n where "ps = Some xs" "(n, s) \<in> set xs" | (add) "ad = Some s"
    | (items) "it = Some s" | (any) xs where "an = Some xs" "s \<in> set xs"
    | (one) xs where "on = Some xs" "s \<in> set xs" | (all) xs where "al = Some xs" "s \<in> set xs"
    by (auto simp: Kws)
  then show ?thesis
  proof cases
    case props
    then have "size_prod (\<lambda>_. 0) size (n, s) \<le> size_list (size_prod (\<lambda>_. 0) size) xs"
      by (intro size_list_mem_le)
    with props show ?thesis by (simp add: Kws)
  next
    case any
    then show ?thesis using size_list_mem_le[of s xs size] by (simp add: Kws)
  next
    case one
    then show ?thesis using size_list_mem_le[of s xs size] by (simp add: Kws)
  next
    case all
    then show ?thesis using size_list_mem_le[of s xs size] by (simp add: Kws)
  qed (simp_all add: Kws)
qed

lemmas size_sub [size_laws] = kws_members [THEN size_kws_mem]

lemma kws_opt_members:
  "(n, s) \<in> set (opt_list (kw_props k)) \<Longrightarrow> s \<in> set_kws k"
  "s \<in> set (opt_list (kw_any k)) \<Longrightarrow> s \<in> set_kws k"
  "s \<in> set (opt_list (kw_one k)) \<Longrightarrow> s \<in> set_kws k"
  "s \<in> set (opt_list (kw_all k)) \<Longrightarrow> s \<in> set_kws k"
  by (auto dest!: opt_list_mem intro: kws_members)

lemmas size_sub_opt [size_laws] = kws_opt_members [THEN size_kws_mem]

subsubsection \<open>The dictionary behind a schema\<close>

definition opt_entry :: "string \<Rightarrow> ('a \<Rightarrow> pyval) \<Rightarrow> 'a option \<Rightarrow> (pykey \<times> pyval) list" where
  "opt_entry key f x = (case x of None \<Rightarrow> [] | Some v \<Rightarrow> [(KStr key, f v)])"

definition type_to_py :: "jtype list \<Rightarrow> pyval" where
  "type_to_py ts = (case ts of [t] \<Rightarrow> PStr (jtype_name t) | _ \<Rightarrow> PList (map (PStr \<circ> jtype_name) ts))"

lemma opt_entry_cong [fundef_cong]:
  "key = key' \<Longrightarrow> x = x' \<Longrightarrow> (\<And>v. x' = Some v \<Longrightarrow> f v = g v) \<Longrightarrow> opt_entry key f x = opt_entry key' g x'"
  by (auto simp: opt_entry_def split: option.splits)

function (sequential) schema_to_py :: "schema \<Rightarrow> pyval" where
  "schema_to_py STrue = PBool True"
| "schema_to_py SFalse = PBool False"
| "schema_to_py (SObj k) = PDict (
     opt_entry ''type'' type_to_py (kw_type k) @
     opt_entry ''properties'' (\<lambda>ps. PDict (map (\<lambda>(n, s). (KStr n, schema_to_py s)) ps)) (kw_props k) @
     opt_entry ''required'' (\<lambda>ns. PList (map PStr ns)) (kw_required k) @
     opt_entry ''additionalProperties'' (\<lambda>s. schema_to_py s) (kw_additional k) @
     opt_entry ''items'' (\<lambda>s. schema_to_py s) (kw_items k) @
     opt_entry ''enum'' PList (kw_enum k) @
     opt_entry ''const'' (\<lambda>v. v) (kw_const k) @
     opt_entry ''anyOf'' (\<lambda>bs. PList (map schema_to_py bs)) (kw_any k) @
     opt_entry ''oneOf'' (\<lambda>bs. PList (map schema_to_py bs)) (kw_one k) @
     opt_entry ''allOf'' (\<lambda>bs. PList (map schema_to_py bs)) (kw_all k) @
     map (\<lambda>(n, v). (KStr n, v)) (kw_annot k))"
  by pat_completeness auto
termination
  by (relation "measure size") (auto simp del: schema.size intro: size_sub)

subsection \<open>Types of a schema\<close>

definition declared_types :: "schema kws \<Rightarrow> jtype list" where
  "declared_types k = opt_list (kw_type k)"

text \<open>\<open>True\<close> is never asked for its types.\<close>

fun normalized_schema_types :: "schema \<Rightarrow> jtype list" where
  "normalized_schema_types STrue = []"
| "normalized_schema_types SFalse = []"
| "normalized_schema_types (SObj k) =
     (if declared_types k \<noteq> [] then declared_types k
      else if kw_props k \<noteq> None \<or> kw_required k \<noteq> None then [JObject]
      else if kw_items k \<noteq> None then [JArray]
      else json_types)"

fun normalized_schema_label :: "schema \<Rightarrow> string" where
  "normalized_schema_label STrue = []"
| "normalized_schema_label SFalse = ''never''"
| "normalized_schema_label (SObj k) =
     (if k = no_kws then ''any JSON''
      else let types = normalized_schema_types (SObj k) in
        if set types = {JObject} \<and> opt_list (kw_props k) \<noteq> []
        then ''object{'' @ join_str '', '' (keys_of (opt_list (kw_props k))) @ ''}''
        else join_str '' | '' (sorted_set (map jtype_name types)))"

fun json_type :: "pyval \<Rightarrow> jtype option" where
  "json_type PNone = Some JNull"
| "json_type (PBool b) = Some JBoolean"
| "json_type (PInt i) = Some JInteger"
| "json_type (PFloat f) = Some JNumber"
| "json_type (PStr s) = Some JString"
| "json_type (PDict d) = Some JObject"
| "json_type (PList xs) = Some JArray"
| "json_type (PObj t) = None"

text \<open>\<open>actual == "non-json"\<close> or a float that is not finite\<close>

definition non_json :: "pyval \<Rightarrow> bool" where
  "non_json v \<longleftrightarrow> json_type v = None \<or> (\<exists>f. v = PFloat f \<and> \<not> float_isfinite f)"

lemma non_json_simps [simp, code]:
  "non_json PNone = False" "non_json (PBool b) = False" "non_json (PInt i) = False"
  "non_json (PStr s) = False" "non_json (PList xs) = False" "non_json (PDict d) = False"
  "non_json (PFloat f) = (\<not> float_isfinite f)" "non_json (PObj t) = True"
  by (simp_all add: non_json_def)

definition type_allowed :: "jtype \<Rightarrow> jtype list \<Rightarrow> bool" where
  "type_allowed actual allowed \<longleftrightarrow>
     actual \<in> set allowed \<or> (actual = JInteger \<and> JNumber \<in> set allowed)"

subsection \<open>Compiled validation\<close>

text \<open>\<open>CompiledValidationPlan\<close>: the three shapes the compiler builds (\<open>schema_false\<close>,
  \<open>wildcard\<close> with its \<open>trusted_wildcard\<close> flag, and the general plan). \<open>has_const\<close> and
  \<open>const\<close> are one optional field, as are \<open>enum\<close> and \<open>additional\<close> (\<open>None\<close> is
  \<open>False\<close>).\<close>

datatype 'p plan_fields = PlanFields
  (p_types: "jtype list")
  (p_label: string)
  (p_const: "pyval option")
  (p_enum: "pyval list option")
  (p_all: "'p list")
  (p_any: "'p list")
  (p_one: "'p list")
  (p_props: "(string \<times> 'p) list")
  (p_required: "string list")
  (p_additional: "'p option")
  (p_items: 'p)

datatype plan = PlanFalse | PlanWildcard bool | PlanSchema "plan plan_fields"

function (sequential) compile_validation_plan :: "bool \<Rightarrow> schema \<Rightarrow> plan" where
  "compile_validation_plan trusted STrue = PlanWildcard trusted"
| "compile_validation_plan trusted SFalse = PlanFalse"
| "compile_validation_plan trusted (SObj k) =
     (if k = no_kws then PlanWildcard trusted
      else PlanSchema (PlanFields
        (normalized_schema_types (SObj k))
        (normalized_schema_label (SObj k))
        (kw_const k)
        (kw_enum k)
        (map (compile_validation_plan trusted) (opt_list (kw_all k)))
        (map (compile_validation_plan trusted) (opt_list (kw_any k)))
        (map (compile_validation_plan trusted) (opt_list (kw_one k)))
        (map (\<lambda>(n, s). (n, compile_validation_plan trusted s)) (opt_list (kw_props k)))
        (opt_list (kw_required k))
        (case kw_additional k of
           None \<Rightarrow> Some (PlanWildcard trusted)
         | Some SFalse \<Rightarrow> None
         | Some s \<Rightarrow> Some (compile_validation_plan trusted s))
        (case kw_items k of
           None \<Rightarrow> PlanWildcard trusted
         | Some s \<Rightarrow> compile_validation_plan trusted s)))"
  by pat_completeness auto
termination
  by (relation "measure (\<lambda>(t, s). size s)")
    (auto simp del: schema.size intro: size_sub size_sub_opt)

datatype path_seg = PName string | PIndex nat

datatype failure_kind =
    Forbidden | NonJson | NonStringKey | Combination string
  | TypeMismatch jtype string | ConstMismatch | EnumMismatch | RequiredMissing | AdditionalField

type_synonym failure = "path_seg list \<times> failure_kind"

definition under :: "path_seg \<Rightarrow> failure option \<Rightarrow> failure option" where
  "under seg f = map_option (\<lambda>(segs, kind). (seg # segs, kind)) f"

lemma under_cong [fundef_cong]: "a = b \<Longrightarrow> f = g \<Longrightarrow> under a f = under b g"
  by simp

lemma under_None_iff [simp]: "under seg f = None \<longleftrightarrow> f = None"
  by (simp add: under_def)

text \<open>\<open>or_else a b\<close>: return the failure \<open>a\<close>, or go on with \<open>b\<close>.\<close>

definition or_else :: "failure option \<Rightarrow> failure option \<Rightarrow> failure option" where
  "or_else a b = (case a of None \<Rightarrow> b | Some f \<Rightarrow> Some f)"

lemma or_else_cong [fundef_cong]: "a = a' \<Longrightarrow> (a' = None \<Longrightarrow> b = b') \<Longrightarrow> or_else a b = or_else a' b'"
  by (auto simp: or_else_def split: option.splits)

lemma or_else_None_iff [simp]: "or_else a b = None \<longleftrightarrow> a = None \<and> b = None"
  by (auto simp: or_else_def split: option.splits)

definition fail_if :: "bool \<Rightarrow> failure_kind \<Rightarrow> failure option" where
  "fail_if b kind = (if b then Some ([], kind) else None)"

lemma fail_if_None_iff [simp]: "fail_if b kind = None \<longleftrightarrow> \<not> b"
  by (simp add: fail_if_def)

lemma plan_members:
  "b \<in> set (p_all f) \<Longrightarrow> b \<in> set_plan_fields f"
  "b \<in> set (p_any f) \<Longrightarrow> b \<in> set_plan_fields f"
  "b \<in> set (p_one f) \<Longrightarrow> b \<in> set_plan_fields f"
  "(n, b) \<in> set (p_props f) \<Longrightarrow> b \<in> set_plan_fields f"
  "p_additional f = Some b \<Longrightarrow> b \<in> set_plan_fields f"
  "p_items f \<in> set_plan_fields f"
  by (cases f; force)+

lemma size_plan_mem: "b \<in> set_plan_fields f \<Longrightarrow> size b < size (PlanSchema f)"
proof (cases f)
  case (PlanFields ty lb co en al an on ps req ad it)
  assume "b \<in> set_plan_fields f"
  then consider (list) "b \<in> set al \<or> b \<in> set an \<or> b \<in> set on" | (props) n where "(n, b) \<in> set ps"
    | (add) "ad = Some b" | (items) "it = b"
    by (auto simp: PlanFields)
  then show ?thesis
  proof cases
    case list
    then show ?thesis
      using size_list_mem_le[of b al size] size_list_mem_le[of b an size] size_list_mem_le[of b on size]
      by (auto simp: PlanFields)
  next
    case props
    then have "size_prod (\<lambda>_. 0) size (n, b) \<le> size_list (size_prod (\<lambda>_. 0) size) ps"
      by (intro size_list_mem_le)
    then show ?thesis by (simp add: PlanFields)
  qed (simp_all add: PlanFields)
qed

lemmas size_plan_sub [size_laws] = plan_members [THEN size_plan_mem]

function (sequential) compiled_validation_failure :: "pyval \<Rightarrow> plan \<Rightarrow> failure option" where
  "compiled_validation_failure v PlanFalse = Some ([], Forbidden)"
| "compiled_validation_failure v (PlanWildcard trusted) =
     (if trusted then None
      else if non_json v then Some ([], NonJson)
      else case v of
        PDict kvs \<Rightarrow> first_some (\<lambda>(k, child). case k of
            KOther _ \<Rightarrow> Some ([], NonStringKey)
          | KStr name \<Rightarrow>
              under (PName name) (compiled_validation_failure child (PlanWildcard trusted))) kvs
      | PList xs \<Rightarrow> first_some (\<lambda>(i, child).
          under (PIndex i) (compiled_validation_failure child (PlanWildcard trusted))) (enumerate 0 xs)
      | _ \<Rightarrow> None)"
| "compiled_validation_failure v (PlanSchema p) =
     (case json_type v of None \<Rightarrow> Some ([], NonJson) | Some actual \<Rightarrow>
      if non_json v then Some ([], NonJson)
      else
        or_else (first_some (compiled_validation_failure v) (p_all p))
       (or_else (fail_if (p_any p \<noteq> [] \<and>
            \<not> list_ex (\<lambda>b. compiled_validation_failure v b = None) (p_any p)) (Combination ''anyOf''))
       (or_else (fail_if (p_one p \<noteq> [] \<and>
            length (filter (\<lambda>b. compiled_validation_failure v b = None) (p_one p)) \<noteq> 1)
            (Combination ''oneOf''))
       (or_else (fail_if (\<not> type_allowed actual (p_types p)) (TypeMismatch actual (p_label p)))
       (or_else (case p_const p of None \<Rightarrow> None
          | Some c \<Rightarrow> fail_if (\<not> json_values_equal v c) ConstMismatch)
       (or_else (case p_enum p of None \<Rightarrow> None
          | Some cs \<Rightarrow> fail_if (\<not> json_value_in v cs) EnumMismatch)
       (case v of
          PDict kvs \<Rightarrow>
            or_else (first_some (\<lambda>name. if KStr name \<in> set (keys_of kvs) then None
                else Some ([PName name], RequiredMissing)) (p_required p))
              (first_some (\<lambda>(k, child). case k of
                 KOther _ \<Rightarrow> Some ([], NonStringKey)
               | KStr name \<Rightarrow> under (PName name)
                   (case map_of (p_props p) name of
                      Some child_plan \<Rightarrow> compiled_validation_failure child child_plan
                    | None \<Rightarrow> (case p_additional p of
                        None \<Rightarrow> Some ([], AdditionalField)
                      | Some child_plan \<Rightarrow> compiled_validation_failure child child_plan))) kvs)
        | PList xs \<Rightarrow> first_some (\<lambda>(i, child).
            under (PIndex i) (compiled_validation_failure child (p_items p))) (enumerate 0 xs)
        | _ \<Rightarrow> None)))))))"
  by pat_completeness auto
termination
  by (relation "measures [\<lambda>(v, p). size v, \<lambda>(v, p). size p]")
    (auto simp del: pyval.size plan.size intro: size_laws)

text \<open>The equations of the recursive validators call themselves under a binder; they are
  unfolded by name.\<close>

declare compiled_validation_failure.simps [simp del]
declare compile_validation_plan.simps [simp del]
declare schema_to_py.simps [simp del]

subsubsection \<open>Errors of the validators\<close>

definition validation_path :: "string \<Rightarrow> path_seg list \<Rightarrow> string" where
  "validation_path root segs =
     root @ concat (map (\<lambda>seg. case seg of PIndex i \<Rightarrow> ''['' @ nat_str i @ '']''
                                        | PName n \<Rightarrow> ''.'' @ n) segs)"

fun failure_message :: "string \<Rightarrow> failure_kind \<Rightarrow> string" where
  "failure_message label RequiredMissing = ''Required field '' @ quoted label @ '' is missing.''"
| "failure_message label AdditionalField = ''Field '' @ quoted label @ '' is not allowed by its schema.''"
| "failure_message label NonStringKey = ''JSON object '' @ quoted label @ '' contains a non-string key.''"
| "failure_message label Forbidden = ''DataKey '' @ quoted label @ '' is forbidden by its schema.''"
| "failure_message label NonJson = ''DataKey '' @ quoted label @ '' contains a non-JSON value.''"
| "failure_message label (TypeMismatch actual expected) =
     ''DataKey '' @ quoted label @ '' is '' @ jtype_name actual @ '', expected '' @ expected @ ''.''"
| "failure_message label ConstMismatch = ''DataKey '' @ quoted label @ '' does not equal its schema const.''"
| "failure_message label EnumMismatch =
     ''DataKey '' @ quoted label @ '' is not one of its schema enum values.''"
| "failure_message label (Combination detail) =
     ''DataKey '' @ quoted label @ '' does not satisfy '' @ quoted detail @ ''.''"

declare failure_message.simps [simp del]

definition raise_compiled_validation_failure :: "failure \<Rightarrow> string \<Rightarrow> py_error" where
  "raise_compiled_validation_failure f path =
     ValueError (failure_message (validation_path path (fst f)) (snd f))"

subsection \<open>Normalization\<close>

definition schema_keys :: "string list" where
  "schema_keys = [''type'', ''properties'', ''required'', ''additionalProperties'', ''items'',
     ''enum'', ''const'', ''anyOf'', ''oneOf'', ''allOf'', ''title'', ''description'', ''default'']"

definition annotation_keys :: "string list" where
  "annotation_keys = [''title'', ''description'', ''default'']"

text \<open>\<open>str(name)\<close> of a key\<close>

fun key_text :: "pykey \<Rightarrow> string" where
  "key_text (KStr s) = s"
| "key_text (KOther s) = s"

text \<open>Unknown keywords; sorting or joining keys that are not strings is a \<open>TypeError\<close>.\<close>

definition check_keywords :: "(pykey \<times> pyval) list \<Rightarrow> unit res" where
  "check_keywords raw =
     (let unknown = filter (\<lambda>k. \<not> (is_str_key k \<and> key_text k \<in> set schema_keys)) (keys_of raw) in
      if unknown = [] then Inr ()
      else if \<not> list_all is_str_key unknown then Inl (TypeError ''unsupported keyword type'')
      else Inl (ValueError (''Unsupported JSON Schema keyword(s): '' @
        join_str '', '' (sorted_set (map key_text unknown)))))"

text \<open>An optional keyword: absent, or its normalized value.\<close>

definition opt_kw :: "(pykey \<times> pyval) list \<Rightarrow> string \<Rightarrow> (pyval \<Rightarrow> 'a res) \<Rightarrow> 'a option res" where
  "opt_kw raw key f =
     (case map_of raw (KStr key) of None \<Rightarrow> Inr None
      | Some v \<Rightarrow> bind_r (f v) (\<lambda>x. Inr (Some x)))"

lemma opt_kw_cong [fundef_cong]:
  "raw = raw' \<Longrightarrow> key = key' \<Longrightarrow> (\<And>v. map_of raw' (KStr key') = Some v \<Longrightarrow> f v = g v) \<Longrightarrow>
   opt_kw raw key f = opt_kw raw' key' g"
  by (auto simp: opt_kw_def split: option.splits)

definition type_error :: py_error where
  "type_error = ValueError (''JSON Schema '' @ quoted ''type'' @ '' must contain only: '' @
     join_str '', '' (sorted_set (map jtype_name json_types)))"

text \<open>Membership in \<open>JSON_TYPES\<close> hashes the item, which a list or a dict refuses.\<close>

fun type_items :: "pyval list \<Rightarrow> jtype list res" where
  "type_items [] = Inr []"
| "type_items (PStr t # items) =
     (case jtype_of t of None \<Rightarrow> Inl type_error
      | Some j \<Rightarrow> bind_r (type_items items) (\<lambda>js. Inr (j # js)))"
| "type_items (PList xs # items) = Inl (TypeError ''unhashable type'')"
| "type_items (PDict kvs # items) = Inl (TypeError ''unhashable type'')"
| "type_items (v # items) = Inl type_error"

definition normalize_type :: "pyval \<Rightarrow> jtype list res" where
  "normalize_type raw_type =
     (let checked = (case raw_type of
          PStr t \<Rightarrow> type_items [raw_type]
        | PList [] \<Rightarrow> Inl type_error
        | PList items \<Rightarrow> type_items items
        | _ \<Rightarrow> Inl type_error) in
      bind_r checked (\<lambda>types. if distinct types then Inr types
        else Inl (ValueError (''JSON Schema '' @ quoted ''type'' @ '' contains duplicate entries.''))))"

fun str_items :: "pyval list \<Rightarrow> string list option" where
  "str_items [] = Some []"
| "str_items (PStr s # items) = map_option (Cons s) (str_items items)"
| "str_items (v # items) = None"

definition normalize_required :: "pyval \<Rightarrow> string list res" where
  "normalize_required v =
     (case (case v of PList items \<Rightarrow> str_items items | _ \<Rightarrow> None) of
        None \<Rightarrow> Inl (ValueError (''JSON Schema '' @ quoted ''required'' @
          '' must be an array of property names.''))
      | Some names \<Rightarrow> if distinct names then Inr names
          else Inl (ValueError (''JSON Schema '' @ quoted ''required'' @
            '' contains duplicate property names.'')))"

text \<open>No two literals of an \<open>enum\<close> are equal.\<close>

fun literals_unique :: "pyval list \<Rightarrow> bool" where
  "literals_unique [] = True"
| "literals_unique (v # vs) = (\<not> list_ex (\<lambda>w. json_values_equal w v) vs \<and> literals_unique vs)"

definition normalize_enum :: "pyval \<Rightarrow> pyval list res" where
  "normalize_enum v =
     (case v of PList (x # xs) \<Rightarrow>
          if literals_unique (x # xs) then Inr (x # xs)
          else Inl (ValueError (''JSON Schema '' @ quoted ''enum'' @ '' values must be unique.''))
      | _ \<Rightarrow> Inl (ValueError (''JSON Schema '' @ quoted ''enum'' @ '' must be a non-empty array.'')))"

definition normalize_branches :: "(pyval \<Rightarrow> schema res) \<Rightarrow> string \<Rightarrow> pyval \<Rightarrow> schema list res" where
  "normalize_branches f keyword v =
     (case v of PList (b # bs) \<Rightarrow> map_r f (b # bs)
      | _ \<Rightarrow> Inl (ValueError (''JSON Schema '' @ quoted keyword @ '' must be a non-empty array.'')))"

lemma normalize_branches_cong [fundef_cong]:
  "v = v' \<Longrightarrow> kw = kw' \<Longrightarrow> (\<And>bs b. v' = PList bs \<Longrightarrow> b \<in> set bs \<Longrightarrow> f b = g b) \<Longrightarrow>
   normalize_branches f kw v = normalize_branches g kw' v'"
  by (cases v') (auto simp: normalize_branches_def split: list.splits intro!: bind_r_cong map_r_cong)

definition normalize_properties ::
    "(pyval \<Rightarrow> schema res) \<Rightarrow> pyval \<Rightarrow> (string \<times> schema) list res" where
  "normalize_properties f v =
     (case v of
        PDict ps \<Rightarrow> bind_r (map_r (\<lambda>(n, child). bind_r (f child) (\<lambda>s. Inr (key_text n, s))) ps)
          (\<lambda>ps'. Inr (dict_of ps'))
      | _ \<Rightarrow> Inl (ValueError (''JSON Schema '' @ quoted ''properties'' @ '' must be an object.'')))"

lemma normalize_properties_cong [fundef_cong]:
  "v = v' \<Longrightarrow> (\<And>ps n c. v' = PDict ps \<Longrightarrow> (n, c) \<in> set ps \<Longrightarrow> f c = g c) \<Longrightarrow>
   normalize_properties f v = normalize_properties g v'"
  by (cases v') (auto simp: normalize_properties_def intro!: arg_cong2[where f = bind_r] map_r_cong)

text \<open>A type declaration next to \<open>properties\<close> or \<open>items\<close> must allow the container.\<close>

definition require_declared :: "string \<Rightarrow> jtype \<Rightarrow> bool \<Rightarrow> jtype list option \<Rightarrow> unit res" where
  "require_declared keyword t present types =
     guard_r (\<not> present \<or> opt_list types = [] \<or> t \<in> set (opt_list types))
       (ValueError (''A schema with '' @ quoted keyword @ '' must allow the '' @ jtype_name t @ '' type.''))"

definition check_literals :: "schema kws \<Rightarrow> unit res" where
  "check_literals k =
     bind_r (iter_r (\<lambda>lit. guard_r
         (compiled_validation_failure lit (compile_validation_plan False (SObj k)) = None)
         (ValueError (''JSON Schema '' @ quoted ''const'' @ '' contains a value outside its declared schema.'')))
       (case kw_const k of None \<Rightarrow> [] | Some c \<Rightarrow> [c]))
     (\<lambda>_. iter_r (\<lambda>lit. guard_r
         (compiled_validation_failure lit (compile_validation_plan False (SObj k)) = None)
         (ValueError (''JSON Schema '' @ quoted ''enum'' @ '' contains a value outside its declared schema.'')))
       (opt_list (kw_enum k)))"

definition annotations :: "(pykey \<times> pyval) list \<Rightarrow> (string \<times> pyval) list" where
  "annotations raw = concat (map (\<lambda>(k, v). case k of
     KStr n \<Rightarrow> if n \<in> set annotation_keys then [(n, v)] else [] | KOther _ \<Rightarrow> []) raw)"

lemma size_map_of [size_laws]: "map_of raw k = Some v \<Longrightarrow> size v < size (PDict raw)"
  by (rule size_dict_item) (rule map_of_in_set)

lemma size_branch [size_laws]:
  "map_of raw k = Some (PList bs) \<Longrightarrow> b \<in> set bs \<Longrightarrow> size b < size (PDict raw)"
  by (rule less_trans[OF size_list_item size_map_of])

lemma size_property [size_laws]:
  "map_of raw k = Some (PDict ps) \<Longrightarrow> (n, c) \<in> set ps \<Longrightarrow> size c < size (PDict raw)"
  by (rule less_trans[OF size_dict_item size_map_of])

function (sequential) normalize_schema :: "pyval \<Rightarrow> schema res" where
  "normalize_schema (PBool b) = Inr (if b then any_schema else SFalse)"
| "normalize_schema (PDict raw) =
     bind_r (check_keywords raw) (\<lambda>_.
     bind_r (opt_kw raw ''type'' normalize_type) (\<lambda>types.
     bind_r (opt_kw raw ''properties'' (normalize_properties normalize_schema)) (\<lambda>props.
     bind_r (require_declared ''properties'' JObject (props \<noteq> None) types) (\<lambda>_.
     bind_r (opt_kw raw ''required'' normalize_required) (\<lambda>required.
     bind_r (opt_kw raw ''additionalProperties'' (\<lambda>v. case v of
         PBool b \<Rightarrow> Inr (if b then STrue else SFalse) | _ \<Rightarrow> normalize_schema v)) (\<lambda>additional.
     bind_r (opt_kw raw ''items'' normalize_schema) (\<lambda>items.
     bind_r (require_declared ''items'' JArray (items \<noteq> None) types) (\<lambda>_.
     bind_r (opt_kw raw ''anyOf'' (normalize_branches normalize_schema ''anyOf'')) (\<lambda>any_of.
     bind_r (opt_kw raw ''oneOf'' (normalize_branches normalize_schema ''oneOf'')) (\<lambda>one_of.
     bind_r (opt_kw raw ''allOf'' (normalize_branches normalize_schema ''allOf'')) (\<lambda>all_of.
     bind_r (opt_kw raw ''enum'' normalize_enum) (\<lambda>enum.
     bind_r (opt_kw raw ''const'' Inr) (\<lambda>const.
     let k = Kws types props required additional items enum const any_of one_of all_of (annotations raw) in
     bind_r (check_literals k) (\<lambda>_. Inr (SObj k)))))))))))))))"
| "normalize_schema v =
     Inl (ValueError ''A data contract must be a JSON Schema object; string type aliases are forbidden.'')"
  by pat_completeness auto
termination
  by (relation "measure size") (auto simp del: pyval.size intro: size_laws)

declare normalize_schema.simps [simp del]

definition schema_types :: "pyval \<Rightarrow> jtype list res" where
  "schema_types raw = bind_r (normalize_schema raw) (\<lambda>s. Inr (normalized_schema_types s))"

definition schema_label :: "pyval \<Rightarrow> string res" where
  "schema_label raw = bind_r (normalize_schema raw) (\<lambda>s. Inr (normalized_schema_label s))"

subsection \<open>DataKey contracts\<close>

fun contains_runtime_array :: "pyval \<Rightarrow> bool" where
  "contains_runtime_array (PList xs) = True"
| "contains_runtime_array (PDict kvs) = list_ex (\<lambda>(k, v). contains_runtime_array v) kvs"
| "contains_runtime_array v = False"

definition contract_error :: "string \<Rightarrow> string \<Rightarrow> string \<Rightarrow> unit res" where
  "contract_error what path rest = Inl (ValueError (what @ quoted path @ rest))"

text \<open>The value behind \<open>True\<close> is only reached through \<open>additionalProperties\<close>, which is
  tested first.\<close>

function (sequential) validate_data_key_schema :: "string \<Rightarrow> schema \<Rightarrow> unit res" where
  "validate_data_key_schema path STrue = Inl (AttributeError ''get'')"
| "validate_data_key_schema path SFalse = Inr ()"
| "validate_data_key_schema path (SObj k) =
     (if k = no_kws then contract_error ''DataKey contract '' path '' may not use the wildcard schema {}.''
      else
      bind_r (iter_r (\<lambda>(i, b). validate_data_key_schema (path @ ''.anyOf['' @ nat_str i @ '']'') b)
        (enumerate 0 (opt_list (kw_any k)))) (\<lambda>_.
      bind_r (iter_r (\<lambda>(i, b). validate_data_key_schema (path @ ''.oneOf['' @ nat_str i @ '']'') b)
        (enumerate 0 (opt_list (kw_one k)))) (\<lambda>_.
      bind_r (iter_r (\<lambda>(i, b). validate_data_key_schema (path @ ''.allOf['' @ nat_str i @ '']'') b)
        (enumerate 0 (opt_list (kw_all k)))) (\<lambda>_.
      if JArray \<in> set (declared_types k) \<or> kw_items k \<noteq> None
      then contract_error ''DataKey contract '' path
        '' may not contain the array runtime type; use a typed object map.''
      else if declared_types k = [] \<and> kw_any k = None \<and> kw_one k = None \<and> kw_all k = None \<and>
        kw_const k = None \<and> kw_enum k = None
      then contract_error ''DataKey contract '' path '' must declare a concrete runtime type.''
      else if (case kw_const k of None \<Rightarrow> False | Some c \<Rightarrow> contains_runtime_array c)
      then contract_error ''DataKey contract '' (path @ ''.const'') '' may not contain array values.''
      else if list_ex contains_runtime_array (opt_list (kw_enum k))
      then contract_error ''DataKey contract '' (path @ ''.enum'') '' may not contain array values.''
      else if JObject \<notin> set (declared_types k) \<and> kw_props k = None then Inr ()
      else if kw_additional k = None \<or> kw_additional k = Some STrue
      then contract_error ''DataKey object contract '' path
        '' must close additionalProperties or declare a concrete value schema.''
      else
      bind_r (iter_r (\<lambda>(n, child). validate_data_key_schema (path @ ''.'' @ n) child)
        (opt_list (kw_props k))) (\<lambda>_.
      case kw_additional k of
        Some (SObj ak) \<Rightarrow> validate_data_key_schema (path @ ''.*'') (SObj ak)
      | _ \<Rightarrow> Inr ())))))"
  by pat_completeness auto
termination
  by (relation "measure (\<lambda>(path, s). size s)")
    (auto simp del: schema.size dest: enumerate_mem intro: size_laws)

definition normalize_data_key_schema_uncached :: "string \<Rightarrow> pyval \<Rightarrow> schema res" where
  "normalize_data_key_schema_uncached path v =
     bind_r (normalize_schema v) (\<lambda>s. bind_r (validate_data_key_schema path s) (\<lambda>_. Inr s))"

declare validate_data_key_schema.simps [simp del]

text \<open>Runtime types every clause of a schema allows\<close>

definition inter_types :: "jtype list \<Rightarrow> jtype list \<Rightarrow> jtype list" where
  "inter_types a b = filter (\<lambda>t. t \<in> set b) a"

function (sequential) possible_runtime_types :: "schema \<Rightarrow> jtype list" where
  "possible_runtime_types STrue = []"
| "possible_runtime_types SFalse = []"
| "possible_runtime_types (SObj k) =
     (let declared = normalized_schema_types (SObj k);
          p0 = (if JNumber \<in> set declared then JInteger # declared else declared);
          p1 = (case kw_const k of None \<Rightarrow> p0
                | Some c \<Rightarrow> filter (\<lambda>t. json_type c = Some t) p0);
          p2 = (case kw_enum k of None \<Rightarrow> p1
                | Some cs \<Rightarrow> filter (\<lambda>t. Some t \<in> set (map json_type cs)) p1);
          p3 = fold (\<lambda>ts p. inter_types p ts) (map possible_runtime_types (opt_list (kw_all k))) p2;
          p4 = (case kw_any k of None \<Rightarrow> p3
                | Some bs \<Rightarrow> inter_types p3 (concat (map possible_runtime_types bs)));
          p5 = (case kw_one k of None \<Rightarrow> p4
                | Some bs \<Rightarrow> inter_types p4 (concat (map possible_runtime_types bs)))
      in p5)"
  by pat_completeness auto
termination
  by (relation "measure size") (auto simp del: schema.size intro: size_laws)

subsection \<open>The reference validator\<close>

abbreviation verr :: "string \<Rightarrow> failure_kind \<Rightarrow> py_error" where
  "verr path kind \<equiv> ValueError (failure_message path kind)"

text \<open>Branches that validate; only \<open>ValueError\<close> is caught.\<close>

fun count_matches :: "unit res list \<Rightarrow> nat res" where
  "count_matches [] = Inr 0"
| "count_matches (Inr u # rs) = bind_r (count_matches rs) (\<lambda>n. Inr (Suc n))"
| "count_matches (Inl (ValueError m) # rs) = count_matches rs"
| "count_matches (Inl e # rs) = Inl e"

text \<open>The label in the type error normalizes the schema once more, as the code does.\<close>

definition label_error :: "string \<Rightarrow> jtype \<Rightarrow> schema \<Rightarrow> py_error" where
  "label_error path actual s =
     (case schema_label (schema_to_py s) of Inl e \<Rightarrow> e
      | Inr label \<Rightarrow> verr path (TypeMismatch actual label))"

function (sequential) validate_normalized :: "bool \<Rightarrow> string \<Rightarrow> pyval \<Rightarrow> schema \<Rightarrow> unit res" where
  "validate_normalized trusted path v SFalse = Inl (verr path Forbidden)"
| "validate_normalized trusted path v STrue =
     (if non_json v then Inl (verr path NonJson) else Inl (AttributeError ''get''))"
| "validate_normalized trusted path v (SObj k) =
     (if trusted \<and> k = no_kws then Inr ()
      else case json_type v of None \<Rightarrow> Inl (verr path NonJson) | Some actual \<Rightarrow>
      if non_json v then Inl (verr path NonJson)
      else
      bind_r (iter_r (validate_normalized trusted path v) (opt_list (kw_all k))) (\<lambda>_.
      bind_r (case kw_any k of None \<Rightarrow> Inr ()
        | Some bs \<Rightarrow> bind_r (count_matches (map (validate_normalized trusted path v) bs))
            (\<lambda>n. guard_r (n \<noteq> 0) (verr path (Combination ''anyOf'')))) (\<lambda>_.
      bind_r (case kw_one k of None \<Rightarrow> Inr ()
        | Some bs \<Rightarrow> bind_r (count_matches (map (validate_normalized trusted path v) bs))
            (\<lambda>n. guard_r (n = 1) (verr path (Combination ''oneOf'')))) (\<lambda>_.
      bind_r (guard_r (type_allowed actual (normalized_schema_types (SObj k)))
        (label_error path actual (SObj k))) (\<lambda>_.
      bind_r (case kw_const k of None \<Rightarrow> Inr ()
        | Some c \<Rightarrow> guard_r (json_values_equal v c) (verr path ConstMismatch)) (\<lambda>_.
      bind_r (case kw_enum k of None \<Rightarrow> Inr ()
        | Some cs \<Rightarrow> guard_r (json_value_in v cs) (verr path EnumMismatch)) (\<lambda>_.
      case v of
        PDict kvs \<Rightarrow>
          bind_r (iter_r (\<lambda>name. guard_r (KStr name \<in> set (keys_of kvs))
              (verr (path @ ''.'' @ name) RequiredMissing)) (opt_list (kw_required k))) (\<lambda>_.
          if trusted \<and> opt_list (kw_props k) = [] \<and> (kw_additional k = None \<or> kw_additional k = Some STrue)
          then Inr ()
          else iter_r (\<lambda>(key, child). case key of
              KOther _ \<Rightarrow> Inl (verr path NonStringKey)
            | KStr name \<Rightarrow>
                (case map_of (opt_list (kw_props k)) name of
                   Some child_schema \<Rightarrow>
                     validate_normalized trusted (path @ ''.'' @ name) child child_schema
                 | None \<Rightarrow> (case kw_additional k of
                     Some SFalse \<Rightarrow> Inl (verr (path @ ''.'' @ name) AdditionalField)
                   | Some (SObj ak) \<Rightarrow>
                       validate_normalized trusted (path @ ''.'' @ name) child (SObj ak)
                   | _ \<Rightarrow> validate_normalized trusted (path @ ''.'' @ name) child any_schema))) kvs)
      | PList xs \<Rightarrow> iter_r (\<lambda>(i, child).
          validate_normalized trusted (path @ ''['' @ nat_str i @ '']'') child
            (case kw_items k of None \<Rightarrow> any_schema | Some s \<Rightarrow> s)) (enumerate 0 xs)
      | _ \<Rightarrow> Inr ()))))))) "
  by pat_completeness auto
termination
  by (relation "measures [\<lambda>(t, p, v, s). size v, \<lambda>(t, p, v, s). size s]")
    (auto simp del: pyval.size schema.size intro: size_laws)

declare validate_normalized.simps [simp del]

definition validate_json_value :: "bool \<Rightarrow> string \<Rightarrow> pyval \<Rightarrow> pyval option \<Rightarrow> unit res" where
  "validate_json_value trusted path v raw =
     (case raw of
        None \<Rightarrow> Inl (ValueError
          ''Runtime validation requires an explicit JSON Schema; use {} for a wildcard.'')
      | Some r \<Rightarrow> bind_r (normalize_schema r) (\<lambda>s. validate_normalized trusted path v s))"

subsection \<open>Inference and ports\<close>

text \<open>\<open>infer_schema\<close> returns a raw contract.\<close>

fun infer_schema :: "pyval \<Rightarrow> pyval res" where
  "infer_schema (PObj t) = Inl (ValueError (''Cannot infer a JSON Schema for '' @ quoted t @ ''.''))"
| "infer_schema (PDict kvs) =
     bind_r (map_r (\<lambda>(n, child). bind_r (infer_schema child) (\<lambda>s. Inr (key_text n, s))) kvs) (\<lambda>ps.
       Inr (PDict [
         (KStr ''type'', PStr ''object''),
         (KStr ''properties'', PDict (map (\<lambda>(n, s). (KStr n, s)) (dict_of ps))),
         (KStr ''required'', PList (map PStr (keys_of (dict_of ps)))),
         (KStr ''additionalProperties'', PBool False)]))"
| "infer_schema (PList xs) =
     Inl (ValueError ''Cannot infer a DataKey contract from an array; use a typed object map.'')"
| "infer_schema PNone = Inr (PDict [(KStr ''type'', PStr ''null'')])"
| "infer_schema (PBool b) = Inr (PDict [(KStr ''type'', PStr ''boolean'')])"
| "infer_schema (PInt i) = Inr (PDict [(KStr ''type'', PStr ''integer'')])"
| "infer_schema (PFloat f) = Inr (PDict [(KStr ''type'', PStr ''number'')])"
| "infer_schema (PStr s) = Inr (PDict [(KStr ''type'', PStr ''string'')])"

definition port_schema :: "pyval \<Rightarrow> schema res" where
  "port_schema port =
     (case (case port of PDict p \<Rightarrow> map_of p (KStr ''schema'') | _ \<Rightarrow> None) of
        None \<Rightarrow> Inl (ValueError (''A module port must declare an explicit '' @ quoted ''schema'' @
          ''; top-level '' @ quoted ''type'' @ '' is unsupported.''))
      | Some s \<Rightarrow> normalize_data_key_schema_uncached ''Module port'' s)"

end
