(* ===== verification/Schema_Normal.thy ===== *)
theory Schema_Normal
  imports Data_Model
begin

section \<open>Normal forms of contracts\<close>

text \<open>
  What \<open>normalize_schema\<close> establishes (\<open>schema_ok\<close>) and that a normal form is a fixed
  point of normalization: compiling a contract twice gives the same contract, which is what
  lets the compiler hand normalized material to entry points that normalize again.
\<close>

subsection \<open>The invariant of normalized schemas\<close>

text \<open>The conditions on one level of a schema.\<close>

definition level_ok :: "schema kws \<Rightarrow> bool" where
  "level_ok k \<longleftrightarrow>
     kw_type k \<noteq> Some [] \<and> distinct (opt_list (kw_type k)) \<and>
     distinct (keys_of (opt_list (kw_props k))) \<and>
     distinct (opt_list (kw_required k)) \<and>
     (kw_props k \<noteq> None \<and> opt_list (kw_type k) \<noteq> [] \<longrightarrow> JObject \<in> set (opt_list (kw_type k))) \<and>
     (kw_items k \<noteq> None \<and> opt_list (kw_type k) \<noteq> [] \<longrightarrow> JArray \<in> set (opt_list (kw_type k))) \<and>
     kw_any k \<noteq> Some [] \<and> kw_one k \<noteq> Some [] \<and> kw_all k \<noteq> Some [] \<and>
     kw_enum k \<noteq> Some [] \<and> literals_unique (opt_list (kw_enum k)) \<and>
     list_all wf_val (opt_list (kw_enum k)) \<and>
     (case kw_const k of None \<Rightarrow> True | Some c \<Rightarrow> wf_val c) \<and>
     list_all (\<lambda>v. compiled_validation_failure v (compile_validation_plan False (SObj k)) = None)
       (opt_list (kw_enum k)) \<and>
     (case kw_const k of None \<Rightarrow> True
      | Some c \<Rightarrow> compiled_validation_failure c (compile_validation_plan False (SObj k)) = None) \<and>
     distinct (keys_of (kw_annot k)) \<and> set (keys_of (kw_annot k)) \<subseteq> set annotation_keys \<and>
     list_all (\<lambda>(n, v). wf_val v) (kw_annot k)"

text \<open>\<open>True\<close> may stand only behind \<open>additionalProperties\<close>.\<close>

function (sequential) schema_ok :: "schema \<Rightarrow> bool" where
  "schema_ok (SObj k) = (level_ok k \<and>
     list_all (\<lambda>(n, s). s \<noteq> STrue \<and> schema_ok s) (opt_list (kw_props k)) \<and>
     (case kw_additional k of None \<Rightarrow> True | Some s \<Rightarrow> schema_ok s) \<and>
     (case kw_items k of None \<Rightarrow> True | Some s \<Rightarrow> s \<noteq> STrue \<and> schema_ok s) \<and>
     list_all (\<lambda>s. s \<noteq> STrue \<and> schema_ok s) (opt_list (kw_any k)) \<and>
     list_all (\<lambda>s. s \<noteq> STrue \<and> schema_ok s) (opt_list (kw_one k)) \<and>
     list_all (\<lambda>s. s \<noteq> STrue \<and> schema_ok s) (opt_list (kw_all k)))"
| "schema_ok s = True"
  by pat_completeness auto
termination
  by (relation "measure size") (auto simp del: schema.size intro: size_laws)

text \<open>A contract at a position where \<open>True\<close> has been replaced by \<open>{}\<close>.\<close>

abbreviation contract_ok :: "schema \<Rightarrow> bool" where
  "contract_ok s \<equiv> s \<noteq> STrue \<and> schema_ok s"

lemma schema_ok_level: "schema_ok (SObj k) \<Longrightarrow> level_ok k"
  by simp

lemma schema_ok_subs:
  assumes "schema_ok (SObj k)"
  shows "(n, s) \<in> set (opt_list (kw_props k)) \<Longrightarrow> contract_ok s"
    and "kw_additional k = Some s \<Longrightarrow> schema_ok s"
    and "kw_items k = Some s \<Longrightarrow> contract_ok s"
    and "s \<in> set (opt_list (kw_any k)) \<Longrightarrow> contract_ok s"
    and "s \<in> set (opt_list (kw_one k)) \<Longrightarrow> contract_ok s"
    and "s \<in> set (opt_list (kw_all k)) \<Longrightarrow> contract_ok s"
  using assms by (auto simp: list_all_iff)

lemma schema_ok_prop: "schema_ok (SObj k) \<Longrightarrow> map_of (opt_list (kw_props k)) n = Some s \<Longrightarrow> contract_ok s"
  using schema_ok_subs(1) map_of_in_set by metis

text \<open>The weaker shape that taking contracts apart preserves: dropping the composition keywords
  or fixing one of several types keeps it, although the result need not be a normal form.\<close>

definition shape_level :: "schema kws \<Rightarrow> bool" where
  "shape_level k \<longleftrightarrow> kw_type k \<noteq> Some [] \<and> kw_any k \<noteq> Some [] \<and> kw_one k \<noteq> Some [] \<and> kw_all k \<noteq> Some [] \<and>
     list_all wf_val (opt_list (kw_enum k)) \<and>
     (case kw_const k of None \<Rightarrow> True | Some c \<Rightarrow> wf_val c) \<and>
     set (keys_of (kw_annot k)) \<subseteq> set annotation_keys"

function (sequential) shape_ok :: "schema \<Rightarrow> bool" where
  "shape_ok (SObj k) = (shape_level k \<and>
     list_all (\<lambda>(n, s). s \<noteq> STrue \<and> shape_ok s) (opt_list (kw_props k)) \<and>
     (case kw_additional k of None \<Rightarrow> True | Some s \<Rightarrow> shape_ok s) \<and>
     (case kw_items k of None \<Rightarrow> True | Some s \<Rightarrow> s \<noteq> STrue \<and> shape_ok s) \<and>
     list_all (\<lambda>s. s \<noteq> STrue \<and> shape_ok s) (opt_list (kw_any k)) \<and>
     list_all (\<lambda>s. s \<noteq> STrue \<and> shape_ok s) (opt_list (kw_one k)) \<and>
     list_all (\<lambda>s. s \<noteq> STrue \<and> shape_ok s) (opt_list (kw_all k)))"
| "shape_ok s = True"
  by pat_completeness auto
termination
  by (relation "measure size") (auto simp del: schema.size intro: size_laws)

abbreviation part_ok :: "schema \<Rightarrow> bool" where
  "part_ok s \<equiv> s \<noteq> STrue \<and> shape_ok s"

lemma shape_ok_subs:
  assumes "shape_ok (SObj k)"
  shows "(n, s) \<in> set (opt_list (kw_props k)) \<Longrightarrow> part_ok s"
    and "kw_additional k = Some s \<Longrightarrow> shape_ok s"
    and "kw_items k = Some s \<Longrightarrow> part_ok s"
    and "s \<in> set (opt_list (kw_any k)) \<Longrightarrow> part_ok s"
    and "s \<in> set (opt_list (kw_one k)) \<Longrightarrow> part_ok s"
    and "s \<in> set (opt_list (kw_all k)) \<Longrightarrow> part_ok s"
    and "shape_level k"
  using assms by (auto simp: list_all_iff)

lemma shape_ok_prop: "shape_ok (SObj k) \<Longrightarrow> map_of (opt_list (kw_props k)) n = Some s \<Longrightarrow> part_ok s"
  using shape_ok_subs(1) map_of_in_set by metis

lemma schema_ok_shape: "schema_ok s \<Longrightarrow> shape_ok s"
proof (induction s rule: measure_induct_rule[of size])
  case (less s)
  show ?case
  proof (cases s)
    case (SObj k)
    have sub: "shape_ok t" if "t \<in> set_kws k" "schema_ok t" for t
      using less.IH[of t] size_kws_mem[OF that(1)] that(2) by (simp add: SObj del: schema.size)
    note subs = schema_ok_subs[OF less.prems[unfolded SObj]]
    have "shape_level k"
      using schema_ok_level[OF less.prems[unfolded SObj]] by (simp add: level_ok_def shape_level_def)
    moreover have "list_all (\<lambda>(n, s). s \<noteq> STrue \<and> shape_ok s) (opt_list (kw_props k))"
      using subs(1) sub[OF kws_opt_members(1)] by (auto simp: list_all_iff)
    moreover have "case kw_additional k of None \<Rightarrow> True | Some s \<Rightarrow> shape_ok s"
      using subs(2) sub[OF kws_members(2)] by (auto split: option.splits)
    moreover have "case kw_items k of None \<Rightarrow> True | Some s \<Rightarrow> s \<noteq> STrue \<and> shape_ok s"
      using subs(3) sub[OF kws_members(3)] by (auto split: option.splits)
    moreover have "list_all (\<lambda>s. s \<noteq> STrue \<and> shape_ok s) (opt_list (kw_any k))"
      "list_all (\<lambda>s. s \<noteq> STrue \<and> shape_ok s) (opt_list (kw_one k))"
      "list_all (\<lambda>s. s \<noteq> STrue \<and> shape_ok s) (opt_list (kw_all k))"
      using subs(4-6) sub[OF kws_opt_members(2)] sub[OF kws_opt_members(3)] sub[OF kws_opt_members(4)]
      by (simp_all add: list_all_iff)
    ultimately show ?thesis by (simp add: SObj)
  qed simp_all
qed

lemma level_ok_no_kws [simp]: "level_ok no_kws"
  by (simp add: level_ok_def)

lemma schema_ok_any_schema: "schema_ok any_schema"
  by simp

subsection \<open>Normalization establishes the invariant\<close>

lemma opt_kw_Inr:
  "opt_kw raw key f = Inr r \<longleftrightarrow>
     (map_of raw (KStr key) = None \<and> r = None) \<or>
     (\<exists>v x. map_of raw (KStr key) = Some v \<and> f v = Inr x \<and> r = Some x)"
  by (auto simp: opt_kw_def bind_r_Inr_iff split: option.splits)

lemma type_items_length: "type_items vs = Inr ts \<Longrightarrow> length ts = length vs"
  by (induction vs arbitrary: ts rule: type_items.induct)
    (auto simp: bind_r_Inr_iff split: option.splits)

lemma normalize_type_ok: "normalize_type v = Inr ts \<Longrightarrow> ts \<noteq> [] \<and> distinct ts"
  by (auto simp: normalize_type_def bind_r_Inr_iff Let_def dest!: type_items_length
      split: pyval.splits list.splits if_splits option.splits)

lemma normalize_required_ok: "normalize_required v = Inr ns \<Longrightarrow> distinct ns"
  by (auto simp: normalize_required_def split: option.splits if_splits)

lemma normalize_enum_ok: "normalize_enum v = Inr vs \<Longrightarrow> vs \<noteq> [] \<and> literals_unique vs \<and> v = PList vs"
  by (auto simp: normalize_enum_def split: pyval.splits list.splits if_splits)

lemma normalize_properties_Inr:
  "normalize_properties f v = Inr ps \<Longrightarrow>
   \<exists>raw. v = PDict raw \<and> distinct (keys_of ps) \<and>
     (\<forall>(n, s) \<in> set ps. \<exists>k c. (k, c) \<in> set raw \<and> f c = Inr s)"
proof -
  assume "normalize_properties f v = Inr ps"
  then obtain raw ps' where raw: "v = PDict raw" "ps = dict_of ps'"
      "list_all2 (\<lambda>x y. (case x of (n, child) \<Rightarrow> bind_r (f child) (\<lambda>s. Inr (key_text n, s))) = Inr y) raw ps'"
    by (auto simp: normalize_properties_def bind_r_Inr_iff map_r_Inr_iff split: pyval.splits)
  have "\<exists>k c. (k, c) \<in> set raw \<and> f c = Inr s" if "(n, s) \<in> set ps'" for n s
  proof -
    from raw(3) that obtain i where "i < length raw" "ps' ! i = (n, s)"
        "(case raw ! i of (n, child) \<Rightarrow> bind_r (f child) (\<lambda>s. Inr (key_text n, s))) = Inr (ps' ! i)"
      by (auto simp: list_all2_conv_all_nth in_set_conv_nth)
    then show ?thesis
      by (cases "raw ! i") (force simp: bind_r_Inr_iff in_set_conv_nth)
  qed
  moreover have "(n, s) \<in> set ps'" if "(n, s) \<in> set ps" for n s
  proof -
    from that raw(2) have "map_of (dict_of ps') n = Some s"
      using dict_of_ok[of ps'] by simp
    then show ?thesis by (auto simp: dict_of_get dest: map_of_SomeD)
  qed
  ultimately show ?thesis using raw dict_of_ok[of ps'] by fastforce
qed

lemma normalize_branches_Inr:
  "normalize_branches f kw v = Inr bs \<Longrightarrow>
   bs \<noteq> [] \<and> (\<exists>raw. v = PList raw \<and> (\<forall>s \<in> set bs. \<exists>c \<in> set raw. f c = Inr s))"
proof -
  assume "normalize_branches f kw v = Inr bs"
  then obtain r rs where "v = PList (r # rs)" "list_all2 (\<lambda>x y. f x = Inr y) (r # rs) bs"
    by (auto simp: normalize_branches_def map_r_Inr_iff split: pyval.splits list.splits
        simp del: map_r.simps)
  then have "v = PList (r # rs)" "length bs = Suc (length rs)"
      "\<forall>i < length bs. f ((r # rs) ! i) = Inr (bs ! i)"
    by (auto simp: list_all2_conv_all_nth)
  then show ?thesis by (metis in_set_conv_nth length_Cons list.size(3) nat.distinct(1))
qed

lemma check_literals_iff:
  "check_literals k = Inr () \<longleftrightarrow>
     list_all (\<lambda>v. compiled_validation_failure v (compile_validation_plan False (SObj k)) = None)
       (opt_list (kw_enum k)) \<and>
     (case kw_const k of None \<Rightarrow> True
      | Some c \<Rightarrow> compiled_validation_failure c (compile_validation_plan False (SObj k)) = None)"
  unfolding check_literals_def
  by (cases "kw_const k") (simp_all add: bind_r_Inr_iff iter_r_Inr_iff guard_r_Inr_iff list_all_iff conj_commute)

lemma require_declared_iff:
  "require_declared kw t present types = Inr () \<longleftrightarrow>
     (present \<and> opt_list types \<noteq> [] \<longrightarrow> t \<in> set (opt_list types))"
  by (auto simp: require_declared_def guard_r_Inr_iff)

lemma annotations_simps [simp]:
  "annotations [] = []"
  "annotations ((KStr n, v) # raw) =
     (if n \<in> set annotation_keys then (n, v) # annotations raw else annotations raw)"
  "annotations ((KOther n, v) # raw) = annotations raw"
  by (simp_all add: annotations_def)

lemma annotations_mem: "(n, v) \<in> set (annotations raw) \<longleftrightarrow> (KStr n, v) \<in> set raw \<and> n \<in> set annotation_keys"
proof (induction raw)
  case (Cons kv raw)
  obtain k w where "kv = (k, w)" by force
  with Cons show ?case by (cases k) auto
qed simp

lemma annotations_distinct: "distinct (keys_of raw) \<Longrightarrow> distinct (keys_of (annotations raw))"
proof (induction raw)
  case (Cons kv raw)
  obtain k w where kv: "kv = (k, w)" by force
  have "n \<notin> fst ` set (annotations raw)" if "k = KStr n" for n
    using Cons.prems kv that by (auto simp: annotations_mem rev_image_eqI)
  with Cons kv show ?case by (cases k) auto
qed simp

lemma annotations_ok:
  assumes "wf_val (PDict raw)"
  shows "distinct (keys_of (annotations raw))" "set (keys_of (annotations raw)) \<subseteq> set annotation_keys"
    "list_all (\<lambda>(n, v). wf_val v) (annotations raw)"
  using assms
  by (auto simp: annotations_distinct annotations_mem list_all_iff)

lemma wf_val_map_of: "wf_val (PDict raw) \<Longrightarrow> map_of raw k = Some v \<Longrightarrow> wf_val v"
  by (blast intro: wf_val_item map_of_in_set)

lemma normalize_schema_Dict_cases:
  assumes "normalize_schema (PDict raw) = Inr s"
  obtains k where "s = SObj k"
  using assms unfolding normalize_schema.simps Let_def bind_r_Inr_iff
  by (elim exE conjE) (simp only: sum.inject, blast)

lemma normalize_schema_DictD:
  assumes "normalize_schema (PDict raw) = Inr (SObj k)"
  shows "check_keywords raw = Inr ()"
    and "opt_kw raw ''type'' normalize_type = Inr (kw_type k)"
    and "opt_kw raw ''properties'' (normalize_properties normalize_schema) = Inr (kw_props k)"
    and "require_declared ''properties'' JObject (kw_props k \<noteq> None) (kw_type k) = Inr ()"
    and "opt_kw raw ''required'' normalize_required = Inr (kw_required k)"
    and "opt_kw raw ''additionalProperties'' (\<lambda>v. case v of
         PBool b \<Rightarrow> Inr (if b then STrue else SFalse) | _ \<Rightarrow> normalize_schema v) = Inr (kw_additional k)"
    and "opt_kw raw ''items'' normalize_schema = Inr (kw_items k)"
    and "require_declared ''items'' JArray (kw_items k \<noteq> None) (kw_type k) = Inr ()"
    and "opt_kw raw ''anyOf'' (normalize_branches normalize_schema ''anyOf'') = Inr (kw_any k)"
    and "opt_kw raw ''oneOf'' (normalize_branches normalize_schema ''oneOf'') = Inr (kw_one k)"
    and "opt_kw raw ''allOf'' (normalize_branches normalize_schema ''allOf'') = Inr (kw_all k)"
    and "opt_kw raw ''enum'' normalize_enum = Inr (kw_enum k)"
    and "opt_kw raw ''const'' Inr = Inr (kw_const k)"
    and "kw_annot k = annotations raw"
    and "check_literals k = Inr ()"
  using assms unfolding normalize_schema.simps Let_def bind_r_Inr_iff
  by ((elim exE conjE, simp only: sum.inject schema.inject, hypsubst, simp)+)

lemma normalize_schema_DictI:
  assumes "check_keywords raw = Inr ()"
    and "opt_kw raw ''type'' normalize_type = Inr (kw_type k)"
    and "opt_kw raw ''properties'' (normalize_properties normalize_schema) = Inr (kw_props k)"
    and "require_declared ''properties'' JObject (kw_props k \<noteq> None) (kw_type k) = Inr ()"
    and "opt_kw raw ''required'' normalize_required = Inr (kw_required k)"
    and "opt_kw raw ''additionalProperties'' (\<lambda>v. case v of
         PBool b \<Rightarrow> Inr (if b then STrue else SFalse) | _ \<Rightarrow> normalize_schema v) = Inr (kw_additional k)"
    and "opt_kw raw ''items'' normalize_schema = Inr (kw_items k)"
    and "require_declared ''items'' JArray (kw_items k \<noteq> None) (kw_type k) = Inr ()"
    and "opt_kw raw ''anyOf'' (normalize_branches normalize_schema ''anyOf'') = Inr (kw_any k)"
    and "opt_kw raw ''oneOf'' (normalize_branches normalize_schema ''oneOf'') = Inr (kw_one k)"
    and "opt_kw raw ''allOf'' (normalize_branches normalize_schema ''allOf'') = Inr (kw_all k)"
    and "opt_kw raw ''enum'' normalize_enum = Inr (kw_enum k)"
    and "opt_kw raw ''const'' Inr = Inr (kw_const k)"
    and "annotations raw = kw_annot k"
    and "check_literals k = Inr ()"
  shows "normalize_schema (PDict raw) = Inr (SObj k)"
  unfolding normalize_schema.simps Let_def by (simp only: assms bind_r_simps kws.collapse)

lemma normalize_schema_level:
  assumes wf: "wf_val (PDict raw)" and n: "normalize_schema (PDict raw) = Inr (SObj k)"
  shows "level_ok k"
proof -
  note D = normalize_schema_DictD[OF n]
  have ty: "kw_type k \<noteq> Some [] \<and> distinct (opt_list (kw_type k))"
    using D(2) by (auto simp: opt_kw_Inr dest: normalize_type_ok)
  have ps: "distinct (keys_of (opt_list (kw_props k)))"
    using D(3) by (auto simp: opt_kw_Inr dest!: normalize_properties_Inr)
  have req: "distinct (opt_list (kw_required k))"
    using D(5) by (auto simp: opt_kw_Inr dest: normalize_required_ok)
  have br: "kw_any k \<noteq> Some []" "kw_one k \<noteq> Some []" "kw_all k \<noteq> Some []"
    using D(9,10,11) by (auto simp: opt_kw_Inr dest: normalize_branches_Inr)
  have en: "kw_enum k \<noteq> Some [] \<and> literals_unique (opt_list (kw_enum k)) \<and>
      list_all wf_val (opt_list (kw_enum k))"
  proof (cases "kw_enum k")
    case (Some vs)
    with D(12) obtain v where v: "map_of raw (KStr ''enum'') = Some v" "normalize_enum v = Inr vs"
      by (auto simp: opt_kw_Inr)
    from wf_val_map_of[OF wf v(1)] v(2) Some show ?thesis by (auto dest!: normalize_enum_ok)
  qed simp
  have co: "case kw_const k of None \<Rightarrow> True | Some c \<Rightarrow> wf_val c"
    using D(13) wf_val_map_of[OF wf] by (auto simp: opt_kw_Inr)
  show ?thesis
    unfolding level_ok_def
    using ty ps req br en co D(4,8,14,15) annotations_ok[OF wf]
    by (simp add: check_literals_iff require_declared_iff)
qed

lemma normalize_schema_ok:
  "wf_val raw \<Longrightarrow> normalize_schema raw = Inr s \<Longrightarrow> contract_ok s"
proof (induction raw arbitrary: s rule: measure_induct_rule[of size])
  case (less v)
  show ?case
  proof (cases v)
    case (PBool b)
    with less.prems show ?thesis by (auto simp: normalize_schema.simps split: if_splits)
  next
    case (PDict raw)
    with less.prems obtain k where k: "s = SObj k"
      by (auto elim: normalize_schema_Dict_cases)
    note n = less.prems(2)[unfolded PDict k] and wf = less.prems(1)[unfolded PDict]
    note D = normalize_schema_DictD[OF n]
    have IH: "contract_ok t" if "size c < size (PDict raw)" "wf_val c" "normalize_schema c = Inr t" for c t
      using less.IH[of c t] that PDict by blast
    have props: "contract_ok t" if "(m, t) \<in> set (opt_list (kw_props k))" for m t
    proof -
      from that D(3) obtain pv ps where "map_of raw (KStr ''properties'') = Some pv"
          "normalize_properties normalize_schema pv = Inr ps" "(m, t) \<in> set ps"
        by (auto simp: opt_kw_Inr)
      then obtain r n' c where c: "map_of raw (KStr ''properties'') = Some (PDict r)" "(n', c) \<in> set r"
          "normalize_schema c = Inr t"
        by (fastforce dest!: normalize_properties_Inr)
      show ?thesis
        by (rule IH[OF size_property[OF c(1,2)] _ c(3)])
          (use wf_val_item[OF wf_val_map_of[OF wf c(1)] c(2)] in blast)
    qed
    have branches: "contract_ok t"
      if br: "opt_kw raw key (normalize_branches normalize_schema key') = Inr o'" "t \<in> set (opt_list o')"
      for key key' o' t
    proof -
      from br obtain bv bs where "map_of raw (KStr key) = Some bv"
          "normalize_branches normalize_schema key' bv = Inr bs" "t \<in> set bs"
        by (auto simp: opt_kw_Inr)
      then obtain r c where c: "map_of raw (KStr key) = Some (PList r)" "c \<in> set r"
          "normalize_schema c = Inr t"
        by (fastforce dest!: normalize_branches_Inr)
      show ?thesis
        by (rule IH[OF size_branch[OF c(1,2)] _ c(3)])
          (use wf_val_elem[OF wf_val_map_of[OF wf c(1)] c(2)] in blast)
    qed
    have items: "contract_ok t" if "kw_items k = Some t" for t
    proof -
      from that D(7) obtain c where "map_of raw (KStr ''items'') = Some c" "normalize_schema c = Inr t"
        by (auto simp: opt_kw_Inr)
      then show ?thesis using IH size_map_of wf_val_map_of[OF wf] by blast
    qed
    have add: "schema_ok t" if "kw_additional k = Some t" for t
    proof -
      from that D(6) obtain c where c: "map_of raw (KStr ''additionalProperties'') = Some c"
          "(case c of PBool b \<Rightarrow> Inr (if b then STrue else SFalse) | _ \<Rightarrow> normalize_schema c) = Inr t"
        by (auto simp: opt_kw_Inr)
      show ?thesis
      proof (cases "\<exists>b. c = PBool b")
        case True
        with c(2) show ?thesis by (auto split: if_splits)
      next
        case False
        with c(2) have "normalize_schema c = Inr t" by (cases c) auto
        with IH[OF size_map_of[OF c(1)] wf_val_map_of[OF wf c(1)]] show ?thesis by blast
      qed
    qed
    show ?thesis
      using normalize_schema_level[OF wf n] props items add branches[OF D(9)] branches[OF D(10)]
        branches[OF D(11)]
      by (auto simp: k list_all_iff split: option.splits)
  qed (use less.prems in \<open>auto simp: normalize_schema.simps\<close>)
qed

subsection \<open>Normal forms are fixed points\<close>

lemma jtype_of_name [simp]: "jtype_of (jtype_name t) = Some t"
  by (cases t) (simp_all add: jtype_of_def json_types_def)

lemma type_items_names: "type_items (map (PStr \<circ> jtype_name) ts) = Inr ts"
  by (induction ts) auto

lemma normalize_type_to_py: "ts \<noteq> [] \<Longrightarrow> distinct ts \<Longrightarrow> normalize_type (type_to_py ts) = Inr ts"
proof -
  assume ts: "ts \<noteq> []" "distinct ts"
  consider t where "ts = [t]" | t u us where "ts = t # u # us"
    using ts(1) by (metis neq_Nil_conv)
  then show ?thesis
    using ts type_items_names[of ts] by cases (auto simp: normalize_type_def type_to_py_def)
qed

lemma str_items_map: "str_items (map PStr ns) = Some ns"
  by (induction ns) auto

lemma normalize_required_to_py: "distinct ns \<Longrightarrow> normalize_required (PList (map PStr ns)) = Inr ns"
  by (simp add: normalize_required_def str_items_map)

lemma map_of_opt_entry [simp]:
  "map_of (opt_entry key f x) k = (if k = KStr key then map_option f x else None)"
  by (auto simp: opt_entry_def split: option.splits)

lemma map_of_annot:
  "set (keys_of an) \<subseteq> set annotation_keys \<Longrightarrow> k \<notin> KStr ` set annotation_keys \<Longrightarrow>
   map_of (map (\<lambda>(n, v). (KStr n, v)) an) k = None"
  by (induction an) (auto simp: image_iff)

lemma annotations_append [simp]: "annotations (a @ b) = annotations a @ annotations b"
  by (simp add: annotations_def)

lemma annotations_opt_entry [simp]: "key \<notin> set annotation_keys \<Longrightarrow> annotations (opt_entry key f x) = []"
  by (simp add: opt_entry_def split: option.splits)

lemma annotations_annot:
  "set (keys_of an) \<subseteq> set annotation_keys \<Longrightarrow> annotations (map (\<lambda>(n, v). (KStr n, v)) an) = an"
  by (induction an) auto

text \<open>The keywords of a rendered schema read back as its fields.\<close>

definition schema_entries :: "schema kws \<Rightarrow> (pykey \<times> pyval) list" where
  "schema_entries k = (case schema_to_py (SObj k) of PDict d \<Rightarrow> d | _ \<Rightarrow> [])"

lemma schema_to_py_SObj: "schema_to_py (SObj k) = PDict (schema_entries k)"
  by (simp add: schema_entries_def schema_to_py.simps)

lemma schema_entries_lookup:
  assumes "set (keys_of (kw_annot k)) \<subseteq> set annotation_keys"
  shows "map_of (schema_entries k) (KStr ''type'') = map_option type_to_py (kw_type k)"
    and "map_of (schema_entries k) (KStr ''properties'') =
      map_option (\<lambda>ps. PDict (map (\<lambda>(n, s). (KStr n, schema_to_py s)) ps)) (kw_props k)"
    and "map_of (schema_entries k) (KStr ''required'') = map_option (\<lambda>ns. PList (map PStr ns)) (kw_required k)"
    and "map_of (schema_entries k) (KStr ''additionalProperties'') = map_option schema_to_py (kw_additional k)"
    and "map_of (schema_entries k) (KStr ''items'') = map_option schema_to_py (kw_items k)"
    and "map_of (schema_entries k) (KStr ''enum'') = map_option PList (kw_enum k)"
    and "map_of (schema_entries k) (KStr ''const'') = kw_const k"
    and "map_of (schema_entries k) (KStr ''anyOf'') = map_option (\<lambda>bs. PList (map schema_to_py bs)) (kw_any k)"
    and "map_of (schema_entries k) (KStr ''oneOf'') = map_option (\<lambda>bs. PList (map schema_to_py bs)) (kw_one k)"
    and "map_of (schema_entries k) (KStr ''allOf'') = map_option (\<lambda>bs. PList (map schema_to_py bs)) (kw_all k)"
  using map_of_annot[OF assms]
  by (simp_all add: schema_entries_def schema_to_py.simps map_add_def annotation_keys_def option.map_id
      split: option.splits)

lemma schema_entries_keywords:
  assumes "set (keys_of (kw_annot k)) \<subseteq> set annotation_keys"
  shows "check_keywords (schema_entries k) = Inr ()"
proof -
  have "is_str_key key \<and> key_text key \<in> set schema_keys" if "key \<in> set (keys_of (schema_entries k))" for key
    using that assms
    by (auto simp: schema_entries_def schema_to_py.simps opt_entry_def schema_keys_def annotation_keys_def
        split: option.splits)
  then have "filter (\<lambda>key. \<not> (is_str_key key \<and> key_text key \<in> set schema_keys))
      (keys_of (schema_entries k)) = []"
    by (simp only: filter_empty_conv) blast
  then show ?thesis by (simp add: check_keywords_def)
qed

lemma schema_entries_annotations:
  assumes "set (keys_of (kw_annot k)) \<subseteq> set annotation_keys"
  shows "annotations (schema_entries k) = kw_annot k"
  using annotations_annot[OF assms]
  by (simp add: schema_entries_def schema_to_py.simps annotation_keys_def)

lemma normalize_properties_to_py:
  assumes "distinct (keys_of ps)"
    and "\<And>n s. (n, s) \<in> set ps \<Longrightarrow> f (schema_to_py s) = Inr s"
  shows "normalize_properties f (PDict (map (\<lambda>(n, s). (KStr n, schema_to_py s)) ps)) = Inr ps"
proof -
  have "map_r (\<lambda>(n, child). bind_r (f child) (\<lambda>s. Inr (key_text n, s)))
      (map (\<lambda>(n, s). (KStr n, schema_to_py s)) ps) = Inr ps"
    using assms(2)
  proof (induction ps)
    case (Cons p ps)
    obtain n s where p: "p = (n, s)" by force
    have "map_r (\<lambda>(n, child). bind_r (f child) (\<lambda>s. Inr (key_text n, s)))
      (map (\<lambda>(n, s). (KStr n, schema_to_py s)) ps) = Inr ps"
    proof (rule Cons.IH)
      show "f (schema_to_py t) = Inr t" if "(m, t) \<in> set ps" for m t
        using Cons.prems[of m t] that by simp
    qed
    then show ?case using Cons.prems[of n s] by (simp add: p)
  qed simp
  with assms(1) show ?thesis by (simp add: normalize_properties_def)
qed

lemma normalize_branches_to_py:
  assumes "bs \<noteq> []" and "\<And>s. s \<in> set bs \<Longrightarrow> f (schema_to_py s) = Inr s"
  shows "normalize_branches f key (PList (map schema_to_py bs)) = Inr bs"
proof -
  have "map_r f (map schema_to_py bs) = Inr bs"
    using assms(2) by (induction bs) auto
  with assms(1) show ?thesis by (cases bs) (auto simp: normalize_branches_def)
qed

lemma normalize_schema_to_py: "contract_ok s \<Longrightarrow> normalize_schema (schema_to_py s) = Inr s"
proof (induction s rule: measure_induct_rule[of size])
  case (less s)
  show ?case
  proof (cases s)
    case (SObj k)
    with less.prems have ok: "schema_ok (SObj k)" by simp
    note lv = schema_ok_level[OF ok, unfolded level_ok_def]
    have an: "set (keys_of (kw_annot k)) \<subseteq> set annotation_keys" using lv by simp
    note look = schema_entries_lookup[OF an]
    have IH: "normalize_schema (schema_to_py t) = Inr t" if "t \<in> set_kws k" "contract_ok t" for t
      using less.IH[of t] size_kws_mem[OF that(1)] that(2) SObj by blast
    have br: "opt_kw (schema_entries k) key (normalize_branches normalize_schema key) = Inr o'"
      if "map_of (schema_entries k) (KStr key) = map_option (\<lambda>bs. PList (map schema_to_py bs)) o'"
        "o' \<noteq> Some []" "\<And>t. t \<in> set (opt_list o') \<Longrightarrow> t \<in> set_kws k \<and> contract_ok t" for key o'
      using that IH by (cases o') (auto simp: opt_kw_def normalize_branches_to_py)
    have "normalize_schema (PDict (schema_entries k)) = Inr (SObj k)"
    proof (rule normalize_schema_DictI)
      show "opt_kw (schema_entries k) ''type'' normalize_type = Inr (kw_type k)"
        using lv by (cases "kw_type k") (auto simp: opt_kw_def look normalize_type_to_py)
      show "opt_kw (schema_entries k) ''properties'' (normalize_properties normalize_schema) = Inr (kw_props k)"
        using lv IH[OF kws_opt_members(1)] schema_ok_subs(1)[OF ok]
        by (cases "kw_props k") (auto simp: opt_kw_def look normalize_properties_to_py)
      show "opt_kw (schema_entries k) ''required'' normalize_required = Inr (kw_required k)"
        using lv by (cases "kw_required k") (auto simp: opt_kw_def look normalize_required_to_py)
      show "opt_kw (schema_entries k) ''additionalProperties'' (\<lambda>v. case v of
         PBool b \<Rightarrow> Inr (if b then STrue else SFalse) | _ \<Rightarrow> normalize_schema v) = Inr (kw_additional k)"
      proof (cases "kw_additional k")
        case (Some t)
        show ?thesis
        proof (cases t)
          case (SObj ak)
          with IH[OF kws_members(2)[OF Some]] schema_ok_subs(2)[OF ok Some]
          show ?thesis by (simp add: opt_kw_def look Some schema_to_py_SObj)
        qed (simp_all add: opt_kw_def look Some schema_to_py.simps)
      qed (simp add: opt_kw_def look)
      show "opt_kw (schema_entries k) ''items'' normalize_schema = Inr (kw_items k)"
        using IH[OF kws_members(3)] schema_ok_subs(3)[OF ok]
        by (cases "kw_items k") (auto simp: opt_kw_def look)
      show "opt_kw (schema_entries k) ''anyOf'' (normalize_branches normalize_schema ''anyOf'') = Inr (kw_any k)"
        using lv by (intro br look) (auto intro: kws_opt_members dest: schema_ok_subs(4)[OF ok])
      show "opt_kw (schema_entries k) ''oneOf'' (normalize_branches normalize_schema ''oneOf'') = Inr (kw_one k)"
        using lv by (intro br look) (auto intro: kws_opt_members dest: schema_ok_subs(5)[OF ok])
      show "opt_kw (schema_entries k) ''allOf'' (normalize_branches normalize_schema ''allOf'') = Inr (kw_all k)"
        using lv by (intro br look) (auto intro: kws_opt_members dest: schema_ok_subs(6)[OF ok])
      show "opt_kw (schema_entries k) ''enum'' normalize_enum = Inr (kw_enum k)"
        using lv by (cases "kw_enum k") (auto simp: opt_kw_def look normalize_enum_def neq_Nil_conv)
      show "opt_kw (schema_entries k) ''const'' Inr = Inr (kw_const k)"
        by (cases "kw_const k") (auto simp: opt_kw_def look)
      show "check_literals k = Inr ()"
        using lv by (simp add: check_literals_iff)
    qed (use lv schema_entries_keywords[OF an] schema_entries_annotations[OF an]
        in \<open>auto simp: require_declared_iff\<close>)
    with SObj show ?thesis by (simp add: schema_to_py_SObj)
  qed (use less.prems in \<open>simp_all add: schema_to_py.simps normalize_schema.simps\<close>)
qed

declare schema_ok.simps [simp del] shape_ok.simps [simp del]

lemma schema_ok_simps [simp]: "schema_ok SFalse" "schema_ok STrue" "schema_ok any_schema"
  by (simp_all add: schema_ok.simps)

lemma shape_ok_simps [simp]: "shape_ok SFalse" "shape_ok STrue" "shape_ok any_schema"
  by (simp_all add: shape_ok.simps shape_level_def)

subsection \<open>Properties\<close>

text \<open>\<^bold>\<open>C38\<close>. Normalization is idempotent: the dictionary of a normalized contract is accepted
  again and normalizes to the same contract, whatever raw contract it came from.\<close>

theorem normalize_schema_idempotent:
  assumes "wf_val raw" and "normalize_schema raw = Inr s"
  shows "normalize_schema (schema_to_py s) = Inr s"
  by (rule normalize_schema_to_py[OF normalize_schema_ok[OF assms]])

theorem normalize_schema_idempotent_witness:
  "\<exists>s. normalize_schema (PDict [(KStr ''properties'', PDict [(KStr ''a'', PBool True)]),
     (KStr ''required'', PList [PStr ''a''])]) = Inr s \<and> normalize_schema (schema_to_py s) = Inr s"
proof -
  let ?raw = "PDict [(KStr ''properties'', PDict [(KStr ''a'', PBool True)]),
     (KStr ''required'', PList [PStr ''a''])]"
  have n: "normalize_schema ?raw = Inr (SObj (Kws None (Some [(''a'', any_schema)]) (Some [''a''])
      None None None None None None None []))"
    by code_simp
  have "wf_val ?raw" by simp
  from normalize_schema_idempotent[OF this n] n show ?thesis by blast
qed

end
