(* ===== verification/Data_Validation.thy ===== *)
theory Data_Validation
  imports Schema_Normal
begin

section \<open>The compiled validator implements the reference validator\<close>

text \<open>
  \<open>engine/contracts/data_model.py\<close> has two validators of a normalized contract: the
  recursive \<open>_validate_normalized_json_value\<close> and the pair
  \<open>compile_validation_plan\<close>/\<open>compiled_validation_failure\<close> the runtime executes. This
  theory proves that they accept the same values and raise the same exceptions, text
  included, and what acceptance means: the value is exact JSON, literal equality cannot
  tell accepted from rejected values, and the runtime types that topology derives are sound.
\<close>

subsection \<open>Induction over a value and a schema\<close>

lemma value_schema_induct:
  assumes "\<And>v s. (\<And>v' s'. size v' < size v \<Longrightarrow> P v' s') \<Longrightarrow> (\<And>s'. size s' < size s \<Longrightarrow> P v s') \<Longrightarrow> P v s"
  shows "P (v :: pyval) (s :: schema)"
proof (induction v arbitrary: s rule: measure_induct_rule[of size])
  case (less v)
  note outer = this
  show ?case
  proof (induction s rule: measure_induct_rule[of size])
    case (less s)
    show ?case by (rule assms) (use outer less in blast)+
  qed
qed

subsection \<open>A failure as the exception it raises\<close>

definition reported :: "string \<Rightarrow> failure option \<Rightarrow> unit res" where
  "reported path f =
     (case f of None \<Rightarrow> Inr () | Some x \<Rightarrow> Inl (raise_compiled_validation_failure x path))"

named_theorems report_simps \<open>the failure combinators as exception combinators\<close>

lemma validation_path_Cons [simp]:
  "validation_path root [] = root"
  "validation_path root (PName n # segs) = validation_path (root @ ''.'' @ n) segs"
  "validation_path root (PIndex i # segs) = validation_path (root @ ''['' @ nat_str i @ '']'') segs"
  by (simp_all add: validation_path_def)

lemma reported_None [simp, report_simps]: "reported path None = Inr ()"
  by (simp add: reported_def)

lemma reported_Some [report_simps]: "reported path (Some ([], kind)) = Inl (verr path kind)"
  by (simp add: reported_def raise_compiled_validation_failure_def)

lemma reported_Inr_iff: "reported path f = Inr () \<longleftrightarrow> f = None"
  by (simp add: reported_def split: option.splits)

lemma reported_name [report_simps]: "reported path (under (PName n) f) = reported (path @ ''.'' @ n) f"
  by (auto simp: reported_def under_def raise_compiled_validation_failure_def split: option.splits)

lemma reported_index [report_simps]:
  "reported path (under (PIndex i) f) = reported (path @ ''['' @ nat_str i @ '']'') f"
  by (auto simp: reported_def under_def raise_compiled_validation_failure_def split: option.splits)

lemma reported_or_else [report_simps]:
  "reported path (or_else a b) = bind_r (reported path a) (\<lambda>_. reported path b)"
  by (auto simp: reported_def or_else_def split: option.splits)

lemma reported_fail_if [report_simps]: "reported path (fail_if b kind) = guard_r (\<not> b) (verr path kind)"
  by (simp add: fail_if_def guard_r_def report_simps)

lemma reported_first_some [report_simps]:
  "reported path (first_some f xs) = iter_r (\<lambda>x. reported path (f x)) xs"
  by (induction xs) (auto simp: reported_def split: option.splits)

lemma reported_required [report_simps]:
  "reported path (if b then None else Some ([PName n], kind)) = guard_r b (verr (path @ ''.'' @ n) kind)"
  by (simp add: reported_def raise_compiled_validation_failure_def)

lemma count_matches_reported:
  "count_matches (map (\<lambda>b. reported path (g b)) bs) = Inr (length (filter (\<lambda>b. g b = None) bs))"
  by (induction bs) (auto simp: reported_def raise_compiled_validation_failure_def split: option.splits)

lemma label_error_normal:
  "contract_ok s \<Longrightarrow> label_error path actual s = verr path (TypeMismatch actual (normalized_schema_label s))"
  by (simp add: label_error_def schema_label_def normalize_schema_to_py)

subsection \<open>One level of the compiled validator\<close>

text \<open>\<open>compiled_at\<close> is the check of a plan compiled from a contract; its equation is that of
  \<open>compiled_validation_failure\<close> with the plan's fields replaced by the keywords they come from.\<close>

abbreviation compiled_at :: "bool \<Rightarrow> pyval \<Rightarrow> schema \<Rightarrow> failure option" where
  "compiled_at trusted v s \<equiv> compiled_validation_failure v (compile_validation_plan trusted s)"

text \<open>The contract of an undeclared member; \<open>None\<close> when the object is closed.\<close>

definition open_contract :: "schema kws \<Rightarrow> schema option" where
  "open_contract k = (case kw_additional k of
     None \<Rightarrow> Some any_schema | Some STrue \<Rightarrow> Some any_schema | Some SFalse \<Rightarrow> None | Some s \<Rightarrow> Some s)"

definition member_contract :: "schema kws \<Rightarrow> string \<Rightarrow> schema option" where
  "member_contract k name =
     (case map_of (opt_list (kw_props k)) name of Some s \<Rightarrow> Some s | None \<Rightarrow> open_contract k)"

definition item_contract :: "schema kws \<Rightarrow> schema" where
  "item_contract k = (case kw_items k of None \<Rightarrow> any_schema | Some s \<Rightarrow> s)"

lemma list_ex_mapped: "list_ex P (map f xs) = list_ex (\<lambda>x. P (f x)) xs"
  by (induction xs) auto

lemma compiled_any: "compile_validation_plan trusted any_schema = PlanWildcard trusted"
  by (simp add: compile_validation_plan.simps)

lemma compiled_False [simp]: "compiled_at trusted v SFalse = Some ([], Forbidden)"
  by (simp add: compile_validation_plan.simps compiled_validation_failure.simps)

lemma map_of_compiled: "map_of (map (\<lambda>(n, s). (n, compile_validation_plan trusted s)) ps) n =
    map_option (compile_validation_plan trusted) (map_of ps n)"
  by (induction ps) auto

lemma compiled_additional:
  "(case kw_additional k of
           None \<Rightarrow> Some (PlanWildcard trusted)
         | Some SFalse \<Rightarrow> None
         | Some s \<Rightarrow> Some (compile_validation_plan trusted s)) =
   map_option (compile_validation_plan trusted) (open_contract k)"
  by (auto simp: open_contract_def compiled_any compile_validation_plan.simps(1)
      split: option.splits schema.splits)

lemma compiled_items:
  "(case kw_items k of
           None \<Rightarrow> PlanWildcard trusted
         | Some s \<Rightarrow> compile_validation_plan trusted s) = compile_validation_plan trusted (item_contract k)"
  by (simp add: item_contract_def compiled_any split: option.splits)

definition member_failure :: "bool \<Rightarrow> schema kws \<Rightarrow> pykey \<times> pyval \<Rightarrow> failure option" where
  "member_failure trusted k = (\<lambda>(key, child). case key of
     KOther _ \<Rightarrow> Some ([], NonStringKey)
   | KStr name \<Rightarrow> under (PName name)
       (case member_contract k name of None \<Rightarrow> Some ([], AdditionalField)
        | Some s \<Rightarrow> compiled_at trusted child s))"

definition children_failure :: "bool \<Rightarrow> pyval \<Rightarrow> schema kws \<Rightarrow> failure option" where
  "children_failure trusted v k =
     (case v of
        PDict kvs \<Rightarrow>
          or_else (first_some (\<lambda>name. if KStr name \<in> set (keys_of kvs) then None
              else Some ([PName name], RequiredMissing)) (opt_list (kw_required k)))
            (first_some (member_failure trusted k) kvs)
      | PList xs \<Rightarrow> first_some (\<lambda>(i, child).
          under (PIndex i) (compiled_at trusted child (item_contract k))) (enumerate 0 xs)
      | _ \<Rightarrow> None)"

lemma member_failure_any: "member_failure trusted no_kws = (\<lambda>(key, child). case key of
     KOther _ \<Rightarrow> Some ([], NonStringKey)
   | KStr name \<Rightarrow> under (PName name) (compiled_at trusted child any_schema))"
  by (auto simp: fun_eq_iff member_failure_def member_contract_def open_contract_def split: pykey.split)

lemma compiled_at_any:
  "compiled_at trusted v any_schema =
     (if trusted then None else if non_json v then Some ([], NonJson) else children_failure trusted v no_kws)"
proof -
  have item: "item_contract no_kws = any_schema" by (simp add: item_contract_def)
  show ?thesis
    unfolding children_failure_def member_failure_any item compiled_any
    by (subst compiled_validation_failure.simps) (auto simp: or_else_def split: pyval.splits)
qed

lemma compiled_at_SObj:
  assumes "k \<noteq> no_kws"
  shows "compiled_at trusted v (SObj k) =
     (case json_type v of None \<Rightarrow> Some ([], NonJson) | Some actual \<Rightarrow>
      if non_json v then Some ([], NonJson)
      else
        or_else (first_some (compiled_at trusted v) (opt_list (kw_all k)))
       (or_else (fail_if (opt_list (kw_any k) \<noteq> [] \<and>
            \<not> list_ex (\<lambda>b. compiled_at trusted v b = None) (opt_list (kw_any k))) (Combination ''anyOf''))
       (or_else (fail_if (opt_list (kw_one k) \<noteq> [] \<and>
            length (filter (\<lambda>b. compiled_at trusted v b = None) (opt_list (kw_one k))) \<noteq> 1)
            (Combination ''oneOf''))
       (or_else (fail_if (\<not> type_allowed actual (normalized_schema_types (SObj k)))
          (TypeMismatch actual (normalized_schema_label (SObj k))))
       (or_else (case kw_const k of None \<Rightarrow> None
          | Some c \<Rightarrow> fail_if (\<not> json_values_equal v c) ConstMismatch)
       (or_else (case kw_enum k of None \<Rightarrow> None
          | Some cs \<Rightarrow> fail_if (\<not> json_value_in v cs) EnumMismatch)
       (children_failure trusted v k)))))))"
proof -
  have mem: "(\<lambda>(key, child). case key of
         KOther _ \<Rightarrow> Some ([], NonStringKey)
       | KStr name \<Rightarrow> under (PName name)
          (case map_option (compile_validation_plan trusted) (map_of (opt_list (kw_props k)) name) of
             Some child_plan \<Rightarrow> compiled_validation_failure child child_plan
           | None \<Rightarrow> (case map_option (compile_validation_plan trusted) (open_contract k) of
                None \<Rightarrow> Some ([], AdditionalField)
              | Some child_plan \<Rightarrow> compiled_validation_failure child child_plan))) =
      member_failure trusted k"
    by (auto simp: fun_eq_iff member_failure_def member_contract_def split: option.splits pykey.splits)
  show ?thesis
    unfolding children_failure_def mem[symmetric]
    apply (subst compile_validation_plan.simps)
    apply (subst if_not_P[OF assms])
    apply (subst compiled_validation_failure.simps)
    apply (simp only: plan_fields.sel compiled_additional compiled_items map_of_compiled
        first_some_map length_map list_ex_mapped filter_map o_def map_is_Nil_conv)
    done
qed

lemma type_allowed_any: "type_allowed t json_types"
  by (cases t) (simp_all add: type_allowed_def json_types_def)

subsection \<open>Equivalence\<close>

lemma iter_r_ext: "(\<And>x. x \<in> set xs \<Longrightarrow> f x = g x) \<Longrightarrow> iter_r f xs = iter_r g xs"
  by (rule iter_r_cong) auto

lemma schema_ok_open: "schema_ok (SObj k) \<Longrightarrow> open_contract k = Some s \<Longrightarrow> contract_ok s"
  using schema_ok_subs(2)[of k s]
  by (cases "kw_additional k") (auto simp: open_contract_def split: schema.splits)

lemma schema_ok_member: "schema_ok (SObj k) \<Longrightarrow> member_contract k n = Some s \<Longrightarrow> contract_ok s"
  using schema_ok_prop[of k n s] schema_ok_open[of k s]
  by (auto simp: member_contract_def split: option.splits)

lemma schema_ok_item: "schema_ok (SObj k) \<Longrightarrow> contract_ok (item_contract k)"
  using schema_ok_subs(3)[of k] schema_ok_any_schema
  by (auto simp: item_contract_def split: option.splits)

text \<open>The reference validator on one level, over the same contracts of members and items.\<close>

definition member_check :: "(string \<Rightarrow> pyval \<Rightarrow> schema \<Rightarrow> unit res) \<Rightarrow> string \<Rightarrow> schema kws \<Rightarrow> pykey \<times> pyval \<Rightarrow> unit res" where
  "member_check check path k = (\<lambda>(key, child). case key of
     KOther _ \<Rightarrow> Inl (verr path NonStringKey)
   | KStr name \<Rightarrow> (case member_contract k name of
       None \<Rightarrow> Inl (verr (path @ ''.'' @ name) AdditionalField)
     | Some s \<Rightarrow> check (path @ ''.'' @ name) child s))"

definition children_check :: "bool \<Rightarrow> string \<Rightarrow> pyval \<Rightarrow> schema kws \<Rightarrow> unit res" where
  "children_check trusted path v k =
     (case v of
        PDict kvs \<Rightarrow>
          bind_r (iter_r (\<lambda>name. guard_r (KStr name \<in> set (keys_of kvs))
              (verr (path @ ''.'' @ name) RequiredMissing)) (opt_list (kw_required k))) (\<lambda>_.
          if trusted \<and> opt_list (kw_props k) = [] \<and> (kw_additional k = None \<or> kw_additional k = Some STrue)
          then Inr ()
          else iter_r (member_check (validate_normalized trusted) path k) kvs)
      | PList xs \<Rightarrow> iter_r (\<lambda>(i, child).
          validate_normalized trusted (path @ ''['' @ nat_str i @ '']'') child (item_contract k))
          (enumerate 0 xs)
      | _ \<Rightarrow> Inr ())"

lemma validate_SObj:
  "validate_normalized trusted path v (SObj k) =
     (if trusted \<and> k = no_kws then Inr ()
      else case json_type v of None \<Rightarrow> Inl (verr path NonJson) | Some actual \<Rightarrow>
      if non_json v then Inl (verr path NonJson)
      else
      bind_r (iter_r (validate_normalized trusted path v) (opt_list (kw_all k))) (\<lambda>_.
      bind_r (case kw_any k of None \<Rightarrow> Inr ()
        | Some bs \<Rightarrow> bind_r (count_matches (map (validate_normalized trusted path v) bs))
            (\<lambda>n. guard_r (n \<noteq> 0) (verr path (Combination ''anyOf'')))) (\<lambda>_.
      bind_r (case kw_one k of None \<Rightarrow> Inr ()
        | Some bs \<Rightarrow> bind_r (count_matches (map (validate_normalized trusted path v) bs))
            (\<lambda>n. guard_r (n = 1) (verr path (Combination ''oneOf'')))) (\<lambda>_.
      bind_r (guard_r (type_allowed actual (normalized_schema_types (SObj k)))
        (label_error path actual (SObj k))) (\<lambda>_.
      bind_r (case kw_const k of None \<Rightarrow> Inr ()
        | Some c \<Rightarrow> guard_r (json_values_equal v c) (verr path ConstMismatch)) (\<lambda>_.
      bind_r (case kw_enum k of None \<Rightarrow> Inr ()
        | Some cs \<Rightarrow> guard_r (json_value_in v cs) (verr path EnumMismatch)) (\<lambda>_.
      children_check trusted path v k)))))))"
proof -
  have mem: "(\<lambda>(key, child). case key of
              KOther _ \<Rightarrow> Inl (verr path NonStringKey)
            | KStr name \<Rightarrow>
                (case map_of (opt_list (kw_props k)) name of
                   Some child_schema \<Rightarrow>
                     validate_normalized trusted (path @ ''.'' @ name) child child_schema
                 | None \<Rightarrow> (case kw_additional k of
                     Some SFalse \<Rightarrow> Inl (verr (path @ ''.'' @ name) AdditionalField)
                   | Some (SObj ak) \<Rightarrow>
                       validate_normalized trusted (path @ ''.'' @ name) child (SObj ak)
                   | _ \<Rightarrow> validate_normalized trusted (path @ ''.'' @ name) child any_schema))) =
      member_check (validate_normalized trusted) path k"
    by (auto simp: fun_eq_iff member_check_def member_contract_def open_contract_def
        split: option.splits pykey.splits schema.splits)
  show ?thesis
    unfolding children_check_def mem[symmetric] item_contract_def
    by (rule validate_normalized.simps(3))
qed

lemma trusted_members:
  assumes "exact_json (PDict kvs)" "opt_list (kw_props k) = []" "kw_additional k = None \<or> kw_additional k = Some STrue"
  shows "first_some (member_failure True k) kvs = None"
  using assms compiled_at_any[where trusted = True]
  by (auto simp: first_some_None_iff member_failure_def member_contract_def open_contract_def list_all_iff
      split: pykey.splits)

lemma children_reported:
  assumes ok: "schema_ok (SObj k)" and ex: "trusted \<longrightarrow> exact_json v"
    and IH: "\<And>path child s. size child < size v \<Longrightarrow> contract_ok s \<Longrightarrow> (trusted \<longrightarrow> exact_json child) \<Longrightarrow>
      validate_normalized trusted path child s = reported path (compiled_at trusted child s)"
  shows "children_check trusted path v k = reported path (children_failure trusted v k)"
proof (cases v)
  case (PDict kvs)
  have "member_check (validate_normalized trusted) path k kv = reported path (member_failure trusted k kv)"
    if kv: "kv \<in> set kvs" for kv
  proof -
    obtain key child where eq: "kv = (key, child)" by force
    have sz: "size child < size v" unfolding PDict using kv eq by (auto simp del: pyval.size intro: size_dict_item)
    have exc: "trusted \<longrightarrow> exact_json child" using ex kv eq by (auto simp: PDict list_all_iff)
    show ?thesis
      using IH[OF sz schema_ok_member[OF ok] exc]
      by (auto simp: eq member_check_def member_failure_def report_simps split: pykey.splits option.splits)
  qed
  then have it: "iter_r (member_check (validate_normalized trusted) path k) kvs =
      reported path (first_some (member_failure trusted k) kvs)"
    by (simp add: reported_first_some cong: iter_r_cong)
  have rest: "(if trusted \<and> opt_list (kw_props k) = [] \<and> (kw_additional k = None \<or> kw_additional k = Some STrue)
      then Inr () else iter_r (member_check (validate_normalized trusted) path k) kvs) =
      reported path (first_some (member_failure trusted k) kvs)"
    using ex trusted_members[of kvs k] by (auto simp: it PDict)
  show ?thesis
    unfolding PDict children_check_def children_failure_def pyval.case rest
      reported_or_else reported_first_some[where xs = "opt_list (kw_required k)"] reported_required ..
next
  case (PList xs)
  have "validate_normalized trusted (path @ ''['' @ nat_str i @ '']'') child (item_contract k) =
      reported (path @ ''['' @ nat_str i @ '']'') (compiled_at trusted child (item_contract k))"
    if "(i, child) \<in> set (enumerate 0 xs)" for i child
    using IH[OF _ schema_ok_item[OF ok]] that ex
    by (auto simp: PList list_all_iff simp del: pyval.size dest: enumerate_mem intro: size_enum_item)
  then show ?thesis
    by (auto simp: PList children_check_def children_failure_def report_simps intro!: iter_r_ext)
qed (simp_all add: children_check_def children_failure_def)

lemma validate_normalized_compiled:
  "contract_ok s \<Longrightarrow> (trusted \<longrightarrow> exact_json v) \<Longrightarrow>
   validate_normalized trusted path v s = reported path (compiled_at trusted v s)"
proof (induction v s arbitrary: path rule: value_schema_induct)
  case (1 v s)
  show ?case
  proof (cases s)
    case (SObj k)
    note ok = "1.prems"(1)[unfolded SObj, THEN conjunct2]
    have branch: "validate_normalized trusted path v b = reported path (compiled_at trusted v b)"
      if "b \<in> set (opt_list (kw_all k)) \<or> b \<in> set (opt_list (kw_any k)) \<or> b \<in> set (opt_list (kw_one k))" for b
      using "1.IH"(2)[of b] "1.prems"(2) that size_sub_opt(2,3,4)[of b k] schema_ok_subs(4,5,6)[OF ok, of b]
      by (auto simp: SObj simp del: schema.size)
    have all: "iter_r (validate_normalized trusted path v) (opt_list (kw_all k)) =
        reported path (first_some (compiled_at trusted v) (opt_list (kw_all k)))"
      using branch by (auto simp: report_simps intro: iter_r_ext)
    have count: "count_matches (map (validate_normalized trusted path v) bs) =
        Inr (length (filter (\<lambda>b. compiled_at trusted v b = None) bs))"
      if "set bs \<subseteq> set (opt_list (kw_any k)) \<union> set (opt_list (kw_one k))" for bs
    proof -
      have "map (validate_normalized trusted path v) bs = map (\<lambda>b. reported path (compiled_at trusted v b)) bs"
        using that branch by (intro map_cong) auto
      then show ?thesis by (simp only: count_matches_reported)
    qed
    have children: "children_check trusted path v k = reported path (children_failure trusted v k)"
      using "1.IH"(1) "1.prems" by (intro children_reported ok) auto
    have lv: "level_ok k" using ok by (rule schema_ok_level)
    show ?thesis
    proof (cases "k = no_kws")
      case True
      have types: "normalized_schema_types any_schema = json_types"
        by (simp add: declared_types_def)
      show ?thesis
        unfolding SObj validate_SObj children unfolding True types
        by (auto simp: compiled_at_any reported_Some non_json_def type_allowed_any split: option.splits)
    next
      case False
      have any: "(case kw_any k of None \<Rightarrow> Inr ()
        | Some bs \<Rightarrow> bind_r (count_matches (map (validate_normalized trusted path v) bs))
            (\<lambda>n. guard_r (n \<noteq> 0) (verr path (Combination ''anyOf'')))) =
        reported path (fail_if (opt_list (kw_any k) \<noteq> [] \<and>
            \<not> list_ex (\<lambda>b. compiled_at trusted v b = None) (opt_list (kw_any k))) (Combination ''anyOf''))"
        using lv count
        by (cases "kw_any k") (auto simp: level_ok_def report_simps list_ex_iff filter_empty_conv)
      have one: "(case kw_one k of None \<Rightarrow> Inr ()
        | Some bs \<Rightarrow> bind_r (count_matches (map (validate_normalized trusted path v) bs))
            (\<lambda>n. guard_r (n = 1) (verr path (Combination ''oneOf'')))) =
        reported path (fail_if (opt_list (kw_one k) \<noteq> [] \<and>
            length (filter (\<lambda>b. compiled_at trusted v b = None) (opt_list (kw_one k))) \<noteq> 1) (Combination ''oneOf''))"
        using lv count
        by (cases "kw_one k") (auto simp: level_ok_def report_simps)
      have lits: "(case kw_const k of None \<Rightarrow> Inr ()
        | Some c \<Rightarrow> guard_r (json_values_equal v c) (verr path ConstMismatch)) =
          reported path (case kw_const k of None \<Rightarrow> None
          | Some c \<Rightarrow> fail_if (\<not> json_values_equal v c) ConstMismatch)"
        "(case kw_enum k of None \<Rightarrow> Inr ()
        | Some cs \<Rightarrow> guard_r (json_value_in v cs) (verr path EnumMismatch)) =
          reported path (case kw_enum k of None \<Rightarrow> None
          | Some cs \<Rightarrow> fail_if (\<not> json_value_in v cs) EnumMismatch)"
        by (auto simp: report_simps split: option.splits)
      show ?thesis
        unfolding SObj validate_SObj compiled_at_SObj[OF False] all any one lits children
          label_error_normal[OF "1.prems"(1)[unfolded SObj]]
        using False by (auto simp: report_simps split: option.splits)
    qed
  qed (use "1.prems" in \<open>auto simp: validate_normalized.simps report_simps\<close>)
qed

subsection \<open>Acceptance\<close>

text \<open>The values a contract accepts, and one level of it.\<close>

definition accepts :: "pyval \<Rightarrow> schema \<Rightarrow> bool" where
  "accepts v s \<longleftrightarrow> compiled_at False v s = None"

definition member_ok :: "schema kws \<Rightarrow> pykey \<times> pyval \<Rightarrow> bool" where
  "member_ok k = (\<lambda>(key, child). case key of
     KOther _ \<Rightarrow> False
   | KStr name \<Rightarrow> (case member_contract k name of None \<Rightarrow> False | Some s \<Rightarrow> accepts child s))"

definition children_ok :: "pyval \<Rightarrow> schema kws \<Rightarrow> bool" where
  "children_ok v k = (case v of
     PDict kvs \<Rightarrow> (\<forall>name \<in> set (opt_list (kw_required k)). KStr name \<in> set (keys_of kvs)) \<and>
       (\<forall>kv \<in> set kvs. member_ok k kv)
   | PList xs \<Rightarrow> (\<forall>x \<in> set xs. accepts x (item_contract k))
   | _ \<Rightarrow> True)"

definition branches_ok :: "pyval \<Rightarrow> schema kws \<Rightarrow> bool" where
  "branches_ok v k \<longleftrightarrow>
     (\<forall>b \<in> set (opt_list (kw_all k)). accepts v b) \<and>
     (opt_list (kw_any k) \<noteq> [] \<longrightarrow> (\<exists>b \<in> set (opt_list (kw_any k)). accepts v b)) \<and>
     (opt_list (kw_one k) \<noteq> [] \<longrightarrow> length (filter (accepts v) (opt_list (kw_one k))) = 1)"

definition types_ok :: "pyval \<Rightarrow> schema kws \<Rightarrow> bool" where
  "types_ok v k \<longleftrightarrow>
     (\<exists>t. json_type v = Some t \<and> type_allowed t (normalized_schema_types (SObj k)))"

definition literals_ok :: "pyval \<Rightarrow> schema kws \<Rightarrow> bool" where
  "literals_ok v k \<longleftrightarrow>
     (\<forall>c. kw_const k = Some c \<longrightarrow> json_values_equal v c) \<and>
     (\<forall>cs. kw_enum k = Some cs \<longrightarrow> json_value_in v cs)"

lemma first_some_member: "first_some (member_failure False k) kvs = None \<longleftrightarrow> (\<forall>kv \<in> set kvs. member_ok k kv)"
  by (auto simp: first_some_None_iff member_failure_def member_ok_def accepts_def
      split: pykey.splits option.splits)

lemma children_failure_None: "children_failure False v k = None \<longleftrightarrow> children_ok v k"
proof (cases v)
  case (PDict kvs)
  show ?thesis
    unfolding PDict children_failure_def children_ok_def pyval.case or_else_None_iff first_some_member
    by (simp add: first_some_None_iff)
next
  case (PList xs)
  show ?thesis
    by (simp add: PList children_failure_def children_ok_def first_some_None_iff accepts_def
        case_prod_unfold set_enumerate_snd[of 0 xs, symmetric] del: set_enumerate_snd)
qed (simp_all add: children_failure_def children_ok_def)

lemma accepts_False [simp]: "\<not> accepts v SFalse"
  by (simp add: accepts_def)

lemma accepts_any: "accepts v any_schema \<longleftrightarrow> \<not> non_json v \<and> children_ok v no_kws"
  by (simp add: accepts_def compiled_at_any children_failure_None)

lemma accepts_SObj:
  "accepts v (SObj k) \<longleftrightarrow>
     \<not> non_json v \<and> branches_ok v k \<and> types_ok v k \<and> literals_ok v k \<and> children_ok v k"
proof (cases "k = no_kws")
  case True
  have "normalized_schema_types any_schema = json_types" by (simp add: declared_types_def)
  then show ?thesis
    unfolding True accepts_any
    by (auto simp: branches_ok_def types_ok_def literals_ok_def type_allowed_any non_json_def)
next
  case False
  have br: "first_some (compiled_at False v) xs = None \<longleftrightarrow> (\<forall>b \<in> set xs. accepts v b)" for xs
    by (simp add: first_some_None_iff accepts_def)
  show ?thesis
    unfolding accepts_def[of v "SObj k"] compiled_at_SObj[OF False]
    by (auto simp: br children_failure_None accepts_def[symmetric] branches_ok_def types_ok_def
        literals_ok_def list_ex_iff non_json_def split: option.splits)
qed

lemma accepts_oneD: "accepts v (SObj k) \<Longrightarrow> opt_list (kw_one k) \<noteq> [] \<Longrightarrow> \<exists>b \<in> set (opt_list (kw_one k)). accepts v b"
  unfolding accepts_SObj branches_ok_def by (metis filter_False length_0_conv zero_neq_one)

lemma level_branches:
  assumes "level_ok k"
  shows "kw_any k \<noteq> None \<longleftrightarrow> opt_list (kw_any k) \<noteq> []" "kw_one k \<noteq> None \<longleftrightarrow> opt_list (kw_one k) \<noteq> []"
    "kw_all k \<noteq> None \<longleftrightarrow> opt_list (kw_all k) \<noteq> []"
proof -
  have "kw_any k \<noteq> Some []" "kw_one k \<noteq> Some []" "kw_all k \<noteq> Some []"
    using assms by (simp_all add: level_ok_def)
  moreover have "x \<noteq> Some [] \<Longrightarrow> x \<noteq> None \<longleftrightarrow> opt_list x \<noteq> []" for x :: "'a list option"
    by (cases x) auto
  ultimately show "kw_any k \<noteq> None \<longleftrightarrow> opt_list (kw_any k) \<noteq> []" "kw_one k \<noteq> None \<longleftrightarrow> opt_list (kw_one k) \<noteq> []"
    "kw_all k \<noteq> None \<longleftrightarrow> opt_list (kw_all k) \<noteq> []"
    by (metis opt_list_simps option.exhaust)+
qed

lemma accepts_anyD: "accepts v (SObj k) \<Longrightarrow> opt_list (kw_any k) \<noteq> [] \<Longrightarrow> \<exists>b \<in> set (opt_list (kw_any k)). accepts v b"
  by (simp add: accepts_SObj branches_ok_def)

lemma accepts_allD: "accepts v (SObj k) \<Longrightarrow> b \<in> set (opt_list (kw_all k)) \<Longrightarrow> accepts v b"
  by (simp add: accepts_SObj branches_ok_def)

lemma accepts_literalD:
  "accepts v (SObj k) \<Longrightarrow> kw_const k = Some c \<Longrightarrow> json_values_equal v c"
  "accepts v (SObj k) \<Longrightarrow> kw_enum k = Some cs \<Longrightarrow> \<exists>c \<in> set cs. json_values_equal v c"
  by (simp_all add: accepts_SObj literals_ok_def json_value_in_def list_ex_iff)

lemma accepts_memberD:
  assumes "accepts (PDict kvs) (SObj k)" "(key, c) \<in> set kvs"
  obtains n t where "key = KStr n" "member_contract k n = Some t" "accepts c t"
proof -
  have "\<forall>kv \<in> set kvs. member_ok k kv"
    using assms(1) unfolding accepts_SObj by (simp add: children_ok_def)
  with assms(2) have "member_ok k (key, c)" by blast
  then show ?thesis
    using that by (auto simp: member_ok_def split: pykey.splits option.splits)
qed

lemma validate_accepts:
  "contract_ok s \<Longrightarrow> validate_normalized False path v s = Inr () \<longleftrightarrow> accepts v s"
  by (simp add: validate_normalized_compiled reported_Inr_iff accepts_def)

lemma shape_ok_open: "shape_ok (SObj k) \<Longrightarrow> open_contract k = Some s \<Longrightarrow> part_ok s"
  using shape_ok_subs(2)[of k s]
  by (cases "kw_additional k") (auto simp: open_contract_def split: schema.splits)

lemma shape_ok_member: "shape_ok (SObj k) \<Longrightarrow> member_contract k n = Some s \<Longrightarrow> part_ok s"
  using shape_ok_prop[of k n s] shape_ok_open[of k s]
  by (auto simp: member_contract_def split: option.splits)

lemma shape_ok_item: "shape_ok (SObj k) \<Longrightarrow> part_ok (item_contract k)"
  using shape_ok_subs(3)[of k]
  by (auto simp: item_contract_def split: option.splits)

lemma accepts_exact: "accepts v s \<Longrightarrow> s \<noteq> STrue \<Longrightarrow> shape_ok s \<Longrightarrow> exact_json v"
proof (induction v s rule: value_schema_induct)
  case (1 v s)
  then obtain k where k: "s = SObj k" by (cases s) auto
  note ok = "1.prems"(3)[unfolded k] and acc = "1.prems"(1)[unfolded k accepts_SObj]
  show ?case
  proof (cases v)
    case (PList xs)
    have "exact_json x" if "x \<in> set xs" for x
      using "1.IH"(1)[of x "item_contract k"] size_list_item[OF that] that acc shape_ok_item[OF ok]
      by (simp add: PList children_ok_def del: pyval.size)
    then show ?thesis by (simp add: PList list_all_iff)
  next
    case (PDict kvs)
    have "(\<exists>n. key = KStr n) \<and> exact_json c" if kc: "(key, c) \<in> set kvs" for key c
    proof -
      from "1.prems"(1) kc obtain n t where "key = KStr n" "member_contract k n = Some t" "accepts c t"
        unfolding k PDict by (rule accepts_memberD)
      then show ?thesis
        using "1.IH"(1)[of c t] size_dict_item[OF kc] shape_ok_member[OF ok, of n t]
        by (simp add: PDict del: pyval.size)
    qed
    then show ?thesis by (auto simp: PDict list_all_iff)
  qed (use acc in \<open>auto\<close>)
qed

subsubsection \<open>Literal equality does not distinguish acceptance\<close>

lemma json_equal_json_type: "json_values_equal v w \<Longrightarrow> json_type v = json_type w"
  by (cases v; cases w) auto

lemma json_equal_non_json: "json_values_equal v w \<Longrightarrow> non_json v = non_json w"
  by (cases v; cases w) (auto dest: float_eq_finite)

lemma json_equal_left:
  "json_values_equal v w \<Longrightarrow> wf_val v \<Longrightarrow> wf_val w \<Longrightarrow> json_values_equal v c = json_values_equal w c"
  using json_equal_trans json_equal_sym by blast

lemma json_equal_in:
  "json_values_equal v w \<Longrightarrow> wf_val v \<Longrightarrow> wf_val w \<Longrightarrow> json_value_in v cs = json_value_in w cs"
  unfolding json_value_in_def list_ex_iff using json_equal_left by blast

lemma accepts_STrue: "accepts v STrue = accepts v any_schema"
  by (simp add: accepts_def compiled_any compile_validation_plan.simps(1))

lemma children_equal:
  assumes eq: "json_values_equal v w" and wf: "wf_val v" "wf_val w"
    and IH: "\<And>c s d. size c < size v \<Longrightarrow> json_values_equal c d \<Longrightarrow> wf_val c \<Longrightarrow> wf_val d \<Longrightarrow> accepts c s = accepts d s"
  shows "children_ok v k = children_ok w k"
proof (cases v)
  case (PList xs)
  with eq obtain ys where w: "w = PList ys" by (cases w) auto
  have "accepts (xs ! i) (item_contract k) = accepts (ys ! i) (item_contract k)" if "i < length xs" for i
    using IH[of "xs ! i" "ys ! i"] size_list_item[of "xs ! i" xs] that eq wf
    by (simp add: PList w list_all_length del: pyval.size)
  moreover have "length xs = length ys" using eq by (simp add: PList w)
  ultimately show ?thesis
    by (simp add: PList w children_ok_def all_set_conv_all_nth)
next
  case (PDict a)
  with eq obtain b where w: "w = PDict b" by (cases w) auto
  have keys: "set (keys_of a) = set (keys_of b)" using eq by (simp add: PDict w)
  have mem: "member_ok k (key, c) = member_ok k (key, d)"
    if c: "(key, c) \<in> set a" and d: "(key, d) \<in> set b" for key c d
  proof -
    have "map_of a key = Some c" "map_of b key = Some d"
      using c d wf by (simp_all add: PDict w)
    with json_equal_dictD[of a b key c] eq have "json_values_equal c d" by (simp add: PDict w)
    then have "accepts c s = accepts d s" for s
      using IH[of c d s] size_dict_item[OF c] wf c d by (simp add: PDict w wf_val_item[OF _ c] wf_val_item[OF _ d] del: pyval.size wf_val.simps)
    then show ?thesis by (auto simp: member_ok_def split: pykey.splits option.splits)
  qed
  have "(\<forall>kv \<in> set a. member_ok k kv) = (\<forall>kv \<in> set b. member_ok k kv)"
    using mem keys by (smt (verit, ccfv_threshold) imageE image_eqI list.set_map prod.collapse)
  with keys show ?thesis by (simp add: PDict w children_ok_def)
qed (use eq in \<open>cases w; auto simp: children_ok_def\<close>)+

lemma accepts_equal_imp:
  "json_values_equal v w \<Longrightarrow> wf_val v \<Longrightarrow> wf_val w \<Longrightarrow> accepts v s = accepts w s"
proof (induction v s arbitrary: w rule: value_schema_induct)
  case (1 v s)
  show ?case
  proof (cases s)
    case (SObj k)
    have br: "accepts v b = accepts w b" if "b \<in> set_kws k" for b
      using "1.IH"(2)[of b w] "1.prems" size_kws_mem[OF that] by (simp add: SObj del: schema.size)
    have "branches_ok v k = branches_ok w k"
    proof -
      have "filter (accepts v) (opt_list (kw_one k)) = filter (accepts w) (opt_list (kw_one k))"
        by (rule filter_cong[OF refl]) (rule br[OF kws_opt_members(3)])
      then show ?thesis using br[OF kws_opt_members(2)] br[OF kws_opt_members(4)] by (simp add: branches_ok_def)
    qed
    moreover have "types_ok v k = types_ok w k"
      using json_equal_json_type[OF "1.prems"(1)] by (simp add: types_ok_def)
    moreover have "literals_ok v k = literals_ok w k"
      using json_equal_left[OF "1.prems"] json_equal_in[OF "1.prems"] by (simp add: literals_ok_def)
    moreover have "children_ok v k = children_ok w k"
      by (rule children_equal[OF "1.prems"]) (rule "1.IH"(1))
    ultimately show ?thesis
      using json_equal_non_json[OF "1.prems"(1)] by (simp add: SObj accepts_SObj)
  next
    case STrue
    have "children_ok v no_kws = children_ok w no_kws"
      by (rule children_equal[OF "1.prems"]) (rule "1.IH"(1))
    then show ?thesis
      using json_equal_non_json[OF "1.prems"(1)] by (simp add: STrue accepts_STrue accepts_any)
  qed simp
qed

subsection \<open>Runtime types derived by topology\<close>

lemma fold_inter_types:
  "set (fold (\<lambda>ts p. inter_types p ts) tss p) = set p \<inter> (\<Inter>ts \<in> set tss. set ts)"
  by (induction tss arbitrary: p) (auto simp: inter_types_def)

text \<open>\<open>"number"\<close> admits integers.\<close>

definition widened_types :: "schema kws \<Rightarrow> jtype set" where
  "widened_types k = (let d = set (normalized_schema_types (SObj k)) in
     if JNumber \<in> d then insert JInteger d else d)"

lemma possible_runtime_types_SObj:
  "t \<in> set (possible_runtime_types (SObj k)) \<longleftrightarrow>
     t \<in> widened_types k \<and>
     (\<forall>c. kw_const k = Some c \<longrightarrow> json_type c = Some t) \<and>
     (\<forall>cs. kw_enum k = Some cs \<longrightarrow> Some t \<in> json_type ` set cs) \<and>
     (\<forall>b \<in> set (opt_list (kw_all k)). t \<in> set (possible_runtime_types b)) \<and>
     (\<forall>bs. kw_any k = Some bs \<longrightarrow> (\<exists>b \<in> set bs. t \<in> set (possible_runtime_types b))) \<and>
     (\<forall>bs. kw_one k = Some bs \<longrightarrow> (\<exists>b \<in> set bs. t \<in> set (possible_runtime_types b)))"
proof -
  define p0 where "p0 = (let declared = normalized_schema_types (SObj k) in
    if JNumber \<in> set declared then JInteger # declared else declared)"
  define p1 where "p1 = (case kw_const k of None \<Rightarrow> p0
    | Some c \<Rightarrow> filter (\<lambda>t. json_type c = Some t) p0)"
  define p2 where "p2 = (case kw_enum k of None \<Rightarrow> p1
    | Some cs \<Rightarrow> filter (\<lambda>t. Some t \<in> set (map json_type cs)) p1)"
  define p3 where "p3 = fold (\<lambda>ts p. inter_types p ts) (map possible_runtime_types (opt_list (kw_all k))) p2"
  define p4 where "p4 = (case kw_any k of None \<Rightarrow> p3
    | Some bs \<Rightarrow> inter_types p3 (concat (map possible_runtime_types bs)))"
  have p: "possible_runtime_types (SObj k) = (case kw_one k of None \<Rightarrow> p4
    | Some bs \<Rightarrow> inter_types p4 (concat (map possible_runtime_types bs)))"
    unfolding p4_def p3_def p2_def p1_def p0_def Let_def possible_runtime_types.simps(3) ..
  have "t \<in> set p0 \<longleftrightarrow> t \<in> widened_types k"
    by (auto simp: p0_def widened_types_def Let_def)
  then have "t \<in> set p1 \<longleftrightarrow> t \<in> widened_types k \<and> (\<forall>c. kw_const k = Some c \<longrightarrow> json_type c = Some t)"
    by (cases "kw_const k") (auto simp: p1_def)
  moreover have "t \<in> set p2 \<longleftrightarrow> t \<in> set p1 \<and> (\<forall>cs. kw_enum k = Some cs \<longrightarrow> Some t \<in> json_type ` set cs)"
    by (cases "kw_enum k") (auto simp: p2_def)
  moreover have "t \<in> set p3 \<longleftrightarrow> t \<in> set p2 \<and> (\<forall>b \<in> set (opt_list (kw_all k)). t \<in> set (possible_runtime_types b))"
    by (simp add: p3_def fold_inter_types)
  moreover have "t \<in> set p4 \<longleftrightarrow> t \<in> set p3 \<and>
      (\<forall>bs. kw_any k = Some bs \<longrightarrow> (\<exists>b \<in> set bs. t \<in> set (possible_runtime_types b)))"
    by (cases "kw_any k") (auto simp: p4_def inter_types_def)
  moreover have "t \<in> set (possible_runtime_types (SObj k)) \<longleftrightarrow> t \<in> set p4 \<and>
      (\<forall>bs. kw_one k = Some bs \<longrightarrow> (\<exists>b \<in> set bs. t \<in> set (possible_runtime_types b)))"
    unfolding p by (cases "kw_one k") (auto simp: inter_types_def)
  ultimately show ?thesis by blast
qed

declare possible_runtime_types.simps(3) [simp del]

lemma accepts_runtime_type:
  "accepts v s \<Longrightarrow> schema_ok s \<Longrightarrow> s \<noteq> STrue \<Longrightarrow> json_type v = Some t \<Longrightarrow> t \<in> set (possible_runtime_types s)"
proof (induction s rule: measure_induct_rule[of size])
  case (less s)
  then obtain k where k: "s = SObj k" by (cases s) auto
  note ok = less.prems(2)[unfolded k] and acc = less.prems(1)[unfolded k]
  note lv = schema_ok_level[OF ok]
  have br: "t \<in> set (possible_runtime_types b)" if "b \<in> set_kws k" "accepts v b" "contract_ok b" for b
    using less.IH[of b] less.prems(4) that size_kws_mem[OF that(1)] by (simp add: k del: schema.size)
  note A = acc[unfolded accepts_SObj]
  have "t \<in> widened_types k"
    using A less.prems(4) by (auto simp: types_ok_def widened_types_def type_allowed_def Let_def)
  moreover have "json_type c = Some t" if "kw_const k = Some c" for c
    using json_equal_json_type[OF accepts_literalD(1)[OF acc that]] less.prems(4) by simp
  moreover have "Some t \<in> json_type ` set cs" if "kw_enum k = Some cs" for cs
    using accepts_literalD(2)[OF acc that] json_equal_json_type[of v] less.prems(4) by force
  moreover have "t \<in> set (possible_runtime_types b)" if "b \<in> set (opt_list (kw_all k))" for b
    using br[OF kws_opt_members(4)[OF that] accepts_allD[OF acc that] schema_ok_subs(6)[OF ok that]] .
  moreover have "\<exists>b \<in> set bs. t \<in> set (possible_runtime_types b)" if "kw_any k = Some bs" for bs
    using accepts_anyD[OF acc] that level_branches[OF lv] br[OF kws_opt_members(2) _ schema_ok_subs(4)[OF ok]]
    by fastforce
  moreover have "\<exists>b \<in> set bs. t \<in> set (possible_runtime_types b)" if "kw_one k = Some bs" for bs
    using accepts_oneD[OF acc] that level_branches[OF lv] br[OF kws_opt_members(3) _ schema_ok_subs(5)[OF ok]]
    by fastforce
  ultimately show ?case unfolding k possible_runtime_types_SObj by blast
qed

subsection \<open>DataKey contracts exclude arrays\<close>

lemma json_equal_no_array:
  "json_values_equal v w \<Longrightarrow> \<not> contains_runtime_array w \<Longrightarrow> \<not> contains_runtime_array v"
proof (induction v w rule: json_values_equal.induct)
  case (1 a b)
  have "\<not> contains_runtime_array x" if kx: "(key, x) \<in> set a" for key x
  proof -
    from "1.prems"(1) kx obtain y where y: "map_of b key = Some y" "json_values_equal x y"
      by (fastforce simp: list_all_iff split: option.splits)
    from y(1) "1.prems"(2) have "\<not> contains_runtime_array y"
      by (auto simp: list_ex_iff dest: map_of_in_set)
    with "1.IH"[OF kx refl y(1)] y(2) show ?thesis by blast
  qed
  then show ?case by (auto simp: list_ex_iff)
qed auto

definition data_key_level :: "schema kws \<Rightarrow> bool" where
  "data_key_level k \<longleftrightarrow> k \<noteq> no_kws \<and>
     JArray \<notin> set (declared_types k) \<and> kw_items k = None \<and>
     (declared_types k = [] \<longrightarrow> kw_any k \<noteq> None \<or> kw_one k \<noteq> None \<or> kw_all k \<noteq> None \<or>
        kw_const k \<noteq> None \<or> kw_enum k \<noteq> None) \<and>
     (\<forall>c. kw_const k = Some c \<longrightarrow> \<not> contains_runtime_array c) \<and>
     (\<forall>c \<in> set (opt_list (kw_enum k)). \<not> contains_runtime_array c)"

lemma contract_error_not [simp]: "contract_error w p r \<noteq> Inr u"
  by (simp add: contract_error_def)

lemma iter_enum_ok: "iter_r (\<lambda>(i, b). f (g i) b) (enumerate n bs) = Inr () \<Longrightarrow> b \<in> set bs \<Longrightarrow> \<exists>p. f p b = Inr ()"
proof -
  assume "iter_r (\<lambda>(i, b). f (g i) b) (enumerate n bs) = Inr ()" "b \<in> set bs"
  moreover from this(2) obtain i where "(i, b) \<in> set (enumerate n bs)"
    using set_enumerate_snd[of n bs] by force
  ultimately show ?thesis by (auto simp: iter_r_Inr_iff)
qed

lemma data_key_schemaD:
  assumes "validate_data_key_schema path (SObj k) = Inr ()"
  shows "data_key_level k"
    and "b \<in> set (opt_list (kw_any k)) \<or> b \<in> set (opt_list (kw_one k)) \<or> b \<in> set (opt_list (kw_all k)) \<Longrightarrow>
      \<exists>p. validate_data_key_schema p b = Inr ()"
    and "JObject \<in> set (declared_types k) \<or> kw_props k \<noteq> None \<Longrightarrow> member_contract k n = Some s \<Longrightarrow>
      \<exists>p. validate_data_key_schema p s = Inr ()"
proof -
  note D = validate_data_key_schema.simps(3)[of path k, unfolded assms, symmetric]
  show "data_key_level k"
    using D by (auto simp: data_key_level_def list_ex_iff bind_r_Inr_iff split: if_splits option.splits)
  show "\<exists>p. validate_data_key_schema p b = Inr ()"
    if "b \<in> set (opt_list (kw_any k)) \<or> b \<in> set (opt_list (kw_one k)) \<or> b \<in> set (opt_list (kw_all k))"
    using D that by (auto simp: bind_r_Inr_iff dest: iter_enum_ok split: if_splits)
  show "\<exists>p. validate_data_key_schema p s = Inr ()"
    if obj: "JObject \<in> set (declared_types k) \<or> kw_props k \<noteq> None" and s: "member_contract k n = Some s"
  proof -
    have add: "kw_additional k \<noteq> None" "kw_additional k \<noteq> Some STrue"
        "\<forall>(n, child) \<in> set (opt_list (kw_props k)). \<exists>p. validate_data_key_schema p child = Inr ()"
        "\<And>ak. kw_additional k = Some (SObj ak) \<Longrightarrow> \<exists>p. validate_data_key_schema p (SObj ak) = Inr ()"
      using D obj by (auto simp: bind_r_Inr_iff iter_r_Inr_iff split: if_splits)
    then show ?thesis
      using s by (auto simp: member_contract_def open_contract_def dest!: map_of_in_set
          split: option.splits schema.splits)
  qed
qed

lemma data_key_no_array:
  "accepts v s \<Longrightarrow> contract_ok s \<Longrightarrow> validate_data_key_schema path s = Inr () \<Longrightarrow> \<not> contains_runtime_array v"
proof (induction v s arbitrary: path rule: value_schema_induct)
  case (1 v s)
  then obtain k where k: "s = SObj k" by (cases s) auto
  note ok = "1.prems"(2)[unfolded k, THEN conjunct2] and acc = "1.prems"(1)[unfolded k]
  note dk = data_key_schemaD[OF "1.prems"(3)[unfolded k]]
  note A = acc[unfolded accepts_SObj] and L = dk(1)[unfolded data_key_level_def]
  have branch: "\<not> contains_runtime_array v" if "b \<in> set_kws k" "accepts v b"
    "b \<in> set (opt_list (kw_any k)) \<or> b \<in> set (opt_list (kw_one k)) \<or> b \<in> set (opt_list (kw_all k))" for b
    using "1.IH"(2)[of b] that dk(2)[OF that(3)] size_kws_mem[OF that(1)] schema_ok_subs(4,5,6)[OF ok, of b]
    by (auto simp: k simp del: schema.size)
  have lit: "\<not> contains_runtime_array v" if "kw_const k \<noteq> None \<or> kw_enum k \<noteq> None"
  proof -
    from that consider c where "kw_const k = Some c" | cs where "kw_enum k = Some cs" by blast
    then show ?thesis
    proof cases
      case 1
      then show ?thesis using json_equal_no_array[OF accepts_literalD(1)[OF acc]] L by blast
    next
      case 2
      with accepts_literalD(2)[OF acc 2] L show ?thesis using json_equal_no_array by auto
    qed
  qed
  show ?case
  proof (cases "declared_types k = []")
    case True
    then consider "kw_const k \<noteq> None \<or> kw_enum k \<noteq> None" | "kw_any k \<noteq> None" | "kw_one k \<noteq> None" | "kw_all k \<noteq> None"
      using L by blast
    then show ?thesis
    proof cases
      case 2
      then have "opt_list (kw_any k) \<noteq> []" using level_branches[OF schema_ok_level[OF ok]] by blast
      then show ?thesis using accepts_anyD[OF acc] branch[OF kws_opt_members(2)] by blast
    next
      case 3
      then have "opt_list (kw_one k) \<noteq> []" using level_branches[OF schema_ok_level[OF ok]] by blast
      then show ?thesis using accepts_oneD[OF acc] branch[OF kws_opt_members(3)] by blast
    next
      case 4
      then have "opt_list (kw_all k) \<noteq> []" using level_branches[OF schema_ok_level[OF ok]] by blast
      then obtain b where "b \<in> set (opt_list (kw_all k))" by (meson list.set_sel(1))
      then show ?thesis using accepts_allD[OF acc] branch[OF kws_opt_members(4)] by blast
    qed (rule lit)
  next
    case False
    show ?thesis
    proof (cases v)
      case (PList xs)
      with A L False show ?thesis by (auto simp: types_ok_def type_allowed_def)
    next
      case (PDict kvs)
      with A False have obj: "JObject \<in> set (declared_types k)" by (auto simp: types_ok_def type_allowed_def)
      have "\<not> contains_runtime_array c" if kc: "(key, c) \<in> set kvs" for key c
      proof -
        from acc kc obtain n t where t: "member_contract k n = Some t" "accepts c t"
          unfolding PDict by (rule accepts_memberD)
        from dk(3)[OF _ t(1)] obj obtain p where "validate_data_key_schema p t = Inr ()" by blast
        with "1.IH"(1)[of c t p] t(2) size_dict_item[OF kc] schema_ok_member[OF ok t(1)] show ?thesis
          by (simp add: PDict del: pyval.size)
      qed
      then show ?thesis by (auto simp: PDict list_ex_iff)
    qed simp_all
  qed
qed

subsection \<open>Inferred contracts\<close>

text \<open>The contract \<open>infer_schema\<close> describes, as a schema: every object is closed and requires
  exactly its own members.\<close>

definition typed :: "jtype \<Rightarrow> schema" where
  "typed t = SObj (Kws (Some [t]) None None None None None None None None None [])"

fun inferred :: "pyval \<Rightarrow> schema" where
  "inferred (PDict kvs) = SObj (Kws (Some [JObject]) (Some (map (\<lambda>(k, v). (key_text k, inferred v)) kvs))
     (Some (map (\<lambda>(k, v). key_text k) kvs)) (Some SFalse) None None None None None None [])"
| "inferred v = (case json_type v of None \<Rightarrow> SFalse | Some t \<Rightarrow> typed t)"

lemma typed_to_py: "schema_to_py (typed t) = PDict [(KStr ''type'', PStr (jtype_name t))]"
  by (simp add: typed_def schema_to_py.simps opt_entry_def type_to_py_def)

lemma typed_ok [simp]: "schema_ok (typed t)"
  by (simp add: typed_def schema_ok.simps level_ok_def)

lemma typed_neq [simp]: "typed t \<noteq> STrue"
  by (simp add: typed_def)

lemma typed_accepts:
  "json_type v = Some t \<Longrightarrow> \<not> non_json v \<Longrightarrow> t \<noteq> JObject \<Longrightarrow> t \<noteq> JArray \<Longrightarrow> accepts v (typed t)"
  by (cases v) (simp_all add: typed_def accepts_SObj branches_ok_def types_ok_def literals_ok_def
      declared_types_def type_allowed_def children_ok_def)

lemma typed_data_key: "t \<noteq> JObject \<Longrightarrow> t \<noteq> JArray \<Longrightarrow> validate_data_key_schema path (typed t) = Inr ()"
  unfolding typed_def by (subst validate_data_key_schema.simps) (simp add: no_kws_def declared_types_def)

lemma string_keys_distinct:
  "distinct (keys_of kvs) \<Longrightarrow> (\<And>k v. (k, v) \<in> set kvs \<Longrightarrow> \<exists>n. k = KStr n) \<Longrightarrow>
   distinct (map (\<lambda>(k, v). key_text k) kvs)"
proof (induction kvs)
  case (Cons kv kvs)
  obtain k v where kv: "kv = (k, v)" by force
  from Cons.prems(2)[of k v] obtain n where n: "k = KStr n" by (auto simp: kv)
  have "n \<noteq> key_text k'" if "(k', v') \<in> set kvs" for k' v'
    using Cons.prems(1) Cons.prems(2)[of k' v'] that by (auto simp: kv n image_iff)
  moreover have "distinct (map (\<lambda>(k, v). key_text k) kvs)"
    by (rule Cons.IH) (use Cons.prems in auto)
  ultimately show ?case by (auto simp: kv n)
qed simp

lemma infer_schema_inferred:
  "infer_schema v = Inr r \<Longrightarrow> wf_val v \<Longrightarrow> exact_json v \<Longrightarrow> r = schema_to_py (inferred v)"
proof (induction v arbitrary: r rule: infer_schema.induct)
  case (2 kvs)
  let ?names = "map (\<lambda>(k, v). key_text k) kvs"
  have d: "distinct ?names"
    using "2.prems" by (intro string_keys_distinct) (auto simp: list_all_iff)
  from "2.prems"(1) obtain ps where m: "map_r (\<lambda>(n, child). bind_r (infer_schema child) (\<lambda>s. Inr (key_text n, s))) kvs = Inr ps"
    by (auto simp: bind_r_Inr_iff)
  have each: "infer_schema v = Inr t \<Longrightarrow> t = schema_to_py (inferred v)" if "(key, v) \<in> set kvs" for key v t
    using "2.IH"[OF that refl] "2.prems"(2,3) that by (auto simp: list_all_iff)
  from m each have ps: "ps = map (\<lambda>(k, v). (key_text k, schema_to_py (inferred v))) kvs"
  proof (induction kvs arbitrary: ps)
    case (Cons kv kvs)
    obtain key v where kv: "kv = (key, v)" by force
    from Cons.prems(1) obtain t ps' where t: "infer_schema v = Inr t" "ps = (key_text key, t) # ps'"
        and ps': "map_r (\<lambda>(n, child). bind_r (infer_schema child) (\<lambda>s. Inr (key_text n, s))) kvs = Inr ps'"
      by (auto simp: kv bind_r_Inr_iff)
    have "ps' = map (\<lambda>(k, v). (key_text k, schema_to_py (inferred v))) kvs"
      using Cons.IH[OF ps'] Cons.prems(2) by auto
    with t Cons.prems(2)[of key v t] show ?case by (simp add: kv)
  qed simp
  have keys: "keys_of ps = ?names" by (simp add: ps case_prod_unfold comp_def)
  with d have "dict_of ps = ps" by simp
  with "2.prems"(1) m have "r = PDict [(KStr ''type'', PStr ''object''),
         (KStr ''properties'', PDict (map (\<lambda>(n, s). (KStr n, s)) ps)),
         (KStr ''required'', PList (map PStr (keys_of ps))),
         (KStr ''additionalProperties'', PBool False)]"
    by simp
  then show ?case
    by (simp add: ps schema_to_py.simps opt_entry_def type_to_py_def case_prod_unfold comp_def)
qed (simp_all add: typed_to_py)

lemma inferred_ok:
  "wf_val v \<Longrightarrow> exact_json v \<Longrightarrow> infer_schema v = Inr r \<Longrightarrow>
   contract_ok (inferred v) \<and> accepts v (inferred v) \<and> validate_data_key_schema path (inferred v) = Inr ()"
proof (induction v arbitrary: r path rule: infer_schema.induct)
  case (2 kvs)
  let ?k = "Kws (Some [JObject]) (Some (map (\<lambda>(k, v). (key_text k, inferred v)) kvs))
     (Some (map (\<lambda>(k, v). key_text k) kvs)) (Some SFalse) None None None None None None []"
  have d: "distinct (map (\<lambda>(k, v). key_text k) kvs)"
    using "2.prems" by (intro string_keys_distinct) (auto simp: list_all_iff)
  have d': "distinct (keys_of (map (\<lambda>(k, v). (key_text k, inferred v)) kvs))"
    using d by (simp add: case_prod_unfold comp_def)
  have child: "contract_ok (inferred c) \<and> accepts c (inferred c) \<and>
      validate_data_key_schema p (inferred c) = Inr () \<and> (\<exists>n. key = KStr n)"
    if kc: "(key, c) \<in> set kvs" for key c p
  proof -
    from "2.prems"(3) obtain ps where "list_all2 (\<lambda>x y. (case x of (n, child) \<Rightarrow>
        bind_r (infer_schema child) (\<lambda>s. Inr (key_text n, s))) = Inr y) kvs ps"
      by (auto simp: bind_r_Inr_iff map_r_Inr_iff)
    with kc obtain t where "infer_schema c = Inr t"
      by (fastforce simp: list_all2_conv_all_nth in_set_conv_nth bind_r_Inr_iff)
    with "2.IH"[OF kc refl, of t p] "2.prems"(1,2) kc show ?thesis by (auto simp: list_all_iff)
  qed
  have ok: "contract_ok (SObj ?k)"
    using child d d' by (auto simp: schema_ok.simps level_ok_def list_all_iff)
  have mem: "member_ok ?k (key, c)" if kc: "(key, c) \<in> set kvs" for key c
  proof -
    from child[OF kc] obtain n where n: "key = KStr n" by blast
    have "map_of (map (\<lambda>(k, v). (key_text k, inferred v)) kvs) n = Some (inferred c)"
      by (rule map_of_is_SomeI[OF d']) (use kc n in force)
    with child[OF kc] n show ?thesis by (simp add: member_ok_def member_contract_def)
  qed
  have "KStr (key_text key) \<in> set (keys_of kvs)" if kc: "(key, c) \<in> set kvs" for key c
    using child[OF kc] kc by force
  with mem have "children_ok (PDict kvs) ?k" by (auto simp: children_ok_def)
  then have "accepts (PDict kvs) (SObj ?k)"
    by (simp add: accepts_SObj branches_ok_def types_ok_def literals_ok_def declared_types_def type_allowed_def)
  moreover have "validate_data_key_schema path (SObj ?k) = Inr ()"
  proof -
    have "validate_data_key_schema p (inferred c) = Inr ()" if "(key, c) \<in> set kvs" for p key c
      using child that by blast
    then have "iter_r (\<lambda>(n, child). validate_data_key_schema (path @ ''.'' @ n) child) (opt_list (kw_props ?k)) = Inr ()"
      by (auto simp: iter_r_Inr_iff)
    then show ?thesis
      by (subst validate_data_key_schema.simps) (simp add: no_kws_def declared_types_def)
  qed
  ultimately show ?case using ok by simp
qed (simp_all add: typed_accepts typed_data_key)

subsection \<open>Properties\<close>

text \<open>\<^bold>\<open>C2\<close>. The compiled validator and the reference validator agree on every value, every
  contract that normalization produced and every root path: they accept the same values,
  and when they reject, they raise the same exception with the same text. Values declared
  trusted must be exact JSON, which is what the flag asserts.\<close>

theorem compiled_validator_equals_reference:
  assumes "wf_val raw" and "normalize_schema raw = Inr s" and "trusted \<longrightarrow> exact_json v"
  shows "validate_normalized trusted path v s =
    (case compiled_validation_failure v (compile_validation_plan trusted s) of
       None \<Rightarrow> Inr ()
     | Some failure \<Rightarrow> Inl (raise_compiled_validation_failure failure path))"
  using validate_normalized_compiled[OF normalize_schema_ok[OF assms(1,2)] assms(3)]
  by (simp add: reported_def)

theorem compiled_validator_equals_reference_witness:
  "validate_normalized False ''value'' (PDict [(KStr ''a'', PInt 1)])
     (SObj (Kws None (Some [(''a'', typed JString)]) None None None None None None None None [])) =
   Inl (ValueError (''DataKey '' @ quoted ''value.a'' @ '' is integer, expected string.''))"
proof -
  let ?raw = "PDict [(KStr ''properties'', PDict [(KStr ''a'', PDict [(KStr ''type'', PStr ''string'')])])]"
  let ?s = "SObj (Kws None (Some [(''a'', typed JString)]) None None None None None None None None [])"
  have n: "normalize_schema ?raw = Inr ?s" by code_simp
  have f: "compiled_validation_failure (PDict [(KStr ''a'', PInt 1)]) (compile_validation_plan False ?s) =
      Some ([PName ''a''], TypeMismatch JInteger ''string'')"
    by code_simp
  have "wf_val ?raw" by simp
  from compiled_validator_equals_reference[OF this n, of False "PDict [(KStr ''a'', PInt 1)]" "''value''"]
  show ?thesis unfolding f by (simp add: raise_compiled_validation_failure_def failure_message.simps)
qed

text \<open>\<^bold>\<open>C33\<close>. Whatever the contract, a value that passes runtime validation is exact JSON at every
  depth: built-in containers, finite numbers and string keys.\<close>

theorem validated_values_are_exact_json:
  assumes "wf_val raw" and "validate_json_value False path v (Some raw) = Inr ()"
  shows "exact_json v"
proof -
  from assms(2) obtain s where s: "normalize_schema raw = Inr s" "validate_normalized False path v s = Inr ()"
    by (auto simp: validate_json_value_def bind_r_Inr_iff)
  note ok = normalize_schema_ok[OF assms(1) s(1)]
  with s(2) show ?thesis using accepts_exact[of v s] schema_ok_shape by (simp add: validate_accepts)
qed

theorem validated_values_are_exact_json_witness:
  "exact_json (PDict [(KStr ''a'', PList [PInt 1, PNone])])"
proof -
  have v: "validate_json_value False ''v'' (PDict [(KStr ''a'', PList [PInt 1, PNone])]) (Some (PDict [])) = Inr ()"
    by code_simp
  show ?thesis by (rule validated_values_are_exact_json[OF _ v]) simp
qed

text \<open>Validation respects literal equality: values the Engine regards as the same JSON
  literal (object members in any order, both zeros) are accepted by the same contracts.\<close>

theorem validation_respects_literal_equality:
  assumes "wf_val raw" and "wf_val v" and "wf_val w" and "json_values_equal v w"
  shows "validate_json_value False path v (Some raw) = Inr () \<longleftrightarrow>
         validate_json_value False path w (Some raw) = Inr ()"
proof (cases "normalize_schema raw")
  case (Inr s)
  show ?thesis
    using validate_accepts[OF normalize_schema_ok[OF assms(1) Inr]] accepts_equal_imp[OF assms(4,2,3)]
    by (simp add: validate_json_value_def Inr)
qed (simp add: validate_json_value_def)

theorem validation_respects_literal_equality_witness:
  "validate_json_value False ''v'' (PDict [(KStr ''a'', PNone), (KStr ''b'', PInt 1)])
       (Some (PDict [(KStr ''required'', PList [PStr ''b''])])) = Inr () \<longleftrightarrow>
   validate_json_value False ''v'' (PDict [(KStr ''b'', PInt 1), (KStr ''a'', PNone)])
       (Some (PDict [(KStr ''required'', PList [PStr ''b''])])) = Inr ()"
  by (rule validation_respects_literal_equality) (simp_all add: json_values_equal.simps insert_commute)

text \<open>The runtime types that topology derives from a contract are sound: an accepted
  value has one of them, whatever composition and literal clauses the contract has.\<close>

theorem possible_runtime_types_sound:
  assumes "wf_val raw" and "normalize_schema raw = Inr s"
    and "validate_normalized False path v s = Inr ()"
  shows "\<exists>t. json_type v = Some t \<and> t \<in> set (possible_runtime_types s)"
proof -
  note ok = normalize_schema_ok[OF assms(1,2)]
  with assms(3) have acc: "accepts v s" by (simp add: validate_accepts)
  then obtain t where "json_type v = Some t" using ok by (cases s) (auto simp: accepts_SObj types_ok_def)
  with accepts_runtime_type[OF acc] ok show ?thesis by blast
qed

theorem possible_runtime_types_sound_witness:
  "\<exists>t. json_type (PInt 3) = Some t \<and> t \<in> set (possible_runtime_types (typed JNumber))"
proof -
  have n: "normalize_schema (PDict [(KStr ''type'', PStr ''number'')]) = Inr (typed JNumber)" by code_simp
  have v: "validate_normalized False ''v'' (PInt 3) (typed JNumber) = Inr ()" by code_simp
  show ?thesis by (rule possible_runtime_types_sound[OF _ n v]) simp
qed

text \<open>DataKey contracts exclude arrays: a value accepted by a contract that
  \<open>normalize_data_key_schema\<close> lets through contains no array at any depth, although the
  contract language allows composition, literals and open typed maps.\<close>

theorem data_key_contracts_exclude_arrays:
  assumes "wf_val raw" and "normalize_data_key_schema_uncached path raw = Inr s"
    and "validate_normalized False root v s = Inr ()"
  shows "\<not> contains_runtime_array v"
proof -
  from assms(2) have n: "normalize_schema raw = Inr s" "validate_data_key_schema path s = Inr ()"
    by (auto simp: normalize_data_key_schema_uncached_def bind_r_Inr_iff)
  note ok = normalize_schema_ok[OF assms(1) n(1)]
  with assms(3) n(2) data_key_no_array show ?thesis by (auto simp: validate_accepts)
qed

theorem data_key_contracts_exclude_arrays_witness:
  "\<not> contains_runtime_array (PDict [(KStr ''a'', PInt 1)])"
proof -
  let ?raw = "PDict [(KStr ''type'', PStr ''object''),
    (KStr ''additionalProperties'', PDict [(KStr ''type'', PStr ''integer'')])]"
  let ?s = "SObj (Kws (Some [JObject]) None None (Some (typed JInteger)) None None None None None None [])"
  have n: "normalize_data_key_schema_uncached ''p'' ?raw = Inr ?s" by code_simp
  have v: "validate_normalized False ''v'' (PDict [(KStr ''a'', PInt 1)]) ?s = Inr ()" by code_simp
  show ?thesis by (rule data_key_contracts_exclude_arrays[OF _ n v]) simp
qed

text \<open>\<^bold>\<open>C32\<close>. An inferred contract describes its value: what \<open>infer_schema\<close> returns for an exact
  JSON value is a legal DataKey contract and accepts that value.\<close>

theorem infer_schema_describes_value:
  assumes "wf_val v" and "exact_json v" and "infer_schema v = Inr raw"
  shows "\<exists>s. normalize_data_key_schema_uncached path raw = Inr s \<and>
    validate_normalized False root v s = Inr ()"
  using infer_schema_inferred[OF assms(3,1,2)] inferred_ok[OF assms]
  by (auto simp: normalize_data_key_schema_uncached_def normalize_schema_to_py validate_accepts)

theorem infer_schema_describes_value_witness:
  "\<exists>raw s. infer_schema (PDict [(KStr ''a'', PInt 1)]) = Inr raw \<and>
     normalize_data_key_schema_uncached ''p'' raw = Inr s \<and>
     validate_normalized False ''r'' (PDict [(KStr ''a'', PInt 1)]) s = Inr ()"
proof -
  let ?v = "PDict [(KStr ''a'', PInt 1)]"
  obtain raw where r: "infer_schema ?v = Inr raw" by simp
  have "wf_val ?v" "exact_json ?v" by simp_all
  from infer_schema_describes_value[OF this r, of "''p''" "''r''"] r show ?thesis by blast
qed

end
