(* ===== verification/Data_Compatibility.thy ===== *)
theory Data_Compatibility
  imports Data_Validation
begin

section \<open>Conservative compatibility proofs\<close>

text \<open>
  Models \<open>engine/contracts/data_compatibility.py\<close>: given the contract of a producer and of a
  consumer, prove that every produced value is accepted. The code recurses over contracts
  and over \<^emph>\<open>contexts\<close>, a conjunction of composition-free atoms and symbolic unions. A
  Python exception that escapes is a result \<open>Inl\<close>; all functions terminate, by the size of
  the consumer's contract and the weight of the unions that are still symbolic.
\<close>

subsection \<open>Boolean results\<close>

definition not_r :: "bool res \<Rightarrow> bool res" where
  "not_r r = bind_r r (\<lambda>b. Inr (\<not> b))"

definition and_r :: "bool res \<Rightarrow> bool res \<Rightarrow> bool res" where
  "and_r a b = bind_r a (\<lambda>x. if x then b else Inr False)"

definition or_r :: "bool res \<Rightarrow> bool res \<Rightarrow> bool res" where
  "or_r a b = bind_r a (\<lambda>x. if x then Inr True else b)"

lemma and_r_cong [fundef_cong]: "a = a' \<Longrightarrow> (a' = Inr True \<Longrightarrow> b = b') \<Longrightarrow> and_r a b = and_r a' b'"
  by (cases a') (auto simp: and_r_def)

lemma or_r_cong [fundef_cong]: "a = a' \<Longrightarrow> (a' = Inr False \<Longrightarrow> b = b') \<Longrightarrow> or_r a b = or_r a' b'"
  by (cases a') (auto simp: or_r_def)

lemma not_r_True: "not_r a = Inr True \<longleftrightarrow> a = Inr False"
  by (cases a) (auto simp: not_r_def)

lemma and_r_True: "and_r a b = Inr True \<longleftrightarrow> a = Inr True \<and> b = Inr True"
  by (cases a) (auto simp: and_r_def)

lemma or_r_True: "or_r a b = Inr True \<longleftrightarrow> a = Inr True \<or> a = Inr False \<and> b = Inr True"
  by (cases a) (auto simp: or_r_def)

lemmas bool_r_True = not_r_True and_r_True or_r_True

subsection \<open>Parts of a contract\<close>

text \<open>\<open>schema.get("additionalProperties", True)\<close> and
  \<open>properties.get(name, additional)\<close>\<close>

definition additional_contract :: "schema kws \<Rightarrow> schema" where
  "additional_contract k = (case kw_additional k of None \<Rightarrow> STrue | Some s \<Rightarrow> s)"

definition property_contract :: "schema kws \<Rightarrow> string \<Rightarrow> schema" where
  "property_contract k name =
     (case map_of (opt_list (kw_props k)) name of Some s \<Rightarrow> s | None \<Rightarrow> additional_contract k)"

definition union_branches :: "schema kws \<Rightarrow> schema list option" where
  "union_branches k = (case kw_any k of Some bs \<Rightarrow> Some bs | None \<Rightarrow> kw_one k)"

definition schema_base :: "schema kws \<Rightarrow> schema kws" where
  "schema_base k = Kws (kw_type k) (kw_props k) (kw_required k) (kw_additional k) (kw_items k)
     (kw_enum k) (kw_const k) None None None (kw_annot k)"

text \<open>\<open>{**branch_base, "type": value}\<close>\<close>

definition with_type :: "jtype \<Rightarrow> schema kws \<Rightarrow> schema kws" where
  "with_type t k = Kws (Some [t]) (kw_props k) (kw_required k) (kw_additional k) (kw_items k)
     (kw_enum k) (kw_const k) (kw_any k) (kw_one k) (kw_all k) (kw_annot k)"

lemma kws_sel_base [simp]:
  "kw_type (schema_base k) = kw_type k" "kw_props (schema_base k) = kw_props k"
  "kw_required (schema_base k) = kw_required k" "kw_additional (schema_base k) = kw_additional k"
  "kw_items (schema_base k) = kw_items k" "kw_enum (schema_base k) = kw_enum k"
  "kw_const (schema_base k) = kw_const k" "kw_any (schema_base k) = None"
  "kw_one (schema_base k) = None" "kw_all (schema_base k) = None" "kw_annot (schema_base k) = kw_annot k"
  by (simp_all add: schema_base_def)

lemma kws_sel_with_type [simp]:
  "kw_type (with_type t k) = Some [t]" "kw_props (with_type t k) = kw_props k"
  "kw_required (with_type t k) = kw_required k" "kw_additional (with_type t k) = kw_additional k"
  "kw_items (with_type t k) = kw_items k" "kw_enum (with_type t k) = kw_enum k"
  "kw_const (with_type t k) = kw_const k" "kw_any (with_type t k) = kw_any k"
  "kw_one (with_type t k) = kw_one k" "kw_all (with_type t k) = kw_all k"
  "kw_annot (with_type t k) = kw_annot k"
  by (simp_all add: with_type_def)

lemma size_additional_contract [size_laws]: "size (additional_contract k) < size (SObj k)"
  using size_kws_mem[OF kws_members(2), of k] by (auto simp: additional_contract_def split: option.splits)

lemma size_property_contract [size_laws]: "size (property_contract k name) < size (SObj k)"
  using size_additional_contract[of k] size_kws_mem[OF kws_opt_members(1), of name _ k]
  by (auto simp: property_contract_def dest!: map_of_in_set split: option.splits)

lemma size_union_branches [size_laws]:
  "union_branches k = Some bs \<Longrightarrow> b \<in> set bs \<Longrightarrow> size b < size (SObj k)"
  by (auto simp: union_branches_def simp del: schema.size split: option.splits intro: size_sub)

lemma size_schema_base: "size (SObj (schema_base k)) \<le> size (SObj k)"
  by (cases k; cases "kw_any k"; cases "kw_one k"; cases "kw_all k") (simp_all add: schema_base_def)

subsection \<open>Acceptance and disjointness\<close>

definition schema_accepts_normalized_value :: "schema \<Rightarrow> pyval \<Rightarrow> bool res" where
  "schema_accepts_normalized_value s v =
     (case validate_normalized False ''Schema compatibility'' v s of
        Inr _ \<Rightarrow> Inr True
      | Inl (ValueError m) \<Rightarrow> Inr False
      | Inl e \<Rightarrow> Inl e)"

definition overlapping_type_pairs :: "schema kws \<Rightarrow> schema kws \<Rightarrow> (jtype \<times> jtype) list" where
  "overlapping_type_pairs lk rk =
     filter (\<lambda>(a, b). a = b \<or> {a, b} = {JInteger, JNumber})
       (List.product (normalized_schema_types (SObj lk)) (normalized_schema_types (SObj rk)))"

text \<open>A required member the other side closes off\<close>

definition required_closed :: "schema kws \<Rightarrow> schema kws \<Rightarrow> bool" where
  "required_closed lk rk \<longleftrightarrow>
     list_ex (\<lambda>name. name \<notin> set (keys_of (opt_list (kw_props rk))) \<and> additional_contract rk = SFalse)
       (opt_list (kw_required lk))"

text \<open>\<open>True\<close> stands only behind \<open>additionalProperties\<close>, which the code tests before it
  recurses; reaching it would be the \<open>TypeError\<close> of \<open>"const" in True\<close>.\<close>

function (sequential) normalized_schemas_disjoint :: "schema \<Rightarrow> schema \<Rightarrow> bool res" where
  "normalized_schemas_disjoint SFalse r = Inr True"
| "normalized_schemas_disjoint l SFalse = Inr True"
| "normalized_schemas_disjoint (SObj lk) (SObj rk) =
     (if lk = no_kws \<or> rk = no_kws then Inr False
      else case kw_const lk of Some c \<Rightarrow> not_r (schema_accepts_normalized_value (SObj rk) c) | None \<Rightarrow>
      (case kw_const rk of Some c \<Rightarrow> not_r (schema_accepts_normalized_value (SObj lk) c) | None \<Rightarrow>
      (case kw_enum lk of
         Some cs \<Rightarrow> all_r (\<lambda>v. not_r (schema_accepts_normalized_value (SObj rk) v)) cs | None \<Rightarrow>
      (case kw_enum rk of
         Some cs \<Rightarrow> all_r (\<lambda>v. not_r (schema_accepts_normalized_value (SObj lk) v)) cs | None \<Rightarrow>
      (case union_branches lk of
         Some bs \<Rightarrow> all_r (\<lambda>b. normalized_schemas_disjoint b (SObj rk)) bs | None \<Rightarrow>
      (case union_branches rk of
         Some bs \<Rightarrow> all_r (\<lambda>b. normalized_schemas_disjoint (SObj lk) b) bs | None \<Rightarrow>
      or_r (any_r (\<lambda>b. normalized_schemas_disjoint b (SObj rk)) (opt_list (kw_all lk)))
      (or_r (any_r (\<lambda>b. normalized_schemas_disjoint (SObj lk) b) (opt_list (kw_all rk)))
      (if overlapping_type_pairs lk rk = [] then Inr True
       else if \<not> list_all (\<lambda>p. p = (JObject, JObject)) (overlapping_type_pairs lk rk) then Inr False
       else
       or_r (any_r (\<lambda>name.
           if property_contract lk name = SFalse \<or> property_contract rk name = SFalse then Inr True
           else if property_contract lk name = STrue \<or> property_contract rk name = STrue then Inr False
           else normalized_schemas_disjoint (property_contract lk name) (property_contract rk name))
         (filter (\<lambda>name. name \<in> set (opt_list (kw_required rk))) (opt_list (kw_required lk))))
       (Inr (required_closed lk rk \<or> required_closed rk lk))))))))))"
| "normalized_schemas_disjoint l r =
     (if l = any_schema \<or> r = any_schema then Inr False
      else Inl (TypeError ''argument of type bool is not iterable''))"
  by pat_completeness auto
termination
  by (relation "measure (\<lambda>(l, r). size l + size r)")
    (auto simp del: schema.size intro: size_laws intro!: add_less_mono size_property_contract)

declare normalized_schemas_disjoint.simps [simp del]

subsection \<open>Contexts\<close>

datatype union_kw = AnyOf | OneOf

type_synonym context_unions = "(union_kw \<times> schema list) list"
type_synonym source_ctx = "schema list \<times> context_unions"

text \<open>\<open>{keyword: list(branches)}\<close>\<close>

fun union_schema :: "union_kw \<Rightarrow> schema list \<Rightarrow> schema" where
  "union_schema AnyOf bs = SObj (Kws None None None None None None None (Some bs) None None [])"
| "union_schema OneOf bs = SObj (Kws None None None None None None None None (Some bs) None [])"

definition own_unions :: "schema kws \<Rightarrow> context_unions" where
  "own_unions k =
     (case kw_any k of None \<Rightarrow> [] | Some bs \<Rightarrow> [(AnyOf, bs)]) @
     (case kw_one k of None \<Rightarrow> [] | Some bs \<Rightarrow> [(OneOf, bs)])"

text \<open>\<open>type\<close> is a list unless it has one entry.\<close>

definition typed_union :: "schema kws \<Rightarrow> source_ctx" where
  "typed_union k =
     (case kw_type k of
        None \<Rightarrow> ([SObj (schema_base k)], [])
      | Some [t] \<Rightarrow> ([SObj (schema_base k)], [])
      | Some ts \<Rightarrow> ([any_schema], [(AnyOf, map (\<lambda>t. SObj (with_type t (schema_base k))) ts)]))"

function (sequential) source_context :: "schema \<Rightarrow> source_ctx" where
  "source_context SFalse = ([SFalse], [])"
| "source_context STrue = ([], [])"
| "source_context (SObj k) =
     (let inner = map source_context (opt_list (kw_all k)) in
      (fst (typed_union k) @ concat (map fst inner),
       snd (typed_union k) @ concat (map snd inner) @ own_unions k))"
  by pat_completeness auto
termination
  by (relation "measure size") (auto simp del: schema.size intro: size_laws)

function (sequential) target_context :: "schema \<Rightarrow> source_ctx" where
  "target_context SFalse = ([SFalse], [])"
| "target_context STrue = ([], [])"
| "target_context (SObj k) =
     (let inner = map target_context (opt_list (kw_all k)) in
      (SObj (schema_base k) # concat (map fst inner), concat (map snd inner) @ own_unions k))"
  by pat_completeness auto
termination
  by (relation "measure size") (auto simp del: schema.size intro: size_laws)

declare source_context.simps(3) [simp del] target_context.simps(3) [simp del]

text \<open>Candidates of the first atom with a literal clause; atoms are never \<open>True\<close>.\<close>

fun first_literals :: "schema list \<Rightarrow> pyval list option" where
  "first_literals [] = None"
| "first_literals (SFalse # atoms) = Some []"
| "first_literals (STrue # atoms) = first_literals atoms"
| "first_literals (SObj k # atoms) =
     (case kw_const k of Some c \<Rightarrow> Some [c] | None \<Rightarrow>
      (case kw_enum k of Some cs \<Rightarrow> Some cs | None \<Rightarrow> first_literals atoms))"

fun filter_r :: "('a \<Rightarrow> bool res) \<Rightarrow> 'a list \<Rightarrow> 'a list res" where
  "filter_r f [] = Inr []"
| "filter_r f (x # xs) = bind_r (f x) (\<lambda>b. bind_r (filter_r f xs) (\<lambda>ys. Inr (if b then x # ys else ys)))"

definition source_context_literals :: "source_ctx \<Rightarrow> pyval list option res" where
  "source_context_literals ctx =
     (case first_literals (fst ctx) of
        None \<Rightarrow> Inr None
      | Some candidates \<Rightarrow>
          bind_r (filter_r (\<lambda>c.
              and_r (all_r (\<lambda>s. schema_accepts_normalized_value s c) (fst ctx))
                (all_r (\<lambda>(kw, bs). schema_accepts_normalized_value (union_schema kw bs) c) (snd ctx)))
            candidates)
          (\<lambda>cs. Inr (Some cs)))"

fun any_pair :: "('a \<Rightarrow> 'a \<Rightarrow> bool res) \<Rightarrow> 'a list \<Rightarrow> bool res" where
  "any_pair f [] = Inr False"
| "any_pair f (x # xs) = or_r (any_r (f x) xs) (any_pair f xs)"

definition source_context_is_empty :: "source_ctx \<Rightarrow> bool res" where
  "source_context_is_empty ctx =
     (if SFalse \<in> set (fst ctx) then Inr True
      else bind_r (source_context_literals ctx) (\<lambda>literals.
        case literals of Some cs \<Rightarrow> Inr (cs = [])
        | None \<Rightarrow> any_pair normalized_schemas_disjoint (fst ctx)))"

definition context_with_branch :: "schema list \<Rightarrow> schema \<Rightarrow> source_ctx" where
  "context_with_branch atoms b = (atoms @ fst (source_context b), snd (source_context b))"

subsubsection \<open>Weights\<close>

text \<open>The weight of a branch bounds the weight of the unions it brings along, so a proof that
  opens one union at a time ends.\<close>

definition type_weight :: "schema kws \<Rightarrow> nat" where
  "type_weight k = (case kw_type k of None \<Rightarrow> 0 | Some [t] \<Rightarrow> 0 | Some ts \<Rightarrow> length ts)"

function (sequential) branch_weight :: "schema \<Rightarrow> nat" where
  "branch_weight (SObj k) = Suc (type_weight k + sum_list (map branch_weight (opt_list (kw_all k))) +
     sum_list (map branch_weight (opt_list (kw_any k))) + sum_list (map branch_weight (opt_list (kw_one k))))"
| "branch_weight s = 1"
  by pat_completeness auto
termination
  by (relation "measure size") (auto simp del: schema.size intro: size_laws)

declare branch_weight.simps(1) [simp del]

definition unions_weight :: "context_unions \<Rightarrow> nat" where
  "unions_weight us = sum_list (map (\<lambda>(kw, bs). sum_list (map branch_weight bs)) us)"

lemma unions_weight_append [simp]: "unions_weight (a @ b) = unions_weight a + unions_weight b"
  by (simp add: unions_weight_def)

lemma unions_weight_concat: "unions_weight (concat uss) = sum_list (map unions_weight uss)"
  by (induction uss) (auto simp: unions_weight_def)

lemma typed_union_weight: "unions_weight (snd (typed_union k)) = type_weight k"
proof -
  have w: "branch_weight (SObj (with_type t (schema_base k))) = 1" for t
    by (simp add: branch_weight.simps type_weight_def)
  have "sum_list (map (branch_weight \<circ> (\<lambda>t. SObj (with_type t (schema_base k)))) ts) = length ts" for ts
    using w by (induction ts) auto
  then show ?thesis
    by (auto simp: typed_union_def type_weight_def unions_weight_def w comp_def split: option.splits list.splits)
qed

lemma source_context_weight: "unions_weight (snd (source_context b)) < branch_weight b"
proof (induction b rule: measure_induct_rule[of size])
  case (less b)
  show ?case
  proof (cases b)
    case (SObj k)
    have "unions_weight (snd (source_context s)) \<le> branch_weight s" if "s \<in> set (opt_list (kw_all k))" for s
      using less.IH[of s] size_sub_opt(4)[OF that] by (simp add: SObj less_imp_le del: schema.size)
    then have "sum_list (map (\<lambda>s. unions_weight (snd (source_context s))) (opt_list (kw_all k))) \<le>
        sum_list (map branch_weight (opt_list (kw_all k)))"
      by (intro sum_list_mono)
    moreover have "unions_weight (own_unions k) = sum_list (map branch_weight (opt_list (kw_any k))) +
        sum_list (map branch_weight (opt_list (kw_one k)))"
      by (cases "kw_any k"; cases "kw_one k") (auto simp: own_unions_def unions_weight_def)
    ultimately show ?thesis
      by (simp add: SObj source_context.simps branch_weight.simps Let_def unions_weight_concat
          typed_union_weight comp_def)
  qed (simp_all add: unions_weight_def)
qed

lemma context_with_branch_weight [size_laws]:
  assumes "(kw, bs) \<in> set us" and "b \<in> set bs"
  shows "unions_weight (snd (context_with_branch atoms b)) < unions_weight us"
proof -
  have "branch_weight b \<le> sum_list (map branch_weight bs)"
    using assms(2) by (simp add: member_le_sum_list)
  also have "\<dots> \<le> unions_weight us"
    unfolding unions_weight_def using assms(1) by (intro member_le_sum_list) (force, simp)
  finally show ?thesis
    using source_context_weight[of b] by (simp add: context_with_branch_def)
qed

function source_context_disjoint_schema :: "source_ctx \<Rightarrow> schema \<Rightarrow> bool res" where
  "source_context_disjoint_schema ctx target =
     or_r (source_context_is_empty ctx)
     (bind_r (source_context_literals ctx) (\<lambda>literals.
      case literals of
        Some cs \<Rightarrow> all_r (\<lambda>v. not_r (schema_accepts_normalized_value target v)) cs
      | None \<Rightarrow>
          or_r (any_r (\<lambda>source. normalized_schemas_disjoint source target) (fst ctx))
          (any_r (\<lambda>(kw, bs). all_r (\<lambda>b.
             source_context_disjoint_schema (context_with_branch (fst ctx) b) target) bs) (snd ctx))))"
  by pat_completeness auto
termination
  by (relation "measure (\<lambda>(ctx, t). unions_weight (snd ctx))") (auto intro: size_laws)

declare source_context_disjoint_schema.simps [simp del]

lemma size_in_list: "x \<in> set xs \<Longrightarrow> size x < size_list size xs"
  by (induction xs) auto

lemma target_context_sizes:
  "a \<in> set (fst (target_context t)) \<Longrightarrow> size a \<le> size t"
  "(kw, bs) \<in> set (snd (target_context t)) \<Longrightarrow> size_list size bs < size t"
proof (induction t rule: measure_induct_rule[of size])
  case (less t)
  case 1
  show ?case
  proof (cases t)
    case (SObj k)
    with 1 consider "a = SObj (schema_base k)" | s where "s \<in> set (opt_list (kw_all k))" "a \<in> set (fst (target_context s))"
      by (auto simp: target_context.simps Let_def)
    then show ?thesis
    proof cases
      case 2
      with less(1)[of s] size_sub_opt(4)[of s k] show ?thesis by (force simp: SObj simp del: schema.size)
    qed (use size_schema_base in \<open>simp add: SObj\<close>)
  qed (use 1 in auto)
next
  case (less t)
  case 2
  show ?case
  proof (cases t)
    case (SObj k)
    with 2 consider "kw_any k = Some bs" | "kw_one k = Some bs" | s where "s \<in> set (opt_list (kw_all k))" "(kw, bs) \<in> set (snd (target_context s))"
      by (auto simp: target_context.simps Let_def own_unions_def split: option.splits)
    then show ?thesis
    proof cases
      case 3
      with less(2)[of s] size_sub_opt(4)[of s k] show ?thesis by (force simp: SObj simp del: schema.size)
    qed (cases k; simp add: SObj)+
  qed (use 2 in auto)
qed

subsection \<open>Subset proofs\<close>

text \<open>\<open>set(target) - ANNOTATION_KEYS <= {"type"}\<close>\<close>

definition only_type_clause :: "schema kws \<Rightarrow> bool" where
  "only_type_clause k \<longleftrightarrow>
     kw_props k = None \<and> kw_required k = None \<and> kw_additional k = None \<and> kw_items k = None \<and>
     kw_enum k = None \<and> kw_const k = None \<and> kw_any k = None \<and> kw_one k = None \<and> kw_all k = None"

definition widen :: "jtype list \<Rightarrow> jtype list" where
  "widen ts = (if JNumber \<in> set ts then JInteger # ts else ts)"

definition possible_types :: "schema list \<Rightarrow> jtype list" where
  "possible_types atoms =
     fold (\<lambda>s possible. inter_types possible (widen (normalized_schema_types s))) atoms json_types"

definition types_subset :: "schema kws \<Rightarrow> schema kws \<Rightarrow> bool" where
  "types_subset sk tk \<longleftrightarrow>
     list_all (\<lambda>t. type_allowed t (normalized_schema_types (SObj tk))) (normalized_schema_types (SObj sk))"

text \<open>A required name may be typed by \<open>additionalProperties\<close> alone; when that is open,
  \<open>True\<close> is passed on as a contract, and taking it apart is an \<open>AttributeError\<close>.\<close>

function (sequential)
  normalized_schemas_compatible :: "schema \<Rightarrow> schema \<Rightarrow> bool res" and
  source_context_subset_schema :: "source_ctx \<Rightarrow> schema \<Rightarrow> bool res" and
  source_context_subset_union :: "source_ctx \<Rightarrow> union_kw \<Rightarrow> schema list \<Rightarrow> bool res" and
  source_context_subset_atom :: "source_ctx \<Rightarrow> schema \<Rightarrow> bool res" and
  plain_schema_subset :: "schema \<Rightarrow> schema \<Rightarrow> bool res" where
  "normalized_schemas_compatible source target =
     (if json_values_equal (schema_to_py source) (schema_to_py target) then Inr True
      else if source = SFalse then Inr True
      else if target = SFalse then Inr False
      else if target = any_schema then Inr True
      else if source = any_schema then Inr False
      else if source = STrue \<or> target = STrue then Inl (AttributeError ''items'')
      else source_context_subset_schema (source_context source) target)"
| "source_context_subset_schema ctx target =
     and_r (all_r (\<lambda>atom. source_context_subset_atom ctx atom) (fst (target_context target)))
       (all_r (\<lambda>(kw, bs). source_context_subset_union ctx kw bs) (snd (target_context target)))"
| "source_context_subset_union ctx kw branches =
     bind_r (source_context_literals ctx) (\<lambda>literals.
     case literals of
       Some cs \<Rightarrow> all_r (schema_accepts_normalized_value (union_schema kw branches)) cs
     | None \<Rightarrow>
         or_r (case kw of
             AnyOf \<Rightarrow> any_r (\<lambda>b. source_context_subset_schema ctx b) branches
           | OneOf \<Rightarrow> any_r (\<lambda>(i, b).
               and_r (source_context_subset_schema ctx b)
                 (all_r (\<lambda>(j, other). if j = i then Inr True else source_context_disjoint_schema ctx other)
                   (enumerate 0 branches))) (enumerate 0 branches))
         (any_r (\<lambda>(_, bs). all_r (\<lambda>b.
             source_context_subset_union (context_with_branch (fst ctx) b) kw branches) bs) (snd ctx)))"
| "source_context_subset_atom ctx target =
     or_r (source_context_is_empty ctx)
     (bind_r (source_context_literals ctx) (\<lambda>literals.
      case literals of
        Some cs \<Rightarrow> all_r (schema_accepts_normalized_value target) cs
      | None \<Rightarrow>
          or_r (any_r (\<lambda>source. plain_schema_subset source target) (fst ctx))
          (case target of
             SObj tk \<Rightarrow>
               or_r (Inr (only_type_clause tk \<and>
                   set (possible_types (fst ctx)) \<subseteq> set (widen (normalized_schema_types target))))
               (any_r (\<lambda>(_, bs). all_r (\<lambda>b.
                   source_context_subset_atom (context_with_branch (fst ctx) b) target) bs) (snd ctx))
           | _ \<Rightarrow> Inl (TypeError ''bool object is not iterable''))))"
| "plain_schema_subset source target =
     (if json_values_equal (schema_to_py source) (schema_to_py target) \<or> source = SFalse then Inr True
      else if target = SFalse then Inr False
      else if target = any_schema then Inr True
      else if source = any_schema then Inr False
      else case (source, target) of
        (SObj sk, SObj tk) \<Rightarrow>
        (case kw_const sk of Some c \<Rightarrow> schema_accepts_normalized_value target c | None \<Rightarrow>
        (case kw_enum sk of Some cs \<Rightarrow> all_r (schema_accepts_normalized_value target) cs | None \<Rightarrow>
         if kw_const tk \<noteq> None \<or> kw_enum tk \<noteq> None then Inr False
         else if \<not> types_subset sk tk then Inr False
         else
         and_r (if JObject \<in> set (normalized_schema_types source) \<and> JObject \<in> set (normalized_schema_types target)
           then
             and_r (all_r (\<lambda>name.
                 if name \<notin> set (opt_list (kw_required sk)) then Inr False
                 else if property_contract sk name = SFalse \<or> property_contract tk name = SFalse then Inr False
                 else normalized_schemas_compatible (property_contract sk name) (property_contract tk name))
               (opt_list (kw_required tk)))
            (and_r (all_r (\<lambda>(name, sp).
                 if property_contract tk name = SFalse then Inr False
                 else if property_contract tk name = STrue then Inr True
                 else normalized_schemas_compatible sp (property_contract tk name))
               (opt_list (kw_props sk)))
             (if additional_contract sk = SFalse then Inr True
              else
                and_r (all_r (\<lambda>(name, tp).
                    if name \<in> set (keys_of (opt_list (kw_props sk))) then Inr True
                    else if additional_contract sk = STrue then Inr False
                    else normalized_schemas_compatible (additional_contract sk) tp)
                  (opt_list (kw_props tk)))
                (if additional_contract tk = SFalse then Inr False
                 else if additional_contract tk = STrue then Inr True
                 else if additional_contract sk = STrue then Inr False
                 else normalized_schemas_compatible (additional_contract sk) (additional_contract tk))))
           else Inr True)
         (if JArray \<in> set (normalized_schema_types source) \<and> JArray \<in> set (normalized_schema_types target)
          then case kw_items tk of None \<Rightarrow> Inr True
            | Some ti \<Rightarrow> (case kw_items sk of None \<Rightarrow> Inr False
              | Some si \<Rightarrow> normalized_schemas_compatible si ti)
          else Inr True)))
      | _ \<Rightarrow> Inl (TypeError ''argument of type bool is not iterable''))"
  by pat_completeness auto
termination
proof (relation "measures [
    \<lambda>x. case x of Inl (Inl (s, t)) \<Rightarrow> size t | Inl (Inr (c, t)) \<Rightarrow> size t
      | Inr (Inl (c, kw, bs)) \<Rightarrow> size_list size bs | Inr (Inr (Inl (c, t))) \<Rightarrow> size t
      | Inr (Inr (Inr (s, t))) \<Rightarrow> size t,
    \<lambda>x. case x of Inl (Inl _) \<Rightarrow> 4 | Inl (Inr _) \<Rightarrow> 3 | Inr (Inl _) \<Rightarrow> 2
      | Inr (Inr (Inl _)) \<Rightarrow> 1 | Inr (Inr (Inr _)) \<Rightarrow> 0,
    \<lambda>x. case x of Inr (Inl (c, kw, bs)) \<Rightarrow> unions_weight (snd c)
      | Inr (Inr (Inl (c, t))) \<Rightarrow> unions_weight (snd c) | _ \<Rightarrow> 0]")
qed (auto simp del: schema.size dest: target_context_sizes enumerate_mem intro: size_laws size_in_list)

declare normalized_schemas_compatible.simps [simp del] source_context_subset_schema.simps [simp del]
  source_context_subset_union.simps [simp del] source_context_subset_atom.simps [simp del]
  plain_schema_subset.simps [simp del]

definition schemas_compatible :: "pyval \<Rightarrow> pyval \<Rightarrow> bool res" where
  "schemas_compatible provided required =
     bind_r (normalize_schema provided) (\<lambda>source.
     bind_r (normalize_schema required) (\<lambda>target. normalized_schemas_compatible source target))"

end
