(* ===== verification/Schema_Semantics.thy ===== *)
theory Schema_Semantics
  imports Data_Compatibility
begin

section \<open>The meaning of contracts the compatibility prover relies on\<close>

text \<open>
  The prover of \<open>Data_Compatibility\<close> asks the reference validator about literals and compares
  contracts as dictionaries. This theory shows that both questions are about
  acceptance: the validator decides acceptance also of the parts the prover takes
  contracts into (which need not be normal forms) and raises nothing but \<open>ValueError\<close>, and
  contracts with equal dictionaries accept the same values. The locale
  \<open>contract_semantics\<close> collects the laws; the prover's soundness is proved in it.
\<close>

subsection \<open>Only \<open>ValueError\<close>\<close>

definition ve :: "'a res \<Rightarrow> bool" where
  "ve r \<longleftrightarrow> (\<forall>e. r = Inl e \<longrightarrow> (\<exists>m. e = ValueError m))"

named_theorems ve_intros \<open>results that raise nothing but ValueError\<close>

lemma ve_basic [ve_intros]: "ve (Inr x)" "ve (Inl (ValueError m))"
  by (simp_all add: ve_def)

lemma ve_guard [ve_intros]: "ve (guard_r b (ValueError m))"
  by (simp add: ve_def guard_r_def)

lemma ve_bind: "ve r \<Longrightarrow> (\<And>x. ve (f x)) \<Longrightarrow> ve (bind_r r f)"
  by (cases r) (simp_all add: ve_def)

lemma ve_map_r: "(\<And>x. x \<in> set xs \<Longrightarrow> ve (f x)) \<Longrightarrow> ve (map_r f xs)"
  by (induction xs) (auto intro!: ve_bind ve_basic)

lemma ve_iter_r: "(\<And>x. x \<in> set xs \<Longrightarrow> ve (f x)) \<Longrightarrow> ve (iter_r f xs)"
  by (induction xs) (auto intro!: ve_bind ve_basic)

lemma ve_opt_kw: "(\<And>v. map_of raw (KStr key) = Some v \<Longrightarrow> ve (f v)) \<Longrightarrow> ve (opt_kw raw key f)"
  by (auto simp: opt_kw_def ve_basic split: option.splits intro!: ve_bind)

lemma ve_require_declared [ve_intros]: "ve (require_declared kw t present types)"
  unfolding require_declared_def by (rule ve_guard)

lemma ve_check_literals [ve_intros]: "ve (check_literals k)"
  unfolding check_literals_def by (intro ve_bind ve_iter_r ve_guard)

lemma ve_normalize_type [ve_intros]: "ve (normalize_type (type_to_py ts))"
proof -
  have "ve (type_items (map (PStr \<circ> jtype_name) ts))" for ts
    by (induction ts) (auto simp: ve_basic type_error_def split: option.splits intro!: ve_bind)
  note items = this
  show ?thesis
  proof (cases ts rule: remdups_adj.cases)
    case (2 t)
    with items[of "[t]"] show ?thesis
      unfolding normalize_type_def Let_def by (intro ve_bind) (auto simp: type_to_py_def ve_basic)
  next
    case (3 t u us)
    with items[of ts] show ?thesis
      unfolding normalize_type_def Let_def
      by (intro ve_bind) (auto simp: type_to_py_def ve_basic simp del: type_items.simps)
  qed (simp add: normalize_type_def type_to_py_def type_error_def ve_basic)
qed

lemma ve_normalize_required [ve_intros]: "ve (normalize_required v)"
  by (auto simp: normalize_required_def ve_basic split: option.splits)

lemma ve_normalize_enum [ve_intros]: "ve (normalize_enum v)"
  by (auto simp: normalize_enum_def ve_basic split: pyval.splits list.splits)

lemma ve_normalize_branches:
  "(\<And>b. b \<in> set bs \<Longrightarrow> ve (f (schema_to_py b))) \<Longrightarrow> ve (normalize_branches f kw (PList (map schema_to_py bs)))"
  by (cases bs) (auto simp: normalize_branches_def ve_basic intro!: ve_bind ve_map_r)

lemma ve_normalize_properties:
  "(\<And>n s. (n, s) \<in> set ps \<Longrightarrow> ve (f (schema_to_py s))) \<Longrightarrow>
   ve (normalize_properties f (PDict (map (\<lambda>(n, s). (KStr n, schema_to_py s)) ps)))"
  by (auto simp: normalize_properties_def ve_basic intro!: ve_bind ve_map_r)

lemma ve_normalize_schema: "shape_ok s \<Longrightarrow> ve (normalize_schema (schema_to_py s))"
proof (induction s rule: measure_induct_rule[of size])
  case (less s)
  show ?case
  proof (cases s)
    case (SObj k)
    note ok = less.prems[unfolded SObj]
    have an: "set (keys_of (kw_annot k)) \<subseteq> set annotation_keys"
      using shape_ok_subs(7)[OF ok] by (simp add: shape_level_def)
    note look = schema_entries_lookup[OF an]
    have IH: "ve (normalize_schema (schema_to_py t))" if "t \<in> set_kws k" "shape_ok t" for t
      using less.IH[of t] size_kws_mem[OF that(1)] that(2) SObj by blast
    have br: "ve (opt_kw (schema_entries k) key (normalize_branches normalize_schema key))"
      if "map_of (schema_entries k) (KStr key) = map_option (\<lambda>bs. PList (map schema_to_py bs)) o'"
        "\<And>t. t \<in> set (opt_list o') \<Longrightarrow> t \<in> set_kws k \<and> shape_ok t" for key o'
      using that IH by (intro ve_opt_kw) (cases o'; auto intro!: ve_normalize_branches)
    have 1: "ve (opt_kw (schema_entries k) ''type'' normalize_type)"
      by (rule ve_opt_kw) (auto simp: look ve_intros)
    have 2: "ve (opt_kw (schema_entries k) ''properties'' (normalize_properties normalize_schema))"
      using IH[OF kws_opt_members(1)] shape_ok_subs(1)[OF ok]
      by (intro ve_opt_kw) (cases "kw_props k"; auto simp: look intro!: ve_normalize_properties)
    have 3: "ve (opt_kw (schema_entries k) ''additionalProperties'' (\<lambda>v. case v of
         PBool b \<Rightarrow> Inr (if b then STrue else SFalse) | _ \<Rightarrow> normalize_schema v))"
      using IH[OF kws_members(2)] shape_ok_subs(2)[OF ok]
      by (intro ve_opt_kw) (auto simp: look ve_intros split: pyval.splits)
    have 4: "ve (opt_kw (schema_entries k) ''items'' normalize_schema)"
      using IH[OF kws_members(3)] shape_ok_subs(3)[OF ok] by (intro ve_opt_kw) (auto simp: look)
    have 5: "ve (opt_kw (schema_entries k) ''anyOf'' (normalize_branches normalize_schema ''anyOf''))"
      by (rule br[OF look(8)]) (use kws_opt_members(2)[of _ k] shape_ok_subs(4)[OF ok] in blast)
    have 6: "ve (opt_kw (schema_entries k) ''oneOf'' (normalize_branches normalize_schema ''oneOf''))"
      by (rule br[OF look(9)]) (use kws_opt_members(3)[of _ k] shape_ok_subs(5)[OF ok] in blast)
    have 7: "ve (opt_kw (schema_entries k) ''allOf'' (normalize_branches normalize_schema ''allOf''))"
      by (rule br[OF look(10)]) (use kws_opt_members(4)[of _ k] shape_ok_subs(6)[OF ok] in blast)
    have lits: "ve (opt_kw (schema_entries k) ''required'' normalize_required)"
      "ve (opt_kw (schema_entries k) ''enum'' normalize_enum)" "ve (opt_kw (schema_entries k) ''const'' Inr)"
      by (intro ve_opt_kw ve_intros)+
    show ?thesis
      unfolding SObj schema_to_py_SObj normalize_schema.simps Let_def schema_entries_keywords[OF an] bind_r_simps
      by (intro ve_bind ve_intros lits 1 2 3 4 5 6 7)
  qed (simp_all add: schema_to_py.simps normalize_schema.simps ve_basic)
qed

subsection \<open>The validator decides acceptance of parts\<close>

definition verdict :: "bool \<Rightarrow> unit res \<Rightarrow> bool" where
  "verdict b r \<longleftrightarrow> (if b then r = Inr () else (\<exists>m. r = Inl (ValueError m)))"

lemma verdict_guard: "verdict b (guard_r b (ValueError m))"
  by (simp add: verdict_def guard_r_def)

lemma verdict_bind: "verdict a r \<Longrightarrow> verdict b s \<Longrightarrow> verdict (a \<and> b) (bind_r r (\<lambda>_. s))"
  by (auto simp: verdict_def split: if_splits)

lemma verdict_iter: "(\<And>x. x \<in> set xs \<Longrightarrow> verdict (P x) (f x)) \<Longrightarrow> verdict (\<forall>x \<in> set xs. P x) (iter_r f xs)"
proof (induction xs)
  case (Cons x xs)
  have "verdict (P x \<and> (\<forall>x \<in> set xs. P x)) (bind_r (f x) (\<lambda>_. iter_r f xs))"
    by (rule verdict_bind) (use Cons in auto)
  then show ?case by simp
qed (simp add: verdict_def)

lemma verdict_count:
  "(\<And>b. b \<in> set bs \<Longrightarrow> verdict (P b) (f b)) \<Longrightarrow> count_matches (map f bs) = Inr (length (filter P bs))"
proof (induction bs)
  case (Cons b bs)
  from Cons.prems[of b] consider "P b" "f b = Inr ()" | m where "\<not> P b" "f b = Inl (ValueError m)"
    by (auto simp: verdict_def split: if_splits)
  then show ?case using Cons by cases auto
qed simp

lemma verdict_cong: "verdict b r \<Longrightarrow> b = b' \<Longrightarrow> verdict b' r"
  by simp

lemma label_error_ValueError: "shape_ok s \<Longrightarrow> \<exists>m. label_error path t s = ValueError m"
  using ve_normalize_schema[of s]
  by (auto simp: label_error_def schema_label_def bind_r_def ve_def split: sum.splits)

lemma children_verdict:
  assumes ok: "shape_ok (SObj k)"
    and IH: "\<And>path child s. size child < size v \<Longrightarrow> part_ok s \<Longrightarrow>
      verdict (accepts child s) (validate_normalized False path child s)"
  shows "verdict (children_ok v k) (children_check False path v k)"
proof (cases v)
  case (PDict kvs)
  have "verdict (member_ok k kv) (member_check (validate_normalized False) path k kv)" if kv: "kv \<in> set kvs" for kv
  proof -
    obtain key c where eq: "kv = (key, c)" by force
    have "size c < size v" unfolding PDict using kv eq size_dict_item by blast
    from IH[OF this shape_ok_member[OF ok]] show ?thesis
      by (auto simp: eq member_check_def member_ok_def verdict_def split: pykey.splits option.splits)
  qed
  then have "verdict (\<forall>kv \<in> set kvs. member_ok k kv) (iter_r (member_check (validate_normalized False) path k) kvs)"
    by (rule verdict_iter)
  moreover have "verdict (\<forall>name \<in> set (opt_list (kw_required k)). KStr name \<in> set (keys_of kvs))
      (iter_r (\<lambda>name. guard_r (KStr name \<in> set (keys_of kvs))
              (verr (path @ ''.'' @ name) RequiredMissing)) (opt_list (kw_required k)))"
    by (intro verdict_iter verdict_guard)
  ultimately show ?thesis
    by (simp add: PDict children_check_def children_ok_def verdict_bind)
next
  case (PList xs)
  have "verdict (\<forall>(i, c) \<in> set (enumerate 0 xs). accepts c (item_contract k)) (children_check False path v k)"
    unfolding PList children_check_def pyval.case
  proof (rule verdict_iter, clarify)
    fix i c assume "(i, c) \<in> set (enumerate 0 xs)"
    then have "size c < size v" unfolding PList by (rule size_enum_item)
    from IH[OF this shape_ok_item[OF ok]]
    show "verdict (accepts c (item_contract k))
        (validate_normalized False (path @ ''['' @ nat_str i @ '']'') c (item_contract k))" .
  qed
  then show ?thesis unfolding ball_enumerate by (simp add: PList children_ok_def)
qed (simp_all add: children_check_def children_ok_def verdict_def)

lemma validate_verdict: "part_ok s \<Longrightarrow> verdict (accepts v s) (validate_normalized False path v s)"
proof (induction v s arbitrary: path rule: value_schema_induct)
  case (1 v s)
  show ?case
  proof (cases s)
    case (SObj k)
    note ok = "1.prems"[unfolded SObj, THEN conjunct2]
    have branch: "verdict (accepts v b) (validate_normalized False path v b)" if "b \<in> set_kws k" "part_ok b" for b
      using "1.IH"(2)[of b path] that size_kws_mem[OF that(1)] by (simp add: SObj del: schema.size)
    have children: "verdict (children_ok v k) (children_check False path v k)"
      using "1.IH"(1) by (intro children_verdict ok) auto
    have all: "verdict (\<forall>b \<in> set (opt_list (kw_all k)). accepts v b)
        (iter_r (validate_normalized False path v) (opt_list (kw_all k)))"
      by (rule verdict_iter) (use branch[OF kws_opt_members(4)] shape_ok_subs(6)[OF ok] in blast)
    have cany: "count_matches (map (validate_normalized False path v) bs) = Inr (length (filter (accepts v) bs))"
      if "kw_any k = Some bs" for bs
      by (rule verdict_count) (use that branch[OF kws_members(4)] shape_ok_subs(4)[OF ok] in auto)
    have cone: "count_matches (map (validate_normalized False path v) bs) = Inr (length (filter (accepts v) bs))"
      if "kw_one k = Some bs" for bs
      by (rule verdict_count) (use that branch[OF kws_members(5)] shape_ok_subs(5)[OF ok] in auto)
    note lv = shape_ok_subs(7)[OF ok, unfolded shape_level_def]
    have any: "verdict (opt_list (kw_any k) \<noteq> [] \<longrightarrow> (\<exists>b \<in> set (opt_list (kw_any k)). accepts v b))
      (case kw_any k of None \<Rightarrow> Inr ()
        | Some bs \<Rightarrow> bind_r (count_matches (map (validate_normalized False path v) bs))
            (\<lambda>n. guard_r (n \<noteq> 0) (verr path (Combination ''anyOf''))))"
      using lv by (cases "kw_any k") (auto simp: verdict_def cany guard_r_def filter_empty_conv)
    have one: "verdict (opt_list (kw_one k) \<noteq> [] \<longrightarrow> length (filter (accepts v) (opt_list (kw_one k))) = 1)
      (case kw_one k of None \<Rightarrow> Inr ()
        | Some bs \<Rightarrow> bind_r (count_matches (map (validate_normalized False path v) bs))
            (\<lambda>n. guard_r (n = 1) (verr path (Combination ''oneOf''))))"
      using lv by (cases "kw_one k") (auto simp: verdict_def cone guard_r_def)
    have const: "verdict (\<forall>c. kw_const k = Some c \<longrightarrow> json_values_equal v c) (case kw_const k of None \<Rightarrow> Inr ()
        | Some c \<Rightarrow> guard_r (json_values_equal v c) (verr path ConstMismatch))"
      by (cases "kw_const k") (auto simp: verdict_def guard_r_def)
    have enum: "verdict (\<forall>cs. kw_enum k = Some cs \<longrightarrow> json_value_in v cs) (case kw_enum k of None \<Rightarrow> Inr ()
        | Some cs \<Rightarrow> guard_r (json_value_in v cs) (verr path EnumMismatch))"
      by (cases "kw_enum k") (auto simp: verdict_def guard_r_def)
    obtain m where m: "\<And>t. label_error path t (SObj k) = ValueError (m t)"
      using label_error_ValueError[OF ok] by metis
    show ?thesis
    proof (cases "json_type v")
      case None
      then show ?thesis
        by (simp add: SObj validate_SObj accepts_SObj verdict_def non_json_def)
    next
      case (Some t)
      show ?thesis
      proof (cases "non_json v")
        case True
        then show ?thesis by (simp add: SObj validate_SObj accepts_SObj verdict_def Some)
      next
        case False
        have "verdict (accepts v (SObj k)) (
          bind_r (iter_r (validate_normalized False path v) (opt_list (kw_all k))) (\<lambda>_.
          bind_r (case kw_any k of None \<Rightarrow> Inr ()
            | Some bs \<Rightarrow> bind_r (count_matches (map (validate_normalized False path v) bs))
                (\<lambda>n. guard_r (n \<noteq> 0) (verr path (Combination ''anyOf'')))) (\<lambda>_.
          bind_r (case kw_one k of None \<Rightarrow> Inr ()
            | Some bs \<Rightarrow> bind_r (count_matches (map (validate_normalized False path v) bs))
                (\<lambda>n. guard_r (n = 1) (verr path (Combination ''oneOf'')))) (\<lambda>_.
          bind_r (guard_r (type_allowed t (normalized_schema_types (SObj k))) (label_error path t (SObj k))) (\<lambda>_.
          bind_r (case kw_const k of None \<Rightarrow> Inr ()
            | Some c \<Rightarrow> guard_r (json_values_equal v c) (verr path ConstMismatch)) (\<lambda>_.
          bind_r (case kw_enum k of None \<Rightarrow> Inr ()
            | Some cs \<Rightarrow> guard_r (json_value_in v cs) (verr path EnumMismatch)) (\<lambda>_.
          children_check False path v k)))))))"
          unfolding m
          by (rule verdict_cong[OF verdict_bind[OF all verdict_bind[OF any verdict_bind[OF one
              verdict_bind[OF verdict_guard verdict_bind[OF const verdict_bind[OF enum children]]]]]]])
            (simp add: accepts_SObj branches_ok_def types_ok_def literals_ok_def Some False del: normalized_schema_types.simps)
        then show ?thesis by (simp add: SObj validate_SObj Some False)
      qed
    qed
  next
    case STrue
    with "1.prems" show ?thesis by simp
  qed (simp_all add: validate_normalized.simps verdict_def)
qed

lemma schema_accepts_decides: "part_ok s \<Longrightarrow> schema_accepts_normalized_value s v = Inr (accepts v s)"
  using validate_verdict[of s v "''Schema compatibility''"]
  by (auto simp: schema_accepts_normalized_value_def verdict_def split: if_splits)

subsection \<open>Contracts with equal dictionaries\<close>

definition same :: "schema \<Rightarrow> schema \<Rightarrow> bool" where
  "same s t \<longleftrightarrow> json_values_equal (schema_to_py s) (schema_to_py t)"

lemma json_equal_lookup:
  assumes "json_values_equal (PDict a) (PDict b)"
  shows "rel_option json_values_equal (map_of a key) (map_of b key)"
proof (cases "map_of a key")
  case None
  then have "key \<notin> set (keys_of b)" using assms by (simp add: map_of_eq_None_iff)
  then have "map_of b key = None" by (simp add: map_of_eq_None_iff)
  with None show ?thesis by simp
next
  case (Some v)
  from json_equal_dictD[OF assms Some] Some show ?thesis by auto
qed

lemma json_equal_list: "json_values_equal (PList xs) (PList ys) \<longleftrightarrow> list_all2 json_values_equal xs ys"
  by (auto simp: list_all2_iff list_all_iff)

lemma jtype_name_inj: "jtype_name a = jtype_name b \<longleftrightarrow> a = b"
  by (cases a; cases b) simp_all

lemma type_to_py_equal: "json_values_equal (type_to_py a) (type_to_py b) \<Longrightarrow> a = b"
proof -
  have "list_all2 json_values_equal (map (PStr \<circ> jtype_name) a) (map (PStr \<circ> jtype_name) b) \<Longrightarrow> a = b" for a b
    by (induction a b rule: list_induct2') (auto simp: jtype_name_inj)
  moreover assume "json_values_equal (type_to_py a) (type_to_py b)"
  ultimately show ?thesis
    by (cases a rule: remdups_adj.cases; cases b rule: remdups_adj.cases)
      (auto simp: type_to_py_def json_equal_list jtype_name_inj simp del: json_values_equal.simps(2))
qed

lemma strings_equal: "json_values_equal (PList (map PStr a)) (PList (map PStr b)) \<Longrightarrow> a = b"
  unfolding json_equal_list by (induction a b rule: list_induct2') auto

lemma same_SObj:
  assumes "same (SObj k) (SObj k')" and ok: "shape_level k" "shape_level k'"
  shows "kw_type k = kw_type k'" "kw_required k = kw_required k'"
    "kw_props k = None \<longleftrightarrow> kw_props k' = None"
    "rel_option same (map_of (opt_list (kw_props k)) n) (map_of (opt_list (kw_props k')) n)"
    "rel_option same (kw_additional k) (kw_additional k')"
    "rel_option same (kw_items k) (kw_items k')"
    "rel_option (list_all2 json_values_equal) (kw_enum k) (kw_enum k')"
    "rel_option json_values_equal (kw_const k) (kw_const k')"
    "rel_option (list_all2 same) (kw_any k) (kw_any k')"
    "rel_option (list_all2 same) (kw_one k) (kw_one k')"
    "rel_option (list_all2 same) (kw_all k) (kw_all k')"
proof -
  have an: "set (keys_of (kw_annot k)) \<subseteq> set annotation_keys" "set (keys_of (kw_annot k')) \<subseteq> set annotation_keys"
    using ok by (simp_all add: shape_level_def)
  have eq: "json_values_equal (PDict (schema_entries k)) (PDict (schema_entries k'))"
    using assms(1) by (simp only: same_def schema_to_py_SObj)
  note look = schema_entries_lookup[OF an(1)] schema_entries_lookup[OF an(2)]
  note L = json_equal_lookup[OF eq]
  have branches: "rel_option (list_all2 same) x y"
    if "rel_option json_values_equal (map_option (\<lambda>bs. PList (map schema_to_py bs)) x)
      (map_option (\<lambda>bs. PList (map schema_to_py bs)) y)" for x y
    using that
    by (cases x; cases y) (auto simp: json_equal_list list_all2_map1 list_all2_map2 same_def[abs_def]
        simp del: json_values_equal.simps(2))
  show "kw_type k = kw_type k'"
    using L[of "KStr ''type''"] unfolding look
    by (cases "kw_type k"; cases "kw_type k'") (auto dest: type_to_py_equal)
  show "kw_required k = kw_required k'"
    using L[of "KStr ''required''"] unfolding look
    by (cases "kw_required k"; cases "kw_required k'") (auto simp del: json_values_equal.simps(2) dest: strings_equal)
  have props: "rel_option json_values_equal
      (map_option (\<lambda>ps. PDict (map (\<lambda>(n, s). (KStr n, schema_to_py s)) ps)) (kw_props k))
      (map_option (\<lambda>ps. PDict (map (\<lambda>(n, s). (KStr n, schema_to_py s)) ps)) (kw_props k'))"
    using L[of "KStr ''properties''"] unfolding look .
  then show "kw_props k = None \<longleftrightarrow> kw_props k' = None"
    by (cases "kw_props k"; cases "kw_props k'") auto
  have lk: "map_of (map (\<lambda>(n, s). (KStr n, schema_to_py s)) ps) (KStr n) = map_option schema_to_py (map_of ps n)" for ps
    by (induction ps) auto
  show "rel_option same (map_of (opt_list (kw_props k)) n) (map_of (opt_list (kw_props k')) n)"
  proof (cases "kw_props k")
    case None
    with props show ?thesis by (cases "kw_props k'") auto
  next
    case (Some ps)
    with props obtain ps' where ps': "kw_props k' = Some ps'" by (cases "kw_props k'") auto
    from props[unfolded Some ps'] have "rel_option json_values_equal (map_option schema_to_py (map_of ps n)) (map_option schema_to_py (map_of ps' n))"
      using json_equal_lookup[of "map (\<lambda>(n, s). (KStr n, schema_to_py s)) ps" "map (\<lambda>(n, s). (KStr n, schema_to_py s)) ps'" "KStr n"]
      by (simp add: lk del: json_values_equal.simps(1))
    then show ?thesis by (simp add: Some ps' option.rel_map same_def[abs_def])
  qed
  show "rel_option same (kw_additional k) (kw_additional k')"
    using L[of "KStr ''additionalProperties''"] unfolding look by (simp add: option.rel_map same_def[abs_def])
  show "rel_option same (kw_items k) (kw_items k')"
    using L[of "KStr ''items''"] unfolding look by (simp add: option.rel_map same_def[abs_def])
  show "rel_option (list_all2 json_values_equal) (kw_enum k) (kw_enum k')"
    using L[of "KStr ''enum''"] unfolding look
    by (cases "kw_enum k"; cases "kw_enum k'") (auto simp: json_equal_list simp del: json_values_equal.simps(2))
  show "rel_option json_values_equal (kw_const k) (kw_const k')"
    using L[of "KStr ''const''"] unfolding look .
  show "rel_option (list_all2 same) (kw_any k) (kw_any k')"
    using L[of "KStr ''anyOf''"] unfolding look by (rule branches)
  show "rel_option (list_all2 same) (kw_one k) (kw_one k')"
    using L[of "KStr ''oneOf''"] unfolding look by (rule branches)
  show "rel_option (list_all2 same) (kw_all k) (kw_all k')"
    using L[of "KStr ''allOf''"] unfolding look by (rule branches)
qed

lemma same_kind:
  "same s SFalse \<longleftrightarrow> s = SFalse" "same s STrue \<longleftrightarrow> s = STrue"
  "same SFalse s \<longleftrightarrow> s = SFalse" "same STrue s \<longleftrightarrow> s = STrue"
  by (cases s; simp add: same_def schema_to_py.simps)+

lemma same_any: "same any_schema any_schema"
  by (simp add: same_def schema_to_py.simps opt_entry_def)

lemma same_open:
  "rel_option same (kw_additional k) (kw_additional k') \<Longrightarrow> rel_option same (open_contract k) (open_contract k')"
proof (cases "kw_additional k")
  case (Some a)
  moreover assume "rel_option same (kw_additional k) (kw_additional k')"
  ultimately obtain b where "kw_additional k' = Some b" "same a b" by (cases "kw_additional k'") auto
  with Some show ?thesis
    by (cases a; cases b) (auto simp: open_contract_def same_kind same_any)
qed (cases "kw_additional k'"; simp add: open_contract_def same_any)

lemma same_member:
  assumes "same (SObj k) (SObj k')" "shape_level k" "shape_level k'"
  shows "rel_option same (member_contract k n) (member_contract k' n)"
  using same_SObj(4)[OF assms, of n] same_open[OF same_SObj(5)[OF assms]]
  by (cases "map_of (opt_list (kw_props k)) n"; cases "map_of (opt_list (kw_props k')) n")
    (auto simp: member_contract_def)

lemma same_item:
  assumes "same (SObj k) (SObj k')" "shape_level k" "shape_level k'"
  shows "same (item_contract k) (item_contract k')"
  using same_SObj(6)[OF assms]
  by (cases "kw_items k"; cases "kw_items k'") (auto simp: item_contract_def same_any)

lemma same_types:
  assumes "same (SObj k) (SObj k')" "shape_level k" "shape_level k'"
  shows "normalized_schema_types (SObj k) = normalized_schema_types (SObj k')"
proof -
  have "kw_items k = None \<longleftrightarrow> kw_items k' = None" using same_SObj(6)[OF assms] by auto
  then show ?thesis using same_SObj(1-3)[OF assms] by (simp add: declared_types_def)
qed

lemma json_equal_right: "json_values_equal c d \<Longrightarrow> wf_val c \<Longrightarrow> wf_val d \<Longrightarrow> json_values_equal v c = json_values_equal v d"
  using json_equal_trans json_equal_sym by blast

lemma same_literals:
  assumes "same (SObj k) (SObj k')" "shape_level k" "shape_level k'"
  shows "literals_ok v k = literals_ok v k'"
proof -
  have const: "(\<forall>c. kw_const k = Some c \<longrightarrow> json_values_equal v c) = (\<forall>c. kw_const k' = Some c \<longrightarrow> json_values_equal v c)"
    using same_SObj(8)[OF assms] assms(2,3) json_equal_right[of _ _ v]
    by (cases "kw_const k"; cases "kw_const k'") (auto simp: shape_level_def)
  have "json_value_in v cs = json_value_in v cs'"
    if "list_all2 json_values_equal cs cs'" "list_all wf_val cs" "list_all wf_val cs'" for cs cs'
    using that by (induction cs cs' rule: list_all2_induct) (auto simp: json_value_in_def json_equal_right)
  then have "(\<forall>cs. kw_enum k = Some cs \<longrightarrow> json_value_in v cs) = (\<forall>cs. kw_enum k' = Some cs \<longrightarrow> json_value_in v cs)"
    using same_SObj(7)[OF assms] assms(2,3) by (cases "kw_enum k"; cases "kw_enum k'") (auto simp: shape_level_def)
  with const show ?thesis by (simp add: literals_ok_def)
qed

lemma list_all2_opt: "rel_option (list_all2 R) x y \<Longrightarrow> list_all2 R (opt_list x) (opt_list y)"
  by (cases x; cases y) auto

lemma same_all: "list_all2 (\<lambda>b c. P b = P c) xs ys \<Longrightarrow> (\<forall>b \<in> set xs. P b) = (\<forall>b \<in> set ys. P b)"
  by (induction rule: list_all2_induct) auto

lemma same_ex: "list_all2 (\<lambda>b c. P b = P c) xs ys \<Longrightarrow> (\<exists>b \<in> set xs. P b) = (\<exists>b \<in> set ys. P b)"
  by (induction rule: list_all2_induct) auto

lemma same_filter: "list_all2 (\<lambda>b c. P b = P c) xs ys \<Longrightarrow> length (filter P xs) = length (filter P ys)"
  by (induction rule: list_all2_induct) auto

lemma same_children:
  assumes sm: "same (SObj k) (SObj k')" and oks: "shape_ok (SObj k)" "shape_ok (SObj k')"
    and IH: "\<And>c s t. size c < size v \<Longrightarrow> same s t \<Longrightarrow> shape_ok s \<Longrightarrow> shape_ok t \<Longrightarrow> accepts c s = accepts c t"
  shows "children_ok v k = children_ok v k'"
proof -
  note lv = shape_ok_subs(7)[OF oks(1)] shape_ok_subs(7)[OF oks(2)]
  show ?thesis
  proof (cases v)
    case (PList xs)
    have "accepts x (item_contract k) = accepts x (item_contract k')" if "x \<in> set xs" for x
      using IH[OF _ same_item[OF sm lv]] shape_ok_item[OF oks(1)] shape_ok_item[OF oks(2)] size_list_item[OF that]
      by (simp add: PList del: pyval.size)
    then show ?thesis by (simp add: PList children_ok_def)
  next
    case (PDict kvs)
    have "member_ok k (key, c) = member_ok k' (key, c)" if kc: "(key, c) \<in> set kvs" for key c
    proof (cases key)
      case (KStr n)
      have sz: "size c < size v" using size_dict_item[OF kc] by (simp add: PDict del: pyval.size)
      from same_member[OF sm lv, of n] show ?thesis
      proof (cases "member_contract k n")
        case (Some s)
        with same_member[OF sm lv, of n] obtain t where t: "member_contract k' n = Some t" "same s t"
          by (cases "member_contract k' n") auto
        from IH[OF sz t(2)] shape_ok_member[OF oks(1) Some] shape_ok_member[OF oks(2) t(1)]
        show ?thesis by (simp add: member_ok_def KStr Some t(1))
      qed (auto simp: member_ok_def KStr)
    qed (simp add: member_ok_def)
    then show ?thesis using same_SObj(2)[OF sm lv] by (auto simp: PDict children_ok_def)
  qed (simp_all add: children_ok_def)
qed

lemma shape_branch:
  assumes "shape_ok (SObj k)"
  shows "b \<in> set (opt_list (kw_any k)) \<Longrightarrow> b \<in> set_kws k \<and> shape_ok b"
    "b \<in> set (opt_list (kw_one k)) \<Longrightarrow> b \<in> set_kws k \<and> shape_ok b"
    "b \<in> set (opt_list (kw_all k)) \<Longrightarrow> b \<in> set_kws k \<and> shape_ok b"
  using shape_ok_subs(4-6)[OF assms] kws_opt_members(2-4)[of b k] by blast+

lemma same_accepts:
  "same s t \<Longrightarrow> shape_ok s \<Longrightarrow> shape_ok t \<Longrightarrow> accepts v s = accepts v t"
proof (induction v s arbitrary: t rule: value_schema_induct)
  case (1 v s)
  show ?case
  proof (cases s)
    case (SObj k)
    with "1.prems"(1) obtain k' where t: "t = SObj k'" by (cases t) (auto simp: same_kind)
    note oks = "1.prems"(2)[unfolded SObj] "1.prems"(3)[unfolded t]
    note lv = shape_ok_subs(7)[OF oks(1)] shape_ok_subs(7)[OF oks(2)]
    note sm = "1.prems"(1)[unfolded SObj t]
    note P = same_SObj[OF sm lv]
    have br: "list_all2 (\<lambda>b c. accepts v b = accepts v c) bs cs"
      if "list_all2 same bs cs" "\<And>b. b \<in> set bs \<Longrightarrow> b \<in> set_kws k \<and> shape_ok b" "\<And>c. c \<in> set cs \<Longrightarrow> shape_ok c" for bs cs
    proof (rule list.rel_mono_strong[OF that(1)])
      fix b c assume "b \<in> set bs" "c \<in> set cs" "same b c"
      moreover from this that(2) have "size b < size s" using size_kws_mem[of b k] by (simp add: SObj del: schema.size)
      ultimately show "accepts v b = accepts v c" using "1.IH"(2)[of b c] that(2,3) by blast
    qed
    have all: "list_all2 (\<lambda>b c. accepts v b = accepts v c) (opt_list (kw_all k)) (opt_list (kw_all k'))"
      by (rule br[OF list_all2_opt[OF P(11)]])
        (erule shape_branch(3)[OF oks(1)], erule shape_branch(3)[OF oks(2), THEN conjunct2])
    have any: "list_all2 (\<lambda>b c. accepts v b = accepts v c) (opt_list (kw_any k)) (opt_list (kw_any k'))"
      by (rule br[OF list_all2_opt[OF P(9)]])
        (erule shape_branch(1)[OF oks(1)], erule shape_branch(1)[OF oks(2), THEN conjunct2])
    have one: "list_all2 (\<lambda>b c. accepts v b = accepts v c) (opt_list (kw_one k)) (opt_list (kw_one k'))"
      by (rule br[OF list_all2_opt[OF P(10)]])
        (erule shape_branch(2)[OF oks(1)], erule shape_branch(2)[OF oks(2), THEN conjunct2])
    have "branches_ok v k = branches_ok v k'"
    proof -
      have "opt_list (kw_any k) = [] \<longleftrightarrow> opt_list (kw_any k') = []" "opt_list (kw_one k) = [] \<longleftrightarrow> opt_list (kw_one k') = []"
        using any one by auto
      then show ?thesis
        unfolding branches_ok_def same_all[OF all] same_ex[OF any] same_filter[OF one] by simp
    qed
    moreover have "types_ok v k = types_ok v k'"
      using same_types[OF sm lv] by (simp add: types_ok_def)
    moreover have "children_ok v k = children_ok v k'"
      by (rule same_children[OF sm oks]) (use "1.IH"(1) in blast)
    ultimately show ?thesis
      using same_literals[OF sm lv, of v] by (simp add: SObj t accepts_SObj)
  qed (use "1.prems" in \<open>auto simp: same_kind\<close>)
qed

end
