(* ===== verification/Compatibility_Soundness.thy ===== *)
theory Compatibility_Soundness
  imports Schema_Semantics
begin

section \<open>Compatibility proofs are sound\<close>

text \<open>
  The docstring of \<open>normalized_schemas_compatible\<close> promises that it cannot approve a producer
  value that the consumer rejects. The locale \<open>contract_semantics\<close> states what the prover
  relies on about acceptance; inside it every function of the prover is shown sound, and the
  interpretation on the validator's acceptance discharges the laws.
\<close>

subsection \<open>The interface of acceptance\<close>

text \<open>The contract of a member as the prover reads it: \<open>True\<close> allows every JSON value.\<close>

definition acc_prop :: "(pyval \<Rightarrow> schema \<Rightarrow> bool) \<Rightarrow> pyval \<Rightarrow> schema \<Rightarrow> bool" where
  "acc_prop acc v p \<longleftrightarrow> (if p = STrue then exact_json v else acc v p)"

definition meets :: "(pyval \<Rightarrow> schema \<Rightarrow> bool) \<Rightarrow> pyval \<Rightarrow> source_ctx \<Rightarrow> bool" where
  "meets acc v ctx \<longleftrightarrow> (\<forall>a \<in> set (fst ctx). acc v a) \<and> (\<forall>(kw, bs) \<in> set (snd ctx). acc v (union_schema kw bs))"

fun union_ok :: "union_kw \<times> schema list \<Rightarrow> bool" where
  "union_ok (kw, bs) \<longleftrightarrow> bs \<noteq> [] \<and> (\<forall>b \<in> set bs. part_ok b)"

definition ctx_ok :: "source_ctx \<Rightarrow> bool" where
  "ctx_ok ctx \<longleftrightarrow> fst ctx \<noteq> [] \<and> list_all (\<lambda>a. part_ok a) (fst ctx) \<and> list_all union_ok (snd ctx)"

lemma list_all_concat: "list_all P (concat xss) = list_all (list_all P) xss"
  by (induction xss) auto

text \<open>A target atom has no composition keyword left.\<close>

fun plain_atom :: "schema \<Rightarrow> bool" where
  "plain_atom (SObj k) \<longleftrightarrow> kw_any k = None \<and> kw_one k = None \<and> kw_all k = None"
| "plain_atom SFalse \<longleftrightarrow> True"
| "plain_atom STrue \<longleftrightarrow> False"

lemma base_parts [simp]:
  "additional_contract (schema_base k) = additional_contract k" "property_contract (schema_base k) = property_contract k"
  "item_contract (schema_base k) = item_contract k" "literals_ok v (schema_base k) = literals_ok v k"
  "normalized_schema_types (SObj (schema_base k)) = normalized_schema_types (SObj k)"
  "types_ok v (schema_base k) = types_ok v k"
  by (auto simp: fun_eq_iff additional_contract_def property_contract_def item_contract_def literals_ok_def
      types_ok_def declared_types_def split: option.splits)

lemma with_type_parts [simp]:
  "additional_contract (with_type t k) = additional_contract k" "property_contract (with_type t k) = property_contract k"
  "item_contract (with_type t k) = item_contract k" "literals_ok v (with_type t k) = literals_ok v k"
  by (auto simp: fun_eq_iff additional_contract_def property_contract_def item_contract_def literals_ok_def
      split: option.splits)

lemma own_unions_mem:
  "(kw, bs) \<in> set (own_unions k) \<longleftrightarrow> (kw = AnyOf \<and> kw_any k = Some bs) \<or> (kw = OneOf \<and> kw_one k = Some bs)"
  by (cases "kw_any k"; cases "kw_one k") (auto simp: own_unions_def)

locale contract_semantics =
  fixes acc :: "pyval \<Rightarrow> schema \<Rightarrow> bool"
  assumes check_decides: "part_ok s \<Longrightarrow> schema_accepts_normalized_value s v = Inr (acc v s)"
    and acc_same: "json_values_equal (schema_to_py s) (schema_to_py t) \<Longrightarrow> shape_ok s \<Longrightarrow> shape_ok t \<Longrightarrow> acc v s = acc v t"
    and acc_literal: "json_values_equal v w \<Longrightarrow> wf_val v \<Longrightarrow> wf_val w \<Longrightarrow> acc v s = acc w s"
    and acc_exact: "part_ok s \<Longrightarrow> acc v s \<Longrightarrow> exact_json v"
    and acc_False: "\<not> acc v SFalse"
    and acc_any: "acc v any_schema \<longleftrightarrow> exact_json v"
    and acc_obj: "shape_ok (SObj k) \<Longrightarrow> acc v (SObj k) \<longleftrightarrow> \<not> non_json v \<and> types_ok v k \<and> literals_ok v k \<and>
      (\<forall>b \<in> set (opt_list (kw_all k)). acc v b) \<and>
      (\<forall>bs. kw_any k = Some bs \<longrightarrow> (\<exists>b \<in> set bs. acc v b)) \<and>
      (\<forall>bs. kw_one k = Some bs \<longrightarrow> length (filter (acc v) bs) = 1) \<and>
      (\<forall>kvs. v = PDict kvs \<longrightarrow> (\<forall>name \<in> set (opt_list (kw_required k)). KStr name \<in> set (keys_of kvs)) \<and>
        (\<forall>(key, c) \<in> set kvs. \<exists>n. key = KStr n \<and> acc_prop acc c (property_contract k n))) \<and>
      (\<forall>xs. v = PList xs \<longrightarrow> (\<forall>x \<in> set xs. acc x (item_contract k)))"
begin

lemma acc_objD:
  assumes "acc v (SObj k)" "shape_ok (SObj k)"
  shows "\<not> non_json v" "types_ok v k" "literals_ok v k"
    "b \<in> set (opt_list (kw_all k)) \<Longrightarrow> acc v b"
    "kw_any k = Some bs \<Longrightarrow> \<exists>b \<in> set bs. acc v b"
    "kw_one k = Some bs \<Longrightarrow> length (filter (acc v) bs) = 1"
    "v = PDict kvs \<Longrightarrow> name \<in> set (opt_list (kw_required k)) \<Longrightarrow> KStr name \<in> set (keys_of kvs)"
    "v = PDict kvs \<Longrightarrow> (key, c) \<in> set kvs \<Longrightarrow> \<exists>n. key = KStr n \<and> acc_prop acc c (property_contract k n)"
    "v = PList xs \<Longrightarrow> x \<in> set xs \<Longrightarrow> acc x (item_contract k)"
proof -
  note D = iffD1[OF acc_obj[OF assms(2)] assms(1)]
  show "\<not> non_json v" "types_ok v k" "literals_ok v k" by (insert D) (elim conjE, assumption)+
  have A: "\<forall>b \<in> set (opt_list (kw_all k)). acc v b" "\<forall>bs. kw_any k = Some bs \<longrightarrow> (\<exists>b \<in> set bs. acc v b)"
    "\<forall>bs. kw_one k = Some bs \<longrightarrow> length (filter (acc v) bs) = 1" by (insert D) (elim conjE, assumption)+
  have B: "\<forall>kvs. v = PDict kvs \<longrightarrow> (\<forall>name \<in> set (opt_list (kw_required k)). KStr name \<in> set (keys_of kvs)) \<and>
        (\<forall>(key, c) \<in> set kvs. \<exists>n. key = KStr n \<and> acc_prop acc c (property_contract k n))"
    "\<forall>xs. v = PList xs \<longrightarrow> (\<forall>x \<in> set xs. acc x (item_contract k))" by (insert D) (elim conjE, assumption)+
  show "b \<in> set (opt_list (kw_all k)) \<Longrightarrow> acc v b" using A(1) by blast
  show "kw_any k = Some bs \<Longrightarrow> \<exists>b \<in> set bs. acc v b" using A(2) by blast
  show "kw_one k = Some bs \<Longrightarrow> length (filter (acc v) bs) = 1" using A(3) by blast
  show "v = PDict kvs \<Longrightarrow> name \<in> set (opt_list (kw_required k)) \<Longrightarrow> KStr name \<in> set (keys_of kvs)"
    using B(1) by blast
  show "v = PDict kvs \<Longrightarrow> (key, c) \<in> set kvs \<Longrightarrow> \<exists>n. key = KStr n \<and> acc_prop acc c (property_contract k n)"
    using B(1) by fast
  show "v = PList xs \<Longrightarrow> x \<in> set xs \<Longrightarrow> acc x (item_contract k)" using B(2) by blast
qed

lemma one_some: "length (filter P bs) = 1 \<Longrightarrow> \<exists>b \<in> set bs. P b"
  by (metis filter_False length_0_conv zero_neq_one)

lemma acc_oneD: "acc v (SObj k) \<Longrightarrow> shape_ok (SObj k) \<Longrightarrow> kw_one k = Some bs \<Longrightarrow> \<exists>b \<in> set bs. acc v b"
  using one_some[OF acc_objD(6)] by blast

lemma acc_unionsD: "acc v (SObj k) \<Longrightarrow> shape_ok (SObj k) \<Longrightarrow> union_branches k = Some bs \<Longrightarrow> \<exists>b \<in> set bs. acc v b"
  using acc_objD(5)[of v k bs] acc_oneD[of v k bs] by (auto simp: union_branches_def split: option.splits)

lemma acc_constD: "acc v (SObj k) \<Longrightarrow> shape_ok (SObj k) \<Longrightarrow> kw_const k = Some c \<Longrightarrow> json_values_equal v c \<and> wf_val c"
  using acc_objD(3)[of v k] shape_ok_subs(7)[of k] by (auto simp: literals_ok_def shape_level_def)

lemma acc_enumD:
  "acc v (SObj k) \<Longrightarrow> shape_ok (SObj k) \<Longrightarrow> kw_enum k = Some cs \<Longrightarrow> \<exists>c \<in> set cs. json_values_equal v c \<and> wf_val c"
  using acc_objD(3)[of v k] shape_ok_subs(7)[of k]
  by (auto simp: literals_ok_def shape_level_def json_value_in_def list_ex_iff list_all_iff)

subsubsection \<open>Contexts\<close>

lemma union_schema_ok: "bs \<noteq> [] \<Longrightarrow> (\<And>b. b \<in> set bs \<Longrightarrow> part_ok b) \<Longrightarrow> part_ok (union_schema kw bs)"
  by (cases kw) (auto simp: shape_ok.simps shape_level_def list_all_iff)

lemma acc_union:
  assumes "part_ok (union_schema kw bs)"
  shows "acc v (union_schema kw bs) \<longleftrightarrow> exact_json v \<and>
    (case kw of AnyOf \<Rightarrow> \<exists>b \<in> set bs. acc v b | OneOf \<Rightarrow> length (filter (acc v) bs) = 1)"
proof -
  have main: "acc v (SObj k) \<longleftrightarrow> exact_json v \<and> (\<forall>bs. kw_any k = Some bs \<longrightarrow> (\<exists>b \<in> set bs. acc v b)) \<and>
      (\<forall>bs. kw_one k = Some bs \<longrightarrow> length (filter (acc v) bs) = 1)"
    if ok: "shape_ok (SObj k)" and k: "k = Kws None None None None None None None x y None []" for k x y
  proof -
    have types: "normalized_schema_types (SObj k) = json_types" by (simp add: k declared_types_def)
    have pc: "property_contract k n = STrue" for n
      by (simp add: k property_contract_def additional_contract_def)
    have item: "item_contract k = any_schema" by (simp add: k item_contract_def)
    have lits: "literals_ok v k" by (simp add: k literals_ok_def)
    have ty: "types_ok v k \<longleftrightarrow> json_type v \<noteq> None"
      unfolding types_ok_def types by (auto simp: type_allowed_any)
    have kk: "opt_list (kw_all k) = []" "opt_list (kw_required k) = []" by (simp_all add: k)
    have ex: "exact_json v \<longleftrightarrow> \<not> non_json v \<and> json_type v \<noteq> None \<and>
        (\<forall>kvs. v = PDict kvs \<longrightarrow> (\<forall>(key, c) \<in> set kvs. \<exists>n. key = KStr n \<and> exact_json c)) \<and>
        (\<forall>xs. v = PList xs \<longrightarrow> (\<forall>x \<in> set xs. exact_json x))"
      by (cases v) (auto simp: list_all_iff)
    show ?thesis
      unfolding acc_obj[OF ok] pc item ty kk acc_any acc_prop_def ex using lits by auto
  qed
  show ?thesis
    using assms main[of _ "Some bs" None] main[of _ None "Some bs"] by (cases kw) auto
qed

lemma acc_base:
  assumes "acc v (SObj k)" "shape_ok (SObj k)"
  shows "acc v (SObj (schema_base k))"
proof -
  have "shape_ok (SObj (schema_base k))"
    using assms(2) by (simp add: shape_ok.simps shape_level_def)
  then show ?thesis
    using assms(1) unfolding acc_obj[OF assms(2)] by (subst acc_obj) simp_all
qed

lemma acc_with_type:
  assumes "acc v (SObj k)" "shape_ok (SObj k)" "kw_type k = Some ts"
  shows "\<exists>t \<in> set ts. acc v (SObj (with_type t k))"
proof -
  have ts: "ts \<noteq> []" using shape_ok_subs(7)[OF assms(2)] assms(3) by (auto simp: shape_level_def)
  from acc_objD(2)[OF assms(1,2)] obtain t0 where t0: "json_type v = Some t0" "type_allowed t0 ts"
    using ts assms(3) by (auto simp: types_ok_def declared_types_def)
  then obtain t where t: "t \<in> set ts" "type_allowed t0 [t]" by (auto simp: type_allowed_def)
  have ok: "shape_ok (SObj (with_type t k))"
    using assms(2) by (simp add: shape_ok.simps shape_level_def)
  have "types_ok v (with_type t k)" using t0(1) t(2) by (simp add: types_ok_def declared_types_def)
  then have "acc v (SObj (with_type t k))"
    using assms(1) unfolding acc_obj[OF assms(2)] acc_obj[OF ok] by (simp del: normalized_schema_types.simps)
  with t(1) show ?thesis by blast
qed

lemma meets_append: "meets acc v (a @ b, u @ w) \<longleftrightarrow> meets acc v (a, u) \<and> meets acc v (b, w)"
  by (auto simp: meets_def)

lemma meets_concat:
  "meets acc v (concat (map fst cs), concat (map snd cs)) \<longleftrightarrow> (\<forall>c \<in> set cs. meets acc v c)"
  by (auto simp: meets_def)

lemma shape_base: "shape_ok (SObj k) \<Longrightarrow> part_ok (SObj (schema_base k))"
  by (simp add: shape_ok.simps shape_level_def)

lemma shape_with_type: "shape_ok (SObj k) \<Longrightarrow> part_ok (SObj (with_type t k))"
  by (simp add: shape_ok.simps shape_level_def)

lemma own_unions_ok:
  assumes ok: "shape_ok (SObj k)" and u: "(kw, bs) \<in> set (own_unions k)"
  shows "bs \<noteq> []" "\<And>b. b \<in> set bs \<Longrightarrow> part_ok b"
proof -
  from u consider "kw_any k = Some bs" | "kw_one k = Some bs" by (auto simp: own_unions_mem)
  then have "bs \<noteq> [] \<and> (\<forall>b \<in> set bs. part_ok b)"
  proof cases
    case 1
    with shape_ok_subs(7)[OF ok] have "bs \<noteq> []" by (auto simp: shape_level_def)
    with shape_ok_subs(4)[OF ok] 1 show ?thesis by simp
  next
    case 2
    with shape_ok_subs(7)[OF ok] have "bs \<noteq> []" by (auto simp: shape_level_def)
    with shape_ok_subs(5)[OF ok] 2 show ?thesis by simp
  qed
  then show "bs \<noteq> []" "\<And>b. b \<in> set bs \<Longrightarrow> part_ok b" by blast+
qed

lemma own_unions_part: "shape_ok (SObj k) \<Longrightarrow> (kw, bs) \<in> set (own_unions k) \<Longrightarrow> part_ok (union_schema kw bs)"
  using own_unions_ok by (intro union_schema_ok)

lemma own_unions_acc:
  assumes ok: "shape_ok (SObj k)" and "exact_json v"
  shows "(\<forall>(kw, bs) \<in> set (own_unions k). acc v (union_schema kw bs)) \<longleftrightarrow>
     (\<forall>bs. kw_any k = Some bs \<longrightarrow> (\<exists>b \<in> set bs. acc v b)) \<and>
     (\<forall>bs. kw_one k = Some bs \<longrightarrow> length (filter (acc v) bs) = 1)"
proof -
  have "acc v (union_schema AnyOf bs) \<longleftrightarrow> (\<exists>b \<in> set bs. acc v b)" if "kw_any k = Some bs" for bs
    using acc_union[OF own_unions_part[OF ok, of AnyOf bs]] assms(2) that by (simp add: own_unions_mem)
  moreover have "acc v (union_schema OneOf bs) \<longleftrightarrow> length (filter (acc v) bs) = 1" if "kw_one k = Some bs" for bs
    using acc_union[OF own_unions_part[OF ok, of OneOf bs]] assms(2) that by (simp add: own_unions_mem)
  moreover have "(\<forall>(kw, bs) \<in> set (own_unions k). acc v (union_schema kw bs)) \<longleftrightarrow>
     (\<forall>bs. kw_any k = Some bs \<longrightarrow> acc v (union_schema AnyOf bs)) \<and>
     (\<forall>bs. kw_one k = Some bs \<longrightarrow> acc v (union_schema OneOf bs))"
    by (auto simp: own_unions_mem simp del: union_schema.simps)
  ultimately show ?thesis by (simp del: union_schema.simps)
qed

lemma own_unions_all_ok: "shape_ok (SObj k) \<Longrightarrow> list_all union_ok (own_unions k)"
  using own_unions_ok[of k] by (fastforce simp: list_all_iff)

lemma typed_union_ok:
  assumes "shape_ok (SObj k)"
  shows "ctx_ok (typed_union k)"
proof -
  have "kw_type k \<noteq> Some []" using shape_ok_subs(7)[OF assms] by (simp add: shape_level_def)
  with shape_base[OF assms] shape_with_type[of "schema_base k"] show ?thesis
    by (auto simp: typed_union_def ctx_ok_def split: option.splits list.splits)
qed

lemma typed_union_sound:
  assumes "acc v (SObj k)" "shape_ok (SObj k)"
  shows "meets acc v (typed_union k)"
proof (cases "\<exists>t u us. kw_type k = Some (t # u # us)")
  case True
  then obtain ts where ts: "kw_type k = Some ts" "typed_union k =
      ([any_schema], [(AnyOf, map (\<lambda>t. SObj (with_type t (schema_base k))) ts)])" "ts \<noteq> []"
    by (auto simp: typed_union_def)
  have ok: "part_ok (union_schema AnyOf (map (\<lambda>t. SObj (with_type t (schema_base k))) ts))"
    using ts(3) shape_with_type shape_base[OF assms(2)] by (intro union_schema_ok) auto
  have ex: "exact_json v" using acc_exact[OF _ assms(1)] assms(2) by simp
  obtain t where "t \<in> set ts" "acc v (SObj (with_type t (schema_base k)))"
    using acc_with_type[OF acc_base[OF assms]] shape_base[OF assms(2)] ts(1) by auto
  then have "acc v (union_schema AnyOf (map (\<lambda>t. SObj (with_type t (schema_base k))) ts))"
    unfolding acc_union[OF ok] using ex by auto
  with ex show ?thesis unfolding ts(2) by (simp add: meets_def acc_any del: union_schema.simps)
next
  case False
  have "kw_type k \<noteq> Some []" using shape_ok_subs(7)[OF assms(2)] by (simp add: shape_level_def)
  with False have "typed_union k = ([SObj (schema_base k)], [])"
    by (auto simp: typed_union_def split: option.splits list.splits)
  with acc_base[OF assms] show ?thesis by (simp add: meets_def)
qed

lemma source_context_ok: "part_ok s \<Longrightarrow> ctx_ok (source_context s)"
proof (induction s rule: measure_induct_rule[of size])
  case (less s)
  show ?case
  proof (cases s)
    case (SObj k)
    note ok = less.prems[unfolded SObj, THEN conjunct2]
    have inner: "ctx_ok (source_context b)" if "b \<in> set (opt_list (kw_all k))" for b
      using less.IH[of b] size_sub_opt(4)[OF that] shape_ok_subs(6)[OF ok that] by (simp add: SObj del: schema.size)
    then have "list_all (\<lambda>b. list_all (\<lambda>a. part_ok a) (fst (source_context b)) \<and>
        list_all union_ok (snd (source_context b))) (opt_list (kw_all k))"
      by (simp add: list_all_iff[of _ "opt_list (kw_all k)"] ctx_ok_def)
    with typed_union_ok[OF ok] own_unions_all_ok[OF ok] show ?thesis
      by (simp add: SObj source_context.simps Let_def ctx_ok_def list_all_concat list.pred_map comp_def list.pred_mono_strong)
  qed (use less.prems in \<open>auto simp: ctx_ok_def\<close>)
qed

lemma source_context_sound: "part_ok s \<Longrightarrow> acc v s \<Longrightarrow> meets acc v (source_context s)"
proof (induction s rule: measure_induct_rule[of size])
  case (less s)
  show ?case
  proof (cases s)
    case (SObj k)
    note ok = less.prems(1)[unfolded SObj, THEN conjunct2] and a = less.prems(2)[unfolded SObj]
    have inner: "meets acc v (source_context b)" if "b \<in> set (opt_list (kw_all k))" for b
      using less.IH[of b] size_sub_opt(4)[OF that] shape_ok_subs(6)[OF ok that] acc_objD(4)[OF a ok that]
      by (simp add: SObj del: schema.size)
    have ex: "exact_json v" using acc_exact[OF less.prems] .
    have own: "meets acc v ([], own_unions k)"
      using own_unions_acc[OF ok ex] acc_objD(5,6)[OF a ok] by (simp add: meets_def del: union_schema.simps)
    have "meets acc v (concat (map fst (map source_context (opt_list (kw_all k)))) @ [],
        concat (map snd (map source_context (opt_list (kw_all k)))) @ own_unions k)"
      unfolding meets_append meets_concat using inner own by auto
    with typed_union_sound[OF a ok] show ?thesis
      unfolding SObj source_context.simps Let_def meets_append append_Nil2 prod.collapse by blast
  qed (use less.prems acc_False in auto)
qed

lemma target_context_ok: "part_ok t \<Longrightarrow> ctx_ok (target_context t) \<and> (\<forall>a \<in> set (fst (target_context t)). plain_atom a)"
proof (induction t rule: measure_induct_rule[of size])
  case (less t)
  show ?case
  proof (cases t)
    case (SObj k)
    note ok = less.prems[unfolded SObj, THEN conjunct2]
    have inner: "ctx_ok (target_context b) \<and> (\<forall>a \<in> set (fst (target_context b)). plain_atom a)" if "b \<in> set (opt_list (kw_all k))" for b
      using less.IH[of b] size_sub_opt(4)[OF that] shape_ok_subs(6)[OF ok that] by (simp add: SObj del: schema.size)
    then have "list_all (\<lambda>b. list_all (\<lambda>a. part_ok a) (fst (target_context b)) \<and>
        list_all union_ok (snd (target_context b))) (opt_list (kw_all k))"
      by (simp add: list_all_iff[of _ "opt_list (kw_all k)"] ctx_ok_def)
    with shape_base[OF ok] own_unions_all_ok[OF ok] inner show ?thesis
      by (auto simp: SObj target_context.simps Let_def ctx_ok_def list_all_concat list.pred_map comp_def list.pred_mono_strong)
  qed (use less.prems in \<open>auto simp: ctx_ok_def\<close>)
qed

lemma target_context_complete: "part_ok t \<Longrightarrow> meets acc v (target_context t) \<Longrightarrow> acc v t"
proof (induction t rule: measure_induct_rule[of size])
  case (less t)
  show ?case
  proof (cases t)
    case (SObj k)
    note ok = less.prems(1)[unfolded SObj, THEN conjunct2]
    have M: "acc v (SObj (schema_base k))" "\<And>b. b \<in> set (opt_list (kw_all k)) \<Longrightarrow> meets acc v (target_context b)"
        "\<forall>(kw, bs) \<in> set (own_unions k). acc v (union_schema kw bs)"
      using less.prems(2) unfolding SObj target_context.simps Let_def
      by (auto simp: meets_def simp del: union_schema.simps)
    have all: "acc v b" if "b \<in> set (opt_list (kw_all k))" for b
      using less.IH[of b] size_sub_opt(4)[OF that] shape_ok_subs(6)[OF ok that] M(2)[OF that]
      by (simp add: SObj del: schema.size)
    note base = shape_base[OF ok]
    have ex: "exact_json v" using acc_exact[OF base M(1)] .
    show ?thesis
      using M(1) all own_unions_acc[OF ok ex] M(3) unfolding SObj acc_obj[OF ok] acc_obj[OF base[THEN conjunct2]]
      by (simp del: union_schema.simps normalized_schema_types.simps)
  qed (use less.prems acc_False in \<open>auto simp: meets_def\<close>)
qed

subsubsection \<open>Literals and disjointness\<close>

lemma ctx_ok_unions: "ctx_ok ctx \<Longrightarrow> (kw, bs) \<in> set (snd ctx) \<Longrightarrow> union_ok (kw, bs)"
  unfolding ctx_ok_def list_all_iff by blast

lemma meets_unionD:
  assumes "meets acc v ctx" "ctx_ok ctx" "(kw, bs) \<in> set (snd ctx)"
  shows "acc v (union_schema kw bs)" "part_ok (union_schema kw bs)" "\<exists>b \<in> set bs. acc v b"
proof -
  show acc: "acc v (union_schema kw bs)" using assms(1,3) by (auto simp: meets_def simp del: union_schema.simps)
  have "union_ok (kw, bs)" using ctx_ok_unions[OF assms(2,3)] .
  then show ok: "part_ok (union_schema kw bs)" by (intro union_schema_ok) auto
  from acc[unfolded acc_union[OF ok]] show "\<exists>b \<in> set bs. acc v b"
    using one_some[of "acc v" bs] by (cases kw) auto
qed

lemma ctx_ok_atoms: "ctx_ok ctx \<Longrightarrow> a \<in> set (fst ctx) \<Longrightarrow> part_ok a"
  by (simp add: ctx_ok_def list_all_iff)

lemma meets_exact: "ctx_ok ctx \<Longrightarrow> meets acc v ctx \<Longrightarrow> exact_json v"
proof -
  assume ok: "ctx_ok ctx" and m: "meets acc v ctx"
  from ok obtain a where a: "a \<in> set (fst ctx)" unfolding ctx_ok_def by (meson list.set_sel(1))
  with m have "acc v a" by (simp add: meets_def)
  then show ?thesis by (rule acc_exact[OF ctx_ok_atoms[OF ok a]])
qed

lemma meets_branch:
  assumes "meets acc v ctx" "ctx_ok ctx" "(kw, bs) \<in> set (snd ctx)"
  shows "\<exists>b \<in> set bs. meets acc v (context_with_branch (fst ctx) b)"
proof -
  from meets_unionD(3)[OF assms] obtain b where b: "b \<in> set bs" "acc v b" by blast
  have "union_ok (kw, bs)" using ctx_ok_unions[OF assms(2,3)] .
  with b have "meets acc v (source_context b)" by (intro source_context_sound) auto
  with b assms(1) show ?thesis by (auto simp: context_with_branch_def meets_def)
qed

lemma branch_ok:
  assumes "ctx_ok ctx" "(kw, bs) \<in> set (snd ctx)" "b \<in> set bs"
  shows "ctx_ok (context_with_branch (fst ctx) b)"
proof -
  have "union_ok (kw, bs)" using ctx_ok_unions[OF assms(1,2)] .
  with assms(3) have "ctx_ok (source_context b)" by (intro source_context_ok) auto
  with assms(1) show ?thesis by (auto simp: context_with_branch_def ctx_ok_def)
qed

lemma filter_r_decided: "(\<And>x. f x = Inr (P x)) \<Longrightarrow> filter_r f xs = Inr (filter P xs)"
  by (induction xs) auto

lemma all_r_decided: "(\<And>x. x \<in> set xs \<Longrightarrow> f x = Inr (P x)) \<Longrightarrow> all_r f xs = Inr (\<forall>x \<in> set xs. P x)"
  by (induction xs) auto

lemma first_literals_mem:
  assumes "first_literals atoms = Some cs" "\<forall>a \<in> set atoms. part_ok a \<and> acc v a"
  shows "\<exists>c \<in> set cs. json_values_equal v c \<and> wf_val c"
  using assms
proof (induction atoms rule: first_literals.induct)
  case (4 k atoms)
  then have a: "acc v (SObj k)" "shape_ok (SObj k)" by auto
  show ?case
  proof (cases "kw_const k")
    case (Some c)
    with 4 acc_constD[OF a Some] show ?thesis by auto
  next
    case None
    show ?thesis
    proof (cases "kw_enum k")
      case None
      with \<open>kw_const k = None\<close> 4 show ?thesis by simp
    next
      case (Some es)
      with \<open>kw_const k = None\<close> 4 acc_enumD[OF a Some] show ?thesis by auto
    qed
  qed
qed (use acc_False in auto)

lemma literals_sound:
  assumes lit: "source_context_literals ctx = Inr (Some cs)" and ok: "ctx_ok ctx"
    and m: "meets acc v ctx" and wf: "wf_val v"
  shows "\<exists>c \<in> set cs. json_values_equal v c \<and> wf_val c"
proof -
  let ?keep = "\<lambda>c. meets acc c ctx"
  have atoms: "\<forall>a \<in> set (fst ctx). part_ok a \<and> acc v a" using ctx_ok_atoms[OF ok] m by (auto simp: meets_def)
  have dec: "and_r (all_r (\<lambda>s. schema_accepts_normalized_value s c) (fst ctx))
      (all_r (\<lambda>(kw, bs). schema_accepts_normalized_value (union_schema kw bs) c) (snd ctx)) = Inr (?keep c)" for c
  proof -
    have "all_r (\<lambda>s. schema_accepts_normalized_value s c) (fst ctx) = Inr (\<forall>a \<in> set (fst ctx). acc c a)"
      by (rule all_r_decided) (rule check_decides[OF ctx_ok_atoms[OF ok]])
    moreover have "all_r (\<lambda>(kw, bs). schema_accepts_normalized_value (union_schema kw bs) c) (snd ctx) =
        Inr (\<forall>(kw, bs) \<in> set (snd ctx). acc c (union_schema kw bs))"
      using check_decides[OF meets_unionD(2)[OF m ok]] by (intro all_r_decided) auto
    ultimately show ?thesis by (simp add: and_r_def meets_def)
  qed
  from lit obtain cands where c: "first_literals (fst ctx) = Some cands" "cs = filter ?keep cands"
    unfolding source_context_literals_def filter_r_decided[OF dec] by (auto split: option.splits)
  from first_literals_mem[OF c(1) atoms] obtain e where e: "e \<in> set cands" "json_values_equal v e" "wf_val e" by blast
  have "meets acc e ctx" using m acc_literal[OF e(2) wf e(3)] by (simp add: meets_def)
  with e c(2) show ?thesis by auto
qed

lemma not_accepted:
  "not_r (schema_accepts_normalized_value s c) = Inr True \<Longrightarrow> part_ok s \<Longrightarrow> \<not> acc c s"
  by (simp add: not_r_True check_decides)

lemma types_overlap:
  assumes "types_ok v lk" "types_ok v rk"
  shows "\<exists>p \<in> set (overlapping_type_pairs lk rk). p = (JObject, JObject) \<longrightarrow> json_type v = Some JObject"
proof -
  from assms obtain t where t: "json_type v = Some t" "type_allowed t (normalized_schema_types (SObj lk))"
      "type_allowed t (normalized_schema_types (SObj rk))" by (auto simp: types_ok_def)
  then obtain a b where a: "a \<in> set (normalized_schema_types (SObj lk))" "a = t \<or> t = JInteger \<and> a = JNumber"
      and b: "b \<in> set (normalized_schema_types (SObj rk))" "b = t \<or> t = JInteger \<and> b = JNumber"
    unfolding type_allowed_def by blast
  then have "(a, b) \<in> set (overlapping_type_pairs lk rk)"
    by (auto simp: overlapping_type_pairs_def simp del: normalized_schema_types.simps)
  moreover have "(a, b) = (JObject, JObject) \<longrightarrow> json_type v = Some JObject" using a b t(1) by auto
  ultimately show ?thesis by blast
qed

lemma required_closed_sound:
  assumes "required_closed lk rk" "acc (PDict kvs) (SObj lk)" "acc (PDict kvs) (SObj rk)"
    "shape_ok (SObj lk)" "shape_ok (SObj rk)"
  shows False
proof -
  from assms(1) obtain n where n: "n \<in> set (opt_list (kw_required lk))" "n \<notin> set (keys_of (opt_list (kw_props rk)))"
      "additional_contract rk = SFalse" by (auto simp: required_closed_def list_ex_iff)
  from acc_objD(7)[OF assms(2,4) refl n(1)] obtain c where c: "(KStr n, c) \<in> set kvs" by force
  have "property_contract rk n = SFalse"
    using n(2,3) by (simp add: property_contract_def map_of_eq_None_iff[symmetric])
  with acc_objD(8)[OF assms(3,5) refl c] acc_False show False by (auto simp: acc_prop_def)
qed

lemma property_ok: "shape_ok (SObj k) \<Longrightarrow> shape_ok (property_contract k n)"
  using shape_ok_prop[of k n "property_contract k n"] shape_ok_subs(2)[of k "additional_contract k"]
  by (cases "map_of (opt_list (kw_props k)) n"; cases "kw_additional k")
    (auto simp: property_contract_def additional_contract_def)

lemma disjoint_objects:
  assumes "any_r (\<lambda>name.
           if property_contract lk name = SFalse \<or> property_contract rk name = SFalse then Inr True
           else if property_contract lk name = STrue \<or> property_contract rk name = STrue then Inr False
           else d (property_contract lk name) (property_contract rk name))
         (filter (\<lambda>name. name \<in> set (opt_list (kw_required rk))) (opt_list (kw_required lk))) = Inr True"
    and acc: "acc (PDict kvs) (SObj lk)" "acc (PDict kvs) (SObj rk)" and ok: "shape_ok (SObj lk)" "shape_ok (SObj rk)"
    and wf: "wf_val (PDict kvs)"
    and d: "\<And>n c. part_ok (property_contract lk n) \<Longrightarrow> part_ok (property_contract rk n) \<Longrightarrow> wf_val c \<Longrightarrow>
      d (property_contract lk n) (property_contract rk n) = Inr True \<Longrightarrow>
      \<not> (acc c (property_contract lk n) \<and> acc c (property_contract rk n))"
  shows False
proof -
  from any_r_TrueD[OF assms(1)] obtain n where n: "n \<in> set (opt_list (kw_required lk))"
      and hit: "property_contract lk n = SFalse \<or> property_contract rk n = SFalse \<or>
        property_contract lk n \<noteq> STrue \<and> property_contract rk n \<noteq> STrue \<and>
        d (property_contract lk n) (property_contract rk n) = Inr True"
    by (auto split: if_splits)
  from acc_objD(7)[OF acc(1) ok(1) refl n] obtain c where c: "(KStr n, c) \<in> set kvs" by force
  have "acc_prop acc c (property_contract lk n)" "acc_prop acc c (property_contract rk n)"
    using acc_objD(8)[OF acc(1) ok(1) refl c] acc_objD(8)[OF acc(2) ok(2) refl c] by auto
  with hit d[of n c] property_ok[OF ok(1), of n] property_ok[OF ok(2), of n] wf_val_item[OF wf c] acc_False
  show False by (auto simp: acc_prop_def split: if_splits)
qed

lemma union_branches_ok: "shape_ok (SObj k) \<Longrightarrow> union_branches k = Some bs \<Longrightarrow> b \<in> set bs \<Longrightarrow> part_ok b"
  using shape_ok_subs(4)[of k b] shape_ok_subs(5)[of k b] by (auto simp: union_branches_def split: option.splits)

lemma disjoint_cases:
  assumes "normalized_schemas_disjoint (SObj lk) (SObj rk) = Inr True"
  obtains (const_l) c where "kw_const lk = Some c" "not_r (schema_accepts_normalized_value (SObj rk) c) = Inr True"
    | (const_r) c where "kw_const rk = Some c" "not_r (schema_accepts_normalized_value (SObj lk) c) = Inr True"
    | (enum_l) cs where "kw_enum lk = Some cs" "all_r (\<lambda>v. not_r (schema_accepts_normalized_value (SObj rk) v)) cs = Inr True"
    | (enum_r) cs where "kw_enum rk = Some cs" "all_r (\<lambda>v. not_r (schema_accepts_normalized_value (SObj lk) v)) cs = Inr True"
    | (union_l) bs where "union_branches lk = Some bs" "all_r (\<lambda>b. normalized_schemas_disjoint b (SObj rk)) bs = Inr True"
    | (union_r) bs where "union_branches rk = Some bs" "all_r (\<lambda>b. normalized_schemas_disjoint (SObj lk) b) bs = Inr True"
    | (all_l) b where "b \<in> set (opt_list (kw_all lk))" "normalized_schemas_disjoint b (SObj rk) = Inr True"
    | (all_r) b where "b \<in> set (opt_list (kw_all rk))" "normalized_schemas_disjoint (SObj lk) b = Inr True"
    | (types) "overlapping_type_pairs lk rk = []"
    | (objects) "list_all (\<lambda>p. p = (JObject, JObject)) (overlapping_type_pairs lk rk)"
        "any_r (\<lambda>name.
           if property_contract lk name = SFalse \<or> property_contract rk name = SFalse then Inr True
           else if property_contract lk name = STrue \<or> property_contract rk name = STrue then Inr False
           else normalized_schemas_disjoint (property_contract lk name) (property_contract rk name))
         (filter (\<lambda>name. name \<in> set (opt_list (kw_required rk))) (opt_list (kw_required lk))) = Inr True"
    | (closed) "list_all (\<lambda>p. p = (JObject, JObject)) (overlapping_type_pairs lk rk)"
        "required_closed lk rk \<or> required_closed rk lk"
proof -
  note D = assms[unfolded normalized_schemas_disjoint.simps(4)]
  show ?thesis
  proof (cases "kw_const lk = None \<and> kw_const rk = None \<and> kw_enum lk = None \<and> kw_enum rk = None \<and>
      union_branches lk = None \<and> union_branches rk = None")
    case False
    then show ?thesis
      using D const_l const_r enum_l enum_r union_l union_r by (auto split: option.splits if_splits)
  next
    case True
    with D have "or_r (any_r (\<lambda>b. normalized_schemas_disjoint b (SObj rk)) (opt_list (kw_all lk)))
      (or_r (any_r (\<lambda>b. normalized_schemas_disjoint (SObj lk) b) (opt_list (kw_all rk)))
      (if overlapping_type_pairs lk rk = [] then Inr True
       else if \<not> list_all (\<lambda>p. p = (JObject, JObject)) (overlapping_type_pairs lk rk) then Inr False
       else
       or_r (any_r (\<lambda>name.
           if property_contract lk name = SFalse \<or> property_contract rk name = SFalse then Inr True
           else if property_contract lk name = STrue \<or> property_contract rk name = STrue then Inr False
           else normalized_schemas_disjoint (property_contract lk name) (property_contract rk name))
         (filter (\<lambda>name. name \<in> set (opt_list (kw_required rk))) (opt_list (kw_required lk))))
       (Inr (required_closed lk rk \<or> required_closed rk lk)))) = Inr True"
      by (simp split: if_splits)
    then show ?thesis
      unfolding or_r_True using all_l all_r types objects closed any_r_TrueD
      by (metis (no_types, lifting) Inr_inject or_r_True)
  qed
qed

lemma literal_rejected:
  assumes "json_values_equal v c" "wf_val v" "wf_val c" "not_r (schema_accepts_normalized_value s c) = Inr True" "part_ok s"
  shows "\<not> acc v s"
  using acc_literal[OF assms(1-3)] not_accepted[OF assms(4,5)] by blast

lemma only_objects:
  assumes "list_all (\<lambda>p. p = (JObject, JObject)) (overlapping_type_pairs lk rk)" "types_ok v lk" "types_ok v rk"
  obtains kvs where "v = PDict kvs"
proof -
  from types_overlap[OF assms(2,3)] assms(1) have "json_type v = Some JObject" by (auto simp: list_all_iff)
  with that show ?thesis by (cases v) auto
qed

lemma disjoint_sound:
  "normalized_schemas_disjoint l r = Inr True \<Longrightarrow> part_ok l \<Longrightarrow> part_ok r \<Longrightarrow> wf_val v \<Longrightarrow> \<not> (acc v l \<and> acc v r)"
proof (induction "size l + size r" arbitrary: l r v rule: less_induct)
  case less
  show ?case
  proof
    assume both: "acc v l \<and> acc v r"
    with less.prems acc_False obtain lk rk where eq: "l = SObj lk" "r = SObj rk" by (cases l; cases r) auto
    note ok = less.prems(2)[unfolded eq, THEN conjunct2] less.prems(3)[unfolded eq, THEN conjunct2]
    note l = both[THEN conjunct1, unfolded eq] and r = both[THEN conjunct2, unfolded eq] and wf = less.prems(4)
    have IH: "\<not> (acc w x \<and> acc w y)" if "size x + size y < size (SObj lk) + size (SObj rk)"
      "normalized_schemas_disjoint x y = Inr True" "part_ok x" "part_ok y" "wf_val w" for x y w
      using less.hyps that unfolding eq by blast
    note types = acc_objD(2)[OF l ok(1)] acc_objD(2)[OF r ok(2)]
    from less.prems(1)[unfolded eq] show False
    proof (cases rule: disjoint_cases)
      case (const_l c)
      with acc_constD[OF l ok(1)] wf r ok(2) literal_rejected show ?thesis by blast
    next
      case (const_r c)
      with acc_constD[OF r ok(2)] wf l ok(1) literal_rejected show ?thesis by blast
    next
      case (enum_l cs)
      with acc_enumD[OF l ok(1)] wf r ok(2) literal_rejected show ?thesis
        by (metis (no_types, lifting) all_r_TrueD schema.distinct(3))
    next
      case (enum_r cs)
      with acc_enumD[OF r ok(2)] wf l ok(1) literal_rejected show ?thesis
        by (metis (no_types, lifting) all_r_TrueD schema.distinct(3))
    next
      case (union_l bs)
      from acc_unionsD[OF l ok(1) union_l(1)] obtain b where b: "b \<in> set bs" "acc v b" by blast
      have "part_ok b" using union_branches_ok[OF ok(1) union_l(1) b(1)] .
      with IH[of b "SObj rk" v] all_r_TrueD[OF union_l(2) b(1)] size_union_branches[OF union_l(1) b(1)] wf ok b r
      show ?thesis by simp
    next
      case (union_r bs)
      from acc_unionsD[OF r ok(2) union_r(1)] obtain b where b: "b \<in> set bs" "acc v b" by blast
      have "part_ok b" using union_branches_ok[OF ok(2) union_r(1) b(1)] .
      with IH[of "SObj lk" b v] all_r_TrueD[OF union_r(2) b(1)] size_union_branches[OF union_r(1) b(1)] wf ok b l
      show ?thesis by simp
    next
      case (all_l b)
      with IH[of b "SObj rk" v] size_sub_opt(4)[OF all_l(1)] shape_ok_subs(6)[OF ok(1) all_l(1)]
        acc_objD(4)[OF l ok(1) all_l(1)] wf ok r show ?thesis by simp
    next
      case (all_r b)
      with IH[of "SObj lk" b v] size_sub_opt(4)[OF all_r(1)] shape_ok_subs(6)[OF ok(2) all_r(1)]
        acc_objD(4)[OF r ok(2) all_r(1)] wf ok l show ?thesis by simp
    next
      case types
      with types_overlap[of v lk rk] acc_objD(2)[OF l ok(1)] acc_objD(2)[OF r ok(2)] show ?thesis by simp
    next
      case objects
      from only_objects[OF objects(1) types] obtain kvs where v: "v = PDict kvs" .
      show ?thesis
      proof (rule disjoint_objects[OF objects(2) l[unfolded v] r[unfolded v] ok wf[unfolded v]])
        show "\<not> (acc c (property_contract lk n) \<and> acc c (property_contract rk n))"
          if "part_ok (property_contract lk n)" "part_ok (property_contract rk n)" "wf_val c"
            "normalized_schemas_disjoint (property_contract lk n) (property_contract rk n) = Inr True" for n c
          using IH[OF add_strict_mono[OF size_property_contract size_property_contract] that(4,1,2,3)] .
      qed
    next
      case closed
      from only_objects[OF closed(1) types] obtain kvs where v: "v = PDict kvs" .
      from closed(2) required_closed_sound[of lk rk kvs] required_closed_sound[of rk lk kvs] l r ok show ?thesis
        unfolding v by blast
    qed
  qed
qed

lemma any_pair_True: "any_pair f xs = Inr True \<Longrightarrow> \<exists>x \<in> set xs. \<exists>y \<in> set xs. f x y = Inr True"
  by (induction xs) (auto simp: or_r_True dest!: any_r_TrueD)

lemma empty_sound:
  assumes "source_context_is_empty ctx = Inr True" and ok: "ctx_ok ctx" and wf: "wf_val v"
  shows "\<not> meets acc v ctx"
proof
  assume m: "meets acc v ctx"
  then have nf: "SFalse \<notin> set (fst ctx)" using acc_False by (auto simp: meets_def)
  with assms(1) consider cs where "source_context_literals ctx = Inr (Some cs)" "cs = []"
    | "any_pair normalized_schemas_disjoint (fst ctx) = Inr True"
    by (auto simp: source_context_is_empty_def bind_r_Inr_iff split: option.splits)
  then show False
  proof cases
    case 1
    with literals_sound[OF 1(1) ok m wf] show False by simp
  next
    case 2
    with any_pair_True obtain x y where "x \<in> set (fst ctx)" "y \<in> set (fst ctx)" "normalized_schemas_disjoint x y = Inr True"
      by blast
    with disjoint_sound[of x y v] ctx_ok_atoms[OF ok] m wf show False by (auto simp: meets_def)
  qed
qed

lemma literals_reject:
  assumes "source_context_literals ctx = Inr (Some cs)" "ctx_ok ctx" "meets acc v ctx" "wf_val v" "part_ok t"
    "all_r (\<lambda>v. not_r (schema_accepts_normalized_value t v)) cs = Inr True"
  shows "\<not> acc v t"
proof -
  from literals_sound[OF assms(1-4)] obtain c where c: "c \<in> set cs" "json_values_equal v c" "wf_val c" by blast
  from literal_rejected[OF c(2) assms(4) c(3) all_r_TrueD[OF assms(6) c(1)] assms(5)] show ?thesis .
qed

lemma literals_accept:
  assumes "source_context_literals ctx = Inr (Some cs)" "ctx_ok ctx" "meets acc v ctx" "wf_val v" "part_ok t"
    "all_r (schema_accepts_normalized_value t) cs = Inr True"
  shows "acc v t"
proof -
  from literals_sound[OF assms(1-4)] obtain c where c: "c \<in> set cs" "json_values_equal v c" "wf_val c" by blast
  from all_r_TrueD[OF assms(6) c(1)] have "acc c t" by (simp add: check_decides[OF assms(5)])
  with acc_literal[OF c(2) assms(4) c(3)] show ?thesis by simp
qed

lemma disjoint_schema_sound:
  "source_context_disjoint_schema ctx t = Inr True \<Longrightarrow> ctx_ok ctx \<Longrightarrow> part_ok t \<Longrightarrow> wf_val v \<Longrightarrow> meets acc v ctx \<Longrightarrow> \<not> acc v t"
proof (induction "unions_weight (snd ctx)" arbitrary: ctx rule: less_induct)
  case less
  note D = less.prems(1)[unfolded source_context_disjoint_schema.simps[of ctx] or_r_True]
  show ?case
  proof (cases "source_context_is_empty ctx = Inr True")
    case True
    with empty_sound[OF _ less.prems(2,4)] less.prems(5) show ?thesis by blast
  next
    case False
    with D obtain lits where lits: "source_context_literals ctx = Inr lits"
        "(case lits of
        Some cs \<Rightarrow> all_r (\<lambda>v. not_r (schema_accepts_normalized_value t v)) cs
      | None \<Rightarrow>
          or_r (any_r (\<lambda>source. normalized_schemas_disjoint source t) (fst ctx))
          (any_r (\<lambda>(kw, bs). all_r (\<lambda>b.
             source_context_disjoint_schema (context_with_branch (fst ctx) b) t) bs) (snd ctx))) = Inr True"
      by (auto simp: bind_r_Inr_iff)
    show ?thesis
    proof (cases lits)
      case (Some cs)
      with lits show ?thesis using literals_reject[OF _ less.prems(2,5,4,3)] by simp
    next
      case None
      with lits(2) consider "any_r (\<lambda>source. normalized_schemas_disjoint source t) (fst ctx) = Inr True"
        | "any_r (\<lambda>(kw, bs). all_r (\<lambda>b. source_context_disjoint_schema (context_with_branch (fst ctx) b) t) bs) (snd ctx) = Inr True"
        by (auto simp: or_r_True)
      then show ?thesis
      proof cases
        case 1
        from any_r_TrueD[OF 1] obtain a where a: "a \<in> set (fst ctx)" "normalized_schemas_disjoint a t = Inr True" by blast
        with disjoint_sound[of a t v] ctx_ok_atoms[OF less.prems(2) a(1)] less.prems(3-5) show ?thesis
          by (auto simp: meets_def)
      next
        case 2
        from any_r_TrueD[OF 2] obtain kw bs where u: "(kw, bs) \<in> set (snd ctx)"
            "all_r (\<lambda>b. source_context_disjoint_schema (context_with_branch (fst ctx) b) t) bs = Inr True" by auto
        from meets_branch[OF less.prems(5,2) u(1)] obtain b where b: "b \<in> set bs" "meets acc v (context_with_branch (fst ctx) b)"
          by blast
        show ?thesis
          using less.hyps[OF context_with_branch_weight[OF u(1) b(1)] all_r_TrueD[OF u(2) b(1)]
              branch_ok[OF less.prems(2) u(1) b(1)] less.prems(3,4) b(2)] .
      qed
    qed
  qed
qed

subsubsection \<open>Subset proofs\<close>

lemma narrowed_types:
  assumes "\<forall>s \<in> set atoms. part_ok s \<and> acc v s" "json_type v = Some t"
  shows "t \<in> set (possible_types atoms)"
proof -
  have w: "t \<in> set (widen (normalized_schema_types s))" if s: "s \<in> set atoms" for s
  proof -
    from assms(1) s acc_False obtain k where k: "s = SObj k" by (cases s) auto
    with assms(1) s have "types_ok v k" using acc_objD(2)[of v k] by auto
    with assms(2) show ?thesis
      by (auto simp: k types_ok_def widen_def type_allowed_def simp del: normalized_schema_types.simps)
  qed
  have "set (fold (\<lambda>s p. inter_types p (widen (normalized_schema_types s))) atoms p) =
      set p \<inter> (\<Inter>s \<in> set atoms. set (widen (normalized_schema_types s)))" for p
    by (induction atoms arbitrary: p) (auto simp: inter_types_def)
  moreover have "t \<in> set json_types" by (cases t) (simp_all add: json_types_def)
  ultimately show ?thesis using w by (simp add: possible_types_def)
qed

lemma type_clause_accepts:
  assumes "only_type_clause k" "shape_ok (SObj k)" "exact_json v" "json_type v = Some t"
    "t \<in> set (widen (normalized_schema_types (SObj k)))"
  shows "acc v (SObj k)"
proof -
  have t: "types_ok v k"
    using assms(4,5) by (auto simp: types_ok_def widen_def type_allowed_def simp del: normalized_schema_types.simps split: if_splits)
  have pc: "property_contract k n = STrue" for n
    using assms(1) by (simp add: only_type_clause_def property_contract_def additional_contract_def)
  have ic: "item_contract k = any_schema" using assms(1) by (simp add: only_type_clause_def item_contract_def)
  have "\<not> non_json v" using assms(3) by (cases v) auto
  moreover have "exact_json c \<and> (\<exists>n. key = KStr n)" if "v = PDict kvs" "(key, c) \<in> set kvs" for kvs key c
    using assms(3) that by (auto simp: list_all_iff)
  moreover have "exact_json x" if "v = PList xs" "x \<in> set xs" for xs x
    using assms(3) that by (auto simp: list_all_iff)
  ultimately show ?thesis
    using t assms(1) unfolding acc_obj[OF assms(2)] pc ic acc_any acc_prop_def
    by (fastforce simp: only_type_clause_def literals_ok_def)
qed

definition subset_below :: "nat \<Rightarrow> bool" where
  "subset_below n \<longleftrightarrow> (\<forall>s t v. size t < n \<longrightarrow> part_ok s \<longrightarrow> part_ok t \<longrightarrow> wf_val v \<longrightarrow>
     normalized_schemas_compatible s t = Inr True \<longrightarrow> acc v s \<longrightarrow> acc v t)"

lemma plain_members:
  assumes IH: "subset_below (size (SObj tk))" and ok: "shape_ok (SObj sk)" "shape_ok (SObj tk)" and wf: "wf_val c"
    and props: "all_r (\<lambda>(name, sp).
                 if property_contract tk name = SFalse then Inr False
                 else if property_contract tk name = STrue then Inr True
                 else normalized_schemas_compatible sp (property_contract tk name))
               (opt_list (kw_props sk)) = Inr True"
    and extra: "additional_contract sk = SFalse \<or>
        all_r (\<lambda>(name, tp).
                    if name \<in> set (keys_of (opt_list (kw_props sk))) then Inr True
                    else if additional_contract sk = STrue then Inr False
                    else normalized_schemas_compatible (additional_contract sk) tp)
                  (opt_list (kw_props tk)) = Inr True \<and>
        (if additional_contract tk = SFalse then Inr False
                 else if additional_contract tk = STrue then Inr True
                 else if additional_contract sk = STrue then Inr False
                 else normalized_schemas_compatible (additional_contract sk) (additional_contract tk)) = Inr True"
    and src: "acc_prop acc c (property_contract sk n)"
  shows "acc_prop acc c (property_contract tk n)"
proof -
  have step: "acc c t" if "normalized_schemas_compatible s t = Inr True" "acc c s" "part_ok s" "part_ok t" "size t < size (SObj tk)" for s t
    using IH that wf unfolding subset_below_def by blast
  have okt: "shape_ok (property_contract tk n)" using property_ok[OF ok(2)] .
  show ?thesis
  proof (cases "map_of (opt_list (kw_props sk)) n")
    case (Some sp)
    note spok = shape_ok_prop[OF ok(1) Some]
    have sacc: "acc c sp" using src spok by (simp add: property_contract_def Some acc_prop_def)
    from all_r_TrueD[OF props map_of_in_set[OF Some]] have
      "property_contract tk n = STrue \<or> property_contract tk n \<noteq> STrue \<and>
        normalized_schemas_compatible sp (property_contract tk n) = Inr True"
      by (auto split: if_splits)
    then show ?thesis
      using step[OF _ sacc spok] okt size_property_contract[of tk n] acc_exact[OF spok sacc]
      by (auto simp: acc_prop_def)
  next
    case None
    have sp: "property_contract sk n = additional_contract sk" "n \<notin> set (keys_of (opt_list (kw_props sk)))"
      using None by (simp add: property_contract_def) (use None in \<open>simp add: map_of_eq_None_iff\<close>)
    have "additional_contract sk \<noteq> SFalse" using src acc_False by (auto simp: sp(1) acc_prop_def)
    from extra \<open>additional_contract sk \<noteq> SFalse\<close> have
      E1: "all_r (\<lambda>(name, tp).
                    if name \<in> set (keys_of (opt_list (kw_props sk))) then Inr True
                    else if additional_contract sk = STrue then Inr False
                    else normalized_schemas_compatible (additional_contract sk) tp)
                  (opt_list (kw_props tk)) = Inr True" and
      E2: "(if additional_contract tk = SFalse then Inr False
                 else if additional_contract tk = STrue then Inr True
                 else if additional_contract sk = STrue then Inr False
                 else normalized_schemas_compatible (additional_contract sk) (additional_contract tk)) = Inr True"
      by blast+
    have sok: "shape_ok (additional_contract sk)" using property_ok[OF ok(1), of n] by (simp add: sp(1))
    have exact: "exact_json c"
      using src acc_exact[of "additional_contract sk" c] sok by (auto simp: sp(1) acc_prop_def split: if_splits)
    show ?thesis
    proof (cases "map_of (opt_list (kw_props tk)) n")
      case (Some tp)
      note tpok = shape_ok_prop[OF ok(2) Some]
      from all_r_TrueD[OF E1 map_of_in_set[OF Some]] sp(2) have
        "additional_contract sk \<noteq> STrue" "normalized_schemas_compatible (additional_contract sk) tp = Inr True"
        by (auto split: if_splits)
      moreover have "size tp < size (SObj tk)"
        using size_property_contract[of tk n] by (simp add: property_contract_def Some)
      ultimately show ?thesis
        using step[of "additional_contract sk" tp] src[unfolded sp(1)] sok tpok
        by (simp add: property_contract_def Some acc_prop_def)
    next
      case None
      then have tp: "property_contract tk n = additional_contract tk" by (simp add: property_contract_def)
      show ?thesis
      proof (cases "additional_contract tk = STrue")
        case True
        with exact show ?thesis by (simp add: tp acc_prop_def)
      next
        case False
        with E2 have "additional_contract sk \<noteq> STrue"
            "normalized_schemas_compatible (additional_contract sk) (additional_contract tk) = Inr True"
          by (auto split: if_splits)
        then show ?thesis
          using step[of "additional_contract sk" "additional_contract tk"] src sok okt False size_additional_contract[of tk]
          by (simp add: tp acc_prop_def sp(1))
      qed
    qed
  qed
qed

lemma plain_sound:
  assumes IH: "subset_below (size t)" and p: "plain_schema_subset s t = Inr True"
    and ok: "part_ok s" "part_ok t" "plain_atom t" and wf: "wf_val v" and src: "acc v s"
  shows "acc v t"
proof -
  note D = p[unfolded plain_schema_subset.simps[of s t]]
  have "s \<noteq> SFalse" using src acc_False by auto
  show ?thesis
  proof (cases "json_values_equal (schema_to_py s) (schema_to_py t) \<or> t = any_schema")
    case True
    with acc_same[of s t v] ok src acc_exact[OF ok(1) src] show ?thesis by (auto simp: acc_any)
  next
    case False
    with D \<open>s \<noteq> SFalse\<close> ok(1,2) obtain sk tk where eq: "s = SObj sk" "t = SObj tk" and "s \<noteq> any_schema" "t \<noteq> any_schema"
      by (cases s; cases t) (auto split: if_splits)
    note oks = ok(1)[unfolded eq, THEN conjunct2] ok(2)[unfolded eq, THEN conjunct2]
    note sacc = src[unfolded eq]
    show ?thesis
    proof (cases "kw_const sk = None \<and> kw_enum sk = None")
      case lits: False
      have lit: "acc v t" if "json_values_equal v c" "wf_val c" "schema_accepts_normalized_value t c = Inr True" for c
        using acc_literal[OF that(1) wf that(2)] that(3) check_decides[OF ok(2)] by simp
      show ?thesis
      proof (cases "kw_const sk")
        case (Some c)
        have "schema_accepts_normalized_value t c = Inr True"
          using D False \<open>s \<noteq> any_schema\<close> \<open>s \<noteq> SFalse\<close> ok(2) by (auto simp: eq Some split: if_splits)
        with lit acc_constD[OF sacc oks(1) Some] show ?thesis by blast
      next
        case None
        with lits obtain cs where cs: "kw_enum sk = Some cs" by auto
        have "all_r (schema_accepts_normalized_value t) cs = Inr True"
          using D False \<open>s \<noteq> any_schema\<close> \<open>s \<noteq> SFalse\<close> ok(2) by (auto simp: eq None cs split: if_splits)
        with lit acc_enumD[OF sacc oks(1) cs] all_r_TrueD show ?thesis by metis
      qed
    next
      case nolits: True
      have rest: "kw_const tk = None" "kw_enum tk = None" "types_subset sk tk"
          "JObject \<in> set (normalized_schema_types (SObj sk)) \<Longrightarrow> JObject \<in> set (normalized_schema_types (SObj tk)) \<Longrightarrow>
             and_r (all_r (\<lambda>name.
                 if name \<notin> set (opt_list (kw_required sk)) then Inr False
                 else if property_contract sk name = SFalse \<or> property_contract tk name = SFalse then Inr False
                 else normalized_schemas_compatible (property_contract sk name) (property_contract tk name))
               (opt_list (kw_required tk)))
            (and_r (all_r (\<lambda>(name, sp).
                 if property_contract tk name = SFalse then Inr False
                 else if property_contract tk name = STrue then Inr True
                 else normalized_schemas_compatible sp (property_contract tk name))
               (opt_list (kw_props sk)))
             (if additional_contract sk = SFalse then Inr True
              else
                and_r (all_r (\<lambda>(name, tp).
                    if name \<in> set (keys_of (opt_list (kw_props sk))) then Inr True
                    else if additional_contract sk = STrue then Inr False
                    else normalized_schemas_compatible (additional_contract sk) tp)
                  (opt_list (kw_props tk)))
                (if additional_contract tk = SFalse then Inr False
                 else if additional_contract tk = STrue then Inr True
                 else if additional_contract sk = STrue then Inr False
                 else normalized_schemas_compatible (additional_contract sk) (additional_contract tk)))) = Inr True"
          "JArray \<in> set (normalized_schema_types (SObj sk)) \<Longrightarrow> JArray \<in> set (normalized_schema_types (SObj tk)) \<Longrightarrow>
            (case kw_items tk of None \<Rightarrow> Inr True
            | Some ti \<Rightarrow> (case kw_items sk of None \<Rightarrow> Inr False
              | Some si \<Rightarrow> normalized_schemas_compatible si ti)) = Inr True"
        using D False nolits \<open>s \<noteq> any_schema\<close> \<open>s \<noteq> SFalse\<close>
        by (auto simp: eq and_r_True simp del: normalized_schema_types.simps split: if_splits)
      have types: "types_ok v tk"
        using acc_objD(2)[OF sacc oks(1)] rest(3)
        by (fastforce simp: types_ok_def types_subset_def type_allowed_def list_all_iff simp del: normalized_schema_types.simps)
      have "(\<forall>name \<in> set (opt_list (kw_required tk)). KStr name \<in> set (keys_of kvs)) \<and>
        (\<forall>(key, c) \<in> set kvs. \<exists>n. key = KStr n \<and> acc_prop acc c (property_contract tk n))" if v: "v = PDict kvs" for kvs
      proof -
        have ob: "JObject \<in> set (normalized_schema_types (SObj sk))" "JObject \<in> set (normalized_schema_types (SObj tk))"
          using acc_objD(2)[OF sacc oks(1)] types v
          by (auto simp: types_ok_def type_allowed_def simp del: normalized_schema_types.simps)
        note R = rest(4)[OF ob, unfolded and_r_True]
        have req: "KStr name \<in> set (keys_of kvs)" if "name \<in> set (opt_list (kw_required tk))" for name
          using all_r_TrueD[OF R[THEN conjunct1] that] acc_objD(7)[OF sacc oks(1) v] by (auto split: if_splits)
        have "\<exists>n. key = KStr n \<and> acc_prop acc c (property_contract tk n)" if kc: "(key, c) \<in> set kvs" for key c
        proof -
          from acc_objD(8)[OF sacc oks(1) v kc] obtain n where n: "key = KStr n" "acc_prop acc c (property_contract sk n)" by blast
          have "acc_prop acc c (property_contract tk n)"
            by (rule plain_members[OF IH[unfolded eq] oks wf_val_item[OF wf[unfolded v] kc] _ _ n(2)])
              (use R in \<open>auto simp: and_r_True split: if_splits\<close>)
          with n(1) show ?thesis by blast
        qed
        with req show ?thesis by blast
      qed
      moreover have "acc x (item_contract tk)" if v: "v = PList xs" and x: "x \<in> set xs" for xs x
      proof -
        have ar: "JArray \<in> set (normalized_schema_types (SObj sk))" "JArray \<in> set (normalized_schema_types (SObj tk))"
          using acc_objD(2)[OF sacc oks(1)] types v
          by (auto simp: types_ok_def type_allowed_def simp del: normalized_schema_types.simps)
        note xs = acc_objD(9)[OF sacc oks(1) v x]
        show ?thesis
        proof (cases "kw_items tk")
          case None
          with acc_exact[OF shape_ok_item[OF oks(1)] xs] show ?thesis by (simp add: item_contract_def acc_any)
        next
          case (Some ti)
          with rest(5)[OF ar] obtain si where si: "kw_items sk = Some si" "normalized_schemas_compatible si ti = Inr True"
            by (auto split: option.splits)
          moreover have "size ti < size (SObj tk)" using size_kws_mem[OF kws_members(3)[OF Some]] .
          ultimately show ?thesis
            using IH[unfolded eq subset_below_def] xs wf v x shape_ok_subs(3)[OF oks(1) si(1)] shape_ok_subs(3)[OF oks(2) Some]
              wf_val_elem[of xs x]
            by (simp add: item_contract_def Some)
        qed
      qed
      ultimately show ?thesis
        using types acc_objD(1)[OF sacc oks(1)] rest(1,2) ok(3) unfolding eq acc_obj[OF oks(2)]
        by (simp add: literals_ok_def)
    qed
  qed
qed

lemma atom_sound:
  assumes IH: "subset_below (size t)" and ok: "part_ok t" "plain_atom t" and wf: "wf_val v"
  shows "source_context_subset_atom ctx t = Inr True \<Longrightarrow> ctx_ok ctx \<Longrightarrow> meets acc v ctx \<Longrightarrow> acc v t"
proof (induction "unions_weight (snd ctx)" arbitrary: ctx rule: less_induct)
  case less
  note D = less.prems(1)[unfolded source_context_subset_atom.simps[of ctx] or_r_True]
  have "source_context_is_empty ctx \<noteq> Inr True"
    using empty_sound[OF _ less.prems(2) wf] less.prems(3) by blast
  with D obtain lits where lits: "source_context_literals ctx = Inr lits"
      "(case lits of
        Some cs \<Rightarrow> all_r (schema_accepts_normalized_value t) cs
      | None \<Rightarrow>
          or_r (any_r (\<lambda>source. plain_schema_subset source t) (fst ctx))
          (case t of
             SObj tk \<Rightarrow>
               or_r (Inr (only_type_clause tk \<and>
                   set (possible_types (fst ctx)) \<subseteq> set (widen (normalized_schema_types t))))
               (any_r (\<lambda>(_, bs). all_r (\<lambda>b.
                   source_context_subset_atom (context_with_branch (fst ctx) b) t) bs) (snd ctx))
           | _ \<Rightarrow> Inl (TypeError ''bool object is not iterable''))) = Inr True"
    by (auto simp: bind_r_Inr_iff)
  have atoms: "\<forall>s \<in> set (fst ctx). part_ok s \<and> acc v s"
    using ctx_ok_atoms[OF less.prems(2)] less.prems(3) by (auto simp: meets_def)
  show ?case
  proof (cases lits)
    case (Some cs)
    with lits show ?thesis using literals_accept[OF _ less.prems(2,3) wf ok(1)] by simp
  next
    case None
    show ?thesis
    proof (cases "any_r (\<lambda>source. plain_schema_subset source t) (fst ctx) = Inr True")
      case True
      from any_r_TrueD[OF True] obtain s where "s \<in> set (fst ctx)" "plain_schema_subset s t = Inr True" by blast
      with plain_sound[OF IH _ _ ok wf, of s] atoms show ?thesis by blast
    next
      case False
      with lits(2) None obtain tk where t: "t = SObj tk"
        and c: "(only_type_clause tk \<and> set (possible_types (fst ctx)) \<subseteq> set (widen (normalized_schema_types t))) \<or>
           any_r (\<lambda>(_, bs). all_r (\<lambda>b.
                   source_context_subset_atom (context_with_branch (fst ctx) b) t) bs) (snd ctx) = Inr True"
        by (cases t) (auto simp: or_r_True)
      from c show ?thesis
      proof
        assume n: "only_type_clause tk \<and> set (possible_types (fst ctx)) \<subseteq> set (widen (normalized_schema_types t))"
        have ex: "exact_json v" using meets_exact[OF less.prems(2,3)] .
        then obtain jt where jt: "json_type v = Some jt" by (cases v) auto
        from narrowed_types[OF atoms jt] n have "jt \<in> set (widen (normalized_schema_types (SObj tk)))" by (auto simp: t)
        with type_clause_accepts[OF _ _ ex jt, of tk] n ok(1) show ?thesis by (simp add: t)
      next
        assume "any_r (\<lambda>(_, bs). all_r (\<lambda>b.
                   source_context_subset_atom (context_with_branch (fst ctx) b) t) bs) (snd ctx) = Inr True"
        from any_r_TrueD[OF this] obtain kw bs where u: "(kw, bs) \<in> set (snd ctx)"
            "all_r (\<lambda>b. source_context_subset_atom (context_with_branch (fst ctx) b) t) bs = Inr True" by auto
        from meets_branch[OF less.prems(3,2) u(1)] obtain b where b: "b \<in> set bs" "meets acc v (context_with_branch (fst ctx) b)"
          by blast
        show ?thesis
          using less.hyps[OF context_with_branch_weight[OF u(1) b(1)] all_r_TrueD[OF u(2) b(1)]
              branch_ok[OF less.prems(2) u(1) b(1)] b(2)] .
      qed
    qed
  qed
qed

lemma one_of_accepts:
  assumes "(i, b) \<in> set (enumerate 0 bs)" "acc v b"
    and others: "\<And>j c. (j, c) \<in> set (enumerate 0 bs) \<Longrightarrow> j \<noteq> i \<Longrightarrow> \<not> acc v c"
  shows "length (filter (acc v) bs) = 1"
proof -
  from assms(1) have i: "i < length bs" "bs ! i = b" by (auto simp: in_set_enumerate_eq)
  have "{j. j < length bs \<and> acc v (bs ! j)} = {i}"
  proof (intro set_eqI iffI)
    show "j \<in> {i}" if "j \<in> {j. j < length bs \<and> acc v (bs ! j)}" for j
      using others[of j "bs ! j"] that by (auto simp: in_set_enumerate_eq)
    show "j \<in> {j. j < length bs \<and> acc v (bs ! j)}" if "j \<in> {i}" for j
      using i assms(2) that by simp
  qed
  then show ?thesis by (simp add: length_filter_conv_card)
qed

lemma union_sound:
  assumes sub: "\<And>ctx b. b \<in> set branches \<Longrightarrow> source_context_subset_schema ctx b = Inr True \<Longrightarrow> ctx_ok ctx \<Longrightarrow>
      meets acc v ctx \<Longrightarrow> acc v b"
    and uok: "union_ok (kw, branches)" and wf: "wf_val v"
  shows "source_context_subset_union ctx kw branches = Inr True \<Longrightarrow> ctx_ok ctx \<Longrightarrow> meets acc v ctx \<Longrightarrow>
    acc v (union_schema kw branches)"
proof (induction "unions_weight (snd ctx)" arbitrary: ctx rule: less_induct)
  case less
  have pk: "part_ok (union_schema kw branches)" using uok by (intro union_schema_ok) auto
  have ex: "exact_json v" using meets_exact[OF less.prems(2,3)] .
  note D = less.prems(1)[unfolded source_context_subset_union.simps[of ctx]]
  obtain lits where lits: "source_context_literals ctx = Inr lits"
    using D by (auto simp: bind_r_Inr_iff)
  show ?case
  proof (cases lits)
    case (Some cs)
    with D lits have "all_r (schema_accepts_normalized_value (union_schema kw branches)) cs = Inr True" by simp
    with literals_accept[OF lits[unfolded Some] less.prems(2,3) wf pk] show ?thesis .
  next
    case None
    show ?thesis
    proof (cases "any_r (\<lambda>(_, bs). all_r (\<lambda>b.
             source_context_subset_union (context_with_branch (fst ctx) b) kw branches) bs) (snd ctx) = Inr True")
      case True
      from any_r_TrueD[OF True] obtain kw' bs where u: "(kw', bs) \<in> set (snd ctx)"
          "all_r (\<lambda>b. source_context_subset_union (context_with_branch (fst ctx) b) kw branches) bs = Inr True" by auto
      from meets_branch[OF less.prems(3,2) u(1)] obtain b where b: "b \<in> set bs" "meets acc v (context_with_branch (fst ctx) b)"
        by blast
      show ?thesis
        using less.hyps[OF context_with_branch_weight[OF u(1) b(1)] all_r_TrueD[OF u(2) b(1)]
            branch_ok[OF less.prems(2) u(1) b(1)] b(2)] .
    next
      case False
      with D lits None have own: "(case kw of
             AnyOf \<Rightarrow> any_r (\<lambda>b. source_context_subset_schema ctx b) branches
           | OneOf \<Rightarrow> any_r (\<lambda>(i, b).
               and_r (source_context_subset_schema ctx b)
                 (all_r (\<lambda>(j, other). if j = i then Inr True else source_context_disjoint_schema ctx other)
                   (enumerate 0 branches))) (enumerate 0 branches)) = Inr True"
        by (simp add: or_r_True)
      show ?thesis
      proof (cases kw)
        case AnyOf
        with own any_r_TrueD obtain b where "b \<in> set branches" "source_context_subset_schema ctx b = Inr True" by force
        with sub[of b ctx] less.prems(2,3) have "acc v b" by simp
        with \<open>b \<in> set branches\<close> ex show ?thesis unfolding acc_union[OF pk] by (auto simp: AnyOf)
      next
        case OneOf
        with own any_r_TrueD obtain i b where b: "(i, b) \<in> set (enumerate 0 branches)" "source_context_subset_schema ctx b = Inr True"
            "all_r (\<lambda>(j, other). if j = i then Inr True else source_context_disjoint_schema ctx other)
                   (enumerate 0 branches) = Inr True"
          by (fastforce simp: and_r_True)
        have "acc v b" using sub[OF enumerate_mem[OF b(1)] b(2) less.prems(2,3)] .
        moreover have "\<not> acc v c" if "(j, c) \<in> set (enumerate 0 branches)" "j \<noteq> i" for j c
          using all_r_TrueD[OF b(3) that(1)] that(2) disjoint_schema_sound[OF _ less.prems(2) _ wf less.prems(3), of c]
            uok enumerate_mem[OF that(1)] by auto
        ultimately have "length (filter (acc v) branches) = 1" by (rule one_of_accepts[OF b(1)])
        with ex show ?thesis unfolding acc_union[OF pk] by (simp add: OneOf)
      qed
    qed
  qed
qed

lemma subset_schema_sound:
  assumes wf: "wf_val v" and IH: "subset_below n"
  shows "size t \<le> n \<Longrightarrow> part_ok t \<Longrightarrow> source_context_subset_schema ctx t = Inr True \<Longrightarrow> ctx_ok ctx \<Longrightarrow> meets acc v ctx \<Longrightarrow> acc v t"
proof (induction "size t" arbitrary: t ctx rule: less_induct)
  case less
  note D = less.prems(3)[unfolded source_context_subset_schema.simps and_r_True]
  note tok = target_context_ok[OF less.prems(2)]
  have below: "subset_below m" if "m \<le> n" for m
    using IH that unfolding subset_below_def by (meson less_le_trans)
  have "acc v a" if a: "a \<in> set (fst (target_context t))" for a
  proof (rule atom_sound[OF _ _ _ wf all_r_TrueD[OF D[THEN conjunct1] a] less.prems(4,5)])
    show "subset_below (size a)" using target_context_sizes(1)[OF a] less.prems(1) by (intro below) simp
    show "part_ok a" using ctx_ok_atoms[OF tok[THEN conjunct1] a] .
    show "plain_atom a" using tok a by blast
  qed
  moreover have "acc v (union_schema kw bs)" if u: "(kw, bs) \<in> set (snd (target_context t))" for kw bs
  proof (rule union_sound[OF _ ctx_ok_unions[OF tok[THEN conjunct1] u] wf _ less.prems(4,5)])
    show "source_context_subset_union ctx kw bs = Inr True" using all_r_TrueD[OF D[THEN conjunct2] u] by simp
    show "acc v b" if "b \<in> set bs" "source_context_subset_schema c b = Inr True" "ctx_ok c" "meets acc v c" for c b
    proof -
      have "size b < size t" using size_in_list[OF that(1)] target_context_sizes(2)[OF u] by simp
      with less.hyps[of b c] less.prems(1) that ctx_ok_unions[OF tok[THEN conjunct1] u] show ?thesis by auto
    qed
  qed
  ultimately have "meets acc v (target_context t)" by (auto simp: meets_def simp del: union_schema.simps)
  with target_context_complete[OF less.prems(2)] show ?case by blast
qed

theorem compatible_sound:
  "normalized_schemas_compatible s t = Inr True \<Longrightarrow> part_ok s \<Longrightarrow> part_ok t \<Longrightarrow> wf_val v \<Longrightarrow> acc v s \<Longrightarrow> acc v t"
proof (induction "size t" arbitrary: s t v rule: less_induct)
  case less
  have below: "subset_below (size t)"
    unfolding subset_below_def using less.hyps by blast
  have "s \<noteq> SFalse" using less.prems(5) acc_False by auto
  show ?case
  proof (cases "json_values_equal (schema_to_py s) (schema_to_py t) \<or> t = any_schema")
    case True
    with acc_same[of s t v] less.prems acc_exact[OF less.prems(2,5)] show ?thesis by (auto simp: acc_any)
  next
    case False
    with less.prems(1-3) \<open>s \<noteq> SFalse\<close> have "source_context_subset_schema (source_context s) t = Inr True"
      unfolding normalized_schemas_compatible.simps[of s t] by (auto split: if_splits)
    from subset_schema_sound[OF less.prems(4) below order.refl less.prems(3) this
        source_context_ok[OF less.prems(2)] source_context_sound[OF less.prems(2,5)]]
    show ?thesis .
  qed
qed

end

subsection \<open>The validator provides the interface\<close>

lemma accepts_any_exact: "accepts v any_schema \<longleftrightarrow> exact_json v"
proof
  show "exact_json v" if "accepts v any_schema" using accepts_exact[OF that] by simp
  show "exact_json v \<Longrightarrow> accepts v any_schema"
  proof (induction v rule: measure_induct_rule[of size])
    case (less v)
    have "children_ok v no_kws"
    proof (cases v)
      case (PList xs)
      have "accepts x any_schema" if "x \<in> set xs" for x
        using less.IH[of x] size_list_item[OF that] less.prems that by (simp add: PList list_all_iff del: pyval.size)
      then show ?thesis by (simp add: PList children_ok_def item_contract_def)
    next
      case (PDict kvs)
      have "member_ok no_kws (key, c)" if kc: "(key, c) \<in> set kvs" for key c
        using less.IH[of c] size_dict_item[OF kc] less.prems kc
        by (auto simp: PDict list_all_iff member_ok_def member_contract_def open_contract_def simp del: pyval.size)
      then show ?thesis by (auto simp: PDict children_ok_def)
    qed (simp_all add: children_ok_def)
    moreover have "\<not> non_json v" using less.prems by (cases v) auto
    ultimately show ?case by (simp add: accepts_any)
  qed
qed

lemma member_ok_property:
  assumes "shape_ok (SObj k)"
  shows "member_ok k (key, c) \<longleftrightarrow> (\<exists>n. key = KStr n \<and> acc_prop accepts c (property_contract k n))"
proof (cases key)
  case (KStr n)
  show ?thesis
  proof (cases "map_of (opt_list (kw_props k)) n")
    case (Some s)
    with shape_ok_prop[OF assms Some] show ?thesis
      by (simp add: KStr member_ok_def member_contract_def property_contract_def acc_prop_def)
  next
    case None
    show ?thesis
    proof (cases "kw_additional k")
      case (Some s)
      with None show ?thesis
        by (cases s) (simp_all add: KStr member_ok_def member_contract_def property_contract_def acc_prop_def
            open_contract_def additional_contract_def accepts_any_exact)
    qed (simp add: None KStr member_ok_def member_contract_def property_contract_def acc_prop_def
        open_contract_def additional_contract_def accepts_any_exact)
  qed
qed (simp add: member_ok_def)

lemma accepts_obj:
  assumes "shape_ok (SObj k)"
  shows "accepts v (SObj k) \<longleftrightarrow> \<not> non_json v \<and> types_ok v k \<and> literals_ok v k \<and>
      (\<forall>b \<in> set (opt_list (kw_all k)). accepts v b) \<and>
      (\<forall>bs. kw_any k = Some bs \<longrightarrow> (\<exists>b \<in> set bs. accepts v b)) \<and>
      (\<forall>bs. kw_one k = Some bs \<longrightarrow> length (filter (accepts v) bs) = 1) \<and>
      (\<forall>kvs. v = PDict kvs \<longrightarrow> (\<forall>name \<in> set (opt_list (kw_required k)). KStr name \<in> set (keys_of kvs)) \<and>
        (\<forall>(key, c) \<in> set kvs. \<exists>n. key = KStr n \<and> acc_prop accepts c (property_contract k n))) \<and>
      (\<forall>xs. v = PList xs \<longrightarrow> (\<forall>x \<in> set xs. accepts x (item_contract k)))"
proof -
  have lv: "kw_any k \<noteq> Some []" "kw_one k \<noteq> Some []"
    using shape_ok_subs(7)[OF assms] by (simp_all add: shape_level_def)
  have br: "branches_ok v k \<longleftrightarrow> (\<forall>b \<in> set (opt_list (kw_all k)). accepts v b) \<and>
      (\<forall>bs. kw_any k = Some bs \<longrightarrow> (\<exists>b \<in> set bs. accepts v b)) \<and>
      (\<forall>bs. kw_one k = Some bs \<longrightarrow> length (filter (accepts v) bs) = 1)"
    using lv by (cases "kw_any k"; cases "kw_one k") (auto simp: branches_ok_def)
  have ch: "children_ok v k \<longleftrightarrow>
      (\<forall>kvs. v = PDict kvs \<longrightarrow> (\<forall>name \<in> set (opt_list (kw_required k)). KStr name \<in> set (keys_of kvs)) \<and>
        (\<forall>(key, c) \<in> set kvs. \<exists>n. key = KStr n \<and> acc_prop accepts c (property_contract k n))) \<and>
      (\<forall>xs. v = PList xs \<longrightarrow> (\<forall>x \<in> set xs. accepts x (item_contract k)))"
    by (cases v) (simp_all add: children_ok_def member_ok_property[OF assms, symmetric])
  show ?thesis unfolding accepts_SObj br ch by (simp only: conj_ac)
qed

interpretation sem: contract_semantics accepts
proof unfold_locales
  show "schema_accepts_normalized_value s v = Inr (accepts v s)" if "part_ok s" for s v
    using that by (rule schema_accepts_decides)
  show "accepts v s = accepts v t"
    if "json_values_equal (schema_to_py s) (schema_to_py t)" "shape_ok s" "shape_ok t" for s t v
    using same_accepts that by (simp add: same_def)
  show "accepts v s = accepts w s" if "json_values_equal v w" "wf_val v" "wf_val w" for v w s
    using that by (rule accepts_equal_imp)
  show "exact_json v" if "part_ok s" "accepts v s" for s v
    using accepts_exact that by blast
  show "\<not> accepts v SFalse" for v
    by simp
  show "accepts v any_schema \<longleftrightarrow> exact_json v" for v
    by (rule accepts_any_exact)
qed (rule accepts_obj)

subsection \<open>Evaluating the prover\<close>

text \<open>The prover is evaluated from the outside in: a later clause only when an earlier one did
  not decide.\<close>

lemma eval_congs:
  "xs = ys \<Longrightarrow> filter_r f xs = filter_r f ys" "xs = ys \<Longrightarrow> all_r f xs = all_r f ys" "xs = ys \<Longrightarrow> any_r f xs = any_r f ys"
  "a = a' \<Longrightarrow> and_r a b = and_r a' b" "a = a' \<Longrightarrow> or_r a b = or_r a' b" "a = a' \<Longrightarrow> bind_r a g = bind_r a' g"
  by simp_all

lemma bool_r_eval [simp]:
  "and_r (Inr True) b = b" "and_r (Inr False) b = Inr False" "and_r (Inl e) b = Inl e"
  "or_r (Inr True) b = Inr True" "or_r (Inr False) b = b" "or_r (Inl e) b = Inl e"
  "not_r (Inr x) = Inr (\<not> x)"
  by (simp_all add: and_r_def or_r_def not_r_def)

lemmas compatibility_eval =
  normalized_schemas_compatible.simps source_context_subset_schema.simps source_context_subset_union.simps
  source_context_subset_atom.simps plain_schema_subset.simps source_context.simps target_context.simps
  typed_union_def own_unions_def source_context_is_empty_def source_context_literals_def
  schema_base_def only_type_clause_def types_subset_def additional_contract_def property_contract_def
  declared_types_def type_allowed_def possible_types_def json_types_def inter_types_def widen_def Let_def
  schema_accepts_normalized_value_def validate_normalized.simps json_value_in_def

subsection \<open>Properties\<close>

text \<open>\<^bold>\<open>C1\<close>. Compatibility is sound: when \<open>schemas_compatible\<close> approves a producer contract
  for a consumer contract, every value that passes the producer's contract passes the
  consumer's. Whatever mixture of literals, unions, conjunctions, type lists, open and
  closed objects and arrays the contracts use, no produced value is rejected downstream.\<close>

theorem schemas_compatible_sound:
  assumes "wf_val provided" and "wf_val required" and "schemas_compatible provided required = Inr True"
    and "wf_val v" and "validate_json_value False p v (Some provided) = Inr ()"
  shows "validate_json_value False q v (Some required) = Inr ()"
proof -
  from assms(3) obtain s t where n: "normalize_schema provided = Inr s" "normalize_schema required = Inr t"
      "normalized_schemas_compatible s t = Inr True"
    by (auto simp: schemas_compatible_def bind_r_Inr_iff)
  have ok: "contract_ok s" "contract_ok t" using normalize_schema_ok n assms(1,2) by blast+
  from assms(5) have "accepts v s" by (simp add: validate_json_value_def n(1) validate_accepts ok(1))
  with sem.compatible_sound[OF n(3) _ _ assms(4)] ok schema_ok_shape have "accepts v t" by blast
  then show ?thesis by (simp add: validate_json_value_def n(2) validate_accepts ok(2))
qed

theorem schemas_compatible_sound_witness:
  "validate_json_value False ''q'' (PDict [(KStr ''a'', PInt 1)])
     (Some (PDict [(KStr ''type'', PStr ''object''), (KStr ''additionalProperties'', PDict [(KStr ''type'', PStr ''number'')])])) = Inr ()"
proof -
  let ?provided = "PDict [(KStr ''type'', PStr ''object''), (KStr ''required'', PList [PStr ''a'']),
    (KStr ''properties'', PDict [(KStr ''a'', PDict [(KStr ''enum'', PList [PInt 1, PInt 2])])]),
    (KStr ''additionalProperties'', PBool False)]"
  let ?required = "PDict [(KStr ''type'', PStr ''object''), (KStr ''additionalProperties'', PDict [(KStr ''type'', PStr ''number'')])]"
  let ?s = "SObj (Kws (Some [JObject]) (Some [(''a'', SObj (Kws None None None None None (Some [PInt 1, PInt 2])
    None None None None []))]) (Some [''a'']) (Some SFalse) None None None None None None [])"
  let ?t = "SObj (Kws (Some [JObject]) None None (Some (typed JNumber)) None None None None None None [])"
  have n: "normalize_schema ?provided = Inr ?s" "normalize_schema ?required = Inr ?t" by code_simp+
  have c: "schemas_compatible ?provided ?required = Inr True"
    unfolding schemas_compatible_def n bind_r_simps
    by (simp add: compatibility_eval schema_to_py.simps opt_entry_def type_to_py_def typed_def no_kws_def cong: eval_congs)
  have v: "validate_json_value False ''p'' (PDict [(KStr ''a'', PInt 1)]) (Some ?provided) = Inr ()" by code_simp
  show ?thesis by (rule schemas_compatible_sound[OF _ _ c _ v]) simp_all
qed

text \<open>\<^bold>\<open>C31\<close>. Disjointness is sound: contracts that \<open>normalized_schemas_disjoint\<close> separates have no
  common value, which is what lets a \<open>oneOf\<close> consumer be proved.\<close>

theorem normalized_schemas_disjoint_sound:
  assumes "wf_val left" and "wf_val right" and "normalize_schema left = Inr l" and "normalize_schema right = Inr r"
    and "normalized_schemas_disjoint l r = Inr True" and "wf_val v"
  shows "\<not> (validate_normalized False p v l = Inr () \<and> validate_normalized False q v r = Inr ())"
proof -
  have ok: "contract_ok l" "contract_ok r" using normalize_schema_ok assms(1-4) by blast+
  with sem.disjoint_sound[OF assms(5) _ _ assms(6)] schema_ok_shape show ?thesis
    by (auto simp: validate_accepts)
qed

theorem normalized_schemas_disjoint_sound_witness:
  "\<not> (validate_normalized False ''p'' (PStr ''x'') (typed JString) = Inr () \<and>
      validate_normalized False ''q'' (PStr ''x'') (typed JNull) = Inr ())"
proof -
  have n: "normalize_schema (PDict [(KStr ''type'', PStr ''string'')]) = Inr (typed JString)"
    "normalize_schema (PDict [(KStr ''type'', PStr ''null'')]) = Inr (typed JNull)" by code_simp+
  have d: "normalized_schemas_disjoint (typed JString) (typed JNull) = Inr True" by code_simp
  show ?thesis by (rule normalized_schemas_disjoint_sound[OF _ _ n d]) simp_all
qed


end
