(* ===== verification/Contract_Expansion.thy ===== *)
theory Contract_Expansion
  imports Compatibility_Soundness
begin

section \<open>Expansion and structural queries of DataKey contracts\<close>

text \<open>
  Models \<open>engine/contracts/contract_expansion.py\<close>. A contract map is an association list
  from DataKey paths to contracts in insertion order; keys are text. Schemas that come out of
  a normalizer are values of type \<open>schema\<close>, and where the code normalizes them once more
  before taking them apart the model starts from the normal form. Equality of schemas is
  \<open>json_values_equal\<close> on their dictionaries (\<open>same\<close>). The recursive \<open>emit\<close> has the
  interpreter's recursion limit as an argument and raises \<open>RecursionError\<close> beyond it. The
  expansion cache keys on serialized contracts; the encoder and decoder are arguments.
\<close>

subsection \<open>Literals, unions and intersections\<close>

fun literal_data_key_schema :: "pyval \<Rightarrow> schema" where
  "literal_data_key_schema (PDict kvs) =
     SObj (Kws (Some [JObject]) (Some (map (\<lambda>(k, v). (key_text k, literal_data_key_schema v)) kvs))
       (Some (sort (map (\<lambda>(k, v). key_text k) kvs))) (Some SFalse) None None None None None None [])"
| "literal_data_key_schema v = SObj (Kws None None None None None None (Some v) None None None [])"

text \<open>Options not equal to an earlier one\<close>

definition unique_schemas :: "schema list \<Rightarrow> schema list" where
  "unique_schemas options =
     fold (\<lambda>option unique. if list_ex (same option) unique then unique else unique @ [option]) options []"

definition branches_schema :: "string \<Rightarrow> schema list \<Rightarrow> pyval" where
  "branches_schema keyword options = PDict [(KStr keyword, PList (map schema_to_py options))]"

definition schema_union :: "schema list \<Rightarrow> string \<Rightarrow> schema res" where
  "schema_union options path =
     (case unique_schemas options of
        [] \<Rightarrow> Inr SFalse
      | [s] \<Rightarrow> Inr s
      | unique \<Rightarrow> normalize_data_key_schema_uncached path (branches_schema ''anyOf'' unique))"

definition schema_intersection :: "schema list \<Rightarrow> string \<Rightarrow> schema res" where
  "schema_intersection options path =
     (let material = filter (\<lambda>s. s \<noteq> any_schema \<and> s \<noteq> STrue) options in
      if SFalse \<in> set material then Inr SFalse
      else if material = [] then Inr any_schema
      else case unique_schemas material of
          [s] \<Rightarrow> Inr s
        | unique \<Rightarrow> normalize_data_key_schema_uncached path (branches_schema ''allOf'' unique))"

subsection \<open>Named children\<close>

definition dict_names :: "pyval \<Rightarrow> string list" where
  "dict_names v = map key_text (keys_of (dict_items v))"

text \<open>Statically named fields, composed and literal ones included\<close>

function (sequential) schema_explicit_child_names :: "schema \<Rightarrow> string list" where
  "schema_explicit_child_names (SObj k) =
     keys_of (opt_list (kw_props k)) @
     concat (map dict_names (case kw_const k of None \<Rightarrow> [] | Some c \<Rightarrow> [c])) @
     concat (map dict_names (opt_list (kw_enum k))) @
     concat (map schema_explicit_child_names (opt_list (kw_any k))) @
     concat (map schema_explicit_child_names (opt_list (kw_one k))) @
     concat (map schema_explicit_child_names (opt_list (kw_all k)))"
| "schema_explicit_child_names _ = []"
  by pat_completeness auto
termination
  by (relation "measure size") (auto simp del: schema.size intro: size_laws)

definition has_direct_object_shape :: "schema kws \<Rightarrow> bool" where
  "has_direct_object_shape k \<longleftrightarrow>
     kw_type k \<noteq> None \<or> kw_props k \<noteq> None \<or> kw_required k \<noteq> None \<or> kw_additional k \<noteq> None"

text \<open>What the object keywords say of a child: \<open>None\<close> when there can be none.\<close>

definition direct_constraints :: "schema kws \<Rightarrow> string \<Rightarrow> schema list option" where
  "direct_constraints k name =
     (if \<not> has_direct_object_shape k then Some []
      else if JObject \<notin> set (normalized_schema_types (SObj k)) then None
      else case map_of (opt_list (kw_props k)) name of
          Some s \<Rightarrow> Some [s]
        | None \<Rightarrow>
            (case kw_additional k of
               Some SFalse \<Rightarrow> None
             | Some (SObj a) \<Rightarrow> Some [SObj a]
             | _ \<Rightarrow> Some []))"

definition literal_child :: "pyval \<Rightarrow> string \<Rightarrow> schema option" where
  "literal_child v name = map_option literal_data_key_schema (map_of (dict_items v) (KStr name))"

definition const_constraints :: "schema kws \<Rightarrow> string \<Rightarrow> schema list option" where
  "const_constraints k name =
     (case kw_const k of None \<Rightarrow> Some [] | Some c \<Rightarrow> map_option (\<lambda>s. [s]) (literal_child c name))"

definition union_constraint :: "schema list \<Rightarrow> string \<Rightarrow> schema list option res" where
  "union_constraint options path =
     (if options = [] then Inr None else bind_r (schema_union options path) (\<lambda>s. Inr (Some [s])))"

definition enum_constraints :: "schema kws \<Rightarrow> string \<Rightarrow> string \<Rightarrow> schema list option res" where
  "enum_constraints k name path =
     (case kw_enum k of
        None \<Rightarrow> Inr (Some [])
      | Some vs \<Rightarrow> union_constraint (List.map_filter (\<lambda>v. literal_child v name) vs) (path @ ''.'' @ name))"

text \<open>Constraints in order; the first source that rules a child out ends the search.\<close>

fun collect_constraints :: "schema list option res list \<Rightarrow> schema list option res" where
  "collect_constraints [] = Inr (Some [])"
| "collect_constraints (r # rs) =
     bind_r r (\<lambda>c. case c of
         None \<Rightarrow> Inr None
       | Some cs \<Rightarrow> bind_r (collect_constraints rs) (\<lambda>d. Inr (map_option (\<lambda>ds. cs @ ds) d)))"

definition branch_constraints ::
    "(string \<Rightarrow> schema \<Rightarrow> schema res) \<Rightarrow> string \<Rightarrow> string \<Rightarrow> string \<Rightarrow> schema list option \<Rightarrow> schema list option res" where
  "branch_constraints child keyword name path branches =
     (case branches of
        None \<Rightarrow> Inr (Some [])
      | Some bs \<Rightarrow>
          bind_r (map_r (child (path @ ''.'' @ keyword)) bs) (\<lambda>children.
          union_constraint (filter (\<lambda>c. c \<noteq> SFalse) children) (path @ ''.'' @ name)))"

lemma branch_constraints_cong [fundef_cong]:
  "keyword = keyword' \<Longrightarrow> name = name' \<Longrightarrow> path = path' \<Longrightarrow> branches = branches' \<Longrightarrow>
   (\<And>p bs b. branches' = Some bs \<Longrightarrow> b \<in> set bs \<Longrightarrow> child p b = child' p b) \<Longrightarrow>
   branch_constraints child keyword name path branches = branch_constraints child' keyword' name' path' branches'"
  by (auto simp: branch_constraints_def intro!: bind_r_cong map_r_cong split: option.splits)

definition all_constraints ::
    "(string \<Rightarrow> schema \<Rightarrow> schema res) \<Rightarrow> string \<Rightarrow> string \<Rightarrow> schema list option \<Rightarrow> schema list option res" where
  "all_constraints child name path branches =
     (case branches of
        None \<Rightarrow> Inr (Some [])
      | Some bs \<Rightarrow>
          bind_r (map_r (child (path @ ''.allOf'')) bs) (\<lambda>children.
          if SFalse \<in> set children then Inr None
          else bind_r (schema_intersection children (path @ ''.'' @ name)) (\<lambda>s. Inr (Some [s]))))"

lemma all_constraints_cong [fundef_cong]:
  "name = name' \<Longrightarrow> path = path' \<Longrightarrow> branches = branches' \<Longrightarrow>
   (\<And>p bs b. branches' = Some bs \<Longrightarrow> b \<in> set bs \<Longrightarrow> child p b = child' p b) \<Longrightarrow>
   all_constraints child name path branches = all_constraints child' name' path' branches'"
  by (auto simp: all_constraints_def intro!: bind_r_cong map_r_cong split: option.splits)

text \<open>The value contract of a named child; \<open>SFalse\<close> when there is none.\<close>

function (sequential) schema_child_schema :: "string \<Rightarrow> string \<Rightarrow> schema \<Rightarrow> schema res" where
  "schema_child_schema name path (SObj k) =
     bind_r (collect_constraints
       [Inr (direct_constraints k name),
        Inr (const_constraints k name),
        enum_constraints k name path,
        branch_constraints (\<lambda>p b. schema_child_schema name p b) ''anyOf'' name path (kw_any k),
        branch_constraints (\<lambda>p b. schema_child_schema name p b) ''oneOf'' name path (kw_one k),
        all_constraints (\<lambda>p b. schema_child_schema name p b) name path (kw_all k)]) (\<lambda>found.
     case found of
       None \<Rightarrow> Inr SFalse
     | Some constraints \<Rightarrow> schema_intersection constraints (path @ ''.'' @ name))"
| "schema_child_schema name path _ = Inr SFalse"
  by pat_completeness auto
termination
  by (relation "measure (\<lambda>(name, path, s). size s)") (auto simp del: schema.size intro: size_laws)

declare schema_child_schema.simps [simp del] schema_explicit_child_names.simps [simp del]

subsection \<open>Paths\<close>

type_synonym contracts = "(string \<times> schema) list"

fun resolve_segments :: "string list \<Rightarrow> schema \<Rightarrow> string list \<Rightarrow> schema option res" where
  "resolve_segments done schema [] = Inr (Some schema)"
| "resolve_segments done schema (seg # segs) =
     bind_r (schema_child_schema seg (join_str ''.'' done) schema) (\<lambda>child.
     if child = SFalse then Inr None else resolve_segments (done @ [seg]) child segs)"

text \<open>\<open>None\<close> is the default.\<close>

definition resolve_expanded_contract_path :: "contracts \<Rightarrow> string \<Rightarrow> schema option res" where
  "resolve_expanded_contract_path expanded path =
     bind_r (split_data_path path) (\<lambda>parts.
     case map_of expanded (hd parts) of
       None \<Rightarrow> Inr None
     | Some schema \<Rightarrow> resolve_segments [hd parts] schema (tl parts))"

text \<open>The first invalid path raises.\<close>

definition expanded_contract_root_paths :: "contracts \<Rightarrow> string list res" where
  "expanded_contract_root_paths expanded =
     bind_r (map_r (\<lambda>(path, s). bind_r (split_data_path path) (\<lambda>parts. Inr (path, length parts = 1))) expanded)
       (\<lambda>roots. Inr (map fst (filter snd roots)))"

fun required_path_schema :: "string list \<Rightarrow> schema" where
  "required_path_schema [] = any_schema"
| "required_path_schema (seg # segs) =
     SObj (Kws (Some [JObject]) (Some [(seg, required_path_schema segs)]) (Some [seg]) (Some STrue)
       None None None None None None [])"

definition expanded_contract_path_required :: "contracts \<Rightarrow> string list option \<Rightarrow> string \<Rightarrow> bool res" where
  "expanded_contract_path_required expanded required_roots path =
     bind_r (split_data_path path) (\<lambda>parts.
     case map_of expanded (hd parts) of
       None \<Rightarrow> Inr False
     | Some schema \<Rightarrow>
         bind_r (case required_roots of None \<Rightarrow> expanded_contract_root_paths expanded | Some roots \<Rightarrow> Inr roots) (\<lambda>roots.
         if hd parts \<notin> set roots then Inr False
         else if tl parts = [] then Inr True
         else normalized_schemas_compatible schema (required_path_schema (tl parts))))"

subsection \<open>Merging object contracts\<close>

fun kws_of :: "schema \<Rightarrow> schema kws" where
  "kws_of (SObj k) = k"
| "kws_of _ = no_kws"

definition conflict :: "string \<Rightarrow> 'a res" where
  "conflict path = Inl (ValueError (''DataKey '' @ quoted path @ '' has conflicting schemas.''))"

definition structural_keywords :: "string list" where
  "structural_keywords = [''type'', ''properties'', ''required'', ''additionalProperties'']"

text \<open>The keywords besides the structural ones: equal on both sides or on one side only\<close>

definition merge_keyword ::
    "string \<Rightarrow> (pykey \<times> pyval) list \<Rightarrow> (pykey \<times> pyval) list \<Rightarrow> string \<Rightarrow> (pykey \<times> pyval) res" where
  "merge_keyword path left right keyword =
     (case (map_of left (KStr keyword), map_of right (KStr keyword)) of
        (Some a, Some b) \<Rightarrow>
          if json_values_equal a b then Inr (KStr keyword, a)
          else Inl (ValueError (''DataKey '' @ quoted path @ '' has conflicting object keyword '' @ quoted keyword @ ''.''))
      | (Some a, None) \<Rightarrow> Inr (KStr keyword, a)
      | (None, Some b) \<Rightarrow> Inr (KStr keyword, b)
      | (None, None) \<Rightarrow> Inr (KStr keyword, PNone))"

definition merge_keywords :: "string \<Rightarrow> schema \<Rightarrow> schema \<Rightarrow> (pykey \<times> pyval) list res" where
  "merge_keywords path l r =
     (let left = dict_items (schema_to_py l); right = dict_items (schema_to_py r) in
      map_r (merge_keyword path left right)
        (filter (\<lambda>n. n \<notin> set structural_keywords) (sorted_set (map key_text (keys_of left @ keys_of right)))))"

definition mutually_compatible :: "schema \<Rightarrow> schema \<Rightarrow> bool res" where
  "mutually_compatible a b =
     bind_r (normalized_schemas_compatible a b) (\<lambda>ab.
     if ab then normalized_schemas_compatible b a else Inr False)"

definition both_objects :: "schema \<Rightarrow> schema \<Rightarrow> bool" where
  "both_objects a b \<longleftrightarrow> JObject \<in> set (normalized_schema_types a) \<and> JObject \<in> set (normalized_schema_types b)"

text \<open>A property both sides declare\<close>

definition merge_property ::
    "(schema \<Rightarrow> schema \<Rightarrow> string \<Rightarrow> schema res) \<Rightarrow> string \<Rightarrow> (string \<times> schema) list \<Rightarrow> string \<times> schema \<Rightarrow> (string \<times> schema) res" where
  "merge_property merge path left_properties = (\<lambda>(name, child).
     case map_of left_properties name of
       None \<Rightarrow> Inr (name, child)
     | Some existing \<Rightarrow>
         if same existing child then Inr (name, child)
         else if both_objects existing child
         then bind_r (merge existing child (path @ ''.'' @ name)) (\<lambda>m. Inr (name, m))
         else bind_r (mutually_compatible existing child) (\<lambda>ok.
           if ok then Inr (name, existing) else conflict (path @ ''.'' @ name)))"

lemma merge_property_cong [fundef_cong]:
  "path = path' \<Longrightarrow> ps = ps' \<Longrightarrow> x = x' \<Longrightarrow>
   (\<And>e q. map_of ps' (fst x') = Some e \<Longrightarrow> merge e (snd x') q = merge' e (snd x') q) \<Longrightarrow>
   merge_property merge path ps x = merge_property merge' path' ps' x'"
  by (auto simp: merge_property_def intro!: bind_r_cong split: option.splits prod.splits)

text \<open>A typed map of one side against the properties the other side names\<close>

definition check_typed_map :: "string \<Rightarrow> (string \<times> schema) list \<Rightarrow> schema \<Rightarrow> unit res" where
  "check_typed_map path explicit_properties other_extra =
     (case other_extra of
        SObj a \<Rightarrow> iter_r (\<lambda>(name, child).
          bind_r (mutually_compatible child other_extra) (\<lambda>ok.
          if ok then Inr () else conflict (path @ ''.'' @ name))) explicit_properties
      | _ \<Rightarrow> Inr ())"

definition extra_of :: "schema kws \<Rightarrow> schema" where
  "extra_of k = (case kw_additional k of None \<Rightarrow> STrue | Some s \<Rightarrow> s)"

definition merge_extra ::
    "(schema \<Rightarrow> schema \<Rightarrow> string \<Rightarrow> schema res) \<Rightarrow> string \<Rightarrow> schema option \<Rightarrow> schema option \<Rightarrow> schema res" where
  "merge_extra merge path left right =
     (case (left, right) of
        (Some (SObj a), Some (SObj b)) \<Rightarrow>
          if same (SObj a) (SObj b) then Inr (SObj a)
          else if both_objects (SObj a) (SObj b) then merge (SObj a) (SObj b) (path @ ''.*'')
          else conflict (path @ ''.*'')
      | (Some SFalse, Some r) \<Rightarrow> Inr r
      | (Some l, Some SFalse) \<Rightarrow> Inr l
      | _ \<Rightarrow> Inr STrue)"

lemma merge_extra_cong [fundef_cong]:
  "path = path' \<Longrightarrow> l = l' \<Longrightarrow> r = r' \<Longrightarrow>
   (\<And>a b q. l' = Some a \<Longrightarrow> r' = Some b \<Longrightarrow> merge a b q = merge' a b q) \<Longrightarrow>
   merge_extra merge path l r = merge_extra merge' path' l' r'"
  by (auto simp: merge_extra_def split: option.splits schema.splits)

text \<open>The raw dictionary of the merged contract, before its last normalization\<close>

definition merged_dict ::
    "(pykey \<times> pyval) list \<Rightarrow> schema \<Rightarrow> schema \<Rightarrow> (string \<times> schema) list \<Rightarrow> schema \<Rightarrow> pyval" where
  "merged_dict keywords l r properties extra =
     PDict (keywords @
       [(KStr ''type'', (let names = sorted_set (map jtype_name (normalized_schema_types l @ normalized_schema_types r)) in
           case names of [n] \<Rightarrow> PStr n | _ \<Rightarrow> PList (map PStr names))),
        (KStr ''properties'', PDict (map (\<lambda>(n, s). (KStr n, schema_to_py s)) properties)),
        (KStr ''required'', PList (map PStr (sorted_set (opt_list (kw_required (kws_of l)) @ opt_list (kw_required (kws_of r)))))),
        (KStr ''additionalProperties'', schema_to_py extra)])"

lemma size_kws_of_parts [size_laws]:
  "map_of (opt_list (kw_props (kws_of l))) n = Some s \<Longrightarrow> size s < size l"
  "(n, s) \<in> set (opt_list (kw_props (kws_of l))) \<Longrightarrow> size s < size l"
  "kw_additional (kws_of l) = Some s \<Longrightarrow> size s < size l"
  by (cases l; auto simp del: schema.size dest!: map_of_in_set intro: size_laws)+

function merge_object_schemas :: "schema \<Rightarrow> schema \<Rightarrow> string \<Rightarrow> schema res" where
  "merge_object_schemas l r path =
     (if l = SFalse \<or> r = SFalse then conflict path
      else if l \<noteq> any_schema \<and> JObject \<notin> set (normalized_schema_types l) \<or>
              r \<noteq> any_schema \<and> JObject \<notin> set (normalized_schema_types r)
      then Inl (ValueError (''DataKey parent '' @ quoted path @ '' is not an object.''))
      else
      let lk = kws_of l; rk = kws_of r;
          left_properties = opt_list (kw_props (kws_of l)); right_properties = opt_list (kw_props (kws_of r)) in
      bind_r (merge_keywords path l r) (\<lambda>keywords.
      bind_r (map_r (merge_property (\<lambda>a b q. merge_object_schemas a b q) path (opt_list (kw_props (kws_of l))))
        (opt_list (kw_props (kws_of r)))) (\<lambda>merged.
      bind_r (check_typed_map path left_properties (extra_of rk)) (\<lambda>_.
      bind_r (check_typed_map path right_properties (extra_of lk)) (\<lambda>_.
      bind_r (merge_extra (\<lambda>a b q. merge_object_schemas a b q) path (kw_additional (kws_of l)) (kw_additional (kws_of r))) (\<lambda>extra.
      normalize_schema (merged_dict keywords l r (fold (\<lambda>(n, s). AList.update n s) merged left_properties) extra)))))))"
  by pat_completeness auto
termination
  by (relation "measure (\<lambda>(l, r, path). size l)") (auto simp del: schema.size intro: size_laws)

declare merge_object_schemas.simps [simp del]

subsection \<open>Expansion\<close>

text \<open>The nested dictionaries of path segments\<close>

datatype path_tree = Node (branches: "(string \<times> path_tree) list")

fun insert_path :: "string list \<Rightarrow> path_tree \<Rightarrow> path_tree" where
  "insert_path [] t = t"
| "insert_path (part # parts) (Node ts) =
     Node (AList.update part (insert_path parts (case map_of ts part of None \<Rightarrow> Node [] | Some t \<Rightarrow> t)) ts)"

type_synonym declared = "(string list \<times> schema) list"

fun declare_contracts :: "path_tree \<Rightarrow> declared \<Rightarrow> (string \<times> pyval) list \<Rightarrow> (path_tree \<times> declared) res" where
  "declare_contracts tree explicit [] = Inr (tree, explicit)"
| "declare_contracts tree explicit ((path, raw) # rest) =
     bind_r (split_data_path path) (\<lambda>parts.
     bind_r (normalize_data_key_schema_uncached path raw) (\<lambda>normalized.
     if (case map_of explicit parts of None \<Rightarrow> False | Some previous \<Rightarrow> \<not> same previous normalized)
     then Inl (ValueError (''DataKey '' @ quoted path @ '' has duplicate conflicting schemas.''))
     else declare_contracts (insert_path parts tree) (AList.update parts normalized explicit) rest))"

text \<open>Whether a declared child adds something to its parent's own contract\<close>

definition independent_child :: "schema option \<Rightarrow> string \<Rightarrow> string \<times> schema \<Rightarrow> bool res" where
  "independent_child own path = (\<lambda>(name, child).
     case own of
       None \<Rightarrow> Inr True
     | Some o1 \<Rightarrow>
         if (case map_of (opt_list (kw_props (kws_of o1))) name of None \<Rightarrow> False | Some e \<Rightarrow> same e child) then Inr False
         else bind_r (schema_child_schema name (path @ ''.'' @ name) o1) (\<lambda>resolved.
           Inr (\<not> (resolved \<noteq> SFalse \<and> same resolved child))))"

definition children_schema :: "schema option \<Rightarrow> (string \<times> schema) list \<Rightarrow> schema" where
  "children_schema own children =
     (let existing = (case own of None \<Rightarrow> [] | Some o1 \<Rightarrow> keys_of (opt_list (kw_props (kws_of o1)))) in
      SObj (Kws (Some [JObject]) (Some children)
        (Some (sorted_set (filter (\<lambda>n. n \<notin> set existing) (keys_of children))))
        (Some SFalse) None None None None None None []))"

definition keep_independent ::
    "schema option \<Rightarrow> string \<Rightarrow> (string \<times> schema) list \<Rightarrow> (string \<times> schema) list res" where
  "keep_independent own path children =
     bind_r (map_r (\<lambda>c. bind_r (independent_child own path c) (\<lambda>b. Inr (b, c))) children)
       (\<lambda>flagged. Inr (map snd (filter fst flagged)))"

definition finish_node :: "declared \<Rightarrow> string list \<Rightarrow> (string \<times> schema) list \<Rightarrow> schema res" where
  "finish_node explicit parts children =
     (let path = join_str ''.'' parts; own = map_of explicit parts in
      bind_r (keep_independent own path children) (\<lambda>independent.
      bind_r (if independent = [] then Inr own
              else case own of
                  None \<Rightarrow> Inr (Some (children_schema own independent))
                | Some o1 \<Rightarrow> bind_r (merge_object_schemas o1 (children_schema own independent) path) (\<lambda>m. Inr (Some m)))
        (\<lambda>result. normalize_data_key_schema_uncached path
           (case result of None \<Rightarrow> PDict [] | Some s \<Rightarrow> schema_to_py s))))"

lemma size_branches [size_laws]: "(n, t) \<in> set (branches tree) \<Longrightarrow> size t < size tree"
proof (cases tree)
  case (Node ts)
  assume "(n, t) \<in> set (branches tree)"
  then have "size_prod (\<lambda>_. 0) size (n, t) \<le> size_list (size_prod (\<lambda>_. 0) size) ts"
    by (intro size_list_mem_le) (simp add: Node)
  then show ?thesis by (simp add: Node)
qed

function build_node :: "declared \<Rightarrow> string list \<Rightarrow> path_tree \<Rightarrow> schema res" where
  "build_node explicit parts tree =
     bind_r (map_r (\<lambda>(name, child). bind_r (build_node explicit (parts @ [name]) child) (\<lambda>s. Inr (name, s)))
       (branches tree)) (\<lambda>children. finish_node explicit parts children)"
  by pat_completeness auto
termination
  by (relation "measure (\<lambda>(explicit, parts, tree). size tree)") (auto simp del: path_tree.size intro: size_branches)

declare build_node.simps [simp del]

definition recursion_error :: py_error where
  "recursion_error = OtherError CHR ''R'' ''ecursionError'' ''maximum recursion depth exceeded''"

text \<open>\<open>emit\<close>: the contract of a path and of everything named below it\<close>

definition settle_emitted :: "contracts \<Rightarrow> string \<Rightarrow> schema \<Rightarrow> schema res" where
  "settle_emitted expanded path schema =
     bind_r (normalize_data_key_schema_uncached path (schema_to_py schema)) (\<lambda>normalized.
     case map_of expanded path of
       None \<Rightarrow> Inr normalized
     | Some existing \<Rightarrow>
         if same existing normalized then Inr normalized
         else if both_objects existing normalized then merge_object_schemas existing normalized path
         else conflict path)"

fun emit_path :: "nat \<Rightarrow> string \<Rightarrow> schema \<Rightarrow> contracts \<Rightarrow> contracts res"
and emit_children :: "nat \<Rightarrow> string \<Rightarrow> schema \<Rightarrow> string list \<Rightarrow> contracts \<Rightarrow> contracts res" where
  "emit_path 0 path schema expanded = Inl recursion_error"
| "emit_path (Suc limit) path schema expanded =
     bind_r (settle_emitted expanded path schema) (\<lambda>normalized.
     emit_children limit path normalized (sorted_set (schema_explicit_child_names normalized))
       (AList.update path normalized expanded))"
| "emit_children limit path schema [] expanded = Inr expanded"
| "emit_children limit path schema (name # names) expanded =
     bind_r (schema_child_schema name path schema) (\<lambda>child.
     bind_r (if child = SFalse then Inr expanded else emit_path limit (path @ ''.'' @ name) child expanded)
       (\<lambda>expanded'. emit_children limit path schema names expanded'))"

definition expand_contracts_uncached :: "nat \<Rightarrow> (string \<times> pyval) list \<Rightarrow> contracts res" where
  "expand_contracts_uncached limit raw =
     bind_r (declare_contracts (Node []) [] raw) (\<lambda>(tree, explicit).
     bind_r (map_r (\<lambda>(name, node). bind_r (build_node explicit [name] node) (\<lambda>s. Inr (name, s))) (branches tree)) (\<lambda>roots.
     fold_r (\<lambda>(name, s) expanded. emit_path limit name s expanded) roots []))"

subsection \<open>The expansion cache\<close>

text \<open>Inside \<open>contract_expansion_cache_scope\<close> the expansions of exact JSON contract maps are kept,
  serialized, under the serialized map, the most recently used last.\<close>

definition cache_max_entries :: nat where
  "cache_max_entries = 32"

type_synonym cache = "(string \<times> string) list"

definition move_to_end :: "string \<Rightarrow> cache \<Rightarrow> cache" where
  "move_to_end key cache = (case map_of cache key of None \<Rightarrow> cache | Some v \<Rightarrow> AList.delete key cache @ [(key, v)])"

definition remember :: "string \<Rightarrow> string \<Rightarrow> cache \<Rightarrow> cache" where
  "remember key encoded cache =
     (let grown = move_to_end key (AList.update key encoded cache) in drop (length grown - cache_max_entries) grown)"

definition raw_map :: "(string \<times> pyval) list \<Rightarrow> pyval" where
  "raw_map raw = PDict (map (\<lambda>(n, v). (KStr n, v)) raw)"

definition contracts_to_py :: "contracts \<Rightarrow> pyval" where
  "contracts_to_py expanded = raw_map (map (\<lambda>(n, s). (n, schema_to_py s)) expanded)"

definition expand_contracts ::
    "(pyval \<Rightarrow> string) \<Rightarrow> (pyval \<Rightarrow> string) \<Rightarrow> (string \<Rightarrow> pyval) \<Rightarrow> nat \<Rightarrow> cache option \<Rightarrow>
     (string \<times> pyval) list \<Rightarrow> pyval res \<times> cache option" where
  "expand_contracts dumps dumps_sorted loads limit cache raw =
     (let uncached = bind_r (expand_contracts_uncached limit raw) (\<lambda>e. Inr (contracts_to_py e)) in
      case cache of
        None \<Rightarrow> (uncached, None)
      | Some entries \<Rightarrow>
          if \<not> is_exact_json (raw_map raw) then (uncached, cache)
          else let key = dumps (raw_map raw) in
            case map_of entries key of
              Some encoded \<Rightarrow> (Inr (loads encoded), Some (move_to_end key entries))
            | None \<Rightarrow>
                (case uncached of
                   Inl e \<Rightarrow> (Inl e, cache)
                 | Inr expanded \<Rightarrow>
                     if is_exact_json expanded
                     then (Inr expanded, Some (remember key (dumps_sorted expanded) entries))
                     else (Inr expanded, cache)))"

subsection \<open>Queries on declared contracts\<close>

text \<open>The queries expand first; here outside a cache scope.\<close>

definition resolve_contract_path :: "nat \<Rightarrow> (string \<times> pyval) list \<Rightarrow> string \<Rightarrow> schema option res" where
  "resolve_contract_path limit raw path =
     bind_r (expand_contracts_uncached limit raw) (\<lambda>expanded. resolve_expanded_contract_path expanded path)"

definition contract_root_paths :: "nat \<Rightarrow> (string \<times> pyval) list \<Rightarrow> string list res" where
  "contract_root_paths limit raw = bind_r (expand_contracts_uncached limit raw) expanded_contract_root_paths"

definition contract_path_required ::
    "nat \<Rightarrow> (string \<times> pyval) list \<Rightarrow> string list option \<Rightarrow> string \<Rightarrow> bool res" where
  "contract_path_required limit raw required_roots path =
     bind_r (expand_contracts_uncached limit raw) (\<lambda>expanded.
     expanded_contract_path_required expanded required_roots path)"

text \<open>\<open>str.strip('.')\<close>\<close>

definition strip_dots :: "string \<Rightarrow> string" where
  "strip_dots t = rev (dropWhile (\<lambda>c. c = CHR ''.'') (rev (dropWhile (\<lambda>c. c = CHR ''.'') t)))"

definition prefixed_contracts :: "nat \<Rightarrow> string \<Rightarrow> (string \<times> pyval) list \<Rightarrow> contracts res" where
  "prefixed_contracts limit pre raw =
     (let p = strip_dots pre; rooted = (\<lambda>data_key. if p = [] then data_key else p @ ''.'' @ data_key) in
      bind_r (map_r (\<lambda>(data_key, schema).
          bind_r (normalize_data_key_schema_uncached (rooted data_key) schema) (\<lambda>s.
          Inr (rooted data_key, schema_to_py s))) raw)
        (expand_contracts_uncached limit))"

end
