(* ===== verification/Contract_Paths.thy ===== *)
theory Contract_Paths
  imports Contract_Expansion
begin

section \<open>Contract paths are sound\<close>

text \<open>
  What the structural queries on contracts mean for values: the contract resolved for a path
  accepts every value found at the path of an accepted object, a path reported as required is
  present in every accepted object, a literal contract accepts the values equal to the literal,
  and the expansion cache returns what an expansion without it would.
\<close>

subsection \<open>Literals\<close>

abbreviation const_schema :: "pyval \<Rightarrow> schema" where
  "const_schema v \<equiv> SObj (Kws None None None None None None (Some v) None None None [])"

definition bare :: "schema kws \<Rightarrow> bool" where
  "bare k \<longleftrightarrow> kw_type k = None \<and> kw_props k = None \<and> kw_required k = None \<and> kw_additional k = None \<and> kw_items k = None"

lemma accepts_bare:
  assumes "bare k"
  shows "accepts v (SObj k) \<longleftrightarrow> exact_json v \<and> branches_ok v k \<and> literals_ok v k"
proof -
  have "member_contract k n = member_contract no_kws n" for n
    using assms by (simp add: bare_def member_contract_def open_contract_def)
  then have "member_ok k kv = member_ok no_kws kv" for kv
    by (cases kv) (simp add: member_ok_def split: pykey.split)
  moreover have "item_contract k = any_schema" using assms by (simp add: bare_def item_contract_def)
  ultimately have "children_ok v k = children_ok v no_kws"
    using assms by (cases v) (simp_all add: children_ok_def bare_def item_contract_def)
  moreover have "types_ok v k \<longleftrightarrow> json_type v \<noteq> None"
    using assms by (auto simp: types_ok_def bare_def declared_types_def type_allowed_any)
  moreover have "json_type v \<noteq> None" if "exact_json v" using that by (cases v) simp_all
  moreover have "exact_json v \<longleftrightarrow> \<not> non_json v \<and> children_ok v no_kws"
    using accepts_any_exact[of v] by (simp only: accepts_any)
  ultimately show ?thesis unfolding accepts_SObj by auto
qed

lemma accepts_const: "accepts v (const_schema c) \<longleftrightarrow> exact_json v \<and> json_values_equal v c"
  by (subst accepts_bare) (auto simp: bare_def branches_ok_def literals_ok_def)

lemma const_schema_ok: "exact_json c \<Longrightarrow> wf_val c \<Longrightarrow> contract_ok (const_schema c)"
  using accepts_const[of c c] json_equal_finite_refl[of c]
  by (auto simp: schema_ok.simps level_ok_def accepts_def)

lemma key_text_string: "exact_json (PDict kvs) \<Longrightarrow> (k, v) \<in> set kvs \<Longrightarrow> k = KStr (key_text k)"
  by (auto simp: list_all_iff)

lemma keys_of_pair: "k \<in> set (keys_of kvs) \<Longrightarrow> \<exists>v. (k, v) \<in> set kvs"
  by auto

lemma literal_properties:
  assumes "exact_json (PDict kvs)"
  shows "map_of (map (\<lambda>(k, v). (key_text k, literal_data_key_schema v)) kvs) n =
    map_option literal_data_key_schema (map_of kvs (KStr n))"
  using assms by (induction kvs) (auto split: pykey.splits)

lemma exact_equal_exact: "json_values_equal x y \<Longrightarrow> wf_val x \<Longrightarrow> wf_val y \<Longrightarrow> exact_json y \<Longrightarrow> exact_json x"
  using accepts_equal_imp[of x y any_schema] accepts_any_exact by (metis shape_ok_simps(3))

lemma literal_schema_ok: "exact_json v \<Longrightarrow> wf_val v \<Longrightarrow> contract_ok (literal_data_key_schema v)"
proof (induction v rule: measure_induct_rule[of size])
  case (less v)
  show ?case
  proof (cases v)
    case (PDict kvs)
    have keys: "distinct (map (\<lambda>x. key_text (fst x)) kvs)"
    proof -
      have "inj_on key_text (set (keys_of kvs))"
        using key_text_string[OF less.prems(1)[unfolded PDict]] by (intro inj_onI) (metis keys_of_pair)
      moreover have "distinct (keys_of kvs)" using less.prems(2) PDict by simp
      ultimately have "distinct (map key_text (keys_of kvs))" by (subst distinct_map) simp
      then show ?thesis by (simp add: comp_def)
    qed
    have child: "contract_ok (literal_data_key_schema c)" if "(k, c) \<in> set kvs" for k c
      using less.IH[of c] size_dict_item[OF that] less.prems that by (auto simp: PDict list_all_iff simp del: pyval.size)
    then show ?thesis
      using keys
      by (auto simp: PDict schema_ok.simps level_ok_def list_all_iff comp_def case_prod_beta')
  qed (use const_schema_ok[OF less.prems] in auto)
qed

lemma literal_accepts:
  "json_values_equal x v \<Longrightarrow> exact_json v \<Longrightarrow> wf_val v \<Longrightarrow> wf_val x \<Longrightarrow> accepts x (literal_data_key_schema v)"
proof (induction v arbitrary: x rule: measure_induct_rule[of size])
  case (less v)
  show ?case
  proof (cases v)
    case (PDict kvs)
    from less.prems(1) PDict obtain d where x: "x = PDict d" by (cases x) auto
    have keys: "set (keys_of d) = set (keys_of kvs)" using less.prems(1) by (simp add: PDict x)
    have member: "\<exists>n w. key = KStr n \<and> map_of kvs (KStr n) = Some w \<and> accepts c (literal_data_key_schema w)"
      if kc: "(key, c) \<in> set d" for key c
    proof -
      have "key \<in> set (keys_of kvs)" using kc keys by force
      then obtain n where n: "key = KStr n" using less.prems(2) by (auto simp: PDict list_all_iff)
      have "map_of d (KStr n) = Some c" using kc n less.prems(4) by (simp add: x)
      with json_equal_lookup[OF less.prems(1)[unfolded PDict x], of "KStr n"]
      obtain w where w: "map_of kvs (KStr n) = Some w" "json_values_equal c w" by (auto elim: option.rel_cases)
      have mem: "(KStr n, w) \<in> set kvs" using w(1) by (rule map_of_in_set)
      have "exact_json w" "wf_val w" using less.prems(2,3) mem by (auto simp: PDict list_all_iff)
      moreover have "wf_val c" using less.prems(4) kc by (auto simp: x list_all_iff)
      ultimately have "accepts c (literal_data_key_schema w)"
        using less.IH[of w c] size_dict_item[OF mem] w(2) by (simp add: PDict del: pyval.size)
      with n w(1) show ?thesis by blast
    qed
    note props = literal_properties[OF less.prems(2)[unfolded PDict]]
    have "KStr n \<in> set (keys_of d)" if "n \<in> key_text ` set (keys_of kvs)" for n
      using that keys key_text_string[OF less.prems(2)[unfolded PDict]] by (metis imageE keys_of_pair)
    then have names: "\<forall>n \<in> set (map (\<lambda>(k, v). key_text k) kvs). KStr n \<in> set (keys_of d)"
      by (force simp: case_prod_beta)
    have "member_ok (kws_of (literal_data_key_schema v)) kc" if "kc \<in> set d" for kc
      using member[of "fst kc" "snd kc"] that by (cases kc) (auto simp: PDict member_ok_def member_contract_def props)
    with names have "children_ok x (kws_of (literal_data_key_schema v))"
      by (simp add: PDict x children_ok_def)
    then show ?thesis
      by (simp add: PDict x accepts_SObj branches_ok_def types_ok_def literals_ok_def declared_types_def type_allowed_def)
  qed (use less.prems exact_equal_exact in \<open>auto simp: accepts_const\<close>)
qed

subsection \<open>Unions and intersections\<close>

lemma unique_schemas_fold:
  "set u \<subseteq> set (fold (\<lambda>opt u. if list_ex (same opt) u then u else u @ [opt]) xs u) \<and>
   set (fold (\<lambda>opt u. if list_ex (same opt) u then u else u @ [opt]) xs u) \<subseteq> set u \<union> set xs \<and>
   (\<forall>x \<in> set xs. \<exists>y \<in> set (fold (\<lambda>opt u. if list_ex (same opt) u then u else u @ [opt]) xs u). x = y \<or> same x y)"
proof (induction xs arbitrary: u)
  case (Cons x xs)
  let ?u = "if list_ex (same x) u then u else u @ [x]"
  have x: "\<exists>y \<in> set ?u. x = y \<or> same x y" by (auto simp: list_ex_iff)
  note IH = Cons.IH[of ?u]
  from x IH have "\<exists>y \<in> set (fold (\<lambda>opt u. if list_ex (same opt) u then u else u @ [opt]) xs ?u). x = y \<or> same x y"
    by (meson subsetD)
  with IH show ?case by (auto split: if_splits)
qed simp

lemma unique_schemas_subset: "set (unique_schemas xs) \<subseteq> set xs"
  using unique_schemas_fold[of "[]" xs] by (simp add: unique_schemas_def)

lemma unique_schemas_accepts:
  assumes "\<forall>s \<in> set xs. schema_ok s"
  shows "(\<exists>s \<in> set (unique_schemas xs). accepts v s) \<longleftrightarrow> (\<exists>s \<in> set xs. accepts v s)"
    and "(\<forall>s \<in> set (unique_schemas xs). accepts v s) \<longleftrightarrow> (\<forall>s \<in> set xs. accepts v s)"
proof -
  have "\<exists>y \<in> set (unique_schemas xs). accepts v x = accepts v y" if mem: "x \<in> set xs" for x
  proof -
    obtain y where "y \<in> set (unique_schemas xs)" "x = y \<or> same x y"
      using unique_schemas_fold[of "[]" xs, THEN conjunct2, THEN conjunct2, rule_format, OF mem]
      unfolding unique_schemas_def by blast
    moreover from this have "schema_ok x" "schema_ok y" using assms mem unique_schemas_subset[of xs] by auto
    ultimately show ?thesis using same_accepts[of x y v] schema_ok_shape by blast
  qed
  then show "(\<exists>s \<in> set (unique_schemas xs). accepts v s) \<longleftrightarrow> (\<exists>s \<in> set xs. accepts v s)"
    "(\<forall>s \<in> set (unique_schemas xs). accepts v s) \<longleftrightarrow> (\<forall>s \<in> set xs. accepts v s)"
    using unique_schemas_subset[of xs] by blast+
qed

abbreviation any_of :: "schema list \<Rightarrow> schema" where
  "any_of bs \<equiv> SObj (Kws None None None None None None None (Some bs) None None [])"

abbreviation all_of :: "schema list \<Rightarrow> schema" where
  "all_of bs \<equiv> SObj (Kws None None None None None None None None None (Some bs) [])"

lemma branches_to_py:
  "branches_schema ''anyOf'' bs = schema_to_py (any_of bs)" "branches_schema ''allOf'' bs = schema_to_py (all_of bs)"
  by (simp_all add: branches_schema_def schema_to_py.simps opt_entry_def)

lemma accepts_any_of: "bs \<noteq> [] \<Longrightarrow> accepts v (any_of bs) \<longleftrightarrow> exact_json v \<and> (\<exists>b \<in> set bs. accepts v b)"
  by (subst accepts_bare) (auto simp: bare_def branches_ok_def literals_ok_def)

lemma accepts_all_of: "accepts v (all_of bs) \<longleftrightarrow> exact_json v \<and> (\<forall>b \<in> set bs. accepts v b)"
  by (subst accepts_bare) (auto simp: bare_def branches_ok_def literals_ok_def)

lemma branches_ok_schema:
  assumes "bs \<noteq> []" "\<forall>b \<in> set bs. contract_ok b"
  shows "schema_ok (any_of bs)" "schema_ok (all_of bs)"
  using assms by (auto simp: schema_ok.simps level_ok_def list_all_iff)

lemma normalize_contract:
  "contract_ok s \<Longrightarrow> normalize_data_key_schema_uncached path (schema_to_py s) = Inr t \<Longrightarrow> t = s"
  by (auto simp: normalize_data_key_schema_uncached_def normalize_schema_to_py bind_r_Inr_iff)

lemma schema_union_sound:
  assumes "schema_union options path = Inr s" and ok: "\<forall>b \<in> set options. contract_ok b"
  shows "contract_ok s" "accepts v s \<longleftrightarrow> (\<exists>b \<in> set options. accepts v b)"
proof -
  let ?u = "unique_schemas options"
  have u: "\<forall>b \<in> set ?u. contract_ok b" using ok unique_schemas_subset by blast
  have ex: "exact_json v" if "b \<in> set ?u" "accepts v b" for b
    using accepts_exact that u schema_ok_shape by blast
  have "contract_ok s \<and> (accepts v s \<longleftrightarrow> (\<exists>b \<in> set ?u. accepts v b))"
  proof (cases ?u rule: remdups_adj.cases)
    case (3 x y xs)
    then have "normalize_data_key_schema_uncached path (branches_schema ''anyOf'' ?u) = Inr s"
      using assms(1) by (simp add: schema_union_def)
    then have "s = any_of ?u"
      using normalize_contract[of "any_of ?u" path s] branches_ok_schema(1)[OF _ u] 3 by (simp add: branches_to_py)
    then show ?thesis using branches_ok_schema(1)[OF _ u] accepts_any_of[of ?u v] 3 ex by auto
  qed (use assms(1) u in \<open>auto simp: schema_union_def\<close>)
  then show "contract_ok s" "accepts v s \<longleftrightarrow> (\<exists>b \<in> set options. accepts v b)"
    using unique_schemas_accepts(1)[of options v] ok by blast+
qed

lemma schema_intersection_sound:
  assumes "schema_intersection options path = Inr s" and ok: "\<forall>b \<in> set options. contract_ok b"
  shows "contract_ok s" "accepts v s \<longleftrightarrow> exact_json v \<and> (\<forall>b \<in> set options. accepts v b)"
proof -
  define m where "m = filter (\<lambda>s. s \<noteq> any_schema \<and> s \<noteq> STrue) options"
  let ?u = "unique_schemas m"
  have m: "\<forall>b \<in> set m. contract_ok b" using ok by (simp add: m_def)
  then have u: "\<forall>b \<in> set ?u. contract_ok b" using unique_schemas_subset by blast
  have all: "exact_json v \<and> (\<forall>b \<in> set options. accepts v b) \<longleftrightarrow> exact_json v \<and> (\<forall>b \<in> set m. accepts v b)"
    using ok accepts_any_exact[of v] by (auto simp: m_def)
  have ne: "?u \<noteq> []" if "m \<noteq> []"
    using unique_schemas_fold[of "[]" m] that by (cases m) (auto simp: unique_schemas_def)
  note def = assms(1)[unfolded schema_intersection_def Let_def, folded m_def]
  have "contract_ok s \<and> (accepts v s \<longleftrightarrow> exact_json v \<and> (\<forall>b \<in> set m. accepts v b))"
  proof (cases "SFalse \<in> set m \<or> m = []")
    case True
    then show ?thesis using def accepts_any_exact[of v] by (auto split: if_splits intro!: bexI[of _ SFalse])
  next
    case False
    have "contract_ok s \<and> (accepts v s \<longleftrightarrow> exact_json v \<and> (\<forall>b \<in> set ?u. accepts v b))"
    proof (cases ?u rule: remdups_adj.cases)
      case (2 x)
      then show ?thesis using def False u accepts_exact[of v x] schema_ok_shape[of x] by auto
    next
      case (3 x y xs)
      then have "normalize_data_key_schema_uncached path (branches_schema ''allOf'' ?u) = Inr s"
        using def False by simp
      then have "s = all_of ?u"
        using normalize_contract[of "all_of ?u" path s] branches_ok_schema(2)[OF _ u] 3 by (simp add: branches_to_py)
      then show ?thesis using branches_ok_schema(2)[OF _ u] accepts_all_of[of v ?u] 3 by simp
    qed (use ne False in simp)
    then show ?thesis using unique_schemas_accepts(2)[of m v] m by blast
  qed
  then show "contract_ok s" "accepts v s \<longleftrightarrow> exact_json v \<and> (\<forall>b \<in> set options. accepts v b)"
    using all by blast+
qed

subsection \<open>Named children\<close>

text \<open>The constraints a source reports are contracts, and accept a child.\<close>

definition sound_constraints :: "schema list option res \<Rightarrow> bool" where
  "sound_constraints r \<longleftrightarrow> (\<forall>cs. r = Inr (Some cs) \<longrightarrow> (\<forall>c \<in> set cs. contract_ok c))"

definition admits :: "pyval \<Rightarrow> schema list option res \<Rightarrow> bool" where
  "admits x r \<longleftrightarrow> (\<forall>found. r = Inr found \<longrightarrow> (\<exists>cs. found = Some cs \<and> (\<forall>c \<in> set cs. accepts x c)))"

lemma collect_sound: "list_all sound_constraints rs \<Longrightarrow> sound_constraints (collect_constraints rs)"
proof (induction rs)
  case (Cons r rs)
  then have "sound_constraints r" "sound_constraints (collect_constraints rs)" by simp_all
  note parts = this
  have "contract_ok c" if "c \<in> set cs" "collect_constraints (r # rs) = Inr (Some cs)" for c cs
  proof -
    from that(2) obtain a b where "r = Inr (Some a)" "collect_constraints rs = Inr (Some b)" "cs = a @ b"
      by (auto simp: bind_r_Inr_iff split: option.splits)
    with that(1) parts show ?thesis unfolding sound_constraints_def by (metis Un_iff set_append)
  qed
  then show ?case by (simp add: sound_constraints_def)
qed (simp add: sound_constraints_def)

lemma collect_admits: "list_all (admits x) rs \<Longrightarrow> admits x (collect_constraints rs)"
proof (induction rs)
  case (Cons r rs)
  then have "admits x r" "admits x (collect_constraints rs)" by simp_all
  then show ?case by (fastforce simp: admits_def bind_r_Inr_iff split: option.splits)
qed (simp add: admits_def)

lemma union_constraint_sound: "\<forall>b \<in> set options. contract_ok b \<Longrightarrow> sound_constraints (union_constraint options path)"
  using schema_union_sound(1)[of options path]
  by (auto simp: sound_constraints_def union_constraint_def bind_r_Inr_iff split: if_splits)

lemma union_constraint_admits:
  "\<forall>b \<in> set options. contract_ok b \<Longrightarrow> b \<in> set options \<Longrightarrow> accepts x b \<Longrightarrow> admits x (union_constraint options path)"
  using schema_union_sound(2)[of options path _ x]
  by (auto simp: admits_def union_constraint_def bind_r_Inr_iff split: if_splits)

lemma direct_sound: "schema_ok (SObj k) \<Longrightarrow> sound_constraints (Inr (direct_constraints k n))"
  unfolding sound_constraints_def direct_constraints_def
  by (cases "map_of (opt_list (kw_props k)) n"; cases "kw_additional k"; cases "the (kw_additional k)")
    (auto simp del: schema_ok.simps dest: schema_ok_prop schema_ok_subs(2) split: if_splits)

lemma direct_admits:
  assumes "accepts (PDict kvs) (SObj k)" "map_of kvs (KStr n) = Some x"
  shows "admits x (Inr (direct_constraints k n))"
proof -
  have ty: "JObject \<in> set (normalized_schema_types (SObj k))"
    using assms(1) by (auto simp: accepts_SObj types_ok_def type_allowed_def)
  from accepts_memberD[OF assms(1) map_of_in_set[OF assms(2)]]
  obtain t where "member_contract k n = Some t" "accepts x t" by blast
  then show ?thesis
    using ty
    by (auto simp: admits_def direct_constraints_def member_contract_def open_contract_def
        split: option.splits schema.splits)
qed

lemma literal_child_ok:
  assumes "exact_json c" "wf_val c" "literal_child c n = Some s"
  shows "contract_ok s"
proof -
  from assms(3) obtain kvs w where c: "c = PDict kvs" "map_of kvs (KStr n) = Some w" "s = literal_data_key_schema w"
    by (cases c) (auto simp: literal_child_def dict_items_def)
  from map_of_in_set[OF c(2)] assms(1,2) have "exact_json w" "wf_val w" by (auto simp: c(1) list_all_iff)
  then show ?thesis unfolding c(3) by (rule literal_schema_ok)
qed

lemma literal_child_accepts:
  assumes "json_values_equal (PDict kvs) c" "exact_json c" "wf_val c" "wf_val (PDict kvs)" "map_of kvs (KStr n) = Some x"
  shows "\<exists>s. literal_child c n = Some s \<and> accepts x s"
proof -
  from assms(1) obtain d where c: "c = PDict d" by (cases c) auto
  from json_equal_lookup[OF assms(1)[unfolded c], of "KStr n"] assms(5)
  obtain w where w: "map_of d (KStr n) = Some w" "json_values_equal x w" by (auto elim: option.rel_cases)
  have "exact_json w" "wf_val w" "wf_val x"
    using map_of_in_set[OF w(1)] map_of_in_set[OF assms(5)] assms(2-4) by (auto simp: c list_all_iff)
  then have "accepts x (literal_data_key_schema w)" using literal_accepts w(2) by blast
  with w(1) show ?thesis by (simp add: literal_child_def dict_items_def c)
qed

lemma schema_literals:
  assumes "schema_ok (SObj k)"
  shows "kw_const k = Some c \<Longrightarrow> exact_json c \<and> wf_val c" "kw_enum k = Some cs \<Longrightarrow> c \<in> set cs \<Longrightarrow> exact_json c \<and> wf_val c"
  using schema_ok_level[OF assms] accepts_exact[of c "SObj k"] schema_ok_shape[OF assms]
  by (auto simp: level_ok_def accepts_def list_all_iff)

lemma const_sound: "schema_ok (SObj k) \<Longrightarrow> sound_constraints (Inr (const_constraints k n))"
  using literal_child_ok schema_literals(1)[of k]
  by (fastforce simp: sound_constraints_def const_constraints_def split: option.splits)

lemma const_admits:
  assumes "accepts (PDict kvs) (SObj k)" "schema_ok (SObj k)" "wf_val (PDict kvs)" "map_of kvs (KStr n) = Some x"
  shows "admits x (Inr (const_constraints k n))"
proof (cases "kw_const k")
  case (Some c)
  have "json_values_equal (PDict kvs) c" using accepts_literalD(1)[OF assms(1) Some] .
  from literal_child_accepts[OF this _ _ assms(3,4)] schema_literals(1)[OF assms(2) Some] show ?thesis
    by (auto simp: admits_def const_constraints_def Some)
qed (simp add: admits_def const_constraints_def)

lemma set_map_filter: "x \<in> set (List.map_filter f xs) \<longleftrightarrow> (\<exists>y \<in> set xs. f y = Some x)"
  by (force simp: List.map_filter_def)

lemma enum_options_ok:
  "schema_ok (SObj k) \<Longrightarrow> kw_enum k = Some cs \<Longrightarrow> \<forall>b \<in> set (List.map_filter (\<lambda>v. literal_child v n) cs). contract_ok b"
  using literal_child_ok schema_literals(2)[of k cs] by (fastforce simp: set_map_filter)

lemma enum_sound: "schema_ok (SObj k) \<Longrightarrow> sound_constraints (enum_constraints k n path)"
  using union_constraint_sound[OF enum_options_ok]
  by (cases "kw_enum k") (auto simp: enum_constraints_def sound_constraints_def)

lemma enum_admits:
  assumes "accepts (PDict kvs) (SObj k)" "schema_ok (SObj k)" "wf_val (PDict kvs)" "map_of kvs (KStr n) = Some x"
  shows "admits x (enum_constraints k n path)"
proof (cases "kw_enum k")
  case (Some cs)
  obtain c where c: "c \<in> set cs" "json_values_equal (PDict kvs) c" using accepts_literalD(2)[OF assms(1) Some] by blast
  from literal_child_accepts[OF c(2) _ _ assms(3,4)] schema_literals(2)[OF assms(2) Some c(1)]
  obtain s where "literal_child c n = Some s" "accepts x s" by blast
  with c(1) have "s \<in> set (List.map_filter (\<lambda>v. literal_child v n) cs)" "accepts x s" by (auto simp: set_map_filter)
  from union_constraint_admits[OF enum_options_ok[OF assms(2) Some] this] show ?thesis
    by (simp add: enum_constraints_def Some)
qed (simp add: admits_def enum_constraints_def)

lemma branch_sound:
  assumes "\<And>p b c. b \<in> set (opt_list bs) \<Longrightarrow> child p b = Inr c \<Longrightarrow> contract_ok c"
  shows "sound_constraints (branch_constraints child kw n path bs)"
proof (cases bs)
  case (Some xs)
  have "\<forall>b \<in> set (filter (\<lambda>c. c \<noteq> SFalse) cs). contract_ok b" if "map_r (child (path @ ''.'' @ kw)) xs = Inr cs" for cs
    using map_r_in[OF that] assms Some by fastforce
  from union_constraint_sound[OF this] show ?thesis
    unfolding branch_constraints_def Some option.case
    by (cases "map_r (child (path @ ''.'' @ kw)) xs") (auto simp: sound_constraints_def)
qed (simp add: branch_constraints_def sound_constraints_def)

lemma branch_admits:
  assumes "\<And>p b c. b \<in> set (opt_list bs) \<Longrightarrow> child p b = Inr c \<Longrightarrow> contract_ok c"
    and "opt_list bs \<noteq> [] \<Longrightarrow> \<exists>b \<in> set (opt_list bs). \<forall>p c. child p b = Inr c \<longrightarrow> accepts x c" and "bs \<noteq> Some []"
  shows "admits x (branch_constraints child kw n path bs)"
proof (cases bs)
  case (Some xs)
  show ?thesis
  proof (cases "map_r (child (path @ ''.'' @ kw)) xs")
    case (Inr cs)
    have ok: "\<forall>b \<in> set (filter (\<lambda>c. c \<noteq> SFalse) cs). contract_ok b"
      using map_r_in[OF Inr] assms(1) Some by fastforce
    obtain b where b: "b \<in> set xs" "\<forall>p c. child p b = Inr c \<longrightarrow> accepts x c" using assms(2,3) Some by auto
    from map_r_out[OF Inr b(1)] obtain c where "c \<in> set cs" "child (path @ ''.'' @ kw) b = Inr c" by blast
    moreover from this b(2) have "accepts x c" by blast
    moreover from this have "c \<noteq> SFalse" by auto
    ultimately have "c \<in> set (filter (\<lambda>c. c \<noteq> SFalse) cs)" "accepts x c" by auto
    from union_constraint_admits[OF ok this] show ?thesis
      unfolding branch_constraints_def Some option.case Inr by simp
  qed (simp add: branch_constraints_def Some admits_def)
qed (simp add: branch_constraints_def admits_def)

lemma all_sound:
  assumes "\<And>p b c. b \<in> set (opt_list bs) \<Longrightarrow> child p b = Inr c \<Longrightarrow> contract_ok c"
  shows "sound_constraints (all_constraints child n path bs)"
proof (cases bs)
  case (Some xs)
  have "\<forall>b \<in> set cs. contract_ok b" if "map_r (child (path @ ''.allOf'')) xs = Inr cs" for cs
    using map_r_in[OF that] assms Some by fastforce
  then have "contract_ok s" if "map_r (child (path @ ''.allOf'')) xs = Inr cs" "schema_intersection cs p = Inr s" for cs p s
    using schema_intersection_sound(1)[OF that(2)] that(1) by simp
  then show ?thesis
    unfolding sound_constraints_def all_constraints_def Some option.case bind_r_Inr_iff
    by (auto simp del: append.simps simp: bind_r_Inr_iff split: if_splits) metis+
qed (simp add: all_constraints_def sound_constraints_def)

lemma all_admits:
  assumes "\<And>p b c. b \<in> set (opt_list bs) \<Longrightarrow> child p b = Inr c \<Longrightarrow> contract_ok c \<and> accepts x c" "exact_json x"
  shows "admits x (all_constraints child n path bs)"
proof (cases bs)
  case (Some xs)
  have cs: "\<forall>b \<in> set cs. contract_ok b" "\<forall>b \<in> set cs. accepts x b"
    if "map_r (child (path @ ''.allOf'')) xs = Inr cs" for cs
    using map_r_in[OF that] assms Some by fastforce+
  from schema_intersection_sound(2)[OF _ cs(1), of _ _ _ x] cs(2) assms(2) show ?thesis
    by (fastforce simp: all_constraints_def Some admits_def bind_r_Inr_iff split: if_splits)
qed (simp add: all_constraints_def admits_def)

lemma schema_branch:
  assumes "schema_ok (SObj k)"
  shows "b \<in> set (opt_list (kw_any k)) \<Longrightarrow> b \<in> set_kws k \<and> contract_ok b"
    "b \<in> set (opt_list (kw_one k)) \<Longrightarrow> b \<in> set_kws k \<and> contract_ok b"
    "b \<in> set (opt_list (kw_all k)) \<Longrightarrow> b \<in> set_kws k \<and> contract_ok b"
  using schema_ok_subs(4-6)[OF assms] kws_opt_members(2-4)[of b k] by blast+

abbreviation child_constraints :: "schema kws \<Rightarrow> string \<Rightarrow> string \<Rightarrow> schema list option res" where
  "child_constraints k n path \<equiv> collect_constraints
     [Inr (direct_constraints k n), Inr (const_constraints k n), enum_constraints k n path,
      branch_constraints (\<lambda>p b. schema_child_schema n p b) ''anyOf'' n path (kw_any k),
      branch_constraints (\<lambda>p b. schema_child_schema n p b) ''oneOf'' n path (kw_one k),
      all_constraints (\<lambda>p b. schema_child_schema n p b) n path (kw_all k)]"

lemma constraints_sound:
  assumes ok: "schema_ok (SObj k)"
    and br: "\<And>b p c. b \<in> set_kws k \<Longrightarrow> contract_ok b \<Longrightarrow> schema_child_schema n p b = Inr c \<Longrightarrow> contract_ok c"
  shows "sound_constraints (child_constraints k n path)"
proof -
  have "sound_constraints (branch_constraints (\<lambda>p b. schema_child_schema n p b) kw n path (kw_any k))" for kw
    by (rule branch_sound) (use br schema_branch(1)[OF ok] in blast)
  moreover have "sound_constraints (branch_constraints (\<lambda>p b. schema_child_schema n p b) kw n path (kw_one k))" for kw
    by (rule branch_sound) (use br schema_branch(2)[OF ok] in blast)
  moreover have "sound_constraints (all_constraints (\<lambda>p b. schema_child_schema n p b) n path (kw_all k))"
    by (rule all_sound) (use br schema_branch(3)[OF ok] in blast)
  ultimately show ?thesis by (intro collect_sound) (simp add: direct_sound const_sound enum_sound ok)
qed

lemma child_schema_ok: "contract_ok s \<Longrightarrow> schema_child_schema n path s = Inr c \<Longrightarrow> contract_ok c"
proof (induction s arbitrary: path c rule: measure_induct_rule[of size])
  case (less s)
  show ?case
  proof (cases s)
    case (SObj k)
    have "contract_ok c" if "b \<in> set_kws k" "contract_ok b" "schema_child_schema n p b = Inr c" for b p c
      by (rule less.IH[OF _ that(2,3)]) (simp add: SObj size_kws_mem[OF that(1)] del: schema.size)
    moreover have "schema_ok (SObj k)" using less.prems(1) SObj by blast
    ultimately have sound: "sound_constraints (child_constraints k n path)" by (intro constraints_sound)
    from less.prems(2) obtain found where f: "child_constraints k n path = Inr found"
      "(case found of None \<Rightarrow> Inr SFalse | Some cs \<Rightarrow> schema_intersection cs (path @ ''.'' @ n)) = Inr c"
      unfolding SObj schema_child_schema.simps(1) bind_r_Inr_iff by blast
    show ?thesis
    proof (cases found)
      case (Some cs)
      with f sound have "\<forall>b \<in> set cs. contract_ok b" by (simp add: sound_constraints_def)
      with schema_intersection_sound(1)[OF f(2)[unfolded Some option.case]] show ?thesis .
    qed (use f(2) in simp)
  qed (use less.prems in \<open>auto simp: schema_child_schema.simps\<close>)
qed

lemma child_schema_accepts:
  assumes "wf_val (PDict kvs)" "map_of kvs (KStr n) = Some x"
  shows "contract_ok s \<Longrightarrow> accepts (PDict kvs) s \<Longrightarrow> schema_child_schema n path s = Inr c \<Longrightarrow> accepts x c"
proof (induction s arbitrary: path c rule: measure_induct_rule[of size])
  case (less s)
  show ?case
  proof (cases s)
    case (SObj k)
    have ok: "schema_ok (SObj k)" and acc: "accepts (PDict kvs) (SObj k)" using less.prems(1,2) SObj by blast+
    have ex: "exact_json x"
      using accepts_exact[OF acc _ schema_ok_shape[OF ok]] map_of_in_set[OF assms(2)] by (auto simp: list_all_iff)
    have br: "accepts x c" if "b \<in> set_kws k \<and> contract_ok b" "accepts (PDict kvs) b" "schema_child_schema n p b = Inr c" for b p c
      by (rule less.IH[OF _ _ that(2,3)]) (use that(1) in \<open>auto simp: SObj size_kws_mem simp del: schema.size\<close>)
    note child = child_schema_ok[where n = n]
    have "admits x (branch_constraints (\<lambda>p b. schema_child_schema n p b) kw n path (kw_any k))" for kw
    proof (rule branch_admits)
      show "\<exists>b \<in> set (opt_list (kw_any k)). \<forall>p c. schema_child_schema n p b = Inr c \<longrightarrow> accepts x c"
        if "opt_list (kw_any k) \<noteq> []" using accepts_anyD[OF acc that] schema_branch(1)[OF ok] br by blast
      show "contract_ok c" if "b \<in> set (opt_list (kw_any k))" "schema_child_schema n p b = Inr c" for b p c
        using child[OF schema_branch(1)[OF ok that(1), THEN conjunct2] that(2)] .
    qed (use schema_ok_level[OF ok] in \<open>simp add: level_ok_def\<close>)
    moreover have "admits x (branch_constraints (\<lambda>p b. schema_child_schema n p b) kw n path (kw_one k))" for kw
    proof (rule branch_admits)
      show "\<exists>b \<in> set (opt_list (kw_one k)). \<forall>p c. schema_child_schema n p b = Inr c \<longrightarrow> accepts x c"
        if "opt_list (kw_one k) \<noteq> []" using accepts_oneD[OF acc that] schema_branch(2)[OF ok] br by blast
      show "contract_ok c" if "b \<in> set (opt_list (kw_one k))" "schema_child_schema n p b = Inr c" for b p c
        using child[OF schema_branch(2)[OF ok that(1), THEN conjunct2] that(2)] .
    qed (use schema_ok_level[OF ok] in \<open>simp add: level_ok_def\<close>)
    moreover have "admits x (all_constraints (\<lambda>p b. schema_child_schema n p b) n path (kw_all k))"
      by (rule all_admits[OF _ ex]) (use child br schema_branch(3)[OF ok] accepts_allD[OF acc] in blast)
    ultimately have adm: "admits x (child_constraints k n path)" (is "admits x ?r")
      by (intro collect_admits) (simp add: direct_admits[OF acc assms(2)] const_admits[OF acc ok assms] enum_admits[OF acc ok assms])
    have "sound_constraints ?r" by (rule constraints_sound[OF ok child])
    moreover obtain found where f: "?r = Inr found" "(case found of None \<Rightarrow> Inr SFalse
        | Some cs \<Rightarrow> schema_intersection cs (path @ ''.'' @ n)) = Inr c"
      using less.prems(3) unfolding SObj schema_child_schema.simps(1) bind_r_Inr_iff by blast
    moreover from adm f(1) obtain cs where "found = Some cs" "\<forall>c \<in> set cs. accepts x c" by (auto simp: admits_def)
    ultimately show ?thesis using schema_intersection_sound(2)[of cs _ c x] ex by (auto simp: sound_constraints_def)
  qed (use less.prems in \<open>auto simp: schema_child_schema.simps\<close>)
qed

subsection \<open>Paths\<close>

lemma find_segments_wf: "wf_val v \<Longrightarrow> find_segments v segs = Some x \<Longrightarrow> wf_val x"
  by (induction v segs rule: find_segments.induct) (auto split: option.splits dest!: map_of_in_set simp: list_all_iff)

lemma resolve_segments_accepts:
  "contract_ok s \<Longrightarrow> accepts v s \<Longrightarrow> wf_val v \<Longrightarrow> find_segments v segs = Some x \<Longrightarrow>
   resolve_segments seen s segs = Inr found \<Longrightarrow> \<exists>c. found = Some c \<and> contract_ok c \<and> accepts x c"
proof (induction segs arbitrary: s v seen)
  case (Cons seg segs)
  from Cons.prems(4) obtain kvs w where v: "v = PDict kvs" "map_of kvs (KStr seg) = Some w" "find_segments w segs = Some x"
    by (cases v) (auto split: option.splits)
  from Cons.prems(5) obtain c where c: "schema_child_schema seg (join_str ''.'' seen) s = Inr c"
    "(if c = SFalse then Inr None else resolve_segments (seen @ [seg]) c segs) = Inr found"
    by (auto simp: bind_r_Inr_iff)
  have acc: "accepts w c"
    using child_schema_accepts[OF _ v(2) Cons.prems(1) _ c(1)] Cons.prems(2,3) v(1) by simp
  then have "c \<noteq> SFalse" by auto
  moreover have "wf_val w" using Cons.prems(3) map_of_in_set[OF v(2)] by (auto simp: v(1) list_all_iff)
  ultimately show ?case
    using Cons.IH[OF child_schema_ok[OF Cons.prems(1) c(1)] acc _ v(3)] c(2) by simp
qed auto

lemma required_path_ok: "contract_ok (required_path_schema segs)"
  by (induction segs) (auto simp: schema_ok.simps level_ok_def)

lemma required_path_found: "accepts v (required_path_schema segs) \<Longrightarrow> find_segments v segs \<noteq> None"
proof (induction segs arbitrary: v)
  case (Cons seg segs)
  note acc = Cons.prems[unfolded required_path_schema.simps accepts_SObj]
  from acc obtain kvs where v: "v = PDict kvs"
    by (cases v) (auto simp: types_ok_def declared_types_def type_allowed_def)
  from acc have "KStr seg \<in> set (keys_of kvs)" by (simp add: v children_ok_def)
  then obtain w where w: "map_of kvs (KStr seg) = Some w" using key_lookup by metis
  from acc have "\<forall>kv \<in> set kvs. member_ok (Kws (Some [JObject]) (Some [(seg, required_path_schema segs)]) (Some [seg])
      (Some STrue) None None None None None None []) kv" by (simp add: v children_ok_def)
  with map_of_in_set[OF w] have "accepts w (required_path_schema segs)"
    by (auto simp: member_ok_def member_contract_def)
  from Cons.IH[OF this] show ?case by (simp add: v w)
qed simp

text \<open>A Data Dict meets a contract map when every value stored under a declared name passes its
  contract.\<close>

definition conforms :: "contracts \<Rightarrow> (pykey \<times> pyval) list \<Rightarrow> bool" where
  "conforms expanded data \<longleftrightarrow>
     list_all (\<lambda>(path, s). case map_of data (KStr path) of
         None \<Rightarrow> True | Some v \<Rightarrow> validate_normalized False path v s = Inr ()) expanded"

definition contracts_ok :: "contracts \<Rightarrow> bool" where
  "contracts_ok expanded \<longleftrightarrow> distinct (keys_of expanded) \<and> list_all (\<lambda>(path, s). contract_ok s) expanded"

lemma contracts_okD: "contracts_ok expanded \<Longrightarrow> map_of expanded path = Some s \<Longrightarrow> contract_ok s"
  unfolding contracts_ok_def list_all_iff by (drule map_of_in_set) (drule conjunct2, drule (1) bspec, simp)

lemma conforms_accepts:
  assumes "conforms expanded data" "contracts_ok expanded" "map_of expanded root = Some s" "map_of data (KStr root) = Some v"
  shows "accepts v s"
  using assms(1,4) map_of_in_set[OF assms(3)] validate_accepts[OF contracts_okD[OF assms(2,3)]]
  by (auto simp: conforms_def list_all_iff)

lemma find_path_root:
  assumes "split_data_path path = Inr parts"
  obtains root segs where "parts = root # segs"
  using split_data_path_segments[OF assms] by (cases parts) auto

lemma resolved_contract:
  assumes "contracts_ok expanded" and "conforms expanded data" and "wf_val (PDict data)"
    and "split_data_path path = Inr parts" and "find_segments (PDict data) parts = Some x"
    and "hd parts \<in> set (keys_of expanded)"
    and "resolve_expanded_contract_path expanded path = Inr found"
  shows "\<exists>c. found = Some c \<and> contract_ok c \<and> accepts x c"
proof -
  obtain root segs where parts: "parts = root # segs" by (rule find_path_root[OF assms(4)])
  from assms(6) parts obtain s where s: "map_of expanded root = Some s" using key_lookup[of root expanded] by auto
  from assms(5) parts obtain v where v: "map_of data (KStr root) = Some v" "find_segments v segs = Some x"
    by (auto split: option.splits)
  have "wf_val v" using assms(3) map_of_in_set[OF v(1)] by (auto simp: list_all_iff)
  moreover have "resolve_segments [root] s segs = Inr found"
    using assms(4,7) by (simp add: resolve_expanded_contract_path_def parts s)
  ultimately show ?thesis
    using resolve_segments_accepts[OF contracts_okD[OF assms(1) s] conforms_accepts[OF assms(2,1) s v(1)] _ v(2)] by blast
qed

definition presence_roots :: "contracts \<Rightarrow> string list option \<Rightarrow> string list res" where
  "presence_roots expanded required_roots =
     (case required_roots of None \<Rightarrow> expanded_contract_root_paths expanded | Some roots \<Rightarrow> Inr roots)"

lemma required_path_present:
  assumes "contracts_ok expanded" and "conforms expanded data" and "wf_val (PDict data)"
    and "presence_roots expanded required_roots = Inr roots" and "list_all (\<lambda>r. KStr r \<in> set (keys_of data)) roots"
    and "expanded_contract_path_required expanded required_roots path = Inr True"
  shows "\<exists>parts x. split_data_path path = Inr parts \<and> find_segments (PDict data) parts = Some x"
proof -
  from assms(6) obtain parts where p: "split_data_path path = Inr parts"
    by (auto simp: expanded_contract_path_required_def bind_r_Inr_iff)
  obtain root segs where parts: "parts = root # segs" by (rule find_path_root[OF p])
  from assms(4,6) obtain s where s: "map_of expanded root = Some s" "root \<in> set roots"
    and req: "segs = [] \<or> normalized_schemas_compatible s (required_path_schema segs) = Inr True"
    by (auto simp: expanded_contract_path_required_def p parts presence_roots_def split: option.splits if_splits)
  from assms(5) s(2) obtain v where v: "map_of data (KStr root) = Some v"
    using key_lookup[of "KStr root" data] by (auto simp: list_all_iff)
  have "find_segments v segs \<noteq> None"
  proof (cases "segs = []")
    case False
    have "part_ok s" using contracts_okD[OF assms(1) s(1)] schema_ok_shape by blast
    moreover have "part_ok (required_path_schema segs)" using required_path_ok schema_ok_shape by blast
    moreover have "wf_val v" using assms(3) map_of_in_set[OF v] by (auto simp: list_all_iff)
    ultimately have "accepts v (required_path_schema segs)"
      using sem.compatible_sound[OF _ _ _ _ conforms_accepts[OF assms(2,1) s(1) v]] req False by blast
    then show ?thesis by (rule required_path_found)
  qed simp
  with p v show ?thesis by (auto simp: parts)
qed

subsection \<open>Expansion yields contracts\<close>

lemma opt_entry_wf: "(\<And>v. x = Some v \<Longrightarrow> wf_val (f v)) \<Longrightarrow> list_all (\<lambda>(k, v). wf_val v) (opt_entry key f x)"
  by (auto simp: opt_entry_def split: option.splits)

lemma distinct_entry:
  "KStr key \<notin> set (keys_of r) \<Longrightarrow> distinct (keys_of r) \<Longrightarrow> distinct (keys_of (opt_entry key f x @ r))"
  by (auto simp: opt_entry_def split: option.splits)

lemma notin_entry: "name \<noteq> key \<Longrightarrow> KStr name \<notin> set (keys_of r) \<Longrightarrow> KStr name \<notin> set (keys_of (opt_entry key f x @ r))"
  by (auto simp: opt_entry_def split: option.splits)

lemma schema_entries_distinct:
  assumes "set (keys_of (kw_annot k)) \<subseteq> set annotation_keys" "distinct (keys_of (kw_annot k))"
  shows "distinct (keys_of (schema_entries k))"
proof -
  let ?annot = "map (\<lambda>(n, v). (KStr n, v)) (kw_annot k)"
  have keys: "keys_of ?annot = map KStr (keys_of (kw_annot k))" by (simp add: case_prod_beta' comp_def)
  have notin: "KStr name \<notin> set (keys_of ?annot)" if "name \<notin> set annotation_keys" for name
    using assms(1) that unfolding keys by auto
  have dist: "distinct (keys_of ?annot)" unfolding keys using assms(2) by (simp add: distinct_map inj_on_def)
  show ?thesis
    unfolding schema_entries_def schema_to_py.simps pyval.case
    by (intro distinct_entry notin_entry notin dist) (simp_all add: annotation_keys_def)
qed

lemma schema_to_py_wf: "schema_ok s \<Longrightarrow> wf_val (schema_to_py s)"
proof (induction s rule: measure_induct_rule[of size])
  case (less s)
  show ?case
  proof (cases s)
    case (SObj k)
    note ok = less.prems[unfolded SObj]
    note lv = schema_ok_level[OF ok, unfolded level_ok_def]
    have sub: "wf_val (schema_to_py t)" if "t \<in> set_kws k" "schema_ok t" for t
      by (rule less.IH[OF _ that(2)]) (simp add: SObj size_kws_mem[OF that(1)] del: schema.size)
    have props: "wf_val (schema_to_py t)" if "(n, t) \<in> set (opt_list (kw_props k))" for n t
      using sub[OF kws_opt_members(1)[OF that]] schema_ok_subs(1)[OF ok that] by blast
    have "list_all (\<lambda>(key, v). wf_val v) (schema_entries k)"
      unfolding schema_entries_def schema_to_py.simps pyval.case list_all_append
    proof (intro conjI opt_entry_wf)
      show "wf_val (type_to_py ts)" for ts
        by (cases ts rule: remdups_adj.cases) (auto simp: type_to_py_def list_all_iff)
      show "wf_val (PDict (map (\<lambda>(n, s). (KStr n, schema_to_py s)) ps))" if "kw_props k = Some ps" for ps
      proof -
        have "distinct (map (\<lambda>x. KStr (fst x)) ps)"
          using lv that distinct_map[of KStr "keys_of ps"] by (simp add: comp_def inj_on_def)
        then show ?thesis using props that by (auto simp: list_all_iff comp_def case_prod_beta')
      qed
      show "list_all (\<lambda>(key, v). wf_val v) (map (\<lambda>(n, v). (KStr n, v)) (kw_annot k))"
        using lv by (auto simp: list_all_iff)
      show "wf_val (PList (map PStr ns))" for ns by (simp add: list_all_iff)
      show "wf_val (schema_to_py t)" if "kw_additional k = Some t" for t
        using sub[OF kws_members(2)[OF that] schema_ok_subs(2)[OF ok that]] .
      show "wf_val (schema_to_py t)" if "kw_items k = Some t" for t
        using sub[OF kws_members(3)[OF that]] schema_ok_subs(3)[OF ok that] by blast
      show "wf_val (PList vs)" if "kw_enum k = Some vs" for vs using lv that by simp
      show "wf_val c" if "kw_const k = Some c" for c using lv that by simp
      have branches: "wf_val (PList (map schema_to_py bs))" if "\<forall>b \<in> set bs. b \<in> set_kws k \<and> contract_ok b" for bs
        using that sub by (simp add: list_all_iff)
      show "wf_val (PList (map schema_to_py bs))" if "kw_any k = Some bs" for bs
        by (rule branches) (use schema_branch(1)[OF ok] that in simp)
      show "wf_val (PList (map schema_to_py bs))" if "kw_one k = Some bs" for bs
        by (rule branches) (use schema_branch(2)[OF ok] that in simp)
      show "wf_val (PList (map schema_to_py bs))" if "kw_all k = Some bs" for bs
        by (rule branches) (use schema_branch(3)[OF ok] that in simp)
    qed
    with schema_entries_distinct[of k] lv show ?thesis by (simp add: SObj schema_to_py_SObj)
  qed (simp_all add: schema_to_py.simps)
qed

lemma normalized_contract:
  "normalize_data_key_schema_uncached path raw = Inr s \<Longrightarrow> wf_val raw \<Longrightarrow> contract_ok s"
  using normalize_schema_ok[of raw s] by (auto simp: normalize_data_key_schema_uncached_def bind_r_Inr_iff)

end
