(* ===== verification/Expansion_Soundness.thy ===== *)
theory Expansion_Soundness
  imports Contract_Paths
begin

section \<open>Expansion yields contracts, and its queries are sound\<close>

text \<open>
  Every contract that an expansion reports is a legal normal form, whatever mixture of dotted
  paths and nested objects declares it, so that the path queries of \<open>Contract_Paths\<close> apply to
  every expanded map. The expansion cache returns what an expansion without it returns and
  stays within its bound.
\<close>

subsection \<open>Merging\<close>

lemma schema_entries_wf:
  "schema_ok s \<Longrightarrow> map_of (dict_items (schema_to_py s)) key = Some v \<Longrightarrow> wf_val v"
  using schema_to_py_wf[of s] by (cases "schema_to_py s") (auto simp: dict_items_def list_all_iff dest!: map_of_in_set)

lemma merge_keywords_wf:
  assumes "merge_keywords path l r = Inr kws" "schema_ok l" "schema_ok r"
  shows "distinct (keys_of kws)" "list_all (\<lambda>(k, v). wf_val v) kws"
    "key \<in> set (keys_of kws) \<Longrightarrow> \<exists>n. key = KStr n \<and> n \<notin> set structural_keywords"
proof -
  let ?left = "dict_items (schema_to_py l)" and ?right = "dict_items (schema_to_py r)"
  let ?names = "filter (\<lambda>n. n \<notin> set structural_keywords) (sorted_set (map key_text (keys_of ?left @ keys_of ?right)))"
  have all: "list_all2 (\<lambda>n kv. merge_keyword path ?left ?right n = Inr kv) ?names kws"
    using assms(1) by (simp add: merge_keywords_def Let_def map_r_Inr_iff)
  have one: "fst kv = KStr n \<and> wf_val (snd kv)" if "merge_keyword path ?left ?right n = Inr kv" for n kv
    using that schema_entries_wf[OF assms(2), of "KStr n"] schema_entries_wf[OF assms(3), of "KStr n"]
    by (auto simp: merge_keyword_def split: option.splits if_splits)
  from all have keys: "keys_of kws = map KStr ?names"
    using one by (induction rule: list_all2_induct) auto
  show "distinct (keys_of kws)" unfolding keys by (simp add: distinct_map inj_on_def)
  show "\<exists>n. key = KStr n \<and> n \<notin> set structural_keywords" if "key \<in> set (keys_of kws)"
    using that unfolding keys by auto
  from all show "list_all (\<lambda>(k, v). wf_val v) kws"
    using one by (induction rule: list_all2_induct) auto
qed

definition fields_ok :: "('a \<times> schema) list \<Rightarrow> bool" where
  "fields_ok ps \<longleftrightarrow> distinct (keys_of ps) \<and> (\<forall>(n, s) \<in> set ps. contract_ok s)"

lemma fields_okD: "fields_ok ps \<Longrightarrow> (n, s) \<in> set ps \<Longrightarrow> contract_ok s"
  by (auto simp: fields_ok_def)

lemma fields_ok_lookup: "fields_ok ps \<Longrightarrow> map_of ps n = Some s \<Longrightarrow> contract_ok s"
  using fields_okD[OF _ map_of_in_set] .

lemma fields_ok_props: "schema_ok s \<Longrightarrow> fields_ok (opt_list (kw_props (kws_of s)))"
proof (cases s)
  case (SObj k)
  assume "schema_ok s"
  with SObj have ok: "schema_ok (SObj k)" by blast
  have "contract_ok t" if "(n, t) \<in> set (opt_list (kw_props k))" for n t using schema_ok_subs(1)[OF ok that] .
  then show ?thesis using schema_ok_level[OF ok] by (auto simp: SObj fields_ok_def level_ok_def)
qed (simp_all add: fields_ok_def)

lemma fields_ok_update: "fields_ok ps \<Longrightarrow> contract_ok s \<Longrightarrow> fields_ok (AList.update n s ps)"
proof -
  assume ok: "fields_ok ps" "contract_ok s"
  have "contract_ok t" if "(m, t) \<in> set (AList.update n s ps)" for m t
  proof -
    have "distinct (keys_of (AList.update n s ps))" using ok(1) by (simp add: fields_ok_def distinct_update)
    from map_of_is_SomeI[OF this that] have "t = s \<or> map_of ps m = Some t" by (auto simp: update_conv' split: if_splits)
    then show ?thesis using ok(2) fields_ok_lookup[OF ok(1), of m t] by blast
  qed
  with ok(1) show ?thesis by (auto simp: fields_ok_def distinct_update)
qed

lemma fields_ok_updates: "fields_ok ps \<Longrightarrow> (\<forall>(n, s) \<in> set ms. contract_ok s) \<Longrightarrow> fields_ok (fold (\<lambda>(n, s). AList.update n s) ms ps)"
  by (induction ms arbitrary: ps) (auto intro: fields_ok_update)

lemma merged_dict_wf:
  assumes "merge_keywords path l r = Inr kws" "schema_ok l" "schema_ok r" "fields_ok ps" "schema_ok extra"
  shows "wf_val (merged_dict kws l r ps extra)"
proof -
  have "distinct (map (\<lambda>x. KStr (fst x)) ps)"
    using assms(4) distinct_map[of KStr "keys_of ps"] by (simp add: fields_ok_def comp_def inj_on_def)
  then have "wf_val (PDict (map (\<lambda>(n, s). (KStr n, schema_to_py s)) ps))"
    using assms(4) schema_to_py_wf by (auto simp: fields_ok_def list_all_iff comp_def case_prod_beta')
  moreover have "wf_val (case names of [n] \<Rightarrow> PStr n | _ \<Rightarrow> PList (map PStr names))" for names
    by (cases names rule: remdups_adj.cases) (auto simp: list_all_iff)
  moreover have "KStr n \<notin> set (keys_of kws)" if "n \<in> set structural_keywords" for n
    using merge_keywords_wf(3)[OF assms(1-3), of "KStr n"] that by auto
  ultimately show ?thesis
    using merge_keywords_wf(1,2)[OF assms(1-3)] schema_to_py_wf[OF assms(5)]
    by (auto simp: merged_dict_def structural_keywords_def Let_def list_all_iff)
qed

lemma merge_object_ok:
  "contract_ok l \<Longrightarrow> contract_ok r \<Longrightarrow> merge_object_schemas l r path = Inr s \<Longrightarrow> contract_ok s"
proof (induction l arbitrary: r path s rule: measure_induct_rule[of size])
  case (less l)
  let ?lp = "opt_list (kw_props (kws_of l))" and ?rp = "opt_list (kw_props (kws_of r))"
  from less.prems(3) obtain kws merged extra where m:
      "merge_keywords path l r = Inr kws"
      "map_r (merge_property (\<lambda>a b q. merge_object_schemas a b q) path ?lp) ?rp = Inr merged"
      "merge_extra (\<lambda>a b q. merge_object_schemas a b q) path (kw_additional (kws_of l)) (kw_additional (kws_of r)) = Inr extra"
      "normalize_schema (merged_dict kws l r (fold (\<lambda>(n, s). AList.update n s) merged ?lp) extra) = Inr s"
    unfolding merge_object_schemas.simps[of l r path] Let_def
    by (auto simp: bind_r_Inr_iff conflict_def split: if_splits)
  note lp = fields_ok_props[OF less.prems(1)[THEN conjunct2]] and rp = fields_ok_props[OF less.prems(2)[THEN conjunct2]]
  have merged: "contract_ok t" if t: "(n, t) \<in> set merged" for n t
  proof -
    from map_r_in[OF m(2) t] obtain x c where x: "(x, c) \<in> set ?rp"
      "merge_property (\<lambda>a b q. merge_object_schemas a b q) path ?lp (x, c) = Inr (n, t)" by force
    have c: "contract_ok c" using rp x(1) by (auto simp: fields_ok_def)
    show ?thesis
    proof (cases "map_of ?lp x")
      case None
      with x(2) c show ?thesis by (simp add: merge_property_def)
    next
      case (Some e)
      have e: "contract_ok e" using lp map_of_in_set[OF Some] by (auto simp: fields_ok_def)
      show ?thesis
        using x(2) c e less.IH[OF size_kws_of_parts(1)[OF Some] e c]
        by (auto simp: merge_property_def Some bind_r_Inr_iff conflict_def split: if_splits)
    qed
  qed
  have add: "schema_ok t" if "contract_ok u" "kw_additional (kws_of u) = Some t" for t u
    using that schema_ok_subs(2) by (cases u) auto
  have extra: "schema_ok extra"
  proof (cases "\<exists>a b. kw_additional (kws_of l) = Some (SObj a) \<and> kw_additional (kws_of r) = Some (SObj b)")
    case True
    then obtain a b where ab: "kw_additional (kws_of l) = Some (SObj a)" "kw_additional (kws_of r) = Some (SObj b)" by blast
    note oks = add[OF less.prems(1) ab(1)] add[OF less.prems(2) ab(2)]
    show ?thesis
      using m(3) oks less.IH[OF size_kws_of_parts(3)[OF ab(1)], of "SObj b"]
      by (auto simp: merge_extra_def ab conflict_def simp del: schema_ok.simps split: if_splits)
  next
    case False
    then have "extra = STrue \<or> kw_additional (kws_of l) = Some extra \<or> kw_additional (kws_of r) = Some extra"
      using m(3) by (auto simp: merge_extra_def split: option.splits schema.splits)
    then show ?thesis using add[OF less.prems(1)] add[OF less.prems(2)] by auto
  qed
  from merged have "fields_ok (fold (\<lambda>(n, s). AList.update n s) merged ?lp)" by (intro fields_ok_updates lp) auto
  from merged_dict_wf[OF m(1) _ _ this extra] less.prems(1,2) show ?case
    using normalize_schema_ok[OF _ m(4)] by blast
qed

subsection \<open>Building and emitting\<close>

lemma contracts_ok_fields: "contracts_ok e = fields_ok e"
  by (simp add: contracts_ok_def fields_ok_def list_all_iff)

function tree_ok :: "path_tree \<Rightarrow> bool" where
  "tree_ok t = (distinct (keys_of (branches t)) \<and> list_all (\<lambda>(n, u). tree_ok u) (branches t))"
  by pat_completeness auto
termination
  by (relation "measure size") (auto simp del: path_tree.size intro: size_branches)

declare tree_ok.simps [simp del]

lemma tree_ok_Node: "tree_ok (Node ts) \<longleftrightarrow> distinct (keys_of ts) \<and> (\<forall>(n, u) \<in> set ts. tree_ok u)"
  by (subst tree_ok.simps) (simp add: list_all_iff)

lemma insert_path_ok: "tree_ok t \<Longrightarrow> tree_ok (insert_path parts t)"
proof (induction parts t rule: insert_path.induct)
  case (2 part parts ts)
  let ?old = "case map_of ts part of None \<Rightarrow> Node [] | Some t \<Rightarrow> t"
  have "tree_ok ?old"
    using "2.prems" by (auto simp: tree_ok_Node split: option.splits dest!: map_of_in_set)
  from "2.IH"[OF this] have new: "tree_ok (insert_path parts ?old)" .
  have dist: "distinct (keys_of (AList.update part (insert_path parts ?old) ts))"
    using "2.prems" by (simp add: tree_ok_Node distinct_update)
  have "tree_ok u" if "(n, u) \<in> set (AList.update part (insert_path parts ?old) ts)" for n u
  proof -
    from map_of_is_SomeI[OF dist that] have "u = insert_path parts ?old \<or> map_of ts n = Some u"
      by (auto simp: update_conv' split: if_splits)
    then show ?thesis using new "2.prems" by (auto simp: tree_ok_Node dest!: map_of_in_set)
  qed
  with dist show ?case by (auto simp: tree_ok_Node)
qed simp

lemma declare_contracts_ok:
  "declare_contracts tree explicit raw = Inr (tree', explicit') \<Longrightarrow> tree_ok tree \<Longrightarrow> fields_ok explicit \<Longrightarrow>
   list_all (\<lambda>(p, v). wf_val v) raw \<Longrightarrow> tree_ok tree' \<and> fields_ok explicit'"
proof (induction tree explicit raw rule: declare_contracts.induct)
  case (2 tree explicit path raw rest)
  from "2.prems"(1) obtain parts s where s: "split_data_path path = Inr parts"
      "normalize_data_key_schema_uncached path raw = Inr s"
      "declare_contracts (insert_path parts tree) (AList.update parts s explicit) rest = Inr (tree', explicit')"
      "\<not> (case map_of explicit parts of None \<Rightarrow> False | Some previous \<Rightarrow> \<not> same previous s)"
    by (auto simp: bind_r_Inr_iff split: if_splits)
  have "contract_ok s" using normalized_contract[OF s(2)] "2.prems"(4) by simp
  with "2.IH"[OF s(1,2,4,3)] "2.prems"(2-4) show ?case
    using insert_path_ok fields_ok_update by fastforce
qed simp

lemma fields_ok_filter: "fields_ok ps \<Longrightarrow> fields_ok (filter P ps)"
  by (auto simp: fields_ok_def distinct_map_filter)

lemma keep_independent_filter:
  "keep_independent own path children = Inr kept \<Longrightarrow> \<exists>P. kept = filter P children"
proof -
  assume "keep_independent own path children = Inr kept"
  then obtain flagged where f: "list_all2 (\<lambda>c fc. bind_r (independent_child own path c) (\<lambda>b. Inr (b, c)) = Inr fc) children flagged"
    "kept = map snd (filter fst flagged)"
    by (auto simp: keep_independent_def bind_r_Inr_iff map_r_Inr_iff)
  from f(1) have "map snd (filter fst flagged) = filter (\<lambda>c. independent_child own path c = Inr True) children"
    by (induction rule: list_all2_induct) (auto simp: bind_r_Inr_iff)
  with f(2) show ?thesis by blast
qed

lemma children_schema_ok: "fields_ok children \<Longrightarrow> contract_ok (children_schema own children)"
  by (auto simp: children_schema_def Let_def schema_ok.simps level_ok_def fields_ok_def list_all_iff)

lemma finish_node_ok:
  assumes "finish_node explicit parts children = Inr s" "fields_ok explicit" "fields_ok children"
  shows "contract_ok s"
proof -
  let ?own = "map_of explicit parts" and ?path = "join_str ''.'' parts"
  from assms(1) obtain kept result where k: "keep_independent ?own ?path children = Inr kept"
    "(if kept = [] then Inr ?own
              else case ?own of
                  None \<Rightarrow> Inr (Some (children_schema ?own kept))
                | Some o1 \<Rightarrow> bind_r (merge_object_schemas o1 (children_schema ?own kept) ?path) (\<lambda>m. Inr (Some m))) = Inr result"
    "normalize_data_key_schema_uncached ?path (case result of None \<Rightarrow> PDict [] | Some s \<Rightarrow> schema_to_py s) = Inr s"
    by (auto simp: finish_node_def Let_def bind_r_Inr_iff)
  have "fields_ok kept" using keep_independent_filter[OF k(1)] fields_ok_filter[OF assms(3)] by auto
  note kept = children_schema_ok[OF this]
  have own: "contract_ok o1" if "?own = Some o1" for o1 using fields_ok_lookup[OF assms(2) that] .
  have "schema_ok r" if "result = Some r" for r
    using k(2) that own kept[of ?own] merge_object_ok[OF own kept[of ?own]]
    by (auto simp: bind_r_Inr_iff split: if_splits option.splits)
  then have "wf_val (case result of None \<Rightarrow> PDict [] | Some s \<Rightarrow> schema_to_py s)"
    using schema_to_py_wf by (auto split: option.splits)
  with k(3) show ?thesis by (rule normalized_contract)
qed

lemma keys_map_r:
  "map_r (\<lambda>(n, x). bind_r (f n x) (\<lambda>y. Inr (n, y))) ts = Inr ys \<Longrightarrow> keys_of ys = keys_of ts"
  by (induction ts arbitrary: ys) (auto simp: bind_r_Inr_iff)

lemma fields_ok_map_r:
  assumes "map_r (\<lambda>(n, x). bind_r (f n x) (\<lambda>y. Inr (n, y))) ts = Inr ys" "distinct (keys_of ts)"
    and "\<And>n x y. (n, x) \<in> set ts \<Longrightarrow> f n x = Inr y \<Longrightarrow> contract_ok y"
  shows "fields_ok ys"
proof -
  have "contract_ok y" if "(n, y) \<in> set ys" for n y
  proof -
    from map_r_in[OF assms(1) that] obtain x where "(n, x) \<in> set ts" "f n x = Inr y" by (auto simp: bind_r_Inr_iff)
    then show ?thesis by (rule assms(3))
  qed
  then show ?thesis using keys_map_r[OF assms(1)] assms(2) by (auto simp: fields_ok_def)
qed

lemma build_node_ok: "build_node explicit parts tree = Inr s \<Longrightarrow> tree_ok tree \<Longrightarrow> fields_ok explicit \<Longrightarrow> contract_ok s"
proof (induction explicit parts tree arbitrary: s rule: build_node.induct)
  case (1 explicit parts tree)
  from "1.prems"(1) obtain children where c:
    "map_r (\<lambda>(name, child). bind_r (build_node explicit (parts @ [name]) child) (\<lambda>s. Inr (name, s))) (branches tree) = Inr children"
    "finish_node explicit parts children = Inr s"
    unfolding build_node.simps[of explicit parts tree] bind_r_Inr_iff by blast
  note ok = "1.prems"(2)[unfolded tree_ok.simps[of tree]]
  have "fields_ok children"
  proof (rule fields_ok_map_r[OF c(1)])
    fix n x y assume x: "(n, x) \<in> set (branches tree)" "build_node explicit (parts @ [n]) x = Inr y"
    then have "tree_ok x" using ok by (auto simp: list_all_iff)
    with "1.IH"[OF x(1) refl x(2)] "1.prems"(3) show "contract_ok y" by blast
  qed (use ok in blast)
  with c(2) "1.prems"(3) show ?case by (intro finish_node_ok)
qed

lemma settle_emitted_ok:
  assumes "settle_emitted expanded path s = Inr t" "contract_ok s" "fields_ok expanded"
  shows "contract_ok t"
proof -
  from assms(1) obtain n where n: "normalize_data_key_schema_uncached path (schema_to_py s) = Inr n"
    "(case map_of expanded path of None \<Rightarrow> Inr n
      | Some existing \<Rightarrow> if same existing n then Inr n
          else if both_objects existing n then merge_object_schemas existing n path else conflict path) = Inr t"
    by (auto simp: settle_emitted_def bind_r_Inr_iff)
  have ok: "contract_ok n" using normalized_contract[OF n(1)] schema_to_py_wf assms(2) by blast
  show ?thesis
  proof (cases "map_of expanded path")
    case (Some e)
    with n(2) ok merge_object_ok[OF fields_ok_lookup[OF assms(3) Some] ok] show ?thesis
      by (auto simp: conflict_def split: if_splits)
  qed (use n(2) ok in auto)
qed

lemma emit_ok:
  "emit_path limit path s expanded = Inr e \<Longrightarrow> contract_ok s \<Longrightarrow> fields_ok expanded \<Longrightarrow> fields_ok e"
  "emit_children limit path s names expanded = Inr e \<Longrightarrow> contract_ok s \<Longrightarrow> fields_ok expanded \<Longrightarrow> fields_ok e"
proof (induction limit path s expanded and limit path s names expanded arbitrary: e and e
    rule: emit_path_emit_children.induct)
  case (2 limit path schema expanded)
  from "2.prems"(1) obtain n where n: "settle_emitted expanded path schema = Inr n"
    "emit_children limit path n (sorted_set (schema_explicit_child_names n)) (AList.update path n expanded) = Inr e"
    by (auto simp: bind_r_Inr_iff)
  have "contract_ok n" using settle_emitted_ok[OF n(1) "2.prems"(2,3)] .
  from "2.IH"[OF n this fields_ok_update[OF "2.prems"(3) this]] show ?case .
next
  case (4 limit path schema name names expanded)
  from "4.prems"(1) obtain c e1 where c: "schema_child_schema name path schema = Inr c"
    "(if c = SFalse then Inr expanded else emit_path limit (path @ ''.'' @ name) c expanded) = Inr e1"
    "emit_children limit path schema names e1 = Inr e"
    by (auto simp: bind_r_Inr_iff)
  have "fields_ok e1"
    using c(2) "4.IH"(1)[OF c(1), of e1] child_schema_ok[OF "4.prems"(2) c(1)] "4.prems"(3)
    by (cases "c = SFalse") auto
  with "4.IH"(2)[OF c(1,2,3)] "4.prems"(2) show ?case by blast
qed auto

lemma expand_contracts_ok:
  assumes "expand_contracts_uncached limit raw = Inr e" "list_all (\<lambda>(p, v). wf_val v) raw"
  shows "contracts_ok e"
proof -
  from assms(1) obtain tree explicit roots where x: "declare_contracts (Node []) [] raw = Inr (tree, explicit)"
    "map_r (\<lambda>(name, node). bind_r (build_node explicit [name] node) (\<lambda>s. Inr (name, s))) (branches tree) = Inr roots"
    "fold_r (\<lambda>(name, s) expanded. emit_path limit name s expanded) roots [] = Inr e"
    by (auto simp: expand_contracts_uncached_def bind_r_Inr_iff)
  have ok: "tree_ok tree" "fields_ok explicit"
    using declare_contracts_ok[OF x(1) _ _ assms(2)] by (simp_all add: tree_ok_Node fields_ok_def)
  note t = ok(1)[unfolded tree_ok.simps[of tree]]
  have roots: "fields_ok roots"
  proof (rule fields_ok_map_r[OF x(2)])
    fix n u y assume "(n, u) \<in> set (branches tree)" "build_node explicit [n] u = Inr y"
    moreover from this(1) t have "tree_ok u" by (auto simp: list_all_iff)
    ultimately show "contract_ok y" using build_node_ok[OF _ _ ok(2)] by blast
  qed (use t in blast)
  have "fields_ok e" if "fold_r (\<lambda>(name, s) expanded. emit_path limit name s expanded) rs a = Inr e" "fields_ok a"
    "\<forall>(n, s) \<in> set rs. contract_ok s" for rs a
    using that emit_ok(1) by (induction rs arbitrary: a) (auto simp: bind_r_Inr_iff)
  from this[OF x(3)] roots show ?thesis by (auto simp: contracts_ok_fields fields_ok_def)
qed

subsection \<open>The cache\<close>

text \<open>A sequence of expansions inside one cache scope\<close>

fun expand_all ::
    "(pyval \<Rightarrow> string) \<Rightarrow> (pyval \<Rightarrow> string) \<Rightarrow> (string \<Rightarrow> pyval) \<Rightarrow> nat \<Rightarrow> cache option \<Rightarrow>
     (string \<times> pyval) list list \<Rightarrow> pyval res list \<times> cache option" where
  "expand_all dumps dumps_sorted loads limit cache [] = ([], cache)"
| "expand_all dumps dumps_sorted loads limit cache (raw # raws) =
     (let (r, cache') = expand_contracts dumps dumps_sorted loads limit cache raw;
          (rs, cache'') = expand_all dumps dumps_sorted loads limit cache' raws in (r # rs, cache''))"

text \<open>What a cached result may differ in: the order of keys\<close>

definition same_result :: "contracts res \<Rightarrow> pyval res \<Rightarrow> bool" where
  "same_result expected r = (case expected of
     Inl e \<Rightarrow> r = Inl e
   | Inr e \<Rightarrow> (case r of Inl _ \<Rightarrow> False | Inr v \<Rightarrow> v = contracts_to_py e \<or> json_values_equal v (contracts_to_py e)))"

text \<open>An entry answers for every map of the sequence with its key.\<close>

definition answers ::
    "(pyval \<Rightarrow> string) \<Rightarrow> (string \<Rightarrow> pyval) \<Rightarrow> nat \<Rightarrow> (string \<times> pyval) list list \<Rightarrow> cache \<Rightarrow> bool" where
  "answers dumps loads limit raws entries \<longleftrightarrow>
     (\<forall>raw \<in> set raws. \<forall>encoded. is_exact_json (raw_map raw) \<longrightarrow> map_of entries (dumps (raw_map raw)) = Some encoded \<longrightarrow>
        same_result (expand_contracts_uncached limit raw) (Inr (loads encoded)))"

lemma move_to_end_lookup: "distinct (keys_of c) \<Longrightarrow> map_of (move_to_end k c) x = map_of c x"
  by (auto simp: move_to_end_def map_add_def delete_conv' split: option.splits)

lemma move_to_end_keys: "distinct (keys_of c) \<Longrightarrow> distinct (keys_of (move_to_end k c))"
  by (auto simp: move_to_end_def distinct_removeAll delete_keys split: option.splits)

lemma move_to_end_length: "distinct (keys_of c) \<Longrightarrow> length (move_to_end k c) = length c"
proof (cases "map_of c k")
  case (Some v)
  assume d: "distinct (keys_of c)"
  have "length c = card (set (keys_of c))" using distinct_card[OF d] by simp
  moreover have "length (AList.delete k c) = card (set (keys_of c) - {k})"
    using distinct_card[OF distinct_delete[OF d], of k] length_map[of fst "AList.delete k c"] by (simp add: delete_keys)
  moreover have "k \<in> set (keys_of c)" using map_of_in_set[OF Some] by force
  ultimately show ?thesis using card_Suc_Diff1[of "set (keys_of c)" k] by (simp add: Some move_to_end_def)
qed (simp add: move_to_end_def)

lemma drop_lookup: "distinct (keys_of c) \<Longrightarrow> map_of (drop n c) x = Some v \<Longrightarrow> map_of c x = Some v"
  by (metis in_set_dropD map_of_SomeD map_of_is_SomeI)

lemma remember_props:
  assumes "distinct (keys_of c)"
  shows "distinct (keys_of (remember k v c))" "length (remember k v c) \<le> cache_max_entries"
    "map_of (remember k v c) x = Some w \<Longrightarrow> x = k \<and> w = v \<or> map_of c x = Some w"
    "fst (last (remember k v c)) = k" "remember k v c \<noteq> []"
proof -
  let ?u = "AList.update k v c"
  have u: "distinct (keys_of ?u)" using assms by (rule distinct_update)
  note m = move_to_end_keys[OF u, of k]
  have "map_of ?u k = Some v" by (simp add: update_conv')
  then have grown: "move_to_end k ?u = AList.delete k ?u @ [(k, v)]" by (simp add: move_to_end_def)
  show "distinct (keys_of (remember k v c))"
    using m by (simp add: remember_def Let_def drop_map[symmetric])
  show "length (remember k v c) \<le> cache_max_entries" by (simp add: remember_def Let_def)
  show "x = k \<and> w = v \<or> map_of c x = Some w" if "map_of (remember k v c) x = Some w"
    using drop_lookup[OF m that[unfolded remember_def Let_def]] move_to_end_lookup[OF u]
    by (auto simp: update_conv' split: if_splits)
  show "fst (last (remember k v c)) = k" "remember k v c \<noteq> []"
    by (simp_all add: remember_def Let_def grown cache_max_entries_def last_drop)
qed

lemma expand_step:
  assumes codec: "\<And>e. expand_contracts_uncached limit raw = Inr e \<Longrightarrow> is_exact_json (contracts_to_py e) \<Longrightarrow>
      json_values_equal (loads (dumps_sorted (contracts_to_py e))) (contracts_to_py e)"
    and inj: "\<And>other. other \<in> set raws \<Longrightarrow> is_exact_json (raw_map other) \<Longrightarrow> is_exact_json (raw_map raw) \<Longrightarrow>
      dumps (raw_map other) = dumps (raw_map raw) \<Longrightarrow> other = raw"
    and c: "answers dumps loads limit raws entries" "distinct (keys_of entries)" "raw \<in> set raws"
    and step: "expand_contracts dumps dumps_sorted loads limit (Some entries) raw = (r, c')"
  shows "same_result (expand_contracts_uncached limit raw) r"
    "\<exists>entries'. c' = Some entries' \<and> answers dumps loads limit raws entries' \<and> distinct (keys_of entries')"
proof -
  let ?key = "dumps (raw_map raw)" and ?u = "expand_contracts_uncached limit raw"
  have direct: "same_result ?u (bind_r ?u (\<lambda>e. Inr (contracts_to_py e)))" by (cases ?u) (auto simp: same_result_def)
  have "same_result ?u r \<and> (\<exists>entries'. c' = Some entries' \<and> answers dumps loads limit raws entries' \<and> distinct (keys_of entries'))"
  proof (cases "is_exact_json (raw_map raw)")
    case False
    then show ?thesis using step direct c by (auto simp: expand_contracts_def Let_def)
  next
    case ex: True
    show ?thesis
    proof (cases "map_of entries ?key")
      case (Some enc)
      then have "r = Inr (loads enc)" "c' = Some (move_to_end ?key entries)"
        using step ex by (auto simp: expand_contracts_def Let_def)
      moreover have "same_result ?u (Inr (loads enc))" using c(1,3) ex Some by (simp add: answers_def)
      ultimately show ?thesis
        using c(1,2) move_to_end_keys[OF c(2)] by (simp add: answers_def move_to_end_lookup[OF c(2)])
    next
      case None
      show ?thesis
      proof (cases ?u)
        case (Inl err)
        then show ?thesis using step ex None c by (auto simp: expand_contracts_def Let_def same_result_def)
      next
        case (Inr e)
        have r: "r = Inr (contracts_to_py e)" and c': "c' = (if is_exact_json (contracts_to_py e)
            then Some (remember ?key (dumps_sorted (contracts_to_py e)) entries) else Some entries)"
          using step ex None Inr by (auto simp: expand_contracts_def Let_def split: if_splits)
        let ?rem = "remember ?key (dumps_sorted (contracts_to_py e)) entries"
        have "answers dumps loads limit raws ?rem" if x: "is_exact_json (contracts_to_py e)"
          unfolding answers_def
        proof (intro ballI allI impI)
          fix other enc assume o: "other \<in> set raws" "is_exact_json (raw_map other)" "map_of ?rem (dumps (raw_map other)) = Some enc"
          from remember_props(3)[OF c(2) o(3)]
          show "same_result (expand_contracts_uncached limit other) (Inr (loads enc))"
          proof
            assume "dumps (raw_map other) = ?key \<and> enc = dumps_sorted (contracts_to_py e)"
            with inj[OF o(1,2) ex] codec[OF Inr x] Inr show ?thesis by (auto simp: same_result_def)
          next
            assume "map_of entries (dumps (raw_map other)) = Some enc"
            with c(1) o(1,2) show ?thesis by (simp add: answers_def)
          qed
        qed
        with r c' c remember_props(1)[OF c(2)] Inr show ?thesis by (auto simp: same_result_def)
      qed
    qed
  qed
  then show "same_result ?u r"
    "\<exists>entries'. c' = Some entries' \<and> answers dumps loads limit raws entries' \<and> distinct (keys_of entries')" by blast+
qed

lemma expand_all_same:
  assumes codec: "\<And>raw e. raw \<in> set raws \<Longrightarrow> expand_contracts_uncached limit raw = Inr e \<Longrightarrow>
      is_exact_json (contracts_to_py e) \<Longrightarrow> json_values_equal (loads (dumps_sorted (contracts_to_py e))) (contracts_to_py e)"
    and inj: "\<And>a b. a \<in> set raws \<Longrightarrow> b \<in> set raws \<Longrightarrow> is_exact_json (raw_map a) \<Longrightarrow> is_exact_json (raw_map b) \<Longrightarrow>
      dumps (raw_map a) = dumps (raw_map b) \<Longrightarrow> a = b"
    and "set now \<subseteq> set raws" "answers dumps loads limit raws entries" "distinct (keys_of entries)"
  shows "list_all2 (\<lambda>raw r. same_result (expand_contracts_uncached limit raw) r) now
    (fst (expand_all dumps dumps_sorted loads limit (Some entries) now))"
  using assms(3-5)
proof (induction now arbitrary: entries)
  case (Cons raw now)
  obtain r c' where s: "expand_contracts dumps dumps_sorted loads limit (Some entries) raw = (r, c')" by force
  have raw: "raw \<in> set raws" using Cons.prems(1) by simp
  note step = expand_step[OF codec[OF raw] inj[OF _ raw] Cons.prems(2,3) raw s]
  obtain es where es: "c' = Some es" "answers dumps loads limit raws es" "distinct (keys_of es)" using step(2) by blast
  have eq: "fst (expand_all dumps dumps_sorted loads limit (Some entries) (raw # now)) =
      r # fst (expand_all dumps dumps_sorted loads limit (Some es) now)"
    by (simp add: s es(1) case_prod_beta' Let_def)
  show ?case unfolding eq list_all2_Cons
    using step(1) Cons.IH[OF _ es(2,3)] Cons.prems(1) by (simp only: set_simps insert_subset simp_thms)
qed simp

subsection \<open>An example\<close>

abbreviation example_raw :: "(string \<times> pyval) list" where
  "example_raw \<equiv> [(''a'', PDict [(KStr ''type'', PStr ''object''),
      (KStr ''properties'', PDict [(KStr ''b'', PDict [(KStr ''type'', PStr ''string'')])]),
      (KStr ''required'', PList [PStr ''b'']),
      (KStr ''additionalProperties'', PDict [(KStr ''type'', PStr ''integer'')])])]"

abbreviation example_root :: schema where
  "example_root \<equiv> SObj (Kws (Some [JObject]) (Some [(''b'', typed JString)]) (Some [''b'']) (Some (typed JInteger))
     None None None None None None [])"

abbreviation example_expanded :: contracts where
  "example_expanded \<equiv> [(''a'', example_root), (''a.b'', typed JString)]"

lemma typed_not_False: "typed t \<noteq> SFalse"
  by (simp add: typed_def)

lemma example_expansion: "expand_contracts_uncached 4 example_raw = Inr example_expanded"
proof -
  have d: "declare_contracts (Node []) [] example_raw = Inr (Node [(''a'', Node [])], [([''a''], example_root)])"
    by code_simp
  have n: "normalize_data_key_schema_uncached ''a'' (schema_to_py example_root) = Inr example_root"
    "normalize_data_key_schema_uncached ''a.b'' (schema_to_py (typed JString)) = Inr (typed JString)" by code_simp+
  have c: "schema_child_schema ''b'' ''a'' example_root = Inr (typed JString)"
    "sorted_set (schema_explicit_child_names example_root) = [''b'']"
    "sorted_set (schema_explicit_child_names (typed JString)) = []" by code_simp+
  have "build_node [([''a''], example_root)] [''a''] (Node []) = Inr example_root"
    by (subst build_node.simps) (simp add: finish_node_def keep_independent_def n)
  moreover have "emit_path 4 ''a'' example_root [] = Inr example_expanded"
    by (simp add: settle_emitted_def eval_nat_numeral n c typed_not_False)
  ultimately show ?thesis
    by (simp only: expand_contracts_uncached_def d bind_r_simps prod.case) simp
qed

abbreviation example_data :: "(pykey \<times> pyval) list" where
  "example_data \<equiv> [(KStr ''a'', PDict [(KStr ''b'', PStr ''x''), (KStr ''c'', PInt 1)])]"

lemma example_conforms: "conforms example_expanded example_data"
  by code_simp

subsection \<open>Properties\<close>

text \<open>\<^bold>\<open>C28\<close>. Expansion is type correct: whenever \<open>_expand_contracts_uncached\<close> returns, each path
  occurs once and each contract in the map is a normal form that every operation on
  normalized contracts may be given, whichever mixture of dotted paths, nested objects,
  literals and unions declared it.\<close>

theorem expand_contracts_yields_contracts:
  assumes "expand_contracts_uncached limit raw = Inr expanded" and "list_all (\<lambda>(path, schema). wf_val schema) raw"
  shows "contracts_ok expanded"
  using assms by (rule expand_contracts_ok)

theorem expand_contracts_yields_contracts_witness:
  "contracts_ok example_expanded"
  by (rule expand_contracts_yields_contracts[OF example_expansion]) simp

text \<open>\<^bold>\<open>C26\<close>. The contract resolved for a path describes the data: in a Data Dict whose root values
  pass their expanded contracts, a value found at a path below a declared root passes the
  contract that \<open>resolve_contract_path\<close> returns for the path; in particular such a path never
  resolves to the default.\<close>

theorem resolve_contract_path_describes_value:
  assumes "list_all (\<lambda>(path, schema). wf_val schema) raw" and "expand_contracts_uncached limit raw = Inr expanded"
    and "conforms expanded data" and "wf_val (PDict data)"
    and "split_data_path path = Inr parts" and "find_segments (PDict data) parts = Some x"
    and "hd parts \<in> set (keys_of expanded)" and "resolve_contract_path limit raw path = Inr found"
  shows "\<exists>c. found = Some c \<and> validate_normalized False path x c = Inr ()"
proof -
  have "resolve_expanded_contract_path expanded path = Inr found" using assms(2,8) by (simp add: resolve_contract_path_def)
  from resolved_contract[OF expand_contracts_ok[OF assms(2,1)] assms(3-7) this] show ?thesis
    using validate_accepts by blast
qed

theorem resolve_contract_path_describes_value_witness:
  "\<exists>c. resolve_contract_path 4 example_raw ''a.c'' = Inr (Some c) \<and> validate_normalized False ''a.c'' (PInt 1) c = Inr ()"
proof -
  have s: "split_data_path ''a.c'' = Inr [''a'', ''c'']" by code_simp
  have c: "schema_child_schema ''c'' ''a'' example_root = Inr (typed JInteger)" by code_simp
  have r: "resolve_contract_path 4 example_raw ''a.c'' = Inr (Some (typed JInteger))"
    by (simp add: resolve_contract_path_def example_expansion resolve_expanded_contract_path_def s c typed_not_False)
  from resolve_contract_path_describes_value[OF _ example_expansion example_conforms _ s _ _ r, of "PInt 1"] r show ?thesis
    by simp
qed

text \<open>\<^bold>\<open>C27\<close>. A path reported as required is present: when \<open>contract_path_required\<close> answers \<open>True\<close>,
  every Data Dict that has the roots taken to be present and whose root values pass their
  contracts has a value at the path.\<close>

theorem contract_path_required_present:
  assumes "list_all (\<lambda>(path, schema). wf_val schema) raw" and "expand_contracts_uncached limit raw = Inr expanded"
    and "conforms expanded data" and "wf_val (PDict data)"
    and "presence_roots expanded required_roots = Inr roots" and "list_all (\<lambda>r. KStr r \<in> set (keys_of data)) roots"
    and "contract_path_required limit raw required_roots path = Inr True"
  shows "\<exists>parts x. split_data_path path = Inr parts \<and> find_segments (PDict data) parts = Some x"
proof -
  have "expanded_contract_path_required expanded required_roots path = Inr True"
    using assms(2,7) by (simp add: contract_path_required_def)
  from required_path_present[OF expand_contracts_ok[OF assms(2,1)] assms(3-6) this] show ?thesis .
qed

theorem contract_path_required_present_witness:
  "contract_path_required 4 example_raw None ''a.b'' = Inr True \<and>
   (\<exists>parts x. split_data_path ''a.b'' = Inr parts \<and> find_segments (PDict example_data) parts = Some x)"
proof -
  have e: "presence_roots example_expanded None = Inr [''a'']" by code_simp
  have s: "split_data_path ''a.b'' = Inr [''a'', ''b'']" by code_simp
  have c: "expanded_contract_root_paths example_expanded = Inr [''a'']" by code_simp
  have n: "normalized_schemas_compatible example_root (required_path_schema [''b'']) = Inr True"
    by (simp add: compatibility_eval schema_to_py.simps opt_entry_def type_to_py_def typed_def no_kws_def cong: eval_congs)
  have r: "contract_path_required 4 example_raw None ''a.b'' = Inr True"
    by (simp add: contract_path_required_def example_expansion expanded_contract_path_required_def s c n
        del: required_path_schema.simps)
  from contract_path_required_present[OF _ example_expansion example_conforms _ e _ r] r show ?thesis by simp
qed



text \<open>The cache keeps its bound and its order: after an expansion no key occurs twice, there are
  at most \<open>_EXPAND_CONTRACT_CACHE_MAX_ENTRIES\<close> entries, and a map that was answered from the
  cache or added to it is the last, most recently used entry.\<close>

theorem expand_contracts_cache_bounded:
  assumes "distinct (keys_of entries)" and "length entries \<le> cache_max_entries"
    and "expand_contracts dumps dumps_sorted loads limit (Some entries) raw = (r, Some entries')"
  shows "distinct (keys_of entries') \<and> length entries' \<le> cache_max_entries \<and>
    (entries' = entries \<or> fst (last entries') = dumps (raw_map raw))"
proof -
  let ?key = "dumps (raw_map raw)"
  consider "entries' = entries" | v where "map_of entries ?key = Some v" "entries' = move_to_end ?key entries"
    | v where "entries' = remember ?key v entries"
  proof (cases "is_exact_json (raw_map raw)")
    case ex: True
    show ?thesis
    proof (cases "map_of entries ?key")
      case None
      have "entries' = entries \<or> (\<exists>v. entries' = remember ?key v entries)"
        using assms(3) ex None
        by (cases "expand_contracts_uncached limit raw") (auto simp: expand_contracts_def Let_def split: if_splits)
      then show ?thesis using that(1,3) by blast
    next
      case (Some v)
      then have "entries' = move_to_end ?key entries" using assms(3) ex by (simp add: expand_contracts_def Let_def)
      with Some show ?thesis by (rule that(2))
    qed
  next
    case False
    then have "entries' = entries" using assms(3) by (simp add: expand_contracts_def Let_def)
    then show ?thesis by (rule that(1))
  qed
  then show ?thesis
  proof cases
    case (2 v)
    with move_to_end_keys[OF assms(1), of ?key] move_to_end_length[OF assms(1), of ?key] assms(2) show ?thesis
      by (simp add: move_to_end_def)
  next
    case (3 v)
    with remember_props(1,2,4)[OF assms(1), of ?key v] show ?thesis by simp
  qed (use assms(1,2) in simp)
qed

theorem expand_contracts_cache_bounded_witness:
  "length (the (snd (expand_contracts (\<lambda>_. ''k'') (\<lambda>_. ''v'') (\<lambda>_. PNone) 4 (Some []) example_raw))) \<le> cache_max_entries"
proof -
  have "is_exact_json (raw_map example_raw)" "is_exact_json (contracts_to_py example_expanded)" by code_simp+
  then have e: "expand_contracts (\<lambda>_. ''k'') (\<lambda>_. ''v'') (\<lambda>_. PNone) 4 (Some []) example_raw =
      (Inr (contracts_to_py example_expanded), Some [(''k'', ''v'')])"
    by (simp add: expand_contracts_def example_expansion remember_def move_to_end_def cache_max_entries_def)
  from expand_contracts_cache_bounded[OF _ _ e] e show ?thesis by (simp add: cache_max_entries_def)
qed

end
