(* ===== verification/Effects.thy ===== *)
theory Effects
  imports Prelude
begin

section \<open>Effects: state with exceptions\<close>

text \<open>
  Stateful Python code as functions from a state to an outcome and the state left behind. A
  raised exception keeps the state reached so far; \<open>try\<close>, \<open>except\<close> and \<open>finally\<close> are
  \<open>catch_s\<close> and \<open>finally_s\<close>. \<open>valid P m Q\<close> says that from a state satisfying \<open>P\<close>
  the outcome and final state satisfy \<open>Q\<close>; \<open>keeps I m\<close> that \<open>m\<close> preserves \<open>I\<close> on
  every path, the raising ones included. Its rules, collected in \<open>keeps_rules\<close>, follow the structure of
  the code.
\<close>

named_theorems keeps_rules \<open>structural rules of invariant preservation\<close>
named_theorems effect_defs \<open>definitions of the primitive effects\<close>

type_synonym ('s, 'a) act = "'s \<Rightarrow> 'a res \<times> 's"

definition ret_s :: "'a \<Rightarrow> ('s, 'a) act" where
  "ret_s x s = (Inr x, s)"

definition raise_s :: "py_error \<Rightarrow> ('s, 'a) act" where
  "raise_s e s = (Inl e, s)"

definition bind_s :: "('s, 'a) act \<Rightarrow> ('a \<Rightarrow> ('s, 'b) act) \<Rightarrow> ('s, 'b) act" where
  "bind_s m f s = (case m s of (Inl e, t) \<Rightarrow> (Inl e, t) | (Inr x, t) \<Rightarrow> f x t)"

text \<open>\<open>try: m except BaseException as exc: h(exc)\<close>\<close>

definition catch_s :: "('s, 'a) act \<Rightarrow> (py_error \<Rightarrow> ('s, 'a) act) \<Rightarrow> ('s, 'a) act" where
  "catch_s m h s = (case m s of (Inl e, t) \<Rightarrow> h e t | (Inr x, t) \<Rightarrow> (Inr x, t))"

text \<open>\<open>try: m finally: f\<close>\<close>

definition finally_s :: "('s, 'a) act \<Rightarrow> ('s, unit) act \<Rightarrow> ('s, 'a) act" where
  "finally_s m f s = (case m s of (r, t) \<Rightarrow> (case f t of (Inl e, u) \<Rightarrow> (Inl e, u) | (Inr _, u) \<Rightarrow> (r, u)))"

definition gets_s :: "('s \<Rightarrow> 'a) \<Rightarrow> ('s, 'a) act" where
  "gets_s f s = (Inr (f s), s)"

definition modify_s :: "('s \<Rightarrow> 's) \<Rightarrow> ('s, unit) act" where
  "modify_s f s = (Inr (), f s)"

text \<open>A computation without effect on the state\<close>

definition lift_s :: "'a res \<Rightarrow> ('s, 'a) act" where
  "lift_s r s = (r, s)"

definition guard_s :: "bool \<Rightarrow> py_error \<Rightarrow> ('s, unit) act" where
  "guard_s b e = lift_s (guard_r b e)"

fun iter_s :: "('a \<Rightarrow> ('s, unit) act) \<Rightarrow> 'a list \<Rightarrow> ('s, unit) act" where
  "iter_s f [] = ret_s ()"
| "iter_s f (x # xs) = bind_s (f x) (\<lambda>_. iter_s f xs)"

fun map_s :: "('a \<Rightarrow> ('s, 'b) act) \<Rightarrow> 'a list \<Rightarrow> ('s, 'b list) act" where
  "map_s f [] = ret_s []"
| "map_s f (x # xs) = bind_s (f x) (\<lambda>y. bind_s (map_s f xs) (\<lambda>ys. ret_s (y # ys)))"

fun fold_s :: "('b \<Rightarrow> 'a \<Rightarrow> ('s, 'b) act) \<Rightarrow> 'b \<Rightarrow> 'a list \<Rightarrow> ('s, 'b) act" where
  "fold_s f acc [] = ret_s acc"
| "fold_s f acc (x # xs) = bind_s (f acc x) (\<lambda>acc'. fold_s f acc' xs)"

lemmas primitive_effects [effect_defs] =
  ret_s_def raise_s_def gets_s_def modify_s_def lift_s_def guard_s_def

definition valid :: "('s \<Rightarrow> bool) \<Rightarrow> ('s, 'a) act \<Rightarrow> ('a res \<Rightarrow> 's \<Rightarrow> bool) \<Rightarrow> bool" where
  "valid P m Q \<longleftrightarrow> (\<forall>s. P s \<longrightarrow> Q (fst (m s)) (snd (m s)))"

abbreviation keeps :: "('s \<Rightarrow> bool) \<Rightarrow> ('s, 'a) act \<Rightarrow> bool" where
  "keeps I m \<equiv> valid I m (\<lambda>_. I)"

lemma validD: "valid P m Q \<Longrightarrow> P s \<Longrightarrow> m s = (r, t) \<Longrightarrow> Q r t"
  by (force simp: valid_def)

lemma valid_snd: "keeps I m \<Longrightarrow> I s \<Longrightarrow> I (snd (m s))"
  by (simp add: valid_def)

lemma valid_weaken: "valid P m Q \<Longrightarrow> (\<And>s. P' s \<Longrightarrow> P s) \<Longrightarrow> (\<And>r s. Q r s \<Longrightarrow> Q' r s) \<Longrightarrow> valid P' m Q'"
  by (auto simp: valid_def)

lemma valid_conj: "valid P m Q \<Longrightarrow> valid P m Q' \<Longrightarrow> valid P m (\<lambda>r s. Q r s \<and> Q' r s)"
  by (auto simp: valid_def)

lemma valid_bind:
  assumes "valid P m R" and "\<And>x. valid (R (Inr x)) (f x) Q" and "\<And>e s. R (Inl e) s \<Longrightarrow> Q (Inl e) s"
  shows "valid P (bind_s m f) Q"
  using assms by (fastforce simp: valid_def bind_s_def split: prod.split sum.split)

lemma valid_catch:
  assumes "valid P m R" and "\<And>e. valid (R (Inl e)) (h e) Q" and "\<And>x s. R (Inr x) s \<Longrightarrow> Q (Inr x) s"
  shows "valid P (catch_s m h) Q"
  using assms by (fastforce simp: valid_def catch_s_def split: prod.split sum.split)

lemma keeps_bind [keeps_rules]: "keeps I m \<Longrightarrow> (\<And>x. keeps I (f x)) \<Longrightarrow> keeps I (bind_s m f)"
  by (rule valid_bind[where R = "\<lambda>_. I"])

lemma keeps_catch [keeps_rules]: "keeps I m \<Longrightarrow> (\<And>e. keeps I (h e)) \<Longrightarrow> keeps I (catch_s m h)"
  by (rule valid_catch[where R = "\<lambda>_. I"])

lemma keeps_finally [keeps_rules]: "keeps I m \<Longrightarrow> keeps I f \<Longrightarrow> keeps I (finally_s m f)"
  by (fastforce simp: valid_def finally_s_def split: prod.split sum.split)

lemma keeps_primitive [keeps_rules]:
  "keeps I (ret_s x)" "keeps I (raise_s e)" "keeps I (gets_s g)" "keeps I (lift_s r)" "keeps I (guard_s b e)"
  by (simp_all add: valid_def effect_defs)

lemma keeps_modify [keeps_rules]: "(\<And>s. I s \<Longrightarrow> I (g s)) \<Longrightarrow> keeps I (modify_s g)"
  by (simp add: valid_def effect_defs)

lemma keeps_iter [keeps_rules]: "(\<And>x. x \<in> set xs \<Longrightarrow> keeps I (f x)) \<Longrightarrow> keeps I (iter_s f xs)"
  by (induction xs) (auto intro!: keeps_rules)

lemma keeps_map [keeps_rules]: "(\<And>x. x \<in> set xs \<Longrightarrow> keeps I (f x)) \<Longrightarrow> keeps I (map_s f xs)"
  by (induction xs) (auto intro!: keeps_rules)

lemma keeps_fold [keeps_rules]: "(\<And>acc x. x \<in> set xs \<Longrightarrow> keeps I (f acc x)) \<Longrightarrow> keeps I (fold_s f acc xs)"
  by (induction xs arbitrary: acc) (auto intro!: keeps_rules)

lemma keeps_if [keeps_rules]: "(b \<Longrightarrow> keeps I m) \<Longrightarrow> (\<not> b \<Longrightarrow> keeps I n) \<Longrightarrow> keeps I (if b then m else n)"
  by simp

lemma keeps_option [keeps_rules]:
  "(x = None \<Longrightarrow> keeps I m) \<Longrightarrow> (\<And>y. x = Some y \<Longrightarrow> keeps I (f y)) \<Longrightarrow> keeps I (case x of None \<Rightarrow> m | Some y \<Rightarrow> f y)"
  by (cases x) auto

text \<open>\<open>yields I A m\<close>: besides preserving \<open>I\<close>, what \<open>m\<close> returns satisfies \<open>A\<close>.\<close>

definition yields :: "('s \<Rightarrow> bool) \<Rightarrow> ('a \<Rightarrow> bool) \<Rightarrow> ('s, 'a) act \<Rightarrow> bool" where
  "yields I A m \<longleftrightarrow> valid I m (\<lambda>r s. I s \<and> (\<forall>x. r = Inr x \<longrightarrow> A x))"

lemma yields_keeps: "yields I A m \<Longrightarrow> keeps I m"
  by (auto simp: yields_def valid_def)

lemma keeps_yields: "keeps I m \<Longrightarrow> (\<And>s x t. I s \<Longrightarrow> m s = (Inr x, t) \<Longrightarrow> A x) \<Longrightarrow> yields I A m"
  by (auto simp: yields_def valid_def prod_eq_iff)

lemma yieldsD: "yields I A m \<Longrightarrow> I s \<Longrightarrow> m s = (Inr x, t) \<Longrightarrow> I t \<and> A x"
  by (force simp: yields_def valid_def)

lemma keeps_bind_yields: "yields I A m \<Longrightarrow> (\<And>x. A x \<Longrightarrow> keeps I (f x)) \<Longrightarrow> keeps I (bind_s m f)"
  unfolding yields_def
  by (rule valid_bind[where R = "\<lambda>r s. I s \<and> (\<forall>x. r = Inr x \<longrightarrow> A x)"]) (auto simp: valid_def)

lemma yields_bind: "yields I A m \<Longrightarrow> (\<And>x. A x \<Longrightarrow> yields I B (f x)) \<Longrightarrow> yields I B (bind_s m f)"
  unfolding yields_def
  by (rule valid_bind[where R = "\<lambda>r s. I s \<and> (\<forall>x. r = Inr x \<longrightarrow> A x)"]) (auto simp: valid_def)

lemma yields_bind_keeps: "keeps I m \<Longrightarrow> (\<And>x. yields I B (f x)) \<Longrightarrow> yields I B (bind_s m f)"
  unfolding yields_def by (rule valid_bind[where R = "\<lambda>r. I"]) (auto simp: valid_def)

lemma yields_catch: "yields I A m \<Longrightarrow> (\<And>e. yields I A (h e)) \<Longrightarrow> yields I A (catch_s m h)"
  unfolding yields_def
  by (rule valid_catch[where R = "\<lambda>r s. I s \<and> (\<forall>x. r = Inr x \<longrightarrow> A x)"]) (auto simp: valid_def)

lemma yields_ret: "A x \<Longrightarrow> yields I A (ret_s x)"
  by (simp add: yields_def valid_def effect_defs)

lemma yields_raise: "yields I A (raise_s e)"
  by (simp add: yields_def valid_def effect_defs)

lemma yields_lift: "(\<And>x. r = Inr x \<Longrightarrow> A x) \<Longrightarrow> yields I A (lift_s r)"
  by (simp add: yields_def valid_def effect_defs)

lemma yields_guard: "yields I (\<lambda>_. b) (guard_s b e)"
  by (simp add: yields_def valid_def effect_defs guard_r_def)

lemma yields_if: "(b \<Longrightarrow> yields I A m) \<Longrightarrow> (\<not> b \<Longrightarrow> yields I A n) \<Longrightarrow> yields I A (if b then m else n)"
  by simp

lemma yields_pair: "(\<And>a b. r = (a, b) \<Longrightarrow> yields I A (f a b)) \<Longrightarrow> yields I A (case r of (a, b) \<Rightarrow> f a b)"
  by (cases r) simp

lemma keeps_True: "keeps (\<lambda>_. True) m"
  by (simp add: valid_def)

lemma yields_map:
  assumes "\<And>x. x \<in> set xs \<Longrightarrow> yields I A (f x)"
  shows "yields I (list_all A) (map_s f xs)"
  using assms by (induction xs) (auto intro!: yields_bind yields_ret)

text \<open>Running the binds\<close>

lemma bind_s_Inr: "m s = (Inr x, t) \<Longrightarrow> bind_s m f s = f x t"
  by (simp add: bind_s_def)

lemma bind_s_Inl: "m s = (Inl e, t) \<Longrightarrow> bind_s m f s = (Inl e, t)"
  by (simp add: bind_s_def)

lemma bind_s_InrE:
  assumes "bind_s m f s = (Inr y, u)"
  obtains x t where "m s = (Inr x, t)" "f x t = (Inr y, u)"
  using assms by (cases "m s") (auto simp: bind_s_def split: sum.splits)

lemma bind_s_prim [simp]:
  "bind_s (ret_s x) f s = f x s" "bind_s (raise_s e) f s = (Inl e, s)"
  "bind_s (gets_s g) f s = f (g s) s" "bind_s (modify_s h) f' s = f' () (h s)"
  "bind_s (lift_s (Inr x)) f s = f x s" "bind_s (lift_s (Inl e)) f s = (Inl e, s)"
  "bind_s (guard_s b e) f' s = (if b then f' () s else (Inl e, s))"
  by (simp_all add: bind_s_def effect_defs)

end
