(* ===== verification/Contract_Reducer.thy ===== *)
theory Contract_Reducer
  imports Expansion_Soundness Effects
begin

section \<open>Ordered contract writes\<close>

text \<open>
  Models \<open>engine/contracts/contract_reducer.py\<close>: how the contract of a Data Dict changes when a
  value is written at a path, required or optional, and the reducer that applies such
  writes in order. \<open>_write_nested_schema\<close> calls itself on the normal form of the contract it
  was given, on literal contracts that it builds, on branches and on members; the
  interpreter's recursion limit is an argument, and \<open>RecursionError\<close> what lies beyond it.
  \<open>Reducer_Termination\<close> shows that a limit above the nesting of the contract is never reached.
  Requiredness is a Boolean by its type.
\<close>

subsection \<open>One write\<close>

definition write_required_roots :: "string set \<Rightarrow> string \<Rightarrow> bool \<Rightarrow> string set res" where
  "write_required_roots required_roots path required =
     bind_r (split_data_path path) (\<lambda>parts.
     Inr (if required then insert (hd parts) required_roots else required_roots))"

text \<open>The old value survives or the new one is written.\<close>

definition optional_schema_union :: "schema option \<Rightarrow> schema \<Rightarrow> string \<Rightarrow> schema res" where
  "optional_schema_union left right path =
     (case left of
        None \<Rightarrow> Inr right
      | Some l \<Rightarrow>
          if same l right then Inr right
          else
          bind_r (normalize_data_key_schema_uncached path (schema_to_py l)) (\<lambda>l.
          bind_r (normalize_data_key_schema_uncached path (schema_to_py right)) (\<lambda>r.
          bind_r (normalized_schemas_compatible l r) (\<lambda>lr.
          if lr then Inr r
          else bind_r (normalized_schemas_compatible r l) (\<lambda>rl.
          if rl then Inr l
          else normalize_data_key_schema_uncached path (branches_schema ''anyOf'' [l, r]))))))"

text \<open>Whether a value may be an object, and whether it may be something else\<close>

definition schema_structure_categories :: "schema \<Rightarrow> bool \<times> bool" where
  "schema_structure_categories s =
     (let types = possible_runtime_types s in (JObject \<in> set types, list_ex (\<lambda>t. t \<noteq> JObject) types))"

definition require_write_structure_compatibility :: "schema \<Rightarrow> schema \<Rightarrow> string \<Rightarrow> unit res" where
  "require_write_structure_compatibility old new path =
     (case (schema_structure_categories old, schema_structure_categories new) of
        ((old_object, old_non_object), (new_object, new_non_object)) \<Rightarrow>
          guard_r (\<not> (old_object \<and> new_non_object \<or> old_non_object \<and> new_object))
            (ValueError (''DataKey contract write '' @ quoted path @ '' changes JSON structure.'')))"

fun created_path_schema :: "string list \<Rightarrow> schema \<Rightarrow> string \<Rightarrow> schema res" where
  "created_path_schema [] value path = Inr value"
| "created_path_schema (name # parts) value path =
     bind_r (created_path_schema parts value (path @ ''.'' @ name)) (\<lambda>child.
     normalize_data_key_schema_uncached path (schema_to_py
       (SObj (Kws (Some [JObject]) (Some [(name, child)]) (Some [name]) (Some SFalse) None None None None None None []))))"

subsection \<open>Writing below a contract\<close>

definition empty_object :: "schema kws" where
  "empty_object = Kws (Some [JObject]) (Some []) (Some []) (Some SFalse) None None None None None None []"

definition write_collision :: "string \<Rightarrow> string list \<Rightarrow> py_error" where
  "write_collision path parts =
     ValueError (''DataKey contract write '' @ quoted (path @ ''.'' @ join_str ''.'' parts) @
       '' collides with a non-object path.'')"

definition schema_literal_values :: "schema kws \<Rightarrow> pyval list option" where
  "schema_literal_values k = (case kw_const k of Some c \<Rightarrow> Some [c] | None \<Rightarrow> kw_enum k)"

text \<open>The contract that stands for a list of literals\<close>

definition literals_schema :: "pyval list \<Rightarrow> schema" where
  "literals_schema literals =
     (case map literal_data_key_schema literals of
        [s] \<Rightarrow> s
      | ss \<Rightarrow> SObj (Kws None None None None None None None (Some ss) None None []))"

text \<open>Rewritten branches; \<open>oneOf\<close> is widened to \<open>anyOf\<close>.\<close>

definition merged_any :: "schema list option \<Rightarrow> schema list option \<Rightarrow> schema list option" where
  "merged_any any one =
     (case one of None \<Rightarrow> any | Some os \<Rightarrow> Some (opt_list any @ os))"

definition map_branches :: "(schema \<Rightarrow> schema res) \<Rightarrow> schema list option \<Rightarrow> schema list option res" where
  "map_branches f bo =
     (case bo of None \<Rightarrow> Inr None | Some bs \<Rightarrow> bind_r (map_r f bs) (\<lambda>bs'. Inr (Some bs')))"

definition with_branches :: "schema kws \<Rightarrow> schema list option \<Rightarrow> schema list option \<Rightarrow> schema kws" where
  "with_branches k all any =
     Kws (kw_type k) (kw_props k) (kw_required k) (kw_additional k) (kw_items k) None None any None all (kw_annot k)"

definition composition_only :: "schema kws \<Rightarrow> bool" where
  "composition_only k \<longleftrightarrow>
     kw_type k = None \<and> kw_props k = None \<and> kw_required k = None \<and> kw_additional k = None \<and> kw_items k = None"

definition old_child :: "schema kws \<Rightarrow> string \<Rightarrow> schema option" where
  "old_child k name =
     (case map_of (opt_list (kw_props k)) name of
        Some s \<Rightarrow> Some s
      | None \<Rightarrow> (case kw_additional k of None \<Rightarrow> Some any_schema
          | Some STrue \<Rightarrow> Some any_schema | Some SFalse \<Rightarrow> None | Some s \<Rightarrow> Some s))"

text \<open>The member contract after the write\<close>

definition written_child ::
    "(schema \<Rightarrow> string list \<Rightarrow> string \<Rightarrow> schema res) \<Rightarrow> schema kws \<Rightarrow> string \<Rightarrow> string list \<Rightarrow> schema \<Rightarrow> bool \<Rightarrow>
     string \<Rightarrow> schema res" where
  "written_child write k name rest value required path =
     (case rest of
        [] \<Rightarrow>
          bind_r (case old_child k name of
              None \<Rightarrow> Inr ()
            | Some old \<Rightarrow> require_write_structure_compatibility old value path) (\<lambda>_.
          if required then Inr value else optional_schema_union (old_child k name) value path)
      | _ \<Rightarrow>
          bind_r (created_path_schema rest value path) (\<lambda>created.
          case old_child k name of
            None \<Rightarrow> Inr created
          | Some old \<Rightarrow>
              bind_r (write old rest path) (\<lambda>updated.
              if name \<in> set (opt_list (kw_required k)) then Inr updated
              else optional_schema_union (Some updated) created path)))"

definition with_member :: "schema kws \<Rightarrow> string \<Rightarrow> schema \<Rightarrow> bool \<Rightarrow> schema kws" where
  "with_member k name child required =
     Kws (if declared_types k = [] then Some [JObject] else kw_type k)
       (Some (AList.update name child (opt_list (kw_props k))))
       (Some (if required then sorted_set (name # opt_list (kw_required k)) else sorted_set (opt_list (kw_required k))))
       (kw_additional k) (kw_items k) (kw_enum k) (kw_const k) (kw_any k) (kw_one k) (kw_all k) (kw_annot k)"

text \<open>One call, given the recursive calls\<close>

definition write_object ::
    "(schema \<Rightarrow> string list \<Rightarrow> string \<Rightarrow> schema res) \<Rightarrow> schema kws \<Rightarrow> string list \<Rightarrow> schema \<Rightarrow> bool \<Rightarrow> string \<Rightarrow> schema res" where
  "write_object write k parts value required path =
     bind_r (map_branches (\<lambda>b. write b parts path) (kw_all k)) (\<lambda>all.
     bind_r (map_branches (\<lambda>b. write b parts path) (kw_any k)) (\<lambda>any.
     bind_r (map_branches (\<lambda>b. write b parts path) (kw_one k)) (\<lambda>one.
     let result = with_branches k all (merged_any any one) in
     if composition_only result
     then normalize_data_key_schema_uncached path (schema_to_py (SObj result))
     else case parts of
         [] \<Rightarrow> Inl (IndexError ''tuple index out of range'')
       | name # rest \<Rightarrow>
           bind_r (written_child write result name rest value required (path @ ''.'' @ name)) (\<lambda>child.
           normalize_data_key_schema_uncached path (schema_to_py (SObj (with_member result name child required)))))))"

definition write_step ::
    "(schema \<Rightarrow> string list \<Rightarrow> string \<Rightarrow> schema res) \<Rightarrow> schema \<Rightarrow> string list \<Rightarrow> schema \<Rightarrow> bool \<Rightarrow> string \<Rightarrow> schema res" where
  "write_step write s parts value required path =
     bind_r (normalize_data_key_schema_uncached path (schema_to_py s)) (\<lambda>normalized.
     let types = possible_runtime_types normalized;
         k = (if types = [] then empty_object else kws_of normalized) in
     if types \<noteq> [] \<and> set types \<noteq> {JObject} then Inl (write_collision path parts)
     else case schema_literal_values k of
       Some literals \<Rightarrow> write (literals_schema literals) parts path
     | None \<Rightarrow> write_object write k parts value required path)"

text \<open>Calls nested to at most \<open>limit\<close>, with \<open>overrun\<close> beyond\<close>

primrec write_within ::
    "schema res \<Rightarrow> nat \<Rightarrow> schema \<Rightarrow> bool \<Rightarrow> schema \<Rightarrow> string list \<Rightarrow> string \<Rightarrow> schema res" where
  "write_within overrun 0 value required s parts path = overrun"
| "write_within overrun (Suc limit) value required s parts path =
     write_step (write_within overrun limit value required) s parts value required path"

definition write_nested_schema :: "nat \<Rightarrow> schema \<Rightarrow> bool \<Rightarrow> schema \<Rightarrow> string list \<Rightarrow> string \<Rightarrow> schema res" where
  "write_nested_schema = write_within (Inl recursion_error)"

lemma write_nested_schema_simps:
  "write_nested_schema 0 value required s parts path = Inl recursion_error"
  "write_nested_schema (Suc limit) value required s parts path =
     write_step (write_nested_schema limit value required) s parts value required path"
  by (simp_all add: write_nested_schema_def)

declare write_within.simps [simp del]

subsection \<open>The reducer\<close>

record reducer =
  root_schemas :: contracts
  required_roots :: "string set"

definition init_reducer :: "contracts \<Rightarrow> string set \<Rightarrow> reducer res" where
  "init_reducer expanded roots =
     bind_r (map_r (\<lambda>(path, s). bind_r (split_data_path path) (\<lambda>parts. Inr (path, s, parts))) expanded) (\<lambda>entries.
     let declared = map (\<lambda>(path, s, parts). (path, s)) (filter (\<lambda>(path, s, parts). length parts = 1) entries);
         missing = sorted_set (filter (\<lambda>root. root \<notin> set (keys_of declared)) (map (\<lambda>(path, s, parts). hd parts) entries)) in
     if missing \<noteq> []
     then Inl (ValueError (''Expanded DataKey contracts are missing root declaration(s): '' @ join_str '', '' missing))
     else Inr \<lparr>root_schemas = declared, required_roots = roots\<rparr>)"

text \<open>The root contract after a write\<close>

definition updated_root ::
    "nat \<Rightarrow> schema option \<Rightarrow> bool \<Rightarrow> string \<Rightarrow> string list \<Rightarrow> schema \<Rightarrow> bool \<Rightarrow> schema res" where
  "updated_root limit root_schema present root rest value required =
     (case rest of
        [] \<Rightarrow>
          (case root_schema of
             None \<Rightarrow> Inr value
           | Some s \<Rightarrow>
               bind_r (require_write_structure_compatibility s value root) (\<lambda>_.
               if required then Inr value else optional_schema_union (Some s) value root))
      | _ \<Rightarrow>
          (case root_schema of
             None \<Rightarrow> created_path_schema rest value root
           | Some s \<Rightarrow>
               bind_r (write_nested_schema limit value required s rest root) (\<lambda>updated.
               if present then Inr updated
               else bind_r (created_path_schema rest value root) (\<lambda>created.
                 optional_schema_union (Some updated) created root))))"

type_synonym contract_write = "string \<times> pyval \<times> bool"

definition apply_write :: "nat \<Rightarrow> contract_write \<Rightarrow> (reducer, unit) act" where
  "apply_write limit = (\<lambda>(path, schema, required).
     bind_s (lift_s (split_data_path path)) (\<lambda>parts.
     bind_s (lift_s (normalize_data_key_schema_uncached (join_str ''.'' parts) schema)) (\<lambda>value.
     let root = hd parts in
     bind_s (gets_s (\<lambda>st. (map_of (root_schemas st) root, root \<in> required_roots st))) (\<lambda>(root_schema, present).
     bind_s (lift_s (updated_root limit root_schema present root (tl parts) value required)) (\<lambda>updated.
     modify_s (\<lambda>st. st\<lparr>root_schemas := AList.delete root (root_schemas st) @ [(root, updated)],
       required_roots := (if required then insert root (required_roots st) else required_roots st)\<rparr>))))))"

text \<open>A batch is applied to copies, and the former state put back when a write raises.\<close>

definition apply_many :: "nat \<Rightarrow> contract_write list \<Rightarrow> (reducer, unit) act" where
  "apply_many limit writes =
     bind_s (gets_s (\<lambda>st. st)) (\<lambda>before.
     catch_s (iter_s (apply_write limit) writes) (\<lambda>e.
       bind_s (modify_s (\<lambda>_. before)) (\<lambda>_. raise_s e)))"

text \<open>Outside a cache scope\<close>

definition materialize :: "nat \<Rightarrow> reducer \<Rightarrow> (contracts \<times> string set) res" where
  "materialize limit st =
     bind_r (expand_contracts_uncached limit (map (\<lambda>(path, s). (path, schema_to_py s)) (root_schemas st))) (\<lambda>expanded.
     Inr (expanded, required_roots st))"

definition apply_expanded_contract_writes ::
    "nat \<Rightarrow> contracts \<Rightarrow> string set \<Rightarrow> contract_write list \<Rightarrow> (contracts \<times> string set) res" where
  "apply_expanded_contract_writes limit expanded roots writes =
     bind_r (init_reducer expanded roots) (\<lambda>st.
     case apply_many limit writes st of
       (Inl e, _) \<Rightarrow> Inl e
     | (Inr _, st') \<Rightarrow> materialize limit st')"

definition roots_before :: "contracts \<Rightarrow> string set option \<Rightarrow> string set res" where
  "roots_before expanded roots =
     (case roots of None \<Rightarrow> bind_r (expanded_contract_root_paths expanded) (\<lambda>rs. Inr (set rs)) | Some rs \<Rightarrow> Inr rs)"

definition write_contract_path ::
    "nat \<Rightarrow> (string \<times> pyval) list \<Rightarrow> string set option \<Rightarrow> contract_write \<Rightarrow> contracts res" where
  "write_contract_path limit contracts roots write =
     bind_r (expand_contracts_uncached limit contracts) (\<lambda>expanded.
     bind_r (roots_before expanded roots) (\<lambda>before.
     bind_r (apply_expanded_contract_writes limit expanded before [write]) (\<lambda>(updated, _). Inr updated)))"

definition write_contract_state ::
    "nat \<Rightarrow> (string \<times> pyval) list \<Rightarrow> string set option \<Rightarrow> contract_write \<Rightarrow> (contracts \<times> string set) res" where
  "write_contract_state limit contracts roots write =
     bind_r (write_contract_path limit contracts roots write) (\<lambda>updated.
     bind_r (write_required_roots (case roots of None \<Rightarrow> {} | Some rs \<Rightarrow> rs) (fst write) (snd (snd write))) (\<lambda>after.
     Inr (updated, after)))"

end
