(* ===== verification/Reducer_Soundness.thy ===== *)
theory Reducer_Soundness
  imports Contract_Reducer
begin

section \<open>Contract writes describe data writes\<close>

text \<open>
  The reducer of \<open>Contract_Reducer\<close> runs beside the program: whenever it succeeds, its state
  describes the Data Dict that results from the writes, whether an optional write happens
  or not. The proof follows \<open>_write_nested_schema\<close>: a contract rewritten for a path accepts
  what a write at the path makes of every value the contract accepted.
\<close>

subsection \<open>Unions and created paths\<close>

lemma optional_union_sound:
  assumes "optional_schema_union left right path = Inr s" "contract_ok right" "\<And>l. left = Some l \<Longrightarrow> contract_ok l"
  shows "contract_ok s" "wf_val v \<Longrightarrow> accepts v right \<Longrightarrow> accepts v s"
    "left = Some l \<Longrightarrow> wf_val v \<Longrightarrow> accepts v l \<Longrightarrow> accepts v s"
proof -
  have "contract_ok s \<and> (wf_val v \<longrightarrow> accepts v right \<longrightarrow> accepts v s) \<and>
    (\<forall>l. left = Some l \<longrightarrow> wf_val v \<longrightarrow> accepts v l \<longrightarrow> accepts v s)"
  proof (cases left)
    case None
    then show ?thesis using assms(1,2) by (simp add: optional_schema_union_def)
  next
    case (Some l)
    note ok = assms(3)[OF Some] assms(2)
    show ?thesis
    proof (cases "same l right")
      case True
      then have "s = right" using assms(1) by (simp add: optional_schema_union_def Some)
      moreover have "accepts v l = accepts v right" using True ok schema_ok_shape same_accepts by blast
      ultimately show ?thesis using ok Some by blast
    next
      case False
      from assms(1) False obtain l' r' lr where n: "normalize_data_key_schema_uncached path (schema_to_py l) = Inr l'"
        "normalize_data_key_schema_uncached path (schema_to_py right) = Inr r'"
        "normalized_schemas_compatible l' r' = Inr lr"
        "(if lr then Inr r' else bind_r (normalized_schemas_compatible r' l') (\<lambda>rl. if rl then Inr l'
          else normalize_data_key_schema_uncached path (branches_schema ''anyOf'' [l', r']))) = Inr s"
        by (auto simp: optional_schema_union_def Some bind_r_Inr_iff)
      have eq: "l' = l" "r' = right" using normalize_contract[OF ok(1) n(1)] normalize_contract[OF ok(2) n(2)] by blast+
      note parts = schema_ok_shape[OF conjunct2[OF ok(1)]] schema_ok_shape[OF conjunct2[OF ok(2)]]
      show ?thesis
      proof (cases lr)
        case True
        then have "s = right" using n(4) eq by simp
        moreover have "normalized_schemas_compatible l right = Inr True" using n(3) eq True by simp
        ultimately show ?thesis using sem.compatible_sound[of l right v] parts ok Some by blast
      next
        case False
        from n(4)[unfolded eq] False obtain rl where rl: "normalized_schemas_compatible right l = Inr rl"
          "(if rl then Inr l else normalize_data_key_schema_uncached path (branches_schema ''anyOf'' [l, right])) = Inr s"
          by (auto simp: bind_r_Inr_iff)
        show ?thesis
        proof (cases rl)
          case True
          then have "s = l" using rl(2) by simp
          moreover have "normalized_schemas_compatible right l = Inr True" using rl(1) True by simp
          ultimately show ?thesis using sem.compatible_sound[of right l v] parts ok Some by blast
        next
          case False
          have any: "schema_ok (any_of [l, right])" by (rule branches_ok_schema(1)) (use ok in auto)
          have "normalize_data_key_schema_uncached path (schema_to_py (any_of [l, right])) = Inr s"
            using rl(2) False by (simp add: branches_to_py)
          from normalize_contract[OF _ this] any have s: "s = any_of [l, right]" by blast
          have "exact_json v" if "accepts v l \<or> accepts v right"
            using that accepts_exact[of v l] accepts_exact[of v right] ok parts by blast
          with s any Some show ?thesis using accepts_any_of[of "[l, right]" v] by auto
        qed
      qed
    qed
  qed
  then show "contract_ok s" "wf_val v \<Longrightarrow> accepts v right \<Longrightarrow> accepts v s"
    "left = Some l \<Longrightarrow> wf_val v \<Longrightarrow> accepts v l \<Longrightarrow> accepts v s" by blast+
qed

abbreviation one_member :: "string \<Rightarrow> schema \<Rightarrow> schema" where
  "one_member name child \<equiv>
     SObj (Kws (Some [JObject]) (Some [(name, child)]) (Some [name]) (Some SFalse) None None None None None None [])"

lemma one_member_ok: "contract_ok child \<Longrightarrow> contract_ok (one_member name child)"
  by (auto simp: schema_ok.simps level_ok_def)

lemma one_member_accepts: "accepts x child \<Longrightarrow> accepts (PDict [(KStr name, x)]) (one_member name child)"
  by (simp add: accepts_SObj branches_ok_def types_ok_def literals_ok_def declared_types_def type_allowed_def
      children_ok_def member_ok_def member_contract_def)

lemma created_sound:
  assumes "contract_ok value"
  shows "created_path_schema parts value path = Inr s \<Longrightarrow> contract_ok s \<and>
    (\<forall>full i d w. accepts w value \<longrightarrow> write_segments full i parts [] w = Inr d \<longrightarrow> accepts (PDict d) s) \<and>
    (parts = [] \<longrightarrow> s = value)"
proof (induction parts arbitrary: path s)
  case (Cons name parts)
  from Cons.prems obtain child where c: "created_path_schema parts value (path @ ''.'' @ name) = Inr child"
    "normalize_data_key_schema_uncached path (schema_to_py (one_member name child)) = Inr s"
    by (auto simp: bind_r_Inr_iff)
  note IH = Cons.IH[OF c(1)]
  have ok: "contract_ok (one_member name child)" using IH one_member_ok by blast
  have s: "s = one_member name child" using normalize_contract[OF ok c(2)] .
  have "accepts (PDict d) s" if w: "accepts w value" and d: "write_segments full i (name # parts) [] w = Inr d" for full i d w
  proof (cases parts)
    case Nil
    then show ?thesis using d IH w one_member_accepts[of w child name] by (simp add: s)
  next
    case (Cons n ns)
    with d obtain e where "write_segments full (Suc i) parts [] w = Inr e" "d = [(KStr name, PDict e)]"
      by (auto simp: bind_r_Inr_iff)
    with IH w show ?thesis using one_member_accepts[of "PDict e" child name] by (auto simp: s)
  qed
  with ok s show ?case by blast
qed (use assms in auto)

subsection \<open>What a write does to a dictionary\<close>

text \<open>A write happens, or it is optional and does not.\<close>

definition outcome :: "bool \<Rightarrow> string list \<Rightarrow> pyval option \<Rightarrow> (pykey \<times> pyval) list \<Rightarrow> (pykey \<times> pyval) list \<Rightarrow> bool" where
  "outcome required parts w d d' \<longleftrightarrow>
     (\<exists>full i y. w = Some y \<and> write_segments full i parts d y = Inr d') \<or> \<not> required \<and> d' = d"

text \<open>A value that may be written passes the contract of the write.\<close>

definition fitting :: "schema \<Rightarrow> pyval option \<Rightarrow> bool" where
  "fitting s w \<longleftrightarrow> (\<forall>y. w = Some y \<longrightarrow> accepts y s \<and> wf_val y)"

lemma wf_update: "wf_val (PDict d) \<Longrightarrow> wf_val x \<Longrightarrow> wf_val (PDict (AList.update k x d))"
proof -
  assume d: "wf_val (PDict d)" "wf_val x"
  have dist: "distinct (keys_of (AList.update k x d))" using d(1) by (simp add: distinct_update)
  have "wf_val y" if "(m, y) \<in> set (AList.update k x d)" for m y
  proof -
    from map_of_is_SomeI[OF dist that] have "y = x \<or> map_of d m = Some y" by (auto simp: update_conv' split: if_splits)
    then show ?thesis using d by (auto simp: list_all_iff dest!: map_of_in_set)
  qed
  with dist show ?thesis by (auto simp: list_all_iff)
qed

lemma write_segments_update:
  assumes "write_segments full i (name # rest) d w = Inr d'"
  shows "\<exists>x. d' = AList.update (KStr name) x d \<and>
    (case rest of [] \<Rightarrow> x = w
     | _ \<Rightarrow> \<exists>e e' j. x = PDict e' \<and> write_segments full j rest e w = Inr e' \<and>
         (map_of d (KStr name) = Some (PDict e) \<or> map_of d (KStr name) = None \<and> e = []))"
proof (cases rest)
  case Nil
  with assms show ?thesis by (auto split: option.splits if_splits)
next
  case (Cons n ns)
  with assms show ?thesis by (auto simp: bind_r_Inr_iff split: option.splits pyval.splits)
qed

lemma write_segments_wf:
  "write_segments full i parts d w = Inr d' \<Longrightarrow> wf_val (PDict d) \<Longrightarrow> wf_val w \<Longrightarrow> wf_val (PDict d')"
proof (induction parts arbitrary: i d d')
  case (Cons name rest)
  from write_segments_update[OF Cons.prems(1)] obtain x where x: "d' = AList.update (KStr name) x d"
    "case rest of [] \<Rightarrow> x = w | _ \<Rightarrow> \<exists>e e' j. x = PDict e' \<and> write_segments full j rest e w = Inr e' \<and>
         (map_of d (KStr name) = Some (PDict e) \<or> map_of d (KStr name) = None \<and> e = [])" by blast
  have "wf_val x"
  proof (cases rest)
    case (Cons n ns)
    with x(2) obtain e e' j where e: "x = PDict e'" "write_segments full j rest e w = Inr e'"
      "map_of d (KStr name) = Some (PDict e) \<or> map_of d (KStr name) = None \<and> e = []" by auto
    have "wf_val (PDict e)" using e(3) wf_val_item[OF Cons.prems(2) map_of_in_set] by (metis list.pred_inject(1) list.simps(8) distinct.simps(1) wf_val.simps(2))
    with Cons.IH[OF e(2)] Cons.prems(3) e(1) show ?thesis by blast
  qed (use x(2) Cons.prems(3) in simp)
  then show ?case unfolding x(1) using Cons.prems(2) by (intro wf_update)
qed simp

lemma outcome_wf: "outcome required parts w d d' \<Longrightarrow> wf_val (PDict d) \<Longrightarrow> fitting s w \<Longrightarrow> wf_val (PDict d')"
  using write_segments_wf unfolding outcome_def fitting_def by metis

lemma outcome_frame:
  assumes "outcome required (name # rest) w d d'"
  shows "k \<noteq> KStr name \<Longrightarrow> map_of d' k = map_of d k" "set (keys_of d) \<subseteq> set (keys_of d')"
    "required \<Longrightarrow> KStr name \<in> set (keys_of d')" "set (keys_of d') \<subseteq> insert (KStr name) (set (keys_of d))"
proof -
  consider x where "d' = AList.update (KStr name) x d" | "\<not> required" "d' = d"
    using assms write_segments_update unfolding outcome_def by blast
  then have "(k \<noteq> KStr name \<longrightarrow> map_of d' k = map_of d k) \<and> set (keys_of d) \<subseteq> set (keys_of d') \<and>
    (required \<longrightarrow> KStr name \<in> set (keys_of d')) \<and> set (keys_of d') \<subseteq> insert (KStr name) (set (keys_of d))"
    by cases (auto simp: update_conv' dom_update simp flip: dom_map_of_conv_image_fst)
  then show "k \<noteq> KStr name \<Longrightarrow> map_of d' k = map_of d k" "set (keys_of d) \<subseteq> set (keys_of d')"
    "required \<Longrightarrow> KStr name \<in> set (keys_of d')" "set (keys_of d') \<subseteq> insert (KStr name) (set (keys_of d))" by blast+
qed

text \<open>The member at the head of the path\<close>

lemma outcome_member:
  assumes "outcome required (name # rest) w d d'" "map_of d' (KStr name) = Some x"
  obtains (written) "rest = []" "w = Some x"
    | (below) e e' where "rest \<noteq> []" "map_of d (KStr name) = Some (PDict e)" "x = PDict e'" "outcome required rest w e e'"
    | (created) full i e' y where "rest \<noteq> []" "map_of d (KStr name) = None" "x = PDict e'" "w = Some y"
        "write_segments full i rest [] y = Inr e'"
    | (kept) "\<not> required" "map_of d (KStr name) = Some x"
proof -
  consider full i v where "w = Some v" "write_segments full i (name # rest) d v = Inr d'" | "\<not> required" "d' = d"
    using assms(1) unfolding outcome_def by blast
  then show thesis
  proof cases
    case (1 full i v)
    from write_segments_update[OF 1(2)] obtain y where y: "d' = AList.update (KStr name) y d"
      "case rest of [] \<Rightarrow> y = v | _ \<Rightarrow> \<exists>e e' j. y = PDict e' \<and> write_segments full j rest e v = Inr e' \<and>
         (map_of d (KStr name) = Some (PDict e) \<or> map_of d (KStr name) = None \<and> e = [])" by blast
    have x: "x = y" using assms(2) by (simp add: y(1) update_conv')
    show thesis
    proof (cases rest)
      case Nil
      with y(2) x 1(1) show thesis by (intro written) simp_all
    next
      case (Cons n ns)
      with y(2) x obtain e e' j where e: "x = PDict e'" "write_segments full j rest e v = Inr e'"
        "map_of d (KStr name) = Some (PDict e) \<or> map_of d (KStr name) = None \<and> e = []" by auto
      from e(3) show thesis
      proof
        assume "map_of d (KStr name) = Some (PDict e)"
        moreover have "outcome required rest w e e'" using e(2) 1(1) unfolding outcome_def by blast
        ultimately show thesis using Cons e(1) by (intro below) simp_all
      next
        assume "map_of d (KStr name) = None \<and> e = []"
        with Cons e 1(1) show thesis by (intro created[of e' v full j]) simp_all
      qed
    qed
  next
    case 2
    with assms(2) show thesis by (intro kept) simp_all
  qed
qed

lemma exact_item: "exact_json (PDict d) \<Longrightarrow> (k, v) \<in> set d \<Longrightarrow> exact_json v"
  by (auto simp: list_all_iff)

lemma exact_update: "exact_json (PDict d) \<Longrightarrow> exact_json x \<Longrightarrow> exact_json (PDict (AList.update (KStr n) x d))"
  by (induction d) (auto simp: list_all_iff)

lemma write_segments_exact:
  "write_segments full i parts d w = Inr d' \<Longrightarrow> exact_json (PDict d) \<Longrightarrow> exact_json w \<Longrightarrow> exact_json (PDict d')"
proof (induction parts arbitrary: i d d')
  case (Cons name rest)
  from write_segments_update[OF Cons.prems(1)] obtain x where x: "d' = AList.update (KStr name) x d"
    "case rest of [] \<Rightarrow> x = w | _ \<Rightarrow> \<exists>e e' j. x = PDict e' \<and> write_segments full j rest e w = Inr e' \<and>
         (map_of d (KStr name) = Some (PDict e) \<or> map_of d (KStr name) = None \<and> e = [])" by blast
  have "exact_json x"
  proof (cases rest)
    case (Cons n ns)
    with x(2) obtain e e' j where e: "x = PDict e'" "write_segments full j rest e w = Inr e'"
      "map_of d (KStr name) = Some (PDict e) \<or> map_of d (KStr name) = None \<and> e = []" by auto
    have "exact_json (PDict e)" using e(3)
    proof
      assume "map_of d (KStr name) = Some (PDict e)"
      from exact_item[OF Cons.prems(2) map_of_in_set[OF this]] show ?thesis .
    qed simp
    with Cons.IH[OF e(2)] Cons.prems(3) e(1) show ?thesis by blast
  qed (use x(2) Cons.prems(3) in simp)
  then show ?case unfolding x(1) using Cons.prems(2) by (intro exact_update)
qed simp

subsection \<open>The rewritten level\<close>

lemma map_branches_Inr:
  "map_branches f bo = Inr bo' \<Longrightarrow> rel_option (list_all2 (\<lambda>b b'. f b = Inr b')) bo bo'"
  by (cases bo) (auto simp: map_branches_def bind_r_Inr_iff map_r_Inr_iff)

lemma old_child_member: "old_child k n = member_contract k n"
  by (auto simp: old_child_def member_contract_def open_contract_def split: option.splits schema.splits)

text \<open>What is known of a level that is rewritten\<close>

definition object_level :: "schema kws \<Rightarrow> bool" where
  "object_level k \<longleftrightarrow> schema_ok (SObj k) \<and> kw_items k = None \<and> kw_const k = None \<and> kw_enum k = None \<and>
     (kw_type k = None \<or> JObject \<in> set (opt_list (kw_type k)))"

definition contracts_opt :: "schema list option \<Rightarrow> bool" where
  "contracts_opt bo \<longleftrightarrow> bo \<noteq> Some [] \<and> (\<forall>b \<in> set (opt_list bo). contract_ok b)"

lemma with_branches_ok:
  assumes "object_level k" "contracts_opt all" "contracts_opt any"
  shows "object_level (with_branches k all any)"
proof -
  have ok: "schema_ok (SObj k)" using assms(1) by (simp add: object_level_def)
  have "level_ok (with_branches k all any)"
    using schema_ok_level[OF ok] assms by (simp add: with_branches_def level_ok_def contracts_opt_def)
  moreover have "list_all (\<lambda>(n, s). contract_ok s) (opt_list (kw_props k))"
    "case kw_additional k of None \<Rightarrow> True | Some s \<Rightarrow> schema_ok s"
    using ok by (simp_all only: schema_ok.simps)
  ultimately have "schema_ok (SObj (with_branches k all any))"
    using assms by (simp add: with_branches_def schema_ok.simps contracts_opt_def object_level_def list_all_iff)
  then show ?thesis using assms(1) unfolding object_level_def by (simp add: with_branches_def del: schema_ok.simps)
qed

lemma merged_any_ok: "contracts_opt any \<Longrightarrow> contracts_opt one \<Longrightarrow> contracts_opt (merged_any any one)"
  by (cases one; cases any) (auto simp: merged_any_def contracts_opt_def)

lemma with_member_ok:
  assumes "object_level k" "contract_ok child"
  shows "object_level (with_member k name child required)"
proof -
  have ok: "schema_ok (SObj k)" using assms(1) by (simp add: object_level_def)
  have fields: "fields_ok (AList.update name child (opt_list (kw_props k)))"
    by (rule fields_ok_update[OF fields_ok_props[OF ok, unfolded kws_of.simps] assms(2)])
  have "level_ok (with_member k name child required)"
    using schema_ok_level[OF ok] assms(1) fields
    by (auto simp: with_member_def level_ok_def object_level_def fields_ok_def declared_types_def)
  moreover have "case kw_additional k of None \<Rightarrow> True | Some s \<Rightarrow> schema_ok s"
    "list_all contract_ok (opt_list (kw_any k))" "list_all contract_ok (opt_list (kw_one k))"
    "list_all contract_ok (opt_list (kw_all k))"
    using ok by (simp_all only: schema_ok.simps)
  moreover have "list_all (\<lambda>(n, s). contract_ok s) (AList.update name child (opt_list (kw_props k)))"
    using fields by (simp add: fields_ok_def list_all_iff)
  moreover have "kw_items k = None" using assms(1) by (simp add: object_level_def)
  ultimately have "schema_ok (SObj (with_member k name child required))"
    unfolding with_member_def by (subst schema_ok.simps) simp
  then show ?thesis
    using assms(1) unfolding object_level_def by (auto simp: with_member_def declared_types_def simp del: schema_ok.simps)
qed

subsection \<open>The rewritten contract accepts the written value\<close>

definition sound_write :: "bool \<Rightarrow> pyval option \<Rightarrow> (schema \<Rightarrow> string list \<Rightarrow> string \<Rightarrow> schema res) \<Rightarrow> bool" where
  "sound_write required w write \<longleftrightarrow>
     (\<forall>s parts path s'. contract_ok s \<longrightarrow> write s parts path = Inr s' \<longrightarrow>
        contract_ok s' \<and> (\<forall>x. accepts x s \<longrightarrow> is_mapping x) \<and>
        (\<forall>d d'. outcome required parts w d d' \<longrightarrow> wf_val (PDict d) \<longrightarrow> accepts (PDict d) s \<longrightarrow> accepts (PDict d') s'))"

lemma sound_writeD:
  assumes "sound_write required w write" "contract_ok s" "write s parts path = Inr s'"
  shows "contract_ok s'" "accepts x s \<Longrightarrow> is_mapping x"
    "outcome required parts w d d' \<Longrightarrow> wf_val (PDict d) \<Longrightarrow> accepts (PDict d) s \<Longrightarrow> accepts (PDict d') s'"
  using assms unfolding sound_write_def by blast+

lemma list_all2_in2: "list_all2 R xs ys \<Longrightarrow> y \<in> set ys \<Longrightarrow> \<exists>x \<in> set xs. R x y"
  by (induction rule: list_all2_induct) auto

lemma written_branches:
  assumes sw: "sound_write required w write" and m: "map_branches (\<lambda>b. write b parts path) bo = Inr bo'"
    and ok: "contracts_opt bo"
  shows "contracts_opt bo'"
    "outcome required parts w d d' \<Longrightarrow> wf_val (PDict d) \<Longrightarrow>
      list_all2 (\<lambda>b b'. accepts (PDict d) b \<longrightarrow> accepts (PDict d') b') (opt_list bo) (opt_list bo')"
proof -
  note rel = map_branches_Inr[OF m]
  have "\<forall>b' \<in> set (opt_list bo'). contract_ok b'"
  proof
    fix b' assume "b' \<in> set (opt_list bo')"
    from list_all2_in2[OF list_all2_opt[OF rel] this] obtain b where b: "b \<in> set (opt_list bo)" "write b parts path = Inr b'"
      by blast
    have "contract_ok b" using ok b(1) by (simp add: contracts_opt_def)
    from sound_writeD(1)[OF sw this b(2)] show "contract_ok b'" .
  qed
  moreover have "bo' \<noteq> Some []"
  proof
    assume "bo' = Some []"
    with rel have "bo = Some []" by (cases bo) auto
    with ok show False by (simp add: contracts_opt_def)
  qed
  ultimately show "contracts_opt bo'" unfolding contracts_opt_def by blast
  show "list_all2 (\<lambda>b b'. accepts (PDict d) b \<longrightarrow> accepts (PDict d') b') (opt_list bo) (opt_list bo')"
    if "outcome required parts w d d'" "wf_val (PDict d)"
  proof (rule list.rel_mono_strong[OF list_all2_opt[OF rel]])
    fix b b' assume b: "b \<in> set (opt_list bo)" "b' \<in> set (opt_list bo')" "write b parts path = Inr b'"
    then have "contract_ok b" using ok by (simp add: contracts_opt_def)
    from sound_writeD(3)[OF sw this b(3) that] show "accepts (PDict d) b \<longrightarrow> accepts (PDict d') b'" by blast
  qed
qed

lemma list_all2_some: "list_all2 (\<lambda>x y. P x \<longrightarrow> Q y) xs ys \<Longrightarrow> \<exists>x \<in> set xs. P x \<Longrightarrow> \<exists>y \<in> set ys. Q y"
  by (induction rule: list_all2_induct) auto

lemma list_all2_every: "list_all2 (\<lambda>x y. P x \<longrightarrow> Q y) xs ys \<Longrightarrow> \<forall>x \<in> set xs. P x \<Longrightarrow> \<forall>y \<in> set ys. Q y"
  by (induction rule: list_all2_induct) auto

lemma rewritten_branches_ok:
  assumes "branches_ok v k"
    and all: "list_all2 (\<lambda>b b'. accepts v b \<longrightarrow> accepts v' b') (opt_list (kw_all k)) (opt_list all')"
    and any: "list_all2 (\<lambda>b b'. accepts v b \<longrightarrow> accepts v' b') (opt_list (kw_any k)) (opt_list any')"
    and one: "list_all2 (\<lambda>b b'. accepts v b \<longrightarrow> accepts v' b') (opt_list (kw_one k)) (opt_list one')"
  shows "branches_ok v' (with_branches k all' (merged_any any' one'))"
proof -
  have "\<forall>b \<in> set (opt_list all'). accepts v' b"
    using list_all2_every[OF all] assms(1) by (simp add: branches_ok_def)
  moreover have "\<exists>b \<in> set (opt_list any'). accepts v' b" if "opt_list any' \<noteq> []"
    using list_all2_some[OF any] assms(1) that any by (auto simp: branches_ok_def)
  moreover have "\<exists>b \<in> set (opt_list one'). accepts v' b" if "opt_list one' \<noteq> []"
  proof -
    have "opt_list (kw_one k) \<noteq> []" using that one by auto
    then have "length (filter (accepts v) (opt_list (kw_one k))) = 1" using assms(1) by (simp add: branches_ok_def)
    then have "filter (accepts v) (opt_list (kw_one k)) \<noteq> []" by auto
    then have "\<exists>b \<in> set (opt_list (kw_one k)). accepts v b" by (simp add: filter_empty_conv)
    from list_all2_some[OF one this] show ?thesis .
  qed
  ultimately show ?thesis
    by (cases any'; cases one') (auto simp: branches_ok_def with_branches_def merged_any_def)
qed

text \<open>A member contract after a write, from the contract it had, if any; roots are rewritten the
  same way.\<close>

definition rewritten ::
    "(schema \<Rightarrow> string list \<Rightarrow> string \<Rightarrow> schema res) \<Rightarrow> schema option \<Rightarrow> bool \<Rightarrow> string list \<Rightarrow> schema \<Rightarrow> bool \<Rightarrow>
     string \<Rightarrow> schema \<Rightarrow> bool" where
  "rewritten write old present rest value required path child \<longleftrightarrow>
     (if rest = []
      then child = value \<and> (required \<or> old = None) \<or> optional_schema_union old value path = Inr child
      else case old of
          None \<Rightarrow> created_path_schema rest value path = Inr child
        | Some t \<Rightarrow> (\<exists>u. write t rest path = Inr u \<and>
            (present \<and> child = u \<or>
             (\<exists>c. created_path_schema rest value path = Inr c \<and> optional_schema_union (Some u) c path = Inr child))))"

lemma written_child_rewritten:
  "written_child write k name rest value required path = Inr child \<Longrightarrow>
   rewritten write (old_child k name) (name \<in> set (opt_list (kw_required k))) rest value required path child"
  by (cases rest) (auto simp: written_child_def rewritten_def bind_r_Inr_iff simp del: created_path_schema.simps
      split: if_splits option.splits)

lemma updated_root_rewritten:
  "updated_root limit rs present root rest value required = Inr child \<Longrightarrow>
   rewritten (write_nested_schema limit value required) rs present rest value required root child"
  by (cases rest) (auto simp: updated_root_def rewritten_def bind_r_Inr_iff simp del: created_path_schema.simps
      split: if_splits option.splits)

lemma rewritten_ok:
  assumes sw: "sound_write required w write" and val: "contract_ok value"
    and old: "\<And>t. old = Some t \<Longrightarrow> contract_ok t" and r: "rewritten write old present rest value required path child"
  shows "contract_ok child"
proof (cases "rest = []")
  case True
  with r consider "child = value" | "optional_schema_union old value path = Inr child" by (auto simp: rewritten_def)
  then show ?thesis using val optional_union_sound(1)[OF _ val old] by cases blast+
next
  case False
  note created = created_sound[OF val]
  show ?thesis
  proof (cases old)
    case None
    with r False have "created_path_schema rest value path = Inr child" by (simp add: rewritten_def)
    with created show ?thesis by blast
  next
    case (Some t)
    with r False obtain u where u: "write t rest path = Inr u" "present \<and> child = u \<or>
        (\<exists>c. created_path_schema rest value path = Inr c \<and> optional_schema_union (Some u) c path = Inr child)"
      by (auto simp: rewritten_def)
    have ok: "contract_ok u" by (rule sound_writeD(1)[OF sw old[OF Some] u(1)])
    from u(2) show ?thesis
    proof
      assume "\<exists>c. created_path_schema rest value path = Inr c \<and> optional_schema_union (Some u) c path = Inr child"
      then obtain c where c: "created_path_schema rest value path = Inr c" "optional_schema_union (Some u) c path = Inr child"
        by blast
      show ?thesis by (rule optional_union_sound(1)[OF c(2) conjunct1[OF created[OF c(1)]]]) (use ok in simp)
    qed (use ok in simp)
  qed
qed

lemma rewritten_accepts:
  assumes sw: "sound_write required w write" and val: "contract_ok value" "fitting value w"
    and old_ok: "\<And>t. old = Some t \<Longrightarrow> contract_ok t" and r: "rewritten write old present rest value required path child"
    and o: "outcome required (name # rest) w d d'" and wf: "wf_val (PDict d)"
    and old: "\<And>y. map_of d (KStr name) = Some y \<Longrightarrow> \<exists>t. old = Some t \<and> accepts y t"
    and pres: "present \<Longrightarrow> map_of d (KStr name) \<noteq> None"
    and x: "map_of d' (KStr name) = Some x"
  shows "accepts x child"
proof -
  have wf_x: "wf_val x" using wf_val_item[OF outcome_wf[OF o wf val(2)] map_of_in_set[OF x]] .
  note created = created_sound[OF val(1)]
  note union = optional_union_sound[OF _ val(1) old_ok]
  have later: "accepts x child"
    if t: "old = Some t" "write t rest path = Inr u" "rest \<noteq> []"
      and either: "accepts x u \<or> \<not> present \<and> (\<forall>c. created_path_schema rest value path = Inr c \<longrightarrow> accepts x c)" for t u
  proof -
    from r t(1-3) have "present \<and> child = u \<or>
        (\<exists>c. created_path_schema rest value path = Inr c \<and> optional_schema_union (Some u) c path = Inr child)"
      by (auto simp: rewritten_def)
    then show ?thesis
    proof
      assume "\<exists>c. created_path_schema rest value path = Inr c \<and> optional_schema_union (Some u) c path = Inr child"
      then obtain c where c: "created_path_schema rest value path = Inr c" "optional_schema_union (Some u) c path = Inr child"
        by blast
      have u: "contract_ok u" by (rule sound_writeD(1)[OF sw old_ok[OF t(1)] t(2)])
      have c_ok: "contract_ok c" using created[OF c(1)] by blast
      from either show ?thesis
      proof
        assume "accepts x u"
        from optional_union_sound(3)[OF c(2) c_ok _ refl wf_x this] u show ?thesis by simp
      next
        assume "\<not> present \<and> (\<forall>c. created_path_schema rest value path = Inr c \<longrightarrow> accepts x c)"
        with c(1) have "accepts x c" by blast
        from optional_union_sound(2)[OF c(2) c_ok _ wf_x this] u show ?thesis by simp
      qed
    qed (use either in auto)
  qed
  have some: "\<exists>u. write t rest path = Inr u" if "old = Some t" "rest \<noteq> []" for t
    using r that by (auto simp: rewritten_def)
  from o x show ?thesis
  proof (cases rule: outcome_member)
    case written
    with r have "child = value \<or> optional_schema_union old value path = Inr child" by (auto simp: rewritten_def)
    moreover have "accepts x value" using written(2) val(2) by (simp add: fitting_def)
    ultimately show ?thesis using union(2)[OF _ _ wf_x] by blast
  next
    case (below e e')
    from old[OF below(2)] obtain t where t: "old = Some t" "accepts (PDict e) t" by blast
    from some[OF t(1) below(1)] obtain u where u: "write t rest path = Inr u" by blast
    have "wf_val (PDict e)" using wf_val_item[OF wf map_of_in_set[OF below(2)]] .
    with sound_writeD(3)[OF sw old_ok[OF t(1)] u below(4) _ t(2)] have "accepts x u" by (simp only: below(3))
    with later[OF t(1) u below(1)] show ?thesis by blast
  next
    case (created full i e' y)
    note cr = this
    have acc: "accepts x c" if "created_path_schema rest value path = Inr c" for c
      using created_sound[OF val(1) that] cr(3-5) val(2) unfolding fitting_def by blast
    show ?thesis
    proof (cases old)
      case None
      with r cr(1) acc show ?thesis by (simp add: rewritten_def)
    next
      case (Some t)
      from some[OF Some cr(1)] obtain u where u: "write t rest path = Inr u" by blast
      from later[OF Some u cr(1)] acc pres cr(2) show ?thesis by blast
    qed
  next
    case kept
    from old[OF kept(2)] obtain t where t: "old = Some t" "accepts x t" by blast
    show ?thesis
    proof (cases "rest = []")
      case True
      with r kept(1) t(1) have "optional_schema_union (Some t) value path = Inr child" by (auto simp: rewritten_def)
      from optional_union_sound(3)[OF this val(1) _ refl wf_x t(2)] old_ok[OF t(1)] show ?thesis by simp
    next
      case False
      from some[OF t(1) False] obtain u where u: "write t rest path = Inr u" by blast
      note sound = sound_writeD[OF sw old_ok[OF t(1)] u]
      obtain e where e: "x = PDict e" using sound(2)[OF t(2)] by (cases x) auto
      have "outcome required rest w e e" using kept(1) by (simp add: outcome_def)
      from sound(3)[OF this] wf_x t(2) have "accepts x u" by (simp only: e)
      with later[OF t(1) u False] show ?thesis by blast
    qed
  qed
qed

lemma written_child_sound:
  assumes sw: "sound_write required w write" and k: "schema_ok (SObj k)"
    and val: "contract_ok value" "fitting value w"
    and wc: "written_child write k name rest value required path = Inr child"
  shows "contract_ok child"
    "outcome required (name # rest) w d d' \<Longrightarrow> wf_val (PDict d) \<Longrightarrow> children_ok (PDict d) k \<Longrightarrow>
      map_of d' (KStr name) = Some x \<Longrightarrow> accepts x child"
proof -
  have old_ok: "contract_ok old" if "old_child k name = Some old" for old
    using schema_ok_member[OF k] that by (simp add: old_child_member)
  note r = written_child_rewritten[OF wc]
  show "contract_ok child" by (rule rewritten_ok[OF sw val(1) old_ok r])
  show "accepts x child" if o: "outcome required (name # rest) w d d'" and d: "wf_val (PDict d)" "children_ok (PDict d) k"
    and x: "map_of d' (KStr name) = Some x"
  proof (rule rewritten_accepts[OF sw val old_ok r o d(1) _ _ x])
    show "\<exists>t. old_child k name = Some t \<and> accepts y t" if y: "map_of d (KStr name) = Some y" for y
    proof -
      have "member_ok k (KStr name, y)" using d(2) map_of_in_set[OF y] by (simp add: children_ok_def)
      then show ?thesis by (auto simp: member_ok_def old_child_member split: option.splits)
    qed
    show "map_of d (KStr name) \<noteq> None" if "name \<in> set (opt_list (kw_required k))"
      using d(2) that by (auto simp: children_ok_def map_of_eq_None_iff)
  qed
qed

lemma children_with_branches: "children_ok v (with_branches k all any) = children_ok v k"
proof -
  have "member_contract (with_branches k all any) n = member_contract k n" for n
    by (simp add: with_branches_def member_contract_def open_contract_def split: option.split)
  then have "member_ok (with_branches k all any) kv = member_ok k kv" for kv
    by (cases kv) (simp add: member_ok_def split: pykey.split)
  moreover have "item_contract (with_branches k all any) = item_contract k"
    by (simp add: item_contract_def with_branches_def)
  ultimately show ?thesis by (cases v) (simp_all add: children_ok_def with_branches_def)
qed

lemma children_with_member:
  assumes ch: "children_ok (PDict d) k" and o: "outcome required (name # rest) w d d'"
    and wf: "wf_val (PDict d)" "wf_val (PDict d')"
    and x: "\<And>x. map_of d' (KStr name) = Some x \<Longrightarrow> accepts x child"
  shows "children_ok (PDict d') (with_member k name child required)"
proof -
  let ?k = "with_member k name child required"
  have same: "member_contract ?k n = member_contract k n" if "n \<noteq> name" for n
    using that by (simp add: with_member_def member_contract_def open_contract_def update_conv' split: option.split)
  have new: "member_contract ?k name = Some child" by (simp add: with_member_def member_contract_def update_conv')
  have "member_ok ?k (key, c)" if kc: "(key, c) \<in> set d'" for key c
  proof -
    have look: "map_of d' key = Some c" using wf(2) kc by simp
    show ?thesis
    proof (cases "key = KStr name")
      case True
      with look x new show ?thesis by (simp add: member_ok_def)
    next
      case False
      with outcome_frame(1)[OF o False] look have "(key, c) \<in> set d" by (simp add: map_of_in_set)
      then have "member_ok k (key, c)" using ch by (simp add: children_ok_def)
      with False same show ?thesis by (auto simp: member_ok_def split: pykey.splits option.splits)
    qed
  qed
  moreover have "KStr n \<in> set (keys_of d')" if "n \<in> set (opt_list (kw_required ?k))" for n
  proof -
    have "required \<and> n = name \<or> n \<in> set (opt_list (kw_required k))" using that by (auto simp: with_member_def split: if_splits)
    then show ?thesis using ch outcome_frame(2,3)[OF o] by (auto simp: children_ok_def)
  qed
  ultimately show ?thesis by (auto simp: children_ok_def)
qed

lemma write_object_sound:
  assumes sw: "sound_write required w write" and k: "object_level k"
    and val: "contract_ok value" "fitting value w"
    and wo: "write_object write k parts value required path = Inr s'"
  shows "contract_ok s'"
    "outcome required parts w d d' \<Longrightarrow> wf_val (PDict d) \<Longrightarrow> accepts (PDict d) (SObj k) \<Longrightarrow> accepts (PDict d') s'"
proof -
  from wo obtain all any one where b:
    "map_branches (\<lambda>b. write b parts path) (kw_all k) = Inr all"
    "map_branches (\<lambda>b. write b parts path) (kw_any k) = Inr any"
    "map_branches (\<lambda>b. write b parts path) (kw_one k) = Inr one"
    and r: "(let result = with_branches k all (merged_any any one) in
     if composition_only result
     then normalize_data_key_schema_uncached path (schema_to_py (SObj result))
     else case parts of
         [] \<Rightarrow> Inl (IndexError ''tuple index out of range'')
       | name # rest \<Rightarrow>
           bind_r (written_child write result name rest value required (path @ ''.'' @ name)) (\<lambda>child.
           normalize_data_key_schema_uncached path (schema_to_py (SObj (with_member result name child required))))) = Inr s'"
    unfolding write_object_def bind_r_Inr_iff by blast
  define result where "result = with_branches k all (merged_any any one)"
  have ok: "schema_ok (SObj k)" using k by (simp add: object_level_def)
  have opts: "contracts_opt (kw_all k)" "contracts_opt (kw_any k)" "contracts_opt (kw_one k)"
    using schema_ok_level[OF ok] schema_branch[OF ok] unfolding contracts_opt_def level_ok_def by blast+
  have res: "object_level result"
    unfolding result_def
    by (intro with_branches_ok merged_any_ok k written_branches(1)[OF sw b(1) opts(1)]
        written_branches(1)[OF sw b(2) opts(2)] written_branches(1)[OF sw b(3) opts(3)])
  have res_ok: "contract_ok (SObj result)" using res by (simp add: object_level_def)
  have br: "branches_ok (PDict d') result"
    if o: "outcome required parts w d d'" "wf_val (PDict d)" and acc: "accepts (PDict d) (SObj k)" for d d'
    unfolding result_def
    by (rule rewritten_branches_ok[OF _ written_branches(2)[OF sw b(1) opts(1) o]
          written_branches(2)[OF sw b(2) opts(2) o] written_branches(2)[OF sw b(3) opts(3) o]])
      (use acc in \<open>simp add: accepts_SObj\<close>)
  have lits: "literals_ok v result" for v using res by (simp add: object_level_def literals_ok_def)
  have "contract_ok s' \<and> (outcome required parts w d d' \<longrightarrow> wf_val (PDict d) \<longrightarrow> accepts (PDict d) (SObj k) \<longrightarrow>
      accepts (PDict d') s')"
  proof (cases "composition_only result")
    case True
    then have s': "s' = SObj result" using r normalize_contract[OF res_ok] by (simp add: Let_def flip: result_def)
    have "accepts (PDict d') (SObj result)"
      if o: "outcome required parts w d d'" "wf_val (PDict d)" and acc: "accepts (PDict d) (SObj k)"
    proof -
      have "exact_json (PDict d)" by (rule accepts_exact[OF acc _ schema_ok_shape[OF ok]]) simp
      moreover have "exact_json y" if "w = Some y" for y
        using accepts_exact[of y "value"] val that schema_ok_shape unfolding fitting_def by blast
      ultimately have "exact_json (PDict d')" using o(1) write_segments_exact unfolding outcome_def by blast
      moreover have "bare result" using True by (simp add: bare_def composition_only_def)
      ultimately show ?thesis using accepts_bare[of result "PDict d'"] br[OF o acc] lits by blast
    qed
    with res_ok s' show ?thesis by blast
  next
    case False
    with r obtain name rest child where c: "parts = name # rest"
      "written_child write result name rest value required (path @ ''.'' @ name) = Inr child"
      "normalize_data_key_schema_uncached path (schema_to_py (SObj (with_member result name child required))) = Inr s'"
      by (cases parts) (auto simp: Let_def bind_r_Inr_iff simp flip: result_def)
    note wc = written_child_sound[OF sw conjunct2[OF res_ok] val c(2)]
    have m: "object_level (with_member result name child required)" by (rule with_member_ok[OF res wc(1)])
    then have m_ok: "contract_ok (SObj (with_member result name child required))" by (simp add: object_level_def)
    have s': "s' = SObj (with_member result name child required)" using normalize_contract[OF m_ok c(3)] .
    have "accepts (PDict d') s'"
      if o: "outcome required parts w d d'" "wf_val (PDict d)" and acc: "accepts (PDict d) (SObj k)"
    proof -
      have ch: "children_ok (PDict d) result"
        using acc by (simp add: accepts_SObj result_def children_with_branches)
      have "children_ok (PDict d') (with_member result name child required)"
        by (rule children_with_member[OF ch o(1)[unfolded c(1)] o(2) outcome_wf[OF o(1,2) val(2)]])
          (rule wc(2)[OF o(1)[unfolded c(1)] o(2) ch])
      moreover have "branches_ok (PDict d') (with_member result name child required)"
        using br[OF o acc] by (simp add: branches_ok_def with_member_def)
      moreover have "literals_ok (PDict d') (with_member result name child required)"
        using lits by (simp add: literals_ok_def with_member_def)
      moreover have "types_ok (PDict d') (with_member result name child required)"
        using m by (auto simp: types_ok_def object_level_def type_allowed_def with_member_def declared_types_def)
      ultimately show ?thesis by (simp add: s' accepts_SObj)
    qed
    with m_ok s' show ?thesis by blast
  qed
  then show "contract_ok s'"
    "outcome required parts w d d' \<Longrightarrow> wf_val (PDict d) \<Longrightarrow> accepts (PDict d) (SObj k) \<Longrightarrow> accepts (PDict d') s'"
    by blast+
qed

lemma literals_schema_sound:
  assumes "cs \<noteq> []" "\<And>c. c \<in> set cs \<Longrightarrow> exact_json c \<and> wf_val c"
  shows "contract_ok (literals_schema cs)"
    "c \<in> set cs \<Longrightarrow> json_values_equal x c \<Longrightarrow> wf_val x \<Longrightarrow> accepts x (literals_schema cs)"
proof -
  have ok: "\<forall>b \<in> set (map literal_data_key_schema cs). contract_ok b" using assms(2) literal_schema_ok by auto
  have acc: "accepts x (literal_data_key_schema c)" if "c \<in> set cs" "json_values_equal x c" "wf_val x"
    using literal_accepts that assms(2) by blast
  have "contract_ok (literals_schema cs) \<and>
    (c \<in> set cs \<longrightarrow> json_values_equal x c \<longrightarrow> wf_val x \<longrightarrow> accepts x (literals_schema cs))"
  proof (cases cs rule: remdups_adj.cases)
    case (3 a b as)
    let ?ss = "map literal_data_key_schema cs"
    have ne: "?ss \<noteq> []" using assms(1) by simp
    have eq: "literals_schema cs = any_of ?ss" by (simp add: literals_schema_def 3)
    have "accepts x (any_of ?ss)" if "c \<in> set cs" "json_values_equal x c" "wf_val x"
      using accepts_any_of[OF ne, of x] acc[OF that] that(1) accepts_exact[of x "literal_data_key_schema c"] ok
        schema_ok_shape[of "literal_data_key_schema c"] by auto
    with branches_ok_schema(1)[OF ne ok] show ?thesis by (simp add: eq)
  qed (use assms(1) ok acc in \<open>auto simp: literals_schema_def\<close>)
  then show "contract_ok (literals_schema cs)"
    "c \<in> set cs \<Longrightarrow> json_values_equal x c \<Longrightarrow> wf_val x \<Longrightarrow> accepts x (literals_schema cs)" by blast+
qed

lemma accepted_type: "accepts x s \<Longrightarrow> contract_ok s \<Longrightarrow> \<exists>t. json_type x = Some t \<and> t \<in> set (possible_runtime_types s)"
proof -
  assume acc: "accepts x s" "contract_ok s"
  then obtain t where "json_type x = Some t" by (cases s) (auto simp: accepts_SObj types_ok_def)
  with accepts_runtime_type[OF acc(1)] acc(2) show ?thesis by blast
qed

lemma mapping_type: "json_type x = Some JObject \<Longrightarrow> is_mapping x"
  by (cases x) auto

lemma empty_object_level: "object_level empty_object"
  by (simp add: object_level_def empty_object_def schema_ok.simps level_ok_def)

lemma schema_literal_valuesD:
  assumes "schema_literal_values k = Some cs" "schema_ok (SObj k)"
  shows "cs \<noteq> []" "c \<in> set cs \<Longrightarrow> exact_json c \<and> wf_val c"
    "accepts x (SObj k) \<Longrightarrow> \<exists>c \<in> set cs. json_values_equal x c"
  using assms(1) schema_literals[OF assms(2)] schema_ok_level[OF assms(2)] accepts_literalD[of x k]
  by (auto simp: schema_literal_values_def level_ok_def split: option.splits)

lemma write_step_sound:
  assumes sw: "sound_write required w write"
    and val: "contract_ok value" "fitting value w"
  shows "sound_write required w (\<lambda>s parts path. write_step write s parts value required path)"
  unfolding sound_write_def
proof (intro allI impI)
  fix s parts path s' assume ok: "contract_ok s" and ws: "write_step write s parts value required path = Inr s'"
  let ?types = "possible_runtime_types s"
  let ?k = "if ?types = [] then empty_object else kws_of s"
  from ws obtain n where n: "normalize_data_key_schema_uncached path (schema_to_py s) = Inr n"
    by (auto simp: write_step_def bind_r_Inr_iff)
  have "n = s" using normalize_contract[OF ok n] .
  with n have n: "normalize_data_key_schema_uncached path (schema_to_py s) = Inr s" by simp
  have ty: "?types = [] \<or> set ?types = {JObject}"
    and r: "(case schema_literal_values ?k of
       Some literals \<Rightarrow> write (literals_schema literals) parts path
     | None \<Rightarrow> write_object write ?k parts value required path) = Inr s'"
    using ws by (auto simp: write_step_def n Let_def split: if_splits)
  have map: "is_mapping x" if "accepts x s" for x
    using accepted_type[OF that ok] ty mapping_type by auto
  have "contract_ok s' \<and> (\<forall>d d'. outcome required parts w d d' \<longrightarrow> wf_val (PDict d) \<longrightarrow> accepts (PDict d) s \<longrightarrow> accepts (PDict d') s')"
  proof (cases "?types = []")
    case True
    then have none: "\<not> accepts x s" for x using accepted_type[OF _ ok] by auto
    from True r have "write_object write empty_object parts value required path = Inr s'"
      by (simp add: schema_literal_values_def empty_object_def)
    from write_object_sound(1)[OF sw empty_object_level val this] none show ?thesis by blast
  next
    case False
    then obtain k where k: "s = SObj k" using ok by (cases s) auto
    have kok: "schema_ok (SObj k)" using ok k by blast
    note r = r[unfolded if_not_P[OF False], unfolded k kws_of.simps]
    show ?thesis
    proof (cases "schema_literal_values k")
      case (Some cs)
      note lit = schema_literal_valuesD[OF Some kok]
      have ls: "contract_ok (literals_schema cs)"
        "c \<in> set cs \<Longrightarrow> json_values_equal x c \<Longrightarrow> wf_val x \<Longrightarrow> accepts x (literals_schema cs)" for c x
        using literals_schema_sound[OF lit(1)] lit(2) by blast+
      from r Some have "write (literals_schema cs) parts path = Inr s'" by simp
      note W = sound_writeD[OF sw ls(1) this]
      have "accepts (PDict d') s'"
        if o: "outcome required parts w d d'" "wf_val (PDict d)" "accepts (PDict d) s" for d d'
      proof -
        obtain c where "c \<in> set cs" "json_values_equal (PDict d) c" using lit(3) o(3) k by blast
        from W(3)[OF o(1,2) ls(2)[OF this o(2)]] show ?thesis .
      qed
      with W(1) show ?thesis by blast
    next
      case None
      have "validate_data_key_schema path (SObj k) = Inr ()"
        using n kok by (auto simp: k normalize_data_key_schema_uncached_def normalize_schema_to_py bind_r_Inr_iff)
      then have "kw_items k = None" using data_key_schemaD(1) by (auto simp: data_key_level_def)
      moreover have "kw_type k = None \<or> JObject \<in> set (opt_list (kw_type k))"
      proof -
        have "JObject \<in> set (possible_runtime_types (SObj k))" using ty False k by auto
        then have "JObject \<in> set (normalized_schema_types (SObj k))"
          by (auto simp: possible_runtime_types_SObj widened_types_def Let_def split: if_splits)
        moreover have "kw_type k \<noteq> Some []" using schema_ok_level[OF kok] by (simp add: level_ok_def)
        ultimately show ?thesis by (cases "kw_type k") (auto simp: declared_types_def split: if_splits)
      qed
      ultimately have "object_level k"
        using None kok by (simp add: object_level_def schema_literal_values_def split: option.splits)
      from write_object_sound[OF sw this val] r None show ?thesis by (auto simp: k)
    qed
  qed
  with map show "contract_ok s' \<and> (\<forall>x. accepts x s \<longrightarrow> is_mapping x) \<and>
        (\<forall>d d'. outcome required parts w d d' \<longrightarrow> wf_val (PDict d) \<longrightarrow> accepts (PDict d) s \<longrightarrow> accepts (PDict d') s')"
    by blast
qed

lemma write_nested_sound:
  assumes "contract_ok value" "fitting value w"
  shows "sound_write required w (write_nested_schema limit value required)"
proof (induction limit)
  case 0
  show ?case by (simp add: sound_write_def write_nested_schema_simps)
next
  case (Suc limit)
  have "write_nested_schema (Suc limit) value required =
      (\<lambda>s parts path. write_step (write_nested_schema limit value required) s parts value required path)"
    by (intro ext) (simp only: write_nested_schema_simps)
  with write_step_sound[OF Suc assms] show ?case by simp
qed

subsection \<open>The reducer\<close>

text \<open>The state describes a Data Dict: its roots are declared, their values pass the root
  contracts, and the required roots are present.\<close>

definition describes :: "reducer \<Rightarrow> (pykey \<times> pyval) list \<Rightarrow> bool" where
  "describes st data \<longleftrightarrow>
     set (keys_of data) \<subseteq> KStr ` set (keys_of (root_schemas st)) \<and>
     (\<forall>root s v. map_of (root_schemas st) root = Some s \<longrightarrow> map_of data (KStr root) = Some v \<longrightarrow> accepts v s) \<and>
     KStr ` required_roots st \<subseteq> set (keys_of data)"

definition reducer_ok :: "reducer \<Rightarrow> bool" where
  "reducer_ok st \<longleftrightarrow> contracts_ok (root_schemas st)"

lemma fields_ok_replace: "fields_ok m \<Longrightarrow> contract_ok s \<Longrightarrow> fields_ok (AList.delete k m @ [(k, s)])"
proof -
  assume m: "fields_ok m" "contract_ok s"
  have "fields_ok (AList.delete k m)" using fields_ok_filter[OF m(1)] by (simp add: AList.delete_eq)
  moreover have "k \<notin> set (keys_of (AList.delete k m))" by (simp add: delete_keys)
  ultimately show ?thesis using m(2) unfolding fields_ok_def by auto
qed

lemma apply_write_sound:
  assumes st: "reducer_ok st" "wf_val raw"
    and a: "apply_write limit (path, raw, required) st = (Inr (), st')"
  obtains parts new where "split_data_path path = Inr parts"
    "normalize_data_key_schema_uncached (join_str ''.'' parts) raw = Inr new" "contract_ok new"
    "\<And>w d d'. describes st d \<Longrightarrow> wf_val (PDict d) \<Longrightarrow> fitting new w \<Longrightarrow>
       outcome required parts w d d' \<Longrightarrow> reducer_ok st' \<and> describes st' d'"
proof -
  from a obtain parts new updated where p: "split_data_path path = Inr parts"
    "normalize_data_key_schema_uncached (join_str ''.'' parts) raw = Inr new"
    "updated_root limit (map_of (root_schemas st) (hd parts)) (hd parts \<in> required_roots st) (hd parts) (tl parts) new
       required = Inr updated"
    "st' = st\<lparr>root_schemas := AList.delete (hd parts) (root_schemas st) @ [(hd parts, updated)],
       required_roots := (if required then insert (hd parts) (required_roots st) else required_roots st)\<rparr>"
    by (auto simp: apply_write_def bind_s_def effect_defs Let_def split: sum.splits prod.splits)
  have val: "contract_ok new" by (rule normalized_contract[OF p(2) st(2)])
  obtain root rest where parts: "parts = root # rest" by (rule find_path_root[OF p(1)])
  note u = p(3)[unfolded parts list.sel]
  have roots: "fields_ok (root_schemas st)" using st(1) by (simp add: reducer_ok_def contracts_ok_fields)
  have look: "map_of (root_schemas st') n = (if n = root then Some updated else map_of (root_schemas st) n)" for n
    by (auto simp: p(4) parts map_add_def delete_conv' split: option.splits)
  show thesis
  proof (rule that[OF p(1,2) val])
    fix w d d'
    assume d: "describes st d" "wf_val (PDict d)" and w: "fitting new w" and o: "outcome required parts w d d'"
    note o = o[unfolded parts]
    note sw = write_nested_sound[OF val w]
    have root_ok: "contract_ok s" if "map_of (root_schemas st) root = Some s" for s using fields_ok_lookup[OF roots that] .
    note r = updated_root_rewritten[OF u]
    have ok: "contract_ok updated" by (rule rewritten_ok[OF sw val root_ok r])
    have "reducer_ok st'"
    proof -
      have "fields_ok (AList.delete root (root_schemas st) @ [(root, updated)])"
        by (rule fields_ok_replace[OF roots ok])
      then show ?thesis by (simp add: reducer_ok_def contracts_ok_fields p(4) parts)
    qed
    moreover have "accepts x updated" if "map_of d' (KStr root) = Some x" for x
    proof (rule rewritten_accepts[OF sw val w root_ok r o d(2) _ _ that])
      show "\<exists>t. map_of (root_schemas st) root = Some t \<and> accepts y t" if y: "map_of d (KStr root) = Some y" for y
      proof -
        have "KStr root \<in> set (keys_of d)" using map_of_in_set[OF y] by force
        then have "root \<in> set (keys_of (root_schemas st))" using d(1) by (auto simp: describes_def)
        from key_lookup[OF this] d(1) y show ?thesis by (auto simp: describes_def)
      qed
      show "map_of d (KStr root) \<noteq> None" if "root \<in> required_roots st"
        using d(1) that by (auto simp: describes_def map_of_eq_None_iff)
    qed
    moreover have "set (keys_of d') \<subseteq> KStr ` set (keys_of (root_schemas st'))"
    proof -
      have "set (keys_of (root_schemas st')) = insert root (set (keys_of (root_schemas st)))"
        by (auto simp: p(4) parts delete_keys)
      moreover have "set (keys_of d) \<subseteq> KStr ` set (keys_of (root_schemas st))" using d(1) by (simp add: describes_def)
      ultimately show ?thesis using outcome_frame(4)[OF o] by blast
    qed
    moreover have "KStr ` required_roots st' \<subseteq> set (keys_of d')"
    proof -
      have "KStr ` required_roots st \<subseteq> set (keys_of d')" using d(1) outcome_frame(2)[OF o] unfolding describes_def by blast
      then show ?thesis using outcome_frame(3)[OF o] by (simp add: p(4) parts)
    qed
    ultimately show "reducer_ok st' \<and> describes st' d'"
      using d(1) outcome_frame(1)[OF o] by (auto simp: describes_def look split: if_splits)
  qed
qed

text \<open>The writes of a program beside those of the reducer: an optional one may be left out, and a
  written value has passed its contract.\<close>

inductive performed :: "contract_write list \<Rightarrow> (pykey \<times> pyval) list \<Rightarrow> (pykey \<times> pyval) list \<Rightarrow> bool" where
  none: "performed [] d d"
| skip: "performed writes d d' \<Longrightarrow> performed ((path, raw, False) # writes) d d'"
| do: "split_data_path path = Inr parts \<Longrightarrow> normalize_data_key_schema_uncached (join_str ''.'' parts) raw = Inr s \<Longrightarrow>
     wf_val w \<Longrightarrow> validate_normalized False path w s = Inr () \<Longrightarrow> set_data_segments d parts w = Inr d1 \<Longrightarrow>
     performed writes d1 d' \<Longrightarrow> performed ((path, raw, required) # writes) d d'"

inductive_cases performed_ConsE: "performed ((path, raw, required) # writes) d d'"
inductive_cases performed_NilE: "performed [] d d'"

lemma iter_writes_sound:
  "iter_s (apply_write limit) writes st = (Inr (), st') \<Longrightarrow> list_all (\<lambda>(path, raw, required). wf_val raw) writes \<Longrightarrow>
   reducer_ok st \<Longrightarrow> performed writes d d' \<Longrightarrow> describes st d \<Longrightarrow> wf_val (PDict d) \<Longrightarrow> describes st' d'"
proof (induction writes arbitrary: st d)
  case Nil
  then show ?case by (auto simp: effect_defs elim: performed_NilE)
next
  case (Cons wr writes)
  obtain path raw required where wr: "wr = (path, raw, required)" by (cases wr)
  from Cons.prems(1) obtain st1 where st1: "apply_write limit (path, raw, required) st = (Inr (), st1)"
    "iter_s (apply_write limit) writes st1 = (Inr (), st')"
    by (auto simp: wr bind_s_def split: prod.splits sum.splits)
  have raw: "wf_val raw" and rest: "list_all (\<lambda>(path, raw, required). wf_val raw) writes"
    using Cons.prems(2) by (simp_all add: wr)
  from Cons.prems(4)[unfolded wr] obtain parts s w d1 where
    "\<not> required \<and> performed writes d d' \<or>
     split_data_path path = Inr parts \<and> normalize_data_key_schema_uncached (join_str ''.'' parts) raw = Inr s \<and>
     wf_val w \<and> validate_normalized False path w s = Inr () \<and> set_data_segments d parts w = Inr d1 \<and> performed writes d1 d'"
    by (elim performed_ConsE) blast+
  note cases = this
  from Cons.prems(3) raw st1(1)
  obtain parts' new where n: "split_data_path path = Inr parts'"
    "normalize_data_key_schema_uncached (join_str ''.'' parts') raw = Inr new" "contract_ok new"
    and step: "\<And>w d d'. describes st d \<Longrightarrow> wf_val (PDict d) \<Longrightarrow> fitting new w \<Longrightarrow>
       outcome required parts' w d d' \<Longrightarrow> reducer_ok st1 \<and> describes st1 d'"
    by (rule apply_write_sound) blast
  from cases show ?case
  proof
    assume c: "\<not> required \<and> performed writes d d'"
    then have "outcome required parts' None d d" by (simp add: outcome_def)
    from step[OF Cons.prems(5,6) _ this] have st: "reducer_ok st1 \<and> describes st1 d" by (simp add: fitting_def)
    show ?thesis by (rule Cons.IH[OF st1(2) rest]) (use st c Cons.prems(6) in blast)+
  next
    assume c: "split_data_path path = Inr parts \<and> normalize_data_key_schema_uncached (join_str ''.'' parts) raw = Inr s \<and>
     wf_val w \<and> validate_normalized False path w s = Inr () \<and> set_data_segments d parts w = Inr d1 \<and> performed writes d1 d'"
    then have eq: "parts' = parts" "new = s" using n by auto
    have acc: "accepts w s" using c n(3) eq validate_accepts by blast
    have fit: "fitting s (Some w)" using acc c by (simp add: fitting_def)
    have o: "outcome required parts (Some w) d d1" using c by (auto simp: outcome_def set_data_segments_def)
    from step[OF Cons.prems(5,6)] fit o eq have st: "reducer_ok st1 \<and> describes st1 d1" by blast
    have "wf_val (PDict d1)" using outcome_wf[OF o Cons.prems(6) fit] .
    with st c show ?thesis by (intro Cons.IH[OF st1(2) rest]) blast+
  qed
qed

text \<open>A failing batch leaves the state as it was.\<close>

lemma apply_many_run:
  "apply_many limit writes st = (case iter_s (apply_write limit) writes st of (Inl e, _) \<Rightarrow> (Inl e, st) | r \<Rightarrow> r)"
  by (auto simp: apply_many_def bind_s_def catch_s_def effect_defs split: prod.splits sum.splits)

lemma iter_s_append: "iter_s f (xs @ ys) = bind_s (iter_s f xs) (\<lambda>_. iter_s f ys)"
  by (induction xs) (auto simp: fun_eq_iff bind_s_def effect_defs split: prod.splits sum.splits)

subsection \<open>An example\<close>

abbreviation example_reducer :: reducer where
  "example_reducer \<equiv> \<lparr>root_schemas = [(''a'', example_root)], required_roots = {''a''}\<rparr>"

abbreviation example_writes :: "contract_write list" where
  "example_writes \<equiv> [(''a.c'', PDict [(KStr ''type'', PStr ''integer'')], True)]"

abbreviation example_written :: schema where
  "example_written \<equiv> SObj (Kws (Some [JObject]) (Some [(''b'', typed JString), (''c'', typed JInteger)]) (Some [''b'', ''c''])
     (Some (typed JInteger)) None None None None None None [])"

lemma example_nested: "write_nested_schema 1 (typed JInteger) True example_root [''c''] ''a'' = Inr example_written"
proof -
  have n: "normalize_data_key_schema_uncached ''a'' (schema_to_py example_root) = Inr example_root"
    "normalize_data_key_schema_uncached ''a'' (schema_to_py example_written) = Inr example_written" by code_simp+
  have t: "possible_runtime_types example_root = [JObject]" by code_simp
  have m: "SObj (with_member (with_branches (kws_of example_root) None (merged_any None None)) ''c'' (typed JInteger) True) =
      example_written" by code_simp
  have c: "written_child w (with_branches (kws_of example_root) None (merged_any None None)) ''c'' [] (typed JInteger) True ''a.c'' =
      Inr (typed JInteger)" for w
  proof -
    have "old_child (with_branches (kws_of example_root) None (merged_any None None)) ''c'' = Some (typed JInteger)" by code_simp
    moreover have "require_write_structure_compatibility (typed JInteger) (typed JInteger) ''a.c'' = Inr ()" by code_simp
    ultimately show ?thesis by (simp add: written_child_def)
  qed
  have k: "schema_literal_values (kws_of example_root) = None" "kw_all (kws_of example_root) = None"
    "kw_any (kws_of example_root) = None" "kw_one (kws_of example_root) = None"
    "composition_only (with_branches (kws_of example_root) None (merged_any None None)) = False" by code_simp+
  have "write_object w (kws_of example_root) [''c''] (typed JInteger) True ''a'' = Inr example_written" for w
    unfolding write_object_def k map_branches_def option.case bind_r_simps Let_def
    using c[of w] by (simp only: if_False list.case append.simps bind_r_simps m n)
  then show ?thesis
    unfolding One_nat_def write_nested_schema_simps write_step_def n bind_r_simps Let_def t
    by (simp del: kws_of.simps add: k)
qed

lemma example_applied: "apply_many 1 example_writes example_reducer =
    (Inr (), \<lparr>root_schemas = [(''a'', example_written)], required_roots = {''a''}\<rparr>)"
proof -
  have "split_data_path ''a.c'' = Inr [''a'', ''c'']"
    "normalize_data_key_schema_uncached ''a.c'' (PDict [(KStr ''type'', PStr ''integer'')]) = Inr (typed JInteger)" by code_simp+
  then show ?thesis
    by (simp add: apply_many_run apply_write_def updated_root_def example_nested[unfolded One_nat_def] bind_s_def effect_defs Let_def)
qed

subsection \<open>Properties\<close>

text \<open>\<^bold>\<open>C3\<close>. The reducer describes the data: when a batch of writes is applied to a state that
  describes a Data Dict, the new state describes every Data Dict that performing the writes
  can lead to, with values that pass the written contracts and optional writes performed or
  not. Nested, created, composed, literal and optional paths included, no later reader
  meets a value its compiled contract excludes.\<close>

theorem contract_writes_describe_data:
  assumes "reducer_ok st" and "list_all (\<lambda>(path, raw, required). wf_val raw) writes"
    and "apply_many limit writes st = (Inr (), st')"
    and "describes st d" and "wf_val (PDict d)" and "performed writes d d'"
  shows "describes st' d'"
proof -
  have "iter_s (apply_write limit) writes st = (Inr (), st')"
    using assms(3) by (auto simp: apply_many_run split: prod.splits sum.splits)
  from iter_writes_sound[OF this assms(2,1,6,4,5)] show ?thesis .
qed

theorem contract_writes_describe_data_witness:
  "describes \<lparr>root_schemas = [(''a'', example_written)], required_roots = {''a''}\<rparr>
     [(KStr ''a'', PDict [(KStr ''b'', PStr ''x''), (KStr ''c'', PInt 2)])]"
proof -
  have "contracts_ok [(''a'', example_root)]" by (simp add: contracts_ok_def schema_ok.simps level_ok_def typed_ok)
  then have r: "reducer_ok example_reducer" by (simp add: reducer_ok_def)
  have "accepts (PDict [(KStr ''b'', PStr ''x''), (KStr ''c'', PInt 1)]) example_root" by code_simp
  then have d: "describes example_reducer example_data" by (simp add: describes_def)
  have "performed example_writes example_data [(KStr ''a'', PDict [(KStr ''b'', PStr ''x''), (KStr ''c'', PInt 2)])]"
    by (rule performed.do[where parts = "[''a'', ''c'']" and s = "typed JInteger" and w = "PInt 2"])
      (code_simp, code_simp, simp, code_simp, code_simp, rule performed.none)
  from contract_writes_describe_data[OF r _ example_applied d _ this] show ?thesis by simp
qed

text \<open>Batches are atomic: a batch made of two parts behaves like the first part followed by the
  second, except that an error in either leaves the state before the whole batch.\<close>

theorem apply_many_atomic:
  "apply_many limit (first @ second) st = (case apply_many limit first st of
     (Inl e, _) \<Rightarrow> (Inl e, st)
   | (Inr _, middle) \<Rightarrow> (case apply_many limit second middle of (Inl e, _) \<Rightarrow> (Inl e, st) | (Inr u, st') \<Rightarrow> (Inr u, st')))"
  by (auto simp: apply_many_run iter_s_append bind_s_def split: prod.splits sum.splits)

end
