(* ===== verification/Reducer_Termination.thy ===== *)
theory Reducer_Termination
  imports Reducer_Soundness
begin

section \<open>Contract writes end\<close>

text \<open>
  \<open>_write_nested_schema\<close> calls itself on branches and members of a contract, but also on the
  contracts that it builds from literals. The nesting of a contract, a dictionary among its
  literals counted with the nesting of the contract that stands for it, decreases in
  every call, so a recursion limit above it is never reached.
\<close>

subsection \<open>Nesting\<close>

definition max_of :: "nat list \<Rightarrow> nat" where
  "max_of xs = fold max xs 0"

lemma max_of_ge: "x \<in> set xs \<Longrightarrow> x \<le> max_of xs"
  using fold_max_ge[of 0 xs] by (simp add: max_of_def)

lemma max_of_le: "(\<And>x. x \<in> set xs \<Longrightarrow> x \<le> b) \<Longrightarrow> max_of xs \<le> b"
proof -
  have "fold max xs a \<le> b" if "\<And>x. x \<in> set xs \<Longrightarrow> x \<le> b" "a \<le> b" for a
    using that by (induction xs arbitrary: a) auto
  then show "(\<And>x. x \<in> set xs \<Longrightarrow> x \<le> b) \<Longrightarrow> max_of xs \<le> b" by (simp add: max_of_def)
qed

fun literal_nesting :: "pyval \<Rightarrow> nat" where
  "literal_nesting (PDict kvs) = Suc (max_of (1 # map (\<lambda>(k, v). literal_nesting v) kvs))"
| "literal_nesting v = 1"

text \<open>Only dictionaries are written below.\<close>

definition literal_steps :: "pyval \<Rightarrow> nat" where
  "literal_steps v = (if is_mapping v then Suc (literal_nesting v) else 0)"

function (sequential) schema_nesting :: "schema \<Rightarrow> nat" where
  "schema_nesting (SObj k) = Suc (max_of (
     map (\<lambda>(n, s). schema_nesting s) (opt_list (kw_props k)) @
     (case kw_additional k of None \<Rightarrow> [] | Some s \<Rightarrow> [schema_nesting s]) @
     map schema_nesting (opt_list (kw_any k)) @ map schema_nesting (opt_list (kw_one k)) @
     map schema_nesting (opt_list (kw_all k)) @
     map literal_steps (opt_list (schema_literal_values k))))"
| "schema_nesting s = 1"
  by pat_completeness auto
termination
  by (relation "measure size") (auto simp del: schema.size intro: size_laws)

declare schema_nesting.simps(1) [simp del]

lemma nesting_parts:
  "(n, s) \<in> set (opt_list (kw_props k)) \<Longrightarrow> schema_nesting s < schema_nesting (SObj k)"
  "kw_additional k = Some s \<Longrightarrow> schema_nesting s < schema_nesting (SObj k)"
  "s \<in> set (opt_list (kw_any k)) \<Longrightarrow> schema_nesting s < schema_nesting (SObj k)"
  "s \<in> set (opt_list (kw_one k)) \<Longrightarrow> schema_nesting s < schema_nesting (SObj k)"
  "s \<in> set (opt_list (kw_all k)) \<Longrightarrow> schema_nesting s < schema_nesting (SObj k)"
  "c \<in> set (opt_list (schema_literal_values k)) \<Longrightarrow> literal_steps c < schema_nesting (SObj k)"
  unfolding schema_nesting.simps(1) less_Suc_eq_le by (force intro!: max_of_ge)+

lemma nesting_any: "schema_nesting any_schema = 1"
  by (simp add: schema_nesting.simps schema_literal_values_def max_of_def)

lemma literal_nesting_bound: "schema_nesting (literal_data_key_schema v) \<le> literal_nesting v"
proof (induction v rule: measure_induct_rule[of size])
  case (less v)
  show ?case
  proof (cases v)
    case (PDict kvs)
    let ?bound = "max_of (1 # map (\<lambda>(k, v). literal_nesting v) kvs)"
    have "x \<le> ?bound" if "x \<in> set (map (\<lambda>(k, v). schema_nesting (literal_data_key_schema v)) kvs @ [1])" for x
    proof -
      from that consider "x = 1" | k c where "(k, c) \<in> set kvs" "x = schema_nesting (literal_data_key_schema c)" by auto
      then show ?thesis
      proof cases
        case (2 k c)
        have "x \<le> literal_nesting c" using less.IH[of c] size_dict_item[OF 2(1)] 2(2) by (simp add: PDict del: pyval.size)
        also have "\<dots> \<le> ?bound" using 2(1) by (intro max_of_ge) force
        finally show ?thesis .
      qed (auto intro: max_of_ge)
    qed
    then have "max_of (map (\<lambda>(k, v). schema_nesting (literal_data_key_schema v)) kvs @ [1]) \<le> ?bound"
      by (rule max_of_le)
    then show ?thesis
      by (simp add: PDict schema_nesting.simps schema_literal_values_def case_prod_beta' comp_def)
  qed (simp_all add: schema_nesting.simps schema_literal_values_def max_of_def literal_steps_def)
qed

lemma literals_nesting:
  assumes "cs \<noteq> []" "\<And>c. c \<in> set cs \<Longrightarrow> literal_nesting c \<le> b"
  shows "schema_nesting (literals_schema cs) \<le> Suc b"
proof -
  have le: "schema_nesting (literal_data_key_schema c) \<le> b" if "c \<in> set cs" for c
    using literal_nesting_bound[of c] assms(2)[OF that] by simp
  show ?thesis
  proof (cases cs rule: remdups_adj.cases)
    case (2 c)
    then show ?thesis using le[of c] by (simp add: literals_schema_def)
  next
    case (3 x y zs)
    have "max_of (map schema_nesting (map literal_data_key_schema cs)) \<le> b"
      by (intro max_of_le) (use le in auto)
    then show ?thesis
      by (simp add: literals_schema_def 3 schema_nesting.simps schema_literal_values_def)
  qed (use assms(1) in simp)
qed

subsection \<open>Calls go to contracts of smaller nesting\<close>

lemma map_branches_cong:
  "(\<And>b. b \<in> set (opt_list bo) \<Longrightarrow> f b = g b) \<Longrightarrow> map_branches f bo = map_branches g bo"
proof (cases bo)
  case (Some bs)
  assume "\<And>b. b \<in> set (opt_list bo) \<Longrightarrow> f b = g b"
  then have "map_r f bs = map_r g bs" by (intro map_r_cong) (simp_all add: Some)
  then show ?thesis by (simp add: map_branches_def Some)
qed (simp add: map_branches_def)

lemma written_child_cong:
  assumes "\<And>old parts path. old_child k name = Some old \<Longrightarrow> write old parts path = write' old parts path"
  shows "written_child write k name rest value required path = written_child write' k name rest value required path"
proof (cases rest)
  case (Cons n ns)
  then show ?thesis
    using assms by (cases "old_child k name") (simp_all add: written_child_def del: created_path_schema.simps)
qed (simp add: written_child_def)

lemma old_child_with_branches: "old_child (with_branches k all any) n = old_child k n"
  by (simp add: old_child_def with_branches_def split: option.split)

lemma write_object_cong:
  assumes "\<And>b. b \<in> set (opt_list (kw_all k)) \<union> set (opt_list (kw_any k)) \<union> set (opt_list (kw_one k)) \<Longrightarrow>
      write b = write' b"
    and "\<And>n old. old_child k n = Some old \<Longrightarrow> write old = write' old"
  shows "write_object write k parts value required path = write_object write' k parts value required path"
proof -
  have br: "map_branches (\<lambda>b. write b parts path) bo = map_branches (\<lambda>b. write' b parts path) bo"
    if "bo \<in> {kw_all k, kw_any k, kw_one k}" for bo
    using assms(1) that by (intro map_branches_cong) auto
  have ch: "written_child write (with_branches k all any) n rest value required p =
      written_child write' (with_branches k all any) n rest value required p" for all any n rest p
    using assms(2) by (intro written_child_cong) (simp add: old_child_with_branches)
  show ?thesis
    unfolding write_object_def Let_def ch br[OF insertI1] br[OF insertI2[OF insertI1]]
      br[OF insertI2[OF insertI2[OF insertI1]]] ..
qed

lemma nesting_pos: "1 \<le> schema_nesting s"
  by (cases s) (simp_all add: schema_nesting.simps)

text \<open>An open member is only reached in a contract with branches.\<close>

lemma old_child_nesting:
  assumes n: "normalize_data_key_schema_uncached path (schema_to_py (SObj k)) = Inr (SObj k)" and ok: "schema_ok (SObj k)"
    and obj: "JObject \<in> set (normalized_schema_types (SObj k))"
    and lits: "schema_literal_values k = None" and old: "old_child k m = Some old"
  shows "schema_nesting old < schema_nesting (SObj k)"
proof (cases "old = any_schema \<and> map_of (opt_list (kw_props k)) m = None")
  case False
  with old consider "map_of (opt_list (kw_props k)) m = Some old" | "kw_additional k = Some old"
    by (auto simp: old_child_def split: option.splits schema.splits)
  then show ?thesis using nesting_parts(1)[OF map_of_in_set] nesting_parts(2) by cases blast+
next
  case True
  have v: "validate_data_key_schema path (SObj k) = Inr ()"
    using n ok by (auto simp: normalize_data_key_schema_uncached_def normalize_schema_to_py bind_r_Inr_iff)
  have wild: "validate_data_key_schema p any_schema \<noteq> Inr ()" for p
    by (simp add: validate_data_key_schema.simps)
  have "\<not> (JObject \<in> set (declared_types k) \<or> kw_props k \<noteq> None)"
  proof
    assume "JObject \<in> set (declared_types k) \<or> kw_props k \<noteq> None"
    from data_key_schemaD(3)[OF v this, of m old] old True wild show False by (auto simp: old_child_member)
  qed
  then have "declared_types k = []" using obj by (auto split: if_splits)
  then have "kw_any k \<noteq> None \<or> kw_one k \<noteq> None \<or> kw_all k \<noteq> None"
    using data_key_schemaD(1)[OF v] lits by (auto simp: data_key_level_def schema_literal_values_def split: option.splits)
  moreover have "kw_any k \<noteq> Some [] \<and> kw_one k \<noteq> Some [] \<and> kw_all k \<noteq> Some []"
    using schema_ok_level[OF ok] by (simp add: level_ok_def)
  ultimately have "\<exists>b. b \<in> set (opt_list (kw_any k)) \<or> b \<in> set (opt_list (kw_one k)) \<or> b \<in> set (opt_list (kw_all k))"
    by (metis ex_in_conv list.set_intros(1) neq_Nil_conv not_Some_eq opt_list_simps(2))
  then obtain b where "schema_nesting b < schema_nesting (SObj k)" using nesting_parts(3-5)[of _ k] by blast
  with nesting_pos[of b] show ?thesis using True by (simp add: nesting_any)
qed

lemma write_step_cong:
  assumes ok: "contract_ok s"
    and sub: "\<And>b. schema_nesting b < schema_nesting s \<Longrightarrow> contract_ok b \<Longrightarrow> write b = write' b"
  shows "write_step write s parts value required path = write_step write' s parts value required path"
proof (cases "normalize_data_key_schema_uncached path (schema_to_py s)")
  case (Inl e)
  then show ?thesis by (simp add: write_step_def)
next
  case (Inr n)
  then have n: "normalize_data_key_schema_uncached path (schema_to_py s) = Inr s" using normalize_contract[OF ok Inr] by simp
  let ?types = "possible_runtime_types s"
  consider "?types = []" | "?types \<noteq> []" "set ?types \<noteq> {JObject}" | "set ?types = {JObject}" by auto
  then show ?thesis
  proof cases
    case 1
    have "write_object write empty_object parts value required path = write_object write' empty_object parts value required path"
      by (rule write_object_cong) (simp_all add: empty_object_def old_child_def)
    with 1 show ?thesis by (simp add: write_step_def n Let_def schema_literal_values_def empty_object_def)
  next
    case 2
    then show ?thesis by (simp add: write_step_def n Let_def)
  next
    case 3
    then obtain k where k: "s = SObj k" using ok by (cases s) auto
    have kok: "schema_ok (SObj k)" using ok k by blast
    have ne: "?types \<noteq> []" using 3 by (metis empty_set insert_not_empty)
    have obj: "JObject \<in> set (normalized_schema_types (SObj k))"
    proof -
      have "JObject \<in> set (possible_runtime_types (SObj k))" using 3 unfolding k by (metis insertI1)
      then show ?thesis by (auto simp: possible_runtime_types_SObj widened_types_def Let_def split: if_splits)
    qed
    have "(case schema_literal_values k of Some literals \<Rightarrow> write (literals_schema literals) parts path
        | None \<Rightarrow> write_object write k parts value required path) =
      (case schema_literal_values k of Some literals \<Rightarrow> write' (literals_schema literals) parts path
        | None \<Rightarrow> write_object write' k parts value required path)"
    proof (cases "schema_literal_values k")
      case (Some cs)
      note lit = schema_literal_valuesD[OF Some kok]
      have ls: "contract_ok (literals_schema cs)" using literals_schema_sound(1)[OF lit(1)] lit(2) by blast
      have bound: "literal_nesting c \<le> schema_nesting s - 2 \<and> 3 \<le> schema_nesting s" if c: "c \<in> set cs" for c
      proof -
        have "accepts c (SObj k)"
          using schema_ok_level[OF kok] Some c
          by (auto simp: level_ok_def accepts_def schema_literal_values_def list_all_iff split: option.splits)
        then have "is_mapping c" using accepted_type[of c s] ok 3 k mapping_type by auto
        with nesting_parts(6)[of c k] c Some have "Suc (literal_nesting c) < schema_nesting s"
          by (simp add: k literal_steps_def)
        moreover have "1 \<le> literal_nesting c" by (cases c) simp_all
        ultimately show ?thesis by simp
      qed
      have "schema_nesting (literals_schema cs) \<le> Suc (schema_nesting s - 2)"
        by (rule literals_nesting[OF lit(1)]) (use bound in blast)
      moreover obtain c where "c \<in> set cs" using lit(1) by (cases cs) auto
      ultimately have "schema_nesting (literals_schema cs) < schema_nesting s" using bound[of c] by arith
      with sub ls show ?thesis by (simp add: Some)
    next
      case None
      have "write_object write k parts value required path = write_object write' k parts value required path"
      proof (rule write_object_cong)
        fix b assume "b \<in> set (opt_list (kw_all k)) \<union> set (opt_list (kw_any k)) \<union> set (opt_list (kw_one k))"
        then have "schema_nesting b < schema_nesting s \<and> contract_ok b"
          using nesting_parts(3-5)[of b k] schema_branch[OF kok, of b] by (auto simp: k)
        with sub show "write b = write' b" by blast
      next
        fix m old assume old: "old_child k m = Some old"
        have "contract_ok old" using schema_ok_member[OF kok] old by (simp add: old_child_member)
        moreover have "schema_nesting old < schema_nesting s"
          unfolding k by (rule old_child_nesting[OF n[unfolded k] kok obj None old])
        ultimately show "write old = write' old" using sub by blast
      qed
      then show ?thesis by (simp add: None)
    qed
    with ne 3 n show ?thesis by (cases "schema_literal_values k") (simp_all add: write_step_def k Let_def)
  qed
qed

text \<open>\<open>overrun\<close> is never returned.\<close>

lemma write_within_enough:
  "contract_ok s \<Longrightarrow> schema_nesting s < limit \<Longrightarrow> schema_nesting s < limit' \<Longrightarrow>
   write_within overrun limit value required s parts path = write_within overrun' limit' value required s parts path"
proof (induction "schema_nesting s" arbitrary: s limit limit' parts path rule: less_induct)
  case less
  obtain l l' where l: "limit = Suc l" "limit' = Suc l'" using less.prems(2,3) by (cases limit; cases limit') auto
  have "write_within overrun l value required b = write_within overrun' l' value required b"
    if "schema_nesting b < schema_nesting s" "contract_ok b" for b
    by (intro ext less.hyps[OF that]) (use that less.prems(2,3) l in auto)
  from write_step_cong[OF less.prems(1) this] show ?case by (simp add: l write_within.simps)
qed

text \<open>\<^bold>\<open>C30\<close>. Writing below a contract ends: with a recursion limit above the nesting of the contract,
  which is a number computed from the contract alone, the outcome of
  \<open>_write_nested_schema\<close> is the same whatever exceeding the limit would do; the limit is
  never reached, although the code recurses into contracts it has built itself.\<close>

theorem write_nested_schema_terminates:
  assumes "contract_ok s" and "schema_nesting s < limit"
  shows "write_nested_schema limit value required s parts path =
    write_within overrun (Suc (schema_nesting s)) value required s parts path"
  unfolding write_nested_schema_def using assms by (intro write_within_enough) simp_all

theorem write_nested_schema_terminates_witness:
  "write_nested_schema 6 (typed JInteger) True (const_schema (PDict [(KStr ''b'', PInt 1)])) [''b''] ''a'' =
   write_within (Inr SFalse) 5 (typed JInteger) True (const_schema (PDict [(KStr ''b'', PInt 1)])) [''b''] ''a''"
proof -
  let ?s = "const_schema (PDict [(KStr ''b'', PInt 1)])"
  have ok: "contract_ok ?s" by (rule const_schema_ok) simp_all
  have "schema_nesting ?s = 4"
    by (simp add: schema_nesting.simps schema_literal_values_def literal_steps_def max_of_def)
  then show ?thesis
    using write_nested_schema_terminates[OF ok, of 6 "typed JInteger" True "[''b'']" "''a''" "Inr SFalse"]
    by simp
qed

end
