(* ===== verification/Module_Contract.thy ===== *)
theory Module_Contract
  imports Contract_Expansion
begin

section \<open>Modules and their ports\<close>

text \<open>
  \<open>engine/contracts/module.py\<close>: the field sets of Module records, the exact-field check shared by all
  contracts (also \<open>engine/contracts/exact_fields.py\<close>), Module parameters, the normal form of ports and the
  wiring of an instance. \<open>show_value\<close> is \<open>str\<close> of a value in an error text.
\<close>

subsection \<open>Exact fields\<close>

definition engine_module_kinds :: "string list" where
  "engine_module_kinds = [''Universe'', ''Signal'', ''Target'', ''Constraint'']"

definition module_kinds :: "string list" where
  "module_kinds = engine_module_kinds @ [''Analyzer''] @ [''Environment'']"

definition process_module_parameter_fields :: "string list" where
  "process_module_parameter_fields =
     [''command'', ''arguments'', ''workingDirectory'', ''requestTimeoutSeconds'', ''maxResponseBytes'']"

definition module_instance_fields :: "string list" where
  "module_instance_fields = [''instanceId'', ''kind'', ''moduleId'', ''version'', ''config'', ''inputs'', ''outputs'']"

definition graph_fields :: "string list" where
  "graph_fields = [''nodes'', ''inputs'', ''outputs'']"

definition graph_boundary_fields :: "string list" where
  "graph_boundary_fields = [''dataKey'', ''wire'']"

definition graph_input_boundary_fields :: "string list" where
  "graph_input_boundary_fields = graph_boundary_fields @ [''source'']"

definition definition_key :: "string \<Rightarrow> string \<Rightarrow> string \<Rightarrow> string" where
  "definition_key kind module_id version = kind @ ''/'' @ module_id @ ''/'' @ version"

text \<open>Names outside a set, sorted for an error text; sorting or joining keys that are not strings is a
  \<open>TypeError\<close>.\<close>

definition unknown_names :: "pykey list \<Rightarrow> string list \<Rightarrow> string list res" where
  "unknown_names ks allowed =
     (let unknown = filter (\<lambda>k. \<not> (is_str_key k \<and> key_text k \<in> set allowed)) ks in
      if list_all is_str_key unknown then Inr (sorted_set (map key_text unknown))
      else Inl (TypeError ''sequence item: expected str instance''))"

definition missing_names :: "pykey list \<Rightarrow> string list \<Rightarrow> string list" where
  "missing_names ks required = sorted_set (filter (\<lambda>n. KStr n \<notin> set ks) required)"

definition require_exact_fields :: "string \<Rightarrow> string list \<Rightarrow> string list \<Rightarrow> pyval \<Rightarrow> (pykey \<times> pyval) list res" where
  "require_exact_fields label allowed required v =
     (case v of
        PDict d \<Rightarrow>
          bind_r (unknown_names (keys_of d) allowed) (\<lambda>unknown.
          if unknown \<noteq> [] then Inl (ValueError (label @ '' contains unsupported field(s): '' @ join_str '', '' unknown))
          else let missing = missing_names (keys_of d) required in
          if missing \<noteq> [] then Inl (ValueError (label @ '' is missing required field(s): '' @ join_str '', '' missing))
          else Inr d)
      | _ \<Rightarrow> Inl (ValueError (label @ '' must be an object.'')))"

text \<open>\<open>d[name]\<close>\<close>

definition field :: "(pykey \<times> pyval) list \<Rightarrow> string \<Rightarrow> pyval res" where
  "field d name = (case map_of d (KStr name) of None \<Rightarrow> Inl (KeyError name) | Some v \<Rightarrow> Inr v)"

lemma unknown_names_None: "unknown_names ks allowed = Inr [] \<longleftrightarrow> set ks \<subseteq> KStr ` set allowed"
proof
  assume "unknown_names ks allowed = Inr []"
  then have "set (filter (\<lambda>k. \<not> (is_str_key k \<and> key_text k \<in> set allowed)) ks) = {}"
    by (auto simp: unknown_names_def Let_def split: if_splits dest!: arg_cong[where f = set])
  then show "set ks \<subseteq> KStr ` set allowed"
    by (auto simp: filter_empty_conv) (metis imageI is_str_key.elims(2) key_text.simps(1))
next
  assume "set ks \<subseteq> KStr ` set allowed"
  then have "filter (\<lambda>k. \<not> (is_str_key k \<and> key_text k \<in> set allowed)) ks = []" by (auto simp: filter_empty_conv)
  then show "unknown_names ks allowed = Inr []" by (simp only: unknown_names_def Let_def) (simp add: sorted_set_def)
qed

lemma require_exact_fieldsD:
  assumes "require_exact_fields label allowed required v = Inr d"
  shows "v = PDict d" "set (keys_of d) \<subseteq> KStr ` set allowed" "n \<in> set required \<Longrightarrow> \<exists>x. map_of d (KStr n) = Some x"
proof -
  from assms have v: "v = PDict d" and u: "unknown_names (keys_of d) allowed = Inr []" and m: "missing_names (keys_of d) required = []"
    by (auto simp: require_exact_fields_def bind_r_Inr_iff Let_def split: pyval.splits if_splits)
  show "v = PDict d" "set (keys_of d) \<subseteq> KStr ` set allowed" using v u by (simp_all add: unknown_names_None)
  show "\<exists>x. map_of d (KStr n) = Some x" if "n \<in> set required"
  proof -
    have "set (filter (\<lambda>n. KStr n \<notin> set (keys_of d)) required) = {}"
      using arg_cong[OF m[unfolded missing_names_def], of set] by simp
    then have "KStr n \<in> set (keys_of d)" using that by (auto simp: filter_empty_conv)
    then show ?thesis by (metis map_of_eq_None_iff not_Some_eq set_map)
  qed
qed

subsection \<open>Parameters\<close>

definition float_positive :: "float64 \<Rightarrow> bool" where
  "float_positive f \<longleftrightarrow> drop_bit 63 f = 0 \<and> \<not> float_iszero f \<and> \<not> float_isnan f"

definition process_argument_ok :: "pyval \<Rightarrow> bool" where
  "process_argument_ok v = (case v of PStr _ \<Rightarrow> True | PInt _ \<Rightarrow> True | PFloat f \<Rightarrow> float_isfinite f | _ \<Rightarrow> False)"

text \<open>\<open>math.isfinite\<close> turns an integer into a float first, which overflows when it would round to \<open>2 ^ 1024\<close>.\<close>

definition beyond_float :: "pyval \<Rightarrow> bool" where
  "beyond_float v = (case v of PInt i \<Rightarrow> 2 ^ 1024 - 2 ^ 970 \<le> \<bar>i\<bar> | _ \<Rightarrow> False)"

definition positive_number :: "pyval \<Rightarrow> bool" where
  "positive_number v = (case v of PInt i \<Rightarrow> 0 < i | PFloat f \<Rightarrow> float_isfinite f \<and> float_positive f | _ \<Rightarrow> False)"

definition positive_integer :: "pyval \<Rightarrow> bool" where
  "positive_integer v = (case v of PInt i \<Rightarrow> 1 \<le> i | _ \<Rightarrow> False)"

definition non_blank :: "pyval \<Rightarrow> bool" where
  "non_blank v = (case v of PStr s \<Rightarrow> strip s \<noteq> [] | _ \<Rightarrow> False)"

text \<open>An optional field passes a test, or is absent.\<close>

definition optional_field :: "(pykey \<times> pyval) list \<Rightarrow> string \<Rightarrow> (pyval \<Rightarrow> bool) \<Rightarrow> bool" where
  "optional_field d name ok = (case map_of d (KStr name) of None \<Rightarrow> True | Some v \<Rightarrow> ok v)"

definition normalize_module_parameters :: "string \<Rightarrow> string \<Rightarrow> pyval \<Rightarrow> pyval res" where
  "normalize_module_parameters label activation_mode parameters =
     (if activation_mode = ''PythonModule''
      then bind_r (require_exact_fields label [] [] parameters) (\<lambda>_. Inr (PDict []))
      else if activation_mode \<noteq> ''ProcessRunner''
      then Inl (ValueError (label @ '' cannot be normalized for activation mode '' @ quoted activation_mode @ ''.''))
      else
        bind_r (require_exact_fields label process_module_parameter_fields [''command'', ''arguments''] parameters) (\<lambda>d.
        bind_r (field d ''command'') (\<lambda>command.
        bind_r (guard_r (non_blank command) (ValueError (label @ ''.command must be a non-empty string.''))) (\<lambda>_.
        bind_r (field d ''arguments'') (\<lambda>arguments.
        bind_r (case arguments of PList xs \<Rightarrow> Inr xs
          | _ \<Rightarrow> Inl (ValueError (label @ ''.arguments must be an array.''))) (\<lambda>xs.
        bind_r (guard_r (list_all process_argument_ok xs) (ValueError (label @ ''.arguments must contain strings or numbers.''))) (\<lambda>_.
        bind_r (guard_r (optional_field d ''workingDirectory'' (\<lambda>v. case v of PNone \<Rightarrow> True | PStr _ \<Rightarrow> True | _ \<Rightarrow> False))
          (ValueError (label @ ''.workingDirectory must be a string.''))) (\<lambda>_.
        bind_r (guard_r (optional_field d ''requestTimeoutSeconds'' (\<lambda>v. \<not> beyond_float v))
          (OverflowError ''int too large to convert to float'')) (\<lambda>_.
        bind_r (guard_r (optional_field d ''requestTimeoutSeconds'' positive_number)
          (ValueError (label @ ''.requestTimeoutSeconds must be a positive number.''))) (\<lambda>_.
        bind_r (guard_r (optional_field d ''maxResponseBytes'' positive_integer)
          (ValueError (label @ ''.maxResponseBytes must be a positive integer.''))) (\<lambda>_.
        Inr parameters)))))))))))"

subsection \<open>Ports\<close>

record port =
  pt_schema :: schema
  pt_required :: bool

record ports =
  in_ports :: "(string \<times> port) list"
  out_ports :: "(string \<times> port) list"

definition normalize_port :: "string \<Rightarrow> string \<Rightarrow> pykey \<times> pyval \<Rightarrow> (string \<times> port) res" where
  "normalize_port label direction = (\<lambda>(k, spec). case k of
       KOther _ \<Rightarrow> Inl (ValueError (''ports.'' @ direction @ '' contains an invalid port name.''))
     | KStr name \<Rightarrow>
         if name = [] then Inl (ValueError (''ports.'' @ direction @ '' contains an invalid port name.''))
         else
           bind_r (require_exact_fields (label @ ''.'' @ direction @ ''.'' @ name) [''schema'', ''required''] [''schema''] spec) (\<lambda>d.
           bind_r (case map_of d (KStr ''required'') of
               None \<Rightarrow> Inr True
             | Some (PBool b) \<Rightarrow> Inr b
             | _ \<Rightarrow> Inl (ValueError (''ports.'' @ direction @ ''.'' @ name @ ''.required must be a boolean.''))) (\<lambda>required.
           bind_r (field d ''schema'') (\<lambda>raw.
           bind_r (normalize_data_key_schema_uncached (label @ ''.'' @ direction @ ''.'' @ name) raw) (\<lambda>s.
           Inr (name, \<lparr>pt_schema = s, pt_required = required\<rparr>))))))"

definition normalize_direction :: "string \<Rightarrow> (pykey \<times> pyval) list \<Rightarrow> string \<Rightarrow> (string \<times> port) list res" where
  "normalize_direction label d direction =
     bind_r (field d direction) (\<lambda>values.
     case values of
       PDict specs \<Rightarrow> map_r (normalize_port label direction) specs
     | _ \<Rightarrow> Inl (ValueError (''ports.'' @ direction @ '' must be an object.'')))"

definition normalize_ports :: "string \<Rightarrow> pyval \<Rightarrow> ports res" where
  "normalize_ports label raw =
     bind_r (require_exact_fields label [''inputs'', ''outputs''] [''inputs'', ''outputs''] raw) (\<lambda>d.
     bind_r (normalize_direction label d ''inputs'') (\<lambda>ins.
     bind_r (normalize_direction label d ''outputs'') (\<lambda>outs.
     Inr \<lparr>in_ports = ins, out_ports = outs\<rparr>)))"

definition ports_ok :: "ports \<Rightarrow> bool" where
  "ports_ok p \<longleftrightarrow>
     distinct (keys_of (in_ports p)) \<and> distinct (keys_of (out_ports p)) \<and>
     list_all (\<lambda>(n, q). contract_ok (pt_schema q)) (in_ports p) \<and> list_all (\<lambda>(n, q). contract_ok (pt_schema q)) (out_ports p)"

subsection \<open>Wiring of an instance\<close>

definition wire_ok :: "pyval \<Rightarrow> bool" where
  "wire_ok v = (case v of PStr s \<Rightarrow> strip s \<noteq> [] \<and> strip s \<noteq> ''null'' | _ \<Rightarrow> False)"

definition wiring_of :: "(pykey \<times> pyval) list \<Rightarrow> string \<Rightarrow> (pykey \<times> pyval) list res" where
  "wiring_of instance direction =
     bind_r (field instance direction) (\<lambda>v.
     case v of PDict d \<Rightarrow> Inr d | _ \<Rightarrow> Inl (ValueError (''instance '' @ direction @ '' must be an object.'')))"

definition validate_instance_wiring ::
    "(pyval \<Rightarrow> string) \<Rightarrow> (pykey \<times> pyval) list \<Rightarrow> (pykey \<times> pyval) list \<Rightarrow> ports res" where
  "validate_instance_wiring show_value instance def =
     bind_r (bind_r (field def ''ports'') (normalize_ports ''Module ports'')) (\<lambda>ports.
     bind_r (bind_r (field instance ''inputs'') (\<lambda>i. bind_r (field instance ''outputs'') (\<lambda>_. Inr i))) (\<lambda>_.
     bind_r (wiring_of instance ''inputs'') (\<lambda>ins.
     bind_r (wiring_of instance ''outputs'') (\<lambda>outs.
     let complain = (\<lambda>text. bind_r (field instance ''instanceId'') (\<lambda>i.
         Inl (ValueError (''Instance '' @ quoted (show_value i) @ text)))) in
     bind_r (iter_r (\<lambda>(k, v). if k \<in> KStr ` set (keys_of (in_ports ports)) then Inr ()
         else complain ('' binds unknown input port '' @ quoted (key_text k) @ ''.'')) ins) (\<lambda>_.
     bind_r (iter_r (\<lambda>(k, v). if k \<in> KStr ` set (keys_of (out_ports ports)) then Inr ()
         else complain ('' binds unknown output port '' @ quoted (key_text k) @ ''.'')) outs) (\<lambda>_.
     bind_r (iter_r (\<lambda>(name, spec). if pt_required spec \<and> (case map_of ins (KStr name) of None \<Rightarrow> True | Some v \<Rightarrow> \<not> wire_ok v)
         then complain ('' requires input port '' @ quoted name @ ''.'') else Inr ()) (in_ports ports)) (\<lambda>_.
     bind_r (iter_r (\<lambda>(name, spec). if pt_required spec \<and> (case map_of outs (KStr name) of
             Some (PStr w) \<Rightarrow> w = [] | _ \<Rightarrow> True)
         then complain ('' requires output port '' @ quoted name @ ''.'') else Inr ()) (out_ports ports)) (\<lambda>_.
     bind_r (iter_r (\<lambda>(k, v). if wire_ok v then Inr ()
         else complain ('' inputs.'' @ key_text k @ '' must be a non-empty wire id.'')) ins) (\<lambda>_.
     bind_r (iter_r (\<lambda>(k, v). if wire_ok v then Inr ()
         else complain ('' outputs.'' @ key_text k @ '' must be a non-empty wire id.'')) outs) (\<lambda>_.
     Inr ports))))))))))"

end
