(* ===== verification/Graph_Contract.thy ===== *)
theory Graph_Contract
  imports Module_Contract Contract_Reducer "HOL-Library.Product_Lexorder"
begin

section \<open>Module Graphs and their compiled plans\<close>

text \<open>
  \<open>engine/contracts/graph.py\<close>: the normal form of a Graph, a list of node names with input and output
  boundaries, and the compiled plan with its output boundary writes in edge order. A raw Graph is a
  Python value; a normalized Graph and a plan are records. \<open>graph_cycle.py\<close> adds the entry of the Graphs of one
  causal cycle.
\<close>

subsection \<open>Normalized Graphs\<close>

record boundary =
  b_key :: string
  b_wire :: string
  b_source :: "string option"

record graph =
  g_nodes :: "string list"
  g_inputs :: "(string \<times> boundary) list"
  g_outputs :: "(string \<times> boundary) list"

definition non_empty_string :: "pyval \<Rightarrow> string option" where
  "non_empty_string v = (case v of PStr s \<Rightarrow> (if s = [] then None else Some s) | _ \<Rightarrow> None)"

text \<open>A DataKey and a wire: strings that are not blank, the DataKey in normal form\<close>

definition boundary_key :: "string \<Rightarrow> pyval \<Rightarrow> pyval \<Rightarrow> (string \<times> string) res" where
  "boundary_key here data_key wire =
     (if \<not> non_blank data_key \<or> \<not> non_blank wire
      then Inl (ValueError (here @ '' requires string dataKey and wire.''))
      else case (data_key, wire) of
        (PStr key, PStr w) \<Rightarrow>
          (case split_data_path key of
             Inl _ \<Rightarrow> Inl (ValueError (here @ '' has an invalid DataKey path.''))
           | Inr parts \<Rightarrow>
               if join_str ''.'' parts \<noteq> key then Inl (ValueError (here @ '' DataKey path is not normalized.''))
               else Inr (key, w))
      | _ \<Rightarrow> Inl (ValueError (here @ '' requires string dataKey and wire.'')))"

definition boundary_source :: "string \<Rightarrow> string list \<Rightarrow> (pykey \<times> pyval) list \<Rightarrow> string option res" where
  "boundary_source here sources d =
     (case map_of d (KStr ''source'') of
        None \<Rightarrow> Inr None
      | Some v \<Rightarrow>
          (case non_empty_string v of
             None \<Rightarrow> Inl (ValueError (here @ '' source must be a non-empty string.''))
           | Some src \<Rightarrow>
               if src \<in> set sources then Inr (Some src)
               else Inl (ValueError (here @ '' references unknown input source '' @ quoted src @ ''.''))))"

definition normalize_boundary ::
    "string \<Rightarrow> string \<Rightarrow> string list \<Rightarrow> string list \<Rightarrow> pykey \<times> pyval \<Rightarrow> (string \<times> boundary) res" where
  "normalize_boundary label direction sources taken = (\<lambda>(k, raw). case k of
       KOther _ \<Rightarrow> Inl (ValueError (label @ ''.'' @ direction @ '' contains an invalid boundary node ID.''))
     | KStr bid \<Rightarrow>
         if bid = [] then Inl (ValueError (label @ ''.'' @ direction @ '' contains an invalid boundary node ID.''))
         else if bid \<in> set taken then Inl (ValueError (label @ '' contains duplicate node ID '' @ quoted bid @ ''.''))
         else
           let here = label @ ''.'' @ direction @ ''.'' @ bid in
           bind_r (require_exact_fields here
             (if direction = ''inputs'' then graph_input_boundary_fields else graph_boundary_fields) graph_boundary_fields raw) (\<lambda>d.
           bind_r (field d ''dataKey'') (\<lambda>data_key.
           bind_r (field d ''wire'') (\<lambda>wire.
           bind_r (boundary_key here data_key wire) (\<lambda>(key, w).
           bind_r (boundary_source here sources d) (\<lambda>src.
           Inr (bid, \<lparr>b_key = key, b_wire = w, b_source = src\<rparr>)))))))"

text \<open>\<open>taken\<close> are the names of the nodes and of the boundaries so far.\<close>

fun normalize_boundaries ::
    "string \<Rightarrow> string \<Rightarrow> string list \<Rightarrow> string list \<Rightarrow> (pykey \<times> pyval) list \<Rightarrow> (string \<times> boundary) list res" where
  "normalize_boundaries label direction sources taken [] = Inr []"
| "normalize_boundaries label direction sources taken (kv # kvs) =
     bind_r (normalize_boundary label direction sources taken kv) (\<lambda>b.
     bind_r (normalize_boundaries label direction sources (fst b # taken) kvs) (\<lambda>bs. Inr (b # bs)))"

definition boundaries_of :: "string \<Rightarrow> string \<Rightarrow> string list \<Rightarrow> string list \<Rightarrow> pyval \<Rightarrow> (string \<times> boundary) list res" where
  "boundaries_of label direction sources taken raw =
     (case raw of
        PDict kvs \<Rightarrow> normalize_boundaries label direction sources taken kvs
      | _ \<Rightarrow> Inl (ValueError (label @ ''.'' @ direction @ '' must be an object keyed by boundary node ID.'')))"

definition node_names :: "string \<Rightarrow> pyval \<Rightarrow> string list res" where
  "node_names label raw =
     (case raw of
        PList xs \<Rightarrow>
          (case those (map non_empty_string xs) of
             Some names \<Rightarrow> Inr names
           | None \<Rightarrow> Inl (ValueError (label @ ''.nodes must be an array of non-empty instance IDs.'')))
      | _ \<Rightarrow> Inl (ValueError (label @ ''.nodes must be an array of non-empty instance IDs.'')))"

definition normalize_graph :: "string \<Rightarrow> string list \<Rightarrow> pyval \<Rightarrow> graph res" where
  "normalize_graph label sources raw =
     (case raw of
        PDict _ \<Rightarrow>
          bind_r (require_exact_fields label graph_fields graph_fields raw) (\<lambda>d.
          bind_r (field d ''nodes'') (\<lambda>raw_nodes.
          bind_r (field d ''inputs'') (\<lambda>raw_inputs.
          bind_r (field d ''outputs'') (\<lambda>raw_outputs.
          bind_r (node_names label raw_nodes) (\<lambda>nodes.
          bind_r (guard_r ([] \<notin> set sources) (ValueError (label @ '' input source names must be non-empty strings.''))) (\<lambda>_.
          bind_r (boundaries_of label ''inputs'' sources nodes raw_inputs) (\<lambda>ins.
          bind_r (boundaries_of label ''outputs'' sources (keys_of ins @ nodes) raw_outputs) (\<lambda>outs.
          Inr \<lparr>g_nodes = nodes, g_inputs = ins, g_outputs = outs\<rparr>))))))))
      | _ \<Rightarrow> Inl (ValueError (label @ '' must be an object.'')))"

subsection \<open>Plans\<close>

record instance_binding =
  i_kind :: string
  i_module :: string
  i_version :: string
  i_config :: pyval
  i_inputs :: "(string \<times> string) list"
  i_outputs :: "(string \<times> string) list"

record endpoint =
  ep_node :: string
  ep_port :: string
  ep_schema :: schema

record edge =
  e_wire :: string
  e_from :: endpoint
  e_to :: endpoint

record compiled_graph =
  topology :: "string list"
  cg_inputs :: "(string \<times> boundary) list"
  cg_outputs :: "(string \<times> boundary) list"
  bindings :: "(string \<times> instance_binding) list"
  edges :: "edge list"
  input_contracts :: contracts
  input_required_roots :: "string list"
  output_contracts :: contracts
  required_outputs :: "string list"
  input_sources :: "(string \<times> (contracts \<times> string list)) list"

subsection \<open>Output boundary writes\<close>

fun output_edges_from ::
    "string \<Rightarrow> (string \<times> boundary) list \<Rightarrow> edge list \<Rightarrow> string list \<Rightarrow> (string \<times> boundary \<times> edge) list res" where
  "output_edges_from label outputs [] seen =
     (let missing = sorted_set (filter (\<lambda>bid. bid \<notin> set seen) (keys_of outputs)) in
      if missing = [] then Inr []
      else Inl (ValueError (label @ ''.edges is missing output boundary write(s): '' @ join_str '', '' missing)))"
| "output_edges_from label outputs (e # es) seen =
     (let bid = ep_node (e_to e) in
      case map_of outputs bid of
        None \<Rightarrow> output_edges_from label outputs es seen
      | Some b \<Rightarrow>
          if bid \<in> set seen
          then Inl (ValueError (label @ ''.edges contains multiple writes for output boundary '' @ quoted bid @ ''.''))
          else if ep_port (e_to e) \<noteq> ''value'' \<or> e_wire e \<noteq> b_wire b
          then Inl (ValueError (label @ ''.edges output boundary '' @ quoted bid @ '' does not match its declared wire.''))
          else bind_r (output_edges_from label outputs es (bid # seen)) (\<lambda>ordered. Inr ((bid, b, e) # ordered)))"

definition compiled_graph_output_edges :: "string \<Rightarrow> compiled_graph \<Rightarrow> (string \<times> boundary \<times> edge) list res" where
  "compiled_graph_output_edges label plan = output_edges_from label (cg_outputs plan) (edges plan) []"

definition plan_label :: string where
  "plan_label = ''Compiled Graph''"

definition compiled_graph_output_writes :: "compiled_graph \<Rightarrow> (string \<times> string \<times> schema \<times> bool) list res" where
  "compiled_graph_output_writes plan =
     bind_r (compiled_graph_output_edges plan_label plan) (\<lambda>ordered.
     Inr (map (\<lambda>(bid, b, e). (bid, b_key b, ep_schema (e_from e), bid \<in> set (required_outputs plan)))
       (filter (\<lambda>(bid, b, e). ep_schema (e_from e) \<noteq> SFalse) ordered)))"

definition compiled_graph_output_plan :: "compiled_graph \<Rightarrow> (string \<times> string \<times> string \<times> bool) list res" where
  "compiled_graph_output_plan plan =
     bind_r (compiled_graph_output_edges plan_label plan) (\<lambda>ordered.
     Inr (map (\<lambda>(bid, b, e). (bid, b_key b, b_wire b, bid \<in> set (required_outputs plan))) ordered))"

definition compiled_graph_definition :: "string \<Rightarrow> compiled_graph \<Rightarrow> graph res" where
  "compiled_graph_definition label plan =
     bind_r (compiled_graph_output_edges label plan) (\<lambda>ordered.
     Inr \<lparr>g_nodes = topology plan, g_inputs = cg_inputs plan, g_outputs = map (\<lambda>(bid, b, e). (bid, b)) ordered\<rparr>)"

subsection \<open>Cycle Graphs\<close>

definition decision_time_data_key :: string where
  "decision_time_data_key = ''decisionTime''"

definition previous_cycle_root :: string where
  "previous_cycle_root = ''last''"

definition validate_cycle_graph_inputs :: "string \<Rightarrow> graph \<Rightarrow> unit res" where
  "validate_cycle_graph_inputs label g =
     iter_r (\<lambda>(bid, b). if b_source b = None \<and> b_key b = previous_cycle_root
       then Inl (ValueError (label @ '' Data Input '' @ quoted bid @ '' may not bind the full '' @ quoted previous_cycle_root @
         '' Data Dict; bind explicit '' @ quoted (previous_cycle_root @ ''.<DataKey>'') @ '' paths instead.''))
       else Inr ()) (g_inputs g)"

definition reserved_key :: py_error where
  "reserved_key = ValueError (''Sampler output may not use reserved cycle DataKey '' @ quoted decision_time_data_key @ ''.'')"

definition reserved_root :: py_error where
  "reserved_root = ValueError (''Sampler output may not use reserved cycle root DataKey '' @ quoted previous_cycle_root @ ''.'')"

definition cycle_input_contracts :: "nat \<Rightarrow> (string \<times> pyval) list \<Rightarrow> (string \<times> pyval) list \<Rightarrow> contracts res" where
  "cycle_input_contracts limit sample_contracts previous_data_contracts =
     bind_r (expand_contracts_uncached limit sample_contracts) (\<lambda>sample.
     bind_r (guard_r (decision_time_data_key \<notin> set (keys_of sample)) reserved_key) (\<lambda>_.
     bind_r (guard_r (previous_cycle_root \<notin> set (keys_of sample)) reserved_root) (\<lambda>_.
     bind_r (prefixed_contracts limit previous_cycle_root previous_data_contracts) (\<lambda>previous.
     expand_contracts_uncached limit (dict_of (
       map (\<lambda>(n, s). (n, schema_to_py s)) sample @
       [(decision_time_data_key, PDict [(KStr ''type'', PStr ''string'')])] @
       map (\<lambda>(n, s). (n, schema_to_py s)) previous))))))"

definition cycle_input_contract_state ::
    "nat \<Rightarrow> (string \<times> pyval) list \<Rightarrow> (string \<times> pyval) list \<Rightarrow> (contracts \<times> string set) res" where
  "cycle_input_contract_state limit sample_contracts previous_data_contracts =
     bind_r (cycle_input_contracts limit sample_contracts previous_data_contracts) (\<lambda>contracts.
     bind_r (contract_root_paths limit sample_contracts) (\<lambda>roots.
     Inr (contracts, insert decision_time_data_key (set roots))))"

text \<open>The part of a requested key below \<open>last.\<close>\<close>

definition previous_key :: "string \<Rightarrow> string option" where
  "previous_key data_key =
     (let pre = previous_cycle_root @ ''.'' in
      if take (length pre) data_key = pre then Some (drop (length pre) data_key) else None)"

definition cycle_value :: "pyval \<Rightarrow> pyval \<Rightarrow> string \<Rightarrow> string \<Rightarrow> pyval option res" where
  "cycle_value sample previous_data decision_time data_key =
     (if data_key = decision_time_data_key then Inr (Some (PStr decision_time))
      else case previous_key data_key of
        Some rest \<Rightarrow> bind_r (split_data_path rest) (\<lambda>segments. Inr (find_segments previous_data segments))
      | None \<Rightarrow> bind_r (split_data_path data_key) (\<lambda>segments. Inr (find_segments sample segments)))"

definition build_cycle_graph_input ::
    "pyval \<Rightarrow> pyval \<Rightarrow> pyval \<Rightarrow> string list \<Rightarrow> (pykey \<times> pyval) list res" where
  "build_cycle_graph_input sample previous_data decision_time data_keys =
     (case (sample, previous_data) of
        (PDict s, PDict p) \<Rightarrow>
          bind_r (guard_r (KStr previous_cycle_root \<notin> set (keys_of s)) reserved_root) (\<lambda>_.
          bind_r (guard_r (KStr decision_time_data_key \<notin> set (keys_of s)) reserved_key) (\<lambda>_.
          bind_r (case decision_time of
              PStr t \<Rightarrow> if strip t = [] then Inl (ValueError ''Cycle decisionTime must be a non-empty string.'') else Inr t
            | _ \<Rightarrow> Inl (ValueError ''Cycle decisionTime must be a non-empty string.'')) (\<lambda>time.
          bind_r (guard_r (previous_cycle_root \<notin> set data_keys)
            (ValueError (''Cycle Graph may not read the full '' @ quoted previous_cycle_root @ '' Data Dict; bind explicit '' @
              quoted (previous_cycle_root @ ''.<DataKey>'') @ '' paths instead.''))) (\<lambda>_.
          fold_r (\<lambda>data_key result.
            bind_r (cycle_value sample previous_data time data_key) (\<lambda>found.
            case found of None \<Rightarrow> Inr result | Some v \<Rightarrow> set_data_path result data_key v)) (from_keys data_keys) []))))
      | (PDict s, _) \<Rightarrow> Inl (ValueError ''Previous cycle Data Dict must be an object.'')
      | _ \<Rightarrow> Inl (ValueError ''Current cycle Sample must be an object.''))"

end
