(* ===== verification/Graph_Compiler.thy ===== *)
theory Graph_Compiler
  imports Graph_Contract
begin

section \<open>The Graph compiler\<close>

text \<open>
  \<open>engine/compiler/graph.py\<close> with \<open>module_binding.py\<close>: a Graph, its Module instances and the contracts
  of its data sources are checked and turned into a typed plan. The stages of
  \<open>_compile_module_graph_with_authorities\<close> are definitions over what the stage before has
  collected: sources, node names, input boundaries, nodes, wires into nodes, node order, output
  boundaries, plan. What lies outside the compiler is the record \<open>services\<close>: verifying an
  archived Module Definition and reading a verified one (\<open>authority/module_definition.py\<close>), the
  sorted JSON encoder, the check of a configuration by the \<open>jsonschema\<close> package
  (\<open>validate_config\<close>) and \<open>str\<close> of a value.
\<close>

record 'a services =
  verify_definition :: "pyval \<Rightarrow> 'a res"
  definition_material :: "'a \<Rightarrow> pyval"
  dumps_sorted :: "pyval \<Rightarrow> string"
  validate_config :: "string \<Rightarrow> pyval \<Rightarrow> pyval \<Rightarrow> unit res"
  show_value :: "pyval \<Rightarrow> string"

subsection \<open>Module Definitions\<close>

definition dict_get :: "pyval \<Rightarrow> string \<Rightarrow> pyval" where
  "dict_get v name = (case map_of (dict_items v) (KStr name) of None \<Rightarrow> PNone | Some x \<Rightarrow> x)"

definition identity_matches :: "pyval \<Rightarrow> string \<Rightarrow> string \<Rightarrow> string \<Rightarrow> bool" where
  "identity_matches def kind module_id version \<longleftrightarrow>
     dict_get def ''kind'' = PStr kind \<and> dict_get def ''moduleId'' = PStr module_id \<and> dict_get def ''version'' = PStr version"

definition wrong_identity :: "string \<Rightarrow> string \<Rightarrow> py_error" where
  "wrong_identity label key = ValueError (label @ '' Definition identity does not match its repository key: '' @ key)"

text \<open>The authorities verified so far come in and go out; one found there is not verified again.\<close>

definition resolve_verified_module_definition ::
    "'a services \<Rightarrow> pyval \<Rightarrow> (string \<times> 'a) list \<Rightarrow> string \<Rightarrow> string \<Rightarrow> string \<Rightarrow> string \<Rightarrow> (pyval \<times> (string \<times> 'a) list) res" where
  "resolve_verified_module_definition svc definitions verified label kind module_id version =
     (case definitions of PDict repository \<Rightarrow>
        let key = definition_key kind module_id version in
        bind_r (case map_of verified key of
            Some authority \<Rightarrow> Inr (definition_material svc authority, verified)
          | None \<Rightarrow>
              (case map_of repository (KStr key) of
                 None \<Rightarrow> Inl (ValueError (label @ '' definition does not exist: '' @ key))
               | Some PNone \<Rightarrow> Inl (ValueError (label @ '' definition does not exist: '' @ key))
               | Some indexed \<Rightarrow>
                   if \<not> is_mapping indexed then Inl (ValueError (label @ '' definition must be an object: '' @ key))
                   else if \<not> identity_matches indexed kind module_id version then Inl (wrong_identity label key)
                   else
                     bind_r (verify_definition svc indexed) (\<lambda>authority.
                     if dumps_sorted svc (definition_material svc authority) \<noteq> dumps_sorted svc indexed
                     then Inl (ValueError (label @ '' Definition '' @ quoted key @ '' does not match its verified authority.''))
                     else Inr (definition_material svc authority, AList.update key authority verified)))) (\<lambda>(def, verified').
        if identity_matches def kind module_id version then Inr (def, verified') else Inl (wrong_identity label key))
      | _ \<Rightarrow> Inl (ValueError (label @ '' Definition repository must be an object.'')))"

text \<open>The instance fields that name the Definition\<close>

definition identity_field :: "string \<Rightarrow> (pykey \<times> pyval) list \<Rightarrow> string \<Rightarrow> string res" where
  "identity_field label d name =
     bind_r (field d name) (\<lambda>v.
     case v of
       PStr s \<Rightarrow> if strip s \<noteq> [] then Inr s else Inl (ValueError (label @ '' instance '' @ name @ '' must be a non-empty string.''))
     | _ \<Rightarrow> Inl (ValueError (label @ '' instance '' @ name @ '' must be a non-empty string.'')))"

definition instance_definition ::
    "'a services \<Rightarrow> pyval \<Rightarrow> (string \<times> 'a) list \<Rightarrow> string \<Rightarrow> pyval \<Rightarrow> (pyval \<times> (string \<times> 'a) list) res" where
  "instance_definition svc definitions verified label instance =
     bind_r (require_exact_fields (label @ '' instance'') module_instance_fields module_instance_fields instance) (\<lambda>d.
     bind_r (identity_field label d ''instanceId'') (\<lambda>_.
     bind_r (identity_field label d ''kind'') (\<lambda>kind.
     bind_r (identity_field label d ''moduleId'') (\<lambda>module_id.
     bind_r (identity_field label d ''version'') (\<lambda>version.
     resolve_verified_module_definition svc definitions verified (label @ '' Module'') kind module_id version)))))"

subsection \<open>Instances\<close>

definition definition_ports :: "'a services \<Rightarrow> pyval \<Rightarrow> ports res" where
  "definition_ports svc def =
     bind_r (field (dict_items def) ''ports'') (\<lambda>raw.
     normalize_ports (''Module '' @ quoted (show_value svc (dict_get def ''kind'') @ ''/'' @
       show_value svc (dict_get def ''moduleId'') @ ''/'' @ show_value svc (dict_get def ''version'')) @ '' ports'') raw)"

text \<open>The bindings of one direction: declared ports, the required ones among them, non-empty wires\<close>

definition port_bindings ::
    "string \<Rightarrow> (pykey \<times> pyval) list \<Rightarrow> string \<Rightarrow> (string \<times> port) list \<Rightarrow> (string \<times> string) list res" where
  "port_bindings here d direction declared =
     bind_r (field d direction) (\<lambda>v.
     case v of
       PDict kvs \<Rightarrow>
         bind_r (unknown_names (keys_of kvs) (keys_of declared)) (\<lambda>unknown.
         if unknown \<noteq> []
         then Inl (ValueError (here @ '' binds undeclared '' @ direction @ '' port(s): '' @ join_str '', '' unknown))
         else let missing = missing_names (keys_of kvs) (keys_of (filter (\<lambda>(n, p). pt_required p) declared)) in
         if missing \<noteq> []
         then Inl (ValueError (here @ '' omits required '' @ direction @ '' port(s): '' @ join_str '', '' missing))
         else case those (map (\<lambda>(k, w). map_option (Pair (key_text k)) (non_empty_string w)) kvs) of
           None \<Rightarrow> Inl (ValueError (here @ '' has an empty '' @ direction @ '' wire ID.''))
         | Some bound \<Rightarrow> Inr bound)
     | _ \<Rightarrow> Inl (ValueError (here @ '' '' @ direction @ '' must be an object.'')))"

definition validate_instance ::
    "'a services \<Rightarrow> string \<Rightarrow> string \<Rightarrow> pyval \<Rightarrow> pyval \<Rightarrow> (ports \<times> pyval \<times> (string \<times> string) list \<times> (string \<times> string) list) res" where
  "validate_instance svc label instance_id instance def =
     (let here = label @ '' instance '' @ quoted instance_id in
      bind_r (require_exact_fields here module_instance_fields module_instance_fields instance) (\<lambda>d.
      bind_r (field d ''instanceId'') (\<lambda>own.
      bind_r (guard_r (own = PStr instance_id)
        (ValueError (label @ '' instance key '' @ quoted instance_id @ '' must match instanceId.''))) (\<lambda>_.
      bind_r (field d ''config'') (\<lambda>config.
      bind_r (guard_r (is_mapping config) (ValueError (here @ '' config must be an object.''))) (\<lambda>_.
      bind_r (field (dict_items def) ''configSchema'') (\<lambda>config_schema.
      bind_r (validate_config svc (label @ ''.'' @ instance_id @ ''.config'') config config_schema) (\<lambda>_.
      bind_r (definition_ports svc def) (\<lambda>ports.
      bind_r (port_bindings here d ''inputs'' (in_ports ports)) (\<lambda>ins.
      bind_r (port_bindings here d ''outputs'' (out_ports ports)) (\<lambda>outs.
      Inr (ports, config, ins, outs))))))))))))"

subsection \<open>Sources and names\<close>

text \<open>\<open>expand_contracts\<close> of normalized contracts\<close>

definition normalized_expansion :: "nat \<Rightarrow> (string \<times> pyval) list \<Rightarrow> contracts res" where
  "normalized_expansion limit raw =
     bind_r (map_r (\<lambda>(key, s). bind_r (normalize_data_key_schema_uncached key s) (\<lambda>n. Inr (key, schema_to_py n))) raw)
       (expand_contracts_uncached limit)"

text \<open>A source: its expanded contracts with the roots it guarantees\<close>

type_synonym source_state = "contracts \<times> string list"

definition source_state_of :: "nat \<Rightarrow> string \<Rightarrow> (string \<times> pyval) list \<Rightarrow> string list option \<Rightarrow> source_state res" where
  "source_state_of limit what raw required =
     bind_r (normalized_expansion limit raw) (\<lambda>contracts.
     bind_r (expanded_contract_root_paths contracts) (\<lambda>roots.
     let present = (case required of None \<Rightarrow> roots | Some rs \<Rightarrow> rs);
         unknown = sorted_set (filter (\<lambda>r. r \<notin> set roots) present) in
     if unknown \<noteq> [] then Inl (ValueError (what @ '' required root(s) are not declared: '' @ join_str '', '' unknown))
     else Inr (contracts, present)))"

definition used_sources :: "graph \<Rightarrow> string list" where
  "used_sources g = sorted_set (List.map_filter (\<lambda>(bid, b). b_source b) (g_inputs g))"

definition graph_sources ::
    "nat \<Rightarrow> string \<Rightarrow> (string \<times> (string \<times> pyval) list) list \<Rightarrow> (string \<times> string list) list \<Rightarrow> graph \<Rightarrow>
     (string \<times> source_state) list res" where
  "graph_sources limit label source_contracts source_required g =
     map_r (\<lambda>source.
       case map_of source_contracts source of
         None \<Rightarrow> Inl (KeyError source)
       | Some raw \<Rightarrow>
           bind_r (source_state_of limit (label @ '' input source '' @ quoted source) raw (map_of source_required source)) (\<lambda>st.
           Inr (source, st))) (used_sources g)"

text \<open>The instances must be those of the nodes, each node named once.\<close>

definition check_nodes :: "string \<Rightarrow> graph \<Rightarrow> (pykey \<times> pyval) list \<Rightarrow> unit res" where
  "check_nodes label g instances =
     (let nodes = g_nodes g;
          duplicate = sorted_set (filter (\<lambda>n. 1 < length (filter ((=) n) nodes)) nodes) in
      bind_r (guard_r (duplicate = []) (ValueError (label @ '' contains duplicate node(s): '' @ join_str '', '' duplicate))) (\<lambda>_.
      bind_r (guard_r (list_all (\<lambda>k. is_str_key k \<and> k \<noteq> KStr []) (keys_of instances))
        (ValueError (label @ '' instances contain an invalid instance ID.''))) (\<lambda>_.
      let missing = sort (filter (\<lambda>n. KStr n \<notin> set (keys_of instances)) nodes);
          orphan = sort (filter (\<lambda>n. n \<notin> set nodes) (map key_text (keys_of instances)));
          details = (if missing \<noteq> [] then [''missing instance(s): '' @ join_str '', '' missing] else []) @
            (if orphan \<noteq> [] then [''instance(s) outside graph.nodes: '' @ join_str '', '' orphan] else []) in
      guard_r (details = []) (ValueError (label @ '' instances must exactly match graph.nodes: '' @ join_str ''; '' details)))))"

subsection \<open>Wires\<close>

text \<open>What is known of the producers: the end that writes a wire, its contract and whether it is always
  written; the wires of boundaries whose DataKey has no contract; the root contracts that boundaries read,
  of the initial data and of each source.\<close>

record wiring =
  producers :: "(string \<times> (string \<times> string)) list"
  producer_schemas :: "(string \<times> schema) list"
  producer_presence :: "(string \<times> bool) list"
  unknown_wires :: "(string \<times> (string \<times> string)) list"
  consumed_initial :: contracts
  consumed_sources :: "(string \<times> contracts) list"

definition add_producer :: "string \<Rightarrow> string \<times> string \<Rightarrow> schema \<Rightarrow> bool \<Rightarrow> wiring \<Rightarrow> wiring" where
  "add_producer wire owner s present w =
     w\<lparr>producers := AList.update wire owner (producers w),
       producer_schemas := AList.update wire s (producer_schemas w),
       producer_presence := AList.update wire present (producer_presence w)\<rparr>"

definition consume_root :: "string option \<Rightarrow> string \<Rightarrow> schema \<Rightarrow> wiring \<Rightarrow> wiring" where
  "consume_root source root s w =
     (case source of
        None \<Rightarrow> w\<lparr>consumed_initial := AList.update root s (consumed_initial w)\<rparr>
      | Some src \<Rightarrow>
          w\<lparr>consumed_sources := AList.update src
             (AList.update root s (case map_of (consumed_sources w) src of None \<Rightarrow> [] | Some c \<Rightarrow> c)) (consumed_sources w)\<rparr>)"

definition state_of :: "source_state \<Rightarrow> (string \<times> source_state) list \<Rightarrow> string option \<Rightarrow> source_state res" where
  "state_of initial sources source =
     (case source of
        None \<Rightarrow> Inr initial
      | Some src \<Rightarrow> (case map_of sources src of None \<Rightarrow> Inl (KeyError src) | Some st \<Rightarrow> Inr st))"

definition bind_boundary ::
    "string \<Rightarrow> source_state \<Rightarrow> (string \<times> source_state) list \<Rightarrow> string \<times> boundary \<Rightarrow> wiring \<Rightarrow> wiring res" where
  "bind_boundary label initial sources = (\<lambda>(bid, b) w.
     bind_r (state_of initial sources (b_source b)) (\<lambda>(contracts, present_roots).
     if b_wire b \<in> set (keys_of (producers w))
     then Inl (ValueError (label @ '' wire '' @ quoted (b_wire b) @ '' has multiple producers.''))
     else
       bind_r (resolve_expanded_contract_path contracts (b_key b)) (\<lambda>found.
       case found of
         None \<Rightarrow>
           Inr (add_producer (b_wire b) (bid, ''value'') any_schema False
             (w\<lparr>unknown_wires := AList.update (b_wire b) (bid, b_key b) (unknown_wires w)\<rparr>))
       | Some s \<Rightarrow>
           bind_r (split_data_path (b_key b)) (\<lambda>parts.
           case map_of contracts (hd parts) of
             None \<Rightarrow> Inl (KeyError (hd parts))
           | Some root_schema \<Rightarrow>
               bind_r (expanded_contract_path_required contracts (Some present_roots) (b_key b)) (\<lambda>present.
               Inr (add_producer (b_wire b) (bid, ''value'') s present (consume_root (b_source b) (hd parts) root_schema w)))))))"

text \<open>\<open>sorted(..., key=canonical_data_key_order)\<close>\<close>

definition ordered_boundaries :: "(string \<times> boundary) list \<Rightarrow> (string \<times> boundary) list res" where
  "ordered_boundaries bs =
     bind_r (map_r (\<lambda>(bid, b). bind_r (canonical_data_key_order (b_key b) bid) (\<lambda>rank. Inr (rank, (bid, b)))) bs) (\<lambda>ranked.
     Inr (map snd (sort_key fst ranked)))"

subsection \<open>Nodes\<close>

record 'a node_state =
  ns_verified :: "(string \<times> 'a) list"
  ns_wiring :: wiring
  ns_ports :: "(string \<times> ports) list"
  ns_bindings :: "(string \<times> instance_binding) list"

definition add_output :: "string \<Rightarrow> string \<Rightarrow> ports \<Rightarrow> string \<times> string \<Rightarrow> wiring \<Rightarrow> wiring res" where
  "add_output label node ports = (\<lambda>(port_name, wire) w.
     case map_of (producers w) wire of
       Some (owner, owner_port) \<Rightarrow>
         Inl (ValueError (label @ '' wire '' @ quoted wire @ '' has multiple producers: '' @
           quoted (owner @ ''.'' @ owner_port) @ '' and '' @ quoted (node @ ''.'' @ port_name) @ ''.''))
     | None \<Rightarrow>
         (case map_of (out_ports ports) port_name of
            None \<Rightarrow> Inl (KeyError port_name)
          | Some p \<Rightarrow> Inr (add_producer wire (node, port_name) (pt_schema p) (pt_required p) w)))"

definition kind_allowed :: "'a services \<Rightarrow> string \<Rightarrow> string \<Rightarrow> string list option \<Rightarrow> pyval \<Rightarrow> unit res" where
  "kind_allowed svc label node allowed_kinds instance =
     (case allowed_kinds of
        None \<Rightarrow> Inr ()
      | Some kinds \<Rightarrow>
          if \<not> is_mapping instance then Inl (AttributeError ''object has no attribute get'')
          else
            (case dict_get instance ''kind'' of
               PList _ \<Rightarrow> Inl (TypeError ''unhashable type'')
             | PDict _ \<Rightarrow> Inl (TypeError ''unhashable type'')
             | kind \<Rightarrow>
                 guard_r (kind \<in> PStr ` set kinds)
                   (ValueError (label @ '' instance '' @ quoted node @ '' has kind '' @ quoted (show_value svc kind) @
                     '', expected one of '' @ join_str '', '' (sort kinds) @ ''.''))))"

definition identity_text :: "pyval \<Rightarrow> string \<Rightarrow> string" where
  "identity_text instance name = (case dict_get instance name of PStr s \<Rightarrow> s | _ \<Rightarrow> [])"

definition compile_node ::
    "'a services \<Rightarrow> pyval \<Rightarrow> string list option \<Rightarrow> string \<Rightarrow> (pykey \<times> pyval) list \<Rightarrow> string \<Rightarrow> 'a node_state \<Rightarrow> 'a node_state res" where
  "compile_node svc definitions allowed_kinds label instances node st =
     (case map_of instances (KStr node) of
        None \<Rightarrow> Inl (ValueError (label @ '' references unknown instance '' @ quoted node @ ''.''))
      | Some PNone \<Rightarrow> Inl (ValueError (label @ '' references unknown instance '' @ quoted node @ ''.''))
      | Some instance \<Rightarrow>
          bind_r (kind_allowed svc label node allowed_kinds instance) (\<lambda>_.
          bind_r (instance_definition svc definitions (ns_verified st) label instance) (\<lambda>(def, verified).
          bind_r (validate_instance svc label node instance def) (\<lambda>(ports, config, ins, outs).
          bind_r (fold_r (add_output label node ports) (sort_key fst outs) (ns_wiring st)) (\<lambda>w.
          Inr \<lparr>ns_verified = verified, ns_wiring = w,
            ns_ports = AList.update node ports (ns_ports st),
            ns_bindings = AList.update node
              \<lparr>i_kind = identity_text instance ''kind'', i_module = identity_text instance ''moduleId'',
               i_version = identity_text instance ''version'', i_config = config, i_inputs = ins, i_outputs = outs\<rparr>
              (ns_bindings st)\<rparr>)))))"

subsection \<open>Wires into nodes\<close>

text \<open>The edges so far, the producing nodes each node waits for, and the wires without contract that are read\<close>

record edge_state =
  es_edges :: "edge list"
  es_dependencies :: "(string \<times> string) list"
  es_consumed :: "string list"

definition schema_label_of :: "schema \<Rightarrow> string res" where
  "schema_label_of s = schema_label (schema_to_py s)"

definition mismatch :: "string \<Rightarrow> string \<Rightarrow> string \<times> string \<Rightarrow> schema \<Rightarrow> string \<Rightarrow> string \<Rightarrow> schema \<Rightarrow> 'b res" where
  "mismatch label wire owner provided node port_name required =
     bind_r (schema_label_of provided) (\<lambda>given.
     bind_r (schema_label_of required) (\<lambda>wanted.
     Inl (ValueError (label @ '' wire '' @ quoted wire @ '' schema mismatch: '' @ fst owner @ ''.'' @ snd owner @ '' outputs '' @
       given @ '', but '' @ node @ ''.'' @ port_name @ '' requires '' @ wanted @ ''.''))))"

definition edge_of :: "string \<Rightarrow> string \<times> string \<Rightarrow> schema \<Rightarrow> string \<Rightarrow> string \<Rightarrow> schema \<Rightarrow> edge" where
  "edge_of wire owner provided node port_name required =
     \<lparr>e_wire = wire, e_from = \<lparr>ep_node = fst owner, ep_port = snd owner, ep_schema = provided\<rparr>,
      e_to = \<lparr>ep_node = node, ep_port = port_name, ep_schema = required\<rparr>\<rparr>"

definition of_wire :: "(string \<times> 'b) list \<Rightarrow> string \<Rightarrow> 'b res" where
  "of_wire m wire = (case map_of m wire of None \<Rightarrow> Inl (KeyError wire) | Some x \<Rightarrow> Inr x)"

definition connect_input ::
    "string \<Rightarrow> bool \<Rightarrow> wiring \<Rightarrow> string list \<Rightarrow> string \<Rightarrow> ports \<Rightarrow> string \<times> string \<Rightarrow> edge_state \<Rightarrow> edge_state res" where
  "connect_input label strict w nodes node ports = (\<lambda>(port_name, wire) st.
     bind_r (of_wire (in_ports ports) port_name) (\<lambda>p.
     case map_of (producers w) wire of
       None \<Rightarrow>
         if pt_required p
         then Inl (ValueError (label @ '' input '' @ quoted (node @ ''.'' @ port_name) @ '' references unknown wire '' @ quoted wire @ ''.''))
         else Inr st
     | Some owner \<Rightarrow>
         bind_r (of_wire (producer_presence w) wire) (\<lambda>present.
         if pt_required p \<and> \<not> present \<and> (strict \<or> wire \<notin> set (keys_of (unknown_wires w)))
         then Inl (ValueError (label @ '' required input '' @ quoted (node @ ''.'' @ port_name) @ '' relies on optional wire '' @ quoted wire @ ''.''))
         else if fst owner = node
         then Inl (ValueError (label @ '' Module '' @ quoted node @ '' reads its own output wire '' @ quoted wire @ ''.''))
         else
           bind_r (normalize_data_key_schema_uncached ''Module port'' (schema_to_py (pt_schema p))) (\<lambda>required.
           case map_of (unknown_wires w) wire of
             Some (bid, key) \<Rightarrow>
               if strict \<and> pt_required p
               then Inl (ValueError (label @ '' Data Input '' @ quoted bid @ '' references unknown DataKey '' @ quoted key @
                 '' required by '' @ quoted (node @ ''.'' @ port_name) @ ''.''))
               else Inr (st\<lparr>es_edges := es_edges st @ [edge_of wire owner required node port_name required],
                   es_consumed := wire # es_consumed st\<rparr>)
           | None \<Rightarrow>
               bind_r (of_wire (producer_schemas w) wire) (\<lambda>provided.
               bind_r (schemas_compatible (schema_to_py provided) (schema_to_py required)) (\<lambda>ok.
               if \<not> ok then mismatch label wire owner provided node port_name required
               else Inr (st\<lparr>es_edges := es_edges st @ [edge_of wire owner provided node port_name required],
                   es_dependencies := (if fst owner \<in> set nodes then (node, fst owner) # es_dependencies st
                     else es_dependencies st)\<rparr>)))))))"

definition connect_node ::
    "string \<Rightarrow> bool \<Rightarrow> wiring \<Rightarrow> string list \<Rightarrow> (string \<times> ports) list \<Rightarrow> (string \<times> instance_binding) list \<Rightarrow> string \<Rightarrow>
     edge_state \<Rightarrow> edge_state res" where
  "connect_node label strict w nodes all_ports all_bindings node st =
     bind_r (of_wire all_bindings node) (\<lambda>b.
     bind_r (of_wire all_ports node) (\<lambda>ports.
     fold_r (connect_input label strict w nodes node ports) (sort_key fst (i_inputs b)) st))"

subsection \<open>Node order\<close>

definition ready_nodes :: "string list \<Rightarrow> (string \<times> string) list \<Rightarrow> string list \<Rightarrow> string list" where
  "ready_nodes nodes dependencies remaining =
     filter (\<lambda>n. n \<in> set remaining \<and> \<not> list_ex (\<lambda>(m, d). m = n \<and> d \<in> set remaining) dependencies) nodes"

lemma ready_remaining: "n \<in> set (ready_nodes nodes dependencies remaining) \<Longrightarrow> n \<in> set remaining"
  by (simp add: ready_nodes_def)

lemma fewer_remaining:
  assumes "ready_nodes nodes dependencies remaining \<noteq> []"
  shows "length (filter (\<lambda>n. n \<notin> set (ready_nodes nodes dependencies remaining)) remaining) < length remaining"
proof -
  from assms obtain n where "n \<in> set (ready_nodes nodes dependencies remaining)" by (metis list.set_intros(1) neq_Nil_conv)
  with ready_remaining[OF this] show ?thesis by (intro length_filter_less) auto
qed

function order_nodes :: "string \<Rightarrow> string list \<Rightarrow> (string \<times> string) list \<Rightarrow> string list \<Rightarrow> string list res" where
  "order_nodes label nodes dependencies remaining =
     (if remaining = [] then Inr []
      else let ready = ready_nodes nodes dependencies remaining in
        if ready = []
        then Inl (ValueError (label @ '' dependency graph contains a cycle: '' @ join_str '', '' (sort remaining)))
        else bind_r (order_nodes label nodes dependencies (filter (\<lambda>n. n \<notin> set ready) remaining)) (\<lambda>rest. Inr (ready @ rest)))"
  by pat_completeness auto

termination
  by (relation "measure (\<lambda>(label, nodes, dependencies, remaining). length remaining)") (auto simp: fewer_remaining)

declare order_nodes.simps [simp del]

subsection \<open>Output boundaries\<close>

definition position :: "string \<Rightarrow> string list \<Rightarrow> nat" where
  "position x xs = length (takeWhile ((\<noteq>) x) xs)"

definition truthy :: "schema \<Rightarrow> bool" where
  "truthy s \<longleftrightarrow> s \<noteq> any_schema \<and> s \<noteq> SFalse"

text \<open>\<open>output_write_rank\<close>\<close>

definition output_write_rank ::
    "wiring \<Rightarrow> string list \<Rightarrow> string \<times> boundary \<Rightarrow> (string list \<times> string \<times> int \<times> string \<times> string \<times> string) res" where
  "output_write_rank w order = (\<lambda>(bid, b).
     let owner = (case map_of (producers w) (b_wire b) of None \<Rightarrow> ([], []) | Some o' \<Rightarrow> o') in
     bind_r (canonical_data_key_order (b_key b) []) (\<lambda>(segments, identity).
     Inr (segments, identity, (if fst owner \<in> set order then int (position (fst owner) order) else - 1),
       fst owner, snd owner, bid)))"

definition ordered_outputs :: "wiring \<Rightarrow> string list \<Rightarrow> (string \<times> boundary) list \<Rightarrow> (string \<times> boundary) list res" where
  "ordered_outputs w order outs =
     bind_r (map_r (\<lambda>o'. bind_r (output_write_rank w order o') (\<lambda>rank. Inr (rank, o'))) outs) (\<lambda>ranked.
     Inr (map snd (sort_key fst ranked)))"

record output_state =
  os_edges :: "edge list"
  os_reducer :: reducer
  os_required :: "string list"
  os_consumed :: "string list"

definition write_output :: "nat \<Rightarrow> string \<Rightarrow> wiring \<Rightarrow> string \<times> boundary \<Rightarrow> output_state \<Rightarrow> output_state res" where
  "write_output limit label w = (\<lambda>(bid, b) st.
     case map_of (producers w) (b_wire b) of
       None \<Rightarrow> Inl (ValueError (label @ '' Data Output '' @ quoted bid @ '' references unknown wire '' @ quoted (b_wire b) @ ''.''))
     | Some owner \<Rightarrow>
         bind_r (of_wire (producer_schemas w) (b_wire b)) (\<lambda>s.
         bind_r (of_wire (producer_presence w) (b_wire b)) (\<lambda>present.
         bind_r (if truthy s
           then (case apply_write limit (b_key b, schema_to_py s, present) (os_reducer st) of
               (Inl e, _) \<Rightarrow> Inl e | (Inr _, r) \<Rightarrow> Inr r)
           else Inr (os_reducer st)) (\<lambda>r.
         let edge_schema = (if truthy s then s else SFalse) in
         Inr \<lparr>os_edges = os_edges st @ [edge_of (b_wire b) owner edge_schema bid ''value'' edge_schema],
           os_reducer = r,
           os_required = (if present then os_required st @ [bid] else os_required st),
           os_consumed = (if b_wire b \<in> set (keys_of (unknown_wires w)) then b_wire b # os_consumed st
             else os_consumed st)\<rparr>))))"

subsection \<open>The plan\<close>

text \<open>\<open>edge_rank\<close>: node inputs in node order and port order, then output boundaries\<close>

definition edge_rank ::
    "string list \<Rightarrow> (string \<times> instance_binding) list \<Rightarrow> (string \<times> boundary) list \<Rightarrow> edge \<Rightarrow>
     nat \<times> nat \<times> nat \<times> string \<times> string \<times> string" where
  "edge_rank order all_bindings outs e =
     (let target = ep_node (e_to e); rest = (e_wire e, ep_node (e_from e), ep_port (e_from e)) in
      if target \<in> set order
      then (0, position target order,
        position (ep_port (e_to e)) (sort (case map_of all_bindings target of None \<Rightarrow> [] | Some b \<Rightarrow> keys_of (i_inputs b))), rest)
      else (1, position target (keys_of outs), 0, rest))"

definition unused_source :: "string \<Rightarrow> wiring \<Rightarrow> string list \<Rightarrow> unit res" where
  "unused_source label w consumed =
     (case sorted_set (filter (\<lambda>wire. wire \<notin> set consumed) (keys_of (unknown_wires w))) of
        [] \<Rightarrow> Inr ()
      | wire # _ \<Rightarrow>
          (case map_of (unknown_wires w) wire of
             None \<Rightarrow> Inl (KeyError wire)
           | Some (bid, key) \<Rightarrow>
               Inl (ValueError (label @ '' Data Input '' @ quoted bid @ '' references unused unknown DataKey '' @ quoted key @ ''.''))))"

text \<open>The roots of the contracts a plan reads, with those of them that are guaranteed\<close>

definition consumed_state :: "nat \<Rightarrow> contracts \<Rightarrow> string list \<Rightarrow> source_state res" where
  "consumed_state limit consumed present =
     bind_r (expand_contracts_uncached limit (map (\<lambda>(n, s). (n, schema_to_py s)) consumed)) (\<lambda>contracts.
     bind_r (expanded_contract_root_paths contracts) (\<lambda>roots.
     Inr (contracts, sorted_set (filter (\<lambda>r. r \<in> set roots) present))))"

text \<open>What compiling leaves: the plan, the ports of its nodes, the authorities, and the state of the wires
  from which the plan was made\<close>

record 'a compilation =
  c_plan :: compiled_graph
  c_ports :: "(string \<times> ports) list"
  c_verified :: "(string \<times> 'a) list"
  c_wiring :: wiring
  c_dependencies :: "(string \<times> string) list"

definition assemble_plan ::
    "nat \<Rightarrow> string \<Rightarrow> source_state \<Rightarrow> (string \<times> source_state) list \<Rightarrow> (string \<times> boundary) list \<Rightarrow> (string \<times> boundary) list \<Rightarrow>
     'a node_state \<Rightarrow> edge_state \<Rightarrow> string list \<Rightarrow> 'a compilation res" where
  "assemble_plan limit label initial sources ins outputs ns es order =
     (let w = ns_wiring ns in
      bind_r (ordered_outputs w order outputs) (\<lambda>outs.
      bind_r (init_reducer [] {}) (\<lambda>empty_reducer.
      bind_r (fold_r (write_output limit label w) outs
        \<lparr>os_edges = es_edges es, os_reducer = empty_reducer, os_required = [], os_consumed = es_consumed es\<rparr>) (\<lambda>os.
      bind_r (unused_source label w (os_consumed os)) (\<lambda>_.
      bind_r (materialize limit (os_reducer os)) (\<lambda>(out_contracts, out_roots).
      let sorted_edges = sort_key (edge_rank order (ns_bindings ns) outs) (os_edges os) in
      bind_r (consumed_state limit (consumed_initial w) (snd initial)) (\<lambda>(in_contracts, in_roots).
      bind_r (map_r (\<lambda>(src, consumed).
          bind_r (state_of initial sources (Some src)) (\<lambda>(contracts, present).
          bind_r (consumed_state limit consumed present) (\<lambda>st. Inr (src, st)))) (consumed_sources w)) (\<lambda>in_sources.
      Inr \<lparr>c_plan = \<lparr>topology = order, cg_inputs = ins, cg_outputs = outs, bindings = ns_bindings ns, edges = sorted_edges,
            input_contracts = in_contracts, input_required_roots = in_roots, output_contracts = out_contracts,
            required_outputs = filter (\<lambda>bid. bid \<in> set (keys_of outs) \<and> bid \<in> set (os_required os))
              (map (\<lambda>e. ep_node (e_to e)) sorted_edges),
            input_sources = in_sources\<rparr>,
          c_ports = ns_ports ns, c_verified = ns_verified ns, c_wiring = w, c_dependencies = es_dependencies es\<rparr>))))))))"

record 'a graph_request =
  rq_graph :: pyval
  rq_instances :: pyval
  rq_definitions :: pyval
  rq_authorities :: "(string \<times> 'a) list"
  rq_contracts :: "(string \<times> pyval) list"
  rq_kinds :: "string list option"
  rq_label :: string
  rq_strict :: bool
  rq_required :: "string list option"
  rq_source_contracts :: "(string \<times> (string \<times> pyval) list) list"
  rq_source_required :: "(string \<times> string list) list"

definition empty_wiring :: "(string \<times> source_state) list \<Rightarrow> wiring" where
  "empty_wiring sources =
     \<lparr>producers = [], producer_schemas = [], producer_presence = [], unknown_wires = [], consumed_initial = [],
      consumed_sources = map (\<lambda>(src, st). (src, [])) sources\<rparr>"

definition compile_module_graph_with_authorities :: "'a services \<Rightarrow> nat \<Rightarrow> 'a graph_request \<Rightarrow> 'a compilation res" where
  "compile_module_graph_with_authorities svc limit rq =
     (let label = rq_label rq;
          unknown = sorted_set (filter (\<lambda>src. src \<notin> set (keys_of (rq_source_contracts rq))) (keys_of (rq_source_required rq))) in
      bind_r (guard_r (unknown = [])
        (ValueError (label @ '' required roots reference unknown input source(s): '' @ join_str '', '' unknown))) (\<lambda>_.
      bind_r (normalize_graph label (keys_of (rq_source_contracts rq)) (rq_graph rq)) (\<lambda>g.
      bind_r (case rq_instances rq of PDict d \<Rightarrow> Inr d | _ \<Rightarrow> Inl (ValueError (label @ '' instances must be an object.''))) (\<lambda>instances.
      bind_r (source_state_of limit label (rq_contracts rq) (rq_required rq)) (\<lambda>initial.
      bind_r (graph_sources limit label (rq_source_contracts rq) (rq_source_required rq) g) (\<lambda>sources.
      bind_r (check_nodes label g instances) (\<lambda>_.
      bind_r (ordered_boundaries (g_inputs g)) (\<lambda>ins.
      bind_r (fold_r (bind_boundary label initial sources) ins (empty_wiring sources)) (\<lambda>w.
      bind_r (fold_r (compile_node svc (rq_definitions rq) (rq_kinds rq) label instances) (g_nodes g)
        \<lparr>ns_verified = rq_authorities rq, ns_wiring = w, ns_ports = [], ns_bindings = []\<rparr>) (\<lambda>ns.
      bind_r (fold_r (connect_node label (rq_strict rq) (ns_wiring ns) (g_nodes g) (ns_ports ns) (ns_bindings ns)) (g_nodes g)
        \<lparr>es_edges = [], es_dependencies = [], es_consumed = []\<rparr>) (\<lambda>es.
      bind_r (order_nodes label (g_nodes g) (es_dependencies es) (g_nodes g)) (\<lambda>order.
      assemble_plan limit label initial sources ins (g_outputs g) ns es order))))))))))))"

text \<open>The public compilers: raw Definitions, or Definitions verified before\<close>

definition compile_module_graph :: "'a services \<Rightarrow> nat \<Rightarrow> 'a graph_request \<Rightarrow> compiled_graph res" where
  "compile_module_graph svc limit rq =
     bind_r (compile_module_graph_with_authorities svc limit (rq\<lparr>rq_authorities := []\<rparr>)) (\<lambda>c. Inr (c_plan c))"

definition authority_material :: "'a services \<Rightarrow> (string \<times> 'a) list \<Rightarrow> pyval" where
  "authority_material svc authorities = PDict (map (\<lambda>(key, a). (KStr key, definition_material svc a)) authorities)"

definition compile_verified_module_graph :: "'a services \<Rightarrow> nat \<Rightarrow> 'a graph_request \<Rightarrow> compiled_graph res" where
  "compile_verified_module_graph svc limit rq =
     bind_r (compile_module_graph_with_authorities svc limit
       (rq\<lparr>rq_definitions := authority_material svc (rq_authorities rq)\<rparr>)) (\<lambda>c. Inr (c_plan c))"

end
