(* ===== verification/Graph_Order.thy ===== *)
theory Graph_Order
  imports Graph_Compiler "HOL-Library.Multiset"
begin

section \<open>The order of nodes\<close>

text \<open>
  The compiler's loop over ready nodes computes a topological order, or there is a cycle; which is decided by
  the dependencies restricted to the nodes.
\<close>

definition waits_for :: "(string \<times> string) list \<Rightarrow> string set \<Rightarrow> (string \<times> string) set" where
  "waits_for dependencies nodes = set dependencies \<inter> nodes \<times> nodes"

definition in_order :: "string list \<Rightarrow> (string \<times> string) set \<Rightarrow> bool" where
  "in_order order R \<longleftrightarrow> (\<forall>(n, d) \<in> R. position d order < position n order)"

lemma position_append: "position x (xs @ ys) = (if x \<in> set xs then position x xs else length xs + position x ys)"
  by (induction xs) (auto simp: position_def)

lemma position_less: "x \<in> set xs \<Longrightarrow> position x xs < length xs"
  by (induction xs) (auto simp: position_def)

lemma position_nth: "x \<in> set xs \<Longrightarrow> xs ! position x xs = x"
  by (induction xs) (auto simp: position_def)

lemma ready_nodes_set:
  "set remaining \<subseteq> set nodes \<Longrightarrow>
   set (ready_nodes nodes dependencies remaining) =
     {n \<in> set remaining. \<forall>d. (n, d) \<in> set dependencies \<longrightarrow> d \<notin> set remaining}"
  by (auto simp: ready_nodes_def list_ex_iff)

lemma order_nodes_sound:
  assumes "distinct nodes"
  shows "order_nodes label nodes dependencies remaining = Inr order \<Longrightarrow> set remaining \<subseteq> set nodes \<Longrightarrow>
    distinct order \<and> set order = set remaining \<and> in_order order (waits_for dependencies (set remaining))"
proof (induction remaining arbitrary: order rule: measure_induct_rule[of length])
  case (less remaining)
  show ?case
  proof (cases "remaining = []")
    case True
    then show ?thesis using less.prems by (simp add: order_nodes.simps[of _ _ _ "[]"] in_order_def waits_for_def)
  next
    case False
    let ?ready = "ready_nodes nodes dependencies remaining"
    let ?rest = "filter (\<lambda>n. n \<notin> set ?ready) remaining"
    from less.prems(1) False obtain order' where r: "?ready \<noteq> []" "order_nodes label nodes dependencies ?rest = Inr order'"
      "order = ?ready @ order'"
      by (subst (asm) order_nodes.simps) (auto simp: Let_def bind_r_Inr_iff split: if_splits)
    note ready = ready_nodes_set[OF less.prems(2), of dependencies]
    have "set ?rest \<subseteq> set nodes" using less.prems(2) by auto
    from less.IH[OF fewer_remaining[OF r(1)] r(2) this]
    have ih: "distinct order'" "set order' = set ?rest" "in_order order' (waits_for dependencies (set ?rest))" by blast+
    have "set order = set remaining" using ih(2) ready by (auto simp: r(3))
    moreover have "distinct order" using ih(1,2) assms by (auto simp: r(3) ready_nodes_def)
    moreover have "position d order < position n order" if "(n, d) \<in> waits_for dependencies (set remaining)" for n d
    proof -
      from that have nd: "(n, d) \<in> set dependencies" "n \<in> set remaining" "d \<in> set remaining" by (auto simp: waits_for_def)
      then have n: "n \<notin> set ?ready" using ready by blast
      show ?thesis
      proof (cases "d \<in> set ?ready")
        case True
        then show ?thesis using n position_less[OF True] by (simp add: r(3) position_append)
      next
        case False
        then have "(n, d) \<in> waits_for dependencies (set ?rest)" using nd n by (simp add: waits_for_def)
        then have "position d order' < position n order'" using ih(3) by (auto simp: in_order_def)
        then show ?thesis using n False by (simp add: r(3) position_append)
      qed
    qed
    ultimately show ?thesis by (auto simp: in_order_def)
  qed
qed

text \<open>A finite relation without cycles lets some node be ready.\<close>

lemma ready_exists:
  assumes "acyclic (waits_for dependencies (set remaining))" "remaining \<noteq> []" "set remaining \<subseteq> set nodes"
  shows "ready_nodes nodes dependencies remaining \<noteq> []"
proof -
  let ?R = "waits_for dependencies (set remaining)"
  have "wf (?R\<inverse>)" using assms(1) by (intro finite_acyclic_wf_converse) (simp_all add: waits_for_def)
  moreover have "hd remaining \<in> set remaining" using assms(2) by simp
  ultimately obtain n where n: "n \<in> set remaining" "\<And>d. (d, n) \<in> ?R\<inverse> \<Longrightarrow> d \<notin> set remaining"
    using wfE_min[of "?R\<inverse>" "hd remaining" "set remaining"] by metis
  have "d \<notin> set remaining" if "(n, d) \<in> set dependencies" for d
  proof
    assume "d \<in> set remaining"
    then have "(d, n) \<in> ?R\<inverse>" using that n(1) by (simp add: waits_for_def)
    from n(2)[OF this] \<open>d \<in> set remaining\<close> show False by simp
  qed
  with n(1) have "n \<in> set (ready_nodes nodes dependencies remaining)"
    unfolding ready_nodes_set[OF assms(3)] by blast
  then show ?thesis by force
qed

lemma order_nodes_complete:
  "acyclic (waits_for dependencies (set remaining)) \<Longrightarrow> set remaining \<subseteq> set nodes \<Longrightarrow>
   \<exists>order. order_nodes label nodes dependencies remaining = Inr order"
proof (induction remaining rule: measure_induct_rule[of length])
  case (less remaining)
  show ?case
  proof (cases "remaining = []")
    case False
    let ?ready = "ready_nodes nodes dependencies remaining"
    let ?rest = "filter (\<lambda>n. n \<notin> set ?ready) remaining"
    have r: "?ready \<noteq> []" by (rule ready_exists[OF less.prems(1) False less.prems(2)])
    have "acyclic (waits_for dependencies (set ?rest))"
      by (rule acyclic_subset[OF less.prems(1)]) (auto simp: waits_for_def)
    moreover have "set ?rest \<subseteq> set nodes" using less.prems(2) by auto
    ultimately obtain order where "order_nodes label nodes dependencies ?rest = Inr order"
      using less.IH[OF fewer_remaining[OF r]] by blast
    with r False show ?thesis by (subst order_nodes.simps) (simp add: Let_def)
  qed (simp add: order_nodes.simps[of _ _ _ "[]"])
qed

lemma in_order_acyclic:
  assumes "in_order order R" shows "acyclic R"
proof -
  have "R \<subseteq> (measure (\<lambda>n. position n order))\<inverse>" using assms by (auto simp: in_order_def)
  moreover have "acyclic ((measure (\<lambda>n. position n order))\<inverse>)" by (simp add: wf_acyclic)
  ultimately show ?thesis by (rule acyclic_subset[rotated])
qed



end
