(* ===== verification/Data_Boundary.thy ===== *)
theory Data_Boundary
  imports Contract_Paths
begin

section \<open>Data Dict boundaries\<close>

text \<open>
  \<open>engine/contracts/data.py\<close>: the validators, isolators and Data Dict proofs compiled once and run
  on every cycle. Each has a fast path over the ordinary contracts that answers only on
  success; a mismatch is repeated with the complete implementation, which owns order and text
  of the errors. A compiled closure is a HOL function. The isolators copy containers; on the values of the
  model, which are trees, their memo of containers already copied is never read.
\<close>

subsection \<open>Copies\<close>

fun isolate_json_value :: "pyval \<Rightarrow> pyval" where
  "isolate_json_value (PDict kvs) = PDict (dict_of (map (\<lambda>(k, c). (k, isolate_json_value c)) kvs))"
| "isolate_json_value (PList xs) = PList (map isolate_json_value xs)"
| "isolate_json_value v = v"

subsection \<open>The fast validator\<close>

fun fast_wildcard :: "pyval \<Rightarrow> bool" where
  "fast_wildcard (PFloat f) = float_isfinite f"
| "fast_wildcard (PDict kvs) = list_all (\<lambda>(k, c). is_str_key k \<and> fast_wildcard c) kvs"
| "fast_wildcard (PList xs) = list_all fast_wildcard xs"
| "fast_wildcard (PObj _) = False"
| "fast_wildcard _ = True"

definition const_ok :: "plan plan_fields \<Rightarrow> pyval \<Rightarrow> bool" where
  "const_ok p v \<longleftrightarrow> (case p_const p of None \<Rightarrow> True | Some c \<Rightarrow> json_values_equal v c)"

text \<open>The check of a member; \<open>additional\<close> is \<open>None\<close> for a closed object.\<close>

definition pick_child :: "(string \<times> 'a) list \<Rightarrow> 'a option \<Rightarrow> string \<Rightarrow> 'a option" where
  "pick_child properties additional name =
     (case map_of properties name of Some f \<Rightarrow> Some f | None \<Rightarrow> additional)"

definition fast_object :: "plan plan_fields \<Rightarrow> (string \<times> (pyval \<Rightarrow> bool)) list \<Rightarrow> (pyval \<Rightarrow> bool) option \<Rightarrow> pyval \<Rightarrow> bool" where
  "fast_object p properties additional v =
     (case v of
        PNone \<Rightarrow> JNull \<in> set (p_types p) \<and> const_ok p v
      | PDict kvs \<Rightarrow>
          const_ok p v \<and> list_all (\<lambda>name. KStr name \<in> set (keys_of kvs)) (p_required p) \<and>
          list_all (\<lambda>(k, child). case k of KOther _ \<Rightarrow> False
            | KStr name \<Rightarrow> (case pick_child properties additional name of None \<Rightarrow> False | Some f \<Rightarrow> f child)) kvs
      | _ \<Rightarrow> False)"

definition fast_array :: "plan plan_fields \<Rightarrow> (pyval \<Rightarrow> bool) \<Rightarrow> pyval \<Rightarrow> bool" where
  "fast_array p item_validator v =
     (case v of
        PNone \<Rightarrow> JNull \<in> set (p_types p) \<and> const_ok p v
      | PList xs \<Rightarrow> const_ok p v \<and> list_all item_validator xs
      | _ \<Rightarrow> False)"

definition scalar_accepted :: "jtype list \<Rightarrow> pyval \<Rightarrow> bool" where
  "scalar_accepted types v =
     (case v of
        PNone \<Rightarrow> JNull \<in> set types
      | PBool _ \<Rightarrow> JBoolean \<in> set types
      | PInt _ \<Rightarrow> JInteger \<in> set types \<or> JNumber \<in> set types
      | PFloat f \<Rightarrow> JNumber \<in> set types \<and> float_isfinite f
      | PStr _ \<Rightarrow> JString \<in> set types
      | _ \<Rightarrow> False)"

definition fast_scalar :: "plan plan_fields \<Rightarrow> pyval \<Rightarrow> bool" where
  "fast_scalar p v \<longleftrightarrow> scalar_accepted (p_types p) v \<and> const_ok p v"

text \<open>Composition and literal lists stay with the complete implementation.\<close>

definition composed :: "plan plan_fields \<Rightarrow> bool" where
  "composed p \<longleftrightarrow> p_all p \<noteq> [] \<or> p_any p \<noteq> [] \<or> p_one p \<noteq> [] \<or> p_enum p \<noteq> None"

definition only_container :: "jtype \<Rightarrow> jtype list \<Rightarrow> bool" where
  "only_container t types \<longleftrightarrow> t \<in> set types \<and> set types \<subseteq> {t, JNull}"

text \<open>Both fast compilers, over the closures they build for each kind of plan\<close>

definition compile_members :: "(plan \<Rightarrow> 'f option) \<Rightarrow> (string \<times> plan) list \<Rightarrow> (string \<times> 'f) list option" where
  "compile_members compile ps = those (map (\<lambda>(n, c). map_option (Pair n) (compile c)) ps)"

lemma compile_members_cong [fundef_cong]:
  "ps = ps' \<Longrightarrow> (\<And>n c. (n, c) \<in> set ps' \<Longrightarrow> f c = g c) \<Longrightarrow> compile_members f ps = compile_members g ps'"
  unfolding compile_members_def by (metis (mono_tags, lifting) case_prod_beta' map_eq_conv prod.collapse)

function (sequential) compile_fast_normalized_json_validator :: "plan \<Rightarrow> (pyval \<Rightarrow> bool) option" where
  "compile_fast_normalized_json_validator PlanFalse = Some (\<lambda>_. False)"
| "compile_fast_normalized_json_validator (PlanWildcard trusted) = (if trusted then None else Some fast_wildcard)"
| "compile_fast_normalized_json_validator (PlanSchema p) =
     (if composed p then None
      else if only_container JObject (p_types p)
      then (case compile_members compile_fast_normalized_json_validator (p_props p) of
          None \<Rightarrow> None
        | Some properties \<Rightarrow>
            (case p_additional p of
               None \<Rightarrow> Some (fast_object p properties None)
             | Some c \<Rightarrow> map_option (\<lambda>f. fast_object p properties (Some f)) (compile_fast_normalized_json_validator c)))
      else if only_container JArray (p_types p)
      then map_option (fast_array p) (compile_fast_normalized_json_validator (p_items p))
      else if JObject \<in> set (p_types p) \<or> JArray \<in> set (p_types p) then None
      else Some (fast_scalar p))"
  by pat_completeness auto
termination
  by (relation "measure size") (auto simp del: plan.size intro: size_laws)

definition compile_normalized_json_validator :: "bool \<Rightarrow> string \<Rightarrow> schema \<Rightarrow> pyval \<Rightarrow> unit res" where
  "compile_normalized_json_validator trusted path schema =
     (let plan = compile_validation_plan trusted schema;
          fast = (if trusted then None else compile_fast_normalized_json_validator plan) in
      (\<lambda>v. if (case fast of None \<Rightarrow> False | Some f \<Rightarrow> f v) then Inr ()
        else case compiled_validation_failure v plan of
          None \<Rightarrow> Inr ()
        | Some f \<Rightarrow> Inl (raise_compiled_validation_failure f path)))"

subsection \<open>Isolation\<close>

text \<open>The complete isolator: a failure, or the copy.\<close>

type_synonym isolation = "failure + pyval"

definition fail_under :: "path_seg \<Rightarrow> isolation \<Rightarrow> isolation" where
  "fail_under seg r = (case r of Inl (segs, kind) \<Rightarrow> Inl (seg # segs, kind) | Inr v \<Rightarrow> Inr v)"

lemma fail_under_cong [fundef_cong]: "s = s' \<Longrightarrow> r = r' \<Longrightarrow> fail_under s r = fail_under s' r'"
  by simp

fun isolate_all :: "('a \<Rightarrow> failure + 'b) \<Rightarrow> 'a list \<Rightarrow> failure + 'b list" where
  "isolate_all f [] = Inr []"
| "isolate_all f (x # xs) =
     (case f x of Inl e \<Rightarrow> Inl e
      | Inr y \<Rightarrow> (case isolate_all f xs of Inl e \<Rightarrow> Inl e | Inr ys \<Rightarrow> Inr (y # ys)))"

lemma isolate_all_cong [fundef_cong]:
  "xs = ys \<Longrightarrow> (\<And>x. x \<in> set ys \<Longrightarrow> f x = g x) \<Longrightarrow> isolate_all f xs = isolate_all g ys"
  by (induction ys arbitrary: xs) (auto split: sum.splits)

text \<open>The copies of the members become a new \<open>dict\<close>, those of the items a new \<open>list\<close>.\<close>

definition isolated_dict :: "(string \<Rightarrow> pyval \<Rightarrow> isolation) \<Rightarrow> (pykey \<times> pyval) list \<Rightarrow> isolation" where
  "isolated_dict f kvs =
     (case isolate_all (\<lambda>(k, child). case k of
          KOther _ \<Rightarrow> Inl ([], NonStringKey)
        | KStr name \<Rightarrow> (case f name child of Inl e \<Rightarrow> Inl e | Inr w \<Rightarrow> Inr (k, w))) kvs of
        Inl e \<Rightarrow> Inl e | Inr items \<Rightarrow> Inr (PDict (dict_of items)))"

definition isolated_list :: "(pyval \<Rightarrow> isolation) \<Rightarrow> pyval list \<Rightarrow> isolation" where
  "isolated_list f xs =
     (case isolate_all (\<lambda>(i, child). fail_under (PIndex i) (f child)) (enumerate 0 xs) of
        Inl e \<Rightarrow> Inl e | Inr items \<Rightarrow> Inr (PList items))"

lemma isolated_dict_cong [fundef_cong]:
  assumes "kvs = kvs'" "\<And>k n c. (k, c) \<in> set kvs' \<Longrightarrow> f n c = g n c"
  shows "isolated_dict f kvs = isolated_dict g kvs'"
proof -
  have "isolate_all (\<lambda>(k, child). case k of KOther _ \<Rightarrow> Inl ([], NonStringKey)
        | KStr name \<Rightarrow> (case f name child of Inl e \<Rightarrow> Inl e | Inr w \<Rightarrow> Inr (k, w))) kvs =
      isolate_all (\<lambda>(k, child). case k of KOther _ \<Rightarrow> Inl ([], NonStringKey)
        | KStr name \<Rightarrow> (case g name child of Inl e \<Rightarrow> Inl e | Inr w \<Rightarrow> Inr (k, w))) kvs'"
    by (intro isolate_all_cong) (use assms in \<open>auto split: pykey.splits\<close>)
  then show ?thesis by (simp add: isolated_dict_def)
qed

lemma isolated_list_cong [fundef_cong]:
  "xs = ys \<Longrightarrow> (\<And>x. x \<in> set ys \<Longrightarrow> f x = g x) \<Longrightarrow> isolated_list f xs = isolated_list g ys"
  unfolding isolated_list_def by (intro arg_cong[where f = "case_sum _ _"] isolate_all_cong) (auto dest: enumerate_mem)

function (sequential) compiled_isolation_failure :: "pyval \<Rightarrow> plan \<Rightarrow> isolation" where
  "compiled_isolation_failure v PlanFalse = Inl ([], Forbidden)"
| "compiled_isolation_failure v (PlanWildcard trusted) =
     (if trusted then Inr (isolate_json_value v)
      else if json_type v = None \<or> non_json v then Inl ([], NonJson)
      else case v of
        PDict kvs \<Rightarrow> isolated_dict (\<lambda>name child. fail_under (PName name)
          (compiled_isolation_failure child (PlanWildcard trusted))) kvs
      | PList xs \<Rightarrow> isolated_list (\<lambda>child. compiled_isolation_failure child (PlanWildcard trusted)) xs
      | _ \<Rightarrow> Inr v)"
| "compiled_isolation_failure v (PlanSchema p) =
     (case json_type v of None \<Rightarrow> Inl ([], NonJson) | Some actual \<Rightarrow>
      if non_json v then Inl ([], NonJson)
      else case
        or_else (first_some (compiled_validation_failure v) (p_all p))
       (or_else (fail_if (p_any p \<noteq> [] \<and>
            \<not> list_ex (\<lambda>b. compiled_validation_failure v b = None) (p_any p)) (Combination ''anyOf''))
       (or_else (fail_if (p_one p \<noteq> [] \<and>
            length (filter (\<lambda>b. compiled_validation_failure v b = None) (p_one p)) \<noteq> 1) (Combination ''oneOf''))
       (or_else (fail_if (\<not> type_allowed actual (p_types p)) (TypeMismatch actual (p_label p)))
       (or_else (case p_const p of None \<Rightarrow> None
          | Some c \<Rightarrow> fail_if (\<not> json_values_equal v c) ConstMismatch)
        (case p_enum p of None \<Rightarrow> None
          | Some cs \<Rightarrow> fail_if (\<not> json_value_in v cs) EnumMismatch))))) of
        Some failure \<Rightarrow> Inl failure
      | None \<Rightarrow>
         (case v of
            PDict kvs \<Rightarrow>
              (case first_some (\<lambda>name. if KStr name \<in> set (keys_of kvs) then None
                  else Some ([PName name], RequiredMissing)) (p_required p) of
                 Some failure \<Rightarrow> Inl failure
               | None \<Rightarrow> isolated_dict (\<lambda>name child. fail_under (PName name)
                   (case map_of (p_props p) name of
                      Some child_plan \<Rightarrow> compiled_isolation_failure child child_plan
                    | None \<Rightarrow> (case p_additional p of
                        None \<Rightarrow> Inl ([], AdditionalField)
                      | Some child_plan \<Rightarrow> compiled_isolation_failure child child_plan))) kvs)
          | PList xs \<Rightarrow> isolated_list (\<lambda>child. compiled_isolation_failure child (p_items p)) xs
          | _ \<Rightarrow> Inr v))"
  by pat_completeness auto
termination
  by (relation "measures [\<lambda>(v, p). size v, \<lambda>(v, p). size p]")
    (auto simp del: pyval.size plan.size intro: size_laws)

declare compiled_isolation_failure.simps [simp del]
declare compile_fast_normalized_json_validator.simps [simp del]

text \<open>The fast isolator: the copy, or \<open>None\<close> for its failure sentinel.\<close>

definition copied_dict :: "(string \<Rightarrow> pyval \<Rightarrow> pyval option) \<Rightarrow> (pykey \<times> pyval) list \<Rightarrow> pyval option" where
  "copied_dict f kvs =
     map_option (\<lambda>items. PDict (dict_of items))
       (those (map (\<lambda>(k, child). case k of KOther _ \<Rightarrow> None | KStr name \<Rightarrow> map_option (Pair k) (f name child)) kvs))"

lemma copied_dict_cong [fundef_cong]:
  assumes "kvs = kvs'" "\<And>k n c. (k, c) \<in> set kvs' \<Longrightarrow> f n c = g n c"
  shows "copied_dict f kvs = copied_dict g kvs'"
proof -
  have "map (\<lambda>(k, child). case k of KOther _ \<Rightarrow> None | KStr name \<Rightarrow> map_option (Pair k) (f name child)) kvs =
      map (\<lambda>(k, child). case k of KOther _ \<Rightarrow> None | KStr name \<Rightarrow> map_option (Pair k) (g name child)) kvs'"
    by (rule map_cong) (use assms in \<open>auto split: pykey.splits\<close>)
  then show ?thesis by (simp add: copied_dict_def)
qed

function (sequential) isolate_wildcard :: "pyval \<Rightarrow> pyval option" where
  "isolate_wildcard (PFloat f) = (if float_isfinite f then Some (PFloat f) else None)"
| "isolate_wildcard (PDict kvs) = copied_dict (\<lambda>name child. isolate_wildcard child) kvs"
| "isolate_wildcard (PList xs) = map_option PList (those (map isolate_wildcard xs))"
| "isolate_wildcard (PObj _) = None"
| "isolate_wildcard v = Some v"
  by pat_completeness auto
termination
  by (relation "measure size") (auto simp del: pyval.size intro: size_laws)

definition isolate_object ::
    "plan plan_fields \<Rightarrow> (string \<times> (pyval \<Rightarrow> pyval option)) list \<Rightarrow> (pyval \<Rightarrow> pyval option) option \<Rightarrow> pyval \<Rightarrow> pyval option" where
  "isolate_object p properties additional v =
     (case v of
        PNone \<Rightarrow> if JNull \<in> set (p_types p) \<and> const_ok p v then Some v else None
      | PDict kvs \<Rightarrow>
          if const_ok p v \<and> list_all (\<lambda>name. KStr name \<in> set (keys_of kvs)) (p_required p)
          then copied_dict (\<lambda>name child. case pick_child properties additional name of None \<Rightarrow> None | Some f \<Rightarrow> f child) kvs
          else None
      | _ \<Rightarrow> None)"

definition isolate_array :: "plan plan_fields \<Rightarrow> (pyval \<Rightarrow> pyval option) \<Rightarrow> pyval \<Rightarrow> pyval option" where
  "isolate_array p item_isolator v =
     (case v of
        PNone \<Rightarrow> if JNull \<in> set (p_types p) \<and> const_ok p v then Some v else None
      | PList xs \<Rightarrow> if const_ok p v then map_option PList (those (map item_isolator xs)) else None
      | _ \<Rightarrow> None)"

definition isolate_scalar :: "plan plan_fields \<Rightarrow> pyval \<Rightarrow> pyval option" where
  "isolate_scalar p v = (if scalar_accepted (p_types p) v \<and> const_ok p v then Some v else None)"

function (sequential) compile_fast_normalized_json_isolator :: "plan \<Rightarrow> (pyval \<Rightarrow> pyval option) option" where
  "compile_fast_normalized_json_isolator PlanFalse = Some (\<lambda>_. None)"
| "compile_fast_normalized_json_isolator (PlanWildcard trusted) = (if trusted then None else Some isolate_wildcard)"
| "compile_fast_normalized_json_isolator (PlanSchema p) =
     (if composed p then None
      else if only_container JObject (p_types p)
      then (case compile_members compile_fast_normalized_json_isolator (p_props p) of
          None \<Rightarrow> None
        | Some properties \<Rightarrow>
            (case p_additional p of
               None \<Rightarrow> Some (isolate_object p properties None)
             | Some c \<Rightarrow> map_option (\<lambda>f. isolate_object p properties (Some f)) (compile_fast_normalized_json_isolator c)))
      else if only_container JArray (p_types p)
      then map_option (isolate_array p) (compile_fast_normalized_json_isolator (p_items p))
      else if JObject \<in> set (p_types p) \<or> JArray \<in> set (p_types p) then None
      else Some (isolate_scalar p))"
  by pat_completeness auto
termination
  by (relation "measure size") (auto simp del: plan.size intro: size_laws)

declare compile_fast_normalized_json_isolator.simps [simp del]

definition compile_normalized_json_isolator :: "bool \<Rightarrow> string \<Rightarrow> schema \<Rightarrow> pyval \<Rightarrow> pyval res" where
  "compile_normalized_json_isolator trusted path schema =
     (let plan = compile_validation_plan trusted schema;
          fast = (if trusted then None else compile_fast_normalized_json_isolator plan) in
      (\<lambda>v. case (case fast of None \<Rightarrow> None | Some f \<Rightarrow> f v) of
          Some w \<Rightarrow> Inr w
        | None \<Rightarrow> (case compiled_isolation_failure v plan of
              Inl f \<Rightarrow> Inl (raise_compiled_validation_failure f path)
            | Inr w \<Rightarrow> Inr w)))"

subsection \<open>The fast validator accepts nothing else\<close>

lemma those_map_Some: "those (map f xs) = Some ys \<longleftrightarrow> list_all2 (\<lambda>x y. f x = Some y) xs ys"
  by (induction xs arbitrary: ys) (auto simp: list_all2_Cons1 split: option.splits)

lemma compile_members_lookup:
  assumes "compile_members compile ps = Some fs"
  shows "(map_of ps n = None \<and> map_of fs n = None) \<or>
    (\<exists>c f. map_of ps n = Some c \<and> (n, c) \<in> set ps \<and> map_of fs n = Some f \<and> compile c = Some f)"
proof -
  have "list_all2 (\<lambda>(m, c) (m', f). m' = m \<and> compile c = Some f) ps fs"
    using assms unfolding compile_members_def those_map_Some
    by (rule list_all2_mono) (auto split: option.splits)
  then show ?thesis
    by (induction ps fs rule: list_all2_induct) auto
qed

lemma fast_wildcard_sound: "fast_wildcard v \<Longrightarrow> compiled_validation_failure v (PlanWildcard False) = None"
proof (induction v rule: measure_induct_rule[of size])
  case (less v)
  have sub: "compiled_validation_failure c (PlanWildcard False) = None" if "fast_wildcard c" "size c < size v" for c
    using less.IH that by blast
  show ?case
  proof (cases v)
    case (PList xs)
    have "compiled_validation_failure c (PlanWildcard False) = None" if "c \<in> set xs" for c
      using sub[of c] less.prems that size_list_item[OF that] by (auto simp: PList list_all_iff simp del: pyval.size)
    then show ?thesis
      by (auto simp: PList compiled_validation_failure.simps first_some_None_iff non_json_def dest: enumerate_mem)
  next
    case (PDict kvs)
    have "is_str_key k \<and> compiled_validation_failure c (PlanWildcard False) = None" if "(k, c) \<in> set kvs" for k c
      using sub[of c] less.prems that size_dict_item[OF that] by (auto simp: PDict list_all_iff simp del: pyval.size)
    then show ?thesis
      by (fastforce simp: PDict compiled_validation_failure.simps first_some_None_iff non_json_def split: pykey.split)
  qed (use less.prems in \<open>simp_all add: compiled_validation_failure.simps non_json_def\<close>)
qed

lemma const_ok_check: "const_ok p v \<Longrightarrow>
    (case p_const p of None \<Rightarrow> None | Some c \<Rightarrow> fail_if (\<not> json_values_equal v c) ConstMismatch) = None"
  by (simp add: const_ok_def split: option.splits)

lemma fast_plan_failure:
  assumes "\<not> composed p" "json_type v = Some actual" "\<not> non_json v" "type_allowed actual (p_types p)" "const_ok p v"
  shows "compiled_validation_failure v (PlanSchema p) = (case v of
      PDict kvs \<Rightarrow>
        or_else (first_some (\<lambda>name. if KStr name \<in> set (keys_of kvs) then None
            else Some ([PName name], RequiredMissing)) (p_required p))
          (first_some (\<lambda>(k, child). case k of
             KOther _ \<Rightarrow> Some ([], NonStringKey)
           | KStr name \<Rightarrow> under (PName name)
               (case map_of (p_props p) name of
                  Some child_plan \<Rightarrow> compiled_validation_failure child child_plan
                | None \<Rightarrow> (case p_additional p of
                    None \<Rightarrow> Some ([], AdditionalField)
                  | Some child_plan \<Rightarrow> compiled_validation_failure child child_plan))) kvs)
    | PList xs \<Rightarrow> first_some (\<lambda>(i, child).
        under (PIndex i) (compiled_validation_failure child (p_items p))) (enumerate 0 xs)
    | _ \<Rightarrow> None)"
  using assms const_ok_check[OF assms(5)]
  by (simp add: composed_def compiled_validation_failure.simps(3) or_else_def[of None] fail_if_def[of False])

lemma only_container_types: "only_container t types \<Longrightarrow> type_allowed t types"
  by (simp add: only_container_def type_allowed_def)

lemma fast_object_sound:
  assumes c: "\<not> composed p" "only_container JObject (p_types p)" and v: "fast_object p fs addl v"
    and fs: "compile_members compile (p_props p) = Some fs"
      "(p_additional p = None \<and> addl = None) \<or> (\<exists>c f. p_additional p = Some c \<and> addl = Some f \<and> compile c = Some f)"
    and sound: "\<And>c f x. compile c = Some f \<Longrightarrow> f x \<Longrightarrow> c \<in> set_plan_fields p \<Longrightarrow> compiled_validation_failure x c = None"
  shows "compiled_validation_failure v (PlanSchema p) = None"
proof (cases v)
  case PNone
  then have t: "type_allowed JNull (p_types p)" and k: "const_ok p v" using v by (simp_all add: fast_object_def type_allowed_def)
  show ?thesis unfolding PNone by (subst fast_plan_failure[OF c(1) _ _ t]) (use k in \<open>simp_all add: PNone non_json_def\<close>)
next
  case (PDict kvs)
  have req: "KStr name \<in> set (keys_of kvs)" if "name \<in> set (p_required p)" for name
    using v that by (auto simp: PDict fast_object_def list_all_iff)
  have k: "const_ok p v" using v by (auto simp: PDict fast_object_def)
  have mem: "\<exists>name. k = KStr name \<and> (case map_of (p_props p) name of
        Some child_plan \<Rightarrow> compiled_validation_failure child child_plan
      | None \<Rightarrow> (case p_additional p of None \<Rightarrow> Some ([], AdditionalField)
          | Some child_plan \<Rightarrow> compiled_validation_failure child child_plan)) = None" if m: "(k, child) \<in> set kvs" for k child
  proof -
    have "case k of KOther _ \<Rightarrow> False
        | KStr name \<Rightarrow> (case pick_child fs addl name of None \<Rightarrow> False | Some f \<Rightarrow> f child)"
      using v m unfolding PDict fast_object_def pyval.case list_all_iff by blast
    then obtain name f where n: "k = KStr name" "pick_child fs addl name = Some f" "f child"
      by (cases k) (auto split: option.splits)
    have "\<exists>c. (map_of (p_props p) name = Some c \<or> map_of (p_props p) name = None \<and> p_additional p = Some c) \<and>
        compile c = Some f \<and> c \<in> set_plan_fields p"
      using compile_members_lookup[OF fs(1), of name] fs(2) n(2) plan_members(4)[of name _ p] plan_members(5)[of p]
      by (auto simp: pick_child_def)
    then obtain c where c: "map_of (p_props p) name = Some c \<or> map_of (p_props p) name = None \<and> p_additional p = Some c"
      "compiled_validation_failure child c = None" using sound n(3) by blast
    from c(1) have "(case map_of (p_props p) name of
        Some child_plan \<Rightarrow> compiled_validation_failure child child_plan
      | None \<Rightarrow> (case p_additional p of None \<Rightarrow> Some ([], AdditionalField)
          | Some child_plan \<Rightarrow> compiled_validation_failure child child_plan)) = None"
      using c(2) by (elim disjE conjE) simp_all
    with n(1) show ?thesis by blast
  qed
  have members: "first_some (\<lambda>(k, child). case k of
             KOther _ \<Rightarrow> Some ([], NonStringKey)
           | KStr name \<Rightarrow> under (PName name)
               (case map_of (p_props p) name of
                  Some child_plan \<Rightarrow> compiled_validation_failure child child_plan
                | None \<Rightarrow> (case p_additional p of
                    None \<Rightarrow> Some ([], AdditionalField)
                  | Some child_plan \<Rightarrow> compiled_validation_failure child child_plan))) kvs = None"
    unfolding first_some_None_iff
  proof safe
    fix k child assume "(k, child) \<in> set kvs"
    from mem[OF this] show "(case k of
             KOther _ \<Rightarrow> Some ([], NonStringKey)
           | KStr name \<Rightarrow> under (PName name)
               (case map_of (p_props p) name of
                  Some child_plan \<Rightarrow> compiled_validation_failure child child_plan
                | None \<Rightarrow> (case p_additional p of
                    None \<Rightarrow> Some ([], AdditionalField)
                  | Some child_plan \<Rightarrow> compiled_validation_failure child child_plan))) = None"
      by (elim exE conjE) (simp only: pykey.case under_None_iff)
  qed
  have required: "first_some (\<lambda>name. if KStr name \<in> set (keys_of kvs) then None
            else Some ([PName name], RequiredMissing)) (p_required p) = None"
    unfolding first_some_None_iff using req by simp
  have "json_type v = Some JObject" "\<not> non_json v" by (simp_all add: PDict non_json_def)
  from fast_plan_failure[OF c(1) this only_container_types[OF c(2)] k] show ?thesis
    unfolding PDict pyval.case members required by (simp add: or_else_def)
qed (use v in \<open>simp_all add: fast_object_def\<close>)

lemma fast_array_sound:
  assumes c: "\<not> composed p" "only_container JArray (p_types p)" and v: "fast_array p f v"
    and sound: "\<And>x. f x \<Longrightarrow> compiled_validation_failure x (p_items p) = None"
  shows "compiled_validation_failure v (PlanSchema p) = None"
proof (cases v)
  case PNone
  then have t: "type_allowed JNull (p_types p)" and k: "const_ok p v" using v by (simp_all add: fast_array_def type_allowed_def)
  show ?thesis unfolding PNone by (subst fast_plan_failure[OF c(1) _ _ t]) (use k in \<open>simp_all add: PNone non_json_def\<close>)
next
  case (PList xs)
  then have k: "const_ok p v" and items: "\<forall>x \<in> set xs. f x" using v by (simp_all add: fast_array_def list_all_iff)
  show ?thesis unfolding PList
    by (subst fast_plan_failure[OF c(1) _ _ only_container_types[OF c(2)]])
      (use k items sound in \<open>auto simp: PList non_json_def first_some_None_iff dest: enumerate_mem\<close>)
qed (use v in \<open>simp_all add: fast_array_def\<close>)

lemma fast_scalar_sound:
  assumes "\<not> composed p" "fast_scalar p v"
  shows "compiled_validation_failure v (PlanSchema p) = None"
proof -
  have "\<exists>t. json_type v = Some t \<and> \<not> non_json v \<and> type_allowed t (p_types p)"
    using assms(2) by (cases v) (auto simp: fast_scalar_def scalar_accepted_def type_allowed_def non_json_def)
  then obtain t where t: "json_type v = Some t" "\<not> non_json v" "type_allowed t (p_types p)" by blast
  have "\<not> is_mapping v" "\<And>xs. v \<noteq> PList xs" using assms(2) by (cases v; simp add: fast_scalar_def scalar_accepted_def)+
  then show ?thesis
    by (subst fast_plan_failure[OF assms(1) t]) (use assms(2) in \<open>auto simp: fast_scalar_def split: pyval.split\<close>)
qed

lemma fast_validator_sound:
  "compile_fast_normalized_json_validator plan = Some f \<Longrightarrow> f v \<Longrightarrow> compiled_validation_failure v plan = None"
proof (induction plan arbitrary: f v rule: measure_induct_rule[of size])
  case (less plan)
  show ?case
  proof (cases plan)
    case PlanFalse
    then show ?thesis using less.prems by (auto simp: compile_fast_normalized_json_validator.simps)
  next
    case (PlanWildcard trusted)
    then show ?thesis using less.prems fast_wildcard_sound
      by (cases trusted) (simp_all add: compile_fast_normalized_json_validator.simps)
  next
    case (PlanSchema p)
    note f = less.prems(1)[unfolded PlanSchema compile_fast_normalized_json_validator.simps(3)]
    have sub: "compiled_validation_failure x c = None"
      if "compile_fast_normalized_json_validator c = Some g" "g x" "c \<in> set_plan_fields p" for c g x
      by (rule less.IH[OF _ that(1,2)]) (simp add: PlanSchema size_plan_mem[OF that(3)] del: plan.size)
    have nc: "\<not> composed p" using f by (auto split: if_splits)
    consider (object) "only_container JObject (p_types p)" | (array) "\<not> only_container JObject (p_types p)" "only_container JArray (p_types p)"
      | (scalar) "f = fast_scalar p"
      using f by (auto split: if_splits)
    then show ?thesis
    proof cases
      case object
      from f nc object obtain fs addl where "compile_members compile_fast_normalized_json_validator (p_props p) = Some fs"
        "f = fast_object p fs addl" "(p_additional p = None \<and> addl = None) \<or>
          (\<exists>c g. p_additional p = Some c \<and> addl = Some g \<and> compile_fast_normalized_json_validator c = Some g)"
        by (auto split: option.splits)
      note c = this
      show ?thesis unfolding PlanSchema
        by (rule fast_object_sound[OF nc object _ c(1,3)]) (use c(2) less.prems(2) sub in simp_all)
    next
      case array
      with f nc obtain g where "compile_fast_normalized_json_validator (p_items p) = Some g" "f = fast_array p g" by auto
      then show ?thesis
        unfolding PlanSchema using fast_array_sound[OF nc array(2)] sub[OF _ _ plan_members(6)] less.prems(2) by blast
    next
      case scalar
      then show ?thesis unfolding PlanSchema using fast_scalar_sound[OF nc] less.prems(2) by blast
    qed
  qed
qed

lemma validator_reported:
  "compile_normalized_json_validator trusted path s v = reported path (compiled_validation_failure v (compile_validation_plan trusted s))"
  by (auto simp: compile_normalized_json_validator_def reported_def Let_def fast_validator_sound split: option.splits)

subsection \<open>Isolation is validation that returns a copy\<close>

definition isolation_of :: "pyval \<Rightarrow> failure option \<Rightarrow> isolation" where
  "isolation_of v f = (case f of None \<Rightarrow> Inr v | Some e \<Rightarrow> Inl e)"

lemma isolate_all_same:
  "(\<And>x. x \<in> set xs \<Longrightarrow> f x = (case g x of None \<Rightarrow> Inr x | Some e \<Rightarrow> Inl e)) \<Longrightarrow>
   isolate_all f xs = (case first_some g xs of None \<Rightarrow> Inr xs | Some e \<Rightarrow> Inl e)"
  by (induction xs) (auto split: option.splits)

lemma isolated_dict_same:
  assumes "distinct (keys_of kvs)" and "\<And>k n c. (k, c) \<in> set kvs \<Longrightarrow> f n c = isolation_of c (g n c)"
  shows "isolated_dict f kvs = isolation_of (PDict kvs)
    (first_some (\<lambda>(k, c). case k of KOther _ \<Rightarrow> Some ([], NonStringKey) | KStr n \<Rightarrow> g n c) kvs)"
proof -
  have "isolate_all (\<lambda>(k, child). case k of KOther _ \<Rightarrow> Inl ([], NonStringKey)
      | KStr name \<Rightarrow> (case f name child of Inl e \<Rightarrow> Inl e | Inr w \<Rightarrow> Inr (k, w))) kvs =
    (case first_some (\<lambda>(k, c). case k of KOther _ \<Rightarrow> Some ([], NonStringKey) | KStr n \<Rightarrow> g n c) kvs of
       None \<Rightarrow> Inr kvs | Some e \<Rightarrow> Inl e)"
    by (rule isolate_all_same) (use assms(2) in \<open>auto simp: isolation_of_def split: pykey.split option.split\<close>)
  then show ?thesis by (simp add: isolated_dict_def isolation_of_def assms(1) split: option.split)
qed

lemma isolate_enumerated:
  "(\<And>x. x \<in> set xs \<Longrightarrow> f x = isolation_of x (g x)) \<Longrightarrow>
   isolate_all (\<lambda>(i, child). fail_under (PIndex i) (f child)) (enumerate n xs) =
     (case first_some (\<lambda>(i, child). under (PIndex i) (g child)) (enumerate n xs) of None \<Rightarrow> Inr xs | Some e \<Rightarrow> Inl e)"
  by (induction xs arbitrary: n) (auto simp: isolation_of_def fail_under_def under_def split: option.splits)

lemma isolated_list_same:
  assumes "\<And>x. x \<in> set xs \<Longrightarrow> f x = isolation_of x (g x)"
  shows "isolated_list f xs = isolation_of (PList xs) (first_some (\<lambda>(i, child). under (PIndex i) (g child)) (enumerate 0 xs))"
proof -
  have "isolate_all (\<lambda>(i, child). fail_under (PIndex i) (f child)) (enumerate 0 xs) =
     (case first_some (\<lambda>(i, child). under (PIndex i) (g child)) (enumerate 0 xs) of None \<Rightarrow> Inr xs | Some e \<Rightarrow> Inl e)"
    by (rule isolate_enumerated) (rule assms)
  then show ?thesis by (simp add: isolated_list_def isolation_of_def split: option.split)
qed

lemma isolate_json_value_same: "wf_val v \<Longrightarrow> isolate_json_value v = v"
proof (induction v rule: isolate_json_value.induct)
  case (1 kvs)
  have "map (\<lambda>(k, c). (k, isolate_json_value c)) kvs = kvs"
    by (rule map_idI) (use 1 wf_val_item in fastforce)
  then show ?case using 1(2) by simp
next
  case (2 xs)
  then show ?case by (simp add: list_all_iff map_idI)
qed simp_all

lemma fail_under_same: "fail_under seg (isolation_of v f) = isolation_of v (under seg f)"
  by (simp add: fail_under_def isolation_of_def under_def split: option.split)

lemma isolation_same: "wf_val v \<Longrightarrow> compiled_isolation_failure v plan = isolation_of v (compiled_validation_failure v plan)"
proof (induction v arbitrary: plan rule: measure_induct_rule[of size])
  case (less v)
  have member: "fail_under seg (compiled_isolation_failure c q) = isolation_of c (under seg (compiled_validation_failure c q))"
    if "wf_val c" "size c < size v" for seg c q
    using less.IH[OF that(2,1)] by (simp add: fail_under_same)
  have sub: "compiled_isolation_failure c q = isolation_of c (compiled_validation_failure c q)"
    if "wf_val c" "size c < size v" for c q
    using less.IH[OF that(2,1)] .
  have dict: "isolated_dict (\<lambda>name child. fail_under (PName name) (F name child)) kvs =
      isolation_of v (first_some (\<lambda>(k, c). case k of KOther _ \<Rightarrow> Some ([], NonStringKey) | KStr n \<Rightarrow> under (PName n) (G n c)) kvs)"
    if "v = PDict kvs" and F: "\<And>n c. wf_val c \<Longrightarrow> size c < size v \<Longrightarrow> F n c = isolation_of c (G n c)" for kvs F G
    unfolding that(1)
  proof (rule isolated_dict_same)
    show "distinct (keys_of kvs)" using less.prems that(1) by simp
    fix k n c assume m: "(k, c) \<in> set kvs"
    show "fail_under (PName n) (F n c) = isolation_of c (under (PName n) (G n c))"
      using F[of c n] wf_val_item[OF _ m] less.prems size_dict_item[OF m] that(1) by (simp add: fail_under_same del: pyval.size wf_val.simps)
  qed
  have list: "isolated_list (\<lambda>child. compiled_isolation_failure child q) xs =
      isolation_of v (first_some (\<lambda>(i, c). under (PIndex i) (compiled_validation_failure c q)) (enumerate 0 xs))" if "v = PList xs" for xs q
    unfolding that
    by (rule isolated_list_same, rule sub) (use less.prems that wf_val_elem size_list_item in \<open>auto simp del: pyval.size wf_val.simps\<close>)
  show ?case
  proof (cases plan)
    case PlanFalse
    then show ?thesis by (simp add: compiled_isolation_failure.simps compiled_validation_failure.simps isolation_of_def)
  next
    case (PlanWildcard trusted)
    show ?thesis
    proof (cases trusted)
      case True
      then show ?thesis using isolate_json_value_same[OF less.prems]
        by (simp add: PlanWildcard compiled_isolation_failure.simps(2) compiled_validation_failure.simps(2) isolation_of_def)
    next
      case False
      have nj: "json_type v = None \<Longrightarrow> non_json v" by (cases v) (simp_all add: non_json_def)
      show ?thesis
      proof (cases v)
        case (PDict kvs)
        have "isolated_dict (\<lambda>name child. fail_under (PName name) (compiled_isolation_failure child (PlanWildcard False))) kvs =
          isolation_of v (first_some (\<lambda>(k, c). case k of KOther _ \<Rightarrow> Some ([], NonStringKey)
            | KStr n \<Rightarrow> under (PName n) (compiled_validation_failure c (PlanWildcard False))) kvs)"
          by (rule dict[OF PDict sub])
        then show ?thesis using False
          by (simp add: PDict PlanWildcard compiled_isolation_failure.simps(2) compiled_validation_failure.simps(2) non_json_def)
      next
        case (PList xs)
        then show ?thesis using False list[OF PList, of "PlanWildcard False"]
          by (simp add: PlanWildcard compiled_isolation_failure.simps(2) compiled_validation_failure.simps(2) non_json_def)
      qed (use False nj in \<open>simp_all add: PlanWildcard compiled_isolation_failure.simps(2) compiled_validation_failure.simps(2) isolation_of_def non_json_def\<close>)
    qed
  next
    case (PlanSchema p)
    have d: "isolated_dict (\<lambda>name child. fail_under (PName name) (case map_of (p_props p) name of
          Some q \<Rightarrow> compiled_isolation_failure child q
        | None \<Rightarrow> (case p_additional p of None \<Rightarrow> Inl ([], AdditionalField) | Some q \<Rightarrow> compiled_isolation_failure child q))) kvs =
      isolation_of v (first_some (\<lambda>(k, c). case k of KOther _ \<Rightarrow> Some ([], NonStringKey) | KStr n \<Rightarrow> under (PName n)
        (case map_of (p_props p) n of
          Some q \<Rightarrow> compiled_validation_failure c q
        | None \<Rightarrow> (case p_additional p of None \<Rightarrow> Some ([], AdditionalField) | Some q \<Rightarrow> compiled_validation_failure c q))) kvs)"
      if "v = PDict kvs" for kvs
      by (rule dict[OF that]) (auto simp: sub isolation_of_def split: option.split)
    have item: "isolated_list (\<lambda>child. compiled_isolation_failure child (p_items p)) xs =
      isolation_of v (first_some (\<lambda>(i, c). under (PIndex i) (compiled_validation_failure c (p_items p))) (enumerate 0 xs))"
      if "v = PList xs" for xs by (rule list[OF that])
    have split: "isolation_of v (or_else a b) = (case a of Some e \<Rightarrow> Inl e | None \<Rightarrow> isolation_of v b)" for a b
      by (simp add: isolation_of_def or_else_def split: option.split)
    have assoc: "or_else a1 (or_else a2 (or_else a3 (or_else a4 (or_else a5 (or_else a6 b))))) =
        or_else (or_else a1 (or_else a2 (or_else a3 (or_else a4 (or_else a5 a6))))) b" for a1 a2 a3 a4 a5 a6 b
      by (simp add: or_else_def split: option.split)
    have tail: "(case v of PDict kvs \<Rightarrow> (case R kvs of Some failure \<Rightarrow> Inl failure | None \<Rightarrow> D kvs)
        | PList xs \<Rightarrow> L xs | _ \<Rightarrow> Inr v) =
      isolation_of v (case v of PDict kvs \<Rightarrow> or_else (R kvs) (E kvs) | PList xs \<Rightarrow> M xs | _ \<Rightarrow> None)"
      if "\<And>kvs. v = PDict kvs \<Longrightarrow> D kvs = isolation_of v (E kvs)" "\<And>xs. v = PList xs \<Longrightarrow> L xs = isolation_of v (M xs)"
      for R D L E M
      by (cases v) (use that in \<open>auto simp: isolation_of_def or_else_def split: option.split\<close>)
    show ?thesis
    proof (cases "json_type v")
      case None
      then show ?thesis
        by (simp add: PlanSchema compiled_isolation_failure.simps(3) compiled_validation_failure.simps(3) isolation_of_def)
    next
      case (Some actual)
      show ?thesis
      proof (cases "non_json v")
        case False
        show ?thesis
          unfolding PlanSchema compiled_isolation_failure.simps(3) compiled_validation_failure.simps(3) Some option.case
            if_not_P[OF False] assoc split
          by (rule option.case_cong[OF refl tail[OF d item] refl])
      qed (simp add: Some PlanSchema compiled_isolation_failure.simps(3) compiled_validation_failure.simps(3) isolation_of_def)
    qed
  qed
qed

text \<open>A fast isolator that answers has copied a value the fast validator accepts.\<close>

definition follows :: "(pyval \<Rightarrow> pyval option) \<Rightarrow> (pyval \<Rightarrow> bool) \<Rightarrow> bool" where
  "follows g f \<longleftrightarrow> (\<forall>v w. g v = Some w \<longrightarrow> wf_val v \<longrightarrow> w = v \<and> f v)"

lemma copied_dict_Some:
  assumes "copied_dict f kvs = Some w" and "distinct (keys_of kvs)"
    and "\<And>k c n x. (k, c) \<in> set kvs \<Longrightarrow> f n c = Some x \<Longrightarrow> x = c"
  shows "w = PDict kvs \<and> (\<forall>(k, c) \<in> set kvs. \<exists>n. k = KStr n \<and> f n c = Some c)"
proof -
  from assms(1) obtain items where items: "w = PDict (dict_of items)"
    and l: "list_all2 (\<lambda>(k, child) y. (case k of KOther _ \<Rightarrow> None | KStr name \<Rightarrow> map_option (Pair k) (f name child)) = Some y) kvs items"
    by (auto simp: copied_dict_def those_map_Some case_prod_beta')
  have "list_all2 (\<lambda>kc y. y = kc \<and> (\<exists>n. fst kc = KStr n \<and> f n (snd kc) = Some (snd kc))) kvs items"
    using l by (rule list.rel_mono_strong) (auto split: pykey.splits dest: assms(3))
  then have "items = kvs \<and> (\<forall>kc \<in> set kvs. \<exists>n. fst kc = KStr n \<and> f n (snd kc) = Some (snd kc))"
    by (induction kvs items rule: list_all2_induct) auto
  then show ?thesis using items assms(2) by fastforce
qed

lemma copied_list_Some:
  assumes "map_option PList (those (map f xs)) = Some w" and "\<And>c x. c \<in> set xs \<Longrightarrow> f c = Some x \<Longrightarrow> x = c \<and> P c"
  shows "w = PList xs \<and> list_all P xs"
proof -
  from assms(1) obtain ys where ys: "w = PList ys" "list_all2 (\<lambda>x y. f x = Some y) xs ys"
    by (auto simp: those_map_Some)
  from ys(2) assms(2) have "ys = xs \<and> list_all P xs" by (induction xs ys rule: list_all2_induct) auto
  with ys(1) show ?thesis by simp
qed

lemma isolate_wildcard_follows: "follows isolate_wildcard fast_wildcard"
proof -
  have "w = v \<and> fast_wildcard v" if "isolate_wildcard v = Some w" "wf_val v" for v w
    using that
  proof (induction v arbitrary: w rule: measure_induct_rule[of size])
    case (less v)
    show ?case
    proof (cases v)
      case (PDict kvs)
      have sub: "x = c \<and> fast_wildcard c" if "(k, c) \<in> set kvs" "isolate_wildcard c = Some x" for k c x
        using less.IH[OF _ that(2)] size_dict_item[OF that(1)] wf_val_item[OF _ that(1)] less.prems(2)
        by (simp add: PDict del: pyval.size wf_val.simps)
      have "w = PDict kvs \<and> (\<forall>(k, c) \<in> set kvs. \<exists>n. k = KStr n \<and> isolate_wildcard c = Some c)"
        by (rule copied_dict_Some) (use less.prems sub in \<open>simp_all add: PDict\<close>)
      with sub show ?thesis by (fastforce simp: PDict list_all_iff)
    next
      case (PList xs)
      have "w = PList xs \<and> list_all fast_wildcard xs"
        by (rule copied_list_Some[of isolate_wildcard])
          (use less PList wf_val_elem size_list_item in \<open>simp_all del: pyval.size wf_val.simps\<close>)
      then show ?thesis by (simp add: PList)
    qed (use less.prems in \<open>auto split: if_splits\<close>)
  qed
  then show ?thesis by (simp add: follows_def)
qed

lemma compile_members_follow:
  assumes "compile_members g ps = Some gs" and "\<And>n c x. (n, c) \<in> set ps \<Longrightarrow> g c = Some x \<Longrightarrow> \<exists>y. f c = Some y \<and> follows x y"
  shows "\<exists>fs. compile_members f ps = Some fs \<and>
    (\<forall>n. (\<forall>x. map_of gs n = Some x \<longrightarrow> (\<exists>y. map_of fs n = Some y \<and> follows x y)) \<and> (map_of gs n = None \<longrightarrow> map_of fs n = None))"
proof -
  have "list_all2 (\<lambda>(m, c) (m', x). m' = m \<and> g c = Some x) ps gs"
    using assms(1) unfolding compile_members_def those_map_Some
    by (rule list_all2_mono) (auto split: option.splits)
  then have "\<exists>fs. compile_members f ps = Some fs \<and> list_all2 (\<lambda>(m, x) (m', y). m' = m \<and> follows x y) gs fs"
    using assms(2)
  proof (induction ps gs rule: list_all2_induct)
    case (Cons pc ps mx gs)
    obtain m c x where pc: "pc = (m, c)" "mx = (m, x)" "g c = Some x" using Cons.hyps(1) by (cases pc; cases mx) auto
    with Cons.prems[of m c x] obtain y where y: "f c = Some y" "follows x y" by auto
    from Cons.IH Cons.prems obtain fs where "compile_members f ps = Some fs"
      "list_all2 (\<lambda>(m, x) (m', y). m' = m \<and> follows x y) gs fs" by (metis list.set_intros(2))
    with y pc show ?case by (simp add: compile_members_def)
  qed (simp add: compile_members_def)
  then obtain fs where fs: "compile_members f ps = Some fs" "list_all2 (\<lambda>(m, x) (m', y). m' = m \<and> follows x y) gs fs" by blast
  from fs(2) have "(\<forall>x. map_of gs n = Some x \<longrightarrow> (\<exists>y. map_of fs n = Some y \<and> follows x y)) \<and> (map_of gs n = None \<longrightarrow> map_of fs n = None)" for n
    by (induction gs fs rule: list_all2_induct) auto
  with fs(1) show ?thesis by blast
qed

lemma isolate_object_follows:
  assumes lookup: "\<And>n x. pick_child gs ga n = Some x \<Longrightarrow> \<exists>y. pick_child fs fa n = Some y \<and> follows x y"
  shows "follows (isolate_object p gs ga) (fast_object p fs fa)"
  unfolding follows_def
proof (intro allI impI)
  fix v w assume i: "isolate_object p gs ga v = Some w" and wf: "wf_val v"
  show "w = v \<and> fast_object p fs fa v"
  proof (cases v)
    case (PDict kvs)
    let ?f = "\<lambda>name child. case pick_child gs ga name of None \<Rightarrow> None | Some f \<Rightarrow> f child"
    have sub: "x = c \<and> (\<exists>y. pick_child fs fa n = Some y \<and> y c)" if "(k, c) \<in> set kvs" "?f n c = Some x" for k c n x
    proof -
      from that(2) obtain g where g: "pick_child gs ga n = Some g" "g c = Some x" by (auto split: option.splits)
      from lookup[OF g(1)] g(2) wf_val_item[OF _ that(1)] wf show ?thesis
        by (auto simp: follows_def PDict simp del: wf_val.simps)
    qed
    from i have c: "copied_dict ?f kvs = Some w" and k: "const_ok p v"
      "list_all (\<lambda>name. KStr name \<in> set (keys_of kvs)) (p_required p)"
      by (simp_all add: PDict isolate_object_def split: if_splits)
    have "w = PDict kvs \<and> (\<forall>(k, c) \<in> set kvs. \<exists>n. k = KStr n \<and> ?f n c = Some c)"
      by (rule copied_dict_Some[OF c]) (use wf sub in \<open>simp_all add: PDict\<close>)
    then have "w = v" and m: "\<And>k c. (k, c) \<in> set kvs \<Longrightarrow> \<exists>n y. k = KStr n \<and> pick_child fs fa n = Some y \<and> y c"
      using sub by (auto simp: PDict)
    have "list_all (\<lambda>(k, child). case k of KOther _ \<Rightarrow> False
            | KStr name \<Rightarrow> (case pick_child fs fa name of None \<Rightarrow> False | Some f \<Rightarrow> f child)) kvs"
      unfolding list_all_iff using m by fastforce
    with \<open>w = v\<close> k show ?thesis by (simp add: PDict fast_object_def)
  qed (use i in \<open>simp_all add: isolate_object_def fast_object_def split: if_splits\<close>)
qed

lemma isolate_array_follows: "follows g f \<Longrightarrow> follows (isolate_array p g) (fast_array p f)"
  unfolding follows_def
proof (intro allI impI)
  fix v w assume f: "\<forall>v w. g v = Some w \<longrightarrow> wf_val v \<longrightarrow> w = v \<and> f v" and i: "isolate_array p g v = Some w" and wf: "wf_val v"
  show "w = v \<and> fast_array p f v"
  proof (cases v)
    case (PList xs)
    have "w = PList xs \<and> list_all f xs"
      by (rule copied_list_Some[of g]) (use i f wf wf_val_elem in \<open>auto simp: PList isolate_array_def simp del: wf_val.simps split: if_splits\<close>)
    with i show ?thesis by (simp add: PList isolate_array_def fast_array_def split: if_splits)
  qed (use i in \<open>simp_all add: isolate_array_def fast_array_def split: if_splits\<close>)
qed

lemma fast_isolator_follows:
  "compile_fast_normalized_json_isolator plan = Some g \<Longrightarrow> \<exists>f. compile_fast_normalized_json_validator plan = Some f \<and> follows g f"
proof (induction plan arbitrary: g rule: measure_induct_rule[of size])
  case (less plan)
  note eqs = compile_fast_normalized_json_isolator.simps compile_fast_normalized_json_validator.simps
  show ?case
  proof (cases plan)
    case PlanFalse
    then show ?thesis using less.prems by (auto simp: eqs follows_def)
  next
    case (PlanWildcard trusted)
    then show ?thesis using less.prems isolate_wildcard_follows by (cases trusted) (auto simp: eqs)
  next
    case (PlanSchema p)
    note g = less.prems[unfolded PlanSchema compile_fast_normalized_json_isolator.simps(3)]
    have sub: "\<exists>f. compile_fast_normalized_json_validator c = Some f \<and> follows h f"
      if "compile_fast_normalized_json_isolator c = Some h" "c \<in> set_plan_fields p" for c h
      by (rule less.IH[OF _ that(1)]) (simp add: PlanSchema size_plan_mem[OF that(2)] del: plan.size)
    have nc: "\<not> composed p" using g by (auto split: if_splits)
    consider (object) "only_container JObject (p_types p)" | (array) "\<not> only_container JObject (p_types p)" "only_container JArray (p_types p)"
      | (scalar) "\<not> only_container JObject (p_types p)" "\<not> only_container JArray (p_types p)" by blast
    then show ?thesis
    proof cases
      case object
      with g nc obtain gs where gs: "compile_members compile_fast_normalized_json_isolator (p_props p) = Some gs"
        by (auto split: option.splits)
      have rel: "\<exists>f. compile_fast_normalized_json_validator c = Some f \<and> follows x f"
        if "(n, c) \<in> set (p_props p)" "compile_fast_normalized_json_isolator c = Some x" for n c x
        using sub[OF that(2) plan_members(4)[OF that(1)]] .
      have "\<exists>fs. compile_members compile_fast_normalized_json_validator (p_props p) = Some fs \<and>
          (\<forall>n. (\<forall>x. map_of gs n = Some x \<longrightarrow> (\<exists>y. map_of fs n = Some y \<and> follows x y)) \<and>
            (map_of gs n = None \<longrightarrow> map_of fs n = None))"
        by (rule compile_members_follow[OF gs]) (rule rel)
      then obtain fs where fs: "compile_members compile_fast_normalized_json_validator (p_props p) = Some fs"
        "\<And>n x. map_of gs n = Some x \<Longrightarrow> \<exists>y. map_of fs n = Some y \<and> follows x y"
        "\<And>n. map_of gs n = None \<Longrightarrow> map_of fs n = None" by blast
      have pick: "\<exists>y. pick_child fs fa n = Some y \<and> follows x y"
        if "pick_child gs ga n = Some x" "ga = None \<and> fa = None \<or> (\<exists>h f. ga = Some h \<and> fa = Some f \<and> follows h f)" for ga fa n x
        using that fs(2)[of n] fs(3)[of n] by (cases "map_of gs n") (auto simp: pick_child_def)
      show ?thesis
      proof (cases "p_additional p")
        case None
        then have "g = isolate_object p gs None" using g nc object gs by simp
        moreover have "follows (isolate_object p gs None) (fast_object p fs None)"
          by (rule isolate_object_follows, erule pick) simp
        ultimately show ?thesis using None nc object fs(1) by (simp add: PlanSchema eqs)
      next
        case (Some c)
        with g nc object gs obtain h where h: "compile_fast_normalized_json_isolator c = Some h" "g = isolate_object p gs (Some h)" by auto
        from sub[OF h(1) plan_members(5)[OF Some]] obtain f where f: "compile_fast_normalized_json_validator c = Some f" "follows h f" by blast
        have "follows (isolate_object p gs (Some h)) (fast_object p fs (Some f))"
          by (rule isolate_object_follows, erule pick) (simp add: f(2))
        with h f Some nc object fs(1) show ?thesis by (simp add: PlanSchema eqs)
      qed
    next
      case array
      with g nc obtain h where h: "compile_fast_normalized_json_isolator (p_items p) = Some h" "g = isolate_array p h" by auto
      from sub[OF h(1) plan_members(6)] obtain f where "compile_fast_normalized_json_validator (p_items p) = Some f" "follows h f" by blast
      with h nc array isolate_array_follows show ?thesis by (auto simp: PlanSchema eqs)
    next
      case scalar
      have "follows (isolate_scalar p) (fast_scalar p)"
        by (auto simp: follows_def isolate_scalar_def fast_scalar_def split: if_splits)
      with scalar g nc show ?thesis by (auto simp: PlanSchema eqs split: if_splits)
    qed
  qed
qed

lemma isolator_reported:
  assumes "wf_val v"
  shows "compile_normalized_json_isolator trusted path s v =
    (case compiled_validation_failure v (compile_validation_plan trusted s) of
       None \<Rightarrow> Inr v | Some f \<Rightarrow> Inl (raise_compiled_validation_failure f path))"
proof -
  let ?plan = "compile_validation_plan trusted s"
  have "w = v \<and> compiled_validation_failure v ?plan = None"
    if "compile_fast_normalized_json_isolator ?plan = Some g" "g v = Some w" for g w
    using fast_isolator_follows[OF that(1)] fast_validator_sound that(2) assms by (auto simp: follows_def)
  then show ?thesis
    by (cases trusted) (auto simp: compile_normalized_json_isolator_def Let_def isolation_same[OF assms] isolation_of_def split: option.split)
qed

subsection \<open>Property\<close>

text \<open>\<^bold>\<open>C8\<close>. The fast paths cannot be observed: what a runtime validator compiled from a contract accepts,
  and the error it raises otherwise, are those of the recursive reference validator; and the
  isolator compiled from the contract raises the same errors and otherwise returns an equal
  value, whichever of its two paths answers.\<close>

theorem compiled_boundary_equals_reference:
  assumes "contract_ok s" and "wf_val v" and "trusted \<longrightarrow> exact_json v"
  shows "compile_normalized_json_validator trusted path s v = validate_normalized trusted path v s \<and>
    compile_normalized_json_isolator trusted path s v = bind_r (validate_normalized trusted path v s) (\<lambda>_. Inr v)"
  using validate_normalized_compiled[OF assms(1,3)] validator_reported[of trusted path s v] isolator_reported[OF assms(2), of trusted path s]
  by (simp_all add: reported_def split: option.split)

theorem compiled_boundary_equals_reference_witness:
  "compile_normalized_json_isolator False ''value'' (typed JString) (PInt 1) =
     Inl (ValueError (''DataKey '' @ quoted ''value'' @ '' is integer, expected string.'')) \<and>
   compile_normalized_json_validator False ''value'' (typed JString) (PStr ''x'') = Inr ()"
proof -
  have "validate_normalized False ''value'' (PInt 1) (typed JString) =
      Inl (ValueError (''DataKey '' @ quoted ''value'' @ '' is integer, expected string.''))"
    "validate_normalized False ''value'' (PStr ''x'') (typed JString) = Inr ()" by code_simp+
  then show ?thesis
    using compiled_boundary_equals_reference[of "typed JString" "PStr ''x''" False "''value''"]
      compiled_boundary_equals_reference[of "typed JString" "PInt 1" False "''value''"] by simp
qed

end
