(* ===== verification/Declared_Data.thy ===== *)
theory Declared_Data
  imports Data_Boundary Reducer_Soundness
begin

section \<open>Data Dict contracts at a boundary\<close>

text \<open>
  The rest of \<open>engine/contracts/data.py\<close>: the validators of whole Data Dicts and the two-phase proof
  of a declared projection, presence before values, that a Graph checks at its entry. A contract map is
  given declared, to be expanded, or already expanded (\<open>contracts_expanded\<close>).
\<close>

datatype contract_map = Declared "(string \<times> pyval) list" | Expanded contracts

fun expanded_of :: "nat \<Rightarrow> contract_map \<Rightarrow> contracts res" where
  "expanded_of limit (Declared raw) = expand_contracts_uncached limit raw"
| "expanded_of limit (Expanded expanded) = Inr expanded"

subsection \<open>Complete Data Dicts\<close>

text \<open>Only roots are validated; the flattened leaves repeat parts of them.\<close>

definition root_contracts :: "contracts \<Rightarrow> contracts res" where
  "root_contracts expanded =
     bind_r (map_r (\<lambda>(path, s). bind_r (split_data_path path) (\<lambda>parts. Inr ((path, s), length parts = 1))) expanded)
       (\<lambda>roots. Inr (map fst (filter snd roots)))"

definition not_object :: py_error where
  "not_object = ValueError ''Pipeline data must be a JSON object.''"

text \<open>The loop over the members of a Data Dict, with the check of a declared root\<close>

definition check_roots :: "(string \<Rightarrow> (pyval \<Rightarrow> unit res) option) \<Rightarrow> (pykey \<times> pyval) list \<Rightarrow> unit res" where
  "check_roots check data =
     iter_r (\<lambda>(k, v). case k of
         KOther _ \<Rightarrow> Inl (ValueError ''Pipeline data contains a non-string root DataKey.'')
       | KStr path \<Rightarrow> (case check path of
             None \<Rightarrow> Inl (ValueError (''DataKey '' @ quoted path @ '' is not declared by its contract.''))
           | Some f \<Rightarrow> f v)) data"

definition validate_data_json :: "nat \<Rightarrow> bool \<Rightarrow> contract_map \<Rightarrow> string list \<Rightarrow> pyval \<Rightarrow> unit res" where
  "validate_data_json limit trusted declared required_paths data =
     (case data of
        PDict d \<Rightarrow>
          bind_r (expanded_of limit declared) (\<lambda>expanded.
          bind_r (root_contracts expanded) (\<lambda>roots.
          bind_r (check_roots (\<lambda>path. map_option (\<lambda>s v. validate_normalized trusted path v s) (map_of roots path)) d) (\<lambda>_.
          iter_r (\<lambda>path. bind_r (require_data_path data path) (\<lambda>_. Inr ())) required_paths)))
      | _ \<Rightarrow> Inl not_object)"

definition compile_data_json_validator :: "nat \<Rightarrow> bool \<Rightarrow> contract_map \<Rightarrow> string list \<Rightarrow> (pyval \<Rightarrow> unit res) res" where
  "compile_data_json_validator limit trusted declared required_paths =
     bind_r (expanded_of limit declared) (\<lambda>expanded.
     bind_r (root_contracts expanded) (\<lambda>roots.
     bind_r (map_r (\<lambda>path. bind_r (split_data_path path) (\<lambda>segments. Inr (path, segments))) required_paths) (\<lambda>required_plan.
     let root_plans = map (\<lambda>(path, s). (path, compile_normalized_json_validator trusted path s)) roots in
     Inr (\<lambda>data. case data of
         PDict d \<Rightarrow>
           bind_r (check_roots (map_of root_plans) d) (\<lambda>_.
           iter_r (\<lambda>(path, segments). bind_r (require_data_segments data segments (Some path)) (\<lambda>_. Inr ())) required_plan)
       | _ \<Rightarrow> Inl not_object))))"

subsection \<open>Declared projections\<close>

text \<open>\<open>allow_projection_extensions\<close>: closed objects are opened, at every depth.\<close>

definition open_object :: "schema kws \<Rightarrow> schema kws" where
  "open_object k =
     (if kw_type k = Some [JObject] \<and> kw_additional k = Some SFalse
      then Kws (kw_type k) (kw_props k) (kw_required k) (Some STrue) (kw_items k) (kw_enum k) (kw_const k)
        (kw_any k) (kw_one k) (kw_all k) (kw_annot k)
      else k)"

function (sequential) allow_projection_extensions :: "schema \<Rightarrow> schema" where
  "allow_projection_extensions (SObj k) = SObj (open_object (Kws (kw_type k)
     (map_option (map (\<lambda>(n, s). (n, allow_projection_extensions s))) (kw_props k))
     (kw_required k)
     (map_option allow_projection_extensions (kw_additional k))
     (map_option allow_projection_extensions (kw_items k))
     (kw_enum k) (kw_const k)
     (map_option (map allow_projection_extensions) (kw_any k))
     (map_option (map allow_projection_extensions) (kw_one k))
     (map_option (map allow_projection_extensions) (kw_all k))
     (kw_annot k)))"
| "allow_projection_extensions s = s"
  by pat_completeness auto
termination
  by (relation "measure size") (auto simp del: schema.size intro: size_sub size_sub_opt size_laws)

declare allow_projection_extensions.simps [simp del]

definition projected_root_schema :: "bool \<Rightarrow> schema \<Rightarrow> schema" where
  "projected_root_schema allow_declared_root_extensions s =
     (if allow_declared_root_extensions then allow_projection_extensions s else s)"

text \<open>The contracts of the projection: the declared roots, or those of the boundary paths that resolve\<close>

definition projected_contracts :: "contracts \<Rightarrow> string list option \<Rightarrow> contracts res" where
  "projected_contracts expanded boundary_paths =
     (case boundary_paths of
        None \<Rightarrow> bind_r (root_contracts (sort_key fst expanded)) Inr
      | Some paths \<Rightarrow>
          bind_r (map_r (\<lambda>path. bind_r (resolve_expanded_contract_path expanded path) (\<lambda>found. Inr (path, found)))
            (sorted_set paths)) (\<lambda>found.
          Inr (List.map_filter (\<lambda>(path, s). map_option (Pair path) s) found)))"

record declared_proof =
  proof_label :: string
  value_plan :: "(string list \<times> (pyval \<Rightarrow> unit res)) list"
  required_plan :: "(string \<times> string list) list"
  conditional_plan :: "(string \<times> string list) list"

definition split_paths :: "string list \<Rightarrow> (string \<times> string list) list res" where
  "split_paths paths = map_r (\<lambda>path. bind_r (split_data_path path) (\<lambda>segments. Inr (path, segments))) (sorted_set paths)"

definition compile_declared_data_json_proof ::
    "nat \<Rightarrow> contract_map \<Rightarrow> string list \<Rightarrow> string \<Rightarrow> bool \<Rightarrow> string list option \<Rightarrow> string list \<Rightarrow> string list \<Rightarrow> declared_proof res" where
  "compile_declared_data_json_proof limit declared root_names path extensions boundary_paths required_paths conditional_paths =
     bind_r (expanded_of limit declared) (\<lambda>expanded.
     bind_r (projected_contracts expanded boundary_paths) (\<lambda>projected.
     bind_r (map_r (\<lambda>(declared_path, s). bind_r (split_data_path declared_path) (\<lambda>segments.
         Inr (segments, compile_normalized_json_validator False (path @ ''.'' @ declared_path)
           (projected_root_schema extensions s)))) projected) (\<lambda>vals.
     bind_r (split_paths (root_names @ required_paths)) (\<lambda>required.
     bind_r (split_paths conditional_paths) (\<lambda>conditional.
     Inr \<lparr>proof_label = path, value_plan = vals, required_plan = required, conditional_plan = conditional\<rparr>)))))"

definition not_data_dict :: "string \<Rightarrow> py_error" where
  "not_data_dict label = ValueError (label @ '' must be a Data Dict object.'')"

definition missing_paths :: "declared_proof \<Rightarrow> (pykey \<times> pyval) list \<Rightarrow> string list" where
  "missing_paths p d =
     map fst (filter (\<lambda>(path, segments). find_segments (PDict d) segments = None) (required_plan p)) @
     map fst (filter (\<lambda>(path, segments). KStr (hd segments) \<in> set (keys_of d) \<and>
       find_segments (PDict d) segments = None) (conditional_plan p))"

definition require_presence :: "declared_proof \<Rightarrow> pyval \<Rightarrow> unit res" where
  "require_presence p data =
     (case data of
        PDict d \<Rightarrow>
          (if missing_paths p d = [] then Inr ()
           else Inl (ValueError (proof_label p @ '' is missing required root DataKey(s): '' @
             join_str '', '' (missing_paths p d) @ ''.'')))
      | _ \<Rightarrow> Inl (not_data_dict (proof_label p)))"

definition validate_values :: "declared_proof \<Rightarrow> pyval \<Rightarrow> unit res" where
  "validate_values p data =
     (case data of
        PDict d \<Rightarrow> iter_r (\<lambda>(segments, validator). case find_segments data segments of
            None \<Rightarrow> Inr () | Some v \<Rightarrow> validator v) (value_plan p)
      | _ \<Rightarrow> Inl (not_data_dict (proof_label p)))"

definition compile_declared_data_json_validator ::
    "nat \<Rightarrow> contract_map \<Rightarrow> string list \<Rightarrow> string \<Rightarrow> bool \<Rightarrow> string list option \<Rightarrow> string list \<Rightarrow> string list \<Rightarrow>
     (pyval \<Rightarrow> unit res) res" where
  "compile_declared_data_json_validator limit declared root_names path extensions boundary_paths required_paths conditional_paths =
     bind_r (compile_declared_data_json_proof limit declared root_names path extensions boundary_paths required_paths
       conditional_paths) (\<lambda>p.
     Inr (\<lambda>data. bind_r (require_presence p data) (\<lambda>_. validate_values p data)))"

subsection \<open>The compiled Data Dict validator\<close>

lemma root_contracts_mem: "root_contracts expanded = Inr roots \<Longrightarrow> (path, s) \<in> set roots \<Longrightarrow> (path, s) \<in> set expanded"
  by (auto simp: root_contracts_def bind_r_Inr_iff map_r_Inr_iff dest!: list_all2_in2)

lemma map_of_compiled_roots:
  "map_of (map (\<lambda>(path, s). (path, f path s)) roots) path = map_option (f path) (map_of roots path)"
  by (induction roots) auto

lemma check_roots_cong:
  assumes "\<And>path v. (KStr path, v) \<in> set d \<Longrightarrow> map_option (\<lambda>f. f v) (check path) = map_option (\<lambda>f. f v) (check' path)"
  shows "check_roots check d = check_roots check' d"
  unfolding check_roots_def
proof (rule iter_r_ext, clarify)
  fix k v assume "(k, v) \<in> set d"
  then show "(case k of KStr path \<Rightarrow> (case check path of
             None \<Rightarrow> Inl (ValueError (''DataKey '' @ quoted path @ '' is not declared by its contract.''))
           | Some f \<Rightarrow> f v)
         | KOther _ \<Rightarrow> Inl (ValueError ''Pipeline data contains a non-string root DataKey.'')) =
       (case k of KStr path \<Rightarrow> (case check' path of
             None \<Rightarrow> Inl (ValueError (''DataKey '' @ quoted path @ '' is not declared by its contract.''))
           | Some f \<Rightarrow> f v)
         | KOther _ \<Rightarrow> Inl (ValueError ''Pipeline data contains a non-string root DataKey.''))"
    using assms[of "case k of KStr p \<Rightarrow> p | KOther p \<Rightarrow> p" v] by (auto split: pykey.splits option.splits)
qed

lemma require_planned:
  "map_r (\<lambda>path. bind_r (split_data_path path) (\<lambda>segments. Inr (path, segments))) paths = Inr plan \<Longrightarrow>
   iter_r (\<lambda>(path, segments). bind_r (require_data_segments data segments (Some path)) (\<lambda>_. Inr ())) plan =
   iter_r (\<lambda>path. bind_r (require_data_path data path) (\<lambda>_. Inr ())) paths"
  by (induction paths arbitrary: plan) (auto simp: bind_r_Inr_iff require_data_path_def)

lemma compiled_data_validator:
  assumes "expanded_of limit declared = Inr expanded" and "contracts_ok expanded" and "trusted \<longrightarrow> exact_json data"
    and "compile_data_json_validator limit trusted declared required_paths = Inr check"
  shows "check data = validate_data_json limit trusted declared required_paths data"
proof -
  from assms(1,4) obtain roots plan where r: "root_contracts expanded = Inr roots"
    "map_r (\<lambda>path. bind_r (split_data_path path) (\<lambda>segments. Inr (path, segments))) required_paths = Inr plan"
    and check: "check = (\<lambda>data. case data of
         PDict d \<Rightarrow>
           bind_r (check_roots (map_of (map (\<lambda>(path, s). (path, compile_normalized_json_validator trusted path s)) roots)) d) (\<lambda>_.
           iter_r (\<lambda>(path, segments). bind_r (require_data_segments data segments (Some path)) (\<lambda>_. Inr ())) plan)
       | _ \<Rightarrow> Inl not_object)"
    by (auto simp: compile_data_json_validator_def bind_r_Inr_iff)
  show ?thesis
  proof (cases data)
    case (PDict d)
    have "check_roots (map_of (map (\<lambda>(path, s). (path, compile_normalized_json_validator trusted path s)) roots)) d =
      check_roots (\<lambda>path. map_option (\<lambda>s v. validate_normalized trusted path v s) (map_of roots path)) d"
    proof (rule check_roots_cong)
      fix path v assume v: "(KStr path, v) \<in> set d"
      have "compile_normalized_json_validator trusted path s v = validate_normalized trusted path v s" if "map_of roots path = Some s" for s
      proof -
        have "contract_ok s"
          using root_contracts_mem[OF r(1) map_of_in_set[OF that]] assms(2) by (auto simp: contracts_ok_def list_all_iff)
        moreover have "trusted \<longrightarrow> exact_json v" using assms(3) v exact_item[of d] by (auto simp: PDict)
        ultimately show ?thesis by (simp add: validator_reported validate_normalized_compiled)
      qed
      then show "map_option (\<lambda>f. f v) (map_of (map (\<lambda>(path, s). (path, compile_normalized_json_validator trusted path s)) roots) path) =
          map_option (\<lambda>f. f v) (map_option (\<lambda>s v. validate_normalized trusted path v s) (map_of roots path))"
        by (cases "map_of roots path") (simp_all add: map_of_compiled_roots)
    qed
    then show ?thesis by (simp add: check PDict validate_data_json_def assms(1) r(1) require_planned[OF r(2)])
  qed (simp_all add: check validate_data_json_def)
qed

subsection \<open>What a declared proof shows\<close>

lemma list_all2_in1: "list_all2 R xs ys \<Longrightarrow> x \<in> set xs \<Longrightarrow> \<exists>y \<in> set ys. R x y"
  by (induction xs ys rule: list_all2_induct) auto

lemma split_paths_mem:
  "split_paths paths = Inr plan \<Longrightarrow> path \<in> set paths \<Longrightarrow> \<exists>segments. split_data_path path = Inr segments \<and> (path, segments) \<in> set plan"
  by (auto simp: split_paths_def dest!: map_r_out[of _ _ _ path] simp: bind_r_Inr_iff)

lemma declared_presence:
  assumes "compile_declared_data_json_proof limit declared roots label ext bps required cond = Inr p"
    and "require_presence p (PDict d) = Inr ()"
  shows "path \<in> set roots \<union> set required \<Longrightarrow> \<exists>segments v. split_data_path path = Inr segments \<and> find_segments (PDict d) segments = Some v"
    and "path \<in> set cond \<Longrightarrow> \<exists>segments. split_data_path path = Inr segments \<and>
      (KStr (hd segments) \<in> set (keys_of d) \<longrightarrow> find_segments (PDict d) segments \<noteq> None)"
proof -
  from assms(1) have plans: "split_paths (roots @ required) = Inr (required_plan p)" "split_paths cond = Inr (conditional_plan p)"
    by (auto simp: compile_declared_data_json_proof_def bind_r_Inr_iff)
  have none: "missing_paths p d = []" using assms(2) by (auto simp: require_presence_def split: if_splits)
  show "\<exists>segments v. split_data_path path = Inr segments \<and> find_segments (PDict d) segments = Some v" if "path \<in> set roots \<union> set required"
    using split_paths_mem[OF plans(1), of path] that none by (fastforce simp: missing_paths_def filter_empty_conv)
  show "\<exists>segments. split_data_path path = Inr segments \<and>
      (KStr (hd segments) \<in> set (keys_of d) \<longrightarrow> find_segments (PDict d) segments \<noteq> None)" if "path \<in> set cond"
    using split_paths_mem[OF plans(2) that] none by (fastforce simp: missing_paths_def filter_empty_conv)
qed

lemma declared_values:
  assumes "compile_declared_data_json_proof limit (Expanded expanded) roots label False (Some bps) required cond = Inr p"
    and "validate_values p (PDict d) = Inr ()"
    and "path \<in> set bps" and "resolve_expanded_contract_path expanded path = Inr (Some s)"
    and "split_data_path path = Inr segments" and "find_segments (PDict d) segments = Some v"
  shows "accepts v s"
proof -
  from assms(1) obtain projected where pr: "projected_contracts expanded (Some bps) = Inr projected"
    "map_r (\<lambda>(declared_path, s). bind_r (split_data_path declared_path) (\<lambda>segments.
         Inr (segments, compile_normalized_json_validator False (label @ ''.'' @ declared_path) s))) projected = Inr (value_plan p)"
    by (auto simp: compile_declared_data_json_proof_def bind_r_Inr_iff projected_root_schema_def)
  have "(path, s) \<in> set projected"
  proof -
    from pr(1) obtain found where f: "map_r (\<lambda>path. bind_r (resolve_expanded_contract_path expanded path) (\<lambda>found. Inr (path, found)))
            (sorted_set bps) = Inr found" "projected = List.map_filter (\<lambda>(path, s). map_option (Pair path) s) found"
      by (auto simp: projected_contracts_def bind_r_Inr_iff)
    from map_r_out[OF f(1), of path] assms(3,4) have "(path, Some s) \<in> set found" by (auto simp: bind_r_Inr_iff)
    then show ?thesis using f(2) by (force simp: set_map_filter)
  qed
  from map_r_out[OF pr(2) this] assms(5)
  have "(segments, compile_normalized_json_validator False (label @ ''.'' @ path) s) \<in> set (value_plan p)" by (auto simp: bind_r_Inr_iff)
  with assms(2,6) have "compile_normalized_json_validator False (label @ ''.'' @ path) s v = Inr ()"
    by (fastforce simp: validate_values_def iter_r_Inr_iff)
  then show ?thesis by (simp add: validator_reported reported_Inr_iff accepts_def)
qed

subsection \<open>Opened contracts\<close>

text \<open>Opening the closed objects of a contract does not only add values: opened alternatives of a
  \<open>oneOf\<close> can overlap, so that a value the contract accepts is rejected.\<close>

lemma opened_contract_rejects:
  "\<exists>s v. contract_ok s \<and> accepts v s \<and> \<not> accepts v (projected_root_schema True s)"
proof -
  let ?object = "\<lambda>ns. SObj (Kws (Some [JObject]) (Some (map (\<lambda>n. (n, typed JInteger)) ns)) (Some ns) (Some SFalse) None None None None None None [])"
  let ?s = "SObj (Kws None None None None None None None None (Some [?object [''a''], ?object [''a'', ''b'']]) None [])"
  let ?v = "PDict [(KStr ''a'', PInt 1), (KStr ''b'', PInt 2)]"
  have "contract_ok ?s" "accepts ?v ?s" "\<not> accepts ?v (projected_root_schema True ?s)" by code_simp+
  then show ?thesis by blast
qed

subsection \<open>Property\<close>

text \<open>\<^bold>\<open>C9\<close>. The compiled Data Dict validator is the interpreter: whenever \<open>compile_data_json_validator\<close>
  returns a validator, it accepts a Data Dict or raises exactly as \<open>validate_data_json\<close> does on the same
  contracts and required paths, for declared and expanded contract maps.\<close>

theorem compiled_data_validator_equals_reference:
  assumes "case declared of Declared raw \<Rightarrow> list_all (\<lambda>(path, s). wf_val s) raw | Expanded e \<Rightarrow> contracts_ok e"
    and "trusted \<longrightarrow> exact_json data"
    and "compile_data_json_validator limit trusted declared required_paths = Inr check"
  shows "check data = validate_data_json limit trusted declared required_paths data"
proof -
  from assms(3) obtain expanded where e: "expanded_of limit declared = Inr expanded"
    by (auto simp: compile_data_json_validator_def bind_r_Inr_iff)
  have "contracts_ok expanded"
    using assms(1) e by (cases declared) (auto intro: expand_contracts_ok)
  from compiled_data_validator[OF e this assms(2,3)] show ?thesis .
qed

theorem compiled_data_validator_equals_reference_witness:
  "\<exists>check. compile_data_json_validator 4 False (Expanded [(''a'', typed JString)]) [''b''] = Inr check \<and>
     check (PDict [(KStr ''a'', PStr ''x'')]) =
       Inl (ValueError (''Required DataKey path '' @ quoted ''b'' @ '' is missing from the data JSON.''))"
proof -
  let ?declared = "Expanded [(''a'', typed JString)]"
  let ?data = "PDict [(KStr ''a'', PStr ''x'')]"
  obtain check where c: "compile_data_json_validator 4 False ?declared [''b''] = Inr check"
    by (simp add: compile_data_json_validator_def root_contracts_def split_data_path_def split_data_path_text_def
      strip_def is_space_def valid_segment_def segment_char_def Let_def)
  have "validate_data_json 4 False ?declared [''b''] ?data =
      Inl (ValueError (''Required DataKey path '' @ quoted ''b'' @ '' is missing from the data JSON.''))"
    by code_simp
  with compiled_data_validator_equals_reference[OF _ _ c, of ?data] c show ?thesis
    by (simp add: contracts_ok_def)
qed

end
