(* ===== verification/Graph_Wiring.thy ===== *)
theory Graph_Wiring
  imports Graph_Order Declared_Data
begin

section \<open>What a compilation has established\<close>

text \<open>
  The facts about a compiled Graph on which its execution relies, one lemma for each loop of the compiler: the
  contracts of the plan give each boundary the contract it had in its source, each wire has one producer
  with the contract it was compiled with, and each port of a node is fed a wire whose contract the
  compatibility prover has accepted for it.
\<close>

subsection \<open>Root contracts are kept by a second expansion\<close>

lemma normalize_same:
  assumes "contract_ok s" "normalize_data_key_schema_uncached path (schema_to_py s) = Inr t" shows "t = s"
  using assms normalize_schema_to_py[OF assms(1)] by (auto simp: normalize_data_key_schema_uncached_def bind_r_Inr_iff)

lemma emit_outside:
  "emit_path limit p s e0 = Inr e \<Longrightarrow> q \<noteq> p \<and> (\<forall>r. q \<noteq> p @ ''.'' @ r) \<longrightarrow> map_of e q = map_of e0 q"
  "emit_children limit p s names e0 = Inr e \<Longrightarrow> (\<forall>r. q \<noteq> p @ ''.'' @ r) \<longrightarrow> map_of e q = map_of e0 q"
proof (induction limit p s e0 and limit p s names e0 arbitrary: e and e rule: emit_path_emit_children.induct)
  case (2 limit path schema expanded)
  from "2.prems" obtain n where "settle_emitted expanded path schema = Inr n"
    "emit_children limit path n (sorted_set (schema_explicit_child_names n)) (AList.update path n expanded) = Inr e"
    by (auto simp: bind_r_Inr_iff)
  from "2.IH"[OF this] show ?case by (simp add: update_conv')
next
  case (4 limit path schema name names expanded)
  from "4.prems" obtain c e1 where c: "schema_child_schema name path schema = Inr c"
    "(if c = SFalse then Inr expanded else emit_path limit (path @ ''.'' @ name) c expanded) = Inr e1"
    "emit_children limit path schema names e1 = Inr e"
    by (auto simp: bind_r_Inr_iff)
  show ?case
  proof
    assume q: "\<forall>r. q \<noteq> path @ ''.'' @ r"
    then have "q \<noteq> path @ ''.'' @ name \<and> (\<forall>r. q \<noteq> (path @ ''.'' @ name) @ ''.'' @ r)" by auto
    with c(2) "4.IH"(1)[OF c(1), of e1] have "map_of e1 q = map_of expanded q" by (cases "c = SFalse") auto
    with "4.IH"(2)[OF c(1,2,3)] q show "map_of e q = map_of expanded q" by simp
  qed
qed auto

lemma emit_root:
  assumes "emit_path limit p s e0 = Inr e" "contract_ok s" "map_of e0 p = None" shows "map_of e p = Some s"
proof (cases limit)
  case (Suc l)
  with assms(1) obtain n where n: "settle_emitted e0 p s = Inr n"
    "emit_children l p n (sorted_set (schema_explicit_child_names n)) (AList.update p n e0) = Inr e"
    by (auto simp: bind_r_Inr_iff)
  have "n = s" using n(1) normalize_same[OF assms(2)] assms(3) by (auto simp: settle_emitted_def bind_r_Inr_iff)
  with emit_outside(2)[OF n(2), of p] show ?thesis by (simp add: update_conv')
qed (use assms in simp)

lemma map_r_same: "map_r f xs = Inr ys \<Longrightarrow> (\<And>x y. x \<in> set xs \<Longrightarrow> f x = Inr y \<Longrightarrow> y = g x) \<Longrightarrow> ys = map g xs"
  by (induction xs arbitrary: ys) (auto simp: bind_r_Inr_iff)

definition plain_roots :: "contracts \<Rightarrow> bool" where
  "plain_roots rs \<longleftrightarrow> distinct (keys_of rs) \<and> (\<forall>(n, s) \<in> set rs. contract_ok s \<and> split_data_path n = Inr [n])"

lemma plain_root_no_dot: "split_data_path n = Inr [n] \<Longrightarrow> CHR ''.'' \<notin> set n"
  using split_data_path_segments[of n "[n]"] valid_segment_chars(1) by auto

lemma declare_roots:
  "declare_contracts (Node ts) ex (map (\<lambda>(n, s). (n, schema_to_py s)) rs) = Inr (tree, explicit) \<Longrightarrow> plain_roots rs \<Longrightarrow>
   set (keys_of rs) \<inter> set (keys_of ts) = {} \<Longrightarrow> (\<lambda>n. [n]) ` set (keys_of rs) \<inter> set (keys_of ex) = {} \<Longrightarrow>
   tree = Node (ts @ map (\<lambda>(n, s). (n, Node [])) rs) \<and> explicit = ex @ map (\<lambda>(n, s). ([n], s)) rs"
proof (induction rs arbitrary: ts ex)
  case (Cons r rs)
  obtain n s where r: "r = (n, s)" by force
  note prems = Cons.prems[unfolded r]
  have ok: "contract_ok s" "split_data_path n = Inr [n]" "plain_roots rs" "n \<notin> set (keys_of rs)"
    using prems(2) by (auto simp: plain_roots_def)
  have n: "normalize_data_key_schema_uncached n (schema_to_py s) = Inr s"
    using prems(1) normalize_same[OF ok(1)] by (auto simp: ok(2) bind_r_Inr_iff)
  have fresh: "map_of ts n = None" "map_of ex [n] = None" "n \<notin> set (keys_of ts)" "[n] \<notin> set (keys_of ex)"
    using prems(3,4) by (auto simp: map_of_eq_None_iff)
  have "declare_contracts (Node (ts @ [(n, Node [])])) (ex @ [([n], s)]) (map (\<lambda>(n, s). (n, schema_to_py s)) rs) = Inr (tree, explicit)"
    using prems(1) by (simp add: ok(2) n fresh(1,2) update_fresh[OF fresh(3)] update_fresh[OF fresh(4)])
  from Cons.IH[OF this ok(3)] prems(3,4) ok(4) show ?case by (simp add: r) blast
qed simp

lemma emit_roots:
  "fold_r (\<lambda>(n, s) expanded. emit_path limit n s expanded) rs e0 = Inr e \<Longrightarrow> plain_roots rs \<Longrightarrow>
   (\<forall>n \<in> set (keys_of rs). map_of e0 n = None) \<Longrightarrow> CHR ''.'' \<notin> set m \<Longrightarrow>
   map_of e m = (case map_of rs m of None \<Rightarrow> map_of e0 m | Some s \<Rightarrow> Some s)"
proof (induction rs arbitrary: e0)
  case (Cons r rs)
  obtain n s where r: "r = (n, s)" by force
  from Cons.prems(1) obtain e1 where e: "emit_path limit n s e0 = Inr e1"
    "fold_r (\<lambda>(n, s) expanded. emit_path limit n s expanded) rs e1 = Inr e"
    by (auto simp: r bind_r_Inr_iff)
  have ok: "contract_ok s" "plain_roots rs" "n \<notin> set (keys_of rs)" using Cons.prems(2) by (auto simp: plain_roots_def r)
  have root: "map_of e1 n = Some s" using emit_root[OF e(1) ok(1)] Cons.prems(3) by (simp add: r)
  have other: "map_of e1 k = map_of e0 k" if "k \<noteq> n" "CHR ''.'' \<notin> set k" for k
    using emit_outside(1)[OF e(1), of k] that by auto
  have dots: "CHR ''.'' \<notin> set k" if "k \<in> set (keys_of rs)" for k
    using that ok(2) plain_root_no_dot by (auto simp: plain_roots_def)
  have "\<forall>k \<in> set (keys_of rs). map_of e1 k = None"
  proof
    fix k assume k: "k \<in> set (keys_of rs)"
    have "k \<noteq> n" using k ok(3) by blast
    have "map_of e0 k = None" using k Cons.prems(3) by (auto simp: r)
    with \<open>k \<noteq> n\<close> show "map_of e1 k = None" by (simp add: other[OF _ dots[OF k]])
  qed
  from Cons.IH[OF e(2) ok(2) this Cons.prems(4)] root other[of m] Cons.prems(4) show ?case
    using ok(3) map_of_eq_None_iff[of rs n] by (cases "m = n") (auto simp: r split: option.splits)
qed simp

lemma map_of_singletons: "map_of (map (\<lambda>(n, s). ([n], s)) rs) [n] = map_of rs n"
  by (induction rs) auto

lemma roots_expanded:
  assumes "expand_contracts_uncached limit (map (\<lambda>(n, s). (n, schema_to_py s)) rs) = Inr e" "plain_roots rs"
    and "CHR ''.'' \<notin> set m"
  shows "map_of e m = map_of rs m"
proof -
  from assms(1) obtain tree explicit roots where x:
    "declare_contracts (Node []) [] (map (\<lambda>(n, s). (n, schema_to_py s)) rs) = Inr (tree, explicit)"
    "map_r (\<lambda>(name, node). bind_r (build_node explicit [name] node) (\<lambda>s. Inr (name, s))) (branches tree) = Inr roots"
    "fold_r (\<lambda>(name, s) expanded. emit_path limit name s expanded) roots [] = Inr e"
    by (auto simp: expand_contracts_uncached_def bind_r_Inr_iff)
  from declare_roots[OF x(1) assms(2)] have d: "tree = Node (map (\<lambda>(n, s). (n, Node [])) rs)" "explicit = map (\<lambda>(n, s). ([n], s)) rs"
    by simp_all
  have own: "map_of explicit [n] = Some s" if "(n, s) \<in> set rs" for n s
    unfolding d(2) map_of_singletons using that assms(2) by (intro map_of_is_SomeI) (simp_all add: plain_roots_def)
  have built: "s' = s" if "(n, s) \<in> set rs" "build_node explicit [n] (Node []) = Inr s'" for n s s'
  proof -
    have "contract_ok s" using that(1) assms(2) by (auto simp: plain_roots_def)
    moreover have "normalize_data_key_schema_uncached n (schema_to_py s) = Inr s'"
      using that(2) unfolding build_node.simps[of explicit "[n]"] by (simp add: finish_node_def keep_independent_def own[OF that(1)])
    ultimately show ?thesis using normalize_same by blast
  qed
  have "roots = map (\<lambda>(n, t). (n, the (map_of rs n))) (branches tree)"
    by (rule map_r_same[OF x(2)]) (use own built assms(2) in \<open>auto simp: d(1) bind_r_Inr_iff plain_roots_def\<close>)
  also have "\<dots> = rs"
    using assms(2) by (auto simp: d(1) plain_roots_def intro!: map_idI)
  finally have "roots = rs" .
  with emit_roots[OF x(3)[unfolded \<open>roots = rs\<close>] assms(2) _ assms(3)] show ?thesis by (simp split: option.splits)
qed

subsection \<open>Loops that collect\<close>

text \<open>A loop over the remaining \<open>xs\<close> keeps \<open>I\<close>, only adds to its state in the sense of \<open>le\<close>, and establishes
  \<open>Q\<close> of every element, which more additions do not disturb.\<close>

lemma fold_r_collects:
  assumes "fold_r f xs a = Inr b" "I xs a"
    and "\<And>x ys a b. I (x # ys) a \<Longrightarrow> f x a = Inr b \<Longrightarrow> I ys b \<and> le a b \<and> Q x b"
    and "\<And>a. le a a" and "\<And>a b c. le a b \<Longrightarrow> le b c \<Longrightarrow> le a c" and "\<And>x a b. Q x a \<Longrightarrow> le a b \<Longrightarrow> Q x b"
  shows "I [] b \<and> le a b \<and> (\<forall>x \<in> set xs. Q x b)"
  using assms(1,2)
proof (induction xs arbitrary: a)
  case (Cons x xs)
  from Cons.prems(1) obtain a' where a': "f x a = Inr a'" "fold_r f xs a' = Inr b" by (auto simp: bind_r_Inr_iff)
  from assms(3)[OF Cons.prems(2) a'(1)] have step: "I xs a'" "le a a'" "Q x a'" by simp_all
  from Cons.IH[OF a'(2) step(1)] have "I [] b" "le a' b" "\<forall>x \<in> set xs. Q x b" by simp_all
  with step assms(5,6) show ?case by auto
qed (use assms(4) in simp)

subsection \<open>Boundaries\<close>

definition consumed :: "wiring \<Rightarrow> string option \<Rightarrow> contracts" where
  "consumed w source =
     (case source of None \<Rightarrow> consumed_initial w
      | Some src \<Rightarrow> (case map_of (consumed_sources w) src of None \<Rightarrow> [] | Some c \<Rightarrow> c))"

text \<open>Wires keep what is known of them, and contracts are only added to the consumed ones.\<close>

definition wiring_grows :: "wiring \<Rightarrow> wiring \<Rightarrow> bool" where
  "wiring_grows w w' \<longleftrightarrow>
     map_of (producers w) \<subseteq>\<^sub>m map_of (producers w') \<and> map_of (producer_schemas w) \<subseteq>\<^sub>m map_of (producer_schemas w') \<and>
     (\<forall>wire \<in> set (keys_of (producers w)). map_of (unknown_wires w') wire = map_of (unknown_wires w) wire) \<and>
     (\<forall>source. map_of (consumed w source) \<subseteq>\<^sub>m map_of (consumed w' source))"

definition roots_of :: "contracts \<Rightarrow> contracts \<Rightarrow> bool" where
  "roots_of contracts cs \<longleftrightarrow>
     distinct (keys_of cs) \<and> (\<forall>(r, s) \<in> set cs. map_of contracts r = Some s \<and> split_data_path r = Inr [r])"

definition wiring_ok :: "source_state \<Rightarrow> (string \<times> source_state) list \<Rightarrow> wiring \<Rightarrow> bool" where
  "wiring_ok initial sources w \<longleftrightarrow>
     set (keys_of (producer_schemas w)) = set (keys_of (producers w)) \<and>
     set (keys_of (unknown_wires w)) \<subseteq> set (keys_of (producers w)) \<and>
     keys_of (consumed_sources w) = keys_of sources \<and>
     (\<forall>wire s. map_of (producer_schemas w) wire = Some s \<longrightarrow> contract_ok s) \<and>
     (\<forall>source st. state_of initial sources source = Inr st \<longrightarrow> roots_of (fst st) (consumed w source))"

definition boundary_bound :: "source_state \<Rightarrow> (string \<times> source_state) list \<Rightarrow> string \<times> boundary \<Rightarrow> wiring \<Rightarrow> bool" where
  "boundary_bound initial sources = (\<lambda>(bid, b) w.
     map_of (producers w) (b_wire b) = Some (bid, ''value'') \<and>
     (b_wire b \<notin> set (keys_of (unknown_wires w)) \<longrightarrow>
       (\<exists>st parts root s. state_of initial sources (b_source b) = Inr st \<and> split_data_path (b_key b) = Inr parts \<and>
         map_of (fst st) (hd parts) = Some root \<and> map_of (consumed w (b_source b)) (hd parts) = Some root \<and>
         resolve_expanded_contract_path (fst st) (b_key b) = Inr (Some s) \<and> map_of (producer_schemas w) (b_wire b) = Some s)))"

lemma wiring_grows_refl: "wiring_grows w w"
  by (simp add: wiring_grows_def)

lemma wiring_grows_keys: "wiring_grows w w' \<Longrightarrow> set (keys_of (producers w)) \<subseteq> set (keys_of (producers w'))"
  unfolding wiring_grows_def by (metis dom_map_of_conv_image_fst map_le_implies_dom_le set_map)

lemma wiring_grows_trans:
  assumes "wiring_grows w w'" "wiring_grows w' w''" shows "wiring_grows w w''"
  using assms wiring_grows_keys[OF assms(1)] unfolding wiring_grows_def by (auto simp del: set_map intro: map_le_trans)

lemma map_leD: "m \<subseteq>\<^sub>m m' \<Longrightarrow> m k = Some x \<Longrightarrow> m' k = Some x"
  by (metis domI map_le_def)

lemma boundary_bound_grows: "boundary_bound initial sources x w \<Longrightarrow> wiring_grows w w' \<Longrightarrow> boundary_bound initial sources x w'"
proof (cases x)
  case (Pair bid b)
  assume b: "boundary_bound initial sources x w" and g: "wiring_grows w w'"
  from b have p: "map_of (producers w) (b_wire b) = Some (bid, ''value'')" by (simp add: boundary_bound_def Pair)
  then have "b_wire b \<in> set (keys_of (producers w))" by (simp add: key_unknown del: set_map)
  with g have u: "b_wire b \<in> set (keys_of (unknown_wires w')) \<longleftrightarrow> b_wire b \<in> set (keys_of (unknown_wires w))"
    by (simp add: wiring_grows_def key_unknown del: set_map)
  from g have le: "map_of (producers w) \<subseteq>\<^sub>m map_of (producers w')" "map_of (producer_schemas w) \<subseteq>\<^sub>m map_of (producer_schemas w')"
    "map_of (consumed w (b_source b)) \<subseteq>\<^sub>m map_of (consumed w' (b_source b))" by (simp_all add: wiring_grows_def)
  show ?thesis
    using b map_leD[OF le(1)] map_leD[OF le(2)] map_leD[OF le(3)]
    unfolding boundary_bound_def Pair prod.case u by blast
qed

lemma map_le_update: "k \<notin> set (keys_of m) \<or> map_of m k = Some v \<Longrightarrow> map_of m \<subseteq>\<^sub>m map_of (AList.update k v m)"
  by (auto simp: map_le_def update_conv' key_unknown simp del: set_map)

lemma update_other: "k' \<noteq> k \<Longrightarrow> map_of (AList.update k v m) k' = map_of m k'"
  by (simp add: update_conv')

lemma lookup_update: "map_of (AList.update k v m) k' = (if k' = k then Some v else map_of m k')"
  by (simp add: update_conv')

lemma keys_update: "set (keys_of (AList.update k v m)) = insert k (set (keys_of m))"
  by (simp add: update_conv' flip: dom_map_of_conv_image_fst)

lemma update_mem: "distinct (keys_of m) \<Longrightarrow> (x, y) \<in> set (AList.update k v m) \<Longrightarrow> (x, y) = (k, v) \<or> (x, y) \<in> set m"
  by (induction m) (auto split: if_splits)

text \<open>Producers of fresh wires\<close>

lemma add_producer_grows:
  assumes "wire \<notin> set (keys_of (producers w))" "wiring_ok initial sources w" "contract_ok s"
  shows "wiring_grows w (add_producer wire owner s present w)" "wiring_ok initial sources (add_producer wire owner s present w)"
proof -
  have "consumed (add_producer wire owner s present w) source = consumed w source" for source
    by (simp add: consumed_def add_producer_def split: option.split)
  then show "wiring_grows w (add_producer wire owner s present w)" "wiring_ok initial sources (add_producer wire owner s present w)"
    using assms unfolding wiring_grows_def wiring_ok_def
    by (auto simp: add_producer_def keys_update lookup_update intro!: map_le_update simp del: set_map split: if_splits)
qed

lemma segment_path: "valid_segment p \<Longrightarrow> split_data_path p = Inr [p]"
  using join_no_space[of "[p]"] by (simp add: split_data_path_def split_text_iff strip_no_space)

lemma consumed_consume_root:
  "consumed (consume_root source root s w) source' =
     (if source' = source then AList.update root s (consumed w source) else consumed w source')"
  by (cases source; cases source') (auto simp: consumed_def consume_root_def update_conv')

lemma consume_root_other:
  "producers (consume_root source root s w) = producers w" "producer_schemas (consume_root source root s w) = producer_schemas w"
  "unknown_wires (consume_root source root s w) = unknown_wires w"
  by (simp_all add: consume_root_def split: option.split)

lemma consume_root_step:
  assumes "wiring_ok initial sources w" "state_of initial sources source = Inr st"
    and "map_of (fst st) root = Some s" "split_data_path root = Inr [root]"
  shows "wiring_ok initial sources (consume_root source root s w)" "wiring_grows w (consume_root source root s w)"
    and "map_of (consumed (consume_root source root s w) source) root = Some s"
proof -
  note ok = assms(1)[unfolded wiring_ok_def]
  have names: "keys_of (consumed_sources (consume_root source root s w)) = keys_of (consumed_sources w)"
  proof (cases source)
    case (Some src)
    then have "src \<in> set (keys_of sources)"
      using assms(2) by (simp add: state_of_def key_unknown del: set_map split: option.splits)
    then have "src \<in> set (keys_of (consumed_sources w))" using ok by metis
    then show ?thesis by (simp add: Some consume_root_def keys_update_old del: set_map)
  qed (simp add: consume_root_def)
  have old: "roots_of (fst st) (consumed w source)" using ok assms(2) by blast
  then have "roots_of (fst st) (AList.update root s (consumed w source))"
    using assms(3,4) by (auto simp: roots_of_def distinct_update dest!: update_mem)
  then show "wiring_ok initial sources (consume_root source root s w)"
    using ok assms(2) unfolding wiring_ok_def consume_root_other names consumed_consume_root by auto
  have "root \<notin> set (keys_of (consumed w source)) \<or> map_of (consumed w source) root = Some s"
    using old assms(3) by (fastforce simp: roots_of_def key_unknown simp del: set_map dest: map_of_in_set)
  then show "wiring_grows w (consume_root source root s w)"
    unfolding wiring_grows_def consume_root_other consumed_consume_root by (auto intro: map_le_update)
  show "map_of (consumed (consume_root source root s w) source) root = Some s"
    by (simp add: consumed_consume_root update_conv')
qed

lemma wiring_ok_unknown:
  assumes "wiring_ok initial sources w" "wire \<notin> set (keys_of (producers w))" "contract_ok s"
  shows "wiring_ok initial sources (add_producer wire owner s present (w\<lparr>unknown_wires := AList.update wire u (unknown_wires w)\<rparr>))"
    "wiring_grows w (add_producer wire owner s present (w\<lparr>unknown_wires := AList.update wire u (unknown_wires w)\<rparr>))"
proof -
  let ?w = "add_producer wire owner s present (w\<lparr>unknown_wires := AList.update wire u (unknown_wires w)\<rparr>)"
  have "consumed ?w source = consumed w source" for source
    by (simp add: consumed_def add_producer_def split: option.split)
  then show "wiring_ok initial sources ?w" "wiring_grows w ?w"
    using assms unfolding wiring_grows_def wiring_ok_def
    by (auto simp: add_producer_def keys_update update_other lookup_update intro!: map_le_update simp del: set_map split: if_splits)
qed

lemma resolve_segments_ok: "contract_ok s \<Longrightarrow> resolve_segments seen s segs = Inr (Some c) \<Longrightarrow> contract_ok c"
proof (induction segs arbitrary: s seen)
  case (Cons seg segs)
  from Cons.prems(2) obtain d where "schema_child_schema seg (join_str ''.'' seen) s = Inr d" "resolve_segments (seen @ [seg]) d segs = Inr (Some c)"
    by (auto simp: bind_r_Inr_iff split: if_splits)
  with Cons.IH child_schema_ok[OF Cons.prems(1)] show ?case by blast
qed simp

lemma resolved_ok: "contracts_ok cs \<Longrightarrow> resolve_expanded_contract_path cs path = Inr (Some s) \<Longrightarrow> contract_ok s"
proof -
  assume ok: "contracts_ok cs" and "resolve_expanded_contract_path cs path = Inr (Some s)"
  then obtain root parts where r: "map_of cs (hd parts) = Some root" "resolve_segments [hd parts] root (tl parts) = Inr (Some s)"
    by (auto simp: resolve_expanded_contract_path_def bind_r_Inr_iff split: option.split_asm)
  show ?thesis by (rule resolve_segments_ok[OF contracts_okD[OF ok r(1)] r(2)])
qed

lemma bind_boundary_step:
  assumes "bind_boundary label initial sources x w = Inr w'" "wiring_ok initial sources w"
    and "\<And>source st. state_of initial sources source = Inr st \<Longrightarrow> contracts_ok (fst st)"
  shows "wiring_ok initial sources w' \<and> wiring_grows w w' \<and> boundary_bound initial sources x w'"
proof -
  obtain bid b where x: "x = (bid, b)" by force
  from assms(1) obtain contracts present where st: "state_of initial sources (b_source b) = Inr (contracts, present)"
    and new: "b_wire b \<notin> set (keys_of (producers w))"
    by (auto simp: x bind_boundary_def bind_r_Inr_iff simp del: set_map split: if_splits)
  from assms(1) st new obtain found where found: "resolve_expanded_contract_path contracts (b_key b) = Inr found"
    by (auto simp: x bind_boundary_def bind_r_Inr_iff simp del: set_map)
  have unknown: "b_wire b \<notin> set (keys_of (unknown_wires w))" using assms(2) new by (auto simp: wiring_ok_def simp del: set_map)
  show ?thesis
  proof (cases found)
    case None
    then have w': "w' = add_producer (b_wire b) (bid, ''value'') any_schema False
        (w\<lparr>unknown_wires := AList.update (b_wire b) (bid, b_key b) (unknown_wires w)\<rparr>)"
      using assms(1) st new found by (simp add: x bind_boundary_def del: set_map)
    then have "boundary_bound initial sources x w'"
      by (simp add: boundary_bound_def x add_producer_def keys_update update_conv' del: set_map)
    with w' wiring_ok_unknown[OF assms(2) new, of any_schema] show ?thesis by simp
  next
    case (Some s)
    with assms(1) st new found obtain parts root present' where p: "split_data_path (b_key b) = Inr parts"
      "map_of contracts (hd parts) = Some root"
      "w' = add_producer (b_wire b) (bid, ''value'') s present' (consume_root (b_source b) (hd parts) root w)"
      by (auto simp: x bind_boundary_def bind_r_Inr_iff simp del: set_map split: option.splits)
    have "split_data_path (hd parts) = Inr [hd parts]"
      using split_data_path_segments[OF p(1)] segment_path by (cases parts) auto
    note c = consume_root_step[OF assms(2) st[simplified], unfolded fst_conv, OF p(2) this]
    have new': "b_wire b \<notin> set (keys_of (producers (consume_root (b_source b) (hd parts) root w)))"
      using new by (simp add: consume_root_other del: set_map)
    have "contract_ok s" using resolved_ok[OF assms(3)[OF st, unfolded fst_conv]] found Some by blast
    note a = add_producer_grows[OF new' c(1) this, of "(bid, ''value'')" present', folded p(3)]
    have "map_of (consumed w' (b_source b)) (hd parts) = Some root"
      using c(3) a(1) map_leD by (fastforce simp: wiring_grows_def)
    moreover have "map_of (producers w') (b_wire b) = Some (bid, ''value'')" "map_of (producer_schemas w') (b_wire b) = Some s"
      by (simp_all add: p(3) add_producer_def update_conv')
    ultimately have "boundary_bound initial sources x w'"
      using st p(1,2) found Some by (simp add: boundary_bound_def x)
    with a wiring_grows_trans[OF c(2) a(1)] show ?thesis by blast
  qed
qed

subsection \<open>Ports\<close>

lemma field_wf: "wf_val (PDict d) \<Longrightarrow> field d name = Inr v \<Longrightarrow> wf_val v"
  using wf_val_map_of by (auto simp: field_def split: option.splits)

lemma wf_keys: "wf_val (PDict d) \<Longrightarrow> distinct (keys_of d)"
  by simp

lemma string_keys:
  assumes "set (keys_of kvs) \<subseteq> KStr ` names" "distinct (keys_of kvs)"
  shows "distinct (map key_text (keys_of kvs))" "set (map key_text (keys_of kvs)) \<subseteq> names"
proof -
  have "inj_on key_text (set (keys_of kvs))" by (rule inj_on_subset[OF _ assms(1)]) (auto simp: inj_on_def)
  then show "distinct (map key_text (keys_of kvs))" by (simp only: distinct_map[of key_text] assms(2) simp_thms)
  show "set (map key_text (keys_of kvs)) \<subseteq> names" using assms(1) by auto
qed

lemma normalize_direction_ok:
  assumes "normalize_direction label d direction = Inr ps" "wf_val (PDict d)"
  shows "distinct (keys_of ps) \<and> (\<forall>(n, q) \<in> set ps. contract_ok (pt_schema q))"
proof -
  from assms(1) obtain v where v: "field d direction = Inr v" by (auto simp: normalize_direction_def bind_r_Inr_iff)
  with assms(1) obtain specs where s: "field d direction = Inr (PDict specs)" "map_r (normalize_port label direction) specs = Inr ps"
    by (cases v) (simp_all add: normalize_direction_def)
  have wf: "wf_val (PDict specs)" by (rule field_wf[OF assms(2) s(1)])
  have one: "k = KStr n \<and> contract_ok (pt_schema q)" if "(k, spec) \<in> set specs" "normalize_port label direction (k, spec) = Inr (n, q)" for k spec n q
  proof (cases k)
    case (KStr name)
    from that(2) obtain e raw t where r: "require_exact_fields (label @ ''.'' @ direction @ ''.'' @ name) [''schema'', ''required''] [''schema''] spec = Inr e"
      "field e ''schema'' = Inr raw" "normalize_data_key_schema_uncached (label @ ''.'' @ direction @ ''.'' @ name) raw = Inr t"
      "n = name" "pt_schema q = t"
      by (auto simp: normalize_port_def KStr bind_r_Inr_iff split: if_splits)
    have "wf_val spec" using wf that(1) by (auto simp: list_all_iff)
    then have "wf_val raw" using field_wf r(2) require_exact_fieldsD(1)[OF r(1)] by blast
    with r normalized_contract KStr show ?thesis by blast
  qed (use that in \<open>simp add: normalize_port_def\<close>)
  have keys: "keys_of specs = map KStr (keys_of ps)"
  proof -
    have "list_all2 (\<lambda>x y. fst x = KStr (fst y)) specs ps"
      using s(2)[unfolded map_r_Inr_iff] by (rule list.rel_mono_strong) (use one in auto)
    then show ?thesis by (induction specs ps rule: list_all2_induct) auto
  qed
  have "distinct (keys_of ps)" using wf_keys[OF wf, unfolded keys] by (rule distinct_map[THEN iffD1, THEN conjunct1])
  moreover have "contract_ok (pt_schema q)" if "(n, q) \<in> set ps" for n q
    using map_r_in[OF s(2) that] one by auto
  ultimately show ?thesis by blast
qed

lemma normalize_ports_ok:
  assumes "normalize_ports label raw = Inr p" "wf_val raw" shows "ports_ok p"
proof -
  from assms(1) obtain d where d: "require_exact_fields label [''inputs'', ''outputs''] [''inputs'', ''outputs''] raw = Inr d"
    "normalize_direction label d ''inputs'' = Inr (in_ports p)" "normalize_direction label d ''outputs'' = Inr (out_ports p)"
    by (auto simp: normalize_ports_def bind_r_Inr_iff)
  have "wf_val (PDict d)" using require_exact_fieldsD(1)[OF d(1)] assms(2) by simp
  then show ?thesis
    using normalize_direction_ok[OF d(2)] normalize_direction_ok[OF d(3)] by (auto simp: ports_ok_def list_all_iff)
qed

lemma port_bindings_ok:
  assumes "port_bindings here d direction declared = Inr bound" "wf_val (PDict d)"
  shows "distinct (keys_of bound) \<and> set (keys_of bound) \<subseteq> set (keys_of declared) \<and>
    (\<forall>(n, p) \<in> set declared. pt_required p \<longrightarrow> n \<in> set (keys_of bound))"
proof -
  from assms(1) obtain v where v: "field d direction = Inr v" by (auto simp: port_bindings_def bind_r_Inr_iff)
  with assms(1) obtain kvs where v': "v = PDict kvs" by (cases v) (simp_all add: port_bindings_def)
  from assms(1) obtain unknown where u: "unknown_names (keys_of kvs) (keys_of declared) = Inr unknown"
    by (auto simp: port_bindings_def v v' bind_r_Inr_iff)
  from assms(1) have b: "unknown = []" "missing_names (keys_of kvs) (keys_of (filter (\<lambda>(n, p). pt_required p) declared)) = []"
    "those (map (\<lambda>(k, w). map_option (Pair (key_text k)) (non_empty_string w)) kvs) = Some bound"
    by (auto simp: port_bindings_def v v' u Let_def split: if_splits option.split_asm)
  have keys: "keys_of bound = map key_text (keys_of kvs)"
    using b(3)[unfolded those_map_Some] by (induction kvs bound rule: list_all2_induct) auto
  have sub: "set (keys_of kvs) \<subseteq> KStr ` set (keys_of declared)" using u b(1) by (simp add: unknown_names_None)
  have "distinct (keys_of kvs)" using field_wf[OF assms(2) v] by (simp add: v')
  note k = string_keys[OF sub this, folded keys]
  have "n \<in> set (keys_of bound)" if "(n, p) \<in> set declared" "pt_required p" for n p
  proof -
    have "set (filter (\<lambda>n. KStr n \<notin> set (keys_of kvs)) (keys_of (filter (\<lambda>(n, p). pt_required p) declared))) = {}"
      using arg_cong[OF b(2)[unfolded missing_names_def], of set] by simp
    then have "KStr n \<in> set (keys_of kvs)" using that by (force simp: filter_empty_conv)
    then show ?thesis unfolding keys by (force simp: image_iff)
  qed
  with k show ?thesis by blast
qed

subsection \<open>Nodes\<close>

definition output_bound :: "string \<Rightarrow> ports \<Rightarrow> string \<times> string \<Rightarrow> wiring \<Rightarrow> bool" where
  "output_bound node p = (\<lambda>(port_name, wire) w. \<exists>q. map_of (out_ports p) port_name = Some q \<and>
     map_of (producers w) wire = Some (node, port_name) \<and> map_of (producer_schemas w) wire = Some (pt_schema q) \<and>
     wire \<notin> set (keys_of (unknown_wires w)))"

lemma output_bound_grows: "output_bound node p x w \<Longrightarrow> wiring_grows w w' \<Longrightarrow> output_bound node p x w'"
proof -
  assume o': "output_bound node p x w" and g: "wiring_grows w w'"
  obtain port_name wire where x: "x = (port_name, wire)" by force
  from o' obtain q where q: "map_of (out_ports p) port_name = Some q" "map_of (producers w) wire = Some (node, port_name)"
    "map_of (producer_schemas w) wire = Some (pt_schema q)" "wire \<notin> set (keys_of (unknown_wires w))"
    by (auto simp: output_bound_def x simp del: set_map)
  then have "wire \<in> set (keys_of (producers w))" by (simp add: key_unknown del: set_map)
  with g q(4) have "wire \<notin> set (keys_of (unknown_wires w'))" by (simp add: wiring_grows_def key_unknown del: set_map)
  moreover have "map_of (producers w') wire = Some (node, port_name)" "map_of (producer_schemas w') wire = Some (pt_schema q)"
    using g q(2,3) map_leD unfolding wiring_grows_def by fast+
  ultimately show ?thesis using q(1) by (simp add: output_bound_def x del: set_map)
qed

lemma add_output_step:
  assumes "add_output label node p x w = Inr w'" "wiring_ok initial sources w" "ports_ok p"
  shows "wiring_ok initial sources w' \<and> wiring_grows w w' \<and> output_bound node p x w'"
proof -
  obtain port_name wire where x: "x = (port_name, wire)" by force
  from assms(1) obtain q where q: "map_of (producers w) wire = None" "map_of (out_ports p) port_name = Some q"
    "w' = add_producer wire (node, port_name) (pt_schema q) (pt_required q) w"
    by (auto simp: add_output_def x split: option.splits)
  then have new: "wire \<notin> set (keys_of (producers w))" by (simp add: key_unknown del: set_map)
  then have "wire \<notin> set (keys_of (unknown_wires w))" using assms(2) by (auto simp: wiring_ok_def simp del: set_map)
  moreover have "contract_ok (pt_schema q)" using assms(3) map_of_in_set[OF q(2)] by (auto simp: ports_ok_def list_all_iff)
  ultimately show ?thesis using add_producer_grows[OF new assms(2), of "pt_schema q" "(node, port_name)" "pt_required q"] q
    by (simp add: output_bound_def x add_producer_def update_conv' del: set_map)
qed

definition node_bound :: "string \<Rightarrow> 'a node_state \<Rightarrow> bool" where
  "node_bound node st \<longleftrightarrow> (\<exists>p b. map_of (ns_ports st) node = Some p \<and> map_of (ns_bindings st) node = Some b \<and> ports_ok p \<and>
     distinct (keys_of (i_inputs b)) \<and> distinct (keys_of (i_outputs b)) \<and> set (keys_of (i_inputs b)) \<subseteq> set (keys_of (in_ports p)) \<and>
     (\<forall>(n, q) \<in> set (in_ports p). pt_required q \<longrightarrow> n \<in> set (keys_of (i_inputs b))) \<and>
     (\<forall>x \<in> set (i_outputs b). output_bound node p x (ns_wiring st)))"

definition nodes_grow :: "'a node_state \<Rightarrow> 'a node_state \<Rightarrow> bool" where
  "nodes_grow st st' \<longleftrightarrow> map_of (ns_ports st) \<subseteq>\<^sub>m map_of (ns_ports st') \<and> map_of (ns_bindings st) \<subseteq>\<^sub>m map_of (ns_bindings st') \<and>
     wiring_grows (ns_wiring st) (ns_wiring st')"

lemma node_bound_grows: "node_bound node st \<Longrightarrow> nodes_grow st st' \<Longrightarrow> node_bound node st'"
proof -
  assume n: "node_bound node st" and "nodes_grow st st'"
  then have g: "map_of (ns_ports st) \<subseteq>\<^sub>m map_of (ns_ports st')" "map_of (ns_bindings st) \<subseteq>\<^sub>m map_of (ns_bindings st')"
    "wiring_grows (ns_wiring st) (ns_wiring st')" by (simp_all add: nodes_grow_def)
  from n obtain p b where p: "map_of (ns_ports st) node = Some p" "map_of (ns_bindings st) node = Some b"
    and rest: "ports_ok p" "distinct (keys_of (i_inputs b))" "distinct (keys_of (i_outputs b))" "set (keys_of (i_inputs b)) \<subseteq> set (keys_of (in_ports p))"
      "\<forall>(n, q) \<in> set (in_ports p). pt_required q \<longrightarrow> n \<in> set (keys_of (i_inputs b))"
      "\<forall>x \<in> set (i_outputs b). output_bound node p x (ns_wiring st)"
    unfolding node_bound_def by blast
  have "map_of (ns_ports st') node = Some p" "map_of (ns_bindings st') node = Some b"
    by (rule map_leD[OF g(1) p(1)], rule map_leD[OF g(2) p(2)])
  moreover have "\<forall>x \<in> set (i_outputs b). output_bound node p x (ns_wiring st')" using rest(6) output_bound_grows[OF _ g(3)] by blast
  ultimately show ?thesis unfolding node_bound_def using rest by blast
qed

lemma resolved_definition_wf:
  assumes "resolve_verified_module_definition svc definitions verified label kind module_id version = Inr (def, verified')"
    and "\<And>a. wf_val (definition_material svc a)"
  shows "wf_val def"
proof -
  let ?key = "definition_key kind module_id version"
  from assms(1) obtain repository where "definitions = PDict repository"
    by (cases definitions) (simp_all add: resolve_verified_module_definition_def)
  note r = assms(1)[unfolded this resolve_verified_module_definition_def Let_def pyval.case]
  have "\<exists>a. def = definition_material svc a"
  proof (cases "map_of verified ?key")
    case None
    note r = r[unfolded None option.case]
    from r obtain indexed where i: "map_of repository (KStr ?key) = Some indexed"
      by (cases "map_of repository (KStr ?key)") simp_all
    then show ?thesis using r by (cases indexed) (auto simp: bind_r_Inr_iff split: if_splits)
  qed (use r in \<open>auto split: if_splits\<close>)
  with assms(2) show ?thesis by blast
qed

lemma definition_ports_ok:
  assumes "definition_ports svc def = Inr p" "wf_val def" shows "ports_ok p"
proof -
  from assms(1) obtain raw label where r: "field (dict_items def) ''ports'' = Inr raw" "normalize_ports label raw = Inr p"
    by (auto simp: definition_ports_def bind_r_Inr_iff)
  have "wf_val (PDict (dict_items def))" using assms(2) by (cases def) (simp_all add: dict_items_def)
  with r normalize_ports_ok field_wf show ?thesis by blast
qed

lemma validate_instance_ok:
  assumes "validate_instance svc label node instance def = Inr (p, config, ins, outs)" "wf_val def" "wf_val instance"
  shows "ports_ok p \<and> distinct (keys_of ins) \<and> distinct (keys_of outs) \<and> set (keys_of ins) \<subseteq> set (keys_of (in_ports p)) \<and>
    (\<forall>(n, q) \<in> set (in_ports p). pt_required q \<longrightarrow> n \<in> set (keys_of ins))"
proof -
  from assms(1) obtain d here where d: "require_exact_fields here module_instance_fields module_instance_fields instance = Inr d"
    "definition_ports svc def = Inr p" "port_bindings here d ''inputs'' (in_ports p) = Inr ins"
    "port_bindings here d ''outputs'' (out_ports p) = Inr outs"
    by (auto simp: validate_instance_def Let_def bind_r_Inr_iff)
  have "wf_val (PDict d)" using require_exact_fieldsD(1)[OF d(1)] assms(3) by simp
  with port_bindings_ok[OF d(3)] port_bindings_ok[OF d(4)] definition_ports_ok[OF d(2) assms(2)] show ?thesis by blast
qed

lemma compile_node_step:
  assumes "compile_node svc definitions kinds label instances node st = Inr st'"
    and "node \<notin> set (keys_of (ns_ports st))" "node \<notin> set (keys_of (ns_bindings st))" "wiring_ok initial sources (ns_wiring st)"
    and "wf_val (PDict instances)" "\<And>a. wf_val (definition_material svc a)"
  shows "wiring_ok initial sources (ns_wiring st') \<and> nodes_grow st st' \<and> node_bound node st' \<and>
    set (keys_of (ns_ports st')) = insert node (set (keys_of (ns_ports st))) \<and>
    set (keys_of (ns_bindings st')) = insert node (set (keys_of (ns_bindings st)))"
proof -
  from assms(1) obtain raw where i: "map_of instances (KStr node) = Some raw"
    by (cases "map_of instances (KStr node)") (simp_all add: compile_node_def)
  have wf: "wf_val raw" using wf_val_map_of[OF assms(5) i] .
  from assms(1) have "raw \<noteq> PNone" by (auto simp: compile_node_def i)
  with assms(1) have "bind_r (kind_allowed svc label node kinds raw) (\<lambda>_.
          bind_r (instance_definition svc definitions (ns_verified st) label raw) (\<lambda>(def, verified).
          bind_r (validate_instance svc label node raw def) (\<lambda>(ports, config, ins, outs).
          bind_r (fold_r (add_output label node ports) (sort_key fst outs) (ns_wiring st)) (\<lambda>w.
          Inr \<lparr>ns_verified = verified, ns_wiring = w,
            ns_ports = AList.update node ports (ns_ports st),
            ns_bindings = AList.update node
              \<lparr>i_kind = identity_text raw ''kind'', i_module = identity_text raw ''moduleId'',
               i_version = identity_text raw ''version'', i_config = config, i_inputs = ins, i_outputs = outs\<rparr>
              (ns_bindings st)\<rparr>)))) = Inr st'"
    by (cases raw) (simp_all add: compile_node_def i)
  then obtain def verified p config ins outs w where c:
    "instance_definition svc definitions (ns_verified st) label raw = Inr (def, verified)"
    "validate_instance svc label node raw def = Inr (p, config, ins, outs)"
    "fold_r (add_output label node p) (sort_key fst outs) (ns_wiring st) = Inr w"
    and st': "st' = \<lparr>ns_verified = verified, ns_wiring = w,
            ns_ports = AList.update node p (ns_ports st),
            ns_bindings = AList.update node
              \<lparr>i_kind = identity_text raw ''kind'', i_module = identity_text raw ''moduleId'',
               i_version = identity_text raw ''version'', i_config = config, i_inputs = ins, i_outputs = outs\<rparr>
              (ns_bindings st)\<rparr>"
    by (auto simp: bind_r_Inr_iff)
  from c(1) obtain l k m v where "resolve_verified_module_definition svc definitions (ns_verified st) l k m v = Inr (def, verified)"
    by (auto simp: instance_definition_def bind_r_Inr_iff)
  then have "wf_val def" by (rule resolved_definition_wf[OF _ assms(6)])
  note vi = validate_instance_ok[OF c(2) this wf]
  have w: "wiring_ok initial sources w \<and> wiring_grows (ns_wiring st) w \<and> (\<forall>x \<in> set (sort_key fst outs). output_bound node p x w)"
    by (rule fold_r_collects[where I = "\<lambda>_. wiring_ok initial sources", OF c(3) assms(4) add_output_step])
      (use vi wiring_grows_refl wiring_grows_trans output_bound_grows in blast)+
  obtain b where b: "ns_bindings st' = AList.update node b (ns_bindings st)" "i_inputs b = ins" "i_outputs b = outs"
    by (simp add: st')
  have parts: "ns_wiring st' = w" "ns_ports st' = AList.update node p (ns_ports st)" by (simp_all add: st')
  have "nodes_grow st st'"
    unfolding nodes_grow_def parts b(1) by (intro conjI map_le_update disjI1 assms(2,3)) (use w in blast)
  moreover have "node_bound node st'"
    unfolding node_bound_def parts b(1) using vi w b(2,3) by (simp add: update_conv' del: set_map)
  ultimately show ?thesis using w unfolding parts b(1) keys_update by blast
qed

lemma compile_nodes_ok:
  assumes "fold_r (compile_node svc definitions kinds label instances) nodes st = Inr st'" "distinct nodes"
    and "ns_ports st = []" "ns_bindings st = []" "wiring_ok initial sources (ns_wiring st)"
    and "wf_val (PDict instances)" "\<And>a. wf_val (definition_material svc a)"
  shows "wiring_ok initial sources (ns_wiring st') \<and> wiring_grows (ns_wiring st) (ns_wiring st') \<and>
    (\<forall>node \<in> set nodes. node_bound node st')"
proof -
  let ?I = "\<lambda>nodes st. distinct nodes \<and> set nodes \<inter> set (keys_of (ns_ports st)) = {} \<and>
    set nodes \<inter> set (keys_of (ns_bindings st)) = {} \<and> wiring_ok initial sources (ns_wiring st)"
  have "?I [] st' \<and> nodes_grow st st' \<and> (\<forall>node \<in> set nodes. node_bound node st')"
  proof (rule fold_r_collects[where I = ?I, OF assms(1)])
    fix node nodes st st' assume "?I (node # nodes) st" "compile_node svc definitions kinds label instances node st = Inr st'"
    with compile_node_step[OF _ _ _ _ assms(6,7), of definitions kinds label node st st' initial sources]
    show "?I nodes st' \<and> nodes_grow st st' \<and> node_bound node st'" by auto
  next
    show "nodes_grow st st" for st :: "'a node_state" by (simp add: nodes_grow_def wiring_grows_refl)
    show "nodes_grow a c" if "nodes_grow a b" "nodes_grow b c" for a b c :: "'a node_state"
      using that unfolding nodes_grow_def by (auto intro: map_le_trans wiring_grows_trans)
  qed (use assms node_bound_grows in auto)
  then show ?thesis by (simp add: nodes_grow_def)
qed

subsection \<open>Wires into nodes\<close>

definition input_fed :: "wiring \<Rightarrow> ports \<Rightarrow> string \<times> string \<Rightarrow> edge_state \<Rightarrow> bool" where
  "input_fed w ports = (\<lambda>(port_name, wire) st. \<exists>p. map_of (in_ports ports) port_name = Some p \<and>
     (\<forall>owner. map_of (producers w) wire = Some owner \<longrightarrow>
       (if wire \<in> set (keys_of (unknown_wires w))
        then \<exists>e \<in> set (es_edges st). e_wire e = wire \<and> ep_node (e_from e) = fst owner \<and> ep_schema (e_from e) = pt_schema p
        else \<exists>s. map_of (producer_schemas w) wire = Some s \<and>
          schemas_compatible (schema_to_py s) (schema_to_py (pt_schema p)) = Inr True)))"

definition edges_grow :: "edge_state \<Rightarrow> edge_state \<Rightarrow> bool" where
  "edges_grow st st' \<longleftrightarrow> set (es_edges st) \<subseteq> set (es_edges st')"

lemma input_fed_grows: "input_fed w ports x st \<Longrightarrow> edges_grow st st' \<Longrightarrow> input_fed w ports x st'"
  by (cases x) (auto simp: input_fed_def edges_grow_def simp del: set_map split: if_splits, blast)

definition edges_ok :: "edge list \<Rightarrow> bool" where
  "edges_ok es \<longleftrightarrow> (\<forall>e \<in> set es. contract_ok (ep_schema (e_from e)))"

text \<open>All contracts of producers are contracts.\<close>

definition producers_ok :: "wiring \<Rightarrow> bool" where
  "producers_ok w \<longleftrightarrow> (\<forall>wire s. map_of (producer_schemas w) wire = Some s \<longrightarrow> contract_ok s)"

lemma connect_input_step:
  assumes "connect_input label strict w nodes node ports x st = Inr st'" "ports_ok ports" "producers_ok w" "edges_ok (es_edges st)"
  shows "edges_ok (es_edges st') \<and> edges_grow st st' \<and> input_fed w ports x st'"
proof -
  obtain port_name wire where x: "x = (port_name, wire)" by force
  from assms(1) obtain p where p: "map_of (in_ports ports) port_name = Some p"
    by (auto simp: connect_input_def x of_wire_def bind_r_Inr_iff split: option.splits)
  have ok: "contract_ok (pt_schema p)" using assms(2) map_of_in_set[OF p] by (auto simp: ports_ok_def list_all_iff)
  show ?thesis
  proof (cases "map_of (producers w) wire")
    case None
    then have "st' = st" using assms(1) by (simp add: connect_input_def x of_wire_def p split: if_splits)
    then show ?thesis using None p assms(4) by (simp add: edges_grow_def input_fed_def x)
  next
    case (Some owner)
    from assms(1) obtain required where r: "normalize_data_key_schema_uncached ''Module port'' (schema_to_py (pt_schema p)) = Inr required"
      by (auto simp: connect_input_def x of_wire_def p Some bind_r_Inr_iff split: if_splits)
    note same = normalize_same[OF ok r]
    show ?thesis
    proof (cases "map_of (unknown_wires w) wire")
      case None
      with assms(1) obtain provided where s: "map_of (producer_schemas w) wire = Some provided"
        "schemas_compatible (schema_to_py provided) (schema_to_py (pt_schema p)) = Inr True"
        "es_edges st' = es_edges st @ [edge_of wire owner provided node port_name (pt_schema p)]"
        by (auto simp: connect_input_def x of_wire_def p Some bind_r_Inr_iff mismatch_def r[unfolded same] split: if_splits option.split_asm)
      moreover have "contract_ok provided" using assms(3) s(1) by (simp add: producers_ok_def)
      ultimately show ?thesis using p None assms(4)
        by (auto simp: edges_grow_def input_fed_def x key_unknown edges_ok_def edge_of_def simp del: set_map)
    next
      case (Some u)
      with assms(1) \<open>map_of (producers w) wire = Some owner\<close>
      have "es_edges st' = es_edges st @ [edge_of wire owner (pt_schema p) node port_name (pt_schema p)]"
        by (auto simp: connect_input_def x of_wire_def p bind_r_Inr_iff r[unfolded same] split: if_splits prod.split_asm)
      then show ?thesis using p Some \<open>map_of (producers w) wire = Some owner\<close> assms(4) ok
        by (auto simp: edges_grow_def input_fed_def x key_unknown edge_of_def edges_ok_def simp del: set_map)
    qed
  qed
qed

definition node_fed :: "wiring \<Rightarrow> (string \<times> ports) list \<Rightarrow> (string \<times> instance_binding) list \<Rightarrow> string \<Rightarrow> edge_state \<Rightarrow> bool" where
  "node_fed w all_ports all_bindings node st \<longleftrightarrow> (\<exists>p b. map_of all_ports node = Some p \<and> map_of all_bindings node = Some b \<and>
     (\<forall>x \<in> set (i_inputs b). input_fed w p x st))"

lemma connect_node_step:
  assumes "connect_node label strict w nodes all_ports all_bindings node st = Inr st'"
    and "\<And>p. map_of all_ports node = Some p \<Longrightarrow> ports_ok p" "producers_ok w" "edges_ok (es_edges st)"
  shows "edges_ok (es_edges st') \<and> edges_grow st st' \<and> node_fed w all_ports all_bindings node st'"
proof -
  from assms(1) obtain p b where c: "map_of all_ports node = Some p" "map_of all_bindings node = Some b"
    "fold_r (connect_input label strict w nodes node p) (sort_key fst (i_inputs b)) st = Inr st'"
    by (auto simp: connect_node_def of_wire_def bind_r_Inr_iff split: option.split_asm)
  have "edges_ok (es_edges st') \<and> edges_grow st st' \<and> (\<forall>x \<in> set (sort_key fst (i_inputs b)). input_fed w p x st')"
    by (rule fold_r_collects[where I = "\<lambda>_ st. edges_ok (es_edges st)", OF c(3) assms(4)])
      (use connect_input_step[OF _ assms(2)[OF c(1)] assms(3)] input_fed_grows in \<open>auto simp: edges_grow_def\<close>)
  with c(1,2) show ?thesis by (auto simp: node_fed_def)
qed

lemma connect_nodes_ok:
  assumes "fold_r (connect_node label strict w all all_ports all_bindings) nodes st = Inr st'"
    and "\<And>node p. node \<in> set nodes \<Longrightarrow> map_of all_ports node = Some p \<Longrightarrow> ports_ok p"
    and "producers_ok w" "edges_ok (es_edges st)"
  shows "edges_ok (es_edges st') \<and> (\<forall>node \<in> set nodes. node_fed w all_ports all_bindings node st')"
proof -
  let ?I = "\<lambda>xs st. set xs \<subseteq> set nodes \<and> edges_ok (es_edges st)"
  have "?I [] st' \<and> edges_grow st st' \<and> (\<forall>node \<in> set nodes. node_fed w all_ports all_bindings node st')"
  proof (rule fold_r_collects[where I = ?I, OF assms(1)])
    show "node_fed w all_ports all_bindings node st'" if "node_fed w all_ports all_bindings node st" "edges_grow st st'" for node st st'
      using that input_fed_grows unfolding node_fed_def by blast
  next
    fix node xs st st' assume i: "?I (node # xs) st" and c: "connect_node label strict w all all_ports all_bindings node st = Inr st'"
    then have n: "node \<in> set nodes" "set xs \<subseteq> set nodes" "edges_ok (es_edges st)" by simp_all
    show "?I xs st' \<and> edges_grow st st' \<and> node_fed w all_ports all_bindings node st'"
      using connect_node_step[OF c assms(2)[OF n(1)] assms(3) n(3)] n(2) by blast
  qed (use assms(4) in \<open>auto simp: edges_grow_def\<close>)
  then show ?thesis by blast
qed

subsection \<open>Sources\<close>

lemma source_state_contracts_ok:
  assumes "source_state_of limit what raw required = Inr st" "list_all (\<lambda>(k, s). wf_val s) raw"
  shows "contracts_ok (fst st)"
proof -
  from assms(1) obtain ns where n: "map_r (\<lambda>(key, s). bind_r (normalize_data_key_schema_uncached key s) (\<lambda>n. Inr (key, schema_to_py n))) raw = Inr ns"
    "expand_contracts_uncached limit ns = Inr (fst st)"
    by (auto simp: source_state_of_def normalized_expansion_def bind_r_Inr_iff Let_def split: if_splits)
  have "wf_val v" if "(k, v) \<in> set ns" for k v
  proof -
    from map_r_in[OF n(1) that] obtain s t where "(k, s) \<in> set raw" "normalize_data_key_schema_uncached k s = Inr t" "v = schema_to_py t"
      by (auto simp: bind_r_Inr_iff)
    then show ?thesis using normalized_contract schema_to_py_wf assms(2) by (auto simp: list_all_iff)
  qed
  then show ?thesis using expand_contracts_ok[OF n(2)] by (auto simp: list_all_iff)
qed

definition wf_request :: "'a services \<Rightarrow> 'a graph_request \<Rightarrow> bool" where
  "wf_request svc rq \<longleftrightarrow> list_all (\<lambda>(k, s). wf_val s) (rq_contracts rq) \<and>
     list_all (\<lambda>(src, raw). list_all (\<lambda>(k, s). wf_val s) raw) (rq_source_contracts rq) \<and> wf_val (rq_instances rq) \<and>
     (\<forall>a. wf_val (definition_material svc a))"

lemma states_contracts_ok:
  assumes "source_state_of limit what (rq_contracts rq) required = Inr initial"
    and "graph_sources limit label (rq_source_contracts rq) source_required g = Inr sources" and "wf_request svc rq"
    and "state_of initial sources source = Inr st"
  shows "contracts_ok (fst st)"
proof (cases source)
  case None
  then show ?thesis using assms(4) source_state_contracts_ok[OF assms(1)] assms(3) by (simp add: state_of_def wf_request_def)
next
  case (Some src)
  with assms(4) have "(src, st) \<in> set sources" by (auto simp: state_of_def split: option.splits dest: map_of_in_set)
  from map_r_in[OF assms(2)[unfolded graph_sources_def] this] obtain raw l required where r: "map_of (rq_source_contracts rq) src = Some raw"
    "source_state_of limit l raw required = Inr st"
    by (auto simp: bind_r_Inr_iff split: option.splits)
  have "list_all (\<lambda>(k, s). wf_val s) raw" using map_of_in_set[OF r(1)] assms(3) by (auto simp: wf_request_def list_all_iff)
  with r(2) show ?thesis by (rule source_state_contracts_ok)
qed

lemma plain_consumed: "roots_of contracts cs \<Longrightarrow> contracts_ok contracts \<Longrightarrow> plain_roots cs"
  unfolding roots_of_def plain_roots_def using contracts_okD by fast

lemma consumed_state_lookup:
  assumes "consumed_state limit cs present = Inr st" "plain_roots cs" "CHR ''.'' \<notin> set m"
  shows "map_of (fst st) m = map_of cs m"
  using assms roots_expanded by (auto simp: consumed_state_def bind_r_Inr_iff)

definition plan_contracts :: "compiled_graph \<Rightarrow> string option \<Rightarrow> contracts option" where
  "plan_contracts plan source =
     (case source of None \<Rightarrow> Some (input_contracts plan) | Some src \<Rightarrow> map_option fst (map_of (input_sources plan) src))"

lemma resolve_root:
  assumes "split_data_path path = Inr parts" "map_of cs (hd parts) = map_of cs' (hd parts)"
  shows "resolve_expanded_contract_path cs path = resolve_expanded_contract_path cs' path"
  by (simp add: resolve_expanded_contract_path_def assms)

lemma compatible_accepts:
  assumes "schemas_compatible (schema_to_py s) (schema_to_py t) = Inr True" "contract_ok s" "contract_ok t" "wf_val v" "accepts v s"
  shows "accepts v t"
proof -
  have "normalized_schemas_compatible s t = Inr True"
    using assms(1) normalize_schema_to_py[OF assms(2)] normalize_schema_to_py[OF assms(3)] by (simp add: schemas_compatible_def)
  moreover have "part_ok s" "part_ok t" using assms(2,3) schema_ok_shape by blast+
  ultimately show ?thesis using sem.compatible_sound assms(4,5) by blast
qed

subsection \<open>Compiled plans\<close>

text \<open>What a plan has for a node: its ports and its binding, every required port bound, the wires it writes
  its own, the wires it reads unproduced, proven compatible, or without contract and then the wire of an edge
  that carries the contract of the port\<close>

definition port_fed :: "'a compilation \<Rightarrow> ports \<Rightarrow> string \<times> string \<Rightarrow> bool" where
  "port_fed c ports = (\<lambda>(port_name, wire). \<exists>p. map_of (in_ports ports) port_name = Some p \<and>
     (\<forall>owner. map_of (producers (c_wiring c)) wire = Some owner \<longrightarrow>
       (if wire \<in> set (keys_of (unknown_wires (c_wiring c)))
        then \<exists>e \<in> set (edges (c_plan c)). e_wire e = wire \<and> ep_node (e_from e) = fst owner \<and> ep_schema (e_from e) = pt_schema p
        else \<exists>s. map_of (producer_schemas (c_wiring c)) wire = Some s \<and>
          schemas_compatible (schema_to_py s) (schema_to_py (pt_schema p)) = Inr True)))"

definition node_ready :: "'a compilation \<Rightarrow> string \<Rightarrow> ports \<Rightarrow> instance_binding \<Rightarrow> bool" where
  "node_ready c node p b \<longleftrightarrow>
     map_of (c_ports c) node = Some p \<and> map_of (bindings (c_plan c)) node = Some b \<and> ports_ok p \<and>
     distinct (keys_of (i_inputs b)) \<and> distinct (keys_of (i_outputs b)) \<and> set (keys_of (i_inputs b)) \<subseteq> set (keys_of (in_ports p)) \<and>
     (\<forall>(n, q) \<in> set (in_ports p). pt_required q \<longrightarrow> n \<in> set (keys_of (i_inputs b))) \<and>
     (\<forall>x \<in> set (i_inputs b). port_fed c p x) \<and> (\<forall>x \<in> set (i_outputs b). output_bound node p x (c_wiring c))"

text \<open>A boundary: the producer of its wire, and the contract of its DataKey in the plan's own contracts\<close>

definition boundary_ready :: "'a compilation \<Rightarrow> string \<times> boundary \<Rightarrow> bool" where
  "boundary_ready c = (\<lambda>(bid, b). map_of (producers (c_wiring c)) (b_wire b) = Some (bid, ''value'') \<and>
     (b_wire b \<notin> set (keys_of (unknown_wires (c_wiring c))) \<longrightarrow>
       (\<exists>cs s. plan_contracts (c_plan c) (b_source b) = Some cs \<and> resolve_expanded_contract_path cs (b_key b) = Inr (Some s) \<and>
         map_of (producer_schemas (c_wiring c)) (b_wire b) = Some s \<and> contract_ok s)))"

lemma assembled_plan:
  assumes "assemble_plan limit label initial sources ins outs ns es order = Inr c"
  shows "topology (c_plan c) = order" "cg_inputs (c_plan c) = ins" "bindings (c_plan c) = ns_bindings ns" "c_ports c = ns_ports ns"
    "c_wiring c = ns_wiring ns" "set (es_edges es) \<subseteq> set (edges (c_plan c))"
    "producers_ok (ns_wiring ns) \<Longrightarrow> edges_ok (es_edges es) \<Longrightarrow> edges_ok (edges (c_plan c))"
    "consumed_state limit (consumed_initial (ns_wiring ns)) (snd initial) =
      Inr (input_contracts (c_plan c), input_required_roots (c_plan c))"
    "map_r (\<lambda>(src, consumed).
          bind_r (state_of initial sources (Some src)) (\<lambda>(contracts, present).
          bind_r (consumed_state limit consumed present) (\<lambda>st. Inr (src, st)))) (consumed_sources (ns_wiring ns)) =
      Inr (input_sources (c_plan c))"
proof -
  let ?w = "ns_wiring ns"
  from assms obtain outs' r os where a: "ordered_outputs ?w order outs = Inr outs'" "init_reducer [] {} = Inr r"
    "fold_r (write_output limit label ?w) outs' \<lparr>os_edges = es_edges es, os_reducer = r, os_required = [], os_consumed = es_consumed es\<rparr> = Inr os"
    "set (os_edges os) = set (edges (c_plan c))"
    and rest: "topology (c_plan c) = order" "cg_inputs (c_plan c) = ins" "bindings (c_plan c) = ns_bindings ns" "c_ports c = ns_ports ns"
    "c_wiring c = ns_wiring ns"
    "consumed_state limit (consumed_initial (ns_wiring ns)) (snd initial) =
      Inr (input_contracts (c_plan c), input_required_roots (c_plan c))"
    "map_r (\<lambda>(src, consumed).
          bind_r (state_of initial sources (Some src)) (\<lambda>(contracts, present).
          bind_r (consumed_state limit consumed present) (\<lambda>st. Inr (src, st)))) (consumed_sources (ns_wiring ns)) =
      Inr (input_sources (c_plan c))"
    by (auto simp: assemble_plan_def Let_def bind_r_Inr_iff)
  show "topology (c_plan c) = order" "cg_inputs (c_plan c) = ins" "bindings (c_plan c) = ns_bindings ns" "c_ports c = ns_ports ns"
    "c_wiring c = ns_wiring ns"
    "consumed_state limit (consumed_initial (ns_wiring ns)) (snd initial) =
      Inr (input_contracts (c_plan c), input_required_roots (c_plan c))"
    "map_r (\<lambda>(src, consumed).
          bind_r (state_of initial sources (Some src)) (\<lambda>(contracts, present).
          bind_r (consumed_state limit consumed present) (\<lambda>st. Inr (src, st)))) (consumed_sources (ns_wiring ns)) =
      Inr (input_sources (c_plan c))" by fact+
  have step: "set (os_edges st) \<subseteq> set (os_edges st') \<and> (producers_ok ?w \<and> edges_ok (os_edges st) \<longrightarrow> edges_ok (os_edges st'))"
    if "write_output limit label ?w x st = Inr st'" for x st st'
  proof -
    obtain bid b where x: "x = (bid, b)" by force
    from that obtain owner s where o': "os_edges st' = os_edges st @ [edge_of (b_wire b) owner (if truthy s then s else SFalse) bid ''value''
        (if truthy s then s else SFalse)]" "map_of (producer_schemas ?w) (b_wire b) = Some s"
      by (auto simp: x write_output_def bind_r_Inr_iff Let_def of_wire_def split: option.split_asm)
    then show ?thesis by (auto simp: edges_ok_def edge_of_def producers_ok_def)
  qed
  let ?le = "\<lambda>st st'. set (os_edges st) \<subseteq> set (os_edges st') \<and> (producers_ok ?w \<and> edges_ok (os_edges st) \<longrightarrow> edges_ok (os_edges st'))"
  have "True \<and> ?le \<lparr>os_edges = es_edges es, os_reducer = r, os_required = [], os_consumed = es_consumed es\<rparr> os \<and> (\<forall>x \<in> set outs'. True)"
    by (rule fold_r_collects[where I = "\<lambda>_ _. True" and le = ?le and Q = "\<lambda>_ _. True", OF a(3)]) (use step in auto)
  with a(4) show "set (es_edges es) \<subseteq> set (edges (c_plan c))"
    "producers_ok (ns_wiring ns) \<Longrightarrow> edges_ok (es_edges es) \<Longrightarrow> edges_ok (edges (c_plan c))"
    by (simp_all add: edges_ok_def)
qed

lemma map_r_lookup:
  "map_r f xs = Inr ys \<Longrightarrow> (\<And>k x y. f (k, x) = Inr y \<Longrightarrow> fst y = k) \<Longrightarrow> map_of xs k = Some x \<Longrightarrow>
   \<exists>y. f (k, x) = Inr (k, y) \<and> map_of ys k = Some y"
proof (induction xs arbitrary: ys)
  case (Cons a xs)
  obtain k' x' where a: "a = (k', x')" by force
  from Cons.prems(1) obtain y ys' where y: "f (k', x') = Inr y" "map_r f xs = Inr ys'" "ys = y # ys'" by (auto simp: a bind_r_Inr_iff)
  have "fst y = k'" using Cons.prems(2)[OF y(1)] .
  with Cons.IH[OF y(2) Cons.prems(2)] Cons.prems(3) y show ?case by (cases y) (auto simp: a split: if_splits)
qed simp

lemma plan_contracts_lookup:
  assumes "wiring_ok initial sources w" "state_of initial sources source = Inr st" "contracts_ok (fst st)"
    and "consumed_state limit (consumed_initial w) (snd initial) = Inr (input_contracts plan, input_required_roots plan)"
    and "map_r (\<lambda>(src, consumed).
          bind_r (state_of initial sources (Some src)) (\<lambda>(contracts, present).
          bind_r (consumed_state limit consumed present) (\<lambda>st. Inr (src, st)))) (consumed_sources w) = Inr (input_sources plan)"
  shows "\<exists>cs. plan_contracts plan source = Some cs \<and> (\<forall>m. CHR ''.'' \<notin> set m \<longrightarrow> map_of cs m = map_of (consumed w source) m)"
proof -
  have "roots_of (fst st) (consumed w source)" using assms(1,2) unfolding wiring_ok_def by blast
  then have plain: "plain_roots (consumed w source)" using assms(3) by (rule plain_consumed)
  show ?thesis
  proof (cases source)
    case None
    with consumed_state_lookup[OF assms(4)] plain show ?thesis by (simp add: plan_contracts_def consumed_def)
  next
    case (Some src)
    have "src \<in> set (keys_of sources)" using assms(2) by (simp add: Some state_of_def key_unknown del: set_map split: option.split_asm)
    also have "keys_of sources = keys_of (consumed_sources w)" using assms(1) by (simp add: wiring_ok_def)
    finally obtain cs where cs: "map_of (consumed_sources w) src = Some cs" using key_lookup by metis
    have "\<exists>y. (\<lambda>(src, consumed).
          bind_r (state_of initial sources (Some src)) (\<lambda>(contracts, present).
          bind_r (consumed_state limit consumed present) (\<lambda>st. Inr (src, st)))) (src, cs) = Inr (src, y) \<and>
        map_of (input_sources plan) src = Some y"
      by (rule map_r_lookup[OF assms(5) _ cs]) (auto simp: bind_r_Inr_iff)
    then obtain present y where y: "consumed_state limit cs present = Inr y" "map_of (input_sources plan) src = Some y"
      by (auto simp: bind_r_Inr_iff)
    have "consumed w source = cs" by (simp add: consumed_def Some cs)
    with consumed_state_lookup[OF y(1)] plain y(2) show ?thesis by (simp add: plan_contracts_def Some)
  qed
qed

lemma single_distinct: "\<forall>n \<in> set xs. \<not> 1 < length (filter ((=) n) xs) \<Longrightarrow> distinct xs"
proof (induction xs)
  case (Cons x xs)
  have "\<forall>n \<in> set xs. \<not> 1 < length (filter ((=) n) xs)" using Cons.prems by (auto split: if_splits)
  moreover have "x \<notin> set xs" using Cons.prems by (auto simp: filter_empty_conv)
  ultimately show ?case using Cons.IH by simp
qed simp

lemma check_nodes_distinct: "check_nodes label g instances = Inr u \<Longrightarrow> distinct (g_nodes g)"
proof -
  assume "check_nodes label g instances = Inr u"
  then have "sorted_set (filter (\<lambda>n. 1 < length (filter ((=) n) (g_nodes g))) (g_nodes g)) = []"
    by (auto simp: check_nodes_def Let_def bind_r_Inr_iff guard_r_Inr_iff)
  then have "set (filter (\<lambda>n. 1 < length (filter ((=) n) (g_nodes g))) (g_nodes g)) = {}"
    using sorted_set_props(1) by (metis set_empty2)
  then show ?thesis by (intro single_distinct) (simp add: filter_empty_conv)
qed

lemma ordered_boundaries_set: "ordered_boundaries bs = Inr ins \<Longrightarrow> set ins = set bs"
proof -
  assume "ordered_boundaries bs = Inr ins"
  then obtain ranked where r: "map_r (\<lambda>(bid, b). bind_r (canonical_data_key_order (b_key b) bid) (\<lambda>rank. Inr (rank, (bid, b)))) bs = Inr ranked"
    "ins = map snd (sort_key fst ranked)" by (auto simp: ordered_boundaries_def bind_r_Inr_iff)
  have "map snd ranked = bs" using r(1) by (induction bs arbitrary: ranked) (auto simp: bind_r_Inr_iff)
  then show ?thesis using r(2) by (metis set_map set_sort)
qed

lemma empty_wiring_ok:
  assumes "graph_sources limit label source_contracts source_required g = Inr sources"
  shows "wiring_ok initial sources (empty_wiring sources)"
proof -
  have none: "cs = []" if "map_of (map (\<lambda>(src, st). (src, [])) sources) src = Some cs" for src and cs :: contracts
    using that by (induction sources) (auto split: if_splits)
  have "consumed (empty_wiring sources) source = []" for source
    by (auto simp: consumed_def empty_wiring_def dest: none split: option.split)
  then show ?thesis by (auto simp: wiring_ok_def empty_wiring_def roots_of_def)
qed

lemma bound_boundary_ready:
  assumes "boundary_bound initial sources x (c_wiring c)" "wiring_ok initial sources (c_wiring c)"
    and "\<And>source st. state_of initial sources source = Inr st \<Longrightarrow> contracts_ok (fst st)"
    and "consumed_state limit (consumed_initial (c_wiring c)) (snd initial) =
      Inr (input_contracts (c_plan c), input_required_roots (c_plan c))"
    and "map_r (\<lambda>(src, consumed).
          bind_r (state_of initial sources (Some src)) (\<lambda>(contracts, present).
          bind_r (consumed_state limit consumed present) (\<lambda>st. Inr (src, st)))) (consumed_sources (c_wiring c)) =
      Inr (input_sources (c_plan c))"
  shows "boundary_ready c x"
proof -
  obtain bid b where x: "x = (bid, b)" by force
  show ?thesis
  proof (cases "b_wire b \<in> set (keys_of (unknown_wires (c_wiring c)))")
    case False
    with assms(1) obtain st parts root s where b: "state_of initial sources (b_source b) = Inr st" "split_data_path (b_key b) = Inr parts"
      "map_of (fst st) (hd parts) = Some root" "map_of (consumed (c_wiring c) (b_source b)) (hd parts) = Some root"
      "resolve_expanded_contract_path (fst st) (b_key b) = Inr (Some s)" "map_of (producer_schemas (c_wiring c)) (b_wire b) = Some s"
      "map_of (producers (c_wiring c)) (b_wire b) = Some (bid, ''value'')"
      by (auto simp: boundary_bound_def x simp del: set_map)
    note ok = assms(3)[OF b(1)]
    obtain cs where cs: "plan_contracts (c_plan c) (b_source b) = Some cs"
      "\<And>m. CHR ''.'' \<notin> set m \<Longrightarrow> map_of cs m = map_of (consumed (c_wiring c) (b_source b)) m"
      using plan_contracts_lookup[OF assms(2) b(1) ok assms(4,5)] by blast
    have "valid_segment (hd parts)" using split_data_path_segments[OF b(2)] by (cases parts) auto
    then have "map_of cs (hd parts) = map_of (fst st) (hd parts)"
      using cs(2) valid_segment_chars(1) b(3,4) by metis
    from resolve_root[OF b(2) this] b(5) have "resolve_expanded_contract_path cs (b_key b) = Inr (Some s)" by simp
    with cs(1) b(6,7) resolved_ok[OF ok b(5)] show ?thesis by (simp add: boundary_ready_def x)
  qed (use assms(1) in \<open>simp add: boundary_ready_def boundary_bound_def x del: set_map\<close>)
qed

lemma bound_node_ready:
  assumes "node_bound node ns" "node_fed (ns_wiring ns) (ns_ports ns) (ns_bindings ns) node es"
    and "bindings (c_plan c) = ns_bindings ns" "c_ports c = ns_ports ns" "c_wiring c = ns_wiring ns"
    and "set (es_edges es) \<subseteq> set (edges (c_plan c))"
  shows "\<exists>p b. node_ready c node p b"
proof -
  from assms(1) obtain p b where p: "map_of (ns_ports ns) node = Some p" "map_of (ns_bindings ns) node = Some b" "ports_ok p"
    "distinct (keys_of (i_inputs b))" "distinct (keys_of (i_outputs b))" "set (keys_of (i_inputs b)) \<subseteq> set (keys_of (in_ports p))"
    "\<forall>(n, q) \<in> set (in_ports p). pt_required q \<longrightarrow> n \<in> set (keys_of (i_inputs b))"
    "\<forall>x \<in> set (i_outputs b). output_bound node p x (ns_wiring ns)"
    unfolding node_bound_def by blast
  have "port_fed c p x" if "x \<in> set (i_inputs b)" for x
  proof -
    have "input_fed (ns_wiring ns) p x es" using assms(2) p(1,2) that by (auto simp: node_fed_def)
    then show ?thesis using assms(6) unfolding port_fed_def input_fed_def assms(5) by (cases x) (auto simp del: set_map split: if_splits, blast)
  qed
  with p show ?thesis unfolding node_ready_def assms(3-5) by blast
qed

lemma compiled_plan:
  assumes "compile_module_graph_with_authorities svc limit rq = Inr c" "wf_request svc rq"
  shows "(\<forall>x \<in> set (cg_inputs (c_plan c)). boundary_ready c x) \<and>
    (\<forall>node \<in> set (topology (c_plan c)). \<exists>p b. node_ready c node p b) \<and> edges_ok (edges (c_plan c)) \<and> producers_ok (c_wiring c)"
proof -
  let ?label = "rq_label rq"
  from assms(1) obtain g instances initial sources ins w ns es order u where c:
    "rq_instances rq = PDict instances" "source_state_of limit ?label (rq_contracts rq) (rq_required rq) = Inr initial"
    "graph_sources limit ?label (rq_source_contracts rq) (rq_source_required rq) g = Inr sources" "check_nodes ?label g instances = Inr u"
    "ordered_boundaries (g_inputs g) = Inr ins" "fold_r (bind_boundary ?label initial sources) ins (empty_wiring sources) = Inr w"
    "fold_r (compile_node svc (rq_definitions rq) (rq_kinds rq) ?label instances) (g_nodes g)
        \<lparr>ns_verified = rq_authorities rq, ns_wiring = w, ns_ports = [], ns_bindings = []\<rparr> = Inr ns"
    "fold_r (connect_node ?label (rq_strict rq) (ns_wiring ns) (g_nodes g) (ns_ports ns) (ns_bindings ns)) (g_nodes g)
        \<lparr>es_edges = [], es_dependencies = [], es_consumed = []\<rparr> = Inr es"
    "order_nodes ?label (g_nodes g) (es_dependencies es) (g_nodes g) = Inr order"
    "assemble_plan limit ?label initial sources ins (g_outputs g) ns es order = Inr c"
    by (auto simp: compile_module_graph_with_authorities_def Let_def bind_r_Inr_iff split: pyval.split_asm)
  have states: "contracts_ok (fst st)" if "state_of initial sources source = Inr st" for source st
    using states_contracts_ok[OF c(2,3) assms(2) that] .
  have dist: "distinct (g_nodes g)" using check_nodes_distinct[OF c(4)] .
  have bound: "wiring_ok initial sources w \<and> wiring_grows (empty_wiring sources) w \<and> (\<forall>x \<in> set ins. boundary_bound initial sources x w)"
    by (rule fold_r_collects[where I = "\<lambda>_. wiring_ok initial sources", OF c(6) empty_wiring_ok[OF c(3)] bind_boundary_step])
      (use states wiring_grows_refl wiring_grows_trans boundary_bound_grows in blast)+
  have wf: "wf_val (PDict instances)" "wf_val (definition_material svc a)" for a
    using assms(2) by (auto simp: wf_request_def c(1) simp del: wf_val.simps)
  have nodes: "wiring_ok initial sources (ns_wiring ns) \<and> wiring_grows w (ns_wiring ns) \<and> (\<forall>node \<in> set (g_nodes g). node_bound node ns)"
    using compile_nodes_ok[OF c(7) dist _ _ _ wf, of initial sources] bound by simp
  have ports: "ports_ok p" if "map_of (ns_ports ns) node = Some p" "node \<in> set (g_nodes g)" for node p
    using nodes that by (auto simp: node_bound_def)
  note plan = assembled_plan[OF c(10)]
  have "boundary_ready c x" if "x \<in> set (cg_inputs (c_plan c))" for x
  proof (rule bound_boundary_ready[OF _ _ states plan(8,9)[folded plan(5)]])
    have "boundary_bound initial sources x w" using bound that plan(2) by blast
    then show "boundary_bound initial sources x (c_wiring c)" unfolding plan(5) by (rule boundary_bound_grows) (use nodes in blast)
    show "wiring_ok initial sources (c_wiring c)" using nodes unfolding plan(5) by blast
  qed
  moreover have ok: "producers_ok (ns_wiring ns)" using nodes by (simp add: wiring_ok_def producers_ok_def)
  moreover have es: "edges_ok (es_edges es) \<and> (\<forall>node \<in> set (g_nodes g). node_fed (ns_wiring ns) (ns_ports ns) (ns_bindings ns) node es)"
    by (rule connect_nodes_ok[OF c(8) _ ok]) (use ports in \<open>simp_all add: edges_ok_def\<close>)
  moreover have "\<exists>p b. node_ready c node p b" if "node \<in> set (topology (c_plan c))" for node
  proof -
    have n: "node \<in> set (g_nodes g)" using that order_nodes_sound[OF dist c(9) subset_refl] plan(1) by simp
    have "node_fed (ns_wiring ns) (ns_ports ns) (ns_bindings ns) node es" using es n by blast
    with bound_node_ready[OF _ this plan(3,4,5,6)] nodes n show ?thesis by blast
  qed
  ultimately show ?thesis using plan(5,7) by simp
qed

end
