(* ===== verification/Module_Invoker.thy ===== *)
theory Module_Invoker
  imports Module_Contract Data_Boundary Strict_Json Effects
begin

section \<open>One Module instance\<close>

text \<open>
  \<open>engine/runtime/module_invoker.py\<close>: the lifecycle of one Module instance and the checks on both sides of
  an invocation. The adapter, which runs the Module in this process or another, is the record
  \<open>adapter\<close> of its operations on a state of its own; an invocation may answer anything or raise. An invoker
  is the state \<open>invoker\<close>. Times, transport metrics and the receipts of reusable outputs are left out.
\<close>

record 'm adapter =
  ad_invoke :: "(string \<times> pyval) list \<Rightarrow> 'm \<Rightarrow> pyval res \<times> 'm"
  ad_finalize :: "'m \<Rightarrow> pyval res \<times> 'm"
  ad_snapshot :: "'m \<Rightarrow> pyval res \<times> 'm"
  ad_restore :: "pyval \<Rightarrow> 'm \<Rightarrow> pyval res \<times> 'm"
  ad_close :: "'m \<Rightarrow> pyval res \<times> 'm"

datatype lifecycle = Initializing | Running | Finalized | Closed

record 'm invoker =
  iv_lifecycle :: lifecycle
  iv_count :: nat
  iv_module :: 'm

text \<open>What an invoker is made for: the Module's label and ports, and whether it runs in a process
  (\<open>ProcessRunner\<close>), whose answers have been decoded from JSON\<close>

record 'm invocation =
  io_label :: string
  io_ports :: ports
  io_process :: bool
  io_adapter :: "'m adapter"

definition call_adapter :: "('m \<Rightarrow> 'a res \<times> 'm) \<Rightarrow> ('m invoker, 'a) act" where
  "call_adapter f iv = (case f (iv_module iv) of (r, m') \<Rightarrow> (r, iv\<lparr>iv_module := m'\<rparr>))"

subsection \<open>Inputs\<close>

definition string_dict :: "(string \<times> pyval) list \<Rightarrow> pyval" where
  "string_dict kvs = PDict (map (\<lambda>(n, v). (KStr n, v)) kvs)"

definition string_items :: "pyval \<Rightarrow> (string \<times> pyval) list" where
  "string_items v = map (\<lambda>(k, c). (key_text k, c)) (dict_items v)"

text \<open>The contract of a whole input object\<close>

definition input_object_schema :: "ports \<Rightarrow> schema" where
  "input_object_schema p = SObj (Kws (Some [JObject]) (Some (map (\<lambda>(n, q). (n, pt_schema q)) (in_ports p)))
     (Some (sort (keys_of (filter (\<lambda>(n, q). pt_required q) (in_ports p))))) (Some SFalse) None None None None None None [])"

definition declared_names :: "string \<Rightarrow> (string \<times> port) list \<Rightarrow> string \<Rightarrow> string \<Rightarrow> pykey list \<Rightarrow> unit res" where
  "declared_names label declared undeclared omitted given =
     bind_r (unknown_names given (keys_of declared)) (\<lambda>unknown.
     bind_r (guard_r (unknown = []) (ValueError (''Module '' @ quoted label @ undeclared @ join_str '', '' unknown @ ''.''))) (\<lambda>_.
     let missing = missing_names given (keys_of (filter (\<lambda>(n, q). pt_required q) declared)) in
     guard_r (missing = []) (ValueError (''Module '' @ quoted label @ omitted @ join_str '', '' missing @ ''.''))))"

definition validate_and_isolate_inputs :: "'m invocation \<Rightarrow> (string \<times> pyval) list \<Rightarrow> (string \<times> pyval) list res" where
  "validate_and_isolate_inputs io inputs =
     (if \<not> io_process io
      then bind_r (compile_normalized_json_isolator False (io_label io @ ''.inputs'') (input_object_schema (io_ports io))
        (string_dict inputs)) (\<lambda>isolated. Inr (string_items isolated))
      else
        bind_r (declared_names (io_label io) (in_ports (io_ports io)) '' received undeclared input port(s): ''
          '' omitted required input port(s): '' (map KStr (keys_of inputs))) (\<lambda>_.
        bind_r (iter_r (\<lambda>(n, v). case map_of (in_ports (io_ports io)) n of
            None \<Rightarrow> Inl (KeyError n)
          | Some q \<Rightarrow> compile_normalized_json_validator True (io_label io @ ''.inputs.'' @ n) (pt_schema q) v) inputs) (\<lambda>_.
        Inr inputs)))"

text \<open>A copy that trusts the values to be JSON\<close>

fun isolate_validated_json_tree :: "pyval \<Rightarrow> pyval res" where
  "isolate_validated_json_tree (PDict kvs) =
     bind_r (map_r (\<lambda>(k, c). bind_r (isolate_validated_json_tree c) (\<lambda>w. Inr (k, w))) kvs) (\<lambda>items. Inr (PDict (dict_of items)))"
| "isolate_validated_json_tree (PList xs) = bind_r (map_r isolate_validated_json_tree xs) (\<lambda>ys. Inr (PList ys))"
| "isolate_validated_json_tree (PObj _) = Inl (TypeError ''Validated Module inputs contain a non-JSON value.'')"
| "isolate_validated_json_tree v = Inr v"

subsection \<open>Outputs\<close>

definition validate_and_isolate_outputs :: "'m invocation \<Rightarrow> pyval \<Rightarrow> (string \<times> pyval) list res" where
  "validate_and_isolate_outputs io outputs =
     (case outputs of
        PDict kvs \<Rightarrow>
          bind_r (declared_names (io_label io) (out_ports (io_ports io)) '' returned undeclared output port(s): ''
            '' omitted required output port(s): '' (keys_of kvs)) (\<lambda>_.
          map_r (\<lambda>(k, v). case map_of (out_ports (io_ports io)) (key_text k) of
              None \<Rightarrow> Inl (KeyError (key_text k))
            | Some q \<Rightarrow>
                bind_r (compile_normalized_json_isolator (io_process io) (io_label io @ ''.outputs.'' @ key_text k) (pt_schema q) v)
                  (\<lambda>w. Inr (key_text k, w))) kvs)
      | _ \<Rightarrow> Inl (ValueError (''Module '' @ quoted (io_label io) @ '' outputs must be an object.'')))"

subsection \<open>Invocation\<close>

definition require_running :: "string \<Rightarrow> string \<Rightarrow> ('m invoker, unit) act" where
  "require_running label operation =
     bind_s (gets_s iv_lifecycle) (\<lambda>l. case l of
         Closed \<Rightarrow> raise_s (RuntimeError (''Cannot '' @ operation @ '' a closed Module '' @ quoted label @ ''.''))
       | Finalized \<Rightarrow> raise_s (RuntimeError (''Cannot '' @ operation @ '' a finalized Module '' @ quoted label @ ''.''))
       | Initializing \<Rightarrow> raise_s (RuntimeError (''Cannot '' @ operation @ '' Module '' @ quoted label @ '' before initialization.''))
       | Running \<Rightarrow> ret_s ())"

definition invoke_isolated :: "'m invocation \<Rightarrow> (string \<times> pyval) list \<Rightarrow> ('m invoker, (string \<times> pyval) list) act" where
  "invoke_isolated io isolated_inputs =
     bind_s (modify_s (\<lambda>iv. iv\<lparr>iv_count := Suc (iv_count iv)\<rparr>)) (\<lambda>_.
     bind_s (call_adapter (ad_invoke (io_adapter io) isolated_inputs)) (\<lambda>outputs.
     lift_s (validate_and_isolate_outputs io outputs)))"

definition invoke :: "'m invocation \<Rightarrow> (string \<times> pyval) list \<Rightarrow> ('m invoker, (string \<times> pyval) list) act" where
  "invoke io inputs =
     bind_s (require_running (io_label io) ''invoke'') (\<lambda>_.
     bind_s (lift_s (validate_and_isolate_inputs io inputs)) (invoke_isolated io))"

definition invoke_validated :: "'m invocation \<Rightarrow> (string \<times> pyval) list \<Rightarrow> ('m invoker, (string \<times> pyval) list) act" where
  "invoke_validated io inputs =
     bind_s (require_running (io_label io) ''invoke'') (\<lambda>_.
     bind_s (lift_s (if io_process io then Inr inputs
       else bind_r (isolate_validated_json_tree (string_dict inputs)) (\<lambda>isolated. Inr (string_items isolated)))) (invoke_isolated io))"

subsection \<open>The rest of the lifecycle\<close>

text \<open>\<open>strict_json.loads(strict_json.dumps(result))\<close>, its errors reported as a \<open>ValueError\<close>\<close>

definition exact_copy :: "string \<Rightarrow> pyval \<Rightarrow> pyval res" where
  "exact_copy text v = (case dumps_admission v of Inl _ \<Rightarrow> Inl (ValueError text) | Inr _ \<Rightarrow> Inr v)"

definition object_result :: "string \<Rightarrow> string \<Rightarrow> pyval \<Rightarrow> pyval res" where
  "object_result label what v =
     (if is_mapping v then Inr v else Inl (ValueError (''Module '' @ quoted label @ '' '' @ what @ '' must be an object.'')))"

definition finalize_invoker :: "'m invocation \<Rightarrow> ('m invoker, pyval) act" where
  "finalize_invoker io =
     bind_s (require_running (io_label io) ''finalize'') (\<lambda>_.
     finally_s
       (bind_s (call_adapter (ad_finalize (io_adapter io))) (\<lambda>result.
        bind_s (lift_s (object_result (io_label io) ''finalize result'' result)) (\<lambda>_.
        lift_s (exact_copy (''Module '' @ quoted (io_label io) @ '' finalize result must be finite JSON data.'') result))))
       (modify_s (\<lambda>iv. iv\<lparr>iv_lifecycle := Finalized\<rparr>)))"

definition snapshot_invoker :: "'m invocation \<Rightarrow> ('m invoker, pyval) act" where
  "snapshot_invoker io =
     bind_s (require_running (io_label io) ''snapshot'') (\<lambda>_.
     bind_s (call_adapter (ad_snapshot (io_adapter io))) (\<lambda>result.
     bind_s (lift_s (object_result (io_label io) ''snapshot'' result)) (\<lambda>_.
     lift_s (exact_copy (''Module '' @ quoted (io_label io) @ '' snapshot must be finite JSON data.'') result))))"

text \<open>A result object with the one field \<open>status\<close>\<close>

definition status_result :: "string \<Rightarrow> string \<Rightarrow> string \<Rightarrow> pyval \<Rightarrow> pyval res" where
  "status_result label operation expected result =
     bind_r (object_result label (operation @ '' result'') result) (\<lambda>_.
     bind_r (require_exact_fields (''Module '' @ quoted label @ '' '' @ operation @ '' result'') [''status''] [''status''] result) (\<lambda>d.
     bind_r (field d ''status'') (\<lambda>status.
     if status = PStr expected then Inr result
     else Inl (ValueError (''Module '' @ quoted label @ '' '' @ operation @ '' did not confirm completion.'')))))"

definition restore_invoker :: "'m invocation \<Rightarrow> pyval \<Rightarrow> ('m invoker, pyval) act" where
  "restore_invoker io snap =
     bind_s (require_running (io_label io) ''restore'') (\<lambda>_.
     bind_s (lift_s (object_result (io_label io) ''restore snapshot'' snap)) (\<lambda>_.
     bind_s (lift_s (exact_copy (''Module '' @ quoted (io_label io) @ '' restore snapshot must be finite JSON data.'') snap)) (\<lambda>isolated.
     bind_s (call_adapter (ad_restore (io_adapter io) isolated)) (\<lambda>result.
     lift_s (status_result (io_label io) ''restore'' ''restored'' result)))))"

definition close_invoker :: "'m invocation \<Rightarrow> ('m invoker, pyval) act" where
  "close_invoker io =
     bind_s (gets_s iv_lifecycle) (\<lambda>l.
     if l = Closed then ret_s (PDict [(KStr ''status'', PStr ''closed'')])
     else finally_s
       (bind_s (call_adapter (ad_close (io_adapter io))) (\<lambda>result.
        lift_s (status_result (io_label io) ''close'' ''closed'' result)))
       (modify_s (\<lambda>iv. iv\<lparr>iv_lifecycle := Closed\<rparr>)))"

end
