(* ===== verification/Graph_Runtime.thy ===== *)
theory Graph_Runtime
  imports Graph_Contract Declared_Data Module_Invoker
begin

section \<open>The Graph runtime\<close>

text \<open>
  \<open>engine/runtime/graph.py\<close>: a compiled plan is bound once to the proofs of its inputs, its wires and the
  steps of its nodes, and executed on every cycle. A wire is its own slot. The values on the wires, the
  set of wires proven and the Data Dicts written are the state \<open>run\<close> of one execution; the invokers and
  the lifecycle flags are the state \<open>graph_runtime\<close> that survives it. Times and metadata are left out.
\<close>

subsection \<open>Binding a plan\<close>

record runtime_plan =
  rt_plan :: compiled_graph
  default_proof :: declared_proof
  source_proofs :: "(string \<times> declared_proof) list"
  wire_validators :: "(string \<times> (string \<times> (pyval \<Rightarrow> unit res)) list) list"
  input_plan :: "(string option \<times> string list \<times> string \<times> bool) list"
  output_plan :: "(string \<times> string list \<times> string \<times> bool) list"
  node_plan :: "(string \<times> (string \<times> string \<times> bool) list \<times> (string \<times> string) list) list"

definition optional_entry_roots :: "bool \<Rightarrow> compiled_graph \<Rightarrow> string list" where
  "optional_entry_roots causal plan =
     (if causal \<and> previous_cycle_root \<in> set (keys_of (input_contracts plan)) then [previous_cycle_root] else [])"

definition source_boundaries :: "compiled_graph \<Rightarrow> string option \<Rightarrow> string list" where
  "source_boundaries plan source = map (\<lambda>(bid, b). b_key b) (filter (\<lambda>(bid, b). b_source b = source) (cg_inputs plan))"

text \<open>The boundary DataKeys whose presence the contracts guarantee, given the roots that are present\<close>

definition required_boundaries :: "contracts \<Rightarrow> string list \<Rightarrow> string list \<Rightarrow> string list res" where
  "required_boundaries contracts roots keys =
     bind_r (map_r (\<lambda>key. bind_r (expanded_contract_path_required contracts (Some roots) key) (\<lambda>r. Inr (key, r))) keys)
       (\<lambda>marked. Inr (map fst (filter snd marked)))"

definition compile_default_proof :: "nat \<Rightarrow> bool \<Rightarrow> compiled_graph \<Rightarrow> declared_proof res" where
  "compile_default_proof limit causal plan =
     (let optional = optional_entry_roots causal plan;
          roots = filter (\<lambda>r. r \<notin> set optional) (input_required_roots plan);
          keys = source_boundaries plan None in
      bind_r (required_boundaries (input_contracts plan) roots keys) (\<lambda>required.
      bind_r (required_boundaries (input_contracts plan) optional (filter (\<lambda>key. hd (split_dot key) \<in> set optional) keys))
        (\<lambda>conditional.
      compile_declared_data_json_proof limit (Expanded (input_contracts plan)) roots ''Module Graph input'' False (Some keys)
        required conditional)))"

definition compile_source_proof :: "nat \<Rightarrow> compiled_graph \<Rightarrow> string \<times> contracts \<times> string list \<Rightarrow> (string \<times> declared_proof) res" where
  "compile_source_proof limit plan = (\<lambda>(source, contracts, roots).
     let keys = source_boundaries plan (Some source) in
     bind_r (required_boundaries contracts roots keys) (\<lambda>required.
     bind_r (compile_declared_data_json_proof limit (Expanded contracts) roots (''Module Graph input source '' @ quoted source) False
       (Some keys) required []) (\<lambda>p. Inr (source, p))))"

text \<open>A boundary whose DataKey is among the contracts is proven with its root.\<close>

definition contract_proven :: "compiled_graph \<Rightarrow> boundary \<Rightarrow> bool res" where
  "contract_proven plan b =
     bind_r (case b_source b of
         None \<Rightarrow> Inr (input_contracts plan)
       | Some source \<Rightarrow> (case map_of (input_sources plan) source of None \<Rightarrow> Inl (KeyError source) | Some st \<Rightarrow> Inr (fst st)))
       (\<lambda>contracts. bind_r (split_data_path (b_key b)) (\<lambda>parts.
       Inr (hd parts \<in> set (keys_of contracts) \<and> b_key b \<in> set (keys_of contracts))))"

definition proven_boundaries :: "compiled_graph \<Rightarrow> string list res" where
  "proven_boundaries plan =
     bind_r (map_r (\<lambda>(bid, b). bind_r (contract_proven plan b) (\<lambda>p. Inr (bid, p))) (cg_inputs plan)) (\<lambda>marked.
     Inr (map fst (filter snd marked)))"

text \<open>The checks that a value read at a boundary needs before its first consumer, one for each contract text\<close>

definition add_wire_validator ::
    "(pyval \<Rightarrow> string) \<Rightarrow> compiled_graph \<Rightarrow> string list \<Rightarrow> edge \<Rightarrow> (string \<times> (string \<times> (pyval \<Rightarrow> unit res)) list) list \<Rightarrow>
     (string \<times> (string \<times> (pyval \<Rightarrow> unit res)) list) list" where
  "add_wire_validator dumps plan proven e vs =
     (let bid = ep_node (e_from e) in
      if bid \<notin> set (keys_of (cg_inputs plan)) \<or> bid \<in> set proven then vs
      else
        let present = (case map_of vs (e_wire e) of None \<Rightarrow> [] | Some checks \<Rightarrow> checks);
            key = dumps (schema_to_py (ep_schema (e_from e)));
            path = (if ep_node (e_to e) \<in> set (keys_of (bindings plan))
              then ep_node (e_to e) @ ''.inputs.'' @ ep_port (e_to e) else ''Graph.inputs.'' @ bid) in
        if key \<in> set (keys_of present) then vs
        else AList.update (e_wire e)
          (present @ [(key, compile_normalized_json_validator False path (ep_schema (e_from e)))]) vs)"

definition bind_node ::
    "compiled_graph \<Rightarrow> (string \<times> ports) list \<Rightarrow> string \<Rightarrow> (string \<times> (string \<times> string \<times> bool) list \<times> (string \<times> string) list) res" where
  "bind_node plan all_ports node =
     (case (map_of (bindings plan) node, map_of all_ports node) of
        (Some b, Some p) \<Rightarrow>
          bind_r (map_r (\<lambda>(port_name, wire). case map_of (in_ports p) port_name of
              None \<Rightarrow> Inl (KeyError port_name)
            | Some q \<Rightarrow> Inr (port_name, wire, pt_required q)) (sort_key fst (i_inputs b))) (\<lambda>ins.
          Inr (node, ins, sort_key fst (i_outputs b)))
      | _ \<Rightarrow> Inl (KeyError node))"

definition bind_inputs :: "compiled_graph \<Rightarrow> string list \<Rightarrow> (string option \<times> string list \<times> string \<times> bool) list res" where
  "bind_inputs plan proven =
     bind_r (map_r (\<lambda>(bid, b). bind_r (canonical_data_key_order (b_key b) bid) (\<lambda>rank. Inr (rank, (bid, b)))) (cg_inputs plan)) (\<lambda>ranked.
     Inr (map (\<lambda>((segments, _), (bid, b)). (b_source b, segments, b_wire b, bid \<in> set proven)) (sort_key fst ranked)))"

definition bind_outputs :: "compiled_graph \<Rightarrow> (string \<times> string list \<times> string \<times> bool) list res" where
  "bind_outputs plan =
     bind_r (compiled_graph_output_plan plan) (\<lambda>writes.
     map_r (\<lambda>(bid, key, wire, required). bind_r (split_data_path key) (\<lambda>segments. Inr (bid, segments, wire, required))) writes)"

definition compile_runtime_plan ::
    "(pyval \<Rightarrow> string) \<Rightarrow> nat \<Rightarrow> bool \<Rightarrow> compiled_graph \<Rightarrow> (string \<times> ports) list \<Rightarrow> runtime_plan res" where
  "compile_runtime_plan dumps limit causal plan all_ports =
     bind_r (compile_default_proof limit causal plan) (\<lambda>default.
     bind_r (map_r (compile_source_proof limit plan) (sort_key fst (input_sources plan))) (\<lambda>sources.
     bind_r (proven_boundaries plan) (\<lambda>proven.
     let validators = fold (add_wire_validator dumps plan proven) (edges plan) [] in
     bind_r (bind_inputs plan proven) (\<lambda>ins.
     bind_r (bind_outputs plan) (\<lambda>outs.
     bind_r (map_r (bind_node plan all_ports) (topology plan)) (\<lambda>nodes.
     Inr \<lparr>rt_plan = plan, default_proof = default, source_proofs = sources, wire_validators = validators,
       input_plan = ins, output_plan = outs, node_plan = nodes\<rparr>))))))"

subsection \<open>State\<close>

record 'm graph_runtime =
  invokers :: "(string \<times> 'm invoker) list"
  has_executed :: bool
  graph_finalized :: bool
  graph_closed :: bool

record 'm run =
  run_graph :: "'m graph_runtime"
  slot_values :: "(string \<times> pyval) list"
  slots_proven :: "string list"
  run_exports :: "pyval option"
  run_target :: "pyval option"

type_synonym 'm deployment = "string \<Rightarrow> 'm invocation"

text \<open>An operation of the invoker of a node\<close>

definition on_invoker :: "string \<Rightarrow> ('m invoker, 'a) act \<Rightarrow> ('m graph_runtime, 'a) act" where
  "on_invoker node f rt =
     (case map_of (invokers rt) node of
        None \<Rightarrow> (Inl (KeyError node), rt)
      | Some iv \<Rightarrow> (case f iv of (r, iv') \<Rightarrow> (r, rt\<lparr>invokers := AList.update node iv' (invokers rt)\<rparr>)))"

definition on_graph :: "('m graph_runtime, 'a) act \<Rightarrow> ('m run, 'a) act" where
  "on_graph f st = (case f (run_graph st) of (r, rt) \<Rightarrow> (r, st\<lparr>run_graph := rt\<rparr>))"

subsection \<open>Execution\<close>

definition prove_wire :: "runtime_plan \<Rightarrow> string \<Rightarrow> pyval \<Rightarrow> ('m run, unit) act" where
  "prove_wire rp wire v =
     bind_s (gets_s (\<lambda>st. wire \<in> set (slots_proven st))) (\<lambda>proven.
     if proven then ret_s ()
     else
       let checks = (case map_of (wire_validators rp) wire of None \<Rightarrow> [] | Some cs \<Rightarrow> cs) in
       bind_s (guard_s (checks \<noteq> []) (RuntimeError (''Graph wire '' @ quoted wire @ '' has no dynamic value proof.''))) (\<lambda>_.
       bind_s (lift_s (iter_r (\<lambda>(key, check). check v) checks)) (\<lambda>_.
       modify_s (\<lambda>st. st\<lparr>slots_proven := wire # slots_proven st\<rparr>))))"

definition read_input ::
    "pyval \<Rightarrow> (string \<times> pyval) list \<Rightarrow> string option \<times> string list \<times> string \<times> bool \<Rightarrow> ('m run, unit) act" where
  "read_input initial_data sources = (\<lambda>(source, segments, wire, root_proven).
     bind_s (lift_s (case source of
         None \<Rightarrow> Inr initial_data
       | Some src \<Rightarrow> (case map_of sources src of None \<Rightarrow> Inl (KeyError src) | Some d \<Rightarrow> Inr d))) (\<lambda>data.
     case find_segments data segments of
       None \<Rightarrow> ret_s ()
     | Some v \<Rightarrow> modify_s (\<lambda>st. st\<lparr>slot_values := AList.update wire v (slot_values st),
         slots_proven := (if root_proven then wire # slots_proven st else filter ((\<noteq>) wire) (slots_proven st))\<rparr>)))"

text \<open>The inputs of a node from the wires: port, wire and value\<close>

definition gather_inputs ::
    "(string \<times> pyval) list \<Rightarrow> string \<Rightarrow> (string \<times> string \<times> bool) list \<Rightarrow> (string \<times> string \<times> pyval) list res" where
  "gather_inputs slots node ins =
     bind_r (map_r (\<lambda>(port_name, wire, required). case map_of slots wire of
         None \<Rightarrow>
           if required then Inl (ValueError (''Graph Module '' @ quoted node @ '' input '' @ quoted port_name @
             '' cannot read wire '' @ quoted wire @ ''.''))
           else Inr None
       | Some v \<Rightarrow> Inr (Some (port_name, wire, v))) ins) (\<lambda>found. Inr (List.map_filter (\<lambda>x. x) found))"

definition store_outputs :: "(string \<times> string) list \<Rightarrow> (string \<times> pyval) list \<Rightarrow> 'm run \<Rightarrow> 'm run" where
  "store_outputs outs outputs =
     fold (\<lambda>(port_name, wire) st. case map_of outputs port_name of
         None \<Rightarrow> st
       | Some v \<Rightarrow> st\<lparr>slot_values := AList.update wire v (slot_values st), slots_proven := wire # slots_proven st\<rparr>) outs"

text \<open>\<open>call\<close> is \<open>invoke_validated\<close> in the code.\<close>

type_synonym 'm call = "'m invocation \<Rightarrow> (string \<times> pyval) list \<Rightarrow> ('m invoker, (string \<times> pyval) list) act"

definition run_node ::
    "'m call \<Rightarrow> 'm deployment \<Rightarrow> runtime_plan \<Rightarrow> string \<times> (string \<times> string \<times> bool) list \<times> (string \<times> string) list \<Rightarrow>
     ('m run, unit) act" where
  "run_node call modules rp = (\<lambda>(node, ins, outs).
     bind_s (gets_s slot_values) (\<lambda>slots.
     bind_s (lift_s (gather_inputs slots node ins)) (\<lambda>found.
     bind_s (iter_s (\<lambda>(port_name, wire, v). prove_wire rp wire v) found) (\<lambda>_.
     bind_s (on_graph (on_invoker node (call (modules node) (map (\<lambda>(port_name, wire, v). (port_name, v)) found)))) (\<lambda>outputs.
     modify_s (store_outputs outs outputs))))))"

definition write_dict :: "string list \<Rightarrow> pyval \<Rightarrow> pyval option \<Rightarrow> pyval option res" where
  "write_dict segments v data =
     (case data of
        None \<Rightarrow> Inr None
      | Some d \<Rightarrow> bind_r (set_data_segments_copy_on_write d segments v) (\<lambda>d'. Inr (Some d')))"

definition write_boundary :: "runtime_plan \<Rightarrow> string \<times> string list \<times> string \<times> bool \<Rightarrow> ('m run, unit) act" where
  "write_boundary rp = (\<lambda>(bid, segments, wire, required).
     bind_s (gets_s (\<lambda>st. map_of (slot_values st) wire)) (\<lambda>found.
     case found of
       None \<Rightarrow>
         if required
         then raise_s (ValueError (''Graph Data Output '' @ quoted bid @ '' cannot read wire '' @ quoted wire @ ''.''))
         else ret_s ()
     | Some v \<Rightarrow>
         bind_s (prove_wire rp wire v) (\<lambda>_.
         bind_s (gets_s run_exports) (\<lambda>exports.
         bind_s (lift_s (write_dict segments v exports)) (\<lambda>exports'.
         bind_s (modify_s (\<lambda>st. st\<lparr>run_exports := exports'\<rparr>)) (\<lambda>_.
         bind_s (gets_s run_target) (\<lambda>target.
         bind_s (lift_s (write_dict segments v target)) (\<lambda>target'.
         modify_s (\<lambda>st. st\<lparr>run_target := target'\<rparr>)))))))))"

text \<open>The guards of an execution: lifecycle, shapes, sources, and the two phases of the entry proofs\<close>

definition source_error :: "string list \<Rightarrow> string list \<Rightarrow> py_error" where
  "source_error declared given =
     (let missing = sorted_set (filter (\<lambda>s. s \<notin> set given) declared);
          unexpected = sorted_set (filter (\<lambda>s. s \<notin> set declared) given);
          details = (if missing \<noteq> [] then [''missing '' @ join_str '', '' missing] else []) @
            (if unexpected \<noteq> [] then [''unexpected '' @ join_str '', '' unexpected] else []) in
      ValueError (''Module Graph input sources must exactly match its compiled sources: '' @ join_str ''; '' details))"

definition source_data :: "(string \<times> pyval) list \<Rightarrow> string \<Rightarrow> pyval res" where
  "source_data sources src = (case map_of sources src of None \<Rightarrow> Inl (KeyError src) | Some d \<Rightarrow> Inr d)"

definition entry_checks :: "runtime_plan \<Rightarrow> pyval \<Rightarrow> (string \<times> pyval) list \<Rightarrow> pyval option \<Rightarrow> unit res" where
  "entry_checks rp initial_data sources target =
     bind_r (guard_r (is_mapping initial_data) (ValueError ''Module Graph input must be an object.'')) (\<lambda>_.
     bind_r (guard_r (set (keys_of sources) = set (keys_of (input_sources (rt_plan rp))))
       (source_error (keys_of (input_sources (rt_plan rp))) (keys_of sources))) (\<lambda>_.
     bind_r (iter_r (\<lambda>(src, d). guard_r (is_mapping d)
       (ValueError (''Module Graph input source '' @ quoted src @ '' must be a Data Dict object.''))) sources) (\<lambda>_.
     bind_r (guard_r (case target of None \<Rightarrow> True | Some d \<Rightarrow> is_mapping d)
       (ValueError ''Module Graph export target must be a Data Dict object.'')) (\<lambda>_.
     bind_r (require_presence (default_proof rp) initial_data) (\<lambda>_.
     bind_r (iter_r (\<lambda>(src, p). bind_r (source_data sources src) (require_presence p)) (source_proofs rp)) (\<lambda>_.
     bind_r (validate_values (default_proof rp) initial_data) (\<lambda>_.
     iter_r (\<lambda>(src, p). bind_r (source_data sources src) (validate_values p)) (source_proofs rp))))))))"

definition execute_steps :: "'m call \<Rightarrow> 'm deployment \<Rightarrow> runtime_plan \<Rightarrow> pyval \<Rightarrow> (string \<times> pyval) list \<Rightarrow> ('m run, unit) act" where
  "execute_steps call modules rp initial_data sources =
     bind_s (iter_s (read_input initial_data sources) (input_plan rp)) (\<lambda>_.
     bind_s (iter_s (run_node call modules rp) (node_plan rp)) (\<lambda>_.
     iter_s (write_boundary rp) (output_plan rp)))"

definition require_open :: "string \<Rightarrow> ('m graph_runtime, unit) act" where
  "require_open operation =
     bind_s (gets_s graph_closed) (\<lambda>closed.
     bind_s (guard_s (\<not> closed) (RuntimeError (''Cannot '' @ operation @ '' a closed Module Graph.''))) (\<lambda>_.
     bind_s (gets_s graph_finalized) (\<lambda>finalized.
     guard_s (\<not> finalized) (RuntimeError (''Cannot '' @ operation @ '' a finalized Module Graph.'')))))"

definition start_run :: "bool \<Rightarrow> pyval option \<Rightarrow> 'm graph_runtime \<Rightarrow> 'm run" where
  "start_run collect target rt =
     \<lparr>run_graph = rt\<lparr>has_executed := True\<rparr>, slot_values = [], slots_proven = [],
      run_exports = (if collect then Some (PDict []) else None), run_target = target\<rparr>"

text \<open>The wires' values, the exports and the target, which is written in place also when the run fails\<close>

definition execute_slots_with ::
    "'m call \<Rightarrow> 'm deployment \<Rightarrow> runtime_plan \<Rightarrow> pyval \<Rightarrow> (string \<times> pyval) list \<Rightarrow> pyval option \<Rightarrow> bool \<Rightarrow>
     'm graph_runtime \<Rightarrow> ((string \<times> pyval) list \<times> pyval option) res \<times> pyval option \<times> 'm graph_runtime" where
  "execute_slots_with call modules rp initial_data sources target collect rt =
     (case bind_s (require_open ''execute'') (\<lambda>_. lift_s (entry_checks rp initial_data sources target)) rt of
        (Inl e, _) \<Rightarrow> (Inl e, target, rt)
      | (Inr _, _) \<Rightarrow>
          (case execute_steps call modules rp initial_data sources (start_run collect target rt) of
             (Inl e, st) \<Rightarrow> (Inl e, run_target st, run_graph st)
           | (Inr _, st) \<Rightarrow> (Inr (slot_values st, run_exports st), run_target st, run_graph st)))"

definition execute_slots ::
    "'m deployment \<Rightarrow> runtime_plan \<Rightarrow> pyval \<Rightarrow> (string \<times> pyval) list \<Rightarrow> pyval option \<Rightarrow> bool \<Rightarrow>
     'm graph_runtime \<Rightarrow> ((string \<times> pyval) list \<times> pyval option) res \<times> pyval option \<times> 'm graph_runtime" where
  "execute_slots = execute_slots_with invoke_validated"

definition execute_outputs :: "'m deployment \<Rightarrow> runtime_plan \<Rightarrow> pyval \<Rightarrow> (string \<times> pyval) list \<Rightarrow> ('m graph_runtime, pyval) act" where
  "execute_outputs modules rp initial_data sources rt =
     (case execute_slots modules rp initial_data sources (Some (PDict [])) False rt of
        (Inl e, _, rt') \<Rightarrow> (Inl e, rt')
      | (Inr _, target, rt') \<Rightarrow> (Inr (case target of None \<Rightarrow> PNone | Some d \<Rightarrow> d), rt'))"

definition execute_into ::
    "'m deployment \<Rightarrow> runtime_plan \<Rightarrow> pyval \<Rightarrow> (string \<times> pyval) list \<Rightarrow> pyval \<Rightarrow> 'm graph_runtime \<Rightarrow> unit res \<times> pyval option \<times> 'm graph_runtime" where
  "execute_into modules rp initial_data sources target rt =
     (case execute_slots modules rp initial_data sources (Some target) False rt of
        (Inl e, rest) \<Rightarrow> (Inl e, rest) | (Inr _, rest) \<Rightarrow> (Inr (), rest))"

definition execute_outputs_into ::
    "'m deployment \<Rightarrow> runtime_plan \<Rightarrow> pyval \<Rightarrow> (string \<times> pyval) list \<Rightarrow> pyval \<Rightarrow> 'm graph_runtime \<Rightarrow>
     pyval option res \<times> pyval option \<times> 'm graph_runtime" where
  "execute_outputs_into modules rp initial_data sources target rt =
     (case execute_slots modules rp initial_data sources (Some target) True rt of
        (Inl e, rest) \<Rightarrow> (Inl e, rest) | (Inr (_, exports), rest) \<Rightarrow> (Inr exports, rest))"

text \<open>\<open>execute\<close>: the diagnostic result, with the value of every wire that has one\<close>

definition execute_graph :: "'m deployment \<Rightarrow> runtime_plan \<Rightarrow> pyval \<Rightarrow> (string \<times> pyval) list \<Rightarrow> ('m graph_runtime, pyval) act" where
  "execute_graph modules rp initial_data sources rt =
     (case execute_slots modules rp initial_data sources (Some (PDict [])) False rt of
        (Inl e, _, rt') \<Rightarrow> (Inl e, rt')
      | (Inr (slots, _), target, rt') \<Rightarrow>
          (Inr (PDict [(KStr ''workingData'', string_dict slots),
             (KStr ''outputs'', case target of None \<Rightarrow> PNone | Some d \<Rightarrow> d)]), rt'))"

subsection \<open>Lifecycle\<close>

text \<open>Every invoker is ended, the last node first; the first error is raised at the end.\<close>

fun end_all :: "(string \<Rightarrow> ('m graph_runtime, 'a) act) \<Rightarrow> string list \<Rightarrow> py_error option \<Rightarrow> ('m graph_runtime, unit) act" where
  "end_all f [] err = (case err of None \<Rightarrow> ret_s () | Some e \<Rightarrow> raise_s e)"
| "end_all f (node # nodes) err =
     bind_s (catch_s (bind_s (f node) (\<lambda>_. ret_s err)) (\<lambda>e. ret_s (case err of None \<Rightarrow> Some e | Some first \<Rightarrow> Some first)))
       (end_all f nodes)"

definition finalize_graph :: "'m deployment \<Rightarrow> runtime_plan \<Rightarrow> ('m graph_runtime, unit) act" where
  "finalize_graph modules rp =
     bind_s (require_open ''finalize'') (\<lambda>_.
     bind_s (modify_s (\<lambda>rt. rt\<lparr>graph_finalized := True\<rparr>)) (\<lambda>_.
     end_all (\<lambda>node. on_invoker node (finalize_invoker (modules node))) (rev (topology (rt_plan rp))) None))"

definition snapshot_graph :: "'m deployment \<Rightarrow> runtime_plan \<Rightarrow> ('m graph_runtime, (string \<times> pyval) list) act" where
  "snapshot_graph modules rp =
     bind_s (require_open ''snapshot'') (\<lambda>_.
     bind_s (gets_s (\<lambda>rt. keys_of (invokers rt))) (\<lambda>nodes.
     map_s (\<lambda>node. bind_s (on_invoker node (snapshot_invoker (modules node))) (\<lambda>v. ret_s (node, v))) nodes))"

definition restore_graph :: "'m deployment \<Rightarrow> runtime_plan \<Rightarrow> pyval \<Rightarrow> ('m graph_runtime, unit) act" where
  "restore_graph modules rp snapshots =
     bind_s (require_open ''restore'') (\<lambda>_.
     bind_s (guard_s (is_mapping snapshots) (ValueError ''Graph snapshot must be an object.'')) (\<lambda>_.
     bind_s (gets_s (\<lambda>rt. keys_of (invokers rt))) (\<lambda>nodes.
     bind_s (guard_s (set (keys_of (dict_items snapshots)) = KStr ` set nodes)
       (ValueError ''Graph snapshot must exactly match its Modules.'')) (\<lambda>_.
     iter_s (\<lambda>node. bind_s (lift_s (field (dict_items snapshots) node)) (\<lambda>snap.
       bind_s (on_invoker node (restore_invoker (modules node) snap)) (\<lambda>_. ret_s ()))) (topology (rt_plan rp))))))"

definition close_graph :: "'m deployment \<Rightarrow> runtime_plan \<Rightarrow> ('m graph_runtime, unit) act" where
  "close_graph modules rp =
     bind_s (gets_s graph_closed) (\<lambda>closed.
     if closed then ret_s ()
     else
       bind_s (modify_s (\<lambda>rt. rt\<lparr>graph_closed := True\<rparr>)) (\<lambda>_.
       end_all (\<lambda>node. on_invoker node (close_invoker (modules node))) (rev (topology (rt_plan rp))) None))"

end
