(* ===== verification/Graph_Soundness.thy ===== *)
theory Graph_Soundness
  imports Graph_Wiring Graph_Runtime
begin

section \<open>A compiled Graph runs on values of the declared types\<close>

text \<open>
  \<open>ModuleGraphRuntime\<close> hands values to Modules without checking them against the ports: it calls
  \<open>invoke_validated\<close>, on the strength of what the compiler has proven of the plan and of what was checked
  where the data entered. Here this is shown to be sound: the execution is the one in which each Module checks
  all its inputs.
\<close>

subsection \<open>Checks of values known to be JSON\<close>

lemma trusted_accepts: "exact_json v \<Longrightarrow> (compiled_at True v s = None) = accepts v s"
proof (induction v s rule: value_schema_induct)
  case (1 v s)
  have children: "(children_failure True v k = None) = children_ok v k" for k
  proof (cases v)
    case (PDict kvs)
    have "(member_failure True k kv = None) = member_ok k kv" if kv: "kv \<in> set kvs" for kv
    proof -
      obtain n c where n: "kv = (KStr n, c)" "exact_json c" using "1.prems" kv by (cases kv) (auto simp: PDict list_all_iff)
      have "(compiled_at True c s = None) = accepts c s" for s
        using "1.IH"(1)[of c s] size_dict_item[of "KStr n" c kvs] kv n by (simp add: PDict del: pyval.size)
      then show ?thesis using n(1) by (auto simp: member_failure_def member_ok_def split: option.split)
    qed
    then show ?thesis
      unfolding PDict children_failure_def children_ok_def pyval.case or_else_None_iff by (simp add: first_some_None_iff)
  next
    case (PList xs)
    have "(compiled_at True x (item_contract k) = None) = accepts x (item_contract k)" if "x \<in> set xs" for x
      using "1.IH"(1)[of x "item_contract k"] size_list_item[OF that] that "1.prems" by (simp add: PList list_all_iff del: pyval.size)
    then show ?thesis
      by (simp add: PList children_failure_def children_ok_def first_some_None_iff
          case_prod_unfold set_enumerate_snd[of 0 xs, symmetric] del: set_enumerate_snd)
  qed (simp_all add: children_failure_def children_ok_def)
  have json: "\<not> non_json v" "json_type v \<noteq> None" using "1.prems" by (cases v; simp add: non_json_def)+
  show ?case
  proof (cases s)
    case (SObj k)
    have br: "(compiled_at True v b = None) = accepts v b"
      if "b \<in> set (opt_list (kw_all k)) \<or> b \<in> set (opt_list (kw_any k)) \<or> b \<in> set (opt_list (kw_one k))" for b
      using "1.IH"(2)[of b] "1.prems" that size_sub_opt(2,3,4)[of b k] by (auto simp: SObj simp del: schema.size)
    have one: "filter (\<lambda>b. compiled_at True v b = None) (opt_list (kw_one k)) = filter (accepts v) (opt_list (kw_one k))"
      using br by (intro filter_cong) auto
    show ?thesis
    proof (cases "k = no_kws")
      case True
      then show ?thesis using "1.prems" by (simp add: SObj compiled_at_any accepts_any_exact)
    next
      case False
      obtain t where t: "json_type v = Some t" using json(2) by blast
      have all: "first_some (compiled_at True v) (opt_list (kw_all k)) = None \<longleftrightarrow> (\<forall>b \<in> set (opt_list (kw_all k)). accepts v b)"
        using br by (auto simp: first_some_None_iff)
      have any: "list_ex (\<lambda>b. compiled_at True v b = None) (opt_list (kw_any k)) \<longleftrightarrow> (\<exists>b \<in> set (opt_list (kw_any k)). accepts v b)"
        using br by (auto simp: list_ex_iff)
      have lits: "(case kw_const k of None \<Rightarrow> None | Some c \<Rightarrow> fail_if (\<not> json_values_equal v c) ConstMismatch) = (None :: failure option) \<longleftrightarrow>
          (\<forall>c. kw_const k = Some c \<longrightarrow> json_values_equal v c)"
        "(case kw_enum k of None \<Rightarrow> None | Some cs \<Rightarrow> fail_if (\<not> json_value_in v cs) EnumMismatch) = (None :: failure option) \<longleftrightarrow>
          (\<forall>cs. kw_enum k = Some cs \<longrightarrow> json_value_in v cs)"
        by (simp_all add: fail_if_def split: option.split)
      have f: "fail_if b x = (None :: failure option) \<longleftrightarrow> \<not> b" for b x by (simp add: fail_if_def)
      show ?thesis
        unfolding SObj accepts_SObj compiled_at_SObj[OF False] t option.case if_not_P[OF json(1)] or_else_None_iff all any one lits children f
        using json(1) by (auto simp: branches_ok_def types_ok_def literals_ok_def t)
    qed
  next
    case STrue
    then show ?thesis
      using "1.prems" compiled_at_any[of v True, unfolded compiled_any]
      by (simp add: accepts_STrue accepts_any_exact compile_validation_plan.simps)
  qed (simp add: accepts_def compile_validation_plan.simps)
qed

subsection \<open>An invocation with typed inputs\<close>

definition typed_inputs :: "ports \<Rightarrow> (string \<times> pyval) list \<Rightarrow> bool" where
  "typed_inputs p inputs \<longleftrightarrow>
     distinct (keys_of inputs) \<and>
     (\<forall>(n, v) \<in> set inputs. wf_val v \<and> (\<exists>q. map_of (in_ports p) n = Some q \<and> accepts v (pt_schema q))) \<and>
     (\<forall>(n, q) \<in> set (in_ports p). pt_required q \<longrightarrow> n \<in> set (keys_of inputs))"

lemma string_items_dict [simp]: "string_items (string_dict inputs) = inputs"
  by (simp add: string_items_def string_dict_def dict_items_def comp_def case_prod_beta')

lemma keys_string_dict: "keys_of (map (\<lambda>(n, v). (KStr n, v)) inputs) = map KStr (keys_of inputs)"
  by (simp add: case_prod_beta')

lemma port_contract_ok: "ports_ok p \<Longrightarrow> map_of (in_ports p) n = Some q \<Longrightarrow> contract_ok (pt_schema q)"
  by (auto simp: ports_ok_def list_all_iff dest: map_of_in_set)

lemma typed_input_exact:
  assumes "ports_ok p" "typed_inputs p inputs" "(n, v) \<in> set inputs" shows "exact_json v"
proof -
  from assms(2,3) obtain q where q: "map_of (in_ports p) n = Some q" "accepts v (pt_schema q)" by (auto simp: typed_inputs_def)
  then show ?thesis using accepts_exact[OF q(2)] port_contract_ok[OF assms(1) q(1)] schema_ok_shape by blast
qed

lemma typed_inputs_dict:
  assumes "ports_ok p" "typed_inputs p inputs"
  shows "wf_val (string_dict inputs)" "exact_json (string_dict inputs)" "accepts (string_dict inputs) (input_object_schema p)"
proof -
  have "distinct (map KStr (keys_of inputs))" using assms(2) by (simp add: typed_inputs_def distinct_map inj_on_def del: map_map)
  then show "wf_val (string_dict inputs)"
    using assms(2) by (auto simp: string_dict_def keys_string_dict typed_inputs_def list_all_iff simp del: map_map)
  show "exact_json (string_dict inputs)"
    using typed_input_exact[OF assms] by (auto simp: string_dict_def list_all_iff)
  let ?k = "Kws (Some [JObject]) (Some (map (\<lambda>(n, q). (n, pt_schema q)) (in_ports p)))
     (Some (sort (keys_of (filter (\<lambda>(n, q). pt_required q) (in_ports p))))) (Some SFalse) None None None None None None []"
  have lookup: "map_of (map (\<lambda>(n, q). (n, pt_schema q)) (in_ports p)) n = map_option pt_schema (map_of (in_ports p) n)" for n
    by (simp add: map_of_map)
  have "member_ok ?k kv" if "kv \<in> set (map (\<lambda>(n, v). (KStr n, v)) inputs)" for kv
    using that assms(2) by (auto simp: typed_inputs_def member_ok_def member_contract_def lookup)
  moreover have "KStr n \<in> set (map KStr (keys_of inputs))" if "n \<in> set (sort (keys_of (filter (\<lambda>(n, q). pt_required q) (in_ports p))))" for n
    using that assms(2) by (auto simp: typed_inputs_def)
  ultimately have "children_ok (string_dict inputs) ?k"
    by (simp add: children_ok_def string_dict_def keys_string_dict del: map_map set_map)
  then show "accepts (string_dict inputs) (input_object_schema p)"
    unfolding input_object_schema_def accepts_SObj
    by (simp add: branches_ok_def types_ok_def literals_ok_def string_dict_def non_json_def type_allowed_def declared_types_def)
qed

lemma isolate_tree_same: "exact_json v \<Longrightarrow> wf_val v \<Longrightarrow> isolate_validated_json_tree v = Inr v"
proof (induction v rule: isolate_validated_json_tree.induct)
  case (1 kvs)
  have "map_r (\<lambda>(k, c). bind_r (isolate_validated_json_tree c) (\<lambda>w. Inr (k, w))) kvs = Inr (map (\<lambda>x. x) kvs)"
    by (rule map_r_all_Inr) (use 1 in \<open>fastforce simp: list_all_iff\<close>)
  then show ?case using "1.prems" by (simp add: dict_of_distinct)
next
  case (2 xs)
  have "map_r isolate_validated_json_tree xs = Inr (map (\<lambda>x. x) xs)"
    by (rule map_r_all_Inr) (use 2 in \<open>auto simp: list_all_iff\<close>)
  then show ?case by simp
qed auto

lemma declared_names_ok:
  assumes "set given \<subseteq> KStr ` set (keys_of declared)" "\<forall>(n, q) \<in> set declared. pt_required q \<longrightarrow> KStr n \<in> set given"
  shows "declared_names label declared undeclared omitted given = Inr ()"
proof -
  have "filter (\<lambda>n. KStr n \<notin> set given) (keys_of (filter (\<lambda>(n, q). pt_required q) declared)) = []"
    using assms(2) by (auto simp: filter_empty_conv)
  then have "missing_names given (keys_of (filter (\<lambda>(n, q). pt_required q) declared)) = []"
    by (simp only: missing_names_def) (simp add: sorted_set_def)
  moreover have "unknown_names given (keys_of declared) = Inr []" using assms(1) by (simp add: unknown_names_None)
  ultimately show ?thesis by (simp add: declared_names_def Let_def)
qed

lemma typed_inputs_validated:
  assumes "ports_ok (io_ports io)" "typed_inputs (io_ports io) inputs"
  shows "validate_and_isolate_inputs io inputs = Inr inputs"
proof (cases "io_process io")
  case False
  have "compile_normalized_json_isolator False (io_label io @ ''.inputs'') (input_object_schema (io_ports io)) (string_dict inputs) =
      Inr (string_dict inputs)"
    using isolator_reported[OF typed_inputs_dict(1)[OF assms]] typed_inputs_dict(3)[OF assms] by (simp add: accepts_def)
  then show ?thesis using False by (simp add: validate_and_isolate_inputs_def)
next
  case True
  have "declared_names (io_label io) (in_ports (io_ports io)) u o' (map KStr (keys_of inputs)) = Inr ()" for u o'
  proof (rule declared_names_ok)
    have "n \<in> set (keys_of (in_ports (io_ports io)))" if "n \<in> set (keys_of inputs)" for n
    proof -
      from that assms(2) obtain q where "map_of (in_ports (io_ports io)) n = Some q" by (auto simp: typed_inputs_def)
      then show ?thesis by (simp add: key_unknown del: set_map)
    qed
    then show "set (map KStr (keys_of inputs)) \<subseteq> KStr ` set (keys_of (in_ports (io_ports io)))"
      unfolding set_map[of KStr "keys_of inputs"] by blast
    show "\<forall>(n, q) \<in> set (in_ports (io_ports io)). pt_required q \<longrightarrow> KStr n \<in> set (map KStr (keys_of inputs))"
      using assms(2) by (auto simp: typed_inputs_def)
  qed
  moreover have "iter_r (\<lambda>(n, v). case map_of (in_ports (io_ports io)) n of
            None \<Rightarrow> Inl (KeyError n)
          | Some q \<Rightarrow> compile_normalized_json_validator True (io_label io @ ''.inputs.'' @ n) (pt_schema q) v) inputs = Inr ()"
    unfolding iter_r_Inr_iff
  proof clarify
    fix n v assume v: "(n, v) \<in> set inputs"
    with assms(2) obtain q where q: "map_of (in_ports (io_ports io)) n = Some q" "accepts v (pt_schema q)" by (auto simp: typed_inputs_def)
    then show "(case map_of (in_ports (io_ports io)) n of
            None \<Rightarrow> Inl (KeyError n)
          | Some q \<Rightarrow> compile_normalized_json_validator True (io_label io @ ''.inputs.'' @ n) (pt_schema q) v) = Inr ()"
      using trusted_accepts[OF typed_input_exact[OF assms v], of "pt_schema q"] by (simp add: validator_reported reported_def)
  qed
  ultimately show ?thesis using True by (simp add: validate_and_isolate_inputs_def)
qed

lemma invoke_typed:
  assumes "ports_ok (io_ports io)" "typed_inputs (io_ports io) inputs"
  shows "invoke io inputs = invoke_validated io inputs"
  using typed_inputs_validated[OF assms] isolate_tree_same[OF typed_inputs_dict(2,1)[OF assms]]
  by (simp add: invoke_def invoke_validated_def)

text \<open>A Module answers a Python value, one that runs in a process the value of a JSON text.\<close>

definition answers_values :: "'m invocation \<Rightarrow> bool" where
  "answers_values io \<longleftrightarrow> (\<forall>inputs m v m'. ad_invoke (io_adapter io) inputs m = (Inr v, m') \<longrightarrow>
     wf_val v \<and> (io_process io \<longrightarrow> exact_json v))"

lemma isolated_outputs_typed:
  assumes "validate_and_isolate_outputs io v = Inr outputs" "wf_val v" "io_process io \<longrightarrow> exact_json v" "(n, w) \<in> set outputs"
  shows "wf_val w \<and> (\<exists>q. map_of (out_ports (io_ports io)) n = Some q \<and> accepts w (pt_schema q))"
proof -
  from assms(1) obtain kvs where v: "v = PDict kvs" by (cases v) (simp_all add: validate_and_isolate_outputs_def)
  from assms(1) have "map_r (\<lambda>(k, v). case map_of (out_ports (io_ports io)) (key_text k) of
              None \<Rightarrow> Inl (KeyError (key_text k))
            | Some q \<Rightarrow>
                bind_r (compile_normalized_json_isolator (io_process io) (io_label io @ ''.outputs.'' @ key_text k) (pt_schema q) v)
                  (\<lambda>w. Inr (key_text k, w))) kvs = Inr outputs"
    by (auto simp: validate_and_isolate_outputs_def v bind_r_Inr_iff)
  from map_r_in[OF this assms(4)] obtain k u q where u: "(k, u) \<in> set kvs" "n = key_text k" "map_of (out_ports (io_ports io)) n = Some q"
    "compile_normalized_json_isolator (io_process io) (io_label io @ ''.outputs.'' @ n) (pt_schema q) u = Inr w"
    by (auto simp: bind_r_Inr_iff split: option.splits)
  have wf: "wf_val u" using assms(2) u(1) by (auto simp: v list_all_iff)
  have ex: "io_process io \<longrightarrow> exact_json u" using assms(3) u(1) by (auto simp: v list_all_iff)
  from u(4)[unfolded isolator_reported[OF wf]] have w: "w = u" "compiled_at (io_process io) u (pt_schema q) = None"
    by (auto split: option.splits)
  have "accepts u (pt_schema q)"
    using w(2) ex trusted_accepts[of u "pt_schema q"] by (cases "io_process io") (simp_all add: accepts_def)
  with w(1) wf u(3) show ?thesis by blast
qed

lemma invoke_outputs_typed:
  assumes "invoke_validated io inputs iv = (Inr outputs, iv')" "answers_values io" "(n, w) \<in> set outputs"
  shows "wf_val w \<and> (\<exists>q. map_of (out_ports (io_ports io)) n = Some q \<and> accepts w (pt_schema q))"
proof -
  from assms(1) obtain isolated iv1 where "invoke_isolated io isolated iv1 = (Inr outputs, iv')"
    unfolding invoke_validated_def by (auto elim!: bind_s_InrE)
  then obtain v m m' where a: "ad_invoke (io_adapter io) isolated m = (Inr v, m')" "validate_and_isolate_outputs io v = Inr outputs"
    unfolding invoke_isolated_def by (auto elim!: bind_s_InrE simp: call_adapter_def lift_s_def split: prod.splits)
  with assms(2) have "wf_val v" "io_process io \<longrightarrow> exact_json v" by (auto simp: answers_values_def)
  from isolated_outputs_typed[OF a(2) this assms(3)] show ?thesis .
qed

subsection \<open>Values on wires\<close>

text \<open>A value that every port fed by a wire accepts, and a run whose proven wires carry such values\<close>

definition fits :: "'a compilation \<Rightarrow> string \<Rightarrow> pyval \<Rightarrow> bool" where
  "fits c wire v \<longleftrightarrow> (\<forall>node p b port_name q. node_ready c node p b \<longrightarrow> (port_name, wire) \<in> set (i_inputs b) \<longrightarrow>
     map_of (in_ports p) port_name = Some q \<longrightarrow> accepts v (pt_schema q))"

definition run_ok :: "'a compilation \<Rightarrow> 'm run \<Rightarrow> bool" where
  "run_ok c st \<longleftrightarrow> (\<forall>wire v. map_of (slot_values st) wire = Some v \<longrightarrow>
     wf_val v \<and>
     (wire \<in> set (keys_of (unknown_wires (c_wiring c))) \<longrightarrow> (\<exists>bid b. (bid, b) \<in> set (cg_inputs (c_plan c)) \<and> b_wire b = wire)) \<and>
     (wire \<in> set (slots_proven st) \<or> wire \<notin> set (keys_of (unknown_wires (c_wiring c))) \<longrightarrow> fits c wire v))"

lemma fits_contract:
  assumes "wire \<notin> set (keys_of (unknown_wires (c_wiring c)))" "map_of (producers (c_wiring c)) wire = Some owner"
    and "map_of (producer_schemas (c_wiring c)) wire = Some s" "contract_ok s" "wf_val v" "accepts v s"
  shows "fits c wire v"
  unfolding fits_def
proof (intro allI impI)
  fix node p b port_name q
  assume n: "node_ready c node p b" "(port_name, wire) \<in> set (i_inputs b)" "map_of (in_ports p) port_name = Some q"
  then have "port_fed c p (port_name, wire)" "ports_ok p" unfolding node_ready_def by blast+
  then have "schemas_compatible (schema_to_py s) (schema_to_py (pt_schema q)) = Inr True" "contract_ok (pt_schema q)"
    using assms(1-3) n(3) port_contract_ok[OF _ n(3)] by (simp_all add: port_fed_def del: set_map)
  then show "accepts v (pt_schema q)" using compatible_accepts assms(4-6) by blast
qed

lemma fits_edges:
  assumes "wire \<in> set (keys_of (unknown_wires (c_wiring c)))" "map_of (producers (c_wiring c)) wire = Some owner"
    and "\<And>e. e \<in> set (edges (c_plan c)) \<Longrightarrow> e_wire e = wire \<Longrightarrow> ep_node (e_from e) = fst owner \<Longrightarrow> accepts v (ep_schema (e_from e))"
  shows "fits c wire v"
  unfolding fits_def
proof (intro allI impI)
  fix node p b port_name q
  assume n: "node_ready c node p b" "(port_name, wire) \<in> set (i_inputs b)" "map_of (in_ports p) port_name = Some q"
  then have "port_fed c p (port_name, wire)" unfolding node_ready_def by blast
  then obtain e where e: "e \<in> set (edges (c_plan c))" "e_wire e = wire" "ep_node (e_from e) = fst owner" "ep_schema (e_from e) = pt_schema q"
    using assms(1,2) n(3) by (cases owner) (auto simp: port_fed_def simp del: set_map)
  with assms(3)[OF e(1-3)] show "accepts v (pt_schema q)" by simp
qed

subsection \<open>The bound plan\<close>

lemma bound_plan:
  assumes "compile_runtime_plan dumps limit causal plan all_ports = Inr rp"
  obtains proven where "rt_plan rp = plan" "proven_boundaries plan = Inr proven"
    "wire_validators rp = fold (add_wire_validator dumps plan proven) (edges plan) []"
    "\<And>source segments wire flag. (source, segments, wire, flag) \<in> set (input_plan rp) \<Longrightarrow>
      \<exists>bid b. (bid, b) \<in> set (cg_inputs plan) \<and> source = b_source b \<and> split_data_path (b_key b) = Inr segments \<and>
        wire = b_wire b \<and> flag = (bid \<in> set proven)"
    "map_r (bind_node plan all_ports) (topology plan) = Inr (node_plan rp)"
    "compile_default_proof limit causal plan = Inr (default_proof rp)"
    "map_r (compile_source_proof limit plan) (sort_key fst (input_sources plan)) = Inr (source_proofs rp)"
proof -
  from assms obtain default sources proven ins outs nodes where c:
    "compile_default_proof limit causal plan = Inr default" "map_r (compile_source_proof limit plan) (sort_key fst (input_sources plan)) = Inr sources"
    "proven_boundaries plan = Inr proven" "bind_inputs plan proven = Inr ins" "map_r (bind_node plan all_ports) (topology plan) = Inr nodes"
    "rp = \<lparr>rt_plan = plan, default_proof = default, source_proofs = sources,
       wire_validators = fold (add_wire_validator dumps plan proven) (edges plan) [], input_plan = ins, output_plan = outs, node_plan = nodes\<rparr>"
    by (auto simp: compile_runtime_plan_def bind_r_Inr_iff Let_def)
  from c(4) obtain ranked where r: "map_r (\<lambda>(bid, b). bind_r (canonical_data_key_order (b_key b) bid) (\<lambda>rank. Inr (rank, (bid, b)))) (cg_inputs plan) = Inr ranked"
    "ins = map (\<lambda>((segments, _), (bid, b)). (b_source b, segments, b_wire b, bid \<in> set proven)) (sort_key fst ranked)"
    by (auto simp: bind_inputs_def bind_r_Inr_iff)
  have ins: "\<exists>bid b. (bid, b) \<in> set (cg_inputs plan) \<and> source = b_source b \<and> split_data_path (b_key b) = Inr segments \<and>
        wire = b_wire b \<and> flag = (bid \<in> set proven)" if "(source, segments, wire, flag) \<in> set ins" for source segments wire flag
  proof -
    from that obtain identity bid b where x: "((segments, identity), (bid, b)) \<in> set ranked" "source = b_source b" "wire = b_wire b"
      "flag = (bid \<in> set proven)" by (auto simp: r(2))
    from map_r_in[OF r(1) x(1)] have "(bid, b) \<in> set (cg_inputs plan)" "split_data_path (b_key b) = Inr segments"
      by (auto simp: bind_r_Inr_iff canonical_data_key_order_def)
    with x(2-4) show ?thesis by blast
  qed
  show ?thesis by (rule that[of proven]) (use c ins in \<open>simp_all\<close>)
qed

lemma entry_values:
  assumes "entry_checks rp initial_data sources target = Inr ()"
  shows "validate_values (default_proof rp) initial_data = Inr ()"
    "(src, p) \<in> set (source_proofs rp) \<Longrightarrow> \<exists>d. map_of sources src = Some d \<and> validate_values p d = Inr ()"
proof -
  show "validate_values (default_proof rp) initial_data = Inr ()"
    using assms by (auto simp: entry_checks_def bind_r_Inr_iff)
  assume p: "(src, p) \<in> set (source_proofs rp)"
  have "iter_r (\<lambda>(src, p). bind_r (source_data sources src) (validate_values p)) (source_proofs rp) = Inr ()"
    using assms by (auto simp: entry_checks_def bind_r_Inr_iff)
  with p show "\<exists>d. map_of sources src = Some d \<and> validate_values p d = Inr ()"
    by (fastforce simp: iter_r_Inr_iff bind_r_Inr_iff source_data_def split: option.splits)
qed

lemma validated_dict: "validate_values p data = Inr () \<Longrightarrow> \<exists>d. data = PDict d"
  by (cases data) (simp_all add: validate_values_def)

definition source_of :: "pyval \<Rightarrow> (string \<times> pyval) list \<Rightarrow> string option \<Rightarrow> pyval option" where
  "source_of initial_data sources source = (case source of None \<Rightarrow> Some initial_data | Some src \<Rightarrow> map_of sources src)"

lemma boundary_value:
  assumes "compile_runtime_plan dumps limit causal plan all_ports = Inr rp"
    and "entry_checks rp initial_data sources target = Inr ()"
    and "(bid, b) \<in> set (cg_inputs plan)" "plan_contracts plan (b_source b) = Some cs"
    and "resolve_expanded_contract_path cs (b_key b) = Inr (Some s)"
    and "source_of initial_data sources (b_source b) = Some data" "split_data_path (b_key b) = Inr segments"
    and "find_segments data segments = Some v"
  shows "accepts v s"
proof -
  obtain proven where bp: "compile_default_proof limit causal plan = Inr (default_proof rp)"
    "map_r (compile_source_proof limit plan) (sort_key fst (input_sources plan)) = Inr (source_proofs rp)"
    by (rule bound_plan[OF assms(1)])
  have key: "b_key b \<in> set (source_boundaries plan (b_source b))" using assms(3) by (force simp: source_boundaries_def)
  show ?thesis
  proof (cases "b_source b")
    case None
    from bp(1) obtain roots label required cond where p:
      "compile_declared_data_json_proof limit (Expanded (input_contracts plan)) roots label False
        (Some (source_boundaries plan None)) required cond = Inr (default_proof rp)"
      by (auto simp: compile_default_proof_def Let_def bind_r_Inr_iff)
    have d: "validate_values (default_proof rp) data = Inr ()" using entry_values(1)[OF assms(2)] assms(6) None by (simp add: source_of_def)
    then obtain kvs where "data = PDict kvs" using validated_dict by blast
    with declared_values[OF p, of kvs "b_key b"] d key assms(4,5,7,8) None show ?thesis by (simp add: plan_contracts_def)
  next
    case (Some src)
    with assms(4) obtain roots where st: "(src, cs, roots) \<in> set (input_sources plan)"
      by (auto simp: plan_contracts_def dest: map_of_in_set)
    then have "(src, cs, roots) \<in> set (sort_key fst (input_sources plan))" by simp
    from map_r_out[OF bp(2) this] obtain label required p where p: "(src, p) \<in> set (source_proofs rp)"
      "compile_declared_data_json_proof limit (Expanded cs) roots label False (Some (source_boundaries plan (Some src))) required [] = Inr p"
      by (auto simp: compile_source_proof_def Let_def bind_r_Inr_iff)
    have d: "validate_values p data = Inr ()" using entry_values(2)[OF assms(2) p(1)] assms(6) Some by (simp add: source_of_def)
    then obtain kvs where "data = PDict kvs" using validated_dict by blast
    with declared_values[OF p(2), of kvs "b_key b"] d key assms(5,7,8) Some show ?thesis by simp
  qed
qed

subsection \<open>Wire validators\<close>

text \<open>The text of a contract tells it from the other contracts on edges of the plan.\<close>

definition tells_apart :: "(pyval \<Rightarrow> string) \<Rightarrow> compiled_graph \<Rightarrow> bool" where
  "tells_apart dumps plan \<longleftrightarrow> (\<forall>e \<in> set (edges plan). \<forall>e' \<in> set (edges plan).
     dumps (schema_to_py (ep_schema (e_from e))) = dumps (schema_to_py (ep_schema (e_from e'))) \<longrightarrow>
     same (ep_schema (e_from e)) (ep_schema (e_from e')))"

definition wire_checks :: "(string \<times> (string \<times> (pyval \<Rightarrow> unit res)) list) list \<Rightarrow> string \<Rightarrow> (string \<times> (pyval \<Rightarrow> unit res)) list" where
  "wire_checks vs wire = (case map_of vs wire of None \<Rightarrow> [] | Some checks \<Rightarrow> checks)"

definition checks_edges :: "(pyval \<Rightarrow> string) \<Rightarrow> edge list \<Rightarrow> (string \<times> (string \<times> (pyval \<Rightarrow> unit res)) list) list \<Rightarrow> bool" where
  "checks_edges dumps es vs \<longleftrightarrow> (\<forall>wire key check. (key, check) \<in> set (wire_checks vs wire) \<longrightarrow>
     (\<exists>e \<in> set es. \<exists>path. key = dumps (schema_to_py (ep_schema (e_from e))) \<and>
       check = compile_normalized_json_validator False path (ep_schema (e_from e))))"

lemma add_wire_validator_step:
  fixes vs :: "(string \<times> (string \<times> (pyval \<Rightarrow> unit res)) list) list" and plan :: compiled_graph and proven :: "string list"
  assumes "checks_edges dumps es vs" "e \<in> set es"
  defines "vs' \<equiv> add_wire_validator dumps plan proven e vs"
  shows "checks_edges dumps es vs'" "set (wire_checks vs wire) \<subseteq> set (wire_checks vs' wire)"
    and "ep_node (e_from e) \<in> set (keys_of (cg_inputs plan)) \<Longrightarrow> ep_node (e_from e) \<notin> set proven \<Longrightarrow>
      dumps (schema_to_py (ep_schema (e_from e))) \<in> set (keys_of (wire_checks vs' (e_wire e)))"
proof -
  let ?key = "dumps (schema_to_py (ep_schema (e_from e)))" and ?present = "wire_checks vs (e_wire e)"
  have cases: "vs' = vs \<and> (ep_node (e_from e) \<notin> set (keys_of (cg_inputs plan)) \<or> ep_node (e_from e) \<in> set proven \<or> ?key \<in> set (keys_of ?present)) \<or>
      (\<exists>path. vs' = AList.update (e_wire e) (?present @ [(?key, compile_normalized_json_validator False path (ep_schema (e_from e)))]) vs)"
    unfolding vs'_def add_wire_validator_def Let_def wire_checks_def by (auto simp del: set_map)
  have new: "wire_checks (AList.update w cs vs) wire = (if wire = w then cs else wire_checks vs wire)" for w cs wire
    by (simp add: wire_checks_def lookup_update)
  show "checks_edges dumps es vs'"
    using cases assms(1,2) unfolding checks_edges_def by (auto simp: new split: if_splits, blast)
  show "set (wire_checks vs wire) \<subseteq> set (wire_checks vs' wire)"
    using cases by (auto simp: new)
  show "?key \<in> set (keys_of (wire_checks vs' (e_wire e)))"
    if "ep_node (e_from e) \<in> set (keys_of (cg_inputs plan))" "ep_node (e_from e) \<notin> set proven"
    using cases that by (auto simp: new simp del: set_map)
qed

lemma validators_cover:
  fixes vs :: "(string \<times> (string \<times> (pyval \<Rightarrow> unit res)) list) list"
  assumes "checks_edges dumps all_edges vs" "set es \<subseteq> set all_edges"
  shows "checks_edges dumps all_edges (fold (add_wire_validator dumps plan proven) es vs) \<and>
    (\<forall>wire. set (wire_checks vs wire) \<subseteq> set (wire_checks (fold (add_wire_validator dumps plan proven) es vs) wire)) \<and>
    (\<forall>e \<in> set es. ep_node (e_from e) \<in> set (keys_of (cg_inputs plan)) \<longrightarrow> ep_node (e_from e) \<notin> set proven \<longrightarrow>
      dumps (schema_to_py (ep_schema (e_from e))) \<in>
        set (keys_of (wire_checks (fold (add_wire_validator dumps plan proven) es vs) (e_wire e))))"
  using assms
proof (induction es arbitrary: vs)
  case (Cons e es)
  let ?vs = "add_wire_validator dumps plan proven e vs" and ?f = "fold (add_wire_validator dumps plan proven) es"
  have e: "e \<in> set all_edges" using Cons.prems(2) by simp
  note step = add_wire_validator_step[OF Cons.prems(1) e, where plan = plan and proven = proven]
  from Cons.IH[OF step(1)] Cons.prems(2) have ih: "checks_edges dumps all_edges (?f ?vs)"
    "\<And>wire. set (wire_checks ?vs wire) \<subseteq> set (wire_checks (?f ?vs) wire)"
    "\<forall>e \<in> set es. ep_node (e_from e) \<in> set (keys_of (cg_inputs plan)) \<longrightarrow> ep_node (e_from e) \<notin> set proven \<longrightarrow>
      dumps (schema_to_py (ep_schema (e_from e))) \<in> set (keys_of (wire_checks (?f ?vs) (e_wire e)))" by simp_all
  have "set (keys_of (wire_checks ?vs wire)) \<subseteq> set (keys_of (wire_checks (?f ?vs) wire))" for wire
    unfolding set_map by (rule image_mono[OF ih(2)])
  with step(3) have "ep_node (e_from e) \<in> set (keys_of (cg_inputs plan)) \<Longrightarrow> ep_node (e_from e) \<notin> set proven \<Longrightarrow>
      dumps (schema_to_py (ep_schema (e_from e))) \<in> set (keys_of (wire_checks (?f ?vs) (e_wire e)))" by blast
  moreover have "set (wire_checks vs wire) \<subseteq> set (wire_checks (?f ?vs) wire)" for wire using step(2) ih(2) by blast
  ultimately show ?case using ih(1,3) by (simp del: set_map)
qed simp

lemma checked_value:
  assumes "tells_apart dumps plan" "edges_ok (edges plan)" "e \<in> set (edges plan)"
    and "ep_node (e_from e) \<in> set (keys_of (cg_inputs plan))" "ep_node (e_from e) \<notin> set proven"
    and "iter_r (\<lambda>(key, check). check v) (wire_checks (fold (add_wire_validator dumps plan proven) (edges plan) []) (e_wire e)) = Inr ()"
  shows "accepts v (ep_schema (e_from e))"
proof -
  let ?vs = "fold (add_wire_validator dumps plan proven) (edges plan) []"
  have start: "checks_edges dumps (edges plan) []" by (simp add: checks_edges_def wire_checks_def)
  note cover = validators_cover[OF start subset_refl, of plan proven]
  from cover assms(3-5) have "dumps (schema_to_py (ep_schema (e_from e))) \<in> set (keys_of (wire_checks ?vs (e_wire e)))" by blast
  then obtain check where c: "(dumps (schema_to_py (ep_schema (e_from e))), check) \<in> set (wire_checks ?vs (e_wire e))" by auto
  with cover obtain e' path where e': "e' \<in> set (edges plan)"
    "dumps (schema_to_py (ep_schema (e_from e))) = dumps (schema_to_py (ep_schema (e_from e')))"
    "check = compile_normalized_json_validator False path (ep_schema (e_from e'))" unfolding checks_edges_def by blast
  have ok: "shape_ok (ep_schema (e_from e))" "shape_ok (ep_schema (e_from e'))" using assms(2,3) e'(1) schema_ok_shape by (auto simp: edges_ok_def)
  have "check v = Inr ()" using assms(6) c by (fastforce simp: iter_r_Inr_iff)
  then have "accepts v (ep_schema (e_from e'))" by (simp add: e'(3) validator_reported reported_Inr_iff accepts_def)
  moreover have "same (ep_schema (e_from e)) (ep_schema (e_from e'))" using assms(1,3) e'(1,2) by (simp add: tells_apart_def)
  ultimately show ?thesis using same_accepts ok by blast
qed

subsection \<open>The steps of a run\<close>

text \<open>No Data Input without contract is taken as proven with its root.\<close>

definition unknown_unproven :: "'a compilation \<Rightarrow> bool" where
  "unknown_unproven c \<longleftrightarrow> (case proven_boundaries (c_plan c) of
       Inl _ \<Rightarrow> True
     | Inr proven \<Rightarrow> list_all (\<lambda>(bid, b). b_wire b \<in> set (keys_of (unknown_wires (c_wiring c))) \<longrightarrow> bid \<notin> set proven)
         (cg_inputs (c_plan c)))"

text \<open>What the steps rely on: a compiled plan, bound, with data that passed the entry checks\<close>

definition entered ::
    "(pyval \<Rightarrow> string) \<Rightarrow> nat \<Rightarrow> bool \<Rightarrow> 'a compilation \<Rightarrow> runtime_plan \<Rightarrow> pyval \<Rightarrow> (string \<times> pyval) list \<Rightarrow> pyval option \<Rightarrow> bool" where
  "entered dumps limit causal c rp initial_data sources target \<longleftrightarrow>
     (\<forall>x \<in> set (cg_inputs (c_plan c)). boundary_ready c x) \<and>
     (\<forall>node \<in> set (topology (c_plan c)). \<exists>p b. node_ready c node p b) \<and> edges_ok (edges (c_plan c)) \<and> producers_ok (c_wiring c) \<and>
     compile_runtime_plan dumps limit causal (c_plan c) (c_ports c) = Inr rp \<and> tells_apart dumps (c_plan c) \<and> unknown_unproven c \<and>
     entry_checks rp initial_data sources target = Inr () \<and> wf_val initial_data \<and> list_all (\<lambda>(src, d). wf_val d) sources"

lemma entered_plan:
  assumes "entered dumps limit causal c rp initial_data sources target"
  obtains proven where "proven_boundaries (c_plan c) = Inr proven"
    "wire_validators rp = fold (add_wire_validator dumps (c_plan c) proven) (edges (c_plan c)) []"
    "\<forall>(source, segments, wire, flag) \<in> set (input_plan rp). \<exists>bid b. (bid, b) \<in> set (cg_inputs (c_plan c)) \<and>
        source = b_source b \<and> split_data_path (b_key b) = Inr segments \<and> wire = b_wire b \<and> flag = (bid \<in> set proven)"
    "map_r (bind_node (c_plan c) (c_ports c)) (topology (c_plan c)) = Inr (node_plan rp)"
    "\<forall>(bid, b) \<in> set (cg_inputs (c_plan c)). b_wire b \<in> set (keys_of (unknown_wires (c_wiring c))) \<longrightarrow> bid \<notin> set proven"
proof -
  have plan: "compile_runtime_plan dumps limit causal (c_plan c) (c_ports c) = Inr rp" and unproven: "unknown_unproven c"
    using assms unfolding entered_def by blast+
  show ?thesis
  proof (rule bound_plan[OF plan])
    fix proven
    assume b: "proven_boundaries (c_plan c) = Inr proven"
      "wire_validators rp = fold (add_wire_validator dumps (c_plan c) proven) (edges (c_plan c)) []"
      "\<And>source segments wire flag. (source, segments, wire, flag) \<in> set (input_plan rp) \<Longrightarrow>
        \<exists>bid b. (bid, b) \<in> set (cg_inputs (c_plan c)) \<and> source = b_source b \<and> split_data_path (b_key b) = Inr segments \<and>
          wire = b_wire b \<and> flag = (bid \<in> set proven)"
      "map_r (bind_node (c_plan c) (c_ports c)) (topology (c_plan c)) = Inr (node_plan rp)"
    have u: "\<forall>(bid, b) \<in> set (cg_inputs (c_plan c)). b_wire b \<in> set (keys_of (unknown_wires (c_wiring c))) \<longrightarrow> bid \<notin> set proven"
      using unproven b(1) by (simp add: unknown_unproven_def list_all_iff case_prod_unfold del: set_map)
    have ins: "\<forall>(source, segments, wire, flag) \<in> set (input_plan rp). \<exists>bid b. (bid, b) \<in> set (cg_inputs (c_plan c)) \<and>
        source = b_source b \<and> split_data_path (b_key b) = Inr segments \<and> wire = b_wire b \<and> flag = (bid \<in> set proven)"
      using b(3) by blast
    show thesis by (rule that[OF b(1,2) ins b(4) u])
  qed
qed

lemma read_input_eq:
  "read_input initial_data sources (source, segments, wire, flag) st =
     (case source_of initial_data sources source of
        None \<Rightarrow> (Inl (KeyError (the source)), st)
      | Some data \<Rightarrow> (case find_segments data segments of None \<Rightarrow> (Inr (), st)
          | Some v \<Rightarrow> (Inr (), st\<lparr>slot_values := AList.update wire v (slot_values st),
              slots_proven := (if flag then wire # slots_proven st else filter ((\<noteq>) wire) (slots_proven st))\<rparr>)))"
  by (auto simp: read_input_def source_of_def lift_s_def bind_s_def ret_s_def modify_s_def split: option.splits)

lemma read_input_ok:
  assumes e: "entered dumps limit causal c rp initial_data sources target" and x: "x \<in> set (input_plan rp)"
    and "run_ok c st" "read_input initial_data sources x st = (Inr u, st')"
  shows "run_ok c st'"
proof -
  obtain source segments wire flag where x': "x = (source, segments, wire, flag)" by (cases x)
  obtain proven where bp: "\<forall>(source, segments, wire, flag) \<in> set (input_plan rp). \<exists>bid b. (bid, b) \<in> set (cg_inputs (c_plan c)) \<and>
        source = b_source b \<and> split_data_path (b_key b) = Inr segments \<and> wire = b_wire b \<and> flag = (bid \<in> set proven)"
    "\<forall>(bid, b) \<in> set (cg_inputs (c_plan c)). b_wire b \<in> set (keys_of (unknown_wires (c_wiring c))) \<longrightarrow> bid \<notin> set proven"
    by (rule entered_plan[OF e])
  have plan: "compile_runtime_plan dumps limit causal (c_plan c) (c_ports c) = Inr rp" and entry: "entry_checks rp initial_data sources target = Inr ()"
    and data_wf: "wf_val initial_data" "list_all (\<lambda>(src, d). wf_val d) sources" and ready: "\<forall>x \<in> set (cg_inputs (c_plan c)). boundary_ready c x"
    using e unfolding entered_def by blast+
  from bp(1) x x' obtain bid b where b: "(bid, b) \<in> set (cg_inputs (c_plan c))" "source = b_source b" "split_data_path (b_key b) = Inr segments"
    "wire = b_wire b" "flag = (bid \<in> set proven)" by blast
  from assms(4) obtain data where d: "source_of initial_data sources source = Some data"
    by (auto simp: x' read_input_eq split: option.splits)
  have wf: "wf_val data" using d data_wf by (auto simp: source_of_def list_all_iff split: option.splits dest!: map_of_in_set)
  show ?thesis
  proof (cases "find_segments data segments")
    case None
    then show ?thesis using assms(3,4) by (simp add: x' read_input_eq d)
  next
    case (Some v)
    then have st': "st' = st\<lparr>slot_values := AList.update wire v (slot_values st),
        slots_proven := (if flag then wire # slots_proven st else filter ((\<noteq>) wire) (slots_proven st))\<rparr>"
      using assms(4) by (simp add: x' read_input_eq d)
    have ready: "boundary_ready c (bid, b)" using ready b(1) by blast
    then have prod: "map_of (producers (c_wiring c)) wire = Some (bid, ''value'')" by (simp add: boundary_ready_def b(4))
    have wv: "wf_val v" using find_segments_wf[OF wf Some] .
    have fit: "fits c wire v" if known: "wire \<notin> set (keys_of (unknown_wires (c_wiring c)))"
    proof -
      from ready known obtain cs s where s: "plan_contracts (c_plan c) (b_source b) = Some cs"
        "resolve_expanded_contract_path cs (b_key b) = Inr (Some s)" "map_of (producer_schemas (c_wiring c)) wire = Some s" "contract_ok s"
        by (auto simp: boundary_ready_def b(4) simp del: set_map)
      have "accepts v s" by (rule boundary_value[OF plan entry b(1) s(1,2) d[unfolded b(2)] b(3) Some])
      then show ?thesis using fits_contract[OF known prod s(3,4) wv] by blast
    qed
    have "flag \<Longrightarrow> wire \<notin> set (keys_of (unknown_wires (c_wiring c)))"
      using bp(2) b(1,4,5) by blast
    then have "wire \<in> set (slots_proven st') \<or> wire \<notin> set (keys_of (unknown_wires (c_wiring c))) \<longrightarrow> fits c wire v"
      using fit by (auto simp: st' simp del: set_map)
    moreover have "w \<in> set (slots_proven st') \<longleftrightarrow> w \<in> set (slots_proven st)" if "w \<noteq> wire" for w using that by (auto simp: st')
    moreover have "map_of (slot_values st') w = (if w = wire then Some v else map_of (slot_values st) w)" for w
      by (simp add: st' lookup_update)
    moreover have "\<exists>bid b. (bid, b) \<in> set (cg_inputs (c_plan c)) \<and> b_wire b = wire" using b(1,4) by blast
    ultimately show ?thesis using assms(3) wv unfolding run_ok_def by (auto simp del: set_map split: if_splits)
  qed
qed

lemma prove_wire_eq:
  "prove_wire rp wire v st =
     (if wire \<in> set (slots_proven st) then (Inr (), st)
      else if wire_checks (wire_validators rp) wire = []
        then (Inl (RuntimeError (''Graph wire '' @ quoted wire @ '' has no dynamic value proof.'')), st)
      else (case iter_r (\<lambda>(key, check). check v) (wire_checks (wire_validators rp) wire) of
          Inl e \<Rightarrow> (Inl e, st) | Inr _ \<Rightarrow> (Inr (), st\<lparr>slots_proven := wire # slots_proven st\<rparr>)))"
  by (simp add: prove_wire_def wire_checks_def Let_def bind_s_def gets_s_def guard_s_def lift_s_def modify_s_def ret_s_def guard_r_def
      split: option.split sum.split)

lemma prove_wire_ok:
  assumes e: "entered dumps limit causal c rp initial_data sources target"
    and "run_ok c st" "map_of (slot_values st) wire = Some v" "prove_wire rp wire v st = (Inr u, st')"
  shows "run_ok c st' \<and> slot_values st' = slot_values st \<and> run_graph st' = run_graph st \<and>
    wire \<in> set (slots_proven st') \<and> set (slots_proven st) \<subseteq> set (slots_proven st')"
proof (cases "wire \<in> set (slots_proven st)")
  case False
  from assms(4) False have st': "st' = st\<lparr>slots_proven := wire # slots_proven st\<rparr>"
    and checks: "iter_r (\<lambda>(key, check). check v) (wire_checks (wire_validators rp) wire) = Inr ()"
    by (auto simp: prove_wire_eq split: if_splits sum.splits)
  have "fits c wire v"
  proof (cases "wire \<in> set (keys_of (unknown_wires (c_wiring c)))")
    case True
    obtain proven where bp: "wire_validators rp = fold (add_wire_validator dumps (c_plan c) proven) (edges (c_plan c)) []"
      "\<forall>(bid, b) \<in> set (cg_inputs (c_plan c)). b_wire b \<in> set (keys_of (unknown_wires (c_wiring c))) \<longrightarrow> bid \<notin> set proven"
      by (rule entered_plan[OF e])
    have known: "tells_apart dumps (c_plan c)" "edges_ok (edges (c_plan c))" "\<forall>x \<in> set (cg_inputs (c_plan c)). boundary_ready c x"
      using e unfolding entered_def by blast+
    from assms(2,3) True obtain bid b where b: "(bid, b) \<in> set (cg_inputs (c_plan c))" "b_wire b = wire"
      unfolding run_ok_def by blast
    have owner: "map_of (producers (c_wiring c)) wire = Some (bid, ''value'')"
      using bspec[OF known(3) b(1)] b(2) by (simp add: boundary_ready_def)
    show ?thesis
    proof (rule fits_edges[OF True owner])
      fix x assume x: "x \<in> set (edges (c_plan c))" "e_wire x = wire" "ep_node (e_from x) = fst (bid, ''value'')"
      have "ep_node (e_from x) \<in> set (keys_of (cg_inputs (c_plan c)))" using b(1) x(3) by force
      moreover have "ep_node (e_from x) \<notin> set proven" using bp(2) b True x(3) by auto
      ultimately show "accepts v (ep_schema (e_from x))"
        using checked_value[OF known(1,2) x(1)] checks by (simp add: bp(1) x(2) del: set_map)
    qed
  qed (use assms(2,3) in \<open>auto simp: run_ok_def simp del: set_map\<close>)
  with st' assms(2,3) show ?thesis by (auto simp: run_ok_def simp del: set_map)
qed (use assms in \<open>auto simp: prove_wire_eq\<close>)

lemma prove_inputs_ok:
  assumes e: "entered dumps limit causal c rp initial_data sources target"
    and "run_ok c st" "\<forall>(port_name, wire, v) \<in> set found. map_of (slot_values st) wire = Some v"
    and "iter_s (\<lambda>(port_name, wire, v). prove_wire rp wire v) found st = (Inr u, st')"
  shows "run_ok c st' \<and> slot_values st' = slot_values st \<and> run_graph st' = run_graph st \<and>
    (\<forall>(port_name, wire, v) \<in> set found. wire \<in> set (slots_proven st')) \<and> set (slots_proven st) \<subseteq> set (slots_proven st')"
  using assms(2-4)
proof (induction found arbitrary: st)
  case (Cons x found)
  obtain port_name wire v where x: "x = (port_name, wire, v)" by (cases x)
  from Cons.prems(3) obtain st1 where s: "prove_wire rp wire v st = (Inr (), st1)"
    "iter_s (\<lambda>(port_name, wire, v). prove_wire rp wire v) found st1 = (Inr u, st')"
    by (auto simp: x elim!: bind_s_InrE)
  have one: "run_ok c st1" "slot_values st1 = slot_values st" "run_graph st1 = run_graph st" "wire \<in> set (slots_proven st1)"
    "set (slots_proven st) \<subseteq> set (slots_proven st1)"
    using prove_wire_ok[OF e Cons.prems(1) _ s(1)] Cons.prems(2) by (auto simp: x)
  from Cons.IH[OF one(1) _ s(2)] Cons.prems(2) one(2) have rest:
    "run_ok c st'" "slot_values st' = slot_values st1" "run_graph st' = run_graph st1"
    "\<forall>(port_name, wire, v) \<in> set found. wire \<in> set (slots_proven st')" "set (slots_proven st1) \<subseteq> set (slots_proven st')"
    by simp_all
  show ?case using rest one by (auto simp: x)
qed (simp add: ret_s_def)

subsection \<open>A node\<close>

definition deployed :: "'a compilation \<Rightarrow> 'm deployment \<Rightarrow> bool" where
  "deployed c modules \<longleftrightarrow>
     (\<forall>node \<in> set (topology (c_plan c)). map_of (c_ports c) node = Some (io_ports (modules node)) \<and> answers_values (modules node))"

text \<open>The step of a node, as bound from its instance\<close>

definition node_step ::
    "ports \<Rightarrow> instance_binding \<Rightarrow> (string \<times> string \<times> bool) list \<Rightarrow> (string \<times> string) list \<Rightarrow> bool" where
  "node_step p b ins outs \<longleftrightarrow>
     (\<forall>(port_name, wire, required) \<in> set ins. (port_name, wire) \<in> set (i_inputs b) \<and>
        (\<exists>q. map_of (in_ports p) port_name = Some q \<and> required = pt_required q)) \<and>
     distinct (keys_of ins) \<and> set (keys_of ins) = set (keys_of (i_inputs b)) \<and> set outs = set (i_outputs b)"

lemma bound_node_step:
  assumes "bind_node plan all_ports node = Inr (node', ins, outs)" "map_of (bindings plan) node = Some b"
    and "map_of all_ports node = Some p" "distinct (keys_of (i_inputs b))"
  shows "node' = node \<and> node_step p b ins outs"
proof -
  let ?f = "\<lambda>(port_name, wire). case map_of (in_ports p) port_name of None \<Rightarrow> Inl (KeyError port_name)
            | Some q \<Rightarrow> Inr (port_name, wire, pt_required q)"
  from assms(1-3) have r: "map_r ?f (sort_key fst (i_inputs b)) = Inr ins" "node' = node" "outs = sort_key fst (i_outputs b)"
    by (auto simp: bind_node_def bind_r_Inr_iff)
  have elem: "(port_name, wire) \<in> set (i_inputs b) \<and> (\<exists>q. map_of (in_ports p) port_name = Some q \<and> required = pt_required q)"
    if x: "(port_name, wire, required) \<in> set ins" for port_name wire required
  proof -
    from map_r_in[OF r(1) x] obtain n w where y: "(n, w) \<in> set (i_inputs b)" "?f (n, w) = Inr (port_name, wire, required)" by auto
    then show ?thesis by (auto split: option.splits)
  qed
  have "keys_of ys = keys_of xs" if "map_r ?f xs = Inr ys" for xs ys
    using that by (induction xs arbitrary: ys) (auto simp: bind_r_Inr_iff split: option.splits)
  from this[OF r(1)] have "keys_of ins = map fst (sort_key fst (i_inputs b))" .
  moreover have "distinct (map fst (sort_key fst (i_inputs b)))"
    using assms(4) mset_eq_imp_distinct_iff[of "map fst (sort_key fst (i_inputs b))" "keys_of (i_inputs b)"] by simp
  ultimately show ?thesis using r(2,3) elem unfolding node_step_def by (auto simp del: set_map simp: set_map[of fst])
qed

lemma gather_inputs_simps [simp]:
  "gather_inputs slots node [] = Inr []"
  "gather_inputs slots node ((port_name, wire, required) # ins) =
     (case map_of slots wire of
        None \<Rightarrow>
          if required then Inl (ValueError (''Graph Module '' @ quoted node @ '' input '' @ quoted port_name @
             '' cannot read wire '' @ quoted wire @ ''.''))
          else gather_inputs slots node ins
      | Some v \<Rightarrow> bind_r (gather_inputs slots node ins) (\<lambda>found. Inr ((port_name, wire, v) # found)))"
  by (simp_all add: gather_inputs_def map_filter_simps bind_r_def split: option.split sum.split)

lemma gathered:
  assumes "gather_inputs slots node ins = Inr found"
  shows "\<forall>(port_name, wire, v) \<in> set found. map_of slots wire = Some v \<and> (\<exists>required. (port_name, wire, required) \<in> set ins)"
    "\<forall>(port_name, wire, required) \<in> set ins. required \<longrightarrow> port_name \<in> set (keys_of found)"
    "distinct (keys_of ins) \<Longrightarrow> distinct (keys_of found)"
proof -
  have "(\<forall>(port_name, wire, v) \<in> set found. map_of slots wire = Some v \<and> (\<exists>required. (port_name, wire, required) \<in> set ins)) \<and>
    (\<forall>(port_name, wire, required) \<in> set ins. required \<longrightarrow> port_name \<in> set (keys_of found)) \<and>
    set (keys_of found) \<subseteq> set (keys_of ins) \<and> (distinct (keys_of ins) \<longrightarrow> distinct (keys_of found))"
    using assms
  proof (induction ins arbitrary: found)
    case (Cons x ins)
    obtain port_name wire required where x: "x = (port_name, wire, required)" by (cases x)
    show ?case
    proof (cases "map_of slots wire")
      case None
      then have "\<not> required" "gather_inputs slots node ins = Inr found" using Cons.prems by (auto simp: x split: if_splits)
      with Cons.IH[of found] show ?thesis by (auto simp: x)
    next
      case (Some v)
      with Cons.prems obtain f where f: "gather_inputs slots node ins = Inr f" "found = (port_name, wire, v) # f"
        by (auto simp: x bind_r_Inr_iff)
      have "port_name \<notin> set (keys_of ins) \<Longrightarrow> port_name \<notin> set (keys_of f)" using Cons.IH[OF f(1)] by blast
      with Cons.IH[OF f(1)] Some show ?thesis by (auto simp: x f(2))
    qed
  qed simp
  then show "\<forall>(port_name, wire, v) \<in> set found. map_of slots wire = Some v \<and> (\<exists>required. (port_name, wire, required) \<in> set ins)"
    "\<forall>(port_name, wire, required) \<in> set ins. required \<longrightarrow> port_name \<in> set (keys_of found)"
    "distinct (keys_of ins) \<Longrightarrow> distinct (keys_of found)" by blast+
qed

lemma gathered_typed:
  assumes "node_ready c node p b" "node_step p b ins outs" "run_ok c st" "gather_inputs (slot_values st) node ins = Inr found"
    and "\<forall>(port_name, wire, v) \<in> set found. wire \<in> set (slots_proven st)"
  shows "typed_inputs p (map (\<lambda>(port_name, wire, v). (port_name, v)) found)"
proof -
  have keys: "keys_of (map (\<lambda>(port_name, wire, v). (port_name, v)) found) = keys_of found" by (simp add: case_prod_beta')
  note g = gathered[OF assms(4)]
  have typed: "wf_val v \<and> (\<exists>q. map_of (in_ports p) port_name = Some q \<and> accepts v (pt_schema q))"
    if x: "(port_name, wire, v) \<in> set found" for port_name wire v
  proof -
    from g(1) x obtain required where v: "map_of (slot_values st) wire = Some v" "(port_name, wire, required) \<in> set ins" by blast
    from assms(2) v(2) obtain q where q: "(port_name, wire) \<in> set (i_inputs b)" "map_of (in_ports p) port_name = Some q"
      by (auto simp: node_step_def)
    have "wf_val v" "fits c wire v" using assms(3,5) v(1) x unfolding run_ok_def by blast+
    then show ?thesis using assms(1) q unfolding fits_def by blast
  qed
  have "port_name \<in> set (keys_of found)" if x: "(port_name, q) \<in> set (in_ports p)" "pt_required q" for port_name q
  proof -
    have p: "ports_ok p" "port_name \<in> set (keys_of (i_inputs b))" using assms(1) x unfolding node_ready_def by blast+
    then have "port_name \<in> set (keys_of ins)" using assms(2) by (simp add: node_step_def)
    then obtain wire required where i: "(port_name, wire, required) \<in> set ins" by auto
    then obtain q' where "map_of (in_ports p) port_name = Some q'" "required = pt_required q'" using assms(2) by (auto simp: node_step_def)
    moreover have "map_of (in_ports p) port_name = Some q" using p(1) x(1) by (simp add: ports_ok_def)
    ultimately show ?thesis using g(2) i x(2) by auto
  qed
  moreover have "distinct (keys_of found)" using g(3) assms(2) by (simp add: node_step_def)
  ultimately show ?thesis using typed unfolding typed_inputs_def keys by auto
qed

lemma store_outputs_ok:
  assumes "node_ready c node p b" "producers_ok (c_wiring c)" "set outs \<subseteq> set (i_outputs b)" "ports_ok p"
    and typed: "\<forall>(n, w) \<in> set outputs. wf_val w \<and> (\<exists>q. map_of (out_ports p) n = Some q \<and> accepts w (pt_schema q))"
    and "run_ok c st"
  shows "run_ok c (store_outputs outs outputs st)"
  using assms(3,6)
proof (induction outs arbitrary: st)
  case (Cons x outs)
  obtain port_name wire where x: "x = (port_name, wire)" by force
  show ?case
  proof (cases "map_of outputs port_name")
    case None
    with Cons.IH[OF _ Cons.prems(2)] Cons.prems(1) show ?thesis by (simp add: store_outputs_def x)
  next
    case (Some v)
    let ?st = "st\<lparr>slot_values := AList.update wire v (slot_values st), slots_proven := wire # slots_proven st\<rparr>"
    have "x \<in> set (i_outputs b)" using Cons.prems(1) by simp
    then have "output_bound node p (port_name, wire) (c_wiring c)" using assms(1) unfolding node_ready_def x by blast
    then obtain q where q: "map_of (out_ports p) port_name = Some q" "map_of (producers (c_wiring c)) wire = Some (node, port_name)"
      "map_of (producer_schemas (c_wiring c)) wire = Some (pt_schema q)" "wire \<notin> set (keys_of (unknown_wires (c_wiring c)))"
      by (auto simp: output_bound_def simp del: set_map)
    have v: "wf_val v" "accepts v (pt_schema q)" using typed map_of_in_set[OF Some] q(1) by auto
    have "contract_ok (pt_schema q)" using assms(2) q(3) unfolding producers_ok_def by blast
    from fits_contract[OF q(4,2,3) this v] have "fits c wire v" .
    then have "run_ok c ?st" using Cons.prems(2) v(1) q(4) unfolding run_ok_def by (auto simp: lookup_update simp del: set_map)
    with Cons.IH[of ?st] Cons.prems(1) show ?thesis by (simp add: store_outputs_def x Some)
  qed
qed (simp add: store_outputs_def)

lemma on_invoker_Inr:
  assumes "on_graph (on_invoker node f) st = (Inr outputs, st')"
  shows "slot_values st' = slot_values st \<and> slots_proven st' = slots_proven st \<and> (\<exists>iv iv'. f iv = (Inr outputs, iv'))"
  using assms by (auto simp: on_graph_def on_invoker_def split: prod.splits option.splits)

lemma run_ok_same: "run_ok c st \<Longrightarrow> slot_values st' = slot_values st \<Longrightarrow> slots_proven st' = slots_proven st \<Longrightarrow> run_ok c st'"
  by (simp add: run_ok_def)

lemma run_node_sound:
  assumes e: "entered dumps limit causal c rp initial_data sources target" and d: "deployed c modules"
    and x: "x \<in> set (node_plan rp)" and ok: "run_ok c st"
  shows "run_node invoke_validated modules rp x st = run_node invoke modules rp x st"
    "run_node invoke_validated modules rp x st = (Inr u, st') \<Longrightarrow> run_ok c st'"
proof -
  have plan: "\<forall>node \<in> set (topology (c_plan c)). \<exists>p b. node_ready c node p b" "producers_ok (c_wiring c)"
    using e unfolding entered_def by blast+
  obtain node ins outs where x': "x = (node, ins, outs)" by (cases x)
  have "map_r (bind_node (c_plan c) (c_ports c)) (topology (c_plan c)) = Inr (node_plan rp)" by (rule entered_plan[OF e])
  from map_r_in[OF this x] obtain n where n: "n \<in> set (topology (c_plan c))"
    "bind_node (c_plan c) (c_ports c) n = Inr (node, ins, outs)" by (auto simp: x')
  obtain p b where r: "node_ready c n p b" using plan(1) n(1) by blast
  then have b: "map_of (bindings (c_plan c)) n = Some b" "map_of (c_ports c) n = Some p" "distinct (keys_of (i_inputs b))" "ports_ok p"
    unfolding node_ready_def by blast+
  from bound_node_step[OF n(2) b(1-3)] have node: "node = n" and step: "node_step p b ins outs" by simp_all
  have p: "io_ports (modules node) = p" and answers: "answers_values (modules node)"
    using d n(1) b(2) by (simp_all add: deployed_def node)
  let ?inputs = "\<lambda>found. map (\<lambda>(port_name, wire, v). (port_name, v)) found"
  let ?prove = "\<lambda>found. iter_s (\<lambda>(port_name, wire, v). prove_wire rp wire v) found st"
  have proven: "run_ok c st1 \<and> invoke_validated (modules node) (?inputs found) = invoke (modules node) (?inputs found)"
    if g: "gather_inputs (slot_values st) node ins = Inr found" and s: "?prove found = (Inr u', st1)" for found u' st1
  proof -
    have "\<forall>(port_name, wire, v) \<in> set found. map_of (slot_values st) wire = Some v" using gathered(1)[OF g] by blast
    note q = prove_inputs_ok[OF e ok this s]
    have "typed_inputs p (?inputs found)"
      by (rule gathered_typed[OF r step, of st1]) (use q g node in auto)
    then show ?thesis using q invoke_typed[of "modules node" "?inputs found"] b(4) by (simp add: p)
  qed
  show "run_node invoke_validated modules rp x st = run_node invoke modules rp x st"
  proof (cases "gather_inputs (slot_values st) node ins")
    case (Inr found)
    obtain o1 st1 where s: "?prove found = (o1, st1)" by force
    show ?thesis
    proof (cases o1)
      case (Inr u')
      with proven[OF \<open>gather_inputs _ _ _ = Inr found\<close>] s show ?thesis
        by (simp add: run_node_def x' \<open>gather_inputs _ _ _ = Inr found\<close> bind_s_def gets_s_def lift_s_def)
    qed (simp add: run_node_def x' Inr s bind_s_def gets_s_def lift_s_def)
  qed (simp add: run_node_def x' bind_s_def gets_s_def lift_s_def)
  assume run: "run_node invoke_validated modules rp x st = (Inr u, st')"
  then obtain found u' st1 outputs st2 where c: "gather_inputs (slot_values st) node ins = Inr found" "?prove found = (Inr u', st1)"
    "on_graph (on_invoker node (invoke_validated (modules node) (?inputs found))) st1 = (Inr outputs, st2)"
    "st' = store_outputs outs outputs st2"
    by (auto simp: run_node_def x' gets_s_def lift_s_def modify_s_def elim!: bind_s_InrE)
  from on_invoker_Inr[OF c(3)] obtain iv iv' where i: "slot_values st2 = slot_values st1" "slots_proven st2 = slots_proven st1"
    "invoke_validated (modules node) (?inputs found) iv = (Inr outputs, iv')" by blast
  have ok2: "run_ok c st2" using proven[OF c(1,2)] run_ok_same[OF _ i(1,2)] by blast
  have typed: "\<forall>(n, w) \<in> set outputs. wf_val w \<and> (\<exists>q. map_of (out_ports p) n = Some q \<and> accepts w (pt_schema q))"
    using invoke_outputs_typed[OF i(3) answers] unfolding p by blast
  have "set outs \<subseteq> set (i_outputs b)" using step by (simp add: node_step_def)
  from store_outputs_ok[OF r plan(2) this b(4) typed ok2] show "run_ok c st'" by (simp only: c(4))
qed

subsection \<open>An execution\<close>

definition preserved_by :: "('s \<Rightarrow> bool) \<Rightarrow> ('a \<Rightarrow> ('s, unit) act) \<Rightarrow> 'a list \<Rightarrow> bool" where
  "preserved_by I f xs \<longleftrightarrow> (\<forall>x \<in> set xs. \<forall>st st'. I st \<longrightarrow> f x st = (Inr (), st') \<longrightarrow> I st')"

lemma preserved_byD: "preserved_by I f xs \<Longrightarrow> x \<in> set xs \<Longrightarrow> I st \<Longrightarrow> f x st = (Inr (), st') \<Longrightarrow> I st'"
  unfolding preserved_by_def by (drule (1) bspec, drule spec, drule spec, drule (1) mp, erule (1) mp)

lemma preserved_by_tl: "preserved_by I f (x # xs) \<Longrightarrow> preserved_by I f xs"
  unfolding preserved_by_def by (rule ballI) (erule bspec, erule list.set_intros(2))

lemma iter_s_invariant:
  assumes "preserved_by I f xs" "I st" "iter_s f xs st = (Inr u, st')"
  shows "I st'"
  using assms
proof (induction xs arbitrary: st)
  case (Cons x xs)
  from Cons.prems(3) obtain st1 where s: "f x st = (Inr (), st1)" "iter_s f xs st1 = (Inr u, st')" by (auto elim!: bind_s_InrE)
  have "I st1" by (rule preserved_byD[OF Cons.prems(1) _ Cons.prems(2) s(1)]) simp
  from Cons.IH[OF preserved_by_tl[OF Cons.prems(1)] this s(2)] show ?case .
qed (simp add: ret_s_def)

lemma iter_s_agree:
  assumes "preserved_by I f xs" "\<forall>x \<in> set xs. \<forall>st. I st \<longrightarrow> f x st = g x st" "I st"
  shows "iter_s f xs st = iter_s g xs st"
  using assms
proof (induction xs arbitrary: st)
  case (Cons x xs)
  have eq: "f x st = g x st" using Cons.prems(2,3) by simp
  show ?case
  proof (cases "f x st")
    case (Pair o1 st1)
    show ?thesis
    proof (cases o1)
      case (Inr u)
      have "f x st = (Inr (), st1)" using Pair Inr by simp
      from preserved_byD[OF Cons.prems(1) _ Cons.prems(3) this] have "I st1" by simp
      from Cons.IH[OF preserved_by_tl[OF Cons.prems(1)] _ this] Cons.prems(2) have "iter_s f xs st1 = iter_s g xs st1" by simp
      then show ?thesis using Pair Inr eq by (simp add: bind_s_def)
    qed (use Pair eq in \<open>simp add: bind_s_def\<close>)
  qed
qed simp

lemma steps_sound:
  assumes e: "entered dumps limit causal c rp initial_data sources target" and d: "deployed c modules" and ok: "run_ok c st"
  shows "execute_steps invoke_validated modules rp initial_data sources st = execute_steps invoke modules rp initial_data sources st"
proof (cases "iter_s (read_input initial_data sources) (input_plan rp) st")
  case (Pair o1 st1)
  have reads: "preserved_by (run_ok c) (read_input initial_data sources) (input_plan rp)"
    unfolding preserved_by_def by (intro ballI allI impI) (rule read_input_ok[OF e])
  have nodes: "preserved_by (run_ok c) (run_node invoke_validated modules rp) (node_plan rp)"
    unfolding preserved_by_def by (intro ballI allI impI) (rule run_node_sound(2)[OF e d])
  have same: "\<forall>x \<in> set (node_plan rp). \<forall>st. run_ok c st \<longrightarrow>
      run_node invoke_validated modules rp x st = run_node invoke modules rp x st"
    by (intro ballI allI impI) (rule run_node_sound(1)[OF e d])
  show ?thesis
  proof (cases o1)
    case (Inr u)
    with Pair have "iter_s (read_input initial_data sources) (input_plan rp) st = (Inr u, st1)" by simp
    from iter_s_agree[OF nodes same iter_s_invariant[OF reads ok this]] show ?thesis by (simp add: execute_steps_def bind_s_def Pair Inr)
  qed (simp add: execute_steps_def bind_s_def Pair)
qed


subsection \<open>An example\<close>

text \<open>One Module that reads an integer from a DataKey without contract, so that its wire is checked before the
  Module runs\<close>

definition integer_port :: "string \<Rightarrow> pyval" where
  "integer_port name = PDict [(KStr name, PDict [(KStr ''schema'', PDict [(KStr ''type'', PStr ''integer'')])])]"

definition example_definition :: pyval where
  "example_definition = PDict [(KStr ''kind'', PStr ''k''), (KStr ''moduleId'', PStr ''m''), (KStr ''version'', PStr ''1''),
     (KStr ''configSchema'', PDict []),
     (KStr ''ports'', PDict [(KStr ''inputs'', integer_port ''x''), (KStr ''outputs'', integer_port ''y'')])]"

definition example_services :: "unit services" where
  "example_services = \<lparr>verify_definition = \<lambda>_. Inr (), definition_material = \<lambda>_. example_definition, dumps_sorted = \<lambda>_. [],
     validate_config = \<lambda>_ _ _. Inr (), show_value = \<lambda>_. []\<rparr>"

definition example_instances :: "(pykey \<times> pyval) list" where
  "example_instances = [(KStr ''n'', PDict [(KStr ''instanceId'', PStr ''n''), (KStr ''kind'', PStr ''k''), (KStr ''moduleId'', PStr ''m''),
     (KStr ''version'', PStr ''1''), (KStr ''config'', PDict []), (KStr ''inputs'', PDict [(KStr ''x'', PStr ''w'')]),
     (KStr ''outputs'', PDict [(KStr ''y'', PStr ''v'')])])]"

definition example_request :: "unit graph_request" where
  "example_request = \<lparr>
     rq_graph = PDict [(KStr ''nodes'', PList [PStr ''n'']),
       (KStr ''inputs'', PDict [(KStr ''i'', PDict [(KStr ''dataKey'', PStr ''a''), (KStr ''wire'', PStr ''w'')])]),
       (KStr ''outputs'', PDict [])],
     rq_instances = PDict example_instances, rq_definitions = PDict [(KStr (definition_key ''k'' ''m'' ''1''), example_definition)],
     rq_authorities = [], rq_contracts = [], rq_kinds = None, rq_label = ''G'', rq_strict = False, rq_required = None,
     rq_source_contracts = [], rq_source_required = []\<rparr>"

abbreviation example_boundaries :: "(string \<times> boundary) list" where
  "example_boundaries \<equiv> [(''i'', \<lparr>b_key = ''a'', b_wire = ''w'', b_source = None\<rparr>)]"

abbreviation example_graph :: graph where
  "example_graph \<equiv> \<lparr>g_nodes = [''n''], g_inputs = example_boundaries, g_outputs = []\<rparr>"

abbreviation entry_wiring :: wiring where
  "entry_wiring \<equiv> \<lparr>producers = [(''w'', (''i'', ''value''))], producer_schemas = [(''w'', any_schema)],
     producer_presence = [(''w'', False)], unknown_wires = [(''w'', (''i'', ''a''))], consumed_initial = [], consumed_sources = []\<rparr>"

abbreviation example_wiring :: wiring where
  "example_wiring \<equiv> \<lparr>producers = [(''w'', (''i'', ''value'')), (''v'', (''n'', ''y''))],
     producer_schemas = [(''w'', any_schema), (''v'', typed JInteger)], producer_presence = [(''w'', False), (''v'', True)],
     unknown_wires = [(''w'', (''i'', ''a''))], consumed_initial = [], consumed_sources = []\<rparr>"

abbreviation example_ports :: ports where
  "example_ports \<equiv> \<lparr>in_ports = [(''x'', \<lparr>pt_schema = typed JInteger, pt_required = True\<rparr>)],
     out_ports = [(''y'', \<lparr>pt_schema = typed JInteger, pt_required = True\<rparr>)]\<rparr>"

abbreviation example_binding :: instance_binding where
  "example_binding \<equiv> \<lparr>i_kind = ''k'', i_module = ''m'', i_version = ''1'', i_config = PDict [], i_inputs = [(''x'', ''w'')],
     i_outputs = [(''y'', ''v'')]\<rparr>"

abbreviation example_nodes :: "unit node_state" where
  "example_nodes \<equiv> \<lparr>ns_verified = [(definition_key ''k'' ''m'' ''1'', ())], ns_wiring = example_wiring,
     ns_ports = [(''n'', example_ports)], ns_bindings = [(''n'', example_binding)]\<rparr>"

abbreviation example_edges :: edge_state where
  "example_edges \<equiv> \<lparr>es_edges = [edge_of ''w'' (''i'', ''value'') (typed JInteger) ''n'' ''x'' (typed JInteger)],
     es_dependencies = [], es_consumed = [''w'']\<rparr>"

abbreviation example_plan :: compiled_graph where
  "example_plan \<equiv> \<lparr>topology = [''n''], cg_inputs = example_boundaries, cg_outputs = [], bindings = [(''n'', example_binding)],
     edges = es_edges example_edges, input_contracts = [], input_required_roots = [], output_contracts = [], required_outputs = [],
     input_sources = []\<rparr>"

abbreviation example_compilation :: "unit compilation" where
  "example_compilation \<equiv> \<lparr>c_plan = example_plan, c_ports = [(''n'', example_ports)],
     c_verified = [(definition_key ''k'' ''m'' ''1'', ())], c_wiring = example_wiring, c_dependencies = []\<rparr>"

lemma example_assembled:
  "assemble_plan 3 ''G'' ([], []) [] example_boundaries [] example_nodes example_edges [''n''] = Inr example_compilation"
  by (simp add: assemble_plan_def ordered_outputs_def init_reducer_def sorted_set_def materialize_def expand_contracts_uncached_def
      consumed_state_def expanded_contract_root_paths_def unused_source_def Let_def)

lemma example_compiled: "compile_module_graph_with_authorities example_services 3 example_request = Inr example_compilation"
proof -
  have s: "normalize_graph ''G'' [] (rq_graph example_request) = Inr example_graph" "graph_sources 3 ''G'' [] [] example_graph = Inr []"
    "check_nodes ''G'' example_graph example_instances = Inr ()" "ordered_boundaries example_boundaries = Inr example_boundaries"
    "fold_r (bind_boundary ''G'' ([], []) []) example_boundaries (empty_wiring []) = Inr entry_wiring"
    "fold_r (compile_node example_services (rq_definitions example_request) None ''G'' example_instances) [''n'']
       \<lparr>ns_verified = [], ns_wiring = entry_wiring, ns_ports = [], ns_bindings = []\<rparr> = Inr example_nodes"
    "fold_r (connect_node ''G'' False example_wiring [''n''] [(''n'', example_ports)] [(''n'', example_binding)]) [''n'']
       \<lparr>es_edges = [], es_dependencies = [], es_consumed = []\<rparr> = Inr example_edges"
    "order_nodes ''G'' [''n''] [] [''n''] = Inr [''n'']" by code_simp+
  have "source_state_of 3 ''G'' [] None = Inr ([], [])"
    by (simp add: source_state_of_def normalized_expansion_def expand_contracts_uncached_def expanded_contract_root_paths_def sorted_set_def)
  moreover have "rq_label example_request = ''G''" "rq_instances example_request = PDict example_instances" "rq_contracts example_request = []"
    "rq_source_contracts example_request = []" "rq_source_required example_request = []" "rq_required example_request = None"
    "rq_kinds example_request = None" "rq_strict example_request = False" "rq_authorities example_request = []"
    by (simp_all add: example_request_def)
  ultimately show ?thesis
    unfolding compile_module_graph_with_authorities_def Let_def by (simp add: s example_assembled sorted_set_def del: fold_r.simps)
qed

lemma example_bound: "\<exists>rp. compile_runtime_plan (\<lambda>_. []) 3 causal example_plan [(''n'', example_ports)] = Inr rp"
proof -
  have "required_boundaries [] [] [''a''] = Inr []" "required_boundaries [] [] [] = Inr []" "proven_boundaries example_plan = Inr []"
    "bind_inputs example_plan [] = Inr [(None, [''a''], ''w'', False)]" "bind_outputs example_plan = Inr []"
    "map_r (bind_node example_plan [(''n'', example_ports)]) [''n''] = Inr [(''n'', [(''x'', ''w'', True)], [(''y'', ''v'')])]"
    "projected_contracts [] (Some [''a'']) = Inr []"
    by code_simp+
  then show ?thesis
    by (simp add: compile_runtime_plan_def compile_default_proof_def optional_entry_roots_def source_boundaries_def
        compile_declared_data_json_proof_def split_paths_def sorted_set_def Let_def)
qed

definition example_module :: "unit deployment" where
  "example_module = (\<lambda>_. \<lparr>io_label = ''m'', io_ports = example_ports, io_process = False,
     io_adapter = \<lparr>ad_invoke = \<lambda>inputs m. (Inr (string_dict [(''y'', PInt 2)]), m), ad_finalize = \<lambda>m. (Inr (PDict []), m),
       ad_snapshot = \<lambda>m. (Inr (PDict []), m), ad_restore = \<lambda>v m. (Inr (PDict []), m), ad_close = \<lambda>m. (Inr (PDict []), m)\<rparr>\<rparr>)"

definition example_runtime :: "unit graph_runtime" where
  "example_runtime = \<lparr>invokers = [(''n'', \<lparr>iv_lifecycle = Running, iv_count = 0, iv_module = ()\<rparr>)],
     has_executed = False, graph_finalized = False, graph_closed = False\<rparr>"


end
