(* ===== verification/Cycle_Runtime.thy ===== *)
theory Cycle_Runtime
  imports Graph_Soundness
begin

section \<open>Cycle Graphs at run time\<close>

text \<open>
  \<open>engine/runtime/graph_cycle.py\<close>: a compiled Graph bound to the inputs of one causal cycle, the current
  Sample, the Data Dict of the cycle before and the decision time, with the named sources beside them. The
  runtime reads along a plan made once; the reference is \<open>build_cycle_graph_input\<close> of \<open>contracts/graph_cycle.py\<close>,
  to which it is shown equal. The sealing of Environment Observations, authorities and metadata are left out.
\<close>

datatype origin = OfSource string | OfSample | OfPrevious | OfDecision

definition boundary_origin :: "boundary \<Rightarrow> origin" where
  "boundary_origin b =
     (case b_source b of
        Some src \<Rightarrow> OfSource src
      | None \<Rightarrow>
          if b_key b = decision_time_data_key then OfDecision
          else if previous_key (b_key b) \<noteq> None then OfPrevious else OfSample)"

type_synonym cycle_entry = "origin \<times> string list \<times> string list"

definition cycle_entry :: "string \<times> boundary \<Rightarrow> cycle_entry res" where
  "cycle_entry = (\<lambda>(bid, b).
     bind_r (case (boundary_origin b, previous_key (b_key b)) of
         (OfDecision, _) \<Rightarrow> Inr []
       | (OfPrevious, Some rest) \<Rightarrow> split_data_path rest
       | _ \<Rightarrow> split_data_path (b_key b)) (\<lambda>segments.
     bind_r (split_data_path (b_key b)) (\<lambda>target. Inr (boundary_origin b, segments, target))))"

text \<open>The DataKeys read from the cycle itself (\<open>None\<close>) or from a named source\<close>

definition keys_from :: "string option \<Rightarrow> (string \<times> boundary) list \<Rightarrow> string list" where
  "keys_from source bs = from_keys (map (\<lambda>(bid, b). b_key b) (filter (\<lambda>(bid, b). b_source b = source) bs))"

record cycle_plan =
  cy_runtime :: runtime_plan
  cy_entries :: "cycle_entry list"
  cy_keys :: "string list"
  cy_sources :: "(string \<times> string list) list"

definition compile_cycle_plan ::
    "(pyval \<Rightarrow> string) \<Rightarrow> nat \<Rightarrow> compiled_graph \<Rightarrow> (string \<times> ports) list \<Rightarrow> cycle_plan res" where
  "compile_cycle_plan dumps limit plan all_ports =
     bind_r (compile_runtime_plan dumps limit True plan all_ports) (\<lambda>rp.
     bind_r (ordered_boundaries (cg_inputs plan)) (\<lambda>bs.
     bind_r (map_r cycle_entry bs) (\<lambda>entries.
     Inr \<lparr>cy_runtime = rp, cy_entries = entries, cy_keys = keys_from None bs,
       cy_sources = map (\<lambda>(src, st). (src, keys_from (Some src) bs)) (input_sources plan)\<rparr>)))"

definition previous_data_keys :: "cycle_plan \<Rightarrow> string list" where
  "previous_data_keys cy = concat (map (\<lambda>key. case previous_key key of None \<Rightarrow> [] | Some rest \<Rightarrow> [rest]) (cy_keys cy))"

definition cycle_source_error :: "string list \<Rightarrow> string list \<Rightarrow> py_error" where
  "cycle_source_error declared given =
     (let missing = sorted_set (filter (\<lambda>s. s \<notin> set given) declared);
          unexpected = sorted_set (filter (\<lambda>s. s \<notin> set declared) given);
          details = (if missing \<noteq> [] then [''missing '' @ join_str '', '' missing] else []) @
            (if unexpected \<noteq> [] then [''unexpected '' @ join_str '', '' unexpected] else []) in
      ValueError (''Cycle Graph input sources must exactly match its compiled sources: '' @ join_str ''; '' details))"

definition check_sources :: "string list \<Rightarrow> (string \<times> pyval) list \<Rightarrow> unit res" where
  "check_sources declared sources =
     bind_r (guard_r (set (keys_of sources) = set declared) (cycle_source_error declared (keys_of sources))) (\<lambda>_.
     iter_r (\<lambda>(src, d). guard_r (is_mapping d)
       (ValueError (''Cycle Graph input source '' @ quoted src @ '' must be a Data Dict object.''))) sources)"

definition entry_value :: "pyval \<Rightarrow> pyval \<Rightarrow> string \<Rightarrow> cycle_entry \<Rightarrow> pyval option" where
  "entry_value sample previous_data time = (\<lambda>(origin, segments, target). case origin of
       OfSource _ \<Rightarrow> None
     | OfDecision \<Rightarrow> Some (PStr time)
     | OfPrevious \<Rightarrow> find_segments previous_data segments
     | OfSample \<Rightarrow> find_segments sample segments)"

definition add_entry :: "pyval \<Rightarrow> pyval \<Rightarrow> string \<Rightarrow> cycle_entry \<Rightarrow> (pykey \<times> pyval) list \<Rightarrow> (pykey \<times> pyval) list res" where
  "add_entry sample previous_data time entry result =
     (case entry_value sample previous_data time entry of
        None \<Rightarrow> Inr result
      | Some v \<Rightarrow> set_data_segments result (snd (snd entry)) v)"

definition materialize_input ::
    "cycle_plan \<Rightarrow> pyval \<Rightarrow> pyval \<Rightarrow> pyval \<Rightarrow> (string \<times> pyval) list option \<Rightarrow> (pykey \<times> pyval) list res" where
  "materialize_input cy sample previous_data decision_time given =
     (case (sample, previous_data) of
        (PDict s, PDict p) \<Rightarrow>
          bind_r (guard_r (KStr previous_cycle_root \<notin> set (keys_of s)) reserved_root) (\<lambda>_.
          bind_r (guard_r (KStr decision_time_data_key \<notin> set (keys_of s)) reserved_key) (\<lambda>_.
          bind_r (case decision_time of
              PStr t \<Rightarrow> if strip t = [] then Inl (ValueError ''Cycle decisionTime must be a non-empty string.'') else Inr t
            | _ \<Rightarrow> Inl (ValueError ''Cycle decisionTime must be a non-empty string.'')) (\<lambda>time.
          bind_r (check_sources (keys_of (cy_sources cy)) (case given of None \<Rightarrow> [] | Some sources \<Rightarrow> sources)) (\<lambda>_.
          fold_r (add_entry sample previous_data time) (cy_entries cy) []))))
      | (PDict s, _) \<Rightarrow> Inl (ValueError ''Previous cycle Data Dict must be an object.'')
      | _ \<Rightarrow> Inl (ValueError ''Current cycle Sample must be an object.''))"

definition require_executable :: "('m graph_runtime, unit) act" where
  "require_executable =
     bind_s (gets_s graph_closed) (\<lambda>closed.
     bind_s (guard_s (\<not> closed) (RuntimeError ''Cannot execute a closed Cycle Graph.'')) (\<lambda>_.
     bind_s (gets_s graph_finalized) (\<lambda>finalized.
     guard_s (\<not> finalized) (RuntimeError ''Cannot execute a finalized Cycle Graph.''))))"

definition execute_cycle ::
    "'m deployment \<Rightarrow> cycle_plan \<Rightarrow> pyval \<Rightarrow> pyval \<Rightarrow> pyval \<Rightarrow> (string \<times> pyval) list option \<Rightarrow> ('m graph_runtime, pyval) act" where
  "execute_cycle modules cy sample previous_data decision_time given =
     bind_s require_executable (\<lambda>_.
     bind_s (lift_s (materialize_input cy sample previous_data decision_time given)) (\<lambda>graph_input.
     execute_outputs modules (cy_runtime cy) (PDict graph_input) (case given of None \<Rightarrow> [] | Some sources \<Rightarrow> sources)))"

text \<open>The outputs, and the target, which is written in place.\<close>

definition execute_cycle_into ::
    "'m deployment \<Rightarrow> cycle_plan \<Rightarrow> pyval \<Rightarrow> pyval \<Rightarrow> pyval \<Rightarrow> pyval \<Rightarrow> (string \<times> pyval) list option \<Rightarrow> 'm graph_runtime \<Rightarrow>
     pyval option res \<times> pyval option \<times> 'm graph_runtime" where
  "execute_cycle_into modules cy sample previous_data decision_time target given rt =
     (case bind_s require_executable (\<lambda>_.
         bind_s (guard_s (is_mapping target) (ValueError ''Cycle Graph export target must be a Data Dict object.'')) (\<lambda>_.
         lift_s (materialize_input cy sample previous_data decision_time given))) rt of
        (Inl e, rt') \<Rightarrow> (Inl e, Some target, rt')
      | (Inr graph_input, rt') \<Rightarrow>
          execute_outputs_into modules (cy_runtime cy) (PDict graph_input)
            (case given of None \<Rightarrow> [] | Some sources \<Rightarrow> sources) target rt')"

definition finalize_cycle :: "'m deployment \<Rightarrow> cycle_plan \<Rightarrow> ('m graph_runtime, unit) act" where
  "finalize_cycle modules cy = finalize_graph modules (cy_runtime cy)"

definition close_cycle :: "'m deployment \<Rightarrow> cycle_plan \<Rightarrow> ('m graph_runtime, unit) act" where
  "close_cycle modules cy = close_graph modules (cy_runtime cy)"

subsection \<open>Writing the same value twice\<close>

lemma update_twice: "AList.update k v (AList.update k w d) = AList.update k v d"
  by (induction d) auto

lemma write_twice:
  "write_segments parts index segs node v = Inr node' \<Longrightarrow> write_segments parts index segs node' v = Inr node'"
proof (induction parts index segs node v arbitrary: node' rule: write_segments.induct)
  case (2 parts index leaf node v)
  then show ?case by (auto simp: update_twice split: option.splits if_splits)
next
  case (3 parts index seg seg2 segs node v)
  show ?case
  proof (cases "map_of node (KStr seg)")
    case None
    with "3.prems" obtain child where c: "write_segments parts (Suc index) (seg2 # segs) [] v = Inr child"
      "node' = AList.update (KStr seg) (PDict child) node" by (auto simp: bind_r_Inr_iff)
    show ?thesis using "3.IH"(1)[OF None c(1)] by (simp add: c(2) update_twice)
  next
    case (Some old)
    with "3.prems" obtain existing child where c: "old = PDict existing"
      "write_segments parts (Suc index) (seg2 # segs) existing v = Inr child" "node' = AList.update (KStr seg) (PDict child) node"
      by (cases old) (auto simp: bind_r_Inr_iff)
    show ?thesis using "3.IH"(2)[OF Some c(1,2)] by (simp add: c(3) update_twice)
  qed
qed simp

subsection \<open>Boundaries with the same DataKey\<close>

lemma from_keys_snoc: "from_keys (xs @ [x]) = (if x \<in> set xs then from_keys xs else from_keys xs @ [x])"
  by (simp add: from_keys_def)

lemma from_keys_distinct: "distinct xs \<Longrightarrow> from_keys xs = xs"
  by (simp add: from_keys_def distinct_remdups_id)

lemma from_keys_twice: "from_keys (from_keys xs) = from_keys xs"
  by (rule from_keys_distinct) (simp add: from_keys_def)


lemma fold_r_append: "fold_r f (xs @ ys) acc = bind_r (fold_r f xs acc) (fold_r f ys)"
proof (induction xs arbitrary: acc)
  case (Cons x xs)
  then show ?case by (cases "f x acc") simp_all
qed simp

text \<open>In canonical order the repetitions of a key stand together, and a repeated step changes nothing.\<close>

lemma fold_from_keys:
  fixes g :: "'a \<Rightarrow> 'b::linorder"
  assumes "sorted (map g xs)" "inj_on g (set xs)" and idem: "\<And>x r r'. f x r = Inr r' \<Longrightarrow> f x r' = Inr r'"
  shows "fold_r f xs acc = fold_r f (from_keys xs) acc"
  using assms(1,2)
proof (induction xs rule: rev_induct)
  case (snoc x xs)
  have IH: "fold_r f xs acc = fold_r f (from_keys xs) acc" using snoc by (simp add: sorted_append)
  show ?case
  proof (cases "x \<in> set xs")
    case True
    then obtain ys y where xs: "xs = ys @ [y]" by (cases xs rule: rev_cases) auto
    have "g y \<le> g x" using snoc.prems(1) by (simp add: xs sorted_append)
    moreover have "g x \<le> g y" using snoc.prems(1) True by (auto simp: xs sorted_append)
    ultimately have "g y = g x" by simp
    then have y: "y = x" by (rule inj_onD[OF snoc.prems(2)]) (simp_all add: xs)
    have two: "fold_r f [x, x] r = fold_r f [x] r" for r by (cases "f x r") (simp_all add: idem)
    have "fold_r f (xs @ [x]) acc = bind_r (fold_r f ys acc) (fold_r f [x, x])" unfolding xs y using fold_r_append[of f ys "[x, x]"] by simp
    also have "\<dots> = bind_r (fold_r f ys acc) (fold_r f [x])" by (rule bind_r_cong) (simp_all only: two)
    also have "\<dots> = fold_r f xs acc" unfolding xs y by (rule fold_r_append[symmetric])
    finally have "fold_r f (xs @ [x]) acc = fold_r f xs acc" .
    then show ?thesis using True IH by (simp add: from_keys_snoc)
  qed (simp add: from_keys_snoc fold_r_append IH)
qed (simp add: from_keys_def)

definition key_segments :: "string \<Rightarrow> string list" where
  "key_segments k = (case split_data_path k of Inl _ \<Rightarrow> [] | Inr parts \<Rightarrow> parts)"

definition canonical_keys :: "(string \<times> boundary) list \<Rightarrow> bool" where
  "canonical_keys bs \<longleftrightarrow> (\<forall>(bid, b) \<in> set bs. \<exists>parts. split_data_path (b_key b) = Inr parts \<and> join_str ''.'' parts = b_key b)"

lemma ordered_sorted:
  assumes "ordered_boundaries bs = Inr ins" shows "sorted (map (\<lambda>(bid, b). key_segments (b_key b)) ins)"
proof -
  from assms obtain ranked where r: "map_r (\<lambda>(bid, b). bind_r (canonical_data_key_order (b_key b) bid) (\<lambda>rank. Inr (rank, (bid, b)))) bs = Inr ranked"
    "ins = map snd (sort_key fst ranked)" by (auto simp: ordered_boundaries_def bind_r_Inr_iff)
  have key: "key_segments (b_key b) = fst rank" if "(rank, bid, b) \<in> set ranked" for rank bid b
    using map_r_in[OF r(1) that] by (auto simp: canonical_data_key_order_def bind_r_Inr_iff key_segments_def)
  have "sorted (map fst (sort_key fst ranked))" by simp
  then have "sorted (map (fst \<circ> fst) (sort_key fst ranked))"
    unfolding sorted_map by (rule sorted_wrt_mono_rel[rotated]) (auto simp: less_eq_prod_def)
  moreover have "map (fst \<circ> fst) (sort_key fst ranked) = map (\<lambda>(bid, b). key_segments (b_key b)) ins"
    unfolding r(2) map_map by (rule map_cong) (auto simp: key)
  ultimately show ?thesis by simp
qed

subsection \<open>The input of a cycle is the reference input\<close>

definition reference_step :: "pyval \<Rightarrow> pyval \<Rightarrow> string \<Rightarrow> string \<Rightarrow> (pykey \<times> pyval) list \<Rightarrow> (pykey \<times> pyval) list res" where
  "reference_step sample previous_data time key result =
     bind_r (cycle_value sample previous_data time key) (\<lambda>found.
     case found of None \<Rightarrow> Inr result | Some v \<Rightarrow> set_data_path result key v)"

lemma reference_step_twice: "reference_step s p t key r = Inr r' \<Longrightarrow> reference_step s p t key r' = Inr r'"
proof -
  assume a: "reference_step s p t key r = Inr r'"
  then obtain found where f: "cycle_value s p t key = Inr found" by (auto simp: reference_step_def bind_r_Inr_iff)
  show ?thesis
  proof (cases found)
    case (Some v)
    then obtain parts where "split_data_path key = Inr parts" "write_segments parts 0 parts r v = Inr r'"
      using a f by (auto simp: reference_step_def bind_r_Inr_iff set_data_path_def set_data_segments_def)
    then show ?thesis using f Some by (simp add: reference_step_def set_data_path_def set_data_segments_def write_twice)
  qed (use f in \<open>simp add: reference_step_def\<close>)
qed

lemma entry_step:
  assumes "cycle_entry (bid, b) = Inr entry"
  shows "add_entry s p t entry r = (if b_source b = None then reference_step s p t (b_key b) r else Inr r)"
proof (cases "boundary_origin b")
  case OfPrevious
  then obtain rest where "b_source b = None" "b_key b \<noteq> decision_time_data_key" "previous_key (b_key b) = Some rest"
    by (auto simp: boundary_origin_def split: option.splits if_splits)
  with OfPrevious assms show ?thesis
    by (auto simp: cycle_entry_def bind_r_Inr_iff add_entry_def entry_value_def reference_step_def cycle_value_def set_data_path_def
        split: option.split)
qed (use assms in \<open>auto simp: cycle_entry_def boundary_origin_def bind_r_Inr_iff add_entry_def entry_value_def reference_step_def
  cycle_value_def set_data_path_def split: option.splits if_splits\<close>)

lemma entries_fold:
  "map_r cycle_entry bs = Inr entries \<Longrightarrow>
   fold_r (add_entry s p t) entries r = fold_r (reference_step s p t) (map (\<lambda>(bid, b). b_key b) (filter (\<lambda>(bid, b). b_source b = None) bs)) r"
proof (induction bs arbitrary: entries r)
  case (Cons x bs)
  obtain bid b where x: "x = (bid, b)" by force
  from Cons.prems obtain entry rest where e: "cycle_entry (bid, b) = Inr entry" "map_r cycle_entry bs = Inr rest" "entries = entry # rest"
    by (auto simp: x bind_r_Inr_iff)
  show ?case
    by (cases "reference_step s p t (b_key b) r") (simp_all add: e(3) x entry_step[OF e(1)] Cons.IH[OF e(2)])
qed simp

lemma entries_reference:
  assumes "ordered_boundaries bs = Inr ins" "map_r cycle_entry ins = Inr entries" "canonical_keys ins"
  shows "fold_r (add_entry s p t) entries r = fold_r (reference_step s p t) (keys_from None ins) r"
proof -
  let ?own = "filter (\<lambda>(bid, b). b_source b = None) ins" let ?keys = "map (\<lambda>(bid, b). b_key b) ?own"
  have "sorted (map (\<lambda>(bid, b). key_segments (b_key b)) ?own)" using ordered_sorted[OF assms(1)] by (rule sorted_filter)
  then have sorted: "sorted (map key_segments ?keys)" by (simp add: comp_def case_prod_unfold)
  have "join_str ''.'' (key_segments k) = k" if "k \<in> set ?keys" for k
    using that assms(3) by (force simp: canonical_keys_def key_segments_def)
  then have "inj_on key_segments (set ?keys)" by (rule inj_on_inverseI)
  from fold_from_keys[OF sorted this, of "reference_step s p t" r] reference_step_twice entries_fold[OF assms(2)]
  show ?thesis by (simp add: keys_from_def)
qed

lemma normalize_canonical:
  assumes "normalize_graph label sources raw = Inr g" shows "canonical_keys (g_inputs g)"
proof -
  have key: "\<exists>parts. split_data_path key = Inr parts \<and> join_str ''.'' parts = key" if "boundary_key here data_key wire = Inr (key, w)"
    for here data_key wire key w
    using that by (auto simp: boundary_key_def split: pyval.splits sum.splits if_splits)
  have one: "\<exists>parts. split_data_path (b_key b) = Inr parts \<and> join_str ''.'' parts = b_key b"
    if "normalize_boundary label direction sources taken kv = Inr (bid, b)" for label direction sources taken kv bid b
  proof -
    obtain k raw where kv: "kv = (k, raw)" by force
    show ?thesis
      by (cases k) (use that key in \<open>auto simp: kv normalize_boundary_def bind_r_Inr_iff Let_def split: if_splits\<close>)
  qed
  have all: "normalize_boundaries label direction sources taken kvs = Inr bs \<Longrightarrow> canonical_keys bs" for label direction sources taken kvs bs
  proof (induction kvs arbitrary: taken bs)
    case (Cons kv kvs)
    then obtain bid b rest where b: "normalize_boundary label direction sources taken kv = Inr (bid, b)"
      "normalize_boundaries label direction sources (bid # taken) kvs = Inr rest" "bs = (bid, b) # rest"
      by (auto simp: bind_r_Inr_iff)
    from one[OF b(1)] Cons.IH[OF b(2)] show ?case by (simp add: b(3) canonical_keys_def)
  qed (simp add: canonical_keys_def)
  from assms obtain label' direction sources' taken raw' where "boundaries_of label' direction sources' taken raw' = Inr (g_inputs g)"
    by (auto simp: normalize_graph_def bind_r_Inr_iff split: pyval.splits)
  then show ?thesis using all by (auto simp: boundaries_of_def split: pyval.splits)
qed

lemma compiled_inputs:
  assumes "compile_module_graph_with_authorities svc limit rq = Inr c"
    and "normalize_graph (rq_label rq) (keys_of (rq_source_contracts rq)) (rq_graph rq) = Inr g"
  shows "set (cg_inputs (c_plan c)) = set (g_inputs g)"
proof -
  from assms obtain ins where "ordered_boundaries (g_inputs g) = Inr ins" "cg_inputs (c_plan c) = ins"
    by (auto simp: compile_module_graph_with_authorities_def assemble_plan_def bind_r_Inr_iff Let_def split: prod.splits)
  then show ?thesis using ordered_boundaries_set by blast
qed

text \<open>\<^bold>\<open>C5\<close>. One cycle of a compiled Cycle Graph is the execution of its Graph on the reference input of the cycle,
  \<open>build_cycle_graph_input\<close> over the keys it declares: the plan made once for all cycles reads and writes the same,
  boundaries that share a DataKey included, and raises the same errors.\<close>

theorem cycle_runs_on_reference_input:
  assumes "compile_module_graph_with_authorities svc limit rq = Inr c"
    and "normalize_graph (rq_label rq) (keys_of (rq_source_contracts rq)) (rq_graph rq) = Inr g" "validate_cycle_graph_inputs label g = Inr ()"
    and "compile_cycle_plan dumps limit' (c_plan c) (c_ports c) = Inr cy" "check_sources (keys_of (cy_sources cy)) sources = Inr ()"
  shows "execute_cycle modules cy sample previous_data decision_time (Some sources) =
    bind_s require_executable (\<lambda>_. bind_s (lift_s (build_cycle_graph_input sample previous_data decision_time (cy_keys cy))) (\<lambda>graph_input.
    execute_outputs modules (cy_runtime cy) (PDict graph_input) sources))"
proof -
  from assms(4) obtain bs where bs: "ordered_boundaries (cg_inputs (c_plan c)) = Inr bs" "map_r cycle_entry bs = Inr (cy_entries cy)"
    "cy_keys cy = keys_from None bs" by (auto simp: compile_cycle_plan_def bind_r_Inr_iff)
  have set: "set bs = set (g_inputs g)" using ordered_boundaries_set[OF bs(1)] compiled_inputs[OF assms(1,2)] by simp
  have canonical: "canonical_keys bs" using normalize_canonical[OF assms(2)] by (simp add: canonical_keys_def set)
  have "b_key b \<noteq> previous_cycle_root" if "(bid, b) \<in> set bs" "b_source b = None" for bid b
    using assms(3) that by (auto simp: validate_cycle_graph_inputs_def iter_r_Inr_iff set split: if_splits)
  then have last: "previous_cycle_root \<notin> set (cy_keys cy)" by (fastforce simp: bs(3) keys_from_def from_keys_def)
  have keys: "from_keys (cy_keys cy) = cy_keys cy" by (simp add: bs(3) keys_from_def from_keys_twice)
  have "materialize_input cy sample previous_data decision_time (Some sources) =
    build_cycle_graph_input sample previous_data decision_time (cy_keys cy)"
    using last
    by (simp add: materialize_input_def build_cycle_graph_input_def assms(5) keys bs(3)[symmetric] entries_reference[OF bs(1,2) canonical]
        reference_step_def[abs_def] split: pyval.split)
  then show ?thesis by (simp add: execute_cycle_def)
qed

text \<open>The first cycle of the Graph of \<open>Graph_Soundness\<close>\<close>

lemma example_cycle:
  "\<exists>rp. compile_cycle_plan (\<lambda>_. []) 3 example_plan [(''n'', example_ports)] =
    Inr \<lparr>cy_runtime = rp, cy_entries = [(OfSample, [''a''], [''a''])], cy_keys = [''a''], cy_sources = []\<rparr>"
proof -
  have "ordered_boundaries example_boundaries = Inr example_boundaries" "map_r cycle_entry example_boundaries = Inr [(OfSample, [''a''], [''a''])]"
    "keys_from None example_boundaries = [''a'']" by code_simp+
  with example_bound[of True] show ?thesis by (auto simp: compile_cycle_plan_def)
qed

theorem cycle_runs_on_reference_input_witness:
  "\<exists>cy. cy_keys cy = [''a''] \<and> execute_cycle example_module cy (PDict [(KStr ''a'', PInt 1)]) (PDict []) (PStr ''09:30'') (Some []) =
    bind_s require_executable (\<lambda>_. bind_s (lift_s (build_cycle_graph_input (PDict [(KStr ''a'', PInt 1)]) (PDict []) (PStr ''09:30'') (cy_keys cy)))
    (\<lambda>graph_input. execute_outputs example_module (cy_runtime cy) (PDict graph_input) []))"
proof -
  obtain cy where cy: "compile_cycle_plan (\<lambda>_. []) 3 (c_plan example_compilation) (c_ports example_compilation) = Inr cy"
    "cy_keys cy = [''a'']" "cy_sources cy = []" using example_cycle by auto
  have g: "normalize_graph (rq_label example_request) (keys_of (rq_source_contracts example_request)) (rq_graph example_request) = Inr example_graph"
    "validate_cycle_graph_inputs ''G'' example_graph = Inr ()" by code_simp+
  have s: "check_sources (keys_of (cy_sources cy)) [] = Inr ()" by (simp add: check_sources_def cy(3))
  from cycle_runs_on_reference_input[OF example_compiled g cy(1) s] cy(2) show ?thesis by blast
qed

end
