(* ===== verification/Pipeline_Runtime.thy ===== *)
theory Pipeline_Runtime
  imports Graph_Soundness
begin

section \<open>Pipelines at run time\<close>

text \<open>
  \<open>engine/runtime/pipeline.py\<close> with \<open>runtime/lifecycle.py\<close>: a frozen Pipeline runs Modules of its own before and
  after the Signal Graph, on one Data Dict that starts as the projection of an Observation to its whitelist. The
  Data Dict is state passing; \<open>execute_into\<close> reads all inputs of the Signal Graph before it writes, so that giving
  it the same object as input and target is giving it the same value. The Modules start as running invokers;
  the authorities, times and metadata are left out.
\<close>

subsection \<open>Binding the plan\<close>

record direct_plan =
  dp_node :: string
  dp_phase :: string
  dp_inputs :: "(string \<times> string \<times> bool) list"
  dp_outputs :: "(string \<times> string) list"

type_synonym direct_step = "string \<times> (string \<times> string \<times> string list \<times> bool) list \<times> (string \<times> string list) list"

record pipeline_plan =
  pp_pre :: "direct_step list"
  pp_post :: "direct_step list"
  pp_signal :: runtime_plan
  pp_whitelist :: "(string \<times> string list) list"
  pp_blacklist :: "string list list"

definition topology_mismatch :: py_error where
  "topology_mismatch = ValueError ''Frozen Pipeline direct plans must exactly match its direct topology.''"

definition same_dict :: "(string \<times> string) list \<Rightarrow> (string \<times> string) list \<Rightarrow> bool" where
  "same_dict a b \<longleftrightarrow> set (keys_of a) = set (keys_of b) \<and> list_all (\<lambda>k. map_of a k = map_of b k) (keys_of a)"

definition binding_key :: "instance_binding \<Rightarrow> string" where
  "binding_key b = i_kind b @ ''/'' @ i_module b @ ''/'' @ i_version b"

definition module_ports :: "(string \<times> ports) list \<Rightarrow> instance_binding \<Rightarrow> ports res" where
  "module_ports definitions b =
     (case map_of definitions (binding_key b) of
        None \<Rightarrow> Inl (ValueError (''Frozen Pipeline Module definition is missing: '' @ binding_key b))
      | Some p \<Rightarrow> Inr p)"

definition plan_port_mismatch :: "ports \<Rightarrow> string \<times> string \<times> bool \<Rightarrow> bool res" where
  "plan_port_mismatch p = (\<lambda>(port_name, key, required).
     case map_of (in_ports p) port_name of
       None \<Rightarrow> Inl (KeyError port_name)
     | Some q \<Rightarrow> Inr (required \<noteq> pt_required q))"

definition validate_direct_plan :: "(string \<times> instance_binding) list \<Rightarrow> (string \<times> ports) list \<Rightarrow> direct_plan \<Rightarrow> unit res" where
  "validate_direct_plan bound definitions plan =
     (case map_of bound (dp_node plan) of
        None \<Rightarrow> Inl (KeyError (dp_node plan))
      | Some b \<Rightarrow>
          bind_r (guard_r (same_dict (dict_of (map (\<lambda>(p, key, r). (p, key)) (dp_inputs plan))) (i_inputs b) \<and>
              same_dict (dict_of (dp_outputs plan)) (i_outputs b))
            (ValueError ''Frozen Pipeline direct plan does not match its manifest binding.'')) (\<lambda>_.
          bind_r (module_ports definitions b) (\<lambda>p.
          bind_r (any_r (plan_port_mismatch p) (dp_inputs plan)) (\<lambda>mismatch.
          guard_r (\<not> mismatch) (ValueError ''Frozen Pipeline direct input plan does not match its Module Definition.'')))))"

definition validate_direct_plans ::
    "(string \<times> instance_binding) list \<Rightarrow> (string \<times> ports) list \<Rightarrow> string list \<Rightarrow> direct_plan list \<Rightarrow> unit res" where
  "validate_direct_plans bound definitions nodes plans =
     bind_r (guard_r (distinct (map dp_node plans) \<and> set (map dp_node plans) = set nodes) topology_mismatch) (\<lambda>_.
     iter_r (validate_direct_plan bound definitions) plans)"

definition bind_step :: "(string \<times> instance_binding) list \<Rightarrow> direct_plan list \<Rightarrow> string \<Rightarrow> direct_step res" where
  "bind_step bound plans node =
     (case (map_of bound node, map_of (dict_of (map (\<lambda>plan. (dp_node plan, plan)) plans)) node) of
        (Some b, Some plan) \<Rightarrow>
          bind_r (map_r (\<lambda>(port_name, key, required). bind_r (split_data_path key) (\<lambda>segments.
            Inr (port_name, key, segments, required))) (dp_inputs plan)) (\<lambda>ins.
          bind_r (map_r (\<lambda>(port_name, key). bind_r (split_data_path key) (\<lambda>segments. Inr (port_name, segments))) (dp_outputs plan)) (\<lambda>outs.
          Inr (node, ins, outs)))
      | _ \<Rightarrow> Inl (KeyError node))"

definition bind_node_execution_plan ::
    "(string \<times> instance_binding) list \<Rightarrow> direct_plan list \<Rightarrow> string list \<Rightarrow> string list \<Rightarrow> direct_step list res" where
  "bind_node_execution_plan bound plans nodes phase_nodes =
     bind_r (guard_r (set (map dp_node plans) = set nodes) topology_mismatch) (\<lambda>_. map_r (bind_step bound plans) phase_nodes)"

definition phase_nodes :: "string \<Rightarrow> direct_plan list \<Rightarrow> string list" where
  "phase_nodes phase plans = map dp_node (filter (\<lambda>plan. dp_phase plan = phase) plans)"

definition bind_pipeline ::
    "direct_plan list \<Rightarrow> string list \<Rightarrow> string list \<Rightarrow> (string \<times> instance_binding) list \<Rightarrow> (string \<times> ports) list \<Rightarrow> runtime_plan \<Rightarrow>
     (string \<times> string list) list \<Rightarrow> string list list \<Rightarrow> pipeline_plan res" where
  "bind_pipeline plans planned_topology template_topology bound definitions signal whitelist blacklist =
     (let pre = phase_nodes ''pre'' plans; post = phase_nodes ''post'' plans in
      bind_r (guard_r (planned_topology = template_topology)
        (ValueError ''Compiled Pipeline topology does not match its verified template.'')) (\<lambda>_.
      bind_r (guard_r (set (keys_of definitions) = set (map (\<lambda>(node, b). binding_key b) bound))
        (ValueError ''Frozen Pipeline Module definitions must exactly match its manifest bindings.'')) (\<lambda>_.
      bind_r (validate_direct_plans bound definitions (pre @ post) plans) (\<lambda>_.
      bind_r (bind_node_execution_plan bound plans (pre @ post) pre) (\<lambda>pre_plan.
      bind_r (bind_node_execution_plan bound plans (pre @ post) post) (\<lambda>post_plan.
      Inr \<lparr>pp_pre = pre_plan, pp_post = post_plan, pp_signal = signal, pp_whitelist = whitelist, pp_blacklist = blacklist\<rparr>))))))"

subsection \<open>State\<close>

record 'm pipeline_runtime =
  pr_modules :: "(string \<times> 'm invoker) list"
  pr_signal :: "'m graph_runtime"
  pr_state :: lifecycle
  pr_bound :: bool
  pr_transfers :: "(string \<times> nat) list"

definition on_module :: "string \<Rightarrow> ('m invoker, 'a) act \<Rightarrow> ('m pipeline_runtime, 'a) act" where
  "on_module node f rt =
     (case map_of (pr_modules rt) node of
        None \<Rightarrow> (Inl (KeyError node), rt)
      | Some iv \<Rightarrow> (case f iv of (r, iv') \<Rightarrow> (r, rt\<lparr>pr_modules := AList.update node iv' (pr_modules rt)\<rparr>)))"

definition on_signal :: "('m graph_runtime, 'a) act \<Rightarrow> ('m pipeline_runtime, 'a) act" where
  "on_signal f rt = (case f (pr_signal rt) of (r, g) \<Rightarrow> (r, rt\<lparr>pr_signal := g\<rparr>))"

definition require_pipeline_running :: "string \<Rightarrow> ('m pipeline_runtime, unit) act" where
  "require_pipeline_running operation =
     bind_s (gets_s pr_state) (\<lambda>state. case state of
         Closed \<Rightarrow> raise_s (RuntimeError (''Cannot '' @ operation @ '' a closed Pipeline Runtime.''))
       | Finalized \<Rightarrow> raise_s (RuntimeError (''Cannot '' @ operation @ '' a finalized Pipeline Runtime.''))
       | Initializing \<Rightarrow> raise_s (RuntimeError (''Cannot '' @ operation @ '' an uninitialized Pipeline Runtime.''))
       | Running \<Rightarrow> ret_s ())"

definition bind_observation_authority :: "('m pipeline_runtime, unit) act" where
  "bind_observation_authority =
     bind_s (gets_s pr_bound) (\<lambda>bound.
     bind_s (guard_s (\<not> bound) (RuntimeError ''Observation projection authority is already bound.'')) (\<lambda>_.
     modify_s (\<lambda>rt. rt\<lparr>pr_bound := True\<rparr>)))"

subsection \<open>Execution\<close>

definition read_direct_inputs :: "string \<Rightarrow> pyval \<Rightarrow> (string \<times> string \<times> string list \<times> bool) list \<Rightarrow> (string \<times> pyval) list res" where
  "read_direct_inputs node data ins =
     fold_r (\<lambda>(port_name, key, segments, required) inputs.
       case find_segments data segments of
         Some v \<Rightarrow> Inr (AList.update port_name v inputs)
       | None \<Rightarrow>
           if required
           then Inl (ValueError (''Pipeline Module '' @ quoted node @ '' input '' @ quoted port_name @ '' cannot read DataKey '' @ quoted key @ ''.''))
           else Inr inputs) ins []"

definition write_direct_outputs :: "(string \<times> pyval) list \<Rightarrow> (string \<times> string list) list \<Rightarrow> pyval \<Rightarrow> pyval res" where
  "write_direct_outputs outputs =
     fold_r (\<lambda>(port_name, segments) data. case map_of outputs port_name of
       None \<Rightarrow> Inr data
     | Some v \<Rightarrow> set_data_segments_copy_on_write data segments v)"

definition run_direct :: "'m deployment \<Rightarrow> pyval \<Rightarrow> direct_step \<Rightarrow> ('m pipeline_runtime, pyval) act" where
  "run_direct modules data = (\<lambda>(node, ins, outs).
     bind_s (lift_s (read_direct_inputs node data ins)) (\<lambda>inputs.
     bind_s (on_module node (invoke (modules node) inputs)) (\<lambda>outputs.
     lift_s (write_direct_outputs outputs outs data))))"

definition run_signal :: "'m deployment \<Rightarrow> runtime_plan \<Rightarrow> pyval \<Rightarrow> ('m pipeline_runtime, pyval) act" where
  "run_signal signal_modules rp data =
     on_signal (\<lambda>g. case execute_into signal_modules rp data [] data g of
       (Inl e, target, g') \<Rightarrow> (Inl e, g')
     | (Inr _, target, g') \<Rightarrow> (Inr (case target of None \<Rightarrow> data | Some d \<Rightarrow> d), g'))"

definition count_transfers :: "string list \<Rightarrow> (string \<times> nat) list \<Rightarrow> (string \<times> nat) list" where
  "count_transfers = fold (\<lambda>bid counts. AList.update bid ((case map_of counts bid of None \<Rightarrow> 0 | Some n \<Rightarrow> n) + 1) counts)"

definition execute_proven :: "'m deployment \<Rightarrow> 'm deployment \<Rightarrow> pipeline_plan \<Rightarrow> pyval \<Rightarrow> ('m pipeline_runtime, pyval) act" where
  "execute_proven modules signal_modules pp data =
     bind_s (fold_s (run_direct modules) data (pp_pre pp)) (\<lambda>data.
     bind_s (run_signal signal_modules (pp_signal pp) data) (\<lambda>data.
     bind_s (modify_s (\<lambda>rt. rt\<lparr>pr_transfers := count_transfers (keys_of (cg_inputs (rt_plan (pp_signal pp))) @
       keys_of (cg_outputs (rt_plan (pp_signal pp)))) (pr_transfers rt)\<rparr>)) (\<lambda>_.
     fold_s (run_direct modules) data (pp_post pp))))"

text \<open>The Data Dict a Pipeline starts from\<close>

definition pipeline_input :: "pipeline_plan \<Rightarrow> pyval \<Rightarrow> pyval res" where
  "pipeline_input pp obs =
     bind_r (project_compiled_data_paths obs (pp_whitelist pp)) (\<lambda>d.
     fold_r (\<lambda>segments data. delete_data_segments_copy_on_write data segments) (pp_blacklist pp) (PDict d))"

definition execute_observation :: "'m deployment \<Rightarrow> 'm deployment \<Rightarrow> pipeline_plan \<Rightarrow> pyval \<Rightarrow> ('m pipeline_runtime, pyval) act" where
  "execute_observation modules signal_modules pp obs =
     bind_s (require_pipeline_running ''execute'') (\<lambda>_.
     bind_s (gets_s pr_bound) (\<lambda>bound.
     bind_s (guard_s bound (RuntimeError ''Pipeline is not bound to an Observation authority.'')) (\<lambda>_.
     bind_s (lift_s (pipeline_input pp obs)) (execute_proven modules signal_modules pp))))"

subsection \<open>Lifecycle\<close>

text \<open>\<open>invoke_all\<close>: every operation runs, the first error is raised at the end unless another is being handled.\<close>

fun invoke_all :: "bool \<Rightarrow> py_error option \<Rightarrow> ('s, unit) act list \<Rightarrow> ('s, unit) act" where
  "invoke_all suppress err [] = (case err of Some e \<Rightarrow> if suppress then ret_s () else raise_s e | None \<Rightarrow> ret_s ())"
| "invoke_all suppress err (f # fs) =
     bind_s (catch_s (bind_s f (\<lambda>_. ret_s err)) (\<lambda>e. ret_s (case err of None \<Rightarrow> Some e | Some first \<Rightarrow> Some first)))
       (\<lambda>err'. invoke_all suppress err' fs)"

definition direct_nodes :: "direct_step list \<Rightarrow> string list" where
  "direct_nodes = map fst"

definition on_all ::
    "(string \<Rightarrow> ('m pipeline_runtime, unit) act) \<Rightarrow> ('m pipeline_runtime, unit) act \<Rightarrow> pipeline_plan \<Rightarrow> ('m pipeline_runtime, unit) act" where
  "on_all f signal pp =
     invoke_all False None (map f (rev (direct_nodes (pp_post pp))) @ [signal] @ map f (rev (direct_nodes (pp_pre pp))))"

definition close_module :: "'m deployment \<Rightarrow> string \<Rightarrow> ('m pipeline_runtime, unit) act" where
  "close_module modules node = on_module node (bind_s (close_invoker (modules node)) (\<lambda>_. ret_s ()))"

definition close_pipeline :: "'m deployment \<Rightarrow> 'm deployment \<Rightarrow> pipeline_plan \<Rightarrow> ('m pipeline_runtime, unit) act" where
  "close_pipeline modules signal_modules pp =
     bind_s (gets_s pr_state) (\<lambda>state.
     if state = Closed then ret_s ()
     else
       bind_s (modify_s (\<lambda>rt. rt\<lparr>pr_state := Closed\<rparr>)) (\<lambda>_.
       on_all (close_module modules) (on_signal (close_graph signal_modules (pp_signal pp))) pp))"

definition finalize_pipeline :: "'m deployment \<Rightarrow> 'm deployment \<Rightarrow> pipeline_plan \<Rightarrow> ('m pipeline_runtime, unit) act" where
  "finalize_pipeline modules signal_modules pp =
     bind_s (require_pipeline_running ''finalize'') (\<lambda>_.
     bind_s (modify_s (\<lambda>rt. rt\<lparr>pr_state := Finalized\<rparr>)) (\<lambda>_.
     on_all (\<lambda>node. on_module node (bind_s (finalize_invoker (modules node)) (\<lambda>_. ret_s ())))
       (on_signal (finalize_graph signal_modules (pp_signal pp))) pp))"

subsection \<open>What a Pipeline sees\<close>

lemma remove_keeps_absent: "find_segments (PDict d) q = None \<Longrightarrow> find_segments (PDict (remove_segments p d)) q = None"
proof (induction p d arbitrary: q rule: remove_segments.induct)
  case (2 leaf node)
  then show ?case by (cases q) (auto simp: delete_conv' split: option.splits)
next
  case (3 seg seg2 segs node)
  obtain x xs where q: "q = x # xs" using "3.prems" by (cases q) auto
  show ?case
  proof (cases "map_of node (KStr seg)")
    case (Some old)
    show ?thesis
    proof (cases old)
      case (PDict existing)
      show ?thesis
      proof (cases "x = seg")
        case True
        then have "find_segments (PDict existing) xs = None" using "3.prems" Some PDict by (simp add: q)
        from "3.IH"[OF Some PDict this] show ?thesis by (simp add: q True Some PDict update_conv')
      qed (use "3.prems" Some PDict in \<open>simp add: q update_conv'\<close>)
    qed (use "3.prems" Some in simp_all)
  qed (use "3.prems" in simp)
qed simp

lemma deleted_absent:
  assumes "fold_r (\<lambda>segments data. delete_data_segments_copy_on_write data segments) blacklist (PDict d) = Inr data"
  shows "\<exists>d'. data = PDict d' \<and> (\<forall>q. find_segments (PDict d) q = None \<longrightarrow> find_segments data q = None) \<and>
    (\<forall>segments \<in> set blacklist. find_segments data segments = None)"
  using assms
proof (induction blacklist arbitrary: d)
  case (Cons segments blacklist)
  have ne: "segments \<noteq> []" using Cons.prems by (auto simp: delete_data_segments_copy_on_write_def split: if_splits)
  then have "fold_r (\<lambda>segments data. delete_data_segments_copy_on_write data segments) blacklist (PDict (remove_segments segments d)) = Inr data"
    using Cons.prems by (simp add: delete_data_segments_copy_on_write_def)
  from Cons.IH[OF this] remove_keeps_absent remove_segments_gone[OF ne] show ?case by (metis set_ConsD)
qed auto

lemma project_reads:
  "(\<forall>(key, segments) \<in> set whitelist. find_segments obs segments = find_segments obs' segments) \<Longrightarrow>
   project_plan obs whitelist r = project_plan obs' whitelist r"
proof (induction whitelist arbitrary: r)
  case (Cons x whitelist)
  obtain key segments where x: "x = (key, segments)" by force
  have same: "find_segments obs segments = find_segments obs' segments" using Cons.prems by (simp add: x)
  have IH: "project_plan obs whitelist = project_plan obs' whitelist" using Cons by (intro ext) simp
  show ?case by (simp add: x same IH split: option.split)
qed simp

text \<open>\<^bold>\<open>C6\<close>. What a Pipeline does depends on an Observation only through the values at its whitelisted paths: two
  Observations that agree there give the same result, the same errors and the same state of every Module; and no
  blacklisted path has a value when the first Module runs.\<close>

theorem pipeline_sees_whitelist_only:
  assumes "\<forall>(key, segments) \<in> set (pp_whitelist pp). find_segments obs segments = find_segments obs' segments"
  shows "execute_observation modules signal_modules pp obs = execute_observation modules signal_modules pp obs' \<and>
    (\<forall>data. pipeline_input pp obs = Inr data \<longrightarrow> (\<forall>segments \<in> set (pp_blacklist pp). find_segments data segments = None))"
proof -
  have "pipeline_input pp obs = pipeline_input pp obs'"
    using project_reads[OF assms] by (simp add: pipeline_input_def project_compiled_data_paths_def)
  moreover have "find_segments data segments = None" if "pipeline_input pp obs = Inr data" "segments \<in> set (pp_blacklist pp)" for data segments
    using that deleted_absent by (fastforce simp: pipeline_input_def bind_r_Inr_iff)
  ultimately show ?thesis by (simp add: execute_observation_def)
qed

subsection \<open>What closing leaves behind\<close>

text \<open>Each operation of \<open>invoke_all\<close> runs; what one brings about, the others may not undo.\<close>

lemma invoke_all_establishes:
  assumes "\<And>k s. k \<in> set ks \<Longrightarrow> I s \<Longrightarrow> P k (snd (f k s)) \<and> I (snd (f k s))"
    and "\<And>j k s. k \<in> set ks \<Longrightarrow> I s \<Longrightarrow> P j s \<Longrightarrow> P j (snd (f k s))" and "I s"
  shows "I (snd (invoke_all suppress err (map f ks) s)) \<and> (\<forall>k \<in> set ks. P k (snd (invoke_all suppress err (map f ks) s))) \<and>
    (\<forall>j. P j s \<longrightarrow> P j (snd (invoke_all suppress err (map f ks) s)))"
  using assms
proof (induction ks arbitrary: err s)
  case Nil
  then show ?case by (auto simp: ret_s_def raise_s_def split: option.split)
next
  case (Cons k ks)
  obtain r t where t: "f k s = (r, t)" by force
  define err' where "err' = (case r of Inr _ \<Rightarrow> err | Inl e \<Rightarrow> (case err of None \<Rightarrow> Some e | Some first \<Rightarrow> Some first))"
  have run: "invoke_all suppress err (map f (k # ks)) s = invoke_all suppress err' (map f ks) t"
    by (simp add: bind_s_def catch_s_def ret_s_def t err'_def split: sum.split)
  have "P k t \<and> I t" using Cons.prems(1)[of k s] Cons.prems(3) by (simp add: t)
  moreover have "P j t" if "P j s" for j using Cons.prems(2)[of k s j] Cons.prems(3) that by (simp add: t)
  moreover note Cons.IH[of t err'] Cons.prems(1,2)
  ultimately show ?case unfolding run by (simp only: list.set_intros set_ConsD) (metis list.set_intros(2) set_ConsD)
qed

lemma end_all_invoke: "end_all f nodes err = invoke_all False err (map (\<lambda>node. bind_s (f node) (\<lambda>_. ret_s ())) nodes)"
proof (induction nodes arbitrary: err)
  case (Cons node nodes)
  have "bind_s (f node) (\<lambda>_. ret_s err) = bind_s (bind_s (f node) (\<lambda>_. ret_s ())) (\<lambda>_. ret_s err)"
    by (intro ext) (simp add: bind_s_def ret_s_def split: prod.split sum.split)
  then show ?case by (simp add: Cons.IH[abs_def])
qed (simp split: option.split)

lemma invoker_closed: "iv_lifecycle (snd (close_invoker io iv)) = Closed"
  by (simp add: close_invoker_def bind_s_def gets_s_def ret_s_def finally_s_def modify_s_def split: prod.split sum.split)

definition invoker_in :: "(string \<times> 'm invoker) list \<Rightarrow> string \<Rightarrow> bool" where
  "invoker_in ivs node \<longleftrightarrow> (\<exists>iv. map_of ivs node = Some iv \<and> iv_lifecycle iv = Closed)"

lemma close_on_invoker:
  assumes "node \<in> set (keys_of (invokers g))"
  shows "invoker_in (invokers (snd (bind_s (on_invoker node (close_invoker io)) (\<lambda>_. ret_s ()) g))) node"
    "invoker_in (invokers g) j \<Longrightarrow> invoker_in (invokers (snd (bind_s (on_invoker node (close_invoker io)) (\<lambda>_. ret_s ()) g))) j"
    "set (keys_of (invokers (snd (bind_s (on_invoker node (close_invoker io)) (\<lambda>_. ret_s ()) g)))) = set (keys_of (invokers g))"
    "graph_closed (snd (bind_s (on_invoker node (close_invoker io)) (\<lambda>_. ret_s ()) g)) = graph_closed g"
proof -
  obtain iv where iv: "map_of (invokers g) node = Some iv" using key_lookup[OF assms] by (rule exE)
  obtain r iv' where c: "close_invoker io iv = (r, iv')" by force
  then have closed: "iv_lifecycle iv' = Closed" using invoker_closed[of io iv] by simp
  have g: "snd (bind_s (on_invoker node (close_invoker io)) (\<lambda>_. ret_s ()) g) = g\<lparr>invokers := AList.update node iv' (invokers g)\<rparr>"
    by (simp add: bind_s_def on_invoker_def iv c ret_s_def split: sum.split)
  show "invoker_in (invokers (snd (bind_s (on_invoker node (close_invoker io)) (\<lambda>_. ret_s ()) g))) node"
    unfolding g by (simp add: invoker_in_def update_conv' closed)
  show "invoker_in (invokers g) j \<Longrightarrow> invoker_in (invokers (snd (bind_s (on_invoker node (close_invoker io)) (\<lambda>_. ret_s ()) g))) j"
    unfolding g by (auto simp: invoker_in_def update_conv' closed)
  show "set (keys_of (invokers (snd (bind_s (on_invoker node (close_invoker io)) (\<lambda>_. ret_s ()) g)))) = set (keys_of (invokers g))"
    unfolding g using keys_update_old[OF assms] by simp
  show "graph_closed (snd (bind_s (on_invoker node (close_invoker io)) (\<lambda>_. ret_s ()) g)) = graph_closed g"
    unfolding g by simp
qed

definition graph_released :: "runtime_plan \<Rightarrow> 'm graph_runtime \<Rightarrow> bool" where
  "graph_released rp g \<longleftrightarrow> graph_closed g \<and> (\<forall>node \<in> set (topology (rt_plan rp)). invoker_in (invokers g) node)"

lemma close_graph_releases:
  assumes "\<not> graph_closed g" "set (topology (rt_plan rp)) \<subseteq> set (keys_of (invokers g))"
  shows "graph_released rp (snd (close_graph modules rp g))"
proof -
  let ?f = "\<lambda>node. bind_s (on_invoker node (close_invoker (modules node))) (\<lambda>_. ret_s ())"
  let ?I = "\<lambda>g. graph_closed g \<and> set (topology (rt_plan rp)) \<subseteq> set (keys_of (invokers g))"
  let ?g = "g\<lparr>graph_closed := True\<rparr>"
  have "?I (snd (invoke_all False None (map ?f (rev (topology (rt_plan rp)))) ?g)) \<and>
    (\<forall>node \<in> set (rev (topology (rt_plan rp))). invoker_in (invokers (snd (invoke_all False None (map ?f (rev (topology (rt_plan rp)))) ?g))) node) \<and>
    (\<forall>j. invoker_in (invokers ?g) j \<longrightarrow> invoker_in (invokers (snd (invoke_all False None (map ?f (rev (topology (rt_plan rp)))) ?g))) j)"
  proof (rule invoke_all_establishes[where P = "\<lambda>node g. invoker_in (invokers g) node"])
    show "invoker_in (invokers (snd (?f node s))) node \<and> ?I (snd (?f node s))" if "node \<in> set (rev (topology (rt_plan rp)))" "?I s" for node s
    proof -
      have "node \<in> set (keys_of (invokers s))" using that by auto
      from close_on_invoker[OF this, where io = "modules node"] that(2) show ?thesis by (simp only: simp_thms)
    qed
    show "invoker_in (invokers (snd (?f node s))) j" if "node \<in> set (rev (topology (rt_plan rp)))" "?I s" "invoker_in (invokers s) j" for j node s
    proof -
      have "node \<in> set (keys_of (invokers s))" using that by auto
      from close_on_invoker(2)[OF this that(3)] show ?thesis .
    qed
    show "?I ?g" using assms(2) by simp
  qed
  then show ?thesis
    using assms(1) by (simp add: graph_released_def close_graph_def bind_s_def gets_s_def modify_s_def end_all_invoke)
qed

lemma close_module_closes:
  assumes "node \<in> set (keys_of (pr_modules rt))"
  shows "invoker_in (pr_modules (snd (close_module modules node rt))) node"
    "invoker_in (pr_modules rt) j \<Longrightarrow> invoker_in (pr_modules (snd (close_module modules node rt))) j"
    "set (keys_of (pr_modules (snd (close_module modules node rt)))) = set (keys_of (pr_modules rt))"
    "pr_signal (snd (close_module modules node rt)) = pr_signal rt" "pr_state (snd (close_module modules node rt)) = pr_state rt"
proof -
  obtain iv where iv: "map_of (pr_modules rt) node = Some iv" using key_lookup[OF assms] by (rule exE)
  obtain r iv' where c: "close_invoker (modules node) iv = (r, iv')" by force
  then have closed: "iv_lifecycle iv' = Closed" using invoker_closed[of "modules node" iv] by simp
  have rt: "snd (close_module modules node rt) = rt\<lparr>pr_modules := AList.update node iv' (pr_modules rt)\<rparr>"
    by (simp add: close_module_def bind_s_def on_module_def iv c ret_s_def split: sum.split)
  show "invoker_in (pr_modules (snd (close_module modules node rt))) node" unfolding rt by (simp add: invoker_in_def update_conv' closed)
  show "invoker_in (pr_modules rt) j \<Longrightarrow> invoker_in (pr_modules (snd (close_module modules node rt))) j"
    unfolding rt by (auto simp: invoker_in_def update_conv' closed)
  show "set (keys_of (pr_modules (snd (close_module modules node rt)))) = set (keys_of (pr_modules rt))"
    unfolding rt using keys_update_old[OF assms] by simp
  show "pr_signal (snd (close_module modules node rt)) = pr_signal rt" "pr_state (snd (close_module modules node rt)) = pr_state rt"
    unfolding rt by simp_all
qed

text \<open>The resources of a Pipeline: its Modules (\<open>Some\<close>) and its Signal Graph (\<open>None\<close>)\<close>

definition released :: "pipeline_plan \<Rightarrow> string option \<Rightarrow> 'm pipeline_runtime \<Rightarrow> bool" where
  "released pp resource rt =
     (case resource of Some node \<Rightarrow> invoker_in (pr_modules rt) node | None \<Rightarrow> graph_released (pp_signal pp) (pr_signal rt))"

text \<open>The Modules of the plan are there, and the Signal Graph is open or released.\<close>

definition equipped :: "pipeline_plan \<Rightarrow> 'm pipeline_runtime \<Rightarrow> bool" where
  "equipped pp rt \<longleftrightarrow> set (direct_nodes (pp_pre pp) @ direct_nodes (pp_post pp)) \<subseteq> set (keys_of (pr_modules rt)) \<and>
     set (topology (rt_plan (pp_signal pp))) \<subseteq> set (keys_of (invokers (pr_signal rt))) \<and>
     (graph_closed (pr_signal rt) \<longrightarrow> graph_released (pp_signal pp) (pr_signal rt))"

definition release :: "'m deployment \<Rightarrow> 'm deployment \<Rightarrow> pipeline_plan \<Rightarrow> string option \<Rightarrow> ('m pipeline_runtime, unit) act" where
  "release modules signal_modules pp resource =
     (case resource of Some node \<Rightarrow> close_module modules node | None \<Rightarrow> on_signal (close_graph signal_modules (pp_signal pp)))"

lemma release_step:
  assumes "resource \<in> set (None # map Some (direct_nodes (pp_pre pp) @ direct_nodes (pp_post pp)))" "equipped pp rt" "pr_state rt = Closed"
  shows "released pp resource (snd (release modules signal_modules pp resource rt)) \<and>
      equipped pp (snd (release modules signal_modules pp resource rt)) \<and> pr_state (snd (release modules signal_modules pp resource rt)) = Closed"
    "released pp j rt \<Longrightarrow> released pp j (snd (release modules signal_modules pp resource rt))"
proof (atomize (full), cases resource)
  case (Some node)
  then have "node \<in> set (keys_of (pr_modules rt))" using assms(1,2) by (auto simp: equipped_def)
  note c = close_module_closes[OF this, where modules = modules]
  show "(released pp resource (snd (release modules signal_modules pp resource rt)) \<and>
      equipped pp (snd (release modules signal_modules pp resource rt)) \<and> pr_state (snd (release modules signal_modules pp resource rt)) = Closed) \<and>
    (released pp j rt \<longrightarrow> released pp j (snd (release modules signal_modules pp resource rt)))"
    using assms(2,3) c(1,3,4,5) c(2)[of "the j"]
    by (cases j) (simp_all add: Some release_def released_def equipped_def del: set_map)
next
  case None
  obtain r g where g: "close_graph signal_modules (pp_signal pp) (pr_signal rt) = (r, g)" by force
  have rt: "snd (release modules signal_modules pp resource rt) = rt\<lparr>pr_signal := g\<rparr>"
    by (simp add: None release_def on_signal_def g)
  have released: "graph_released (pp_signal pp) g"
  proof (cases "graph_closed (pr_signal rt)")
    case True
    then have "g = pr_signal rt" using g by (simp add: close_graph_def bind_s_def gets_s_def ret_s_def)
    with True assms(2) show ?thesis by (simp add: equipped_def)
  next
    case False
    with close_graph_releases[OF False, of "pp_signal pp" signal_modules] assms(2) show ?thesis by (simp add: equipped_def g)
  qed
  then have "set (topology (rt_plan (pp_signal pp))) \<subseteq> set (keys_of (invokers g))"
    by (auto simp: graph_released_def invoker_in_def dest: found_key simp del: set_map)
  with released show "(released pp resource (snd (release modules signal_modules pp resource rt)) \<and>
      equipped pp (snd (release modules signal_modules pp resource rt)) \<and> pr_state (snd (release modules signal_modules pp resource rt)) = Closed) \<and>
    (released pp j rt \<longrightarrow> released pp j (snd (release modules signal_modules pp resource rt)))"
    unfolding rt using assms(2,3) by (auto simp: None released_def equipped_def simp del: set_map split: option.split)
qed

text \<open>\<^bold>\<open>C24\<close>. Closing a Pipeline closes all its Modules and its Signal Graph with every Module in it, also when some
  of them raise on the way; a second close does nothing.\<close>

theorem close_pipeline_releases_everything:
  assumes "equipped pp rt" "pr_state rt \<noteq> Closed" "close_pipeline modules signal_modules pp rt = (r, rt')"
  shows "pr_state rt' = Closed \<and> (\<forall>node \<in> set (direct_nodes (pp_pre pp) @ direct_nodes (pp_post pp)). released pp (Some node) rt') \<and>
    released pp None rt' \<and> close_pipeline modules signal_modules pp rt' = (Inr (), rt')"
proof -
  let ?ks = "map Some (rev (direct_nodes (pp_post pp))) @ [None] @ map Some (rev (direct_nodes (pp_pre pp)))"
  let ?rt = "rt\<lparr>pr_state := Closed\<rparr>" and ?f = "release modules signal_modules pp"
  have run: "close_pipeline modules signal_modules pp rt = invoke_all False None (map ?f ?ks) ?rt"
    using assms(2) by (simp add: close_pipeline_def bind_s_def gets_s_def modify_s_def on_all_def release_def comp_def)
  let ?I = "\<lambda>rt. equipped pp rt \<and> pr_state rt = Closed"
  have "?I (snd (invoke_all False None (map ?f ?ks) ?rt)) \<and> (\<forall>k \<in> set ?ks. released pp k (snd (invoke_all False None (map ?f ?ks) ?rt))) \<and>
    (\<forall>j. released pp j ?rt \<longrightarrow> released pp j (snd (invoke_all False None (map ?f ?ks) ?rt)))"
  proof (rule invoke_all_establishes)
    show "released pp k (snd (?f k s)) \<and> ?I (snd (?f k s))" if "k \<in> set ?ks" "?I s" for k s
      using release_step(1)[of k pp s modules signal_modules] that by auto
    show "released pp j (snd (?f k s))" if "k \<in> set ?ks" "?I s" "released pp j s" for j k s
      using release_step(2)[of k pp s j modules signal_modules] that by auto
    show "?I ?rt" using assms(1) by (simp add: equipped_def)
  qed
  then have "pr_state rt' = Closed" "\<forall>k \<in> set ?ks. released pp k rt'" using assms(3) unfolding run by simp_all
  moreover have "close_pipeline modules signal_modules pp rt' = (Inr (), rt')" if "pr_state rt' = Closed"
    using that by (simp add: close_pipeline_def bind_s_def gets_s_def ret_s_def)
  ultimately show ?thesis by (simp add: ball_Un)
qed

subsection \<open>An example\<close>

text \<open>One Module before the Signal Graph of \<open>Graph_Soundness\<close>\<close>

definition example_pipeline :: "runtime_plan \<Rightarrow> pipeline_plan" where
  "example_pipeline rp = \<lparr>pp_pre = [(''p'', [(''x'', ''a'', [''a''], True)], [(''y'', [''c''])])], pp_post = [], pp_signal = rp,
     pp_whitelist = [(''a'', [''a'']), (''b'', [''b''])], pp_blacklist = [[''b'', ''secret'']]\<rparr>"

definition example_running :: "unit pipeline_runtime" where
  "example_running = \<lparr>pr_modules = [(''p'', \<lparr>iv_lifecycle = Running, iv_count = 0, iv_module = ()\<rparr>)], pr_signal = example_runtime,
     pr_state = Running, pr_bound = True, pr_transfers = []\<rparr>"

theorem pipeline_sees_whitelist_only_witness:
  "\<forall>rp. execute_observation example_module example_module (example_pipeline rp) (PDict [(KStr ''a'', PInt 1), (KStr ''z'', PInt 2)]) =
   execute_observation example_module example_module (example_pipeline rp) (PDict [(KStr ''z'', PInt 3), (KStr ''a'', PInt 1)])"
proof
  fix rp
  have "\<forall>(key, segments) \<in> set (pp_whitelist (example_pipeline rp)). find_segments (PDict [(KStr ''a'', PInt 1), (KStr ''z'', PInt 2)]) segments =
      find_segments (PDict [(KStr ''z'', PInt 3), (KStr ''a'', PInt 1)]) segments" by (simp add: example_pipeline_def)
  from pipeline_sees_whitelist_only[OF this, of example_module example_module]
  show "execute_observation example_module example_module (example_pipeline rp) (PDict [(KStr ''a'', PInt 1), (KStr ''z'', PInt 2)]) =
   execute_observation example_module example_module (example_pipeline rp) (PDict [(KStr ''z'', PInt 3), (KStr ''a'', PInt 1)])" by blast
qed

theorem close_pipeline_releases_everything_witness:
  "\<exists>rp r rt'. compile_runtime_plan (\<lambda>_. []) 3 False example_plan [(''n'', example_ports)] = Inr rp \<and>
     close_pipeline example_module example_module (example_pipeline rp) example_running = (r, rt') \<and>
     released (example_pipeline rp) (Some ''p'') rt' \<and> released (example_pipeline rp) None rt'"
proof -
  obtain rp where rp: "compile_runtime_plan (\<lambda>_. []) 3 False example_plan [(''n'', example_ports)] = Inr rp"
    using example_bound by blast
  then have plan: "rt_plan rp = example_plan" by (auto simp: compile_runtime_plan_def bind_r_Inr_iff Let_def)
  obtain r rt' where run: "close_pipeline example_module example_module (example_pipeline rp) example_running = (r, rt')" by force
  have "equipped (example_pipeline rp) example_running"
    by (simp add: equipped_def example_pipeline_def example_running_def direct_nodes_def plan example_runtime_def)
  from close_pipeline_releases_everything[OF this _ run] rp run show ?thesis
    by (auto simp: example_pipeline_def example_running_def direct_nodes_def)
qed

end
