(* ===== verification/Backtest_Request.thy ===== *)
theory Backtest_Request
  imports Strict_Json Data_Path
begin

section \<open>Backtest requests and their evidence\<close>

text \<open>
  Models \<open>engine/contracts/exact_fields.py\<close>, the digest form of
  \<open>engine/contracts/digest.py\<close>, \<open>strict_json.exact_equal\<close> and
  \<open>engine/contracts/backtest.py\<close>: the shape of a Backtest composition request and the
  normalized execution inputs an execution snapshot signs. SHA-256 of canonical JSON is the
  parameter \<open>digest\<close> of the definitions that use it.
\<close>

subsection \<open>Exact object shapes\<close>

text \<open>\<open>value[name]\<close> of an object known to have the field\<close>

definition field :: "pyval \<Rightarrow> string \<Rightarrow> pyval" where
  "field v name = (case map_of (dict_items v) (KStr name) of None \<Rightarrow> PNone | Some x \<Rightarrow> x)"

definition has_field :: "pyval \<Rightarrow> string \<Rightarrow> bool" where
  "has_field v name \<longleftrightarrow> KStr name \<in> set (keys_of (dict_items v))"

text \<open>Sorting names of mixed type is a \<open>TypeError\<close>; a single foreign key fails in
  \<open>join\<close>.\<close>

definition require_exact_fields :: "string list \<Rightarrow> string list \<Rightarrow> string \<Rightarrow> pyval \<Rightarrow> unit res" where
  "require_exact_fields allowed required label v =
     (case v of
        PDict kvs \<Rightarrow>
          (let unknown = filter (\<lambda>k. k \<notin> KStr ` set allowed) (keys_of kvs);
               missing = filter (\<lambda>n. KStr n \<notin> set (keys_of kvs)) required in
           if unknown \<noteq> [] then
             (if list_all is_str_key unknown
              then Inl (ValueError (label @ '' contains unsupported field(s): '' @
                join_str '', '' (sorted_set (concat (map (\<lambda>k. case k of KStr n \<Rightarrow> [n] | _ \<Rightarrow> []) unknown)))))
              else Inl (TypeError ''sequence item''))
           else if missing \<noteq> [] then
             Inl (ValueError (label @ '' is missing required field(s): '' @ join_str '', '' (sorted_set missing)))
           else Inr ())
      | _ \<Rightarrow> Inl (ValueError (label @ '' must be an object.'')))"

lemma require_exact_fields_Inr:
  "require_exact_fields allowed required label v = Inr u \<longleftrightarrow>
     (\<exists>kvs. v = PDict kvs \<and> set (keys_of kvs) \<subseteq> KStr ` set allowed \<and> KStr ` set required \<subseteq> set (keys_of kvs))"
  by (cases v) (auto simp: require_exact_fields_def Let_def filter_empty_conv subset_iff)

subsection \<open>Digests\<close>

definition hex_chars :: string where
  "hex_chars = ''0123456789abcdef''"

definition is_sha256_digest :: "string \<Rightarrow> bool" where
  "is_sha256_digest s \<longleftrightarrow> length s = 71 \<and> take 7 s = ''sha256:'' \<and> list_all (\<lambda>c. c \<in> set hex_chars) (drop 7 s)"

definition require_sha256_digest :: "string \<Rightarrow> string \<Rightarrow> string res" where
  "require_sha256_digest label s =
     (if is_sha256_digest s then Inr s else Inl (ValueError (label @ '' is invalid.'')))"

subsection \<open>Exact equality of strict JSON\<close>

text \<open>Equality of the canonical encodings: objects up to the order of members, numbers by
  type and exact value (\<open>0.0\<close> and \<open>-0.0\<close> are written differently).\<close>

function (sequential) json_identical :: "pyval \<Rightarrow> pyval \<Rightarrow> bool" where
  "json_identical (PDict a) (PDict b) =
     (set (keys_of a) = set (keys_of b) \<and>
      list_all (\<lambda>(k, v). case map_of b k of None \<Rightarrow> False | Some w \<Rightarrow> json_identical v w) a)"
| "json_identical (PList xs) (PList ys) =
     (length xs = length ys \<and> list_all (\<lambda>(x, y). json_identical x y) (zip xs ys))"
| "json_identical v w = (v = w)"
  by pat_completeness auto
termination
  by (relation "measure (\<lambda>(v, w). size v)")
    (auto simp del: pyval.size dest: set_zip_leftD intro: size_dict_item size_list_item)

definition exact_equal :: "pyval \<Rightarrow> pyval \<Rightarrow> bool res" where
  "exact_equal l r =
     (if is_exact_json l \<and> is_exact_json r then Inr (json_identical l r)
      else bind_r (dumps_admission l) (\<lambda>_. bind_r (dumps_admission r) (\<lambda>_. Inr (json_identical l r))))"

subsection \<open>Requests\<close>

definition backtest_request_fields :: "string list" where
  "backtest_request_fields = [''pipeline'', ''datasetId'', ''datasetVersionId'', ''sampler'',
     ''environment'', ''analysis'', ''limit'']"

fun is_str :: "pyval \<Rightarrow> bool" where
  "is_str (PStr s) = True"
| "is_str _ = False"

fun str_of :: "pyval \<Rightarrow> string" where
  "str_of (PStr s) = s"
| "str_of _ = []"

definition check_reference :: "pyval \<Rightarrow> string \<times> string list \<Rightarrow> unit res" where
  "check_reference request = (\<lambda>(name, fields).
     bind_r (require_exact_fields fields fields (''Backtest '' @ name) (field request name)) (\<lambda>_.
     iter_r (\<lambda>n. guard_r (is_str (field (field request name) n))
       (ValueError (''Backtest '' @ name @ ''.'' @ n @ '' must be a string.''))) fields))"

text \<open>\<open>label is required\<close>: a string with something else than white space\<close>

definition check_present :: "string \<times> pyval \<Rightarrow> unit res" where
  "check_present = (\<lambda>(label, v).
     guard_r (is_str v \<and> strip (str_of v) \<noteq> []) (ValueError (''Backtest '' @ label @ '' is required.'')))"

fun positive_int :: "pyval \<Rightarrow> bool" where
  "positive_int (PInt i) \<longleftrightarrow> i \<ge> 1"
| "positive_int _ \<longleftrightarrow> False"

definition normalize_backtest_request :: "pyval \<Rightarrow> pyval res" where
  "normalize_backtest_request request =
     bind_r (require_exact_fields backtest_request_fields
       [''pipeline'', ''datasetId'', ''datasetVersionId'', ''sampler'', ''environment'', ''analysis'']
       ''Backtest request'' request) (\<lambda>_.
     bind_r (iter_r (check_reference request)
       [(''pipeline'', [''pipelineId'', ''version'']),
        (''environment'', [''environmentId'', ''version'']),
        (''analysis'', [''analysisId'', ''version''])]) (\<lambda>_.
     bind_r (require_exact_fields [''samplerId'', ''version'', ''parameters'']
       [''samplerId'', ''version'', ''parameters''] ''Backtest sampler'' (field request ''sampler'')) (\<lambda>_.
     bind_r (guard_r (case field (field request ''sampler'') ''parameters'' of PDict _ \<Rightarrow> True | _ \<Rightarrow> False)
       (ValueError ''Backtest sampler.parameters must be an object.'')) (\<lambda>_.
     bind_r (iter_r (\<lambda>n. guard_r (is_str (field (field request ''sampler'') n))
         (ValueError (''Backtest sampler.'' @ n @ '' must be a string.'')))
       [''samplerId'', ''version'']) (\<lambda>_.
     bind_r (guard_r (has_field request ''limit'' \<longrightarrow> positive_int (field request ''limit''))
       (ValueError ''Backtest limit must be a positive integer.'')) (\<lambda>_.
     bind_r (iter_r check_present
       [(''datasetId'', field request ''datasetId''),
        (''datasetVersionId'', field request ''datasetVersionId''),
        (''pipeline.pipelineId'', field (field request ''pipeline'') ''pipelineId''),
        (''sampler.samplerId'', field (field request ''sampler'') ''samplerId''),
        (''sampler.version'', field (field request ''sampler'') ''version''),
        (''environment.environmentId'', field (field request ''environment'') ''environmentId''),
        (''analysis.analysisId'', field (field request ''analysis'') ''analysisId'')]) (\<lambda>_.
     bind_r (iter_r (\<lambda>n. guard_r (strip (str_of (field (field request n) ''version'')) \<noteq> [])
         (ValueError (''Backtest '' @ n @ ''.version is required.'')))
       [''pipeline'', ''environment'', ''analysis'']) (\<lambda>_.
     Inr request))))))))"

definition backtest_execution_inputs :: "pyval \<Rightarrow> pyval res" where
  "backtest_execution_inputs request =
     bind_r (normalize_backtest_request request) (\<lambda>normalized.
       Inr (PDict (AList.update (KStr ''limit'') (field normalized ''limit'') (dict_items normalized))))"

definition backtest_evidence_digest :: "(pyval \<Rightarrow> string) \<Rightarrow> pyval \<Rightarrow> string res" where
  "backtest_evidence_digest digest payload =
     bind_r (dumps_admission payload) (\<lambda>_. Inr (''sha256:'' @ digest payload))"

subsection \<open>Lemmas\<close>

lemma json_identical_refl: "wf_val v \<Longrightarrow> json_identical v v"
proof (induction v rule: wf_val.induct)
  case (1 xs)
  then show ?case by (auto simp: list_all_iff zip_same_conv_map)
next
  case (2 kvs)
  have "json_identical v v" if "(k, v) \<in> set kvs" for k v
    using "2.IH"[OF that refl] "2.prems" that by (auto simp: list_all_iff)
  with "2.prems" show ?case by (auto simp: list_all_iff)
qed auto

lemma json_identical_lookup:
  "json_identical (PDict a) (PDict b) \<Longrightarrow> map_of a k = Some v \<Longrightarrow> \<exists>w. map_of b k = Some w \<and> json_identical v w"
  by (fastforce simp: list_all_iff dest: map_of_in_set split: option.splits)

lemma normalize_backtest_requestD:
  assumes "normalize_backtest_request request = Inr r"
  shows "r = request" "\<exists>kvs. request = PDict kvs"
    "has_field request ''limit'' \<longrightarrow> positive_int (field request ''limit'')"
  using assms unfolding normalize_backtest_request_def bind_r_Inr_iff guard_r_Inr_iff
  by (auto simp: require_exact_fields_Inr)

lemma positive_int_not_None: "positive_int v \<Longrightarrow> v \<noteq> PNone"
  by auto

lemma json_identical_None: "json_identical v w \<Longrightarrow> v = PNone \<longleftrightarrow> w = PNone"
  by (cases v; cases w) auto

lemma json_identical_dictI:
  assumes "distinct (keys_of a)" and "\<And>k. map_of a k = None \<longleftrightarrow> map_of b k = None"
    and "\<And>k v w. map_of a k = Some v \<Longrightarrow> map_of b k = Some w \<Longrightarrow> json_identical v w"
  shows "json_identical (PDict a) (PDict b)"
proof -
  have "set (keys_of a) = set (keys_of b)"
    using assms(2) by (auto simp: map_of_eq_None_iff)
  moreover have "case map_of b k of None \<Rightarrow> False | Some w \<Rightarrow> json_identical v w" if kv: "(k, v) \<in> set a" for k v
  proof -
    have v: "map_of a k = Some v" using kv assms(1) by simp
    then obtain w where w: "map_of b k = Some w" using assms(2)[of k] by (cases "map_of b k") auto
    with assms(3)[OF v w] show ?thesis by simp
  qed
  ultimately show ?thesis by (auto simp: list_all_iff)
qed

subsection \<open>Properties\<close>

text \<open>\<^bold>\<open>C40\<close>. Execution inputs are a unique representation: two accepted requests whose normalized
  execution inputs are identical JSON are themselves identical JSON, so the snapshot
  signature over the inputs pins the whole request down, the optional limit included.\<close>

theorem execution_inputs_determine_request:
  assumes "wf_val r1" and "wf_val r2"
    and "backtest_execution_inputs r1 = Inr i1" and "backtest_execution_inputs r2 = Inr i2"
    and "json_identical i1 i2"
  shows "json_identical r1 r2"
proof -
  let ?l = "KStr ''limit''"
  from assms(3) obtain a where a: "r1 = PDict a" "i1 = PDict (AList.update ?l (field r1 ''limit'') a)"
      "has_field r1 ''limit'' \<longrightarrow> positive_int (field r1 ''limit'')"
    using normalize_backtest_requestD[of r1] by (auto simp: backtest_execution_inputs_def bind_r_Inr_iff dict_items_def)
  from assms(4) obtain b where b: "r2 = PDict b" "i2 = PDict (AList.update ?l (field r2 ''limit'') b)"
      "has_field r2 ''limit'' \<longrightarrow> positive_int (field r2 ''limit'')"
    using normalize_backtest_requestD[of r2] by (auto simp: backtest_execution_inputs_def bind_r_Inr_iff dict_items_def)
  have lim: "map_of d ?l = (if has_field (PDict d) ''limit'' then Some (field (PDict d) ''limit'') else None)" for d
    by (auto simp: has_field_def field_def dict_items_def map_of_eq_None_iff split: option.splits)
  have same_limit: "json_identical (field r1 ''limit'') (field r2 ''limit'')"
    using json_identical_lookup[OF assms(5)[unfolded a(2) b(2)], of ?l] by simp
  have none: "field (PDict d) ''limit'' = PNone" if "\<not> has_field (PDict d) ''limit''" for d
    using that lim[of d] by (simp add: field_def dict_items_def)
  have iff: "has_field r1 ''limit'' \<longleftrightarrow> has_field r2 ''limit''"
    using none json_identical_None[OF same_limit] a(1,3) b(1,3) positive_int_not_None by metis
  have keys: "map_of a k = None \<longleftrightarrow> map_of b k = None" for k
  proof (cases "k = ?l")
    case True
    with iff show ?thesis by (simp add: lim a(1)[symmetric] b(1)[symmetric])
  next
    case False
    have "set (keys_of (AList.update ?l (field r1 ''limit'') a)) = set (keys_of (AList.update ?l (field r2 ''limit'') b))"
      using assms(5)[unfolded a(2) b(2)] by simp
    then have "insert ?l (set (keys_of a)) = insert ?l (set (keys_of b))" unfolding ad.keys_put .
    with False have "k \<in> set (keys_of a) \<longleftrightarrow> k \<in> set (keys_of b)" by blast
    then show ?thesis by (simp add: map_of_eq_None_iff)
  qed
  have vals: "json_identical v w" if "map_of a k = Some v" "map_of b k = Some w" for k v w
  proof (cases "k = ?l")
    case True
    with that same_limit show ?thesis by (simp add: lim a(1) b(1) split: if_splits)
  next
    case False
    with json_identical_lookup[OF assms(5)[unfolded a(2) b(2)], of k v] that show ?thesis by simp
  qed
  show ?thesis
    unfolding a(1) b(1) by (rule json_identical_dictI) (use assms(1) keys vals in \<open>auto simp: a(1)\<close>)
qed

theorem execution_inputs_determine_request_witness:
  "\<exists>r i. backtest_execution_inputs r = Inr i \<and> json_identical r r"
proof -
  let ?ref = "\<lambda>n. PDict [(KStr n, PStr ''x''), (KStr ''version'', PStr ''1'')]"
  let ?r = "PDict [(KStr ''pipeline'', ?ref ''pipelineId''), (KStr ''datasetId'', PStr ''d''),
    (KStr ''datasetVersionId'', PStr ''dv''),
    (KStr ''sampler'', PDict [(KStr ''samplerId'', PStr ''s''), (KStr ''version'', PStr ''1''), (KStr ''parameters'', PDict [])]),
    (KStr ''environment'', ?ref ''environmentId''), (KStr ''analysis'', ?ref ''analysisId'')]"
  let ?i = "PDict (dict_items ?r @ [(KStr ''limit'', PNone)])"
  have i: "backtest_execution_inputs ?r = Inr ?i" by code_simp
  have wf: "wf_val ?r" "wf_val ?i" by (simp_all add: dict_items_def)
  from execution_inputs_determine_request[OF wf(1) wf(1) i i json_identical_refl[OF wf(2)]] i show ?thesis by blast
qed

end
