(* ===== verification/Job_Repository.thy ===== *)
theory Job_Repository
  imports Complex_Main "HOL-Library.Multiset" Backtest_Request
begin

section \<open>The persistent index of Backtest jobs\<close>

text \<open>
  Models \<open>engine/jobs/repository.py\<close>. The table \<open>backtest_jobs\<close> is a list of rows in
  insertion order. Its columns are typed by the schema (\<open>TEXT NOT NULL\<close> is a string,
  \<open>INTEGER NOT NULL\<close> an integer), so the type tests of \<open>_public_job\<close> always pass and its
  value tests are the ones modelled; the stored request text is represented by the value it
  decodes to. A statement that raises before its commit leaves the table as it was, so an
  operation returns the new table or an exception. Rows that a query leaves unordered keep
  the order of the table.
\<close>

subsection \<open>Rows\<close>

record job_row =
  job_id :: string
  status :: string
  phase :: string
  pipeline_id :: string
  dataset_id :: string
  request_json :: pyval
  submitted_at :: string
  started_at :: string
  completed_at :: string
  total_cycles :: int
  completed_cycles :: int
  backtest_id :: string
  error_text :: string
  snapshot_hash :: string

type_synonym job_table = "job_row list"

definition active_statuses :: "string list" where
  "active_statuses = [''queued'', ''running'']"

definition terminal_statuses :: "string list" where
  "terminal_statuses = [''completed'', ''failed'']"

abbreviation active :: "job_row \<Rightarrow> bool" where
  "active r \<equiv> status r \<in> set active_statuses"

abbreviation terminal :: "job_row \<Rightarrow> bool" where
  "terminal r \<equiv> status r \<in> set terminal_statuses"

record public_job =
  pub_row :: job_row
  progress :: rat

subsection \<open>Reading\<close>

definition job_progress :: "job_row \<Rightarrow> rat" where
  "job_progress r =
     (if status r = ''completed'' then 1
      else if total_cycles r \<noteq> 0 then of_int (completed_cycles r) / of_int (total_cycles r) else 0)"

definition public_job :: "job_row \<Rightarrow> public_job res" where
  "public_job r =
     bind_r (guard_r (active r \<or> terminal r)
       (ValueError ''Backtest Job index contains an invalid status.'')) (\<lambda>_.
     bind_r (guard_r (\<not> (total_cycles r < 0 \<or> completed_cycles r < 0 \<or>
         total_cycles r > 0 \<and> completed_cycles r > total_cycles r))
       (ValueError ''Backtest Job index contains invalid cycle counts.'')) (\<lambda>_.
     bind_r (guard_r (job_id r \<noteq> [] \<and> pipeline_id r \<noteq> [] \<and> dataset_id r \<noteq> [] \<and> submitted_at r \<noteq> [])
       (ValueError ''Backtest Job index identity and submission time are required.'')) (\<lambda>_.
     bind_r (guard_r (is_sha256_digest (snapshot_hash r))
       (ValueError ''Backtest Job index snapshot hash is invalid.'')) (\<lambda>_.
     bind_r (guard_r (\<not> (status r = ''queued'' \<and> (phase r \<noteq> ''queued'' \<or> started_at r \<noteq> [] \<or>
         completed_at r \<noteq> [] \<or> error_text r \<noteq> [] \<or> total_cycles r \<noteq> 0 \<or> completed_cycles r \<noteq> 0)))
       (ValueError ''Queued Backtest Job index lifecycle state is invalid.'')) (\<lambda>_.
     bind_r (guard_r (\<not> (status r = ''running'' \<and> (started_at r = [] \<or> completed_at r \<noteq> [] \<or> error_text r \<noteq> [])))
       (ValueError ''Running Backtest Job index lifecycle state is invalid.'')) (\<lambda>_.
     bind_r (guard_r (\<not> (status r = ''completed'' \<and> (phase r \<noteq> ''completed'' \<or> started_at r = [] \<or>
         completed_at r = [] \<or> error_text r \<noteq> [] \<or> completed_cycles r \<noteq> total_cycles r)))
       (ValueError ''Completed Backtest Job index lifecycle state is invalid.'')) (\<lambda>_.
     bind_r (guard_r (\<not> (status r = ''failed'' \<and> (phase r \<notin> {''failed'', ''interrupted''} \<or>
         completed_at r = [] \<or> error_text r = [])))
       (ValueError ''Failed Backtest Job index lifecycle state is invalid.'')) (\<lambda>_.
     Inr \<lparr>pub_row = r, progress = job_progress r\<rparr>))))))))"

definition find_job :: "string \<Rightarrow> job_table \<Rightarrow> job_row option" where
  "find_job j db = find (\<lambda>r. job_id r = j) db"

definition get_job :: "string \<Rightarrow> job_table \<Rightarrow> public_job res" where
  "get_job j db =
     (case find_job j db of
        None \<Rightarrow> Inl (ValueError (''Unknown Backtest job: '' @ j))
      | Some r \<Rightarrow> public_job r)"

definition status_rank :: "job_row \<Rightarrow> nat" where
  "status_rank r = (if status r = ''running'' then 0 else if status r = ''queued'' then 1 else 2)"

definition listing_order :: "job_table \<Rightarrow> job_table" where
  "listing_order db = sort_key status_rank (rev (sort_key submitted_at (rev db)))"

definition queued_ids :: "job_table \<Rightarrow> string list" where
  "queued_ids db = map job_id (sort_key submitted_at (filter (\<lambda>r. status r = ''queued'') db))"

text \<open>\<open>positions[job_id]\<close>: later entries overwrite earlier ones.\<close>

definition queue_position :: "job_table \<Rightarrow> job_row \<Rightarrow> nat res" where
  "queue_position db r =
     (if status r = ''queued''
      then (case map_of (rev (zip (queued_ids db) [0..<length (queued_ids db)])) (job_id r) of
              None \<Rightarrow> Inl (KeyError (job_id r)) | Some i \<Rightarrow> Inr (i + 1))
      else Inr 0)"

fun limit_ok :: "pyval \<Rightarrow> bool" where
  "limit_ok (PInt i) \<longleftrightarrow> i \<ge> 0"
| "limit_ok _ \<longleftrightarrow> False"

fun limit_of :: "pyval \<Rightarrow> nat" where
  "limit_of (PInt i) = nat i"
| "limit_of _ = 0"

definition list_jobs :: "pyval \<Rightarrow> job_table \<Rightarrow> (public_job \<times> nat) list res" where
  "list_jobs limit db =
     bind_r (guard_r (limit_ok limit) (ValueError ''Backtest Job limit must be a non-negative integer.'')) (\<lambda>_.
     bind_r (map_r public_job (take (limit_of limit) (listing_order db))) (\<lambda>jobs.
     map_r (\<lambda>job. bind_r (queue_position db (pub_row job)) (\<lambda>pos. Inr (job, pos))) jobs))"

subsection \<open>Evidence\<close>

definition require_request_evidence ::
    "(pyval \<Rightarrow> string) \<Rightarrow> pyval \<Rightarrow> string \<Rightarrow> string \<Rightarrow> pyval \<Rightarrow> pyval res" where
  "require_request_evidence digest request pipeline dataset hash =
     (case (request, field request ''executionSnapshot'') of
        (PDict kvs, PDict snapshot) \<Rightarrow>
          (let mismatch = Inl (ValueError ''Backtest Job index request does not match its execution evidence.'') in
           if field (PDict snapshot) ''snapshotHash'' \<noteq> hash then mismatch
           else
           bind_r (backtest_evidence_digest digest (PDict (AList.delete (KStr ''snapshotHash'') snapshot))) (\<lambda>d.
           if field (PDict snapshot) ''snapshotHash'' \<noteq> PStr d then mismatch
           else case (if has_field request ''pipeline'' then field request ''pipeline'' else PDict []) of
             PDict pipe \<Rightarrow>
               if field (PDict pipe) ''pipelineId'' \<noteq> PStr pipeline \<or> field request ''datasetId'' \<noteq> PStr dataset
               then mismatch
               else
                 bind_r (backtest_execution_inputs (PDict (AList.delete (KStr ''executionSnapshot'') kvs))) (\<lambda>inputs.
                 bind_r (exact_equal (field (PDict snapshot) ''executionInputs'') inputs) (\<lambda>same.
                 if same then Inr request
                 else Inl (ValueError ''Backtest Job execution inputs do not match its snapshot.'')))
           | _ \<Rightarrow> Inl (AttributeError ''get'')))
      | _ \<Rightarrow> Inl (ValueError ''Backtest Job index request has no execution snapshot.''))"

subsection \<open>Writing\<close>

text \<open>\<open>UPDATE ... WHERE\<close> and its \<open>rowcount\<close>\<close>

definition update_where :: "(job_row \<Rightarrow> bool) \<Rightarrow> (job_row \<Rightarrow> job_row) \<Rightarrow> job_table \<Rightarrow> job_table" where
  "update_where P f db = map (\<lambda>r. if P r then f r else r) db"

definition rowcount :: "(job_row \<Rightarrow> bool) \<Rightarrow> job_table \<Rightarrow> nat" where
  "rowcount P db = length (filter P db)"

text \<open>An \<open>INTEGER\<close> parameter is bound as a signed 64-bit value.\<close>

definition bind_integer :: "int \<Rightarrow> unit res" where
  "bind_integer i = guard_r (- (2 ^ 63) \<le> i \<and> i < 2 ^ 63)
     (OverflowError ''Python int too large to convert to SQLite INTEGER'')"

definition queued_row :: "string \<Rightarrow> string \<Rightarrow> string \<Rightarrow> string \<Rightarrow> pyval \<Rightarrow> string \<Rightarrow> string \<Rightarrow> job_row" where
  "queued_row job backtest pipeline dataset request now hash =
     \<lparr>job_id = job, status = ''queued'', phase = ''queued'', pipeline_id = pipeline, dataset_id = dataset,
      request_json = request, submitted_at = now, started_at = [], completed_at = [], total_cycles = 0,
      completed_cycles = 0, backtest_id = backtest, error_text = [], snapshot_hash = hash\<rparr>"

text \<open>\<open>datasets\<close> holds the identifiers the foreign key may refer to.\<close>

definition insert_queued ::
    "(pyval \<Rightarrow> string) \<Rightarrow> string list \<Rightarrow> string \<Rightarrow> string \<Rightarrow> string \<Rightarrow> string \<Rightarrow> pyval \<Rightarrow> string \<Rightarrow> pyval \<Rightarrow>
     job_table \<Rightarrow> job_table res" where
  "insert_queued digest datasets job backtest pipeline dataset request now hash db =
     (if strip backtest = [] then Inl (ValueError ''Backtest Job backtest_id must be a non-empty string.'')
      else
      bind_r (case dumps_admission request of
          Inl (ValueError m) \<Rightarrow> Inl (ValueError ''Backtest Job index request JSON is invalid.'')
        | r \<Rightarrow> r) (\<lambda>_.
      bind_r (require_request_evidence digest request pipeline dataset hash) (\<lambda>_.
      if job \<in> set (map job_id db) then Inl (IntegrityError ''UNIQUE constraint failed: backtest_jobs.job_id'')
      else if dataset \<notin> set datasets then Inl (IntegrityError ''FOREIGN KEY constraint failed'')
      else Inr (db @ [queued_row job backtest pipeline dataset request now (str_of hash)]))))"

text \<open>The rows an \<open>UPDATE\<close> selects and the columns it sets, one pair per statement\<close>

definition selects :: "string \<Rightarrow> string list \<Rightarrow> job_row \<Rightarrow> bool" where
  "selects j statuses r \<longleftrightarrow> job_id r = j \<and> status r \<in> set statuses"

definition started :: "string \<Rightarrow> job_row \<Rightarrow> job_row" where
  "started now r = r\<lparr>status := ''running'', phase := ''preparing'', started_at := now, error_text := []\<rparr>"

definition progressed :: "string \<Rightarrow> int \<Rightarrow> int \<Rightarrow> job_row \<Rightarrow> job_row" where
  "progressed ph cycles_total cycles_done r =
     r\<lparr>phase := ph, total_cycles := cycles_total, completed_cycles := cycles_done\<rparr>"

definition finished_row :: "string \<Rightarrow> int \<Rightarrow> job_row \<Rightarrow> job_row" where
  "finished_row finished cycles r =
     r\<lparr>status := ''completed'', phase := ''completed'', completed_at := finished,
       total_cycles := cycles, completed_cycles := cycles, error_text := []\<rparr>"

definition failed_row :: "string \<Rightarrow> string \<Rightarrow> string \<Rightarrow> job_row \<Rightarrow> job_row" where
  "failed_row ph finished err r =
     r\<lparr>status := ''failed'', phase := ph, completed_at := finished, error_text := err\<rparr>"

definition mark_running :: "string \<Rightarrow> string \<Rightarrow> job_table \<Rightarrow> job_table res" where
  "mark_running j now db =
     (if rowcount (selects j [''queued'']) db \<noteq> 1
      then Inl (RuntimeError ''Backtest Job did not start from queued state.'')
      else Inr (update_where (selects j [''queued'']) (started now) db))"

definition record_progress :: "string \<Rightarrow> string \<Rightarrow> int \<Rightarrow> int \<Rightarrow> job_table \<Rightarrow> job_table res" where
  "record_progress j ph cycles_total cycles_done db =
     bind_r (bind_integer cycles_total) (\<lambda>_.
     bind_r (bind_integer cycles_done) (\<lambda>_.
     if rowcount (selects j [''running'']) db \<noteq> 1
     then Inl (RuntimeError ''Backtest Job progress state changed concurrently.'')
     else Inr (update_where (selects j [''running'']) (progressed ph cycles_total cycles_done) db)))"

definition mark_completed :: "string \<Rightarrow> string \<Rightarrow> int \<Rightarrow> job_table \<Rightarrow> (bool \<times> job_table) res" where
  "mark_completed j finished cycles db =
     (case find_job j db of
        None \<Rightarrow> Inl (ValueError (''Unknown Backtest Job: '' @ j))
      | Some row \<Rightarrow>
          if status row = ''completed'' then Inr (False, db)
          else if status row \<noteq> ''running'' then
            Inl (ValueError (''Backtest Job '' @ quoted j @ '' cannot complete from status '' @ quoted (status row) @ ''.''))
          else
            bind_r (bind_integer cycles) (\<lambda>_.
            if rowcount (selects j [''running'']) db \<noteq> 1
            then Inl (RuntimeError ''Backtest Job completion state changed concurrently.'')
            else Inr (True, update_where (selects j [''running'']) (finished_row finished cycles) db)))"

definition fail_active :: "string \<Rightarrow> string \<Rightarrow> string \<Rightarrow> string \<Rightarrow> job_table \<Rightarrow> bool \<times> job_table" where
  "fail_active j ph finished err db =
     (rowcount (selects j active_statuses) db = 1,
      update_where (selects j active_statuses) (failed_row ph finished (take 4000 err)) db)"

definition active_references :: "job_table \<Rightarrow> (string \<times> string \<times> string) list" where
  "active_references db =
     map (\<lambda>r. (job_id r, backtest_id r, status r))
       (sort_key submitted_at (sort_key job_id (filter (\<lambda>r. active r) db)))"

definition interrupt_active :: "string \<Rightarrow> job_table \<Rightarrow> job_table" where
  "interrupt_active finished db =
     update_where (\<lambda>r. active r)
       (failed_row ''interrupted'' finished ''Engine stopped before this Backtest job completed.'') db"

definition interrupt_queued :: "string \<Rightarrow> job_table \<Rightarrow> job_table" where
  "interrupt_queued finished db =
     update_where (\<lambda>r. status r = ''queued'')
       (failed_row ''interrupted'' finished ''Engine stopped before this Backtest job started.'') db"

definition active_request_for_job ::
    "(pyval \<Rightarrow> string) \<Rightarrow> string \<Rightarrow> string \<Rightarrow> job_table \<Rightarrow> pyval option res" where
  "active_request_for_job digest j backtest db =
     (case find (\<lambda>r. job_id r = j \<and> backtest_id r = backtest \<and> active r) db of
        None \<Rightarrow> Inr None
      | Some r \<Rightarrow>
          bind_r (require_request_evidence digest (request_json r) (pipeline_id r) (dataset_id r) (PStr (snapshot_hash r)))
            (\<lambda>request. Inr (Some request)))"

subsection \<open>The lifecycle and what an update may change\<close>

text \<open>The abstract lifecycle of a job\<close>

datatype lifecycle = Queued | Running | Completed | Failed

fun lifecycle_of :: "string \<Rightarrow> lifecycle" where
  "lifecycle_of st =
     (if st = ''queued'' then Queued else if st = ''running'' then Running
      else if st = ''completed'' then Completed else Failed)"

inductive life_step :: "lifecycle \<Rightarrow> lifecycle \<Rightarrow> bool" where
  start: "life_step Queued Running"
| finish: "life_step Running Completed"
| interrupt: "life_step Queued Failed"
| abort: "life_step Running Failed"

inductive_simps life_step_simps [simp]:
  "life_step Queued x" "life_step Running x" "life_step Completed x" "life_step Failed x"

abbreviation life :: "job_row \<Rightarrow> lifecycle" where
  "life r \<equiv> lifecycle_of (status r)"

text \<open>The columns no statement may change after the insertion\<close>

definition evidence :: "job_row \<Rightarrow> string \<times> string \<times> string \<times> pyval \<times> string \<times> string \<times> string" where
  "evidence r = (job_id r, pipeline_id r, dataset_id r, request_json r, submitted_at r, backtest_id r, snapshot_hash r)"

text \<open>What \<open>_public_job\<close> demands of a row\<close>

definition counts_ok :: "job_row \<Rightarrow> bool" where
  "counts_ok r \<longleftrightarrow> total_cycles r \<ge> 0 \<and> completed_cycles r \<ge> 0 \<and>
     (total_cycles r > 0 \<longrightarrow> completed_cycles r \<le> total_cycles r)"

definition identity_ok :: "job_row \<Rightarrow> bool" where
  "identity_ok r \<longleftrightarrow> job_id r \<noteq> [] \<and> pipeline_id r \<noteq> [] \<and> dataset_id r \<noteq> [] \<and> submitted_at r \<noteq> [] \<and>
     is_sha256_digest (snapshot_hash r)"

definition lifecycle_ok :: "job_row \<Rightarrow> bool" where
  "lifecycle_ok r \<longleftrightarrow> (active r \<or> terminal r) \<and>
     (status r = ''queued'' \<longrightarrow> phase r = ''queued'' \<and> started_at r = [] \<and> completed_at r = [] \<and>
        error_text r = [] \<and> total_cycles r = 0 \<and> completed_cycles r = 0) \<and>
     (status r = ''running'' \<longrightarrow> started_at r \<noteq> [] \<and> completed_at r = [] \<and> error_text r = []) \<and>
     (status r = ''completed'' \<longrightarrow> phase r = ''completed'' \<and> started_at r \<noteq> [] \<and> completed_at r \<noteq> [] \<and>
        error_text r = [] \<and> completed_cycles r = total_cycles r) \<and>
     (status r = ''failed'' \<longrightarrow> phase r \<in> {''failed'', ''interrupted''} \<and> completed_at r \<noteq> [] \<and> error_text r \<noteq> [])"

definition row_ok :: "job_row \<Rightarrow> bool" where
  "row_ok r \<longleftrightarrow> counts_ok r \<and> identity_ok r \<and> lifecycle_ok r"

lemmas row_ok_defs = row_ok_def counts_ok_def identity_ok_def lifecycle_ok_def
lemmas status_defs = active_statuses_def terminal_statuses_def
lemmas update_defs = started_def progressed_def finished_row_def failed_row_def selects_def

text \<open>A row develops: its evidence stays, its state advances, and a terminal row is final.\<close>

definition develops :: "job_row \<Rightarrow> job_row \<Rightarrow> bool" where
  "develops r r' \<longleftrightarrow> evidence r' = evidence r \<and> life_step\<^sup>*\<^sup>* (life r) (life r') \<and> (terminal r \<longrightarrow> r' = r)"

text \<open>A table develops: every row does, in its place, and new rows come after them.\<close>

definition table_develops :: "job_table \<Rightarrow> job_table \<Rightarrow> bool" where
  "table_develops db db' \<longleftrightarrow> length db \<le> length db' \<and> list_all2 develops db (take (length db) db')"

definition table_ok :: "job_table \<Rightarrow> bool" where
  "table_ok db \<longleftrightarrow> distinct (map job_id db) \<and> list_all row_ok db"

lemma public_job_Inr_iff:
  "public_job r = Inr p \<longleftrightarrow> row_ok r \<and> p = \<lparr>pub_row = r, progress = job_progress r\<rparr>"
  unfolding public_job_def bind_r_Inr_iff guard_r_Inr_iff row_ok_defs
  by (auto simp: status_defs)

lemma public_job_ok: "row_ok r \<Longrightarrow> public_job r = Inr \<lparr>pub_row = r, progress = job_progress r\<rparr>"
  by (simp add: public_job_Inr_iff)

lemma job_progress_bounds: "row_ok r \<Longrightarrow> 0 \<le> job_progress r \<and> job_progress r \<le> 1"
  by (auto simp: job_progress_def row_ok_def counts_ok_def divide_le_eq)

lemma evidence_job_id: "evidence r' = evidence r \<Longrightarrow> job_id r' = job_id r"
  by (simp add: evidence_def)

lemma evidence_identity: "evidence r' = evidence r \<Longrightarrow> identity_ok r' = identity_ok r"
  by (simp add: evidence_def identity_ok_def)

lemma develops_refl [simp, intro]: "develops r r"
  by (simp add: develops_def)

lemma develops_trans: "develops r s \<Longrightarrow> develops s t \<Longrightarrow> develops r t"
  by (auto simp: develops_def intro: rtranclp_trans)

lemma develops_job_id: "develops r r' \<Longrightarrow> job_id r' = job_id r"
  by (simp add: develops_def evidence_def)

lemma table_develops_refl [simp, intro]: "table_develops db db"
  by (simp add: table_develops_def list_all2_refl)

lemma table_develops_trans:
  assumes "table_develops a b" and "table_develops b c" shows "table_develops a c"
proof -
  let ?n = "length a"
  have "list_all2 develops (take ?n b) (take ?n (take (length b) c))"
    using assms(2) unfolding table_develops_def by (metis list_all2_takeI)
  then have "list_all2 develops (take ?n b) (take ?n c)"
    using assms by (simp add: table_develops_def min_def)
  with assms show ?thesis
    by (auto simp: table_develops_def intro: list_all2_trans develops_trans)
qed

lemma table_develops_append [simp, intro]: "table_develops db (db @ new)"
  by (simp add: table_develops_def list_all2_refl)

subsection \<open>The contract of an update\<close>

text \<open>An \<open>UPDATE\<close> selects active rows only, sets none of the evidence columns and advances
  the state; with proper arguments it keeps the index valid.\<close>

locale job_update =
  fixes where_clause :: "job_row \<Rightarrow> bool" and set_clause :: "job_row \<Rightarrow> job_row" and args_ok :: bool
  assumes where_active: "where_clause r \<Longrightarrow> active r"
    and set_evidence: "evidence (set_clause r) = evidence r"
    and set_advances: "where_clause r \<Longrightarrow> life_step\<^sup>*\<^sup>* (life r) (life (set_clause r))"
    and set_lifecycle_ok: "args_ok \<Longrightarrow> where_clause r \<Longrightarrow> row_ok r \<Longrightarrow>
      counts_ok (set_clause r) \<and> lifecycle_ok (set_clause r)"
begin

lemma row_develops: "where_clause r \<Longrightarrow> develops r (set_clause r)"
  using where_active[of r] set_evidence[of r] set_advances[of r]
  by (auto simp: develops_def status_defs)

lemma row_stays_ok: "args_ok \<Longrightarrow> where_clause r \<Longrightarrow> row_ok r \<Longrightarrow> row_ok (set_clause r)"
  using set_lifecycle_ok[of r] evidence_identity[OF set_evidence[of r]] by (auto simp: row_ok_def)

lemma update_develops: "table_develops db (update_where where_clause set_clause db)"
  by (auto simp: table_develops_def update_where_def list_all2_conv_all_nth intro: row_develops)

lemma update_ids: "map job_id (update_where where_clause set_clause db) = map job_id db"
  by (auto simp: update_where_def intro: evidence_job_id[OF set_evidence])

lemma update_table_ok: "args_ok \<Longrightarrow> table_ok db \<Longrightarrow> table_ok (update_where where_clause set_clause db)"
  unfolding table_ok_def update_ids by (auto simp: update_where_def list_all_iff row_stays_ok)

end

interpretation start: job_update "selects j [''queued'']" "started now" "now \<noteq> []"
  by unfold_locales (auto simp: update_defs evidence_def row_ok_defs status_defs)

interpretation report: job_update "selects j [''running'']" "progressed ph t c"
    "t \<ge> 0 \<and> c \<ge> 0 \<and> (t > 0 \<longrightarrow> c \<le> t)"
  by unfold_locales (auto simp: update_defs evidence_def row_ok_defs status_defs)

interpretation complete: job_update "selects j [''running'']" "finished_row now c" "now \<noteq> [] \<and> c \<ge> 0"
  by unfold_locales (auto simp: update_defs evidence_def row_ok_defs status_defs)

abbreviation failure_args :: "string \<Rightarrow> string \<Rightarrow> string \<Rightarrow> bool" where
  "failure_args ph now err \<equiv> now \<noteq> [] \<and> ph \<in> {''failed'', ''interrupted''} \<and> err \<noteq> []"

interpretation fail: job_update "selects j active_statuses" "failed_row ph now err" "failure_args ph now err"
  by unfold_locales (auto simp: update_defs evidence_def row_ok_defs status_defs)

interpretation stop_active: job_update active "failed_row ph now err" "failure_args ph now err"
  by unfold_locales (auto simp: update_defs evidence_def row_ok_defs status_defs)

interpretation stop_queued: job_update "\<lambda>r. status r = ''queued''" "failed_row ph now err" "failure_args ph now err"
  by unfold_locales (auto simp: update_defs evidence_def row_ok_defs status_defs)

subsection \<open>Every operation of the repository\<close>

lemma find_job_Some: "find_job j db = Some r \<Longrightarrow> r \<in> set db \<and> job_id r = j"
  by (auto simp: find_job_def find_Some_iff)

lemma find_job_None: "find_job j db = None \<longleftrightarrow> j \<notin> set (map job_id db)"
  by (auto simp: find_job_def find_None_iff)

lemma find_job_distinct:
  assumes "distinct (map job_id db)" and "r \<in> set db" shows "find_job (job_id r) db = Some r"
proof (cases "find_job (job_id r) db")
  case None
  with assms(2) show ?thesis by (simp add: find_job_None)
next
  case (Some r')
  with find_job_Some[OF Some] assms show ?thesis by (auto simp: distinct_map inj_on_def)
qed

lemma get_job_Inr_iff:
  "get_job j db = Inr p \<longleftrightarrow>
     (\<exists>r. find_job j db = Some r \<and> row_ok r \<and> p = \<lparr>pub_row = r, progress = job_progress r\<rparr>)"
  by (auto simp: get_job_def public_job_Inr_iff split: option.splits)

lemma rowcount_selects:
  assumes "distinct (map job_id db)"
  shows "rowcount (selects j sts) db = (case find_job j db of None \<Rightarrow> 0 | Some r \<Rightarrow> if status r \<in> set sts then 1 else 0)"
  using assms
proof (induction db)
  case (Cons a db)
  have "filter (selects j sts) db = []" if "job_id a = j"
    using Cons.prems that by (auto simp: filter_empty_conv selects_def) (metis image_eqI)
  moreover have "selects j sts a \<longleftrightarrow> job_id a = j \<and> status a \<in> set sts" by (simp add: selects_def)
  ultimately show ?case
    using Cons by (cases "job_id a = j") (simp_all add: rowcount_def find_job_def)
qed (simp add: rowcount_def find_job_def)

lemma find_job_update:
  assumes "\<And>r. job_id (f r) = job_id r"
  shows "find_job j (update_where P f db) = map_option (\<lambda>r. if P r then f r else r) (find_job j db)"
  unfolding find_job_def update_where_def by (induction db) (auto simp: assms)

lemma update_job_ids [simp]:
  "job_id (started now r) = job_id r" "job_id (progressed ph t c r) = job_id r"
  "job_id (finished_row now c r) = job_id r" "job_id (failed_row ph now err r) = job_id r"
  by (simp_all add: update_defs)

lemma mark_running_Inr_iff:
  assumes "distinct (map job_id db)"
  shows "mark_running j now db = Inr db' \<longleftrightarrow>
     (\<exists>r. find_job j db = Some r \<and> status r = ''queued'') \<and>
     db' = update_where (selects j [''queued'']) (started now) db"
  using assms by (auto simp: mark_running_def rowcount_selects split: option.splits if_splits)

lemma record_progress_InrD:
  "record_progress j ph t c db = Inr db' \<Longrightarrow> db' = update_where (selects j [''running'']) (progressed ph t c) db"
  by (auto simp: record_progress_def bind_r_Inr_iff split: if_splits)

lemma mark_completed_InrD:
  "mark_completed j now c db = Inr (b, db') \<Longrightarrow>
     db' = (if b then update_where (selects j [''running'']) (finished_row now c) db else db)"
  by (auto simp: mark_completed_def bind_r_Inr_iff split: option.splits if_splits)

lemma mark_completed_running:
  assumes "distinct (map job_id db)" and "find_job j db = Some r" and "status r = ''running''"
    and "0 \<le> c" and "c < 2 ^ 63"
  shows "mark_completed j now c db = Inr (True, update_where (selects j [''running'']) (finished_row now c) db)"
  using assms by (simp add: mark_completed_def rowcount_selects bind_integer_def)

lemma insert_queued_InrD:
  assumes "insert_queued digest datasets job backtest pipeline dataset request now hash db = Inr db'"
  shows "db' = db @ [queued_row job backtest pipeline dataset request now (str_of hash)]"
    and "job \<notin> set (map job_id db)" and "dataset \<in> set datasets"
    and "require_request_evidence digest request pipeline dataset hash = Inr request"
proof -
  have "require_request_evidence digest request pipeline dataset hash = Inr x \<Longrightarrow> x = request" for x
    by (auto simp: require_request_evidence_def bind_r_Inr_iff Let_def split: pyval.splits if_splits)
  with assms show "db' = db @ [queued_row job backtest pipeline dataset request now (str_of hash)]"
    "job \<notin> set (map job_id db)" "dataset \<in> set datasets"
    "require_request_evidence digest request pipeline dataset hash = Inr request"
    by (auto simp: insert_queued_def bind_r_Inr_iff split: if_splits)
qed

text \<open>The evidence check ties the hash column to the digest of the snapshot.\<close>

lemma require_request_evidence_hash:
  assumes "require_request_evidence digest request pipeline dataset hash = Inr r"
  shows "\<exists>payload. hash = PStr (''sha256:'' @ digest payload)"
  using assms
  by (auto simp: require_request_evidence_def bind_r_Inr_iff Let_def backtest_evidence_digest_def
      split: pyval.splits if_splits)

lemma queued_row_ok:
  assumes "job \<noteq> []" "pipeline \<noteq> []" "dataset \<noteq> []" "now \<noteq> []" "is_sha256_digest hash"
  shows "row_ok (queued_row job backtest pipeline dataset request now hash)"
  using assms by (simp add: queued_row_def row_ok_defs status_defs)

lemma table_ok_append:
  "table_ok db \<Longrightarrow> row_ok r \<Longrightarrow> job_id r \<notin> set (map job_id db) \<Longrightarrow> table_ok (db @ [r])"
  by (simp add: table_ok_def)

lemma get_job_table_ok:
  assumes "table_ok db" and "r \<in> set db"
  shows "get_job (job_id r) db = Inr \<lparr>pub_row = r, progress = job_progress r\<rparr>"
proof -
  have "find_job (job_id r) db = Some r" using assms by (simp add: table_ok_def find_job_distinct)
  with assms show ?thesis by (auto simp: get_job_Inr_iff table_ok_def list_all_iff)
qed

subsection \<open>The order of a listing\<close>

text \<open>Sorting is stable: elements of equal key keep their order.\<close>

lemma insort_key_lex:
  assumes "sorted_wrt (\<lambda>a b. f a < f b \<or> f a = f b \<and> R a b) ys" and "\<forall>y \<in> set ys. R x y"
  shows "sorted_wrt (\<lambda>a b. f a < f b \<or> f a = f b \<and> R a b) (insort_key (f :: 'a \<Rightarrow> 'b::linorder) x ys)"
  using assms by (induction ys) (auto simp: set_insort_key)

lemma sort_key_lex:
  "sorted_wrt R xs \<Longrightarrow> sorted_wrt (\<lambda>a b. f a < f b \<or> f a = f b \<and> R a b) (sort_key (f :: 'a \<Rightarrow> 'b::linorder) xs)"
proof (induction xs)
  case (Cons x xs)
  then show ?case using insort_key_lex[of f R "sort_key f xs" x] by simp
qed simp

definition listed_before :: "job_row \<Rightarrow> job_row \<Rightarrow> bool" where
  "listed_before a b \<longleftrightarrow> status_rank a < status_rank b \<or>
     status_rank a = status_rank b \<and> submitted_at b \<le> submitted_at a"

lemma listing_order_sorted: "sorted_wrt listed_before (listing_order db)"
proof -
  have "sorted_wrt (\<lambda>a b. submitted_at b \<le> submitted_at a) (rev (sort_key submitted_at (rev db)))"
    using sorted_sort_key[of submitted_at "rev db"] by (simp add: sorted_wrt_rev sorted_map)
  from sort_key_lex[OF this, of status_rank] show ?thesis
    by (simp add: listing_order_def listed_before_def[abs_def])
qed

lemma listing_order_mset: "mset (listing_order db) = mset db"
  by (simp add: listing_order_def)

lemma set_listing_order [simp]: "set (listing_order db) = set db"
  using arg_cong[OF listing_order_mset, of set_mset] by simp

lemma map_of_rev_index:
  assumes "distinct xs" and "i < length xs"
  shows "map_of (rev (zip xs [0..<length xs])) (xs ! i) = Some i"
proof -
  have "distinct (map fst (rev (zip xs [0..<length xs])))"
    using assms(1) by (simp add: rev_map[symmetric])
  moreover have "(xs ! i, i) \<in> set (rev (zip xs [0..<length xs]))"
    using assms(2) by (auto simp: in_set_zip)
  ultimately show ?thesis by (rule map_of_is_SomeI)
qed

abbreviation queued_rows :: "job_table \<Rightarrow> job_table" where
  "queued_rows db \<equiv> sort_key submitted_at (filter (\<lambda>r. status r = ''queued'') db)"

lemma distinct_queued_ids: "distinct (map job_id db) \<Longrightarrow> distinct (queued_ids db)"
  by (auto simp: queued_ids_def distinct_map inj_on_def)

lemma queue_position_nth:
  assumes "distinct (map job_id db)" and "i < length (queued_rows db)"
  shows "queue_position db (queued_rows db ! i) = Inr (Suc i)"
proof -
  have "queued_rows db ! i \<in> set (queued_rows db)" using assms(2) by (rule nth_mem)
  then have "status (queued_rows db ! i) = ''queued''" by simp
  with map_of_rev_index[OF distinct_queued_ids[OF assms(1)], of i] assms(2) show ?thesis
    by (simp add: queue_position_def queued_ids_def)
qed

subsection \<open>Properties\<close>

text \<open>Progress is a fraction: whatever the index holds, a job that \<open>get\<close> returns reports a
  progress between 0 and 1, exactly 1 when it is completed and 0 as long as it is queued.\<close>

theorem get_job_progress_bounds:
  assumes "get_job j db = Inr p"
  shows "0 \<le> progress p \<and> progress p \<le> 1 \<and>
    (status (pub_row p) = ''completed'' \<longrightarrow> progress p = 1) \<and>
    (status (pub_row p) = ''queued'' \<longrightarrow> progress p = 0)"
proof -
  from assms obtain r where r: "row_ok r" "p = \<lparr>pub_row = r, progress = job_progress r\<rparr>"
    by (auto simp: get_job_Inr_iff)
  then have "status r = ''queued'' \<longrightarrow> job_progress r = 0"
    by (auto simp: row_ok_def lifecycle_ok_def job_progress_def)
  with r job_progress_bounds[OF r(1)] show ?thesis by (auto simp: job_progress_def)
qed

definition example_hash :: string where
  "example_hash = ''sha256:'' @ replicate 64 CHR ''a''"

definition example_job :: "string \<Rightarrow> string \<Rightarrow> job_row" where
  "example_job j now = queued_row j ''b'' ''p'' ''d'' PNone now example_hash"

lemma example_hash_ok [simp]: "is_sha256_digest example_hash"
  by code_simp

lemma example_job_ok [simp]: "j \<noteq> [] \<Longrightarrow> now \<noteq> [] \<Longrightarrow> row_ok (example_job j now)"
  by (simp add: example_job_def queued_row_ok)

theorem get_job_progress_bounds_witness:
  "\<exists>p. get_job ''j'' [progressed ''run'' 4 1 (started ''t'' (example_job ''j'' ''t''))] = Inr p \<and> 0 \<le> progress p \<and> progress p \<le> 1"
proof -
  let ?r = "progressed ''run'' 4 1 (started ''t'' (example_job ''j'' ''t''))"
  have "row_ok ?r"
    by (simp add: row_ok_defs update_defs example_job_def queued_row_def status_defs)
  then have "get_job ''j'' [?r] = Inr \<lparr>pub_row = ?r, progress = job_progress ?r\<rparr>"
    by (simp add: get_job_def find_job_def public_job_ok example_job_def queued_row_def)
  from get_job_progress_bounds[OF this] this show ?thesis by blast
qed

definition position_ok :: "job_table \<Rightarrow> job_row \<Rightarrow> nat \<Rightarrow> bool" where
  "position_ok db r pos \<longleftrightarrow>
     (if status r = ''queued''
      then 1 \<le> pos \<and> pos \<le> length (queued_rows db) \<and> queued_rows db ! (pos - 1) = r else pos = 0)"

lemma list_jobs_spec:
  assumes "table_ok db" and "0 \<le> n"
  shows "\<exists>out rows. list_jobs (PInt n) db = Inr out \<and>
     mset rows = mset db \<and> sorted_wrt listed_before rows \<and>
     map (pub_row \<circ> fst) out = take (nat n) rows \<and>
     (\<forall>(p, pos) \<in> set out. position_ok db (pub_row p) pos)"
proof -
  let ?rows = "take (nat n) (listing_order db)"
  let ?pub = "\<lambda>r. \<lparr>pub_row = r, progress = job_progress r\<rparr>"
  have mem: "r \<in> set db" if "r \<in> set ?rows" for r
    using in_set_takeD[OF that] by simp
  have "map_r public_job ?rows = Inr (map ?pub ?rows)"
    by (rule map_r_all_Inr) (use assms(1) mem in \<open>auto simp: table_ok_def list_all_iff public_job_ok\<close>)
  moreover have pos: "\<exists>pos. queue_position db r = Inr pos \<and> position_ok db r pos" if "r \<in> set db" for r
  proof (cases "status r = ''queued''")
    case True
    with that have "r \<in> set (queued_rows db)" by simp
    then obtain i where "i < length (queued_rows db)" "queued_rows db ! i = r"
      unfolding in_set_conv_nth by blast
    with queue_position_nth[of db i] assms(1) True show ?thesis
      by (intro exI[of _ "Suc i"]) (simp add: table_ok_def position_ok_def)
  qed (simp add: queue_position_def position_ok_def)
  define at_pos where "at_pos p = projr (queue_position db (pub_row p))" for p :: public_job
  have "map_r (\<lambda>p. bind_r (queue_position db (pub_row p)) (\<lambda>pos. Inr (p, pos))) (map ?pub ?rows)
      = Inr (map (\<lambda>p. (p, at_pos p)) (map ?pub ?rows))"
  proof (rule map_r_all_Inr)
    fix p assume "p \<in> set (map ?pub ?rows)"
    then have "pub_row p \<in> set db" using mem by auto
    with pos show "bind_r (queue_position db (pub_row p)) (\<lambda>pos. Inr (p, pos)) = Inr (p, at_pos p)"
      by (fastforce simp: at_pos_def)
  qed
  ultimately have "list_jobs (PInt n) db = Inr (map (\<lambda>p. (p, at_pos p)) (map ?pub ?rows))"
    using assms(2) by (simp add: list_jobs_def)
  moreover have "\<forall>r \<in> set ?rows. position_ok db r (at_pos (?pub r))"
    using pos mem by (fastforce simp: at_pos_def)
  ultimately show ?thesis
    by (intro exI[of _ "map (\<lambda>p. (p, at_pos p)) (map ?pub ?rows)"] exI[of _ "listing_order db"])
      (auto simp: listing_order_mset listing_order_sorted comp_def)
qed

text \<open>Listing: over a valid index \<open>list(limit)\<close> returns, for every non-negative limit, the
  first rows of the index ordered by running, queued, finished and newest submission first;
  a queued job's position is its rank by submission among all queued jobs, and any other
  job has position 0.\<close>

theorem list_jobs_correct:
  assumes "table_ok db" and "0 \<le> n"
  shows "\<exists>out rows. list_jobs (PInt n) db = Inr out \<and>
     mset rows = mset db \<and> sorted_wrt listed_before rows \<and>
     map (pub_row \<circ> fst) out = take (nat n) rows \<and>
     (\<forall>(p, pos) \<in> set out. position_ok db (pub_row p) pos)"
  using assms by (rule list_jobs_spec)

theorem list_jobs_correct_witness:
  "\<exists>out. list_jobs (PInt 1) [example_job ''a'' ''1'', example_job ''b'' ''2''] = Inr out \<and> length out = 1"
proof -
  let ?db = "[example_job ''a'' ''1'', example_job ''b'' ''2'']"
  have "table_ok ?db" by (simp add: table_ok_def) (simp add: example_job_def queued_row_def)
  from list_jobs_correct[OF this zero_le_one] obtain out rows
    where out: "list_jobs (PInt 1) ?db = Inr out" and rows: "mset rows = mset ?db"
      and listed: "map (pub_row \<circ> fst) out = take (nat 1) rows"
    by (elim exE conjE) (rule that)
  have "length rows = 2" using mset_eq_length[OF rows] by simp
  with arg_cong[OF listed, of length] out show ?thesis by (intro exI[of _ out]) simp
qed

end
