(* ===== verification/Job_Manager.thy ===== *)
theory Job_Manager
  imports Job_Repository Effects
begin

section \<open>The orchestration of Backtest jobs\<close>

text \<open>
  Models \<open>engine/jobs/manager.py\<close>. A manager is the job index, the state of the systems
  around it (\<open>world\<close>), the stop flag, the retained execution roots, the executor (pending
  and running tasks) and the events delivered. The services of \<open>BacktestJobServices\<close> and
  the platform (clock, identifiers, process supervisor, file system, the \<open>backtests\<close>
  table written by the Result repository) are records of functions on the world, so every
  theorem holds for any of them. \<open>_execute\<close> runs on a worker thread while a launcher that
  is not part of the manager drives the Backtest; it is cut at the launcher's calls into
  \<open>execute_begin\<close>, \<open>execute_progress\<close>, \<open>execute_return\<close> and \<open>execute_raise\<close>, and
  the step relation interleaves those parts of all tasks with the other operations. Each
  repository statement is one transaction; the parts between two launcher calls run as one
  step.
\<close>

subsection \<open>Python equality and subscription\<close>

definition float_value :: "float64 \<Rightarrow> rat" where
  "float_value f =
     (let e = unat (float_exponent f); m = of_nat (unat (take_bit 52 f)) :: rat;
          scaled = (if e = 0 then m / 2 ^ 1074
                    else if e \<ge> 1075 then (2 ^ 52 + m) * 2 ^ (e - 1075) else (2 ^ 52 + m) / 2 ^ (1075 - e))
      in if bit f 63 then - scaled else scaled)"

fun number_value :: "pyval \<Rightarrow> rat option" where
  "number_value (PBool b) = Some (of_bool b)"
| "number_value (PInt i) = Some (of_int i)"
| "number_value (PFloat f) = (if float_isfinite f then Some (float_value f) else None)"
| "number_value _ = None"

function (sequential) py_equal :: "pyval \<Rightarrow> pyval \<Rightarrow> bool" where
  "py_equal (PDict a) (PDict b) =
     (set (keys_of a) = set (keys_of b) \<and>
      list_all (\<lambda>(k, v). case map_of b k of None \<Rightarrow> False | Some w \<Rightarrow> py_equal v w) a)"
| "py_equal (PList xs) (PList ys) =
     (length xs = length ys \<and> list_all (\<lambda>(x, y). py_equal x y) (zip xs ys))"
| "py_equal (PFloat f) (PFloat g) = float_eq f g"
| "py_equal v w = (v = w \<or> number_value v \<noteq> None \<and> number_value v = number_value w)"
  by pat_completeness auto
termination
  by (relation "measure (\<lambda>(v, w). size v)")
    (auto simp del: pyval.size dest: set_zip_leftD intro: size_dict_item size_list_item)

definition subscript :: "pyval \<Rightarrow> string \<Rightarrow> pyval res" where
  "subscript v name =
     (case v of
        PDict kvs \<Rightarrow> (case map_of kvs (KStr name) of None \<Rightarrow> Inl (KeyError name) | Some x \<Rightarrow> Inr x)
      | _ \<Rightarrow> Inl (TypeError ''object is not subscriptable''))"

text \<open>\<open>str(exc) or exc.__class__.__name__\<close>\<close>

fun class_and_message :: "py_error \<Rightarrow> string \<times> string" where
  "class_and_message (ValueError m) = (''ValueError'', m)"
| "class_and_message (TypeError m) = (''TypeError'', m)"
| "class_and_message (AttributeError m) = (''AttributeError'', m)"
| "class_and_message (RuntimeError m) = (''RuntimeError'', m)"
| "class_and_message (IndexError m) = (''IndexError'', m)"
| "class_and_message (KeyError m) = (''KeyError'', quoted m)"
| "class_and_message (IntegrityError m) = (''IntegrityError'', m)"
| "class_and_message (OverflowError m) = (''OverflowError'', m)"
| "class_and_message (OtherError c cs m) = (c # cs, m)"

definition error_message :: "py_error \<Rightarrow> string" where
  "error_message e = (let (c, m) = class_and_message e in if m \<noteq> [] then m else c)"

subsection \<open>Services, platform and state\<close>

record 'w services =
  freeze_request :: "pyval \<Rightarrow> ('w, pyval) act"
  reconcile_result_staging :: "('w, unit) act"
  recover_result_catalog :: "string \<Rightarrow> pyval \<Rightarrow> ('w, pyval option) act"
  validate_result_archive :: "string \<Rightarrow> ('w, pyval) act"
  consume_prepared_request :: "(string \<Rightarrow> pyval \<Rightarrow> string \<Rightarrow> ('w, pyval) act) option"
  validate_frozen_admission :: "(pyval \<Rightarrow> ('w, pyval) act) option"

text \<open>A row of the table \<open>backtests\<close>; the metrics text is the value it decodes to, if any.\<close>

record catalog_row =
  cat_status :: string
  cat_completed_at :: string
  cat_metrics :: "pyval option"

record 'w platform =
  digest_of :: "pyval \<Rightarrow> string"
  dataset_ids :: "'w \<Rightarrow> string list"
  result_catalog_row :: "string \<Rightarrow> 'w \<Rightarrow> catalog_row option"
  utc_now :: "'w \<Rightarrow> string \<times> 'w"
  new_resource_id :: "string \<Rightarrow> 'w \<Rightarrow> string \<times> 'w"
  runtime_process_authority :: "string \<Rightarrow> 'w \<Rightarrow> bool"
  shutdown_backtest_runtimes :: "('w, unit) act"
  make_execution_root :: "string \<Rightarrow> ('w, unit) act"
  remove_execution_root :: "string \<Rightarrow> 'w \<Rightarrow> 'w"
  has_event_callback :: bool

record job_task =
  task_job :: string
  task_backtest :: string
  task_request :: pyval

text \<open>The dictionary \<open>last_write\<close> of a running task\<close>

record last_write =
  written_at :: rat
  written_completed :: int
  written_phase :: string

record 'w manager =
  jobs :: job_table
  world :: 'w
  stopping :: bool
  retained_execution_roots :: "(string \<times> string) list"
  executor_open :: bool
  pending_tasks :: "job_task list"
  running_tasks :: "(job_task \<times> last_write) list"
  events :: "(string \<times> public_job) list"

type_synonym ('w, 'a) mact = "('w manager, 'a) act"

subsection \<open>Access to the index and the world\<close>

definition world_s :: "('w, 'a) act \<Rightarrow> ('w, 'a) mact" where
  "world_s m s = (case m (world s) of (r, w) \<Rightarrow> (r, s\<lparr>world := w\<rparr>))"

definition sample_s :: "('w \<Rightarrow> 'a \<times> 'w) \<Rightarrow> ('w, 'a) mact" where
  "sample_s f = world_s (\<lambda>w. case f w of (x, w') \<Rightarrow> (Inr x, w'))"

definition query_s :: "(job_table \<Rightarrow> 'a res) \<Rightarrow> ('w, 'a) mact" where
  "query_s q s = (q (jobs s), s)"

definition commit_s :: "(job_table \<Rightarrow> ('a \<times> job_table) res) \<Rightarrow> ('w, 'a) mact" where
  "commit_s u s = (case u (jobs s) of Inl e \<Rightarrow> (Inl e, s) | Inr (x, db) \<Rightarrow> (Inr x, s\<lparr>jobs := db\<rparr>))"

definition no_result :: "job_table res \<Rightarrow> (unit \<times> job_table) res" where
  "no_result r = bind_r r (\<lambda>db. Inr ((), db))"

definition emit :: "'w platform \<Rightarrow> string \<Rightarrow> public_job \<Rightarrow> ('w, unit) mact" where
  "emit pf ev job = modify_s (\<lambda>s. if has_event_callback pf then s\<lparr>events := events s @ [(ev, job)]\<rparr> else s)"

definition emit_job :: "'w platform \<Rightarrow> string \<Rightarrow> string \<Rightarrow> ('w, unit) mact" where
  "emit_job pf ev j = bind_s (query_s (get_job j)) (emit pf ev)"

subsection \<open>Completion evidence\<close>

fun natural_count :: "pyval \<Rightarrow> int option" where
  "natural_count (PInt i) = (if i < 0 then None else Some i)"
| "natural_count _ = None"

definition catalog_evidence :: "catalog_row \<Rightarrow> pyval \<Rightarrow> (string \<times> int) res" where
  "catalog_evidence row validation =
     (case cat_metrics row of
        Some (PDict metrics) \<Rightarrow>
          bind_r (bind_r (subscript validation ''metrics'') (\<lambda>v. subscript v ''cycleCount'')) (\<lambda>cycle_count.
          bind_r (guard_r (py_equal (field (PDict metrics) ''cycleCount'') cycle_count)
            (ValueError ''Recovered Backtest metrics do not match its sealed Result.'')) (\<lambda>_.
          case natural_count cycle_count of
            None \<Rightarrow> Inl (ValueError ''Recovered Backtest cycleCount is invalid.'')
          | Some n \<Rightarrow> Inr (cat_completed_at row, n)))
      | _ \<Rightarrow> Inl (ValueError ''Recovered Backtest metrics are invalid.''))"

definition catalog_final :: "catalog_row \<Rightarrow> bool" where
  "catalog_final row \<longleftrightarrow> cat_status row \<in> {''completed'', ''archived''} \<and> cat_completed_at row \<noteq> []"

definition completed_evidence ::
    "'w services \<Rightarrow> 'w platform \<Rightarrow> string \<Rightarrow> string \<Rightarrow> ('w, (string \<times> int) option) mact" where
  "completed_evidence sv pf j b =
     bind_s (query_s (active_request_for_job (digest_of pf) j b)) (\<lambda>expected.
     case expected of
       None \<Rightarrow> ret_s None
     | Some request \<Rightarrow>
         bind_s (gets_s (\<lambda>s. result_catalog_row pf b (world s))) (\<lambda>found.
         bind_s (world_s (recover_result_catalog sv b request)) (\<lambda>recovered.
         case found of
           Some row \<Rightarrow>
             bind_s (guard_s (catalog_final row) (ValueError ''Recovered Backtest catalog state is invalid.'')) (\<lambda>_.
             bind_s (world_s (validate_result_archive sv b)) (\<lambda>validation.
             bind_s (lift_s (catalog_evidence row validation)) (\<lambda>e. ret_s (Some e))))
         | None \<Rightarrow>
             (case recovered of
                None \<Rightarrow> ret_s None
              | Some result \<Rightarrow>
                  bind_s (gets_s (\<lambda>s. result_catalog_row pf b (world s))) (\<lambda>row.
                  case row of
                    None \<Rightarrow> raise_s (RuntimeError ''Recovered Backtest Result has no catalog row.'')
                  | Some row \<Rightarrow>
                      bind_s (guard_s (catalog_final row) (ValueError ''Recovered Backtest catalog state is invalid.'')) (\<lambda>_.
                      bind_s (lift_s (subscript result ''metrics'')) (\<lambda>metrics.
                      bind_s (lift_s (catalog_evidence row (PDict [(KStr ''metrics'', metrics)]))) (\<lambda>e.
                      ret_s (Some e)))))))))"

text \<open>\<open>self.repository.mark_completed(job_id, *evidence)\<close> followed by its event\<close>

definition complete_job :: "'w platform \<Rightarrow> string \<Rightarrow> string \<times> int \<Rightarrow> ('w, unit) mact" where
  "complete_job pf j = (\<lambda>(finished, cycles).
     bind_s (commit_s (mark_completed j finished cycles)) (\<lambda>_. emit_job pf ''backtest.job.completed'' j))"

definition fail_job :: "'w platform \<Rightarrow> string \<Rightarrow> string \<Rightarrow> string \<Rightarrow> ('w, bool) mact" where
  "fail_job pf j err ph =
     bind_s (sample_s (utc_now pf)) (\<lambda>now.
     bind_s (commit_s (\<lambda>db. Inr (fail_active j ph now err db))) (\<lambda>changed.
     if changed then bind_s (emit_job pf ''backtest.job.failed'' j) (\<lambda>_. ret_s True) else ret_s False))"

subsection \<open>Construction\<close>

definition select_max_workers :: "pyval option \<Rightarrow> pyval \<Rightarrow> nat res" where
  "select_max_workers max_workers config =
     (let selected = (case max_workers of
          Some v \<Rightarrow> v
        | None \<Rightarrow> if has_field config ''backtestMaxWorkers'' then field config ''backtestMaxWorkers'' else PInt 2)
      in if positive_int selected then Inr (case selected of PInt i \<Rightarrow> nat i | _ \<Rightarrow> 0)
         else Inl (ValueError ''Backtest max workers must be a positive integer.''))"

definition fail_interrupted_jobs :: "'w services \<Rightarrow> 'w platform \<Rightarrow> ('w, unit) mact" where
  "fail_interrupted_jobs sv pf =
     bind_s (query_s (\<lambda>db. Inr (active_references db))) (\<lambda>refs.
     bind_s (map_s (\<lambda>(j, b, st).
         if st \<noteq> ''running'' then ret_s []
         else bind_s (completed_evidence sv pf j b) (\<lambda>found.
           ret_s (case found of None \<Rightarrow> [] | Some e \<Rightarrow> [(j, e)]))) refs) (\<lambda>completed.
     bind_s (iter_s (\<lambda>(j, finished, cycles).
         bind_s (commit_s (mark_completed j finished cycles)) (\<lambda>_. ret_s ())) (concat completed)) (\<lambda>_.
     bind_s (sample_s (utc_now pf)) (\<lambda>now.
     commit_s (\<lambda>db. Inr ((), interrupt_active now db))))))"

text \<open>The state a new process finds: the index and the world it shares, nothing else.\<close>

definition boot :: "job_table \<Rightarrow> 'w \<Rightarrow> 'w manager" where
  "boot db w = \<lparr>jobs = db, world = w, stopping = False, retained_execution_roots = [],
     executor_open = True, pending_tasks = [], running_tasks = [], events = []\<rparr>"

definition init_manager :: "'w services \<Rightarrow> 'w platform \<Rightarrow> ('w, unit) mact" where
  "init_manager sv pf =
     bind_s (world_s (reconcile_result_staging sv)) (\<lambda>_. fail_interrupted_jobs sv pf)"

subsection \<open>Submission\<close>

text \<open>\<open>Direct\<close>: no token was passed; \<open>Prepared\<close>: a token and a session identity.\<close>

datatype submission = Direct | Prepared pyval pyval

fun nonempty_str :: "pyval \<Rightarrow> bool" where
  "nonempty_str (PStr s) \<longleftrightarrow> s \<noteq> []"
| "nonempty_str _ \<longleftrightarrow> False"

definition is_object :: "pyval \<Rightarrow> bool" where
  "is_object v = (case v of PDict _ \<Rightarrow> True | _ \<Rightarrow> False)"

definition admit_request :: "'w services \<Rightarrow> submission \<Rightarrow> pyval \<Rightarrow> ('w, pyval) mact" where
  "admit_request sv mode request =
     (case mode of
        Direct \<Rightarrow> world_s (freeze_request sv request)
      | Prepared token session \<Rightarrow>
          bind_s (guard_s (nonempty_str token)
            (ValueError ''Prepared Backtest submission token must be a non-empty string.'')) (\<lambda>_.
          bind_s (guard_s (nonempty_str session)
            (ValueError ''Prepared Backtest submission session identity is required.'')) (\<lambda>_.
          case consume_prepared_request sv of
            None \<Rightarrow> raise_s (RuntimeError ''Prepared Backtest submissions are not configured.'')
          | Some consume \<Rightarrow>
              (case validate_frozen_admission sv of
                 None \<Rightarrow> raise_s (RuntimeError ''Prepared Backtest admission validation is not configured.'')
               | Some admit \<Rightarrow>
                   bind_s (world_s (consume (str_of token) request (str_of session))) (\<lambda>frozen.
                   world_s (admit frozen))))))"

definition executor_submit :: "job_task \<Rightarrow> ('w, unit) mact" where
  "executor_submit task =
     bind_s (gets_s executor_open) (\<lambda>is_open.
     if is_open then modify_s (\<lambda>s. s\<lparr>pending_tasks := pending_tasks s @ [task]\<rparr>)
     else raise_s (RuntimeError ''cannot schedule new futures after shutdown''))"

definition queue_job ::
    "'w platform \<Rightarrow> string \<Rightarrow> string \<Rightarrow> string \<Rightarrow> string \<Rightarrow> pyval \<Rightarrow> ('w, unit) mact" where
  "queue_job pf job backtest pipeline dataset request =
     bind_s (sample_s (utc_now pf)) (\<lambda>now.
     bind_s (lift_s (bind_r (subscript request ''executionSnapshot'') (\<lambda>v. subscript v ''snapshotHash''))) (\<lambda>hash.
     bind_s (gets_s (\<lambda>s. dataset_ids pf (world s))) (\<lambda>datasets.
     commit_s (\<lambda>db. no_result
       (insert_queued (digest_of pf) datasets job backtest pipeline dataset request now hash db)))))"

definition submit :: "'w services \<Rightarrow> 'w platform \<Rightarrow> submission \<Rightarrow> pyval \<Rightarrow> ('w, public_job) mact" where
  "submit sv pf mode raw =
     bind_s (gets_s stopping) (\<lambda>stop.
     bind_s (guard_s (\<not> stop) (RuntimeError ''Backtest job service is stopping.'')) (\<lambda>_.
     bind_s (guard_s (is_object raw) (ValueError ''Backtest request must be an object.'')) (\<lambda>_.
     bind_s (admit_request sv mode raw) (\<lambda>request.
     bind_s (lift_s (bind_r (subscript request ''pipeline'') (\<lambda>v. subscript v ''pipelineId''))) (\<lambda>pipeline.
     bind_s (lift_s (subscript request ''datasetId'')) (\<lambda>dataset.
     bind_s (guard_s (nonempty_str pipeline) (ValueError ''pipeline.pipelineId must be a non-empty string.'')) (\<lambda>_.
     bind_s (guard_s (nonempty_str dataset) (ValueError ''datasetId must be a non-empty string.'')) (\<lambda>_.
     bind_s (sample_s (new_resource_id pf ''job'')) (\<lambda>j.
     bind_s (sample_s (new_resource_id pf ''backtest'')) (\<lambda>b.
     bind_s (catch_s (queue_job pf j b (str_of pipeline) (str_of dataset) request) (\<lambda>e.
       if mode = Direct then raise_s e
       else raise_s (RuntimeError
         ''Prepared Backtest submission was consumed before the Job could be durably queued.''))) (\<lambda>_.
     bind_s (query_s (get_job j)) (\<lambda>job.
     bind_s (emit pf ''backtest.job.submitted'' job) (\<lambda>_.
     bind_s (catch_s (executor_submit \<lparr>task_job = j, task_backtest = b, task_request = request\<rparr>) (\<lambda>e.
       bind_s (fail_job pf j (error_message e) ''failed'') (\<lambda>_. raise_s e))) (\<lambda>_.
     ret_s job))))))))))))))"

subsection \<open>Execution\<close>

text \<open>The \<open>except BaseException\<close> block of \<open>_execute\<close>\<close>

definition execution_error :: "py_error \<Rightarrow> py_error option \<Rightarrow> string" where
  "execution_error exc verification =
     (let err = error_message exc in
      case verification of
        None \<Rightarrow> err
      | Some v \<Rightarrow>
          if error_message v \<noteq> err
          then ''Backtest Result completion verification failed: '' @ error_message v @ ''; Runtime failure: '' @ err
          else err)"

definition execution_failed ::
    "'w services \<Rightarrow> 'w platform \<Rightarrow> job_task \<Rightarrow> py_error \<Rightarrow> ('w, unit) mact" where
  "execution_failed sv pf task exc =
     (let j = task_job task in
      bind_s (gets_s (\<lambda>s. runtime_process_authority pf j (world s))) (\<lambda>held.
      if held then ret_s ()
      else
        bind_s (catch_s
          (bind_s (completed_evidence sv pf j (task_backtest task)) (\<lambda>found. ret_s (found, None)))
          (\<lambda>e. ret_s (None, Some e))) (\<lambda>(found, verification).
        case found of
          Some e \<Rightarrow> complete_job pf j e
        | None \<Rightarrow>
            bind_s (gets_s stopping) (\<lambda>stop.
            bind_s (fail_job pf j (execution_error exc verification) (if stop then ''interrupted'' else ''failed''))
              (\<lambda>_. ret_s ())))))"

text \<open>Its \<open>finally\<close> block\<close>

definition release_root :: "'w platform \<Rightarrow> string \<Rightarrow> ('w, unit) mact" where
  "release_root pf j =
     bind_s (gets_s (\<lambda>s. runtime_process_authority pf j (world s))) (\<lambda>held.
     if held then modify_s (\<lambda>s. s\<lparr>retained_execution_roots := AList.update j j (retained_execution_roots s)\<rparr>)
     else modify_s (\<lambda>s. s\<lparr>world := remove_execution_root pf j (world s)\<rparr>))"

definition drop_task :: "job_task \<Rightarrow> 'w manager \<Rightarrow> 'w manager" where
  "drop_task task s = s\<lparr>running_tasks := filter (\<lambda>(t, _). task_job t \<noteq> task_job task) (running_tasks s)\<rparr>"

definition close_task :: "'w services \<Rightarrow> 'w platform \<Rightarrow> job_task \<Rightarrow> py_error option \<Rightarrow> ('w, unit) mact" where
  "close_task sv pf task exc =
     finally_s
       (finally_s (case exc of None \<Rightarrow> ret_s () | Some e \<Rightarrow> execution_failed sv pf task e) (release_root pf (task_job task)))
       (modify_s (drop_task task))"

definition run_guarded :: "'w services \<Rightarrow> 'w platform \<Rightarrow> job_task \<Rightarrow> ('w, unit) mact \<Rightarrow> ('w, unit) mact" where
  "run_guarded sv pf task body =
     bind_s (catch_s (bind_s body (\<lambda>_. ret_s None)) (\<lambda>e. ret_s (Some e))) (close_task sv pf task)"

text \<open>The worker takes the task up; it goes on with the launcher unless something raises.\<close>

definition take_task :: "job_task \<Rightarrow> 'w manager \<Rightarrow> 'w manager" where
  "take_task task s = s\<lparr>pending_tasks := tl (pending_tasks s),
     running_tasks := running_tasks s @ [(task, \<lparr>written_at = 0, written_completed = -1, written_phase = []\<rparr>)]\<rparr>"

definition start_task :: "'w services \<Rightarrow> 'w platform \<Rightarrow> job_task \<Rightarrow> ('w, unit) mact" where
  "start_task sv pf task =
     catch_s
       (bind_s (gets_s stopping) (\<lambda>stop.
        bind_s (guard_s (\<not> stop) (RuntimeError ''Engine stopped before this Backtest job started.'')) (\<lambda>_.
        bind_s (sample_s (utc_now pf)) (\<lambda>now.
        bind_s (commit_s (\<lambda>db. no_result (mark_running (task_job task) now db))) (\<lambda>_.
        bind_s (emit_job pf ''backtest.job.started'' (task_job task)) (\<lambda>_.
        world_s (make_execution_root pf (task_job task))))))))
       (\<lambda>e. close_task sv pf task (Some e))"

definition execute_begin :: "'w services \<Rightarrow> 'w platform \<Rightarrow> job_task \<Rightarrow> ('w, unit) mact" where
  "execute_begin sv pf task = bind_s (modify_s (take_task task)) (\<lambda>_. start_task sv pf task)"

fun progress_args :: "pyval \<Rightarrow> pyval \<Rightarrow> pyval \<Rightarrow> (int \<times> int \<times> string) option" where
  "progress_args (PInt c) (PInt t) (PStr ph) =
     (if c < 0 \<or> t < 0 \<or> t > 0 \<and> c > t \<or> ph = [] then None else Some (c, t, ph))"
| "progress_args _ _ _ = None"

definition durable_progress_interval :: rat where
  "durable_progress_interval = 1"

definition set_last_write :: "job_task \<Rightarrow> last_write \<Rightarrow> 'w manager \<Rightarrow> 'w manager" where
  "set_last_write task lw s =
     s\<lparr>running_tasks := map (\<lambda>(t, old). if task_job t = task_job task then (t, lw) else (t, old)) (running_tasks s)\<rparr>"

definition execute_progress ::
    "job_task \<Rightarrow> last_write \<Rightarrow> pyval \<Rightarrow> pyval \<Rightarrow> pyval \<Rightarrow> rat \<Rightarrow> ('w, unit) mact" where
  "execute_progress task lw done_arg total_arg phase_arg now =
     bind_s (gets_s stopping) (\<lambda>stop.
     bind_s (guard_s (\<not> stop) (RuntimeError ''Engine stopped while this Backtest job was running.'')) (\<lambda>_.
     case progress_args done_arg total_arg phase_arg of
       None \<Rightarrow> raise_s (ValueError ''Backtest progress update is invalid.'')
     | Some (c, t, ph) \<Rightarrow>
         let force = ph \<noteq> written_phase lw \<or> c \<ge> t \<and> t > 0 \<or> now - written_at lw \<ge> durable_progress_interval in
         if \<not> force \<or> c = written_completed lw \<and> ph = written_phase lw then ret_s ()
         else
           bind_s (commit_s (\<lambda>db. no_result (record_progress (task_job task) ph t c db))) (\<lambda>_.
           modify_s (set_last_write task \<lparr>written_at = now, written_completed = c, written_phase = ph\<rparr>))))"

text \<open>The launcher returned.\<close>

definition execute_return :: "'w services \<Rightarrow> 'w platform \<Rightarrow> job_task \<Rightarrow> ('w, unit) mact" where
  "execute_return sv pf task =
     run_guarded sv pf task
       (bind_s (completed_evidence sv pf (task_job task) (task_backtest task)) (\<lambda>found.
        case found of
          None \<Rightarrow> raise_s (RuntimeError ''Backtest Runtime returned without committing its sealed Result.'')
        | Some e \<Rightarrow> complete_job pf (task_job task) e))"

text \<open>The launcher raised.\<close>

definition execute_raise :: "'w services \<Rightarrow> 'w platform \<Rightarrow> job_task \<Rightarrow> py_error \<Rightarrow> ('w, unit) mact" where
  "execute_raise sv pf task exc = run_guarded sv pf task (raise_s exc)"

subsection \<open>Shutdown\<close>

text \<open>\<open>_stopping.set()\<close> and the cancellation of the futures no worker has taken\<close>

definition shutdown_begin :: "('w, unit) mact" where
  "shutdown_begin = modify_s (\<lambda>s. s\<lparr>stopping := True, executor_open := False, pending_tasks := []\<rparr>)"

definition first_error :: "py_error option \<Rightarrow> py_error \<Rightarrow> py_error option" where
  "first_error old e = (case old of None \<Rightarrow> Some e | Some o1 \<Rightarrow> Some o1)"

text \<open>One retained root; the result is the first error so far.\<close>

definition settle_retained ::
    "'w services \<Rightarrow> 'w platform \<Rightarrow> py_error option \<Rightarrow> string \<times> string \<Rightarrow> ('w, py_error option) mact" where
  "settle_retained sv pf err0 = (\<lambda>(root, j).
     bind_s (gets_s (\<lambda>s. runtime_process_authority pf root (world s))) (\<lambda>held.
     if held then ret_s err0
     else
       bind_s (catch_s
         (bind_s (query_s (get_job j)) (\<lambda>job.
          bind_s (completed_evidence sv pf j (backtest_id (pub_row job))) (\<lambda>found. ret_s (found, err0))))
         (\<lambda>e. ret_s (None, first_error err0 e))) (\<lambda>(found, err1).
       bind_s (catch_s
         (bind_s (case found of
             Some e \<Rightarrow> complete_job pf j e
           | None \<Rightarrow> bind_s (fail_job pf j ''Engine stopped before this Backtest job completed.'' ''interrupted'')
                 (\<lambda>_. ret_s ())) (\<lambda>_. ret_s (True, err1)))
         (\<lambda>e. ret_s (False, first_error err1 e))) (\<lambda>(terminalized, err2).
       bind_s (modify_s (\<lambda>s. s\<lparr>world := remove_execution_root pf root (world s)\<rparr>)) (\<lambda>_.
       bind_s (modify_s (\<lambda>s. if terminalized
           then s\<lparr>retained_execution_roots := AList.delete root (retained_execution_roots s)\<rparr> else s)) (\<lambda>_.
       ret_s err2))))))"

text \<open>The rest of \<open>shutdown\<close>; \<open>pool_error\<close> is the first error of shutting down the pool.\<close>

definition shutdown_finish :: "'w services \<Rightarrow> 'w platform \<Rightarrow> py_error option \<Rightarrow> ('w, unit) mact" where
  "shutdown_finish sv pf pool_error =
     bind_s (catch_s (bind_s (world_s (shutdown_backtest_runtimes pf)) (\<lambda>_. ret_s pool_error))
       (\<lambda>e. ret_s (first_error pool_error e))) (\<lambda>err0.
     bind_s (gets_s retained_execution_roots) (\<lambda>retained.
     bind_s (sample_s (utc_now pf)) (\<lambda>now.
     bind_s (fold_s (settle_retained sv pf) err0 retained) (\<lambda>err.
     bind_s (commit_s (\<lambda>db. Inr ((), interrupt_queued now db))) (\<lambda>_.
     case err of None \<Rightarrow> ret_s () | Some e \<Rightarrow> raise_s e)))))"

end
