(* ===== verification/Job_Safety.thy ===== *)
theory Job_Safety
  imports Job_Manager
begin

section \<open>What the job manager keeps\<close>

text \<open>
  The manager changes the index only through the repository. The locale \<open>index_contract\<close>
  states what a property of the index needs in order to survive every statement of the
  repository; inside it, every operation of the manager is shown to preserve the property.
  It is interpreted twice: for the development of the index (no condition on the platform)
  and for its validity (timestamps and identifiers are not empty, digests are hexadecimal).
  The step relation interleaves the operations; its invariants follow by rule induction.
\<close>

subsection \<open>Conditions on the platform\<close>

definition digest_hex :: "(pyval \<Rightarrow> string) \<Rightarrow> bool" where
  "digest_hex digest \<longleftrightarrow> (\<forall>v. length (digest v) = 64 \<and> list_all (\<lambda>c. c \<in> set hex_chars) (digest v))"

definition platform_ok :: "'w platform \<Rightarrow> bool" where
  "platform_ok pf \<longleftrightarrow> digest_hex (digest_of pf) \<and> (\<forall>w. fst (utc_now pf w) \<noteq> []) \<and>
     (\<forall>k w. fst (new_resource_id pf k w) \<noteq> [])"

lemma digest_hex_valid: "digest_hex digest \<Longrightarrow> is_sha256_digest (''sha256:'' @ digest v)"
  by (simp add: digest_hex_def is_sha256_digest_def)

lemma error_message_nonempty: "error_message e \<noteq> []"
  by (cases e) (auto simp: error_message_def quoted_def)

lemma execution_error_nonempty: "execution_error exc v \<noteq> []"
  by (auto simp: execution_error_def Let_def error_message_nonempty split: option.split)

subsection \<open>Effects that leave the index alone\<close>

lemma keeps_quiet [keeps_rules]:
  "keeps (\<lambda>s. J (jobs s)) (world_s m)" "keeps (\<lambda>s. J (jobs s)) (sample_s g)"
  "keeps (\<lambda>s. J (jobs s)) (query_s q)" "keeps (\<lambda>s. J (jobs s)) (emit pf ev job)"
  by (auto simp: valid_def world_s_def sample_s_def query_s_def emit_def modify_s_def split: prod.split)

lemma keeps_emit_job [keeps_rules]: "keeps (\<lambda>s. J (jobs s)) (emit_job pf ev j)"
  unfolding emit_job_def by (intro keeps_rules)

lemma keeps_commit:
  "(\<And>db x db'. J db \<Longrightarrow> u db = Inr (x, db') \<Longrightarrow> J db') \<Longrightarrow> keeps (\<lambda>s. J (jobs s)) (commit_s u)"
  by (auto simp: valid_def commit_s_def split: sum.split prod.split)

lemma no_result_Inr [simp]: "no_result r = Inr (u, db) \<longleftrightarrow> r = Inr db"
  by (auto simp: no_result_def bind_r_Inr_iff)

definition evidence_ok :: "(string \<times> int) option \<Rightarrow> bool" where
  "evidence_ok found \<longleftrightarrow> (case found of None \<Rightarrow> True | Some (finished, n) \<Rightarrow> finished \<noteq> [] \<and> 0 \<le> n)"

lemma evidence_ok_simps [simp]: "evidence_ok None" "evidence_ok (Some (finished, n)) \<longleftrightarrow> finished \<noteq> [] \<and> 0 \<le> n"
  by (simp_all add: evidence_ok_def)

lemma catalog_evidence_Inr:
  "catalog_evidence row v = Inr (finished, n) \<Longrightarrow>
     finished = cat_completed_at row \<and> 0 \<le> n \<and>
     (\<exists>m. cat_metrics row = Some (PDict m) \<and> py_equal (field (PDict m) ''cycleCount'') (PInt n)) \<and>
     bind_r (subscript v ''metrics'') (\<lambda>v. subscript v ''cycleCount'') = Inr (PInt n)"
  unfolding catalog_evidence_def
  by (auto simp: bind_r_Inr_iff guard_r_Inr_iff split: option.splits pyval.splits if_splits elim!: natural_count.elims)

lemma yields_final_row:
  assumes "catalog_final row"
  shows "yields I evidence_ok (bind_s (lift_s (catalog_evidence row v)) (\<lambda>e. ret_s (Some e)))"
  by (rule yields_bind[OF yields_lift[where A = "\<lambda>e. evidence_ok (Some e)"]])
    (use assms in \<open>auto simp: catalog_final_def dest: catalog_evidence_Inr intro: yields_ret\<close>)

lemma completed_evidence_yields: "yields (\<lambda>s. J (jobs s)) evidence_ok (completed_evidence sv pf j b)"
  unfolding completed_evidence_def
  apply (rule yields_bind_keeps, rule keeps_quiet)
  subgoal for expected
    apply (cases expected)
     apply (simp add: yields_ret)
    apply simp
    apply (rule yields_bind_keeps, rule keeps_primitive)
    apply (rule yields_bind_keeps, rule keeps_quiet)
    subgoal for request found recovered
      apply (cases found; cases recovered)
         apply (simp_all add: yields_ret)
        apply (rule yields_bind_keeps, rule keeps_primitive)
      subgoal for result row
        apply (cases row)
         apply (simp add: yields_raise)
        apply simp
        apply (rule yields_bind[OF yields_guard])
        apply (rule yields_bind_keeps, rule keeps_primitive)
        by (rule yields_final_row)
       apply (rule yields_bind[OF yields_guard], rule yields_bind_keeps, rule keeps_quiet, erule yields_final_row)
      apply (rule yields_bind[OF yields_guard], rule yields_bind_keeps, rule keeps_quiet, erule yields_final_row)
      done
    done
  done

lemma completed_evidence_jobs: "jobs (snd (completed_evidence sv pf j b s)) = jobs s"
  using yields_keeps[OF completed_evidence_yields[of "\<lambda>db. db = jobs s" sv pf j b]] by (simp add: valid_def)

subsection \<open>The contract between a property of the index and the repository\<close>

locale index_contract =
  fixes J :: "job_table \<Rightarrow> bool" and strict :: bool
  assumes keep_insert: "J db \<Longrightarrow> insert_queued dg ds j b p d rq now h db = Inr db' \<Longrightarrow>
      (strict \<Longrightarrow> j \<noteq> [] \<and> p \<noteq> [] \<and> d \<noteq> [] \<and> now \<noteq> [] \<and> digest_hex dg) \<Longrightarrow> J db'"
    and keep_running: "J db \<Longrightarrow> mark_running j now db = Inr db' \<Longrightarrow> (strict \<Longrightarrow> now \<noteq> []) \<Longrightarrow> J db'"
    and keep_progress: "J db \<Longrightarrow> record_progress j ph t c db = Inr db' \<Longrightarrow>
      t \<ge> 0 \<and> c \<ge> 0 \<and> (t > 0 \<longrightarrow> c \<le> t) \<Longrightarrow> J db'"
    and keep_completed: "J db \<Longrightarrow> mark_completed j now c db = Inr (x, db') \<Longrightarrow> now \<noteq> [] \<and> c \<ge> 0 \<Longrightarrow> J db'"
    and keep_failed: "J db \<Longrightarrow> fail_active j ph now err db = (x, db') \<Longrightarrow>
      ph \<in> {''failed'', ''interrupted''} \<Longrightarrow> err \<noteq> [] \<Longrightarrow> (strict \<Longrightarrow> now \<noteq> []) \<Longrightarrow> J db'"
    and keep_stop_active: "J db \<Longrightarrow> (strict \<Longrightarrow> now \<noteq> []) \<Longrightarrow> J (interrupt_active now db)"
    and keep_stop_queued: "J db \<Longrightarrow> (strict \<Longrightarrow> now \<noteq> []) \<Longrightarrow> J (interrupt_queued now db)"
begin

abbreviation I :: "'w manager \<Rightarrow> bool" where
  "I s \<equiv> J (jobs s)"

lemma yields_now: "strict \<longrightarrow> platform_ok pf \<Longrightarrow> yields I (\<lambda>now. strict \<longrightarrow> now \<noteq> []) (sample_s (utc_now pf))"
  by (rule keeps_yields, rule keeps_rules)
    (auto simp: platform_ok_def sample_s_def world_s_def split: prod.splits, metis fst_conv)

lemma yields_id: "strict \<longrightarrow> platform_ok pf \<Longrightarrow> yields I (\<lambda>x. strict \<longrightarrow> x \<noteq> []) (sample_s (new_resource_id pf k))"
  by (rule keeps_yields, rule keeps_rules)
    (auto simp: platform_ok_def sample_s_def world_s_def split: prod.splits, metis fst_conv)

lemma keeps_complete: "evidence_ok (Some e) \<Longrightarrow> keeps I (commit_s (mark_completed j (fst e) (snd e)))"
  by (cases e) (auto intro!: keeps_commit intro: keep_completed)

lemma keeps_complete_job: "evidence_ok (Some e) \<Longrightarrow> keeps I (complete_job pf j e)"
  using keeps_complete[of e j] unfolding complete_job_def by (auto simp: case_prod_beta intro!: keeps_rules)

lemma keeps_fail_job:
  assumes "strict \<longrightarrow> platform_ok pf" and "ph \<in> {''failed'', ''interrupted''}" and "err \<noteq> []"
  shows "keeps I (fail_job pf j err ph)"
  unfolding fail_job_def
proof (rule keeps_bind_yields[OF yields_now[OF assms(1)]])
  fix now :: string assume "strict \<longrightarrow> now \<noteq> []"
  then show "keeps I (bind_s (commit_s (\<lambda>db. Inr (fail_active j ph now err db))) (\<lambda>changed.
      if changed then bind_s (emit_job pf ''backtest.job.failed'' j) (\<lambda>_. ret_s True) else ret_s False))"
    using assms(2,3) by (intro keeps_rules keeps_commit) (auto intro: keep_failed)
qed

lemma keeps_fail_interrupted:
  assumes "strict \<longrightarrow> platform_ok pf"
  shows "keeps I (fail_interrupted_jobs sv pf)"
proof -
  have "yields I (list_all (\<lambda>(j, e). evidence_ok (Some e)))
      (if st \<noteq> ''running'' then ret_s []
       else bind_s (completed_evidence sv pf j b) (\<lambda>found. ret_s (case found of None \<Rightarrow> [] | Some e \<Rightarrow> [(j, e)])))"
    for j b st
    by (auto intro!: yields_ret yields_bind[OF completed_evidence_yields] split: option.splits)
  then have found: "yields I (list_all (list_all (\<lambda>(j, e). evidence_ok (Some e))))
      (map_s (\<lambda>(j, b, st). if st \<noteq> ''running'' then ret_s []
       else bind_s (completed_evidence sv pf j b) (\<lambda>found. ret_s (case found of None \<Rightarrow> [] | Some e \<Rightarrow> [(j, e)]))) refs)"
    for refs by (intro yields_map) (auto simp: case_prod_beta)
  have mark: "keeps I (bind_s (commit_s (mark_completed j (fst e) (snd e))) (\<lambda>_. ret_s ()))"
    if "evidence_ok (Some e)" for j e
    using keeps_complete[OF that] by (intro keeps_rules)
  have stop: "keeps I (commit_s (\<lambda>db. Inr ((), interrupt_active now db)))" if "strict \<longrightarrow> now \<noteq> []" for now
    using that by (intro keeps_commit) (auto intro: keep_stop_active)
  show ?thesis
    unfolding fail_interrupted_jobs_def
  proof (rule keeps_bind, rule keeps_quiet, rule keeps_bind_yields, rule found, rule keeps_bind)
    fix refs :: "(string \<times> string \<times> string) list" and completed :: "(string \<times> string \<times> int) list list"
    assume "list_all (list_all (\<lambda>(j, e). evidence_ok (Some e))) completed"
    then have ok: "evidence_ok (Some e)" if "(j, e) \<in> set (concat completed)" for j e
      using that by (fastforce simp: list_all_iff)
    show "keeps I (iter_s (\<lambda>(j, finished, cycles).
        bind_s (commit_s (mark_completed j finished cycles)) (\<lambda>_. ret_s ())) (concat completed))"
    proof (rule keeps_iter)
      fix x assume x: "x \<in> set (concat completed)"
      obtain j f c where [simp]: "x = (j, f, c)" by (cases x) auto
      show "keeps I (case x of (j, finished, cycles) \<Rightarrow>
          bind_s (commit_s (mark_completed j finished cycles)) (\<lambda>_. ret_s ()))"
        using mark[OF ok[of j "(f, c)"], of j] x by simp
    qed
  next
    show "keeps I (bind_s (sample_s (utc_now pf)) (\<lambda>now. commit_s (\<lambda>db. Inr ((), interrupt_active now db))))"
      by (rule keeps_bind_yields[OF yields_now[OF assms]]) (rule stop)
  qed
qed

lemma keeps_init: "strict \<longrightarrow> platform_ok pf \<Longrightarrow> keeps I (init_manager sv pf)"
  unfolding init_manager_def by (intro keeps_rules keeps_fail_interrupted)

lemma keeps_queue_job:
  assumes "strict \<longrightarrow> platform_ok pf" and "strict \<longrightarrow> j \<noteq> []" and "p \<noteq> []" and "d \<noteq> []"
  shows "keeps I (queue_job pf j b p d rq)"
  unfolding queue_job_def
proof (rule keeps_bind_yields[OF yields_now[OF assms(1)]], rule keeps_bind, rule keeps_primitive, rule keeps_bind,
    rule keeps_primitive, rule keeps_commit)
  fix now :: string and hash datasets db db' x
  assume "strict \<longrightarrow> now \<noteq> []" "J db"
    "no_result (insert_queued (digest_of pf) datasets j b p d rq now hash db) = Inr (x, db')"
  with assms show "J db'"
    using keep_insert[of db "digest_of pf" datasets j b p d rq now hash db'] by (simp add: platform_ok_def)
qed

lemma keeps_admit: "keeps I (admit_request sv mode rq)"
  unfolding admit_request_def
  by (cases mode) (auto intro!: keeps_rules split: option.split)

lemma keeps_executor_submit: "keeps I (executor_submit task)"
  unfolding executor_submit_def by (intro keeps_rules) simp

lemma nonempty_str_of: "nonempty_str v \<Longrightarrow> str_of v \<noteq> []"
  by (cases v) auto

lemma keeps_submit:
  assumes "strict \<longrightarrow> platform_ok pf"
  shows "keeps I (submit sv pf mode raw)"
  unfolding submit_def
  apply (rule keeps_bind, rule keeps_primitive)+
  apply (rule keeps_bind, rule keeps_admit)
  apply (rule keeps_bind, rule keeps_primitive)
  apply (rule keeps_bind, rule keeps_primitive)
  apply (rule keeps_bind_yields[OF yields_guard])
  apply (rule keeps_bind_yields[OF yields_guard])
  apply (rule keeps_bind_yields[OF yields_id[OF assms]])
  apply (rule keeps_bind, rule keeps_quiet)
  apply (rule keeps_bind)
   apply (rule keeps_catch)
    apply (rule keeps_queue_job[OF assms]; simp add: nonempty_str_of)
   apply (intro keeps_rules)
   apply (intro keeps_rules)
    apply (rule keeps_executor_submit)
   apply (rule keeps_fail_job[OF assms]; simp add: error_message_nonempty)
  done

lemma keeps_execution_failed:
  assumes "strict \<longrightarrow> platform_ok pf"
  shows "keeps I (execution_failed sv pf task exc)"
proof -
  have found: "yields I (\<lambda>r. evidence_ok (fst r)) (catch_s
      (bind_s (completed_evidence sv pf j b) (\<lambda>found. ret_s (found, None))) (\<lambda>e. ret_s (None, Some e)))" for j b
    by (intro yields_catch yields_bind[OF completed_evidence_yields]) (auto intro: yields_ret)
  have "keeps I (case found of Some e \<Rightarrow> complete_job pf j e
        | None \<Rightarrow> bind_s (gets_s stopping) (\<lambda>stop.
            bind_s (fail_job pf j (execution_error exc v) (if stop then ''interrupted'' else ''failed'')) (\<lambda>_. ret_s ())))"
    if "evidence_ok found" for found v j
    using that keeps_complete_job
    by (intro keeps_rules keeps_fail_job[OF assms]) (auto simp: execution_error_nonempty)
  then show ?thesis
    unfolding execution_failed_def Let_def
    by (intro keeps_bind keeps_primitive keeps_if keeps_bind_yields[OF found]) auto
qed

lemma keeps_close_task: "strict \<longrightarrow> platform_ok pf \<Longrightarrow> keeps I (close_task sv pf task exc)"
  unfolding close_task_def release_root_def drop_task_def
  by (intro keeps_rules keeps_execution_failed) auto

lemma keeps_run_guarded:
  "strict \<longrightarrow> platform_ok pf \<Longrightarrow> keeps I body \<Longrightarrow> keeps I (run_guarded sv pf task body)"
  unfolding run_guarded_def by (intro keeps_rules keeps_close_task) auto

lemma keeps_execute_begin:
  assumes "strict \<longrightarrow> platform_ok pf"
  shows "keeps I (execute_begin sv pf task)"
proof -
  have "keeps I (commit_s (\<lambda>db. no_result (mark_running j now db)))" if "strict \<longrightarrow> now \<noteq> []" for j now
    using that by (intro keeps_commit) (auto intro: keep_running)
  then show ?thesis
    unfolding execute_begin_def start_task_def take_task_def
    by (intro keeps_bind keeps_catch keeps_primitive keeps_bind_yields[OF yields_now[OF assms]]
        keeps_emit_job keeps_close_task keeps_quiet keeps_modify assms) auto
qed

lemma keeps_execute_return:
  assumes "strict \<longrightarrow> platform_ok pf"
  shows "keeps I (execute_return sv pf task)"
  unfolding execute_return_def
  by (rule keeps_run_guarded[OF assms], rule keeps_bind_yields[OF completed_evidence_yields])
    (auto intro!: keeps_primitive keeps_complete_job split: option.split)

lemma keeps_execute_raise: "strict \<longrightarrow> platform_ok pf \<Longrightarrow> keeps I (execute_raise sv pf task exc)"
  unfolding execute_raise_def by (intro keeps_run_guarded keeps_primitive)

lemma progress_args_Some:
  "progress_args a b d = Some (c, t, ph) \<Longrightarrow> t \<ge> 0 \<and> c \<ge> 0 \<and> (t > 0 \<longrightarrow> c \<le> t) \<and> ph \<noteq> []"
  by (auto elim!: progress_args.elims split: if_splits)

lemma keeps_execute_progress: "keeps I (execute_progress task lw a b d now)"
  unfolding execute_progress_def Let_def
  by (intro keeps_bind keeps_primitive)
    (auto intro!: keeps_rules keeps_commit intro: keep_progress
      simp: set_last_write_def dest: progress_args_Some split: option.split)

lemma keeps_settle_retained:
  assumes "strict \<longrightarrow> platform_ok pf"
  shows "keeps I (settle_retained sv pf err x)"
proof -
  obtain root j where x: "x = (root, j)" by (cases x)
  have found: "yields I (\<lambda>r. evidence_ok (fst r)) (catch_s
      (bind_s (query_s (get_job j)) (\<lambda>job.
         bind_s (completed_evidence sv pf j (backtest_id (pub_row job))) (\<lambda>found. ret_s (found, err))))
      (\<lambda>e. ret_s (None, first_error err e)))"
    by (intro yields_catch yields_bind_keeps[OF keeps_quiet(3)] yields_bind[OF completed_evidence_yields]) (auto intro: yields_ret)
  have finish: "keeps I (case found of Some e \<Rightarrow> complete_job pf j e
      | None \<Rightarrow> bind_s (fail_job pf j ''Engine stopped before this Backtest job completed.'' ''interrupted'') (\<lambda>_. ret_s ()))"
    if "evidence_ok found" for found
    using that keeps_complete_job by (intro keeps_rules keeps_fail_job[OF assms]) auto
  show ?thesis
    unfolding settle_retained_def x prod.case
    by (intro keeps_bind keeps_primitive keeps_if keeps_bind_yields[OF found])
      (auto intro!: keeps_rules finish)
qed

lemma keeps_shutdown_begin: "keeps I shutdown_begin"
  unfolding shutdown_begin_def by (intro keeps_rules) auto

lemma keeps_shutdown_finish:
  assumes "strict \<longrightarrow> platform_ok pf"
  shows "keeps I (shutdown_finish sv pf err)"
proof -
  have "keeps I (commit_s (\<lambda>db. Inr ((), interrupt_queued now db)))" if "strict \<longrightarrow> now \<noteq> []" for now
    using that by (intro keeps_commit) (auto intro: keep_stop_queued)
  then show ?thesis
    unfolding shutdown_finish_def
    by (intro keeps_bind keeps_catch keeps_primitive keeps_quiet keeps_bind_yields[OF yields_now[OF assms]]
        keeps_fold keeps_settle_retained[OF assms] keeps_option) auto
qed

end

text \<open>The statements in terms of their updates\<close>

lemma mark_running_InrD:
  "mark_running j now db = Inr db' \<Longrightarrow> db' = update_where (selects j [''queued'']) (started now) db"
  by (auto simp: mark_running_def split: if_splits)

lemma insert_hash_valid:
  assumes "insert_queued dg ds j b p d rq now h db = Inr db'" and "digest_hex dg"
  shows "is_sha256_digest (str_of h)"
proof -
  obtain payload where "h = PStr (''sha256:'' @ dg payload)"
    using require_request_evidence_hash[OF insert_queued_InrD(4)[OF assms(1)]] by auto
  with digest_hex_valid[OF assms(2)] show ?thesis by simp
qed

interpretation valid_index: index_contract table_ok True
proof unfold_locales
  fix db db' dg ds j b p d rq now h
  assume ok: "table_ok db" and ins: "insert_queued dg ds j b p d rq now h db = Inr db'"
    and args: "True \<Longrightarrow> j \<noteq> [] \<and> p \<noteq> [] \<and> d \<noteq> [] \<and> now \<noteq> [] \<and> digest_hex dg"
  then have "row_ok (queued_row j b p d rq now (str_of h))"
    by (auto intro!: queued_row_ok insert_hash_valid[OF ins])
  with ok insert_queued_InrD(1,2)[OF ins] show "table_ok db'"
    by (auto intro!: table_ok_append simp: queued_row_def)
next
  fix db db' j now
  assume "table_ok db" "mark_running j now db = Inr db'" "True \<Longrightarrow> now \<noteq> []"
  then show "table_ok db'" using start.update_table_ok by (auto dest!: mark_running_InrD)
next
  fix db db' j ph and t c :: int
  assume "table_ok db" "record_progress j ph t c db = Inr db'" "t \<ge> 0 \<and> c \<ge> 0 \<and> (t > 0 \<longrightarrow> c \<le> t)"
  then show "table_ok db'" using report.update_table_ok[of t c db j ph] by (auto dest!: record_progress_InrD)
next
  fix db db' j now c x
  assume "table_ok db" "mark_completed j now c db = Inr (x, db')" "now \<noteq> [] \<and> c \<ge> 0"
  then show "table_ok db'" using complete.update_table_ok by (auto dest!: mark_completed_InrD split: if_splits)
next
  fix db db' j ph now err x
  assume "table_ok db" "fail_active j ph now err db = (x, db')" "ph \<in> {''failed'', ''interrupted''}" "err \<noteq> []"
    "True \<Longrightarrow> now \<noteq> []"
  then show "table_ok db'" using fail.update_table_ok[of now ph "take 4000 err" db j] by (auto simp: fail_active_def)
next
  fix db and now :: string assume "table_ok db" "True \<Longrightarrow> now \<noteq> []"
  then show "table_ok (interrupt_active now db)" "table_ok (interrupt_queued now db)"
    unfolding interrupt_active_def interrupt_queued_def
    by (auto intro!: stop_active.update_table_ok stop_queued.update_table_ok)
qed

interpretation development: index_contract "table_develops db0" False
proof unfold_locales
  fix db db' dg ds j b p d rq now h
  assume "table_develops db0 db" "insert_queued dg ds j b p d rq now h db = Inr db'"
  then show "table_develops db0 db'" by (auto dest!: insert_queued_InrD(1) intro: table_develops_trans)
next
  fix db db' j now assume "table_develops db0 db" "mark_running j now db = Inr db'"
  then show "table_develops db0 db'"
    by (auto dest!: mark_running_InrD intro: table_develops_trans start.update_develops)
next
  fix db db' j ph t c assume "table_develops db0 db" "record_progress j ph t c db = Inr db'"
  then show "table_develops db0 db'"
    by (auto dest!: record_progress_InrD intro: table_develops_trans report.update_develops)
next
  fix db db' j now c x assume "table_develops db0 db" "mark_completed j now c db = Inr (x, db')"
  then show "table_develops db0 db'"
    by (auto dest!: mark_completed_InrD intro: table_develops_trans[OF _ complete.update_develops] split: if_splits)
next
  fix db db' j ph now err x assume "table_develops db0 db" "fail_active j ph now err db = (x, db')"
  then show "table_develops db0 db'"
    by (auto simp: fail_active_def intro: table_develops_trans fail.update_develops)
next
  fix db now assume "table_develops db0 db"
  then show "table_develops db0 (interrupt_active now db)" "table_develops db0 (interrupt_queued now db)"
    unfolding interrupt_active_def interrupt_queued_def
    by (auto intro: table_develops_trans stop_active.update_develops stop_queued.update_develops)
qed

subsection \<open>Interleaved operation\<close>

inductive manager_step :: "'w services \<Rightarrow> 'w platform \<Rightarrow> nat \<Rightarrow> 'w manager \<Rightarrow> 'w manager \<Rightarrow> bool"
  for sv :: "'w services" and pf :: "'w platform" and workers :: nat where
  submitted: "manager_step sv pf workers s (snd (submit sv pf mode raw s))"
| begun: "pending_tasks s = task # rest \<Longrightarrow> length (running_tasks s) < workers \<Longrightarrow>
    manager_step sv pf workers s (snd (execute_begin sv pf task s))"
| reported: "(task, lw) \<in> set (running_tasks s) \<Longrightarrow>
    manager_step sv pf workers s (snd (execute_progress task lw done_arg total_arg phase_arg now s))"
| returned: "(task, lw) \<in> set (running_tasks s) \<Longrightarrow> manager_step sv pf workers s (snd (execute_return sv pf task s))"
| raised: "(task, lw) \<in> set (running_tasks s) \<Longrightarrow> manager_step sv pf workers s (snd (execute_raise sv pf task exc s))"
| stop_requested: "manager_step sv pf workers s (snd (shutdown_begin s))"
| stop_finished: "stopping s \<Longrightarrow> manager_step sv pf workers s (snd (shutdown_finish sv pf err s))"
| restarted: "init_manager sv pf (boot (jobs s) (world s)) = (Inr (), s') \<Longrightarrow> manager_step sv pf workers s s'"
| restart_failed: "init_manager sv pf (boot (jobs s) (world s)) = (Inl e, s') \<Longrightarrow>
    manager_step sv pf workers s (s'\<lparr>stopping := True, executor_open := False\<rparr>)"
| environment: "manager_step sv pf workers s (s\<lparr>world := w\<rparr>)"

abbreviation manager_run :: "'w services \<Rightarrow> 'w platform \<Rightarrow> nat \<Rightarrow> 'w manager \<Rightarrow> 'w manager \<Rightarrow> bool" where
  "manager_run sv pf workers \<equiv> (manager_step sv pf workers)\<^sup>*\<^sup>*"

context index_contract
begin

lemma step_keeps:
  assumes "strict \<longrightarrow> platform_ok pf" and "manager_step sv pf workers s s'" and "J (jobs s)"
  shows "J (jobs s')"
  using assms(2,3)
proof (induction rule: manager_step.induct)
  case (restarted s s')
  then show ?case using validD[OF keeps_init[OF assms(1), of sv] _ restarted(1)] by (simp add: boot_def)
next
  case (restart_failed s e s')
  then show ?case using validD[OF keeps_init[OF assms(1), of sv] _ restart_failed(1)] by (simp add: boot_def)
qed (auto intro!: valid_snd[of "\<lambda>s. J (jobs s)"] keeps_submit keeps_execute_begin keeps_execute_progress
      keeps_execute_return keeps_execute_raise keeps_shutdown_begin keeps_shutdown_finish assms(1))

lemma run_keeps:
  assumes "strict \<longrightarrow> platform_ok pf" and "manager_run sv pf workers s s'" and "J (jobs s)"
  shows "J (jobs s')"
  using assms(2,3) by induction (auto intro: step_keeps[OF assms(1)])

end

subsection \<open>A platform\<close>

text \<open>A concrete platform and concrete services over a catalog of Results, for the witnesses: the
  clock stands still, identifiers count up, freezing returns a signed request and no
  process outlives its task.\<close>

record shop =
  next_id :: nat
  catalog :: "(string \<times> catalog_row) list"

definition example_platform :: "shop platform" where
  "example_platform = \<lparr>digest_of = (\<lambda>_. replicate 64 CHR ''a''), dataset_ids = (\<lambda>_. [''d'']),
     result_catalog_row = (\<lambda>b w. map_of (catalog w) b), utc_now = (\<lambda>w. (''now'', w)),
     new_resource_id = (\<lambda>k w. (k @ nat_str (next_id w), w\<lparr>next_id := Suc (next_id w)\<rparr>)),
     runtime_process_authority = (\<lambda>_ _. False), shutdown_backtest_runtimes = ret_s (),
     make_execution_root = (\<lambda>_. ret_s ()), remove_execution_root = (\<lambda>_ w. w), has_event_callback = True\<rparr>"

definition example_inputs :: "(pykey \<times> pyval) list" where
  "example_inputs =
     (let ref = (\<lambda>n. PDict [(KStr n, PStr ''x''), (KStr ''version'', PStr ''1'')]) in
      [(KStr ''pipeline'', ref ''pipelineId''), (KStr ''datasetId'', PStr ''d''), (KStr ''datasetVersionId'', PStr ''v''),
       (KStr ''sampler'', PDict [(KStr ''samplerId'', PStr ''s''), (KStr ''version'', PStr ''1''),
         (KStr ''parameters'', PDict [])]),
       (KStr ''environment'', ref ''environmentId''), (KStr ''analysis'', ref ''analysisId'')])"

definition example_request :: pyval where
  "example_request = PDict (example_inputs @ [(KStr ''executionSnapshot'',
     PDict [(KStr ''snapshotHash'', PStr example_hash),
            (KStr ''executionInputs'', PDict (example_inputs @ [(KStr ''limit'', PNone)]))])])"

definition example_validation :: pyval where
  "example_validation = PDict [(KStr ''metrics'', PDict [(KStr ''cycleCount'', PInt 3)])]"

definition example_services :: "shop services" where
  "example_services = \<lparr>freeze_request = (\<lambda>_. ret_s example_request), reconcile_result_staging = ret_s (),
     recover_result_catalog = (\<lambda>b rq w. (Inr (map_option (\<lambda>_. example_validation) (map_of (catalog w) b)), w)),
     validate_result_archive = (\<lambda>_. ret_s example_validation),
     consume_prepared_request = Some (\<lambda>_ rq _. ret_s rq), validate_frozen_admission = Some ret_s\<rparr>"

definition sealed_row :: catalog_row where
  "sealed_row = \<lparr>cat_status = ''completed'', cat_completed_at = ''later'',
     cat_metrics = Some (PDict [(KStr ''cycleCount'', PInt 3)])\<rparr>"

definition empty_manager :: "shop manager" where
  "empty_manager = boot [] \<lparr>next_id = 0, catalog = [(''backtest1'', sealed_row)]\<rparr>"

definition submitted_manager :: "shop manager" where
  "submitted_manager = snd (submit example_services example_platform Direct (PDict []) empty_manager)"

definition submitted_row :: job_row where
  "submitted_row = queued_row ''job0'' ''backtest1'' ''x'' ''d'' example_request ''now'' example_hash"

lemma example_platform_ok [simp]: "platform_ok example_platform"
proof -
  have "nat_str n \<noteq> []" for n by (subst nat_str.simps) simp
  then show ?thesis by (auto simp: platform_ok_def digest_hex_def example_platform_def hex_chars_def list_all_iff)
qed

lemma submitted_jobs: "jobs submitted_manager = [submitted_row]"
  by code_simp

lemma submitted_tasks:
  "pending_tasks submitted_manager =
     [\<lparr>task_job = ''job0'', task_backtest = ''backtest1'', task_request = example_request\<rparr>]"
  "running_tasks submitted_manager = []"
  by code_simp+

end
