(* ===== verification/Job_Refinement.thy ===== *)
theory Job_Refinement
  imports Job_Safety
begin

section \<open>The manager refines the lifecycle\<close>

text \<open>
  The abstract machine knows a finite map from jobs to lifecycle states; a step admits a
  new job as queued or moves one job along the lifecycle. Every run of the manager, however
  its operations interleave and whatever its services do, is a run of that machine.
\<close>

inductive spec_step :: "(string \<rightharpoonup> lifecycle) \<Rightarrow> (string \<rightharpoonup> lifecycle) \<Rightarrow> bool" where
  admit: "m j = None \<Longrightarrow> spec_step m (m(j \<mapsto> Queued))"
| move: "m j = Some l \<Longrightarrow> life_step l l' \<Longrightarrow> spec_step m (m(j \<mapsto> l'))"

definition abs_jobs :: "job_table \<Rightarrow> string \<rightharpoonup> lifecycle" where
  "abs_jobs db = map_of (map (\<lambda>r. (job_id r, life r)) db)"

lemma spec_moves:
  "life_step\<^sup>*\<^sup>* l l' \<Longrightarrow> spec_step\<^sup>*\<^sup>* (m(j \<mapsto> l)) (m(j \<mapsto> l'))"
proof (induction rule: rtranclp_induct)
  case (step y z)
  have "spec_step (m(j \<mapsto> y)) ((m(j \<mapsto> y))(j \<mapsto> z))" by (rule spec_step.move) (use step in auto)
  with step.IH show ?case unfolding fun_upd_upd by (meson rtranclp.rtrancl_into_rtrancl)
qed simp

lemma abs_jobs_middle:
  "job_id r \<notin> set (map job_id pre) \<Longrightarrow> abs_jobs (pre @ r # post) = (abs_jobs (pre @ post))(job_id r \<mapsto> life r)"
  by (induction pre) (auto simp: abs_jobs_def fun_upd_twist)

lemma spec_rows:
  "list_all2 develops db db' \<Longrightarrow> distinct (map job_id (pre @ db)) \<Longrightarrow>
     spec_step\<^sup>*\<^sup>* (abs_jobs (pre @ db)) (abs_jobs (pre @ db'))"
proof (induction db db' arbitrary: pre rule: list_all2_induct)
  case (Cons r rs r' rs')
  have id: "job_id r' = job_id r" using Cons(1) by (rule develops_job_id)
  have fresh: "job_id r \<notin> set (map job_id pre)" using Cons.prems by auto
  have "spec_step\<^sup>*\<^sup>* ((abs_jobs (pre @ rs))(job_id r \<mapsto> life r)) ((abs_jobs (pre @ rs))(job_id r \<mapsto> life r'))"
    using Cons(1) by (intro spec_moves) (simp add: develops_def)
  then have "spec_step\<^sup>*\<^sup>* (abs_jobs (pre @ r # rs)) (abs_jobs (pre @ r' # rs))"
    using fresh id by (simp add: abs_jobs_middle)
  moreover have "spec_step\<^sup>*\<^sup>* (abs_jobs ((pre @ [r']) @ rs)) (abs_jobs ((pre @ [r']) @ rs'))"
    by (rule Cons.IH) (use Cons.prems id in auto)
  ultimately show ?case by simp
qed simp

abbreviation refines_from :: "job_table \<Rightarrow> job_table \<Rightarrow> bool" where
  "refines_from db0 db \<equiv> distinct (map job_id db) \<and> spec_step\<^sup>*\<^sup>* (abs_jobs db0) (abs_jobs db)"

lemma refines_update:
  assumes "refines_from db0 db" and "table_develops db db'" and "map job_id db' = map job_id db"
  shows "refines_from db0 db'"
proof -
  have "list_all2 develops db db'"
    using assms(2) map_eq_imp_length_eq[OF assms(3)] by (simp add: table_develops_def)
  from spec_rows[OF this, of "[]"] assms(1,3) show ?thesis by (auto intro: rtranclp_trans)
qed

lemma refines_admit:
  assumes "refines_from db0 db" and "job_id r \<notin> set (map job_id db)" and "status r = ''queued''"
  shows "refines_from db0 (db @ [r])"
proof -
  have "spec_step (abs_jobs db) ((abs_jobs db)(job_id r \<mapsto> Queued))"
    by (rule spec_step.admit) (use assms(2) in \<open>force simp: abs_jobs_def map_of_eq_None_iff\<close>)
  moreover have "abs_jobs (db @ [r]) = (abs_jobs db)(job_id r \<mapsto> Queued)"
    using abs_jobs_middle[of r db "[]"] assms(2,3) by simp
  ultimately show ?thesis using assms by auto
qed

interpretation refinement: index_contract "refines_from db0" False
proof unfold_locales
  fix db db' dg ds j b p d rq now h
  assume "refines_from db0 db" and ins: "insert_queued dg ds j b p d rq now h db = Inr db'"
  then show "refines_from db0 db'"
    using refines_admit[of db db0 "queued_row j b p d rq now (str_of h)"] insert_queued_InrD(1,2)[OF ins]
    by (simp add: queued_row_def)
next
  fix db db' j now assume "refines_from db0 db" "mark_running j now db = Inr db'"
  then show "refines_from db0 db'"
    using refines_update[OF _ start.update_develops start.update_ids] by (auto dest!: mark_running_InrD)
next
  fix db db' j ph t c assume "refines_from db0 db" "record_progress j ph t c db = Inr db'"
  then show "refines_from db0 db'"
    using refines_update[OF _ report.update_develops report.update_ids] by (auto dest!: record_progress_InrD)
next
  fix db db' j now c x assume "refines_from db0 db" "mark_completed j now c db = Inr (x, db')"
  then show "refines_from db0 db'"
    using refines_update[OF _ complete.update_develops complete.update_ids, of db db0]
    by (auto dest!: mark_completed_InrD split: if_splits)
next
  fix db db' j ph now err x assume "refines_from db0 db" "fail_active j ph now err db = (x, db')"
  then show "refines_from db0 db'"
    using refines_update[OF _ fail.update_develops fail.update_ids, of db db0] by (auto simp: fail_active_def)
next
  fix db now assume db: "refines_from db0 db"
  show "refines_from db0 (interrupt_active now db)"
    unfolding interrupt_active_def by (rule refines_update[OF db stop_active.update_develops stop_active.update_ids])
  show "refines_from db0 (interrupt_queued now db)"
    unfolding interrupt_queued_def by (rule refines_update[OF db stop_queued.update_develops stop_queued.update_ids])
qed

subsection \<open>Properties\<close>

text \<open>\<^bold>\<open>C10\<close>. Refinement: whatever the services and the platform do and however submissions, task
  steps, shutdown and restarts interleave, every run of the manager is a run of the
  abstract lifecycle machine on the jobs of its index.\<close>

theorem manager_refines_lifecycle:
  assumes "distinct (map job_id (jobs s))" and "manager_run sv pf workers s s'"
  shows "spec_step\<^sup>*\<^sup>* (abs_jobs (jobs s)) (abs_jobs (jobs s'))"
  using refinement.run_keeps[OF _ assms(2), of "jobs s"] assms(1) by simp

theorem manager_refines_lifecycle_witness:
  "spec_step\<^sup>*\<^sup>* (abs_jobs []) (abs_jobs [submitted_row])"
proof -
  have "manager_run example_services example_platform 2 empty_manager submitted_manager"
    unfolding submitted_manager_def by (rule r_into_rtranclp) (rule manager_step.submitted)
  from manager_refines_lifecycle[OF _ this] show ?thesis
    by (simp add: submitted_jobs empty_manager_def boot_def)
qed

text \<open>\<^bold>\<open>C11\<close>. Evidence is immutable and terminal jobs are final: along every run of the manager each
  row of the index stays in its place with the same identity, request, submission time and
  snapshot hash, its state only advances, and a completed or failed row never changes again.\<close>

theorem evidence_immutable_terminal_final:
  assumes "manager_run sv pf workers s s'" and "i < length (jobs s)"
  shows "i < length (jobs s') \<and> evidence (jobs s' ! i) = evidence (jobs s ! i) \<and>
    life_step\<^sup>*\<^sup>* (life (jobs s ! i)) (life (jobs s' ! i)) \<and>
    (terminal (jobs s ! i) \<longrightarrow> jobs s' ! i = jobs s ! i)"
proof -
  have "table_develops (jobs s) (jobs s')"
    using development.run_keeps[OF _ assms(1), of "jobs s"] by simp
  with assms(2) have "i < length (jobs s')" "develops (jobs s ! i) (jobs s' ! i)"
    by (auto simp: table_develops_def list_all2_conv_all_nth)
  then show ?thesis by (simp add: develops_def)
qed

theorem evidence_immutable_terminal_final_witness:
  "evidence (jobs (snd (execute_begin example_services example_platform (hd (pending_tasks submitted_manager)) submitted_manager)) ! 0)
     = evidence submitted_row"
proof -
  let ?s = submitted_manager
  have "manager_run example_services example_platform 2 ?s
      (snd (execute_begin example_services example_platform (hd (pending_tasks ?s)) ?s))"
    by (rule r_into_rtranclp, rule manager_step.begun[where rest = "[]"]) (simp_all add: submitted_tasks)
  from evidence_immutable_terminal_final[OF this, of 0] show ?thesis by (simp add: submitted_jobs)
qed



end
