(* ===== verification/Job_Liveness.thy ===== *)
theory Job_Liveness
  imports Job_Safety
begin

section \<open>Jobs are settled\<close>

text \<open>
  What the manager promises to bring about: a restart settles every job, a shutdown leaves
  nothing queued, a task that ends without a surviving process leaves its job terminal, a job
  becomes completed on verified evidence only, and the pool never runs more tasks than it has workers.
\<close>

subsection \<open>Effects that never raise\<close>

definition total_s :: "('s, 'a) act \<Rightarrow> bool" where
  "total_s m \<longleftrightarrow> (\<forall>s. \<exists>x t. m s = (Inr x, t))"

lemma total_sE: assumes "total_s m" obtains x t where "m s = (Inr x, t)"
  using assms unfolding total_s_def by blast

lemma total_bind [intro]: "total_s m \<Longrightarrow> (\<And>x. total_s (f x)) \<Longrightarrow> total_s (bind_s m f)"
  unfolding total_s_def by (metis bind_s_Inr)

lemma total_catch [intro]: "(\<And>e. total_s (h e)) \<Longrightarrow> total_s (catch_s m h)"
  unfolding total_s_def catch_s_def by (auto split: prod.split sum.split)

lemma total_primitive [intro, simp]: "total_s (ret_s x)" "total_s (gets_s g)" "total_s (modify_s h)" "total_s (sample_s k)"
  by (auto simp: total_s_def effect_defs sample_s_def world_s_def split: prod.split)

lemma total_fold: "(\<And>acc x. total_s (f acc x)) \<Longrightarrow> total_s (fold_s f acc xs)"
  by (induction xs arbitrary: acc) auto

lemma total_settle: "total_s (settle_retained sv pf err x)"
  unfolding settle_retained_def by (cases x) (auto intro!: total_bind total_catch split: prod.split)

subsection \<open>Completion evidence\<close>

lemma subscript_single [simp]: "subscript (PDict [(KStr n, x)]) n = Inr x"
  by (simp add: subscript_def)

lemma completed_evidence_facts:
  assumes "completed_evidence sv pf j b s = (Inr (Some (finished, n)), s')"
  shows "\<exists>request recovered w row m v.
    active_request_for_job (digest_of pf) j b (jobs s) = Inr (Some request) \<and>
    recover_result_catalog sv b request (world s) = (Inr recovered, w) \<and>
    result_catalog_row pf b (if recovered \<noteq> None \<and> result_catalog_row pf b (world s) = None then w else world s) = Some row \<and>
    cat_status row \<in> {''completed'', ''archived''} \<and> cat_completed_at row = finished \<and> finished \<noteq> [] \<and> 0 \<le> n \<and>
    cat_metrics row = Some (PDict m) \<and> py_equal (field (PDict m) ''cycleCount'') (PInt n) \<and>
    bind_r (subscript v ''metrics'') (\<lambda>x. subscript x ''cycleCount'') = Inr (PInt n) \<and>
    (if result_catalog_row pf b (world s) = None then recovered \<noteq> None \<and> subscript v ''metrics'' = subscript (the recovered) ''metrics''
     else fst (validate_result_archive sv b w) = Inr v)"
proof -
  from assms obtain request where rq: "active_request_for_job (digest_of pf) j b (jobs s) = Inr (Some request)"
    unfolding completed_evidence_def
    by (elim bind_s_InrE) (auto simp: query_s_def ret_s_def split: option.splits)
  obtain rr w where rec: "recover_result_catalog sv b request (world s) = (rr, w)" by fastforce
  show ?thesis
  proof (cases rr)
    case (Inl e)
    with assms rq rec show ?thesis
      by (simp add: completed_evidence_def bind_s_def[of "query_s _"] query_s_def bind_s_def[of "world_s _"] world_s_def)
  next
    case (Inr recovered)
    have run: "completed_evidence sv pf j b s =
      (case result_catalog_row pf b (world s) of
         Some row \<Rightarrow>
           bind_s (guard_s (catalog_final row) (ValueError ''Recovered Backtest catalog state is invalid.'')) (\<lambda>_.
           bind_s (world_s (validate_result_archive sv b)) (\<lambda>validation.
           bind_s (lift_s (catalog_evidence row validation)) (\<lambda>e. ret_s (Some e)))) (s\<lparr>world := w\<rparr>)
       | None \<Rightarrow> (case recovered of None \<Rightarrow> ret_s None (s\<lparr>world := w\<rparr>) | Some result \<Rightarrow>
           (case result_catalog_row pf b w of
              None \<Rightarrow> raise_s (RuntimeError ''Recovered Backtest Result has no catalog row.'') (s\<lparr>world := w\<rparr>)
            | Some row \<Rightarrow>
                bind_s (guard_s (catalog_final row) (ValueError ''Recovered Backtest catalog state is invalid.'')) (\<lambda>_.
                bind_s (lift_s (subscript result ''metrics'')) (\<lambda>metrics.
                bind_s (lift_s (catalog_evidence row (PDict [(KStr ''metrics'', metrics)]))) (\<lambda>e.
                ret_s (Some e)))) (s\<lparr>world := w\<rparr>))))"
      using rq rec Inr
      by (simp add: completed_evidence_def bind_s_def[of "query_s _"] query_s_def bind_s_def[of "world_s _"] world_s_def
          split: option.split)
    show ?thesis
    proof (cases "result_catalog_row pf b (world s)")
      case (Some row)
      from assms[unfolded run Some option.case] obtain v
        where "catalog_final row" "fst (validate_result_archive sv b w) = Inr v" "catalog_evidence row v = Inr (finished, n)"
        by (elim bind_s_InrE) (auto simp: effect_defs guard_r_def world_s_def split: prod.splits if_splits)
      with catalog_evidence_Inr[of row v finished n] rq rec Inr Some show ?thesis
        by (auto simp: catalog_final_def)
    next
      case None
      from assms[unfolded run None option.case] obtain result row metrics
        where "recovered = Some result" "result_catalog_row pf b w = Some row" "catalog_final row"
          "subscript result ''metrics'' = Inr metrics"
          and e: "catalog_evidence row (PDict [(KStr ''metrics'', metrics)]) = Inr (finished, n)"
        by (auto simp: effect_defs guard_r_def split: option.splits if_splits elim!: bind_s_InrE)
      moreover from catalog_evidence_Inr[OF e] obtain m where "cat_metrics row = Some (PDict m)"
          "py_equal (field (PDict m) ''cycleCount'') (PInt n)" "subscript metrics ''cycleCount'' = Inr (PInt n)"
          "finished = cat_completed_at row" "0 \<le> n"
        by auto
      ultimately show ?thesis
        using rq rec Inr None
        by (intro exI[of _ request] exI[of _ recovered] exI[of _ w] exI[of _ row] exI[of _ m]
            exI[of _ "PDict [(KStr ''metrics'', metrics)]"]) (simp add: catalog_final_def)
    qed
  qed
qed


definition running_manager :: "shop manager" where
  "running_manager = snd (execute_begin example_services example_platform (hd (pending_tasks submitted_manager)) submitted_manager)"

lemma running_jobs: "jobs running_manager = [started ''now'' submitted_row]"
  by code_simp


subsection \<open>Shutdown\<close>

lemma settle_keeps_error: "yields (\<lambda>_. True) (\<lambda>e. e = Some x) (settle_retained sv pf (Some x) y)"
proof -
  obtain root j where y: "y = (root, j)" by (cases y)
  have catch: "yields (\<lambda>_. True) (\<lambda>r. snd r = Some x)
      (catch_s (bind_s m (\<lambda>v. ret_s (f v, err))) (\<lambda>e. ret_s (c, first_error err e)))" if "err = Some x"
    for m :: "('w, 'v) mact" and f :: "'v \<Rightarrow> 'b" and err c
    using that by (intro yields_catch yields_bind_keeps[OF keeps_True] yields_ret) (simp_all add: first_error_def)
  have catch2: "yields (\<lambda>_. True) (\<lambda>r. snd r = Some x)
      (catch_s (bind_s m (\<lambda>v. bind_s (n v) (\<lambda>u. ret_s (u, err)))) (\<lambda>e. ret_s (c, first_error err e)))" if "err = Some x"
    for m :: "('w, 'v) mact" and n :: "'v \<Rightarrow> ('w, 'b) mact" and err c
    using that by (intro yields_catch yields_bind_keeps[OF keeps_True] yields_ret) (simp_all add: first_error_def)
  show ?thesis
    unfolding settle_retained_def y prod.case
    by (rule yields_bind_keeps[OF keeps_True], rule yields_if, rule yields_ret, rule refl,
        rule yields_bind[OF catch2], rule refl, rule yields_pair,
        rule yields_bind[OF catch], simp, rule yields_pair)
      (intro yields_bind_keeps[OF keeps_True] yields_ret, simp)
qed

lemma fold_keeps_error: "fold_s (settle_retained sv pf) (Some x) ys s = (Inr e, t) \<Longrightarrow> e = Some x"
proof (induction ys arbitrary: s)
  case (Cons y ys)
  from Cons.prems obtain e' s' where "settle_retained sv pf (Some x) y s = (Inr e', s')"
      and rest: "fold_s (settle_retained sv pf) e' ys s' = (Inr e, t)"
    by (auto elim: bind_s_InrE)
  with yieldsD[OF settle_keeps_error] have "e' = Some x" by fastforce
  with rest Cons.IH show ?case by simp
qed (simp add: ret_s_def)

lemma shutdown_finish_run:
  obtains e0 roots e1 s1 now s2 where
    "shutdown_finish sv pf err s =
      ((case e1 of None \<Rightarrow> Inr () | Some e \<Rightarrow> Inl e), s2\<lparr>jobs := interrupt_queued now (jobs s2)\<rparr>)"
    "fold_s (settle_retained sv pf) e0 roots s1 = (Inr e1, s2)"
    "err = None \<or> e0 = err"
proof -
  let ?first = "catch_s (bind_s (world_s (shutdown_backtest_runtimes pf)) (\<lambda>_. ret_s err)) (\<lambda>e. ret_s (first_error err e))"
  obtain e0 s0 where f: "?first s = (Inr e0, s0)" by (rule total_sE[of ?first s]) auto
  have e0: "err = None \<or> e0 = err"
    using f by (auto simp: catch_s_def bind_s_def effect_defs first_error_def split: prod.splits sum.splits option.splits)
  let ?now = "sample_s (utc_now pf)"
  obtain now s1 where n: "?now s0 = (Inr now, s1)" by (rule total_sE[OF total_primitive(4)])
  let ?fold = "fold_s (settle_retained sv pf) e0 (retained_execution_roots s0)"
  obtain e1 s2 where l: "?fold s1 = (Inr e1, s2)" by (rule total_sE[OF total_fold[OF total_settle]])
  have "shutdown_finish sv pf err s =
      ((case e1 of None \<Rightarrow> Inr () | Some e \<Rightarrow> Inl e), s2\<lparr>jobs := interrupt_queued now (jobs s2)\<rparr>)"
    unfolding shutdown_finish_def bind_s_Inr[of ?first s, OF f] bind_s_prim bind_s_Inr[of ?now s0, OF n]
      bind_s_Inr[of ?fold s1, OF l]
    by (simp add: bind_s_def[of "commit_s _"] commit_s_def effect_defs split: option.split)
  from that[OF this l e0] show thesis .
qed



subsection \<open>The end of a task\<close>

lemma update_selected:
  assumes "find_job j db = Some r" and "status r \<in> set sts" and "\<And>x. job_id (f x) = job_id x"
  shows "find_job j (update_where (selects j sts) f db) = Some (f r)"
  using assms find_job_Some[OF assms(1)] by (simp add: find_job_update selects_def)

lemma fail_job_settles:
  assumes "find_job j (jobs s) = Some r" and "active r"
  shows "\<exists>r'. find_job j (jobs (snd (fail_job pf j err ph s))) = Some r' \<and> terminal r'"
proof -
  obtain now w where now: "utc_now pf (world s) = (now, w)" by fastforce
  let ?s = "s\<lparr>world := w, jobs := snd (fail_active j ph now err (jobs s))\<rparr>"
  have "jobs (snd (fail_job pf j err ph s)) = jobs ?s"
    using now
    by (auto simp: fail_job_def bind_s_def[of "sample_s _"] sample_s_def world_s_def bind_s_def[of "commit_s _"]
        commit_s_def emit_job_def bind_s_def query_s_def emit_def effect_defs split: prod.split sum.split)
  moreover have "find_job j (jobs ?s) = Some (failed_row ph now (take 4000 err) r)"
    using assms by (simp add: fail_active_def update_selected)
  ultimately show ?thesis by (simp add: failed_row_def status_defs)
qed

lemma complete_job_settles:
  assumes "distinct (map job_id (jobs s))" and "find_job j (jobs s) = Some r" and "status r = ''running''"
    and "0 \<le> c" and "c < 2 ^ 63"
  shows "find_job j (jobs (snd (complete_job pf j (finished, c) s))) = Some (finished_row finished c r)"
proof -
  let ?db = "update_where (selects j [''running'']) (finished_row finished c) (jobs s)"
  have "mark_completed j finished c (jobs s) = Inr (True, ?db)"
    using assms by (intro mark_completed_running)
  then have "jobs (snd (complete_job pf j (finished, c) s)) = ?db"
    by (auto simp: complete_job_def bind_s_def commit_s_def emit_job_def query_s_def emit_def effect_defs
        split: sum.split)
  with assms(2,3) show ?thesis by (simp add: update_selected)
qed

text \<open>The cycle counts of the services fit the index.\<close>

definition counts_fit :: "'w services \<Rightarrow> 'w platform \<Rightarrow> bool" where
  "counts_fit sv pf \<longleftrightarrow> (\<forall>j b s finished c s'.
     completed_evidence sv pf j b s = (Inr (Some (finished, c)), s') \<longrightarrow> c < 2 ^ 63)"

lemma evidence_count:
  assumes "completed_evidence sv pf j b s = (Inr (Some (finished, c)), s')"
  shows "0 \<le> c" "jobs s' = jobs s"
  using yieldsD[OF completed_evidence_yields[of "\<lambda>_. True"] _ assms] completed_evidence_jobs[of sv pf j b s] assms
  by auto

lemma execution_failed_settles:
  assumes "distinct (map job_id (jobs s))" and "find_job (task_job task) (jobs s) = Some r" and "status r = ''running''"
    and "\<not> runtime_process_authority pf (task_job task) (world s)" and "counts_fit sv pf"
  shows "\<exists>r'. find_job (task_job task) (jobs (snd (execution_failed sv pf task exc s))) = Some r' \<and> terminal r'"
proof -
  let ?j = "task_job task"
  obtain res s1 where ev: "completed_evidence sv pf ?j (task_backtest task) s = (res, s1)" by fastforce
  have jobs1: "jobs s1 = jobs s"
    using completed_evidence_jobs[of sv pf ?j "task_backtest task" s] ev by simp
  have fails: "\<exists>r'. find_job ?j (jobs (snd (bind_s (fail_job pf ?j err ph) (\<lambda>_. ret_s ()) s1))) = Some r' \<and> terminal r'"
    for err ph
    using fail_job_settles[of ?j s1 r pf err ph] assms(2,3) jobs1
    by (auto simp: bind_s_def ret_s_def status_defs split: prod.split sum.split)
  show ?thesis
  proof (cases "\<exists>f c. res = Inr (Some (f, c))")
    case True
    then obtain f c where res: "res = Inr (Some (f, c))" by blast
    with ev assms(5) have c: "0 \<le> c" "c < 2 ^ 63"
      using evidence_count(1) by (fastforce simp: counts_fit_def)+
    have "execution_failed sv pf task exc s = complete_job pf ?j (f, c) s1"
      using assms(4) ev res
      by (simp add: execution_failed_def Let_def bind_s_def[of "catch_s _ _"] catch_s_def bind_s_def[of "completed_evidence _ _ _ _"] ret_s_def)
    with complete_job_settles[of s1 ?j r c pf f] assms(1-3) c jobs1 show ?thesis
      by (simp add: finished_row_def status_defs)
  next
    case False
    then have "\<exists>v ph. execution_failed sv pf task exc s =
        bind_s (fail_job pf ?j (execution_error exc v) ph) (\<lambda>_. ret_s ()) s1"
      using assms(4) ev
      by (cases res; auto simp: execution_failed_def Let_def bind_s_def[of "catch_s _ _"] catch_s_def
          bind_s_def[of "completed_evidence _ _ _ _"] ret_s_def split: option.split)
    with fails show ?thesis by auto
  qed
qed

lemma find_job_develops:
  assumes "table_develops db db'" and "find_job j db = Some r"
  shows "\<exists>r'. find_job j db' = Some r' \<and> develops r r'"
proof -
  have "list_all2 develops xs ys \<Longrightarrow> find_job j xs = Some r \<Longrightarrow>
      \<exists>r'. find_job j (ys @ zs) = Some r' \<and> develops r r'" for xs ys zs
    by (induction xs ys rule: list_all2_induct) (auto simp: find_job_def develops_job_id split: if_splits)
  from this[of db "take (length db) db'" "drop (length db) db'"] assms show ?thesis
    by (simp add: table_develops_def)
qed

lemma terminal_persists:
  assumes "keeps (\<lambda>t. table_develops db (jobs t)) m" and "jobs s = db" and "find_job j db = Some r" and "terminal r"
  shows "find_job j (jobs (snd (m s))) = Some r"
proof -
  have "table_develops db (jobs (snd (m s)))" using valid_snd[OF assms(1)] assms(2) by simp
  from find_job_develops[OF this assms(3)] assms(4) show ?thesis by (auto simp: develops_def)
qed

lemma finally_jobs:
  assumes "\<And>t. jobs (snd (f t)) = jobs t"
  shows "jobs (snd (finally_s m f s)) = jobs (snd (m s))"
  using assms by (auto simp: finally_s_def split: prod.split sum.split) (metis snd_conv)+

lemma close_task_jobs:
  "jobs (snd (close_task sv pf task exc s)) =
     (case exc of None \<Rightarrow> jobs s | Some e \<Rightarrow> jobs (snd (execution_failed sv pf task e s)))"
proof -
  have "jobs (snd (release_root pf j t)) = jobs t" for j t
    by (simp add: release_root_def effect_defs)
  then show ?thesis
    unfolding close_task_def by (auto simp: finally_jobs modify_s_def drop_task_def ret_s_def split: option.split)
qed

lemma close_task_drops:
  "task_job task \<notin> (task_job \<circ> fst) ` set (running_tasks (snd (close_task sv pf task exc s)))"
  by (auto simp: close_task_def finally_s_def[of _ "modify_s _"] modify_s_def drop_task_def split: prod.split)

lemma run_guarded_run:
  "run_guarded sv pf task body s =
     (case body s of (Inl e, t) \<Rightarrow> close_task sv pf task (Some e) t | (Inr _, t) \<Rightarrow> close_task sv pf task None t)"
  by (auto simp: run_guarded_def bind_s_def catch_s_def ret_s_def split: prod.split sum.split)

lemma run_guarded_drops:
  "task_job task \<notin> (task_job \<circ> fst) ` set (running_tasks (snd (run_guarded sv pf task body s)))"
proof (cases "body s")
  case (Pair res t)
  then show ?thesis
    by (cases res) (simp_all only: run_guarded_run prod.case sum.case close_task_drops not_False_eq_True)
qed

text \<open>\<^bold>\<open>C22\<close>. A task that ends settles its job: when the launcher of a running job returns or raises and no
  process of the job survives, then afterwards the job is completed or failed, whatever the
  services answered, and the task has left the pool.\<close>

theorem finished_task_is_terminal:
  assumes "distinct (map job_id (jobs s))" and "find_job (task_job task) (jobs s) = Some r" and "status r = ''running''"
    and "\<And>w. \<not> runtime_process_authority pf (task_job task) w" and "counts_fit sv pf"
    and "s' = snd (execute_return sv pf task s) \<or> s' = snd (execute_raise sv pf task exc s)"
  shows "(\<exists>r'. find_job (task_job task) (jobs s') = Some r' \<and> terminal r') \<and>
    task_job task \<notin> (task_job \<circ> fst) ` set (running_tasks s')"
proof -
  let ?j = "task_job task"
  have failed: "\<exists>r'. find_job ?j (jobs (snd (close_task sv pf task (Some e) t))) = Some r' \<and> terminal r'"
    if "jobs t = jobs s" for e t
    using execution_failed_settles[of t task r pf sv e] assms(1-5) that by (simp add: close_task_jobs)
  let ?body = "bind_s (completed_evidence sv pf ?j (task_backtest task)) (\<lambda>found. case found of
      None \<Rightarrow> raise_s (RuntimeError ''Backtest Runtime returned without committing its sealed Result.'')
    | Some e \<Rightarrow> complete_job pf ?j e)"
  obtain res s1 where ev: "completed_evidence sv pf ?j (task_backtest task) s = (res, s1)" by fastforce
  have s1: "jobs s1 = jobs s" using completed_evidence_jobs[of sv pf ?j "task_backtest task" s] ev by simp
  have returned: "\<exists>r'. find_job ?j (jobs (snd (run_guarded sv pf task ?body s))) = Some r' \<and> terminal r'"
  proof (cases "\<exists>f c. res = Inr (Some (f, c))")
    case True
    then obtain f c where res: "res = Inr (Some (f, c))" by blast
    with ev assms(5) have c: "0 \<le> c" "c < 2 ^ 63" using evidence_count(1) by (fastforce simp: counts_fit_def)+
    obtain res2 s2 where s2: "complete_job pf ?j (f, c) s1 = (res2, s2)" by fastforce
    with complete_job_settles[of s1 ?j r c pf f] assms(1-3) c s1
    have done2: "find_job ?j (jobs s2) = Some (finished_row f c r)" by simp
    have "find_job ?j (jobs (snd (close_task sv pf task exc' s2))) = Some (finished_row f c r)" for exc'
      by (rule terminal_persists[OF development.keeps_close_task refl done2]) (simp_all add: finished_row_def status_defs)
    moreover have "?body s = (res2, s2)" using ev res s2 by (simp add: bind_s_def)
    ultimately show ?thesis
      by (auto simp: run_guarded_run finished_row_def status_defs split: sum.split)
  next
    case False
    then have "\<exists>e. ?body s = (Inl e, s1)" using ev by (cases res) (auto simp: bind_s_def raise_s_def split: option.split)
    with failed[OF s1] show ?thesis by (auto simp: run_guarded_run)
  qed
  have raised: "\<exists>r'. find_job ?j (jobs (snd (run_guarded sv pf task (raise_s exc) s))) = Some r' \<and> terminal r'"
    using failed[OF refl] by (simp add: run_guarded_run raise_s_def)
  from assms(6) show ?thesis
    using returned raised run_guarded_drops unfolding execute_return_def execute_raise_def by blast
qed

lemma example_counts_fit: "counts_fit example_services example_platform"
proof -
  have three: "n = 3" if "bind_r (subscript v ''metrics'') (\<lambda>x. subscript x ''cycleCount'') = Inr (PInt n)"
    and "subscript v ''metrics'' = subscript example_validation ''metrics''" for n v
    using that by (simp add: example_validation_def)
  have "n = 3" if "completed_evidence example_services example_platform j b s = (Inr (Some (finished, n)), s')"
    for j b s finished n s'
    using completed_evidence_facts[OF that]
    by (elim exE conjE) (auto intro: three simp: example_services_def ret_s_def split: if_splits)
  then show ?thesis unfolding counts_fit_def by fastforce
qed

theorem finished_task_is_terminal_witness:
  "\<exists>r. find_job ''job0'' (jobs (snd (execute_return example_services example_platform
      (hd (pending_tasks submitted_manager)) running_manager))) = Some r \<and> terminal r"
proof -
  let ?t = "hd (pending_tasks submitted_manager)"
  have "find_job (task_job ?t) (jobs running_manager) = Some (started ''now'' submitted_row)"
    by (simp add: running_jobs submitted_tasks find_job_def started_def submitted_row_def queued_row_def)
  from finished_task_is_terminal[OF _ this _ _ example_counts_fit disjI1[OF refl]]
  show ?thesis
    by (simp add: running_jobs started_def submitted_tasks example_platform_def)
qed

subsection \<open>Restart\<close>

lemma commit_mark_completed:
  assumes "distinct (map job_id (jobs s))" and "find_job j (jobs s) = Some r" and "status r = ''running''"
    and "0 \<le> c" and "c < 2 ^ 63"
  shows "bind_s (commit_s (mark_completed j finished c)) (\<lambda>_. ret_s ()) s =
    (Inr (), s\<lparr>jobs := update_where (selects j [''running'']) (finished_row finished c) (jobs s)\<rparr>)"
  using mark_completed_running[OF assms] by (simp add: bind_s_def commit_s_def ret_s_def)

text \<open>The completions found are marked one after the other, whatever their order.\<close>

lemma mark_all_completed:
  assumes "distinct (map job_id (jobs s))" and "distinct (map fst found)"
    and "\<forall>(j, f, c) \<in> set found. 0 \<le> c \<and> c < 2 ^ 63 \<and> (\<exists>r. find_job j (jobs s) = Some r \<and> status r = ''running'')"
  shows "\<exists>s'. iter_s (\<lambda>(j, f, c). bind_s (commit_s (mark_completed j f c)) (\<lambda>_. ret_s ())) found s = (Inr (), s')"
  using assms
proof (induction found arbitrary: s)
  case (Cons x found)
  obtain j f c where x: "x = (j, f, c)" by (cases x) auto
  from Cons.prems x obtain r where r: "find_job j (jobs s) = Some r" "status r = ''running''" "0 \<le> c" "c < 2 ^ 63" by auto
  let ?s = "s\<lparr>jobs := update_where (selects j [''running'']) (finished_row f c) (jobs s)\<rparr>"
  note step = commit_mark_completed[OF Cons.prems(1) r, of f]
  have "find_job j' (jobs ?s) = find_job j' (jobs s)" if "j' \<noteq> j" for j'
    using that find_job_Some[of j' "jobs s"]
    by (cases "find_job j' (jobs s)") (auto simp: find_job_update selects_def)
  moreover have "distinct (map job_id (jobs ?s))"
    using Cons.prems(1) by (simp add: complete.update_ids)
  ultimately have "\<exists>s'. iter_s (\<lambda>(j, f, c). bind_s (commit_s (mark_completed j f c)) (\<lambda>_. ret_s ())) found ?s = (Inr (), s')"
    using Cons.prems x by (intro Cons.IH) (force simp: image_iff)+
  with step show ?case by (simp add: x bind_s_def[of "bind_s _ _"])
qed (simp add: ret_s_def)

lemma map_s_total:
  assumes "\<And>x t. x \<in> set xs \<Longrightarrow> I t \<Longrightarrow> \<exists>y t'. f x t = (Inr y, t') \<and> I t' \<and> A x y" and "I s"
  shows "\<exists>ys t. map_s f xs s = (Inr ys, t) \<and> I t \<and> list_all2 A xs ys"
  using assms
proof (induction xs arbitrary: s)
  case (Cons x xs)
  from Cons.prems(1)[of x s] Cons.prems(2) obtain y t where y: "f x s = (Inr y, t)" "I t" "A x y" by auto
  with Cons.IH[of t] Cons.prems(1) obtain ys u where "map_s f xs t = (Inr ys, u)" "I u" "list_all2 A xs ys" by auto
  with y show ?case by (simp add: bind_s_def ret_s_def)
qed (simp add: ret_s_def)

definition found_for :: "string \<times> string \<times> string \<Rightarrow> (string \<times> string \<times> int) list \<Rightarrow> bool" where
  "found_for = (\<lambda>(j, b, st) ys. ys = [] \<or> st = ''running'' \<and> (\<exists>f c. ys = [(j, f, c)] \<and> 0 \<le> c \<and> c < 2 ^ 63))"

lemma found_for_mem:
  "list_all2 found_for refs ys \<Longrightarrow> (j, f, c) \<in> set (concat ys) \<Longrightarrow>
     0 \<le> c \<and> c < 2 ^ 63 \<and> (\<exists>b. (j, b, ''running'') \<in> set refs)"
proof (induction rule: list_all2_induct)
  case (Cons x xs y ys)
  show ?case
  proof (cases "(j, f, c) \<in> set y")
    case True
    with Cons(1) show ?thesis by (auto simp: found_for_def split: prod.splits)
  next
    case False
    with Cons show ?thesis by auto
  qed
qed simp

lemma found_for_distinct:
  "list_all2 found_for refs ys \<Longrightarrow> distinct (map fst refs) \<Longrightarrow> distinct (map fst (concat ys))"
proof (induction rule: list_all2_induct)
  case (Cons x xs y ys)
  have "fst ` set (concat ys) \<subseteq> fst ` set xs"
    using found_for_mem[OF Cons(2)] by (force simp del: set_concat)
  with Cons.prems have "fst x \<notin> fst ` set (concat ys)" by auto
  moreover have "y = [] \<or> (\<exists>f c. y = [(fst x, f, c)])"
    using Cons(1) by (auto simp: found_for_def split: prod.splits)
  ultimately show ?case using Cons by (elim disjE exE) (simp_all del: set_concat)
qed simp

lemma active_references_running:
  assumes "(j, b, ''running'') \<in> set (active_references db)" and "distinct (map job_id db)"
  shows "\<exists>r. find_job j db = Some r \<and> status r = ''running''"
  using assms by (auto simp: active_references_def find_job_distinct)

lemma active_references_distinct: "distinct (map job_id db) \<Longrightarrow> distinct (map fst (active_references db))"
  by (auto simp: active_references_def comp_def distinct_map inj_on_def)

lemma collect_evidence:
  fixes sv :: "'w services"
  assumes "\<And>j b s. jobs s = db \<Longrightarrow> W (world s) \<Longrightarrow>
      \<exists>found s'. completed_evidence sv pf j b s = (Inr found, s') \<and> W (world s')"
    and "counts_fit sv pf" and "jobs s = db \<and> W (world s)"
  shows "\<exists>ys t. map_s (\<lambda>(j, b, st). if st \<noteq> ''running'' then ret_s []
      else bind_s (completed_evidence sv pf j b) (\<lambda>found. ret_s (case found of None \<Rightarrow> [] | Some e \<Rightarrow> [(j, e)]))) refs s
    = (Inr ys, t) \<and> jobs t = db \<and> list_all2 found_for refs ys"
proof -
  let ?f = "\<lambda>(j, b, st). if st \<noteq> ''running'' then ret_s []
      else bind_s (completed_evidence sv pf j b) (\<lambda>found. ret_s (case found of None \<Rightarrow> [] | Some e \<Rightarrow> [(j, e)]))"
  have "\<exists>y t'. ?f x t = (Inr y, t') \<and> (jobs t' = db \<and> W (world t')) \<and> found_for x y"
    if t: "jobs t = db \<and> W (world t)" for x :: "string \<times> string \<times> string" and t :: "'w manager"
  proof -
  obtain j b st where x: "x = (j, b, st)" by (cases x) auto
  obtain found t' where e: "completed_evidence sv pf j b t = (Inr found, t')" and w: "W (world t')"
    using assms(1)[of t] t by blast
  moreover have "jobs t' = db" using completed_evidence_jobs[of sv pf j b t] e t by simp
  moreover have "0 \<le> c \<and> c < 2 ^ 63" if "found = Some (f, c)" for f c
    using that e evidence_count(1) assms(2) by (fastforce simp: counts_fit_def)
  ultimately show ?thesis
    using t w by (cases found) (auto simp: x found_for_def ret_s_def bind_s_def)
  qed
  with map_s_total[of refs "\<lambda>t. jobs t = db \<and> W (world t)" ?f found_for s] assms(3) show ?thesis by blast
qed


lemma example_evidence_total:
  assumes "jobs s = [started ''now'' submitted_row]" and "catalog (world s) = [(''backtest1'', sealed_row)]"
  shows "\<exists>found s'. completed_evidence example_services example_platform j b s = (Inr found, s') \<and>
    catalog (world s') = [(''backtest1'', sealed_row)]"
proof -
  let ?r = "started ''now'' submitted_row"
  have row: "job_id ?r = ''job0''" "backtest_id ?r = ''backtest1''" "request_json ?r = example_request"
    "pipeline_id ?r = ''x''" "dataset_id ?r = ''d''" "snapshot_hash ?r = example_hash" "active ?r"
    by (simp_all add: started_def submitted_row_def queued_row_def status_defs)
  have ev: "require_request_evidence (digest_of example_platform) example_request ''x'' ''d'' (PStr example_hash) = Inr example_request"
    by code_simp
  have rq: "active_request_for_job (digest_of example_platform) j b (jobs s) =
      Inr (if j = ''job0'' \<and> b = ''backtest1'' then Some example_request else None)"
    unfolding assms(1) active_request_for_job_def using row ev by auto
  have final: "catalog_final sealed_row" by (simp add: catalog_final_def sealed_row_def)
  have ce: "catalog_evidence sealed_row example_validation = Inr (''later'', 3)" by code_simp
  show ?thesis
    using rq ce final assms(2)
    by (auto simp: completed_evidence_def bind_s_def query_s_def world_s_def effect_defs example_services_def
        example_platform_def)
qed


subsection \<open>The pool\<close>

abbreviation pool_fits :: "nat \<Rightarrow> 'w manager \<Rightarrow> bool" where
  "pool_fits n s \<equiv> length (running_tasks s) \<le> n"

lemma within_quiet:
  "keeps (pool_fits n) (world_s m)" "keeps (pool_fits n) (sample_s g)" "keeps (pool_fits n) (query_s q)"
  "keeps (pool_fits n) (emit pf ev job)" "keeps (pool_fits n) (commit_s u)"
  by (auto simp: valid_def world_s_def sample_s_def query_s_def emit_def modify_s_def commit_s_def
      split: prod.split sum.split)

lemma within_emit_job: "keeps (pool_fits n) (emit_job pf ev j)"
  unfolding emit_job_def by (intro keeps_rules within_quiet)

lemma keeps_pair: "(\<And>a b. r = (a, b) \<Longrightarrow> keeps I (f a b)) \<Longrightarrow> keeps I (case r of (a, b) \<Rightarrow> f a b)"
  by (cases r) simp

lemmas within_rules = keeps_rules keeps_pair within_quiet within_emit_job

lemma within_evidence: "keeps (pool_fits n) (completed_evidence sv pf j b)"
  unfolding completed_evidence_def by (intro within_rules)

lemma within_settling:
  "keeps (pool_fits n) (complete_job pf j e)" "keeps (pool_fits n) (fail_job pf j err ph)"
  unfolding complete_job_def fail_job_def by (intro within_rules)+

lemma within_submit: "keeps (pool_fits n) (submit sv pf mode raw)"
proof -
  have "keeps (pool_fits n) (admit_request sv mode rq)" for rq
    unfolding admit_request_def by (cases mode) (auto intro!: within_rules split: option.split)
  moreover have "keeps (pool_fits n) (executor_submit task)" for task
    unfolding executor_submit_def by (intro within_rules) simp
  ultimately show ?thesis
    unfolding submit_def queue_job_def by (intro within_rules within_settling)
qed

lemma within_execution_failed: "keeps (pool_fits n) (execution_failed sv pf task exc)"
  unfolding execution_failed_def Let_def by (intro within_rules within_evidence within_settling)

lemma within_close_task: "keeps (pool_fits n) (close_task sv pf task exc)"
proof -
  have "keeps (pool_fits n) (release_root pf j)" for j
    unfolding release_root_def by (intro within_rules) simp_all
  then show ?thesis
    unfolding close_task_def
    by (intro within_rules within_execution_failed)
      (auto simp: drop_task_def intro: order_trans[OF length_filter_le])
qed

lemma within_run_guarded: "keeps (pool_fits n) body \<Longrightarrow> keeps (pool_fits n) (run_guarded sv pf task body)"
  unfolding run_guarded_def by (intro within_rules within_close_task)

lemma within_tasks:
  "keeps (pool_fits n) (execute_progress task lw a b d now)"
  "keeps (pool_fits n) (execute_return sv pf task)" "keeps (pool_fits n) (execute_raise sv pf task exc)"
proof -
  show "keeps (pool_fits n) (execute_progress task lw a b d now)"
    unfolding execute_progress_def Let_def by (intro within_rules) (simp add: set_last_write_def)
  show "keeps (pool_fits n) (execute_return sv pf task)" "keeps (pool_fits n) (execute_raise sv pf task exc)"
    unfolding execute_return_def execute_raise_def
    by (intro within_run_guarded within_rules within_evidence within_settling)+
qed

lemma within_shutdown:
  "keeps (pool_fits n) shutdown_begin" "keeps (pool_fits n) (shutdown_finish sv pf err)"
proof -
  have "keeps (pool_fits n) (settle_retained sv pf e x)" for e x
    unfolding settle_retained_def by (intro within_rules within_evidence within_settling) auto
  then show "keeps (pool_fits n) shutdown_begin" "keeps (pool_fits n) (shutdown_finish sv pf err)"
    unfolding shutdown_begin_def shutdown_finish_def by (intro within_rules; simp)+
qed

lemma within_init: "keeps (pool_fits n) (init_manager sv pf)"
  unfolding init_manager_def fail_interrupted_jobs_def by (intro within_rules within_evidence)

lemma within_begin:
  assumes "length (running_tasks s) < n"
  shows "pool_fits n (snd (execute_begin sv pf task s))"
proof -
  have "keeps (pool_fits n) (start_task sv pf task)"
    unfolding start_task_def by (intro within_rules within_close_task)
  moreover have "pool_fits n (take_task task s)" using assms by (simp add: take_task_def)
  ultimately show ?thesis using valid_snd[of "pool_fits n"] by (simp add: execute_begin_def)
qed



subsection \<open>Submission\<close>

definition unchanged :: "job_table \<Rightarrow> job_task list \<Rightarrow> 'w manager \<Rightarrow> bool" where
  "unchanged db pend s \<longleftrightarrow> jobs s = db \<and> pending_tasks s = pend"

definition submission_outcome :: "job_table \<Rightarrow> job_task list \<Rightarrow> public_job res \<Rightarrow> 'w manager \<Rightarrow> bool" where
  "submission_outcome db pend outcome s \<longleftrightarrow>
     (case outcome of
        Inl e \<Rightarrow> pending_tasks s = pend \<and> (jobs s = db \<or> (\<exists>row. jobs s = db @ [row] \<and> status row = ''failed''))
      | Inr job \<Rightarrow> jobs s = db @ [pub_row job] \<and> status (pub_row job) = ''queued'' \<and>
          (\<exists>task. pending_tasks s = pend @ [task] \<and> task_job task = job_id (pub_row job) \<and>
             task_backtest task = backtest_id (pub_row job) \<and> task_request task = request_json (pub_row job)))"

lemma unchanged_quiet:
  "keeps (unchanged db pend) (world_s m)" "keeps (unchanged db pend) (sample_s g)"
  "keeps (unchanged db pend) (query_s q)" "keeps (unchanged db pend) (emit pf ev job)"
  by (auto simp: unchanged_def valid_def world_s_def sample_s_def query_s_def emit_def modify_s_def split: prod.split)

lemma outcome_bind:
  assumes "yields (unchanged db pend) A m" and "\<And>x. A x \<Longrightarrow> valid (unchanged db pend) (f x) (submission_outcome db pend)"
  shows "valid (unchanged db pend) (bind_s m f) (submission_outcome db pend)"
  using assms unfolding yields_def
  by (intro valid_bind[where R = "\<lambda>r s. unchanged db pend s \<and> (\<forall>x. r = Inr x \<longrightarrow> A x)"])
    (auto simp: valid_def submission_outcome_def unchanged_def)

lemma outcome_bind_quiet:
  assumes "keeps (unchanged db pend) m" and "\<And>x. valid (unchanged db pend) (f x) (submission_outcome db pend)"
  shows "valid (unchanged db pend) (bind_s m f) (submission_outcome db pend)"
  by (rule outcome_bind[where A = "\<lambda>_. True"]) (use assms in \<open>auto intro: keeps_yields\<close>)

lemma queue_job_outcome:
  assumes "unchanged db pend s" and "queue_job pf j b p d rq s = (res, t)"
  shows "case res of Inl e \<Rightarrow> unchanged db pend t
    | Inr _ \<Rightarrow> pending_tasks t = pend \<and> j \<notin> set (map job_id db) \<and>
        (\<exists>now w h ds. now = fst (utc_now pf w) \<and> jobs t = db @ [queued_row j b p d rq now (str_of h)] \<and>
           insert_queued (digest_of pf) ds j b p d rq now h db = Inr (jobs t))"
proof -
  obtain now w where now: "utc_now pf (world s) = (now, w)" by fastforce
  let ?s = "s\<lparr>world := w\<rparr>"
  let ?h = "bind_r (subscript rq ''executionSnapshot'') (\<lambda>v. subscript v ''snapshotHash'')"
  have run: "queue_job pf j b p d rq s = (case ?h of Inl e \<Rightarrow> (Inl e, ?s)
      | Inr h \<Rightarrow> commit_s (\<lambda>db. no_result (insert_queued (digest_of pf) (dataset_ids pf w) j b p d rq now h db)) ?s)"
    using now by (auto simp: queue_job_def bind_s_def sample_s_def world_s_def effect_defs split: sum.split)
  show ?thesis
  proof (cases ?h)
    case (Inl e)
    with run assms show ?thesis by (simp add: unchanged_def)
  next
    case (Inr h)
    let ?ins = "insert_queued (digest_of pf) (dataset_ids pf w) j b p d rq now h db"
    show ?thesis
    proof (cases ?ins)
      case (Inl e)
      with run assms Inr show ?thesis by (auto simp: unchanged_def commit_s_def no_result_def)
    next
      case (Inr db')
      have "res = Inr () \<and> t = ?s\<lparr>jobs := db'\<rparr>"
        using run assms \<open>?h = Inr h\<close> Inr by (auto simp: unchanged_def commit_s_def no_result_def)
      with insert_queued_InrD(1,2)[OF Inr] Inr assms(1) now show ?thesis
        by (auto simp: unchanged_def intro!: exI[of _ now] exI[of _ "world s"] exI[of _ h] exI[of _ "dataset_ids pf w"])
    qed
  qed
qed

lemma fail_job_last:
  assumes "jobs s = db @ [row]" and "job_id row = j" and "j \<notin> set (map job_id db)" and "active row"
  shows "\<exists>row'. jobs (snd (fail_job pf j err ph s)) = db @ [row'] \<and> status row' = ''failed'' \<and>
    pending_tasks (snd (fail_job pf j err ph s)) = pending_tasks s"
proof -
  obtain now w where now: "utc_now pf (world s) = (now, w)" by fastforce
  have "update_where (selects j active_statuses) (failed_row ph now (take 4000 err)) db = db"
    using assms(3) by (auto simp: update_where_def selects_def intro!: map_idI)
  then have "snd (fail_active j ph now err (jobs s)) = db @ [failed_row ph now (take 4000 err) row]"
    using assms by (simp add: fail_active_def update_where_def selects_def)
  then have "jobs (snd (fail_job pf j err ph s)) = db @ [failed_row ph now (take 4000 err) row]"
    "pending_tasks (snd (fail_job pf j err ph s)) = pending_tasks s"
    using now
    by (auto simp: fail_job_def bind_s_def sample_s_def world_s_def commit_s_def emit_job_def query_s_def emit_def
        effect_defs split: prod.split sum.split)
  then show ?thesis by (simp add: failed_row_def)
qed

definition announce_and_schedule :: "'w platform \<Rightarrow> string \<Rightarrow> string \<Rightarrow> pyval \<Rightarrow> ('w, public_job) mact" where
  "announce_and_schedule pf j b request =
     bind_s (query_s (get_job j)) (\<lambda>job.
     bind_s (emit pf ''backtest.job.submitted'' job) (\<lambda>_.
     bind_s (catch_s (executor_submit \<lparr>task_job = j, task_backtest = b, task_request = request\<rparr>) (\<lambda>e.
       bind_s (fail_job pf j (error_message e) ''failed'') (\<lambda>_. raise_s e))) (\<lambda>_.
     ret_s job)))"

lemma announce_and_schedule_outcome:
  assumes "table_ok (db @ [row])" and "jobs s = db @ [row]" and "pending_tasks s = pend"
    and row: "row = queued_row j b p d rq now h"
  shows "submission_outcome db pend (fst (announce_and_schedule pf j b rq s)) (snd (announce_and_schedule pf j b rq s))"
proof -
  let ?job = "\<lparr>pub_row = row, progress = job_progress row\<rparr>"
  have get: "get_job j (jobs s) = Inr ?job"
    using get_job_table_ok[OF assms(1), of row] assms(2) by (simp add: row queued_row_def)
  define t where "t = snd (emit pf ''backtest.job.submitted'' ?job s)"
  have t: "jobs t = db @ [row]" "pending_tasks t = pend"
    using assms by (simp_all add: t_def emit_def modify_s_def)
  have fields: "job_id row = j" "backtest_id row = b" "request_json row = rq" "status row = ''queued''"
    by (simp_all add: row queued_row_def)
  have fresh: "j \<notin> set (map job_id db)" using assms(1) fields by (simp add: table_ok_def)
  let ?sub = "executor_submit \<lparr>task_job = j, task_backtest = b, task_request = rq\<rparr>"
  have run: "announce_and_schedule pf j b rq s =
      bind_s (catch_s ?sub (\<lambda>e. bind_s (fail_job pf j (error_message e) ''failed'') (\<lambda>_. raise_s e))) (\<lambda>_. ret_s ?job) t"
    using get by (simp add: announce_and_schedule_def bind_s_def[of "query_s _"] query_s_def t_def emit_def modify_s_def
        bind_s_def[of "modify_s _"])
  show ?thesis
  proof (cases "executor_open t")
    case True
    then have "announce_and_schedule pf j b rq s =
        (Inr ?job, t\<lparr>pending_tasks := pend @ [\<lparr>task_job = j, task_backtest = b, task_request = rq\<rparr>]\<rparr>)"
      unfolding run using t by (simp add: bind_s_def catch_s_def executor_submit_def effect_defs)
    then show ?thesis using t fields by (simp add: submission_outcome_def)
  next
    case False
    let ?e = "RuntimeError ''cannot schedule new futures after shutdown''"
    let ?f = "fail_job pf j (error_message ?e) ''failed''"
    obtain e where "announce_and_schedule pf j b rq s = (Inl e, snd (?f t))"
      unfolding run using False
      by (cases "?f t"; cases "fst (?f t)") (auto simp: bind_s_def catch_s_def executor_submit_def effect_defs)
    moreover obtain row' where "jobs (snd (?f t)) = db @ [row']" "status row' = ''failed''" "pending_tasks (snd (?f t)) = pend"
      using fail_job_last[OF t(1) fields(1) fresh, of pf "error_message ?e" "''failed''"] t(2) fields(4)
      by (auto simp: status_defs)
    ultimately show ?thesis by (simp add: submission_outcome_def)
  qed
qed

lemma submit_tail_outcome:
  fixes pf :: "'w platform"
  assumes "platform_ok pf" and "table_ok db" and "j \<noteq> []" and "p \<noteq> []" and "d \<noteq> []"
    and raises: "\<And>e. \<exists>e'. h e = raise_s e'"
  shows "valid (unchanged db pend)
    (bind_s (catch_s (queue_job pf j b p d rq) h) (\<lambda>_. announce_and_schedule pf j b rq)) (submission_outcome db pend)"
  unfolding valid_def
proof (intro allI impI)
  fix s :: "'w manager" assume s: "unchanged db pend s"
  obtain res t where q: "queue_job pf j b p d rq s = (res, t)" by fastforce
  let ?m = "bind_s (catch_s (queue_job pf j b p d rq) h) (\<lambda>_. announce_and_schedule pf j b rq)"
  show "submission_outcome db pend (fst (?m s)) (snd (?m s))"
  proof (cases res)
    case (Inl e)
    obtain e' where "h e = raise_s e'" using raises by blast
    with queue_job_outcome[OF s q] Inl q show ?thesis
      by (simp add: bind_s_def catch_s_def raise_s_def submission_outcome_def unchanged_def)
  next
    case (Inr u)
    with queue_job_outcome[OF s q] obtain now w hash ds where now: "now = fst (utc_now pf w)"
        and t: "jobs t = db @ [queued_row j b p d rq now (str_of hash)]" "pending_tasks t = pend"
        and ins: "insert_queued (digest_of pf) ds j b p d rq now hash db = Inr (jobs t)" by auto
    have "table_ok (jobs t)"
      using valid_index.keep_insert[OF assms(2) ins] assms now by (simp add: platform_ok_def)
    then have "submission_outcome db pend (fst (announce_and_schedule pf j b rq t)) (snd (announce_and_schedule pf j b rq t))"
      by (intro announce_and_schedule_outcome[OF _ t refl]) (simp add: t)
    with q Inr show ?thesis by (simp add: bind_s_def catch_s_def)
  qed
qed

text \<open>\<^bold>\<open>C20\<close>. A submission leaves a runnable job or none: on a valid index and platform, when \<open>submit\<close>
  returns, its job is the new last row of the index, queued, with a task holding the same
  identity and request at the end of the executor's queue; when it raises, no task was
  added and the index holds either no new row or a failed one, never a job nobody will run.\<close>

theorem submit_leaves_no_orphan:
  assumes "platform_ok pf" and "table_ok (jobs s)"
  shows "submission_outcome (jobs s) (pending_tasks s) (fst (submit sv pf mode raw s)) (snd (submit sv pf mode raw s))"
proof -
  let ?K = "unchanged (jobs s) (pending_tasks s)"
  have admit: "keeps ?K (admit_request sv mode raw)"
    unfolding admit_request_def by (cases mode) (auto intro!: keeps_rules unchanged_quiet split: option.split)
  have id: "yields ?K (\<lambda>x. x \<noteq> []) (sample_s (new_resource_id pf k))" for k
    by (rule keeps_yields, rule unchanged_quiet)
      (use assms(1) in \<open>auto simp: platform_ok_def sample_s_def world_s_def split: prod.splits\<close>, metis fst_conv)
  have "valid ?K (submit sv pf mode raw) (submission_outcome (jobs s) (pending_tasks s))"
    unfolding submit_def announce_and_schedule_def[symmetric]
    apply (rule outcome_bind_quiet, rule keeps_primitive)+
    apply (rule outcome_bind_quiet, rule admit)
    apply (rule outcome_bind_quiet, rule keeps_primitive)
    apply (rule outcome_bind_quiet, rule keeps_primitive)
    apply (rule outcome_bind[OF yields_guard])
    apply (rule outcome_bind[OF yields_guard])
    apply (rule outcome_bind[OF id])
    apply (rule outcome_bind_quiet, rule unchanged_quiet)
    apply (rule submit_tail_outcome[OF assms]; auto simp: valid_index.nonempty_str_of)
    done
  then show ?thesis by (simp add: valid_def unchanged_def)
qed

theorem submit_leaves_no_orphan_witness:
  "\<exists>task. pending_tasks submitted_manager = [task]"
  using submit_leaves_no_orphan[OF example_platform_ok, of empty_manager example_services Direct "PDict []"]
  by (auto simp: submitted_manager_def[symmetric] submitted_tasks empty_manager_def boot_def table_ok_def)

end
