(* ===== verification/Folder_State.thy ===== *)
theory Folder_State
  imports Data_Path Effects "HOL-Library.Product_Lexorder"
begin

section \<open>Repository folders\<close>

text \<open>
  \<open>engine/repository/folders.py\<close>: the virtual folders of the thirteen repositories. A repository holds the
  folders its users made, beside the fixed ones of the Engine, and the folder of each item that is not in
  its default one. The state lives in one JSON file, rewritten as a whole by every change; here the file is
  the value it encodes (\<open>None\<close> when there is none), and a change is atomic, as the exclusive lock of
  \<open>_mutation_lock\<close> makes it. Dates, the lock itself and torn writes are outside the model. \<open>str\<close> of a value
  that is not a string is the parameter \<open>show\<close>.
\<close>

subsection \<open>Text\<close>

text \<open>\<open>str.casefold()\<close> as code points: one character, the sharp s (223) and the micro sign (181) apart\<close>

definition fold_char :: "char \<Rightarrow> nat list" where
  "fold_char c = (let n = (of_char c :: nat) in
     if 65 \<le> n \<and> n \<le> 90 \<or> 192 \<le> n \<and> n \<le> 222 \<and> n \<noteq> 215 then [n + 32]
     else if n = 223 then [115, 115]
     else if n = 181 then [956]
     else [n])"

definition casefold :: "string \<Rightarrow> nat list" where
  "casefold s = concat (map fold_char s)"

text \<open>\<open>re.sub("[^a-z0-9]+", "-", ...).strip("-")\<close>\<close>

definition slug_digit :: "nat \<Rightarrow> bool" where
  "slug_digit n \<longleftrightarrow> 97 \<le> n \<and> n \<le> 122 \<or> 48 \<le> n \<and> n \<le> 57"

fun slug_from :: "bool \<Rightarrow> nat list \<Rightarrow> string" where
  "slug_from gap [] = []"
| "slug_from gap (n # ns) =
     (if slug_digit n then char_of n # slug_from False ns
      else if gap then slug_from True ns else CHR ''-'' # slug_from True ns)"

definition strip_dashes :: "string \<Rightarrow> string" where
  "strip_dashes s = rev (dropWhile ((=) (CHR ''-'')) (rev (dropWhile ((=) (CHR ''-'')) s)))"

definition slug :: "string \<Rightarrow> string" where
  "slug name = strip_dashes (slug_from False (casefold name))"

text \<open>Truth of a value, and \<open>str(x or "")\<close>\<close>

definition py_truthy :: "pyval \<Rightarrow> bool" where
  "py_truthy v = (case v of PNone \<Rightarrow> False | PBool b \<Rightarrow> b | PInt i \<Rightarrow> i \<noteq> 0 | PFloat f \<Rightarrow> \<not> float_iszero f
     | PStr s \<Rightarrow> s \<noteq> [] | PList xs \<Rightarrow> xs \<noteq> [] | PDict kvs \<Rightarrow> kvs \<noteq> [] | PObj _ \<Rightarrow> True)"

definition text_or_empty :: "(pyval \<Rightarrow> string) \<Rightarrow> pyval \<Rightarrow> string" where
  "text_or_empty show v = (if py_truthy v then case v of PStr s \<Rightarrow> s | _ \<Rightarrow> show v else [])"

subsection \<open>Repositories and fixed folders\<close>

definition repositories :: "string list" where
  "repositories = [''modules'', ''analysis-modules'', ''environment-modules'', ''data'', ''backtest'', ''datasets'', ''samplers'',
     ''pipelines'', ''environments'', ''analyses'', ''backtests'', ''scripts'', ''workspaces'']"

definition module_fixed_folders :: "string list" where
  "module_fixed_folders = [''Universe'', ''Signal'', ''Target'', ''Constraint'']"

definition repository_kinds :: "string \<Rightarrow> string list" where
  "repository_kinds repository =
     (if repository = ''modules'' then module_fixed_folders
      else if repository = ''analysis-modules'' then [''Analyzer'']
      else if repository = ''environment-modules'' then [''Environment'']
      else [])"

definition flat_repository :: "string \<Rightarrow> bool" where
  "flat_repository repository \<longleftrightarrow> repository = ''analysis-modules'' \<or> repository = ''environment-modules''"

definition module_repository :: "string \<Rightarrow> bool" where
  "module_repository repository \<longleftrightarrow> repository = ''modules'' \<or> flat_repository repository"

record folder =
  f_name :: string
  f_parent :: string

type_synonym folders = "(string \<times> folder) list"

definition fixed_folder_id :: "string \<Rightarrow> string" where
  "fixed_folder_id name = ''modules-fixed-'' @ slug name"

definition builtin_folder_id :: "string \<Rightarrow> string" where
  "builtin_folder_id name = fixed_folder_id name @ ''-builtin''"

definition repository_builtin_folder_id :: "string \<Rightarrow> string" where
  "repository_builtin_folder_id repository = repository @ ''-fixed-builtin''"

definition fixed_folders :: "string \<Rightarrow> folders" where
  "fixed_folders repository =
     (if repository = ''modules''
      then concat (map (\<lambda>name. [(fixed_folder_id name, \<lparr>f_name = name, f_parent = []\<rparr>),
        (builtin_folder_id name, \<lparr>f_name = ''BuiltIn'', f_parent = fixed_folder_id name\<rparr>)]) module_fixed_folders)
      else if flat_repository repository
      then [(repository_builtin_folder_id repository, \<lparr>f_name = ''BuiltIn'', f_parent = []\<rparr>)]
      else [])"

text \<open>\<open>{**fixed, **stored}\<close>\<close>

definition all_folders :: "string \<Rightarrow> folders \<Rightarrow> folders" where
  "all_folders repository stored = dict_of (fixed_folders repository @ stored)"

subsection \<open>The hierarchy\<close>

definition parent_of :: "folders \<Rightarrow> string \<Rightarrow> string" where
  "parent_of fs folder_id = (case map_of fs folder_id of None \<Rightarrow> [] | Some f \<Rightarrow> f_parent f)"

text \<open>\<open>_is_descendant\<close>: a walk along the parents, stopped at a folder seen before\<close>

lemma unseen_decrease:
  "x \<in> set ids \<Longrightarrow> x \<notin> set seen \<Longrightarrow> card (set ids - insert x (set seen)) < card (set ids - set seen)"
  by (rule psubset_card_mono) auto

function walk :: "folders \<Rightarrow> string \<Rightarrow> string list \<Rightarrow> string \<Rightarrow> bool" where
  "walk fs ancestor seen current =
     (if current = [] \<or> current \<in> set seen then False
      else if current = ancestor then True
      else walk fs ancestor (current # seen) (parent_of fs current))"
  by pat_completeness auto

termination
proof (relation "measure (\<lambda>(fs, ancestor, seen, current).
    2 * card (set (keys_of fs) - set seen) + (if current = [] then 0 else 1))", goal_cases)
  case (2 fs ancestor seen current)
  show ?case
  proof (cases "current \<in> set (keys_of fs)")
    case True
    with 2 have "card (set (keys_of fs) - insert current (set seen)) < card (set (keys_of fs) - set seen)"
      by (intro unseen_decrease) auto
    then show ?thesis using 2 by (simp del: set_map)
  next
    case False
    then have "map_of fs current = None" by (simp add: map_of_eq_None_iff)
    then have "parent_of fs current = []" by (simp add: parent_of_def)
    moreover have "set (keys_of fs) - insert current (set seen) = set (keys_of fs) - set seen" using False by blast
    ultimately show ?thesis using 2 by (simp del: set_map)
  qed
qed simp

declare walk.simps [simp del]

definition is_descendant :: "folders \<Rightarrow> string \<Rightarrow> string \<Rightarrow> bool" where
  "is_descendant fs folder_id ancestor = walk fs ancestor [] folder_id"

text \<open>\<open>resolve\<close> of \<open>_folder_paths\<close>: the paths found so far come in and go out.\<close>

function resolve_folder :: "folders \<Rightarrow> string list \<Rightarrow> string \<Rightarrow> (string \<times> string) list \<Rightarrow> (string \<times> (string \<times> string) list) res" where
  "resolve_folder fs visiting folder_id paths =
     (case map_of paths folder_id of
        Some path \<Rightarrow> Inr (path, paths)
      | None \<Rightarrow>
          if folder_id \<in> set visiting \<or> folder_id \<notin> set (keys_of fs)
          then Inl (ValueError (''Repository folder hierarchy is invalid at '' @ quoted folder_id @ ''.''))
          else case map_of fs folder_id of
              None \<Rightarrow> Inl (KeyError folder_id)
            | Some f \<Rightarrow>
                bind_r (resolve_folder fs (folder_id # visiting) (f_parent f) paths) (\<lambda>(parent_path, paths').
                let name = strip (f_name f);
                    path = (if parent_path = ''/'' then ''/'' @ name else parent_path @ ''/'' @ name) in
                Inr (path, AList.update folder_id path paths')))"
  by pat_completeness auto

termination
  by (relation "measure (\<lambda>(fs, visiting, folder_id, paths). card (set (keys_of fs) - set visiting))")
    (auto simp del: set_map card_Diff_insert intro: unseen_decrease)

declare resolve_folder.simps [simp del]

definition folder_paths :: "folders \<Rightarrow> (string \<times> string) list res" where
  "folder_paths fs = fold_r (\<lambda>folder_id paths. bind_r (resolve_folder fs [] folder_id paths) (\<lambda>(path, paths'). Inr paths'))
     (keys_of fs) [([], ''/'')]"

subsection \<open>Validation of the file\<close>

record folder_state =
  fs_folders :: "(string \<times> folders) list"
  fs_assignments :: "(string \<times> (string \<times> string) list) list"

definition empty_state :: folder_state where
  "empty_state = \<lparr>fs_folders = map (\<lambda>r. (r, [])) repositories, fs_assignments = map (\<lambda>r. (r, [])) repositories\<rparr>"

definition schema_version :: int where
  "schema_version = 9"

text \<open>Python's equality with a small version number: \<open>8\<close>, \<open>8.0\<close>, \<open>9\<close>, \<open>9.0\<close>\<close>

definition is_version :: "int \<Rightarrow> pyval \<Rightarrow> bool" where
  "is_version n v \<longleftrightarrow> v = PInt n \<or> n = 8 \<and> v = PFloat 0x4020000000000000 \<or> n = 9 \<and> v = PFloat 0x4022000000000000"

definition get_field :: "(pykey \<times> pyval) list \<Rightarrow> string \<Rightarrow> pyval" where
  "get_field d name = (case map_of d (KStr name) of None \<Rightarrow> PNone | Some v \<Rightarrow> v)"

definition has_fields :: "(pykey \<times> pyval) list \<Rightarrow> string list \<Rightarrow> bool" where
  "has_fields d names \<longleftrightarrow> set (keys_of d) = KStr ` set names"

definition validate_name :: "string \<Rightarrow> string res" where
  "validate_name raw =
     (let name = strip raw in
      if name = [] then Inl (ValueError ''Folder name is required.'')
      else if 80 < length name then Inl (ValueError ''Folder name must be 80 characters or fewer.'')
      else if CHR ''/'' \<in> set name \<or> CHR 0x5C \<in> set name \<or> name = ''.'' \<or> name = ''..''
      then Inl (ValueError ''Folder name cannot contain path separators.'')
      else Inr name)"

definition check_folder :: "(pyval \<Rightarrow> string) \<Rightarrow> string \<Rightarrow> pykey \<times> pyval \<Rightarrow> (string \<times> folder) res" where
  "check_folder show repository = (\<lambda>(k, raw). case k of
       KOther _ \<Rightarrow> Inl (ValueError (''Repository '' @ quoted repository @ '' contains an invalid folder ID.''))
     | KStr folder_id \<Rightarrow>
         if folder_id = [] then Inl (ValueError (''Repository '' @ quoted repository @ '' contains an invalid folder ID.''))
         else (case raw of
             PDict d \<Rightarrow>
               if \<not> has_fields d [''folderId'', ''name'', ''parentId'', ''fixed'']
               then Inl (ValueError (''Repository folder '' @ quoted folder_id @ '' does not match the current schema.''))
               else if get_field d ''folderId'' \<noteq> PStr folder_id
               then Inl (ValueError (''Repository folder identity mismatch: '' @ folder_id))
               else if get_field d ''fixed'' \<noteq> PBool False
               then Inl (ValueError ''Fixed repository folders are Engine definitions and cannot be stored as mutable state.'')
               else bind_r (validate_name (text_or_empty show (get_field d ''name''))) (\<lambda>name.
                 Inr (folder_id, \<lparr>f_name = name, f_parent = text_or_empty show (get_field d ''parentId'')\<rparr>))
           | _ \<Rightarrow> Inl (ValueError (''Repository folder '' @ quoted folder_id @ '' does not match the current schema.''))))"

text \<open>The folder under which a sibling may not have the same name, case apart\<close>

definition sibling_key :: "folder \<Rightarrow> string \<times> nat list" where
  "sibling_key f = (f_parent f, casefold (f_name f))"

definition check_placement :: "string \<Rightarrow> folders \<Rightarrow> folders \<Rightarrow> unit res" where
  "check_placement repository stored fs =
     (if repository = ''modules''
      then iter_r (\<lambda>folder_id. guard_r (list_ex (\<lambda>root. is_descendant fs folder_id root) (keys_of (fixed_folders repository)))
        (ValueError (''Module folder '' @ quoted folder_id @ '' is outside its fixed type tree.''))) (keys_of stored)
      else if flat_repository repository
      then iter_r (\<lambda>folder_id. guard_r (\<not> is_descendant fs folder_id (repository_builtin_folder_id repository))
        (ValueError (''Module folder '' @ quoted folder_id @ '' is inside the reserved BuiltIn folder.''))) (keys_of stored)
      else Inr ())"

text \<open>\<open>item_id.split("/", 1)[0]\<close>\<close>

definition item_kind :: "string \<Rightarrow> string" where
  "item_kind item_id = takeWhile ((\<noteq>) (CHR ''/'')) item_id"

definition check_assignment :: "string \<Rightarrow> folders \<Rightarrow> pykey \<times> pyval \<Rightarrow> (string \<times> string) res" where
  "check_assignment repository fs = (\<lambda>(k, v). case (k, v) of
       (KStr item_id, PStr folder_id) \<Rightarrow>
         if item_id = [] then Inl (ValueError (''Repository '' @ quoted repository @ '' contains an invalid item assignment.''))
         else if folder_id \<noteq> [] \<and> folder_id \<notin> set (keys_of fs)
         then Inl (ValueError (''Repository item '' @ quoted item_id @ '' references missing folder '' @ quoted folder_id @ ''.''))
         else
           let kind = item_kind item_id in
           bind_r (if \<not> module_repository repository then Inr ()
             else if kind \<notin> set (repository_kinds repository) \<or> folder_id = []
             then Inl (ValueError (''Module assignment '' @ quoted item_id @ '' has no valid type folder.''))
             else if repository = ''modules''
             then guard_r (is_descendant fs folder_id (fixed_folder_id kind))
               (ValueError (''Module assignment '' @ quoted item_id @ '' is outside its '' @ kind @ '' folder.''))
             else guard_r (\<not> is_descendant fs folder_id (repository_builtin_folder_id repository))
               (ValueError (''Module assignment '' @ quoted item_id @ '' is inside the reserved BuiltIn folder.''))) (\<lambda>_.
           Inr (item_id, folder_id))
     | _ \<Rightarrow> Inl (ValueError (''Repository '' @ quoted repository @ '' contains an invalid item assignment.'')))"

definition check_repository :: "(pyval \<Rightarrow> string) \<Rightarrow> string \<Rightarrow> pyval \<Rightarrow> pyval \<Rightarrow> (folders \<times> (string \<times> string) list) res" where
  "check_repository show repository raw_folders raw_assignments =
     (case (raw_folders, raw_assignments) of
        (PDict fd, PDict ad) \<Rightarrow>
          bind_r (map_r (check_folder show repository) fd) (\<lambda>stored.
          let fs = all_folders repository stored in
          bind_r (folder_paths fs) (\<lambda>_.
          bind_r (guard_r (distinct (map (\<lambda>(i, f). sibling_key f) fs))
            (ValueError (''Repository '' @ quoted repository @ '' contains duplicate sibling folder names.''))) (\<lambda>_.
          bind_r (check_placement repository stored fs) (\<lambda>_.
          bind_r (map_r (check_assignment repository fs) ad) (\<lambda>assigned.
          Inr (stored, assigned))))))
      | (PDict _, _) \<Rightarrow> Inl (ValueError (''Repository '' @ quoted repository @ '' assignments must be an object.''))
      | _ \<Rightarrow> Inl (ValueError (''Repository '' @ quoted repository @ '' folders must be an object.'')))"

definition per_repository :: "string \<Rightarrow> pyval \<Rightarrow> (pykey \<times> pyval) list res" where
  "per_repository what v =
     (case v of
        PDict d \<Rightarrow> if has_fields d repositories then Inr d else Inl (ValueError what)
      | _ \<Rightarrow> Inl (ValueError what))"

definition validate_state :: "(pyval \<Rightarrow> string) \<Rightarrow> pyval \<Rightarrow> folder_state res" where
  "validate_state show payload =
     (case payload of
        PDict d \<Rightarrow>
          if \<not> has_fields d [''schemaVersion'', ''folders'', ''assignments'']
          then Inl (ValueError ''Repository folder state fields do not match the current schema.'')
          else if \<not> is_version schema_version (get_field d ''schemaVersion'')
          then Inl (ValueError ''Repository folder state requires schemaVersion 9.'')
          else
            bind_r (per_repository ''Repository folder state must contain every repository folder map exactly once.''
              (get_field d ''folders'')) (\<lambda>fd.
            bind_r (per_repository ''Repository folder state must contain every repository assignment map exactly once.''
              (get_field d ''assignments'')) (\<lambda>ad.
            bind_r (map_r (\<lambda>r. bind_r (check_repository show r (get_field fd r) (get_field ad r)) (\<lambda>x. Inr (r, x))) repositories) (\<lambda>checked.
            Inr \<lparr>fs_folders = map (\<lambda>(r, x). (r, fst x)) checked, fs_assignments = map (\<lambda>(r, x). (r, snd x)) checked\<rparr>)))
      | _ \<Rightarrow> Inl (ValueError ''Repository folder state must be an object.''))"

subsection \<open>The file\<close>

definition folder_to_py :: "string \<times> folder \<Rightarrow> pykey \<times> pyval" where
  "folder_to_py = (\<lambda>(folder_id, f). (KStr folder_id, PDict [(KStr ''folderId'', PStr folder_id), (KStr ''name'', PStr (f_name f)),
     (KStr ''parentId'', PStr (f_parent f)), (KStr ''fixed'', PBool False)]))"

definition state_to_py :: "folder_state \<Rightarrow> pyval" where
  "state_to_py st = PDict [(KStr ''schemaVersion'', PInt schema_version),
     (KStr ''folders'', PDict (map (\<lambda>(r, fs). (KStr r, PDict (map folder_to_py fs))) (fs_folders st))),
     (KStr ''assignments'', PDict (map (\<lambda>(r, as). (KStr r, PDict (map (\<lambda>(i, f). (KStr i, PStr f)) as))) (fs_assignments st)))]"

text \<open>\<open>sort_keys=True\<close>\<close>

definition key_name :: "pykey \<Rightarrow> string" where
  "key_name k = (case k of KStr s \<Rightarrow> s | KOther s \<Rightarrow> s)"

fun sort_keys :: "pyval \<Rightarrow> pyval" where
  "sort_keys (PDict kvs) = PDict (sort_key (\<lambda>(k, v). key_name k) (map (\<lambda>(k, v). (k, sort_keys v)) kvs))"
| "sort_keys (PList xs) = PList (map sort_keys xs)"
| "sort_keys v = v"

type_synonym folder_file = "pyval option"

definition load_state :: "(pyval \<Rightarrow> string) \<Rightarrow> (folder_file, folder_state) act" where
  "load_state show = bind_s (gets_s (\<lambda>file. file)) (\<lambda>file.
     case file of None \<Rightarrow> ret_s empty_state | Some payload \<Rightarrow> lift_s (validate_state show payload))"

definition save_state :: "(pyval \<Rightarrow> string) \<Rightarrow> folder_state \<Rightarrow> (folder_file, unit) act" where
  "save_state show st =
     bind_s (lift_s (validate_state show (state_to_py st))) (\<lambda>checked.
     modify_s (\<lambda>_. Some (sort_keys (state_to_py checked))))"

definition lower_char :: "char \<Rightarrow> char" where
  "lower_char c = (let n = (of_char c :: nat) in
     if 65 \<le> n \<and> n \<le> 90 \<or> 192 \<le> n \<and> n \<le> 222 \<and> n \<noteq> 215 then char_of (n + 32) else c)"

definition require_repository :: "string \<Rightarrow> string res" where
  "require_repository raw =
     (let repository = map lower_char (strip raw) in
      if repository \<in> set repositories then Inr repository else Inl (ValueError (''Unknown repository: '' @ repository)))"

definition stored_folders :: "folder_state \<Rightarrow> string \<Rightarrow> folders" where
  "stored_folders st repository = (case map_of (fs_folders st) repository of None \<Rightarrow> [] | Some fs \<Rightarrow> fs)"

definition stored_assignments :: "folder_state \<Rightarrow> string \<Rightarrow> (string \<times> string) list" where
  "stored_assignments st repository = (case map_of (fs_assignments st) repository of None \<Rightarrow> [] | Some as \<Rightarrow> as)"

definition repository_folders :: "folder_state \<Rightarrow> string \<Rightarrow> folders" where
  "repository_folders st repository = all_folders repository (stored_folders st repository)"

definition with_folders :: "string \<Rightarrow> (folders \<Rightarrow> folders) \<Rightarrow> folder_state \<Rightarrow> folder_state" where
  "with_folders repository f st =
     st\<lparr>fs_folders := AList.update repository (f (stored_folders st repository)) (fs_folders st)\<rparr>"

definition with_assignments :: "string \<Rightarrow> ((string \<times> string) list \<Rightarrow> (string \<times> string) list) \<Rightarrow> folder_state \<Rightarrow> folder_state" where
  "with_assignments repository f st =
     st\<lparr>fs_assignments := AList.update repository (f (stored_assignments st repository)) (fs_assignments st)\<rparr>"

subsection \<open>Reading\<close>

record folder_row =
  row_id :: string
  row_name :: string
  row_parent :: string
  row_fixed :: bool
  row_path :: string

record folder_tree =
  tree_repository :: string
  tree_folders :: "folder_row list"
  tree_assignments :: "(string \<times> string) list"

definition path_in :: "(string \<times> string) list \<Rightarrow> string \<Rightarrow> string res" where
  "path_in paths folder_id = (case map_of paths folder_id of None \<Rightarrow> Inl (KeyError folder_id) | Some p \<Rightarrow> Inr p)"

definition folder_row_of :: "folders \<Rightarrow> (string \<times> string) list \<Rightarrow> string \<times> folder \<Rightarrow> folder_row res" where
  "folder_row_of stored paths = (\<lambda>(folder_id, f).
     bind_r (path_in paths folder_id) (\<lambda>path.
     Inr \<lparr>row_id = folder_id, row_name = f_name f, row_parent = f_parent f, row_fixed = folder_id \<notin> set (keys_of stored),
       row_path = path\<rparr>))"

definition tree_of :: "folder_state \<Rightarrow> string \<Rightarrow> folder_tree res" where
  "tree_of st repository =
     (let fs = repository_folders st repository in
      bind_r (folder_paths fs) (\<lambda>paths.
      bind_r (map_r (folder_row_of (stored_folders st repository) paths) fs) (\<lambda>rows.
      Inr \<lparr>tree_repository = repository, tree_folders = sort_key (\<lambda>row. (casefold (row_path row), row_id row)) rows,
        tree_assignments = stored_assignments st repository\<rparr>)))"

definition repository_tree :: "(pyval \<Rightarrow> string) \<Rightarrow> string \<Rightarrow> (folder_file, folder_tree) act" where
  "repository_tree show raw =
     bind_s (lift_s (require_repository raw)) (\<lambda>repository.
     bind_s (load_state show) (\<lambda>st. lift_s (tree_of st repository)))"

text \<open>An item as the folders see it: the kind of its Module Definition and whether that is built in\<close>

record item =
  it_kind :: string
  it_builtin :: bool

definition no_item :: item where
  "no_item = \<lparr>it_kind = [], it_builtin = False\<rparr>"

definition default_module_folder :: "string \<Rightarrow> item \<Rightarrow> string" where
  "default_module_folder repository it =
     (if it_kind it \<notin> set (repository_kinds repository) then []
      else if repository = ''modules'' then (if it_builtin it then builtin_folder_id (it_kind it) else fixed_folder_id (it_kind it))
      else if it_builtin it then repository_builtin_folder_id repository else [])"

definition default_item_folder :: "string \<Rightarrow> item \<Rightarrow> string" where
  "default_item_folder repository it = (if module_repository repository then default_module_folder repository it else [])"

definition resolve_item_folder :: "folder_tree \<Rightarrow> string \<Rightarrow> item \<Rightarrow> (string \<times> string) res" where
  "resolve_item_folder tree item_id it =
     bind_r (require_repository (tree_repository tree)) (\<lambda>repository.
     let folder_id =
       (if module_repository repository \<and> it_builtin it then default_item_folder repository it
        else case map_of (tree_assignments tree) item_id of
          Some assigned \<Rightarrow> assigned
        | None \<Rightarrow> default_item_folder repository it) in
     case map_of (rev (([], ''/'') # map (\<lambda>row. (row_id row, row_path row)) (tree_folders tree))) folder_id of
       None \<Rightarrow> Inl (ValueError (''Repository item '' @ quoted item_id @ '' references missing folder '' @ quoted folder_id @ ''.''))
     | Some path \<Rightarrow> Inr (folder_id, path))"

definition item_folder :: "(pyval \<Rightarrow> string) \<Rightarrow> string \<Rightarrow> string \<Rightarrow> item \<Rightarrow> (folder_file, string \<times> string) act" where
  "item_folder show raw item_id it =
     bind_s (lift_s (require_repository raw)) (\<lambda>repository.
     bind_s (repository_tree show repository) (\<lambda>tree. lift_s (resolve_item_folder tree item_id it)))"

end
