(* ===== verification/Folder_Operations.thy ===== *)
theory Folder_Operations
  imports Folder_State
begin

section \<open>Changes of the repository folders\<close>

text \<open>
  The mutations of \<open>folders.py\<close>. Each has the checks of its function as a definition of its own
  (\<open>create_checks\<close>, ...), over the validated state, followed by the change and \<open>save_state\<close>, which validates
  the whole state again. \<open>prepare\<close> migrates the one older format.
\<close>

text \<open>The row of a folder after a change: \<open>next(...)\<close> over the tree\<close>

definition row_after :: "(pyval \<Rightarrow> string) \<Rightarrow> string \<Rightarrow> string \<Rightarrow> (folder_file, folder_row) act" where
  "row_after show repository folder_id =
     bind_s (repository_tree show repository) (\<lambda>tree.
     case filter (\<lambda>row. row_id row = folder_id) (tree_folders tree) of
       [] \<Rightarrow> raise_s (RuntimeError ''StopIteration'')
     | row # _ \<Rightarrow> ret_s row)"

definition taken_name :: "folders \<Rightarrow> string \<Rightarrow> string \<Rightarrow> bool" where
  "taken_name fs parent_id name = list_ex (\<lambda>(i, f). f_parent f = parent_id \<and> casefold (f_name f) = casefold name) fs"

definition others :: "folders \<Rightarrow> string \<Rightarrow> folders" where
  "others fs folder_id = filter (\<lambda>(i, f). i \<noteq> folder_id) fs"

definition name_taken :: "string \<Rightarrow> py_error" where
  "name_taken name = ValueError (''Folder '' @ quoted name @ '' already exists under the selected parent.'')"

definition no_folder :: "string \<Rightarrow> py_error" where
  "no_folder folder_id = ValueError (''Folder does not exist: '' @ folder_id)"

definition no_parent :: "string \<Rightarrow> py_error" where
  "no_parent folder_id = ValueError (''Parent folder does not exist: '' @ folder_id)"

subsection \<open>Create\<close>

text \<open>\<open>new_id\<close> is what \<open>"folder-" + secrets.token_hex(12)\<close> gives.\<close>

definition create_checks :: "string \<Rightarrow> string \<Rightarrow> string \<Rightarrow> folders \<Rightarrow> unit res" where
  "create_checks repository name parent_id fs =
     bind_r (guard_r (parent_id = [] \<or> parent_id \<in> set (keys_of fs)) (no_parent parent_id)) (\<lambda>_.
     bind_r (guard_r (\<not> (repository = ''modules'' \<and> parent_id = []))
       (ValueError ''Module top-level folders are fixed; create folders inside a module type.'')) (\<lambda>_.
     bind_r (guard_r (\<not> (flat_repository repository \<and> parent_id \<noteq> [] \<and>
         is_descendant fs parent_id (repository_builtin_folder_id repository)))
       (ValueError ''User folders cannot be created inside the BuiltIn folder.'')) (\<lambda>_.
     guard_r (\<not> taken_name fs parent_id name) (name_taken name))))"

definition create_folder :: "(pyval \<Rightarrow> string) \<Rightarrow> string \<Rightarrow> string \<Rightarrow> string \<Rightarrow> string \<Rightarrow> (folder_file, folder_row) act" where
  "create_folder show new_id raw raw_name parent_id =
     bind_s (lift_s (require_repository raw)) (\<lambda>repository.
     bind_s (lift_s (validate_name raw_name)) (\<lambda>name.
     bind_s (load_state show) (\<lambda>st.
     let fs = repository_folders st repository in
     bind_s (lift_s (create_checks repository name parent_id fs)) (\<lambda>_.
     let folder = \<lparr>f_name = name, f_parent = parent_id\<rparr> in
     bind_s (load_state show) (\<lambda>st.
     bind_s (save_state show (with_folders repository (AList.update new_id folder) st)) (\<lambda>_.
     lift_s (bind_r (folder_paths (AList.update new_id folder fs)) (\<lambda>paths.
       folder_row_of (AList.update new_id folder []) paths (new_id, folder)))))))))"

subsection \<open>Rename\<close>

definition rename_checks :: "string \<Rightarrow> string \<Rightarrow> string \<Rightarrow> folders \<Rightarrow> folders \<Rightarrow> folder res" where
  "rename_checks repository folder_id name stored fs =
     (case map_of stored folder_id of
        None \<Rightarrow>
          if folder_id \<in> set (keys_of (fixed_folders repository))
          then Inl (ValueError ''Fixed repository folders cannot be renamed.'')
          else Inl (no_folder folder_id)
      | Some f \<Rightarrow> bind_r (guard_r (\<not> taken_name (others fs folder_id) (f_parent f) name) (name_taken name)) (\<lambda>_. Inr f))"

definition rename_folder :: "(pyval \<Rightarrow> string) \<Rightarrow> string \<Rightarrow> string \<Rightarrow> string \<Rightarrow> (folder_file, folder_row) act" where
  "rename_folder show raw folder_id raw_name =
     bind_s (lift_s (require_repository raw)) (\<lambda>repository.
     bind_s (lift_s (validate_name raw_name)) (\<lambda>name.
     bind_s (load_state show) (\<lambda>st.
     bind_s (lift_s (rename_checks repository folder_id name (stored_folders st repository) (repository_folders st repository))) (\<lambda>f.
     bind_s (save_state show (with_folders repository (AList.update folder_id (f\<lparr>f_name := name\<rparr>)) st)) (\<lambda>_.
     row_after show repository folder_id)))))"

subsection \<open>Move\<close>

definition move_checks :: "string \<Rightarrow> string \<Rightarrow> string \<Rightarrow> folders \<Rightarrow> folders \<Rightarrow> folder res" where
  "move_checks repository folder_id parent_id stored fs =
     (case map_of stored folder_id of
        None \<Rightarrow> Inl (no_folder folder_id)
      | Some f \<Rightarrow>
          bind_r (guard_r (parent_id = [] \<or> parent_id \<in> set (keys_of fs)) (no_parent parent_id)) (\<lambda>_.
          bind_r (guard_r (\<not> (parent_id = folder_id \<or> is_descendant fs parent_id folder_id))
            (ValueError ''A folder cannot be moved inside itself or one of its descendants.'')) (\<lambda>_.
          bind_r (if repository = ''modules''
            then guard_r (case filter (is_descendant fs folder_id) (keys_of (fixed_folders repository)) of
                [] \<Rightarrow> False
              | current_root # _ \<Rightarrow> parent_id \<noteq> [] \<and> is_descendant fs parent_id current_root)
              (ValueError ''Module folders must remain inside their fixed type folder.'')
            else guard_r (\<not> (flat_repository repository \<and> parent_id \<noteq> [] \<and>
                is_descendant fs parent_id (repository_builtin_folder_id repository)))
              (ValueError ''User folders cannot be moved inside the BuiltIn folder.'')) (\<lambda>_.
          bind_r (guard_r (\<not> taken_name (others fs folder_id) parent_id (f_name f)) (name_taken (f_name f))) (\<lambda>_.
          Inr f)))))"

definition move_folder :: "(pyval \<Rightarrow> string) \<Rightarrow> string \<Rightarrow> string \<Rightarrow> string \<Rightarrow> (folder_file, folder_row) act" where
  "move_folder show raw folder_id parent_id =
     bind_s (lift_s (require_repository raw)) (\<lambda>repository.
     bind_s (lift_s (guard_r (folder_id \<notin> set (keys_of (fixed_folders repository)))
       (ValueError ''Fixed repository folders cannot be moved.''))) (\<lambda>_.
     bind_s (load_state show) (\<lambda>st.
     bind_s (lift_s (move_checks repository folder_id parent_id (stored_folders st repository) (repository_folders st repository))) (\<lambda>f.
     bind_s (save_state show (with_folders repository (AList.update folder_id (f\<lparr>f_parent := parent_id\<rparr>)) st)) (\<lambda>_.
     row_after show repository folder_id)))))"

subsection \<open>Delete\<close>

definition delete_checks :: "string \<Rightarrow> string \<Rightarrow> folders \<Rightarrow> folders \<Rightarrow> (string \<times> string) list \<Rightarrow> folder res" where
  "delete_checks repository folder_id stored fs assigned =
     (case map_of stored folder_id of
        None \<Rightarrow> Inl (no_folder folder_id)
      | Some f \<Rightarrow>
          bind_r (guard_r (\<not> list_ex (\<lambda>(i, g). f_parent g = folder_id) fs)
            (ValueError ''Folder is not empty; move or delete its child folders first.'')) (\<lambda>_.
          bind_r (guard_r (folder_id \<notin> set (vals_of assigned))
            (ValueError ''Folder contains repository items; move them before deleting it.'')) (\<lambda>_.
          Inr f)))"

definition delete_folder :: "(pyval \<Rightarrow> string) \<Rightarrow> string \<Rightarrow> string \<Rightarrow> (folder_file, string \<times> folder) act" where
  "delete_folder show raw folder_id =
     bind_s (lift_s (require_repository raw)) (\<lambda>repository.
     bind_s (guard_s (folder_id \<notin> set (keys_of (fixed_folders repository))) (ValueError ''Fixed repository folders cannot be deleted.'')) (\<lambda>_.
     bind_s (load_state show) (\<lambda>st.
     bind_s (lift_s (delete_checks repository folder_id (stored_folders st repository) (repository_folders st repository)
       (stored_assignments st repository))) (\<lambda>f.
     bind_s (save_state show (with_folders repository (AList.delete folder_id) st)) (\<lambda>_.
     ret_s (folder_id, f))))))"

subsection \<open>Items\<close>

record placement =
  pl_repository :: string
  pl_item :: string
  pl_folder :: string
  pl_path :: string

definition assign_checks :: "string \<Rightarrow> string \<Rightarrow> item \<Rightarrow> folders \<Rightarrow> unit res" where
  "assign_checks repository folder_id it fs =
     bind_r (guard_r (folder_id = [] \<or> folder_id \<in> set (keys_of fs)) (no_folder folder_id)) (\<lambda>_.
     if \<not> module_repository repository then Inr ()
     else
       let fixed_parent = default_item_folder repository it in
       bind_r (guard_r (\<not> (it_builtin it \<and> (fixed_parent = [] \<or> folder_id \<noteq> fixed_parent)))
         (ValueError ''Built-in Modules are fixed inside their type's BuiltIn folder.'')) (\<lambda>_.
       bind_r (guard_r (\<not> (repository = ''modules'' \<and>
           (fixed_parent = [] \<or> folder_id = [] \<or> \<not> is_descendant fs folder_id fixed_parent)))
         (ValueError ''Modules must remain inside their fixed type folder.'')) (\<lambda>_.
       guard_r (\<not> (flat_repository repository \<and> \<not> it_builtin it \<and> folder_id \<noteq> [] \<and>
           is_descendant fs folder_id (repository_builtin_folder_id repository)))
         (ValueError ''User Modules cannot be moved inside the BuiltIn folder.''))))"

definition place_item :: "string \<Rightarrow> string \<Rightarrow> string \<Rightarrow> item \<Rightarrow> (string \<times> string) list \<Rightarrow> (string \<times> string) list" where
  "place_item repository item_id folder_id it assigned =
     (if repository \<noteq> ''data'' \<and> repository \<noteq> ''backtest'' \<and> folder_id = default_item_folder repository it
      then AList.delete item_id assigned else AList.update item_id folder_id assigned)"

definition assign_item :: "(pyval \<Rightarrow> string) \<Rightarrow> string \<Rightarrow> string \<Rightarrow> string \<Rightarrow> item \<Rightarrow> (folder_file, placement) act" where
  "assign_item show raw raw_item folder_id it =
     bind_s (lift_s (require_repository raw)) (\<lambda>repository.
     let item_id = strip raw_item in
     bind_s (guard_s (item_id \<noteq> []) (ValueError ''Repository itemId is required.'')) (\<lambda>_.
     bind_s (load_state show) (\<lambda>st.
     let fs = repository_folders st repository in
     bind_s (lift_s (assign_checks repository folder_id it fs)) (\<lambda>_.
     bind_s (load_state show) (\<lambda>st.
     bind_s (save_state show (with_assignments repository (place_item repository item_id folder_id it) st)) (\<lambda>_.
     lift_s (bind_r (folder_paths fs) (\<lambda>paths. bind_r (path_in paths folder_id) (\<lambda>path.
       Inr \<lparr>pl_repository = repository, pl_item = item_id, pl_folder = folder_id, pl_path = path\<rparr>)))))))))"

definition remove_item_assignment :: "(pyval \<Rightarrow> string) \<Rightarrow> string \<Rightarrow> string \<Rightarrow> (folder_file, unit) act" where
  "remove_item_assignment show raw item_id =
     bind_s (lift_s (require_repository raw)) (\<lambda>repository.
     bind_s (load_state show) (\<lambda>st.
     if item_id \<in> set (keys_of (stored_assignments st repository))
     then save_state show (with_assignments repository (AList.delete item_id) st)
     else ret_s ()))"

subsection \<open>Migration of schemaVersion 8\<close>

fun split_slash :: "string \<Rightarrow> string list" where
  "split_slash [] = [[]]"
| "split_slash (c # cs) =
     (if c = CHR ''/'' then [] # split_slash cs
      else case split_slash cs of [] \<Rightarrow> [[c]] | p # ps \<Rightarrow> (c # p) # ps)"

text \<open>\<open>str.isdigit()\<close> and \<open>int(text)\<close> of such a text; superscript digits are digits that \<open>int\<close> refuses.\<close>

definition is_digit :: "char \<Rightarrow> bool" where
  "is_digit c = (let n = (of_char c :: nat) in 48 \<le> n \<and> n \<le> 57 \<or> n = 178 \<or> n = 179 \<or> n = 185)"

definition is_digits :: "string \<Rightarrow> bool" where
  "is_digits s \<longleftrightarrow> s \<noteq> [] \<and> list_all is_digit s"

definition int_text :: "string \<Rightarrow> int res" where
  "int_text s =
     (let digits = length (takeWhile (\<lambda>c. (of_char c :: nat) \<le> 57) s) in
      if 4300 < digits
      then Inl (ValueError (''Exceeds the limit (4300 digits) for integer string conversion: value has '' @ nat_str digits @
        '' digits; use sys.set_int_max_str_digits() to increase the limit''))
      else if digits < length s then Inl (ValueError (''invalid literal for int() with base 10: '' @ quoted s))
      else Inr (fold (\<lambda>c n. 10 * n + (of_char c - 48)) s 0))"

text \<open>\<open>item_id.rpartition("::")\<close>, when the separator occurs\<close>

definition last_colons :: "string \<Rightarrow> (string \<times> string) option" where
  "last_colons s = (case filter (\<lambda>i. take 2 (drop i s) = ''::'') (rev [0..<length s]) of
     [] \<Rightarrow> None | i # _ \<Rightarrow> Some (take i s, drop (i + 2) s))"

definition migrated_stable_item_id :: "string \<Rightarrow> string \<Rightarrow> (string \<times> int option) res" where
  "migrated_stable_item_id repository item_id =
     (if module_repository repository
      then (case split_slash item_id of
          [a, b, v] \<Rightarrow> if is_digits v then bind_r (int_text v) (\<lambda>n. Inr (a @ ''/'' @ b, Some n)) else Inr (item_id, None)
        | _ \<Rightarrow> Inr (item_id, None))
      else if repository = ''environments'' \<or> repository = ''analyses''
      then (case last_colons item_id of
          Some (identity, v) \<Rightarrow>
            if identity \<noteq> [] \<and> is_digits v then bind_r (int_text v) (\<lambda>n. Inr (identity, Some n)) else Inr (item_id, None)
        | None \<Rightarrow> Inr (item_id, None))
      else Inr (item_id, None))"

text \<open>Membership in a set of strings hashes the value first.\<close>

definition in_text_set :: "pyval \<Rightarrow> string list \<Rightarrow> bool res" where
  "in_text_set v names =
     (case v of
        PList _ \<Rightarrow> Inl (TypeError ''unhashable type'')
      | PDict _ \<Rightarrow> Inl (TypeError ''unhashable type'')
      | PStr s \<Rightarrow> Inr (s \<in> set names)
      | _ \<Rightarrow> Inr False)"

definition old_folders :: "string \<Rightarrow> string list" where
  "old_folders kind = [fixed_folder_id kind, builtin_folder_id kind]"

definition lift_folder :: "string \<Rightarrow> pykey \<times> pyval \<Rightarrow> (pykey \<times> pyval) res" where
  "lift_folder kind = (\<lambda>(k, v). case v of
       PDict d \<Rightarrow>
         bind_r (in_text_set (get_field d ''parentId'') (old_folders kind)) (\<lambda>old.
         Inr (k, PDict (if old then AList.update (KStr ''parentId'') (PStr []) d else d)))
     | _ \<Rightarrow> Inr (k, v))"

definition lift_flat_folders :: "string \<times> string \<Rightarrow> (pykey \<times> pyval) list \<Rightarrow> (pykey \<times> pyval) list res" where
  "lift_flat_folders = (\<lambda>(repository, kind) fd.
     case get_field fd repository of
       PDict d \<Rightarrow> bind_r (map_r (lift_folder kind) d) (\<lambda>d'. Inr (AList.update (KStr repository) (PDict d') fd))
     | _ \<Rightarrow> Inl (ValueError (''Repository '' @ quoted repository @ '' folders must be an object.'')))"

text \<open>No version ranks above every version.\<close>

definition outranks :: "int option \<Rightarrow> int option \<Rightarrow> bool" where
  "outranks p q = (case (p, q) of (None, Some _) \<Rightarrow> True | (Some a, Some b) \<Rightarrow> b < a | _ \<Rightarrow> False)"

definition add_candidate ::
    "string \<Rightarrow> pykey \<times> pyval \<Rightarrow> (string \<times> int option \<times> pyval) list \<Rightarrow> (string \<times> int option \<times> pyval) list res" where
  "add_candidate repository = (\<lambda>(k, folder) candidates. case k of
       KOther _ \<Rightarrow> Inl (ValueError (''Repository '' @ quoted repository @ '' contains an invalid item assignment.''))
     | KStr item_id \<Rightarrow>
         bind_r (migrated_stable_item_id repository item_id) (\<lambda>(stable, version).
         Inr (case map_of candidates stable of
             Some (current, _) \<Rightarrow> if outranks version current then AList.update stable (version, folder) candidates else candidates
           | None \<Rightarrow> AList.update stable (version, folder) candidates)))"

definition flat_kind :: "string \<Rightarrow> string" where
  "flat_kind repository = (if repository = ''analysis-modules'' then ''Analyzer'' else ''Environment'')"

definition migrate_assignments :: "string \<Rightarrow> (pykey \<times> pyval) list \<Rightarrow> (pykey \<times> pyval) list res" where
  "migrate_assignments repository ad =
     (case get_field ad repository of
        PDict d \<Rightarrow>
          bind_r (fold_r (add_candidate repository) d []) (\<lambda>candidates.
          let old = (if flat_repository repository then old_folders (flat_kind repository) else []) in
          bind_r (map_r (\<lambda>(i, p, folder). bind_r (in_text_set folder old) (\<lambda>drop. Inr (drop, (KStr i, folder)))) candidates) (\<lambda>marked.
          Inr (AList.update (KStr repository) (PDict (map snd (filter (\<lambda>(drop, x). \<not> drop) marked))) ad)))
      | _ \<Rightarrow> Inl (ValueError (''Repository '' @ quoted repository @ '' assignments must be an object.'')))"

definition migrate_v8_state :: "(pyval \<Rightarrow> string) \<Rightarrow> pyval \<Rightarrow> folder_state res" where
  "migrate_v8_state show payload =
     (case payload of
        PDict d \<Rightarrow>
          if \<not> has_fields d [''schemaVersion'', ''folders'', ''assignments'']
          then Inl (ValueError ''Repository folder state fields do not match schemaVersion 8.'')
          else if \<not> is_version 8 (get_field d ''schemaVersion'')
          then Inl (ValueError ''Repository folder state is not schemaVersion 8.'')
          else
            bind_r (per_repository ''Repository folder schemaVersion 8 must contain every repository exactly once.''
              (get_field d ''folders'')) (\<lambda>fd.
            bind_r (per_repository ''Repository folder schemaVersion 8 must contain every repository exactly once.''
              (get_field d ''assignments'')) (\<lambda>ad.
            bind_r (fold_r lift_flat_folders [(''analysis-modules'', ''Analyzer''), (''environment-modules'', ''Environment'')] fd) (\<lambda>fd'.
            bind_r (fold_r migrate_assignments repositories ad) (\<lambda>ad'.
            validate_state show (PDict (fold (\<lambda>(k, v). AList.update (KStr k) v)
              [(''schemaVersion'', PInt schema_version), (''folders'', PDict fd'), (''assignments'', PDict ad')] d))))))
      | _ \<Rightarrow> Inl (ValueError ''Repository folder state fields do not match schemaVersion 8.''))"

definition prepare :: "(pyval \<Rightarrow> string) \<Rightarrow> (folder_file, folder_state) act" where
  "prepare show =
     bind_s (gets_s (\<lambda>file. file)) (\<lambda>file.
     case file of
       None \<Rightarrow> ret_s empty_state
     | Some payload \<Rightarrow>
         if is_mapping payload \<and> is_version schema_version (get_field (dict_items payload) ''schemaVersion'')
         then lift_s (validate_state show payload)
         else if is_mapping payload \<and> is_version 8 (get_field (dict_items payload) ''schemaVersion'')
         then bind_s (lift_s (migrate_v8_state show payload)) (\<lambda>st. bind_s (save_state show st) (\<lambda>_. ret_s st))
         else raise_s (ValueError ''Repository folder state requires schemaVersion 9 or migratable schemaVersion 8.''))"

end
