(* ===== verification/Folder_Forest.thy ===== *)
theory Folder_Forest
  imports Folder_Operations
begin

section \<open>The folders of a repository are a forest\<close>

text \<open>
  What \<open>_folder_paths\<close> and \<open>_is_descendant\<close> compute: the first succeeds when every folder is rooted, and
  gives different folders different paths; the second, on such folders, decides whether one is below the
  other. The changes of the parents keep all folders rooted.
\<close>

subsection \<open>Roots and descendants\<close>

inductive rooted :: "folders \<Rightarrow> string \<Rightarrow> bool" where
  top: "rooted fs []"
| child: "map_of fs i = Some f \<Longrightarrow> rooted fs (f_parent f) \<Longrightarrow> rooted fs i"

inductive below :: "folders \<Rightarrow> string \<Rightarrow> string \<Rightarrow> bool" where
  self: "i \<noteq> [] \<Longrightarrow> below fs i i"
| up: "i \<noteq> [] \<Longrightarrow> below fs (parent_of fs i) a \<Longrightarrow> below fs i a"

inductive_cases below_empty [elim!]: "below fs [] a"
inductive_cases rootedE: "rooted fs i"

lemma parent_lookup: "map_of fs i = Some f \<Longrightarrow> parent_of fs i = f_parent f"
  by (simp add: parent_of_def)

lemma below_step: "i \<noteq> [] \<Longrightarrow> below fs i a \<longleftrightarrow> i = a \<or> below fs (parent_of fs i) a"
  by (auto intro: below.intros elim: below.cases)

lemma below_trans: "below fs i a \<Longrightarrow> below fs a b \<Longrightarrow> below fs i b"
  by (induction rule: below.induct) (auto intro: below.intros)

lemma below_nonempty: "below fs i a \<Longrightarrow> i \<noteq> [] \<and> a \<noteq> []"
  by (induction rule: below.induct) auto

lemma below_linear: "below fs i a \<Longrightarrow> below fs i b \<Longrightarrow> below fs a b \<or> below fs b a"
proof (induction rule: below.induct)
  case (up i fs a)
  from up.prems show ?case
  proof (cases rule: below.cases)
    case self
    then show ?thesis using up.hyps by (blast intro: below.up)
  next
    case up': up
    then show ?thesis using up.IH by blast
  qed
qed blast

lemma rooted_acyclic: "rooted fs i \<Longrightarrow> i \<noteq> [] \<Longrightarrow> \<not> below fs (parent_of fs i) i"
proof (induction rule: rooted.induct)
  case (child fs i f)
  let ?p = "parent_of fs i"
  have p: "?p = f_parent f" using child.hyps(1) by (rule parent_lookup)
  show ?case
  proof
    assume b: "below fs ?p i"
    then have np: "?p \<noteq> []" using below_nonempty by blast
    with child.IH have ih: "\<not> below fs (parent_of fs ?p) ?p" by (simp add: p)
    have "below fs i ?p" using child.prems np by (blast intro: below.intros)
    show False
    proof (cases "?p = i")
      case True
      with b ih show False by simp
    next
      case False
      with b np have "below fs (parent_of fs ?p) i" by (simp add: below_step)
      with \<open>below fs i ?p\<close> ih show False using below_trans by blast
    qed
  qed
qed simp

lemma walk_below:
  assumes "rooted fs i" "\<forall>s \<in> set seen. \<not> below fs i s" shows "walk fs a seen i = below fs i a"
  using assms
proof (induction arbitrary: seen rule: rooted.induct)
  case (top fs)
  show ?case by (subst walk.simps) auto
next
  case (child fs i f)
  show ?case
  proof (cases "i = []")
    case False
    have p: "parent_of fs i = f_parent f" using child.hyps(1) by (rule parent_lookup)
    have "rooted fs i" using child.hyps by (rule rooted.child)
    moreover have "below fs i s" if "below fs (f_parent f) s" for s using below.up[of i fs s] False that p by simp
    ultimately have "\<forall>s \<in> set (i # seen). \<not> below fs (f_parent f) s"
      using rooted_acyclic[of fs i] False child.prems p by auto
    from child.IH[OF this] have "walk fs a (i # seen) (parent_of fs i) = below fs (parent_of fs i) a" by (simp add: p)
    moreover have "i \<notin> set seen" using child.prems False by (auto intro: below.self)
    ultimately show ?thesis using False by (subst walk.simps) (simp add: below_step[OF False])
  qed (subst walk.simps, auto)
qed

lemma descendant_below: "rooted fs i \<Longrightarrow> is_descendant fs i a = below fs i a"
  by (simp add: is_descendant_def walk_below)

text \<open>Only the parents matter.\<close>

lemma rooted_cong: "rooted fs i \<Longrightarrow> (\<And>j. map_of fs j \<noteq> None \<Longrightarrow> map_of fs' j \<noteq> None \<and> parent_of fs' j = parent_of fs j) \<Longrightarrow> rooted fs' i"
proof (induction rule: rooted.induct)
  case (child fs i f)
  then obtain g where "map_of fs' i = Some g" "f_parent g = f_parent f" by (fastforce simp: parent_of_def)
  with child show ?case by (auto intro: rooted.child)
qed (rule rooted.top)

lemma below_cong: "below fs i a \<Longrightarrow> parent_of fs' = parent_of fs \<Longrightarrow> below fs' i a"
  by (induction rule: below.induct) (auto intro: below.intros)

lemma rooted_keys: "rooted fs i \<Longrightarrow> i = [] \<or> i \<in> set (keys_of fs)"
  by (erule rootedE) (auto simp del: set_map intro: found_key)

lemma rooted_below: "rooted fs i \<Longrightarrow> below fs i a \<Longrightarrow> rooted fs a"
proof (induction rule: rooted.induct)
  case (child fs i f)
  from child.prems show ?case
  proof (cases rule: below.cases)
    case self
    then show ?thesis using child.hyps rooted.child by blast
  next
    case up
    then show ?thesis using child.IH parent_lookup[OF child.hyps(1)] by simp
  qed
qed auto

lemma below_keys: "rooted fs i \<Longrightarrow> below fs i a \<Longrightarrow> a \<in> set (keys_of fs)"
  using rooted_below rooted_keys below_nonempty by blast

subsection \<open>Paths\<close>

inductive has_names :: "folders \<Rightarrow> string \<Rightarrow> string list \<Rightarrow> bool" where
  top: "has_names fs [] []"
| child: "map_of fs i = Some f \<Longrightarrow> i \<noteq> [] \<Longrightarrow> has_names fs (f_parent f) ns \<Longrightarrow> has_names fs i (ns @ [strip (f_name f)])"

definition path_text :: "string list \<Rightarrow> string" where
  "path_text ns = (if ns = [] then ''/'' else concat (map ((#) (CHR ''/'')) ns))"

lemma has_names_rooted: "has_names fs i ns \<Longrightarrow> rooted fs i"
  by (induction rule: has_names.induct) (auto intro: rooted.intros)

lemma rooted_has_names: "rooted fs i \<Longrightarrow> [] \<notin> set (keys_of fs) \<Longrightarrow> \<exists>ns. has_names fs i ns"
proof (induction rule: rooted.induct)
  case (child fs i f)
  have "i \<in> set (keys_of fs)" using child.hyps(1) by (rule found_key)
  then have "i \<noteq> []" using child.prems by blast
  with child show ?case by (blast intro: has_names.child)
qed (blast intro: has_names.top)

definition paths_ok :: "folders \<Rightarrow> (string \<times> string) list \<Rightarrow> bool" where
  "paths_ok fs paths \<longleftrightarrow> map_of paths [] = Some ''/'' \<and> (\<forall>i p. map_of paths i = Some p \<longrightarrow> (\<exists>ns. has_names fs i ns \<and> p = path_text ns))"

lemma path_child:
  assumes "\<forall>n \<in> set ns. n \<noteq> []"
  shows "(if path_text ns = ''/'' then ''/'' @ n else path_text ns @ ''/'' @ n) = path_text (ns @ [n])"
proof -
  have "path_text ns = ''/'' \<longleftrightarrow> ns = []"
    using assms by (cases ns) (auto simp: path_text_def)
  then show ?thesis by (auto simp: path_text_def)
qed

definition names_given :: "folders \<Rightarrow> bool" where
  "names_given fs \<longleftrightarrow> (\<forall>(i, f) \<in> set fs. strip (f_name f) \<noteq> [] \<and> CHR ''/'' \<notin> set (strip (f_name f)))"

lemma has_names_given: "has_names fs i ns \<Longrightarrow> names_given fs \<Longrightarrow> \<forall>n \<in> set ns. n \<noteq> [] \<and> CHR ''/'' \<notin> set n"
proof (induction rule: has_names.induct)
  case (child fs i f ns)
  have "(i, f) \<in> set fs" using child.hyps(1) by (rule map_of_in_set)
  with child.prems have "strip (f_name f) \<noteq> [] \<and> CHR ''/'' \<notin> set (strip (f_name f))" unfolding names_given_def by blast
  with child.IH[OF child.prems] show ?case by simp
qed simp

lemma resolve_sound:
  assumes "resolve_folder fs visiting i paths = Inr (p, paths')" "paths_ok fs paths" "names_given fs" "[] \<notin> set (keys_of fs)"
  shows "paths_ok fs paths' \<and> map_of paths' i = Some p \<and> map_of paths \<subseteq>\<^sub>m map_of paths'"
  using assms
proof (induction fs visiting i paths arbitrary: p paths' rule: resolve_folder.induct)
  case (1 fs visiting i paths)
  show ?case
  proof (cases "map_of paths i")
    case (Some q)
    then show ?thesis using "1.prems"(1,2) by (subst (asm) resolve_folder.simps) simp
  next
    case None
    note r = "1.prems"(1)[unfolded resolve_folder.simps[of fs visiting i paths] None option.case]
    from r have i: "\<not> (i \<in> set visiting \<or> i \<notin> set (keys_of fs))" by (auto split: if_splits)
    then obtain f where f: "map_of fs i = Some f" by (metis map_of_eq_None_iff not_None_eq set_map)
    from r i f obtain pp paths1 where c: "resolve_folder fs (i # visiting) (f_parent f) paths = Inr (pp, paths1)"
      "p = (if pp = ''/'' then ''/'' @ strip (f_name f) else pp @ ''/'' @ strip (f_name f))" "paths' = AList.update i p paths1"
      by (auto simp: bind_r_Inr_iff Let_def simp del: set_map)
    from "1.IH"[OF None i f c(1) "1.prems"(2-4)]
    have ih: "paths_ok fs paths1" "map_of paths1 (f_parent f) = Some pp" "map_of paths \<subseteq>\<^sub>m map_of paths1" by blast+
    then obtain ns where ns: "has_names fs (f_parent f) ns" "pp = path_text ns" unfolding paths_ok_def by blast
    have ne: "i \<noteq> []" using i "1.prems"(4) by blast
    have "has_names fs i (ns @ [strip (f_name f)])" using f ne ns(1) by (rule has_names.child)
    moreover have "p = path_text (ns @ [strip (f_name f)])"
      using path_child[of ns "strip (f_name f)"] has_names_given[OF ns(1) "1.prems"(3)] unfolding c(2) ns(2) by blast
    ultimately have "paths_ok fs paths'" using ih(1) ne unfolding paths_ok_def c(3) update_conv' by auto
    moreover have "map_of paths \<subseteq>\<^sub>m map_of paths'"
      using ih(3) None unfolding c(3) update_conv' map_le_def by (auto simp: dom_def)
    ultimately show ?thesis using ad.put_same[of i p paths1] unfolding c(3) by blast
  qed
qed

lemma resolve_total:
  assumes "rooted fs i" "\<forall>x \<in> set visiting. \<not> below fs i x" "map_of paths [] \<noteq> None" shows "\<exists>r. resolve_folder fs visiting i paths = Inr r"
  using assms
proof (induction arbitrary: visiting paths rule: rooted.induct)
  case (child fs i f)
  show ?case
  proof (cases "map_of paths i")
    case None
    with child.prems(2) have ne: "i \<noteq> []" by metis
    have p: "parent_of fs i = f_parent f" using child.hyps(1) by (rule parent_lookup)
    have "rooted fs i" using child.hyps by (rule rooted.child)
    moreover have "below fs i x" if "below fs (f_parent f) x" for x using below.up[of i fs x] ne that p by simp
    ultimately have "\<forall>x \<in> set (i # visiting). \<not> below fs (f_parent f) x"
      using rooted_acyclic[of fs i] ne child.prems(1) p by auto
    from child.IH[OF this child.prems(2)] obtain r where r: "resolve_folder fs (i # visiting) (f_parent f) paths = Inr r" by blast
    have "i \<notin> set visiting" using child.prems(1) ne by (auto intro: below.self)
    moreover have "i \<in> set (keys_of fs)" using map_of_in_set[OF child.hyps(1)] by force
    ultimately show ?thesis using None child.hyps(1) r by (subst resolve_folder.simps) (auto simp: Let_def simp del: set_map split: prod.split)
  qed (subst resolve_folder.simps, simp)
qed (subst resolve_folder.simps, auto)

lemma folder_paths_sound:
  assumes "folder_paths fs = Inr paths" "names_given fs" "[] \<notin> set (keys_of fs)"
  shows "paths_ok fs paths" "i \<in> set (keys_of fs) \<Longrightarrow> map_of paths i \<noteq> None"
proof -
  have start: "paths_ok fs [([], ''/'')]" by (auto simp: paths_ok_def path_text_def intro: has_names.top)
  have "paths_ok fs ps' \<and> (\<forall>i \<in> set is. map_of ps' i \<noteq> None) \<and> map_of ps \<subseteq>\<^sub>m map_of ps'"
    if "fold_r (\<lambda>i ps. bind_r (resolve_folder fs [] i ps) (\<lambda>(path, ps'). Inr ps')) is ps = Inr ps'" "paths_ok fs ps" for "is" ps ps'
    using that
  proof (induction "is" arbitrary: ps)
    case (Cons i "is")
    from Cons.prems(1) obtain p ps1 where r: "resolve_folder fs [] i ps = Inr (p, ps1)"
      "fold_r (\<lambda>i ps. bind_r (resolve_folder fs [] i ps) (\<lambda>(path, ps'). Inr ps')) is ps1 = Inr ps'" by (auto simp: bind_r_Inr_iff)
    note one = resolve_sound[OF r(1) Cons.prems(2) assms(2,3)]
    with Cons.IH[OF r(2)] have rest: "paths_ok fs ps'" "\<forall>i \<in> set is. map_of ps' i \<noteq> None" "map_of ps1 \<subseteq>\<^sub>m map_of ps'" by blast+
    have "map_of ps' i = Some p" using one rest(3) by (auto simp: map_le_def dom_def)
    with one rest show ?case by (auto intro: map_le_trans)
  qed simp
  from this[OF _ start] assms(1) show "paths_ok fs paths" "i \<in> set (keys_of fs) \<Longrightarrow> map_of paths i \<noteq> None"
    unfolding folder_paths_def by blast+
qed

lemma folder_paths_total:
  assumes "\<forall>i \<in> set (keys_of fs). rooted fs i" "names_given fs" "[] \<notin> set (keys_of fs)"
  obtains paths where "folder_paths fs = Inr paths"
proof -
  have start: "paths_ok fs [([], ''/'')]" by (auto simp: paths_ok_def path_text_def intro: has_names.top)
  have "\<exists>ps'. fold_r (\<lambda>i ps. bind_r (resolve_folder fs [] i ps) (\<lambda>(path, ps'). Inr ps')) is ps = Inr ps'"
    if "\<forall>i \<in> set is. rooted fs i" "paths_ok fs ps" for "is" ps
    using that
  proof (induction "is" arbitrary: ps)
    case (Cons i "is")
    have "map_of ps [] \<noteq> None" using Cons.prems(2) by (simp add: paths_ok_def)
    then obtain p ps1 where r: "resolve_folder fs [] i ps = Inr (p, ps1)"
      using resolve_total[of fs i "[]" ps] Cons.prems(1) by auto
    from resolve_sound[OF r Cons.prems(2) assms(2,3)] Cons.IH[of ps1] Cons.prems(1) show ?case by (auto simp: r)
  qed simp
  from this[OF assms(1) start] that show ?thesis unfolding folder_paths_def by blast
qed

subsection \<open>Different folders have different paths\<close>

lemma fold_char_slash: "47 \<in> set (fold_char c) \<longleftrightarrow> c = CHR ''/''"
proof -
  have "of_char c = (47 :: nat) \<longleftrightarrow> c = CHR ''/''"
    using of_char_eq_iff[where 'a = nat, of c "CHR ''/''"] by simp
  then show ?thesis by (auto simp: fold_char_def Let_def)
qed

lemma fold_char_nonempty: "fold_char c \<noteq> []"
  by (simp add: fold_char_def Let_def)

lemma casefold_slash: "47 \<in> set (casefold s) \<longleftrightarrow> CHR ''/'' \<in> set s"
  by (auto simp: casefold_def fold_char_slash)

lemma casefold_empty: "casefold s = [] \<longleftrightarrow> s = []"
  using fold_char_nonempty by (auto simp: casefold_def)

lemma casefold_path: "ns \<noteq> [] \<Longrightarrow> casefold (path_text ns) = concat (map (\<lambda>n. 47 # casefold n) ns)"
proof -
  have "fold_char (CHR ''/'') = [47]" by (simp add: fold_char_def)
  then have "concat (map fold_char (concat (map ((#) (CHR ''/'')) ns))) = concat (map (\<lambda>n. 47 # casefold n) ns)"
    by (induction ns) (simp_all add: casefold_def)
  then show "ns \<noteq> [] \<Longrightarrow> ?thesis" by (simp add: path_text_def casefold_def)
qed

lemma separated_inj:
  assumes "concat (map ((#) a) xs) = concat (map ((#) a) ys)" "\<forall>x \<in> set xs. a \<notin> set x" "\<forall>y \<in> set ys. a \<notin> set y"
  shows "xs = ys"
  using assms
proof (induction xs arbitrary: ys)
  case Nil
  then show ?case by (cases ys) auto
next
  case (Cons x xs)
  then obtain y ys' where ys: "ys = y # ys'" by (cases ys) auto
  have take: "takeWhile ((\<noteq>) a) (z @ concat (map ((#) a) zs)) = z" if "a \<notin> set z" for z zs
    using that by (cases zs) (auto simp: takeWhile_append)
  have "x @ concat (map ((#) a) xs) = y @ concat (map ((#) a) ys')" using Cons.prems(1) by (simp add: ys)
  moreover from this have "x = y" using take[of x xs] take[of y ys'] Cons.prems(2,3) by (simp add: ys)
  ultimately show ?case using Cons.IH[of ys'] Cons.prems(2,3) by (simp add: ys)
qed

definition siblings_distinct :: "folders \<Rightarrow> bool" where
  "siblings_distinct fs \<longleftrightarrow> distinct (map (\<lambda>(i, f). sibling_key f) fs)"

lemma sibling_unique:
  assumes "siblings_distinct fs" "map_of fs i = Some f" "map_of fs j = Some g" "sibling_key f = sibling_key g" shows "i = j"
proof -
  have "inj_on (\<lambda>(i, f). sibling_key f) (set fs)" using assms(1) by (simp add: siblings_distinct_def distinct_map)
  from inj_onD[OF this, of "(i, f)" "(j, g)"] assms(2-4) map_of_in_set show ?thesis by fastforce
qed

definition names_stripped :: "folders \<Rightarrow> bool" where
  "names_stripped fs \<longleftrightarrow> (\<forall>(i, f) \<in> set fs. strip (f_name f) = f_name f)"

lemma same_names_same_folder:
  assumes "has_names fs i ns" "has_names fs j ms" "map casefold ns = map casefold ms" "siblings_distinct fs" "names_stripped fs"
  shows "i = j"
  using assms
proof (induction arbitrary: j ms rule: has_names.induct)
  case (top fs)
  from top.prems(1) show ?case
  proof (cases rule: has_names.cases)
    case (child f ns)
    then show ?thesis using top.prems(2) by simp
  qed simp
next
  case (child fs i f ns)
  from child.prems(1) show ?case
  proof (cases rule: has_names.cases)
    case top
    then show ?thesis using child.prems(2) by simp
  next
    case j: (child g ms')
    have eq: "map casefold ns = map casefold ms'" "casefold (strip (f_name f)) = casefold (strip (f_name g))"
      using child.prems(2) by (simp_all add: j(1))
    have "f_parent f = f_parent g" by (rule child.IH[OF j(4) eq(1) child.prems(3,4)])
    moreover have "strip (f_name f) = f_name f" "strip (f_name g) = f_name g"
      using child.prems(4) map_of_in_set[OF child.hyps(1)] map_of_in_set[OF j(2)] unfolding names_stripped_def by blast+
    ultimately have "sibling_key f = sibling_key g" using eq(2) by (simp add: sibling_key_def)
    with sibling_unique[OF child.prems(3) child.hyps(1) j(2)] show ?thesis by simp
  qed
qed

lemma same_path_same_folder:
  assumes "has_names fs i ns" "has_names fs j ms" "casefold (path_text ns) = casefold (path_text ms)"
    and "siblings_distinct fs" "names_stripped fs" "names_given fs"
  shows "i = j"
proof -
  have given: "\<forall>n \<in> set ns. n \<noteq> [] \<and> CHR ''/'' \<notin> set n" "\<forall>n \<in> set ms. n \<noteq> [] \<and> CHR ''/'' \<notin> set n"
    using has_names_given assms(1,2,6) by blast+
  have one: "casefold (path_text []) = [47]" by (simp add: path_text_def casefold_def fold_char_def)
  have more: "casefold (path_text xs) \<noteq> [47]" if "xs \<noteq> []" "\<forall>n \<in> set xs. n \<noteq> [] \<and> CHR ''/'' \<notin> set n" for xs
    using that by (cases xs) (auto simp: casefold_path casefold_empty)
  have "map casefold ns = map casefold ms"
  proof (cases "ns = [] \<or> ms = []")
    case True
    then show ?thesis using assms(3) one more[OF _ given(1)] more[OF _ given(2)] by metis
  next
    case False
    then have "concat (map ((#) 47) (map casefold ns)) = concat (map ((#) 47) (map casefold ms))"
      using assms(3) by (simp add: casefold_path comp_def)
    then show ?thesis by (rule separated_inj) (use given in \<open>auto simp: casefold_slash\<close>)
  qed
  from same_names_same_folder[OF assms(1,2) this assms(4,5)] show ?thesis .
qed

end
