(* ===== verification/Folder_Safety.thy ===== *)
theory Folder_Safety
  imports Folder_Forest "HOL-Library.Multiset"
begin

section \<open>The folder file\<close>

subsection \<open>Names\<close>

lemma dropWhile_front: "xs = [] \<or> \<not> P (hd xs) \<Longrightarrow> dropWhile P xs = xs"
  by (cases xs) auto

lemma strip_strip [simp]: "strip (strip s) = strip s"
proof -
  let ?D = "dropWhile is_space"
  let ?A = "?D s"
  let ?B = "rev (?D (rev ?A))"
  have idem: "?D (?D xs) = ?D xs" for xs by (rule dropWhile_front) (use hd_dropWhile in blast)
  have split: "?A = ?B @ rev (takeWhile is_space (rev ?A))"
    using takeWhile_dropWhile_id[of is_space "rev ?A"] by (metis rev_append rev_rev_ident)
  have "?B = [] \<or> \<not> is_space (hd ?B)"
  proof (cases "?B = []")
    case False
    then have "hd ?A = hd ?B" "?A \<noteq> []" using split by (metis hd_append2, metis append_is_Nil_conv)
    then show ?thesis using hd_dropWhile[of is_space s] by metis
  qed simp
  then have "?D ?B = ?B" by (rule dropWhile_front)
  then show ?thesis by (simp add: strip_def idem)
qed

lemma validate_name_Inr:
  assumes "validate_name raw = Inr name"
  shows "name = strip raw" "strip name = name" "name \<noteq> []" "CHR ''/'' \<notin> set name" "validate_name name = Inr name"
proof -
  show n: "name = strip raw" using assms by (auto simp: validate_name_def Let_def split: if_splits)
  then show "strip name = name" by simp
  show "name \<noteq> []" "CHR ''/'' \<notin> set name" "validate_name name = Inr name"
    using assms n by (auto simp: validate_name_def Let_def split: if_splits)
qed

subsection \<open>Fixed folders\<close>

lemma fixed_modules:
  "fixed_folders ''modules'' =
     [(''modules-fixed-universe'', \<lparr>f_name = ''Universe'', f_parent = []\<rparr>),
      (''modules-fixed-universe-builtin'', \<lparr>f_name = ''BuiltIn'', f_parent = ''modules-fixed-universe''\<rparr>),
      (''modules-fixed-signal'', \<lparr>f_name = ''Signal'', f_parent = []\<rparr>),
      (''modules-fixed-signal-builtin'', \<lparr>f_name = ''BuiltIn'', f_parent = ''modules-fixed-signal''\<rparr>),
      (''modules-fixed-target'', \<lparr>f_name = ''Target'', f_parent = []\<rparr>),
      (''modules-fixed-target-builtin'', \<lparr>f_name = ''BuiltIn'', f_parent = ''modules-fixed-target''\<rparr>),
      (''modules-fixed-constraint'', \<lparr>f_name = ''Constraint'', f_parent = []\<rparr>),
      (''modules-fixed-constraint-builtin'', \<lparr>f_name = ''BuiltIn'', f_parent = ''modules-fixed-constraint''\<rparr>)]"
  by code_simp

lemma kind_folder_ids:
  "fixed_folder_id ''Universe'' = ''modules-fixed-universe''" "fixed_folder_id ''Signal'' = ''modules-fixed-signal''"
  "fixed_folder_id ''Target'' = ''modules-fixed-target''" "fixed_folder_id ''Constraint'' = ''modules-fixed-constraint''"
  by code_simp+

lemma fixed_flat: "flat_repository r \<Longrightarrow> fixed_folders r = [(repository_builtin_folder_id r, \<lparr>f_name = ''BuiltIn'', f_parent = []\<rparr>)]"
  by (auto simp: fixed_folders_def flat_repository_def)

lemma fixed_none: "r \<noteq> ''modules'' \<Longrightarrow> \<not> flat_repository r \<Longrightarrow> fixed_folders r = []"
  by (simp add: fixed_folders_def)

lemma builtin_id: "repository_builtin_folder_id r \<noteq> []"
  by (simp add: repository_builtin_folder_id_def)

lemma fixed_names:
  assumes "(i, f) \<in> set (fixed_folders r)" shows "i \<noteq> [] \<and> validate_name (f_name f) = Inr (f_name f)"
proof -
  have n: "validate_name ''Universe'' = Inr ''Universe''" "validate_name ''Signal'' = Inr ''Signal''" "validate_name ''Target'' = Inr ''Target''"
    "validate_name ''Constraint'' = Inr ''Constraint''" "validate_name ''BuiltIn'' = Inr ''BuiltIn''" by code_simp+
  show ?thesis
  proof (cases "r = ''modules''")
    case True
    then show ?thesis using assms n unfolding True fixed_modules by auto
  next
    case False
    then show ?thesis using assms n builtin_id by (cases "flat_repository r") (auto simp: fixed_flat fixed_none)
  qed
qed

subsection \<open>A checked repository\<close>

definition repository_sound :: "string \<Rightarrow> folders \<Rightarrow> bool" where
  "repository_sound r stored \<longleftrightarrow>
     (\<forall>(i, f) \<in> set stored. i \<noteq> [] \<and> validate_name (f_name f) = Inr (f_name f)) \<and> siblings_distinct (all_folders r stored)"

lemma set_update_subset: "set (AList.update k v d) \<subseteq> insert (k, v) (set d)"
  by (induction d) auto

lemma dict_of_subset: "set (dict_of kvs) \<subseteq> set kvs"
proof -
  have "set (fold (\<lambda>(k, v). AList.update k v) kvs d) \<subseteq> set kvs \<union> set d" for d :: "('a \<times> 'b) list"
  proof (induction kvs arbitrary: d)
    case (Cons kv kvs)
    obtain k v where kv: "kv = (k, v)" by force
    show ?case using Cons.IH[of "AList.update k v d"] set_update_subset[of k v d] by (auto simp: kv)
  qed simp
  from this[of "[]"] show ?thesis by (simp add: dict_of_def)
qed

lemma all_folders_mem: "(i, f) \<in> set (all_folders r stored) \<Longrightarrow> (i, f) \<in> set (fixed_folders r) \<or> (i, f) \<in> set stored"
  using dict_of_subset unfolding all_folders_def by force

lemma sound_names:
  assumes "repository_sound r stored"
  shows "names_given (all_folders r stored)" "names_stripped (all_folders r stored)" "[] \<notin> set (keys_of (all_folders r stored))"
proof -
  have m: "i \<noteq> [] \<and> validate_name (f_name f) = Inr (f_name f)" if "(i, f) \<in> set (all_folders r stored)" for i f
    using all_folders_mem[OF that] fixed_names assms unfolding repository_sound_def by blast
  have v: "strip n = n \<and> n \<noteq> [] \<and> CHR ''/'' \<notin> set n" if "validate_name n = Inr n" for n
    using validate_name_Inr[OF that] by blast
  show "names_given (all_folders r stored)" "names_stripped (all_folders r stored)" "[] \<notin> set (keys_of (all_folders r stored))"
    using m v by (fastforce simp: names_given_def names_stripped_def)+
qed

lemma check_folder_sound:
  "check_folder show r kv = Inr (i, f) \<Longrightarrow> i \<noteq> [] \<and> validate_name (f_name f) = Inr (f_name f)"
  by (auto simp: check_folder_def bind_r_Inr_iff split: prod.splits pykey.splits pyval.splits if_splits dest: validate_name_Inr(5))

lemma check_repository_sound:
  assumes "check_repository show r a b = Inr (stored, assigned)" shows "repository_sound r stored"
proof -
  from assms obtain fd where c: "map_r (check_folder show r) fd = Inr stored" "siblings_distinct (all_folders r stored)"
    by (auto simp: check_repository_def bind_r_Inr_iff guard_r_Inr_iff siblings_distinct_def Let_def split: pyval.splits)
  have "i \<noteq> [] \<and> validate_name (f_name f) = Inr (f_name f)" if "(i, f) \<in> set stored" for i f
    using map_r_in[OF c(1) that] check_folder_sound by blast
  with c(2) show ?thesis by (auto simp: repository_sound_def)
qed

subsection \<open>Paths are unique\<close>

lemma sound_paths_distinct:
  assumes "repository_sound r stored" "folder_paths (all_folders r stored) = Inr paths"
    and "map_r (folder_row_of stored paths) (all_folders r stored) = Inr rows"
  shows "distinct (map (\<lambda>row. casefold (row_path row)) rows)"
proof -
  let ?fs = "all_folders r stored"
  note names = sound_names[OF assms(1)]
  have sib: "siblings_distinct ?fs" using assms(1) by (simp add: repository_sound_def)
  note paths = folder_paths_sound[OF assms(2) names(1,3)]
  have "map row_id ys = keys_of xs" if "map_r (folder_row_of stored paths) xs = Inr ys" for xs ys
    using that by (induction xs arbitrary: ys) (auto simp: bind_r_Inr_iff folder_row_of_def path_in_def split: option.splits)
  note ids = this[OF assms(3)]
  have row: "\<exists>ns. has_names ?fs (row_id row) ns \<and> row_path row = path_text ns" if "row \<in> set rows" for row
  proof -
    from map_r_in[OF assms(3) that] obtain i f where "folder_row_of stored paths (i, f) = Inr row" by auto
    then have "map_of paths (row_id row) = Some (row_path row)"
      by (auto simp: folder_row_of_def path_in_def bind_r_Inr_iff split: option.splits)
    with paths(1) show ?thesis unfolding paths_ok_def by blast
  qed
  have "distinct (keys_of ?fs)" by (simp add: all_folders_def dict_of_ok del: set_map)
  then have rows: "distinct rows" "inj_on row_id (set rows)" unfolding ids[symmetric] by (auto simp: distinct_map)
  have "inj_on (\<lambda>row. casefold (row_path row)) (set rows)"
  proof (rule inj_onI)
    fix a b assume ab: "a \<in> set rows" "b \<in> set rows" "casefold (row_path a) = casefold (row_path b)"
    from row[OF ab(1)] row[OF ab(2)] obtain ns ms where "has_names ?fs (row_id a) ns" "has_names ?fs (row_id b) ms"
      "casefold (path_text ns) = casefold (path_text ms)" using ab(3) by auto
    from same_path_same_folder[OF this sib names(2,1)] show "a = b" using inj_onD[OF rows(2)] ab(1,2) by blast
  qed
  with rows(1) show ?thesis by (simp add: distinct_map)
qed

lemma no_folders_sound: "repository_sound r []"
proof -
  have "siblings_distinct (all_folders ''modules'' [])"
    by (simp add: siblings_distinct_def all_folders_def fixed_modules sibling_key_def casefold_def fold_char_def)
  moreover have "siblings_distinct (all_folders r [])" if "r \<noteq> ''modules''"
    using that by (cases "flat_repository r") (simp_all add: siblings_distinct_def all_folders_def fixed_flat fixed_none dict_of_def)
  ultimately show ?thesis by (cases "r = ''modules''") (simp_all add: repository_sound_def)
qed

lemma empty_stored [simp]: "stored_folders empty_state r = []" "stored_assignments empty_state r = []"
  by (auto simp: stored_folders_def stored_assignments_def empty_state_def map_of_map split: option.splits dest!: map_of_in_set)

lemma validated_sound:
  assumes "validate_state show payload = Inr st" shows "repository_sound r (stored_folders st r)"
proof -
  from assms obtain fd ad checked where c:
    "map_r (\<lambda>r. bind_r (check_repository show r (get_field fd r) (get_field ad r)) (\<lambda>x. Inr (r, x))) repositories = Inr checked"
    "st = \<lparr>fs_folders = map (\<lambda>(r, x). (r, fst x)) checked, fs_assignments = map (\<lambda>(r, x). (r, snd x)) checked\<rparr>"
    by (auto simp: validate_state_def bind_r_Inr_iff split: pyval.splits if_splits)
  show ?thesis
  proof (cases "map_of (fs_folders st) r")
    case None
    then show ?thesis by (simp add: stored_folders_def no_folders_sound)
  next
    case (Some stored)
    then obtain assigned where "(r, stored, assigned) \<in> set checked" by (auto simp: c(2) dest!: map_of_in_set)
    from map_r_in[OF c(1) this] have "check_repository show r (get_field fd r) (get_field ad r) = Inr (stored, assigned)"
      by (auto simp: bind_r_Inr_iff)
    then show ?thesis using check_repository_sound Some by (simp add: stored_folders_def)
  qed
qed

subsection \<open>Valid repositories\<close>

definition placed :: "string \<Rightarrow> folders \<Rightarrow> string \<Rightarrow> bool" where
  "placed r fs i \<longleftrightarrow>
     (if r = ''modules'' then \<exists>root \<in> set (keys_of (fixed_folders r)). below fs i root
      else flat_repository r \<longrightarrow> \<not> below fs i (repository_builtin_folder_id r))"

definition assignment_valid :: "string \<Rightarrow> folders \<Rightarrow> string \<times> string \<Rightarrow> bool" where
  "assignment_valid r fs = (\<lambda>(item_id, folder_id). item_id \<noteq> [] \<and> (folder_id = [] \<or> folder_id \<in> set (keys_of fs)) \<and>
     (module_repository r \<longrightarrow> item_kind item_id \<in> set (repository_kinds r) \<and> folder_id \<noteq> [] \<and>
       (if r = ''modules'' then below fs folder_id (fixed_folder_id (item_kind item_id))
        else \<not> below fs folder_id (repository_builtin_folder_id r))))"

definition repository_valid :: "string \<Rightarrow> folders \<Rightarrow> (string \<times> string) list \<Rightarrow> bool" where
  "repository_valid r stored assigned \<longleftrightarrow>
     distinct (keys_of stored) \<and> distinct (keys_of assigned) \<and> set (keys_of stored) \<inter> set (keys_of (fixed_folders r)) = {} \<and>
     repository_sound r stored \<and>
     (\<forall>i \<in> set (keys_of (all_folders r stored)). rooted (all_folders r stored) i) \<and>
     (\<forall>i \<in> set (keys_of stored). placed r (all_folders r stored) i) \<and>
     (\<forall>a \<in> set assigned. assignment_valid r (all_folders r stored) a)"

lemma fixed_distinct: "distinct (keys_of (fixed_folders r))"
  by (cases "r = ''modules''"; cases "flat_repository r") (simp_all add: fixed_modules fixed_flat fixed_none)

lemma all_folders_append:
  assumes "distinct (keys_of stored)" "set (keys_of stored) \<inter> set (keys_of (fixed_folders r)) = {}"
  shows "all_folders r stored = fixed_folders r @ stored"
  unfolding all_folders_def using assms fixed_distinct[of r] by (intro dict_of_distinct) auto

text \<open>A validated repository reads back what it holds, whatever form the folders have in the file.\<close>

lemma check_repository_complete:
  assumes v: "repository_valid r stored assigned"
    and "\<And>i f. (i, f) \<in> set stored \<Longrightarrow> check_folder show r (h (i, f)) = Inr (i, f)"
  shows "check_repository show r (PDict (map h stored)) (PDict (map (\<lambda>(i, f). (KStr i, PStr f)) assigned)) = Inr (stored, assigned)"
proof -
  let ?fs = "all_folders r stored"
  have root: "\<forall>i \<in> set (keys_of ?fs). rooted ?fs i" and sound: "repository_sound r stored"
    and place: "\<forall>i \<in> set (keys_of stored). placed r ?fs i" and asg: "\<forall>a \<in> set assigned. assignment_valid r ?fs a"
    using v unfolding repository_valid_def by blast+
  have "map_r (\<lambda>x. check_folder show r (h x)) stored = Inr (map (\<lambda>x. x) stored)"
    by (rule map_r_all_Inr) (use assms(2) in auto)
  then have folders: "map_r (check_folder show r) (map h stored) = Inr stored"
    by (induction stored) (auto simp: bind_r_Inr_iff)
  obtain paths where paths: "folder_paths ?fs = Inr paths" by (rule folder_paths_total[OF root sound_names(1,3)[OF sound]])
  have known: "is_descendant ?fs i a = below ?fs i a" if "i \<in> set (keys_of ?fs)" for i a
    using descendant_below root that by blast
  have mem: "i \<in> set (keys_of ?fs)" if "i \<in> set (keys_of stored)" for i
  proof -
    have "distinct (keys_of stored)" "set (keys_of stored) \<inter> set (keys_of (fixed_folders r)) = {}"
      using v unfolding repository_valid_def by blast+
    from all_folders_append[OF this] that show ?thesis by simp
  qed
  have placement: "check_placement r stored ?fs = Inr ()"
    using place known mem by (auto simp: check_placement_def placed_def iter_r_Inr_iff guard_r_Inr_iff list_ex_iff simp del: set_map)
  have one: "check_assignment r ?fs (KStr i, PStr f) = Inr (i, f)" if "(i, f) \<in> set assigned" for i f
  proof -
    have a: "assignment_valid r ?fs (i, f)" using asg that by blast
    then show ?thesis using known
      by (auto simp: assignment_valid_def check_assignment_def Let_def simp del: set_map)
  qed
  have "map_r (\<lambda>(i, f). check_assignment r ?fs (KStr i, PStr f)) assigned = Inr (map (\<lambda>x. x) assigned)"
    by (rule map_r_all_Inr) (use one in auto)
  moreover have "map_r g (map k xs) = map_r (\<lambda>x. g (k x)) xs" for g :: "pykey \<times> pyval \<Rightarrow> (string \<times> string) res" and k and xs :: "(string \<times> string) list"
    by (induction xs) auto
  ultimately have "map_r (check_assignment r ?fs) (map (\<lambda>(i, f). (KStr i, PStr f)) assigned) = Inr assigned"
    by (simp add: case_prod_unfold)
  then show ?thesis
    using sound by (simp add: check_repository_def folders paths placement Let_def repository_sound_def siblings_distinct_def)
qed

subsection \<open>Reading back what was written\<close>

lemma sort_key_map: "sort_key f (map g xs) = map g (sort_key (\<lambda>x. f (g x)) xs)"
proof -
  have "insort_key f (g x) (map g ys) = map g (insort_key (\<lambda>x. f (g x)) x ys)" for x ys
    by (induction ys) auto
  then show ?thesis by (induction xs) auto
qed

lemma map_of_sort_key: "distinct (keys_of xs) \<Longrightarrow> map_of (sort_key f xs) = map_of xs"
  using mset_eq_imp_distinct_iff[of "keys_of (sort_key f xs)" "keys_of xs"] by (intro map_of_inject_set[THEN iffD2]) simp_all

definition sorted_folder :: "string \<times> folder \<Rightarrow> pykey \<times> pyval" where
  "sorted_folder = (\<lambda>(folder_id, f). (KStr folder_id, PDict [(KStr ''fixed'', PBool False), (KStr ''folderId'', PStr folder_id),
     (KStr ''name'', PStr (f_name f)), (KStr ''parentId'', PStr (f_parent f))]))"

lemma sort_folder: "sort_keys (snd (folder_to_py x)) = snd (sorted_folder x)"
  by (cases x) (simp add: folder_to_py_def sorted_folder_def key_name_def)

lemma folder_fields: "has_fields [(KStr ''folderId'', a), (KStr ''name'', b), (KStr ''parentId'', c), (KStr ''fixed'', d)] [''folderId'', ''name'', ''parentId'', ''fixed'']"
    "has_fields [(KStr ''fixed'', d), (KStr ''folderId'', a), (KStr ''name'', b), (KStr ''parentId'', c)] [''folderId'', ''name'', ''parentId'', ''fixed'']"
  by (auto simp: has_fields_def)

lemma text_or_empty_str [simp]: "text_or_empty show (PStr s) = s"
  by (simp add: text_or_empty_def py_truthy_def)

lemma check_written:
  assumes "repository_valid r stored assigned" "(i, f) \<in> set stored"
  shows "check_folder show r (folder_to_py (i, f)) = Inr (i, f)" "check_folder show r (sorted_folder (i, f)) = Inr (i, f)"
proof -
  have "i \<noteq> []" "validate_name (f_name f) = Inr (f_name f)"
    using assms unfolding repository_valid_def repository_sound_def by blast+
  then show "check_folder show r (folder_to_py (i, f)) = Inr (i, f)" "check_folder show r (sorted_folder (i, f)) = Inr (i, f)"
    by (simp_all add: check_folder_def folder_to_py_def sorted_folder_def folder_fields get_field_def)
qed

definition state_valid :: "folder_state \<Rightarrow> bool" where
  "state_valid st \<longleftrightarrow> keys_of (fs_folders st) = repositories \<and> keys_of (fs_assignments st) = repositories \<and>
     (\<forall>r \<in> set repositories. repository_valid r (stored_folders st r) (stored_assignments st r))"

lemma repositories_distinct: "distinct repositories"
  by (simp add: repositories_def)

definition folders_py :: "(string \<times> folder \<Rightarrow> pykey \<times> pyval) \<Rightarrow> folder_state \<Rightarrow> string \<Rightarrow> pyval" where
  "folders_py h st r = PDict (map h (stored_folders st r))"

definition assignments_py :: "folder_state \<Rightarrow> string \<Rightarrow> pyval" where
  "assignments_py st r = PDict (map (\<lambda>(i, f). (KStr i, PStr f)) (stored_assignments st r))"

text \<open>Any file with the right fields, in any order, reads back.\<close>

lemma validate_complete:
  assumes v: "state_valid st" and "set (keys_of d) = KStr ` set [''schemaVersion'', ''folders'', ''assignments'']"
    and "map_of d (KStr ''schemaVersion'') = Some (PInt schema_version)" "map_of d (KStr ''folders'') = Some (PDict fd)"
    and "map_of d (KStr ''assignments'') = Some (PDict ad)" "set (keys_of fd) = KStr ` set repositories" "set (keys_of ad) = KStr ` set repositories"
    and "\<And>r. r \<in> set repositories \<Longrightarrow> map_of fd (KStr r) = Some (folders_py h st r)"
    and "\<And>r. r \<in> set repositories \<Longrightarrow> map_of ad (KStr r) = Some (assignments_py st r)"
    and h: "h = folder_to_py \<or> h = sorted_folder"
  shows "validate_state show (PDict d) = Inr st"
proof -
  have "check_repository show r (get_field fd r) (get_field ad r) = Inr (stored_folders st r, stored_assignments st r)" if r: "r \<in> set repositories" for r
  proof -
    have valid: "repository_valid r (stored_folders st r) (stored_assignments st r)" using v r by (simp add: state_valid_def)
    have "check_folder show r (h (i, f)) = Inr (i, f)" if "(i, f) \<in> set (stored_folders st r)" for i f
      using check_written[OF valid that] h by auto
    from check_repository_complete[OF valid this] show ?thesis
      using assms(8,9)[OF r] by (simp add: get_field_def folders_py_def assignments_py_def)
  qed
  then have "map_r (\<lambda>r. bind_r (check_repository show r (get_field fd r) (get_field ad r)) (\<lambda>x. Inr (r, x))) repositories =
      Inr (map (\<lambda>r. (r, stored_folders st r, stored_assignments st r)) repositories)"
    by (intro map_r_all_Inr) simp
  moreover have "map (\<lambda>r. (r, stored_folders st r)) repositories = fs_folders st"
  proof -
    have "map (\<lambda>r. (r, stored_folders st r)) (keys_of (fs_folders st)) = map (\<lambda>x. x) (fs_folders st)"
      unfolding map_map by (rule map_cong) (use v repositories_distinct in \<open>auto simp: stored_folders_def state_valid_def\<close>)
    with v show ?thesis by (simp add: state_valid_def)
  qed
  moreover have "map (\<lambda>r. (r, stored_assignments st r)) repositories = fs_assignments st"
  proof -
    have "map (\<lambda>r. (r, stored_assignments st r)) (keys_of (fs_assignments st)) = map (\<lambda>x. x) (fs_assignments st)"
      unfolding map_map by (rule map_cong) (use v repositories_distinct in \<open>auto simp: stored_assignments_def state_valid_def\<close>)
    with v show ?thesis by (simp add: state_valid_def)
  qed
  ultimately show ?thesis
    using assms(2-7) by (simp add: validate_state_def has_fields_def get_field_def is_version_def per_repository_def comp_def)
qed

text \<open>The order of the entries does not matter.\<close>

lemma rooted_map: "map_of fs = map_of fs' \<Longrightarrow> rooted fs i = rooted fs' i"
  using rooted_cong[of fs i fs'] rooted_cong[of fs' i fs] by (auto simp: parent_of_def)

lemma below_map: "map_of fs = map_of fs' \<Longrightarrow> below fs i a = below fs' i a"
proof -
  assume m: "map_of fs = map_of fs'"
  have "parent_of fs = parent_of fs'" by (rule ext) (simp add: parent_of_def m)
  then show ?thesis using below_cong[of fs i a fs'] below_cong[of fs' i a fs] by auto
qed

lemma placed_map: "map_of fs = map_of fs' \<Longrightarrow> placed r fs i = placed r fs' i"
  using below_map[of fs fs'] by (simp add: placed_def)

lemma assignment_valid_map: "map_of fs = map_of fs' \<Longrightarrow> assignment_valid r fs a = assignment_valid r fs' a"
  using below_map[of fs fs'] by (simp add: assignment_valid_def key_unknown case_prod_unfold del: set_map)

lemma repository_valid_perm:
  assumes v: "repository_valid r stored assigned" and "mset stored' = mset stored" "mset assigned' = mset assigned"
  shows "repository_valid r stored' assigned'"
proof -
  have d: "distinct (keys_of stored)" "set (keys_of stored) \<inter> set (keys_of (fixed_folders r)) = {}" "distinct (keys_of assigned)"
    using v unfolding repository_valid_def by blast+
  have keys: "mset (keys_of stored') = mset (keys_of stored)" "mset (keys_of assigned') = mset (keys_of assigned)"
    using assms(2,3) by simp_all
  have sets: "set stored' = set stored" "set assigned' = set assigned" "set (keys_of stored') = set (keys_of stored)"
    using mset_eq_setD[OF assms(2)] mset_eq_setD[OF assms(3)] mset_eq_setD[OF keys(1)] by simp_all
  have d': "distinct (keys_of stored')" "distinct (keys_of assigned')"
    using d(1,3) mset_eq_imp_distinct_iff[OF keys(1)] mset_eq_imp_distinct_iff[OF keys(2)] by simp_all
  have fs: "all_folders r stored = fixed_folders r @ stored" "all_folders r stored' = fixed_folders r @ stored'"
    using all_folders_append[OF d(1,2)] all_folders_append[OF d'(1), of r] d(2) sets(3) by simp_all
  have "map_of stored' = map_of stored" using d(1) d'(1) sets(1) by (simp add: map_of_inject_set)
  then have m: "map_of (all_folders r stored) = map_of (all_folders r stored')" by (simp add: fs)
  have "mset (map (\<lambda>(i, f). sibling_key f) (all_folders r stored')) = mset (map (\<lambda>(i, f). sibling_key f) (all_folders r stored))"
    using assms(2) by (simp add: fs)
  then have "siblings_distinct (all_folders r stored') = siblings_distinct (all_folders r stored)"
    unfolding siblings_distinct_def by (rule mset_eq_imp_distinct_iff)
  then have "repository_sound r stored'" using v unfolding repository_valid_def repository_sound_def sets(1) by blast
  moreover have "set (keys_of (all_folders r stored')) = set (keys_of (all_folders r stored))" using sets(3) by (simp add: fs)
  ultimately show ?thesis
    using v d' unfolding repository_valid_def sets(2,3) rooted_map[OF m] placed_map[OF m] assignment_valid_map[OF m] by simp
qed

definition sort_state :: "folder_state \<Rightarrow> folder_state" where
  "sort_state st = \<lparr>fs_folders = map (\<lambda>r. (r, sort_key fst (stored_folders st r))) repositories,
     fs_assignments = map (\<lambda>r. (r, sort_key fst (stored_assignments st r))) repositories\<rparr>"

lemma map_of_repositories: "map_of (map (\<lambda>r. (r, f r)) repositories) r = (if r \<in> set repositories then Some (f r) else None)"
  by (simp add: map_of_map_restrict restrict_map_def)

lemma sort_state_stored: "r \<in> set repositories \<Longrightarrow> stored_folders (sort_state st) r = sort_key fst (stored_folders st r)"
    "r \<in> set repositories \<Longrightarrow> stored_assignments (sort_state st) r = sort_key fst (stored_assignments st r)"
  by (simp_all add: stored_folders_def stored_assignments_def sort_state_def map_of_repositories)

lemma sort_state_valid: "state_valid st \<Longrightarrow> state_valid (sort_state st)"
proof -
  assume v: "state_valid st"
  have "repository_valid r (stored_folders (sort_state st) r) (stored_assignments (sort_state st) r)" if r: "r \<in> set repositories" for r
    by (rule repository_valid_perm[of r "stored_folders st r" "stored_assignments st r"])
      (use v r in \<open>simp_all add: state_valid_def sort_state_stored\<close>)
  then show ?thesis by (simp add: state_valid_def sort_state_def comp_def)
qed

lemma stored_of_state:
  assumes "state_valid st" "r \<in> set repositories"
  shows "map_of (fs_folders st) r = Some (stored_folders st r)" "map_of (fs_assignments st) r = Some (stored_assignments st r)"
  using assms key_lookup[of r "fs_folders st"] key_lookup[of r "fs_assignments st"]
  by (auto simp: state_valid_def stored_folders_def stored_assignments_def simp del: set_map)

lemma map_of_KStr: "map_of (map (\<lambda>(r, x). (KStr r, g x)) m) (KStr r) = map_option g (map_of m r)"
  by (induction m) auto

lemma keys_KStr: "keys_of (map (\<lambda>(r, x). (KStr r, g x)) m) = map KStr (keys_of m)"
  by (induction m) auto

lemma validate_state_to_py:
  assumes v: "state_valid st" shows "validate_state show (state_to_py st) = Inr st"
  unfolding state_to_py_def
proof (rule validate_complete[OF v, where h = folder_to_py])
  show "set (keys_of (map (\<lambda>(r, fs). (KStr r, PDict (map folder_to_py fs))) (fs_folders st))) = KStr ` set repositories"
    "set (keys_of (map (\<lambda>(r, as). (KStr r, PDict (map (\<lambda>(i, f). (KStr i, PStr f)) as))) (fs_assignments st))) = KStr ` set repositories"
    unfolding keys_KStr using v by (simp_all only: state_valid_def set_map)
qed (simp_all add: map_of_KStr stored_of_state[OF v] folders_py_def assignments_py_def)

lemma sort_folders: "sort_keys (PDict (map folder_to_py fs)) = PDict (map sorted_folder (sort_key fst fs))"
proof -
  have "(case folder_to_py x of (k, v) \<Rightarrow> (k, sort_keys v)) = sorted_folder x" for x
    using sort_folder[of x] by (cases x) (simp add: folder_to_py_def sorted_folder_def del: sort_keys.simps)
  moreover have "(case sorted_folder x of (k, v) \<Rightarrow> key_name k) = fst x" for x by (cases x) (simp add: sorted_folder_def key_name_def)
  ultimately show ?thesis by (simp add: comp_def sort_key_map)
qed

lemma sort_assignments: "sort_keys (PDict (map (\<lambda>(i, f). (KStr i, PStr f)) as)) = PDict (map (\<lambda>(i, f). (KStr i, PStr f)) (sort_key fst as))"
  by (simp add: comp_def case_prod_unfold sort_key_map key_name_def)

lemma sort_table:
  assumes "\<And>x. sort_keys (g x) = k x"
  shows "sort_keys (PDict (map (\<lambda>(r, x). (KStr r, g x)) m)) = PDict (map (\<lambda>(r, x). (KStr r, k x)) (sort_key fst m))"
proof -
  have "(\<lambda>y. case case y of (r, x) \<Rightarrow> (KStr r, k x) of (q, v) \<Rightarrow> key_name q) = fst"
    by (rule ext) (simp add: key_name_def split: prod.split)
  moreover have "(\<lambda>(q, v). (q, sort_keys v)) \<circ> (\<lambda>(r, x). (KStr r, g x)) = (\<lambda>(r, x). (KStr r, k x))"
    by (rule ext) (simp add: assms split: prod.split)
  ultimately show ?thesis by (simp only: sort_keys.simps map_map sort_key_map)
qed

lemma sort_three:
  "sort_keys (PDict [(KStr ''schemaVersion'', a), (KStr ''folders'', b), (KStr ''assignments'', c)]) =
     PDict [(KStr ''assignments'', sort_keys c), (KStr ''folders'', sort_keys b), (KStr ''schemaVersion'', sort_keys a)]"
  by (simp add: key_name_def)

lemma validate_written:
  assumes v: "state_valid st" shows "validate_state show (sort_keys (state_to_py st)) = Inr (sort_state st)"
proof -
  let ?fd = "map (\<lambda>(r, fs). (KStr r, PDict (map sorted_folder (sort_key fst fs)))) (sort_key fst (fs_folders st))"
  let ?ad = "map (\<lambda>(r, as). (KStr r, PDict (map (\<lambda>(i, f). (KStr i, PStr f)) (sort_key fst as)))) (sort_key fst (fs_assignments st))"
  have py: "sort_keys (state_to_py st) =
      PDict [(KStr ''assignments'', PDict ?ad), (KStr ''folders'', PDict ?fd), (KStr ''schemaVersion'', PInt schema_version)]"
    unfolding state_to_py_def sort_three by (simp add: sort_table[OF sort_folders] sort_table[OF sort_assignments] del: sort_keys.simps(1))
  have d: "distinct (keys_of (fs_folders st))" "distinct (keys_of (fs_assignments st))"
    using v repositories_distinct by (simp_all add: state_valid_def)
  have keys: "set (keys_of (sort_key fst (fs_folders st))) = set repositories" "set (keys_of (sort_key fst (fs_assignments st))) = set repositories"
    using v by (metis set_sort set_map state_valid_def)+
  show ?thesis unfolding py
  proof (rule validate_complete[OF sort_state_valid[OF v], where h = sorted_folder])
    show "set (keys_of ?fd) = KStr ` set repositories" "set (keys_of ?ad) = KStr ` set repositories"
      unfolding keys_KStr using keys by (simp_all only: set_map[of KStr])
  qed (auto simp: map_of_KStr map_of_sort_key d stored_of_state[OF v] folders_py_def assignments_py_def sort_state_stored)
qed

text \<open>A file that is absent, or was written from a valid state\<close>

definition written :: "folder_state \<Rightarrow> folder_file" where
  "written st = Some (sort_keys (state_to_py st))"

definition file_valid :: "folder_file \<Rightarrow> bool" where
  "file_valid file \<longleftrightarrow> file = None \<or> (\<exists>st. state_valid st \<and> file = written st)"

lemma empty_valid: "state_valid empty_state"
proof -
  have "rooted (all_folders r []) i" if i: "i \<in> set (keys_of (all_folders r []))" for r i
  proof (cases "r = ''modules''")
    case True
    then have eq: "all_folders r [] = fixed_folders ''modules''" using all_folders_append[of "[]" r] by simp
    have top: "rooted (fixed_folders ''modules'') i" if "map_of (fixed_folders ''modules'') i = Some f" "f_parent f = []" for i f
      by (rule rooted.child[OF that(1)]) (simp add: that(2) rooted.top)
    have r: "rooted (fixed_folders ''modules'') ''modules-fixed-universe''" "rooted (fixed_folders ''modules'') ''modules-fixed-signal''"
      "rooted (fixed_folders ''modules'') ''modules-fixed-target''" "rooted (fixed_folders ''modules'') ''modules-fixed-constraint''"
      by (rule top, simp add: fixed_modules, simp)+
    have "f_parent f \<in> {[], ''modules-fixed-universe'', ''modules-fixed-signal'', ''modules-fixed-target'', ''modules-fixed-constraint''}"
      if "(i, f) \<in> set (fixed_folders ''modules'')" for i f using that unfolding fixed_modules by auto
    note mem = this
    have all: "\<forall>p \<in> {[], ''modules-fixed-universe'', ''modules-fixed-signal'', ''modules-fixed-target'', ''modules-fixed-constraint''}.
        rooted (fixed_folders ''modules'') p"
      by (simp only: ball_simps r rooted.top simp_thms)
    have parent: "rooted (fixed_folders ''modules'') (f_parent f)" if "(i, f) \<in> set (fixed_folders ''modules'')" for i f
      by (rule bspec[OF all mem[OF that]])
    obtain f where f: "map_of (fixed_folders ''modules'') i = Some f" using key_lookup[OF i[unfolded eq]] by (rule exE)
    show ?thesis unfolding eq by (rule rooted.child[OF f parent[OF map_of_in_set[OF f]]])
  next
    case False
    then have eq: "all_folders r [] = fixed_folders r" using all_folders_append[of "[]" r] by simp
    show ?thesis
    proof (cases "flat_repository r")
      case True
      then have "i = repository_builtin_folder_id r" using i by (simp add: eq fixed_flat)
      then have "map_of (fixed_folders r) i = Some \<lparr>f_name = ''BuiltIn'', f_parent = []\<rparr>" by (simp add: fixed_flat[OF True])
      then show ?thesis unfolding eq by (rule rooted.child) (simp add: rooted.top)
    qed (use i False in \<open>simp add: eq fixed_none\<close>)
  qed
  then have root: "\<forall>i \<in> set (keys_of (all_folders r [])). rooted (all_folders r []) i" for r by blast
  have "repository_valid r [] []" for r
    unfolding repository_valid_def by (intro conjI root no_folders_sound) simp_all
  moreover have "keys_of (fs_folders empty_state) = repositories" "keys_of (fs_assignments empty_state) = repositories"
    by (simp_all add: empty_state_def comp_def)
  ultimately show ?thesis by (simp add: state_valid_def)
qed

lemma load_valid:
  assumes "file_valid file" obtains st where "state_valid st" "load_state show file = (Inr st, file)"
proof (cases "file")
  case None
  then show ?thesis using that[OF empty_valid] by (simp add: load_state_def gets_s_def ret_s_def bind_s_def)
next
  case (Some payload)
  with assms obtain st where "state_valid st" "payload = sort_keys (state_to_py st)" by (auto simp: file_valid_def written_def)
  then show ?thesis using that[OF sort_state_valid] Some validate_written
    by (simp add: load_state_def gets_s_def lift_s_def bind_s_def)
qed

lemma save_valid: "state_valid st \<Longrightarrow> save_state show st file = (Inr (), written st)"
  by (simp add: save_state_def validate_state_to_py lift_s_def modify_s_def bind_s_def written_def)

end
