(* ===== verification/Folder_Changes.thy ===== *)
theory Folder_Changes
  imports Folder_Safety
begin

section \<open>Changes keep the folders valid\<close>

text \<open>
  The checks of each change are enough: what passes them is a valid state again, so that the validation
  in \<open>save_state\<close> never refuses it.
\<close>

subsection \<open>Folders that agree\<close>

lemma below_agree:
  assumes "rooted fs i" "\<And>j. below fs i j \<Longrightarrow> parent_of fs' j = parent_of fs j" shows "below fs' i a = below fs i a"
  using assms
proof (induction rule: rooted.induct)
  case (child fs i f)
  show ?case
  proof (cases "i = []")
    case False
    have p: "parent_of fs i = f_parent f" using child.hyps(1) by (rule parent_lookup)
    have same: "parent_of fs' i = parent_of fs i" using child.prems[of i] False by (simp add: below.self)
    have "below fs' (f_parent f) a = below fs (f_parent f) a"
      by (rule child.IH) (rule child.prems, rule below.up, use False p in simp_all)
    then show ?thesis using False by (simp add: below_step same p)
  qed auto
qed auto

lemma rooted_agree:
  assumes "rooted fs i" "\<And>j. below fs i j \<Longrightarrow> map_of fs' j \<noteq> None \<and> parent_of fs' j = parent_of fs j" shows "rooted fs' i"
  using assms
proof (induction rule: rooted.induct)
  case (child fs i f)
  show ?case
  proof (cases "i = []")
    case False
    have p: "parent_of fs i = f_parent f" using child.hyps(1) by (rule parent_lookup)
    have same: "map_of fs' i \<noteq> None" "parent_of fs' i = parent_of fs i" using child.prems[of i] False by (simp_all add: below.self)
    have "rooted fs' (f_parent f)"
      by (rule child.IH) (rule child.prems, rule below.up, use False p in simp_all)
    with same p show ?thesis by (auto simp: parent_of_def intro: rooted.child)
  qed (simp add: rooted.top)
qed (rule rooted.top)

lemma below_last: "below fs i a \<Longrightarrow> i = a \<or> (\<exists>j f. map_of fs j = Some f \<and> f_parent f = a)"
proof (induction rule: below.induct)
  case (up i fs a)
  then show ?case
  proof (cases "parent_of fs i = a")
    case True
    moreover have "a \<noteq> []" using below_nonempty[OF up.hyps(2)] by blast
    ultimately obtain f where "map_of fs i = Some f" "f_parent f = a" by (auto simp: parent_of_def split: option.splits)
    then show ?thesis by blast
  qed blast
qed simp

lemma siblings_lookup:
  assumes "distinct (keys_of fs)"
  shows "siblings_distinct fs \<longleftrightarrow> (\<forall>i j f g. map_of fs i = Some f \<longrightarrow> map_of fs j = Some g \<longrightarrow> sibling_key f = sibling_key g \<longrightarrow> i = j)"
proof
  assume "siblings_distinct fs"
  then show "\<forall>i j f g. map_of fs i = Some f \<longrightarrow> map_of fs j = Some g \<longrightarrow> sibling_key f = sibling_key g \<longrightarrow> i = j"
    using sibling_unique by blast
next
  assume u: "\<forall>i j f g. map_of fs i = Some f \<longrightarrow> map_of fs j = Some g \<longrightarrow> sibling_key f = sibling_key g \<longrightarrow> i = j"
  have "inj_on (\<lambda>(i, f). sibling_key f) (set fs)"
  proof (rule inj_onI, clarify)
    fix i f j g assume "(i, f) \<in> set fs" "(j, g) \<in> set fs" "sibling_key f = sibling_key g"
    with u assms have "map_of fs i = Some f" "map_of fs j = Some g" "i = j" by simp_all
    then show "i = j \<and> f = g" by simp
  qed
  moreover have "distinct fs" using assms by (simp add: distinct_map)
  ultimately show "siblings_distinct fs" by (simp add: siblings_distinct_def distinct_map)
qed

subsection \<open>The parts of validity\<close>

lemma valid_parts:
  assumes "repository_valid r stored assigned"
  shows "distinct (keys_of stored)" "distinct (keys_of assigned)" "set (keys_of stored) \<inter> set (keys_of (fixed_folders r)) = {}"
    "repository_sound r stored" "all_folders r stored = fixed_folders r @ stored" "distinct (keys_of (all_folders r stored))"
    "i \<in> set (keys_of (all_folders r stored)) \<Longrightarrow> rooted (all_folders r stored) i"
    "i \<in> set (keys_of stored) \<Longrightarrow> placed r (all_folders r stored) i"
    "a \<in> set assigned \<Longrightarrow> assignment_valid r (all_folders r stored) a"
proof -
  have v: "distinct (keys_of stored)" "distinct (keys_of assigned)" "set (keys_of stored) \<inter> set (keys_of (fixed_folders r)) = {}"
    "repository_sound r stored" "\<forall>i \<in> set (keys_of (all_folders r stored)). rooted (all_folders r stored) i"
    "\<forall>i \<in> set (keys_of stored). placed r (all_folders r stored) i" "\<forall>a \<in> set assigned. assignment_valid r (all_folders r stored) a"
    using assms unfolding repository_valid_def by blast+
  then show "distinct (keys_of stored)" "distinct (keys_of assigned)" "set (keys_of stored) \<inter> set (keys_of (fixed_folders r)) = {}"
    "repository_sound r stored" by blast+
  show "all_folders r stored = fixed_folders r @ stored" using v(1,3) by (rule all_folders_append)
  show "distinct (keys_of (all_folders r stored))" unfolding all_folders_def by (rule dict_of_ok)
  show "i \<in> set (keys_of (all_folders r stored)) \<Longrightarrow> rooted (all_folders r stored) i" using v(5) by blast
  show "i \<in> set (keys_of stored) \<Longrightarrow> placed r (all_folders r stored) i" using v(6) by blast
  show "a \<in> set assigned \<Longrightarrow> assignment_valid r (all_folders r stored) a" using v(7) by blast
qed

lemma valid_descendant:
  assumes "repository_valid r stored assigned" "i = [] \<or> i \<in> set (keys_of (all_folders r stored))"
  shows "is_descendant (all_folders r stored) i a = below (all_folders r stored) i a"
  using assms descendant_below valid_parts(7) rooted.top by blast

lemma lookup_update_all:
  assumes "distinct (keys_of stored)" "set (keys_of stored) \<inter> set (keys_of (fixed_folders r)) = {}" "i \<notin> set (keys_of (fixed_folders r))"
  shows "map_of (all_folders r (AList.update i f stored)) = (map_of (all_folders r stored))(i \<mapsto> f)"
    "distinct (keys_of (AList.update i f stored))" "set (keys_of (AList.update i f stored)) \<inter> set (keys_of (fixed_folders r)) = {}"
proof -
  show d: "distinct (keys_of (AList.update i f stored))" using assms(1) by (rule distinct_update)
  have "set (keys_of (AList.update i f stored)) = insert i (set (keys_of stored))" by (rule ad.keys_put)
  then show disj: "set (keys_of (AList.update i f stored)) \<inter> set (keys_of (fixed_folders r)) = {}"
    using assms(2,3) by (simp only: Int_insert_left if_False)
  have "map_of (fixed_folders r) i = None" using assms(3) by (simp add: key_unknown del: set_map)
  then have "(map_of stored)(i \<mapsto> f) ++ map_of (fixed_folders r) = (map_of stored ++ map_of (fixed_folders r))(i \<mapsto> f)"
    by (intro ext) (simp add: map_add_def split: option.split)
  then show "map_of (all_folders r (AList.update i f stored)) = (map_of (all_folders r stored))(i \<mapsto> f)"
    unfolding all_folders_append[OF d disj] all_folders_append[OF assms(1,2)] map_of_append update_conv' .
qed

text \<open>A stored folder is set\<close>

lemma valid_set:
  assumes v: "repository_valid r stored assigned" and i: "i \<notin> set (keys_of (fixed_folders r))" "i \<noteq> []"
    and name: "validate_name (f_name f) = Inr (f_name f)"
    and alone: "\<not> taken_name (others (all_folders r stored) i) (f_parent f) (f_name f)"
    and fs': "fs' = all_folders r (AList.update i f stored)"
    and roots: "\<And>j. j = i \<or> j \<in> set (keys_of (all_folders r stored)) \<Longrightarrow> rooted fs' j"
    and places: "\<And>j. j = i \<or> j \<in> set (keys_of stored) \<Longrightarrow> placed r fs' j"
    and items: "\<And>a. a \<in> set assigned \<Longrightarrow> assignment_valid r fs' a"
  shows "repository_valid r (AList.update i f stored) assigned"
proof -
  let ?fs = "all_folders r stored"
  note p = valid_parts[OF v]
  note u = lookup_update_all[OF p(1,3) i(1), of f]
  have m: "map_of fs' = (map_of ?fs)(i \<mapsto> f)" using u(1) fs' by simp
  have d: "distinct (keys_of fs')" by (simp add: fs' all_folders_def dict_of_ok del: set_map)
  have other: "sibling_key g \<noteq> sibling_key f" if "map_of ?fs j = Some g" "j \<noteq> i" for j g
  proof -
    have "(j, g) \<in> set (others ?fs i)" using map_of_in_set[OF that(1)] that(2) by (simp add: others_def)
    with alone show ?thesis by (auto simp: taken_name_def list_ex_iff sibling_key_def)
  qed
  have old: "j = k" if "map_of ?fs j = Some g" "map_of ?fs k = Some h" "sibling_key g = sibling_key h" for j k g h
    using p(4) sibling_unique that unfolding repository_sound_def by blast
  have "siblings_distinct fs'" unfolding siblings_lookup[OF d] m
  proof (intro allI impI)
    fix j k g h assume a: "((map_of ?fs)(i \<mapsto> f)) j = Some g" "((map_of ?fs)(i \<mapsto> f)) k = Some h" "sibling_key g = sibling_key h"
    consider "j = i" "k = i" | "j = i" "k \<noteq> i" | "j \<noteq> i" "k = i" | "j \<noteq> i" "k \<noteq> i" by blast
    then show "j = k"
    proof cases
      case 2
      then have "g = f" "map_of ?fs k = Some h" using a by simp_all
      with other[of k h] 2 a(3) show ?thesis by simp
    next
      case 3
      then have "h = f" "map_of ?fs j = Some g" using a by simp_all
      with other[of j g] 3 a(3) show ?thesis by simp
    next
      case 4
      then show ?thesis using old[of j g k h] a by simp
    qed simp
  qed
  moreover have "j \<noteq> [] \<and> validate_name (f_name g) = Inr (f_name g)" if "(j, g) \<in> set (AList.update i f stored)" for j g
  proof -
    from that set_update_subset[of i f stored] have "(j, g) = (i, f) \<or> (j, g) \<in> set stored" by blast
    moreover have "j \<noteq> [] \<and> validate_name (f_name g) = Inr (f_name g)" if "(j, g) \<in> set stored"
      using p(4) that unfolding repository_sound_def by blast
    ultimately show ?thesis using i(2) name by blast
  qed
  ultimately have sound: "repository_sound r (AList.update i f stored)" unfolding repository_sound_def fs' by blast
  have keys: "set (keys_of fs') = insert i (set (keys_of ?fs))"
    by (auto simp: key_unknown m simp del: set_map split: if_splits)
  have stored: "set (keys_of (AList.update i f stored)) = insert i (set (keys_of stored))" by (rule ad.keys_put)
  show ?thesis unfolding repository_valid_def fs'[symmetric]
  proof (intro conjI ballI)
    show "rooted fs' j" if "j \<in> set (keys_of fs')" for j using roots that unfolding keys by (simp only: insert_iff)
    show "placed r fs' j" if "j \<in> set (keys_of (AList.update i f stored))" for j
      using places that unfolding stored by (simp only: insert_iff)
  qed (use u(2,3) p(2) sound items in auto)
qed

text \<open>Where the parents are those of before, so is everything above.\<close>

lemma same_places:
  assumes "rooted fs i" "\<And>j. below fs i j \<Longrightarrow> map_of fs' j \<noteq> None \<and> parent_of fs' j = parent_of fs j"
  shows "rooted fs' i" "placed r fs' i = placed r fs i" "below fs' i a = below fs i a"
proof -
  show "rooted fs' i" using assms by (rule rooted_agree)
  have "below fs' i a = below fs i a" for a using assms by (intro below_agree) blast+
  then show "placed r fs' i = placed r fs i" "below fs' i a = below fs i a" by (simp_all add: placed_def)
qed

lemma same_assignment:
  assumes "assignment_valid r fs (item_id, folder_id)" "folder_id = [] \<or> folder_id \<in> set (keys_of fs')"
    and "\<And>a. below fs' folder_id a = below fs folder_id a"
  shows "assignment_valid r fs' (item_id, folder_id)"
  using assms by (simp add: assignment_valid_def del: set_map)

lemma same_other_parents: "map_of fs' = (map_of fs)(i \<mapsto> f) \<Longrightarrow> j \<noteq> i \<Longrightarrow> parent_of fs' j = parent_of fs j"
  by (simp add: parent_of_def)

subsection \<open>Create\<close>

lemma create_valid:
  assumes v: "repository_valid r stored assigned" and "create_checks r name parent_id (all_folders r stored) = Inr ()"
    and "validate_name name = Inr name" and new: "new_id \<notin> set (keys_of (all_folders r stored))" "new_id \<noteq> []"
  shows "repository_valid r (AList.update new_id \<lparr>f_name = name, f_parent = parent_id\<rparr> stored) assigned"
proof -
  let ?fs = "all_folders r stored" and ?f = "\<lparr>f_name = name, f_parent = parent_id\<rparr>"
  let ?fs' = "all_folders r (AList.update new_id ?f stored)"
  note p = valid_parts[OF v]
  have c: "parent_id = [] \<or> parent_id \<in> set (keys_of ?fs)" "\<not> (r = ''modules'' \<and> parent_id = [])"
    "\<not> (flat_repository r \<and> parent_id \<noteq> [] \<and> is_descendant ?fs parent_id (repository_builtin_folder_id r))" "\<not> taken_name ?fs parent_id name"
    using assms(2) by (auto simp: create_checks_def bind_r_Inr_iff guard_r_Inr_iff simp del: set_map)
  have fixed: "new_id \<notin> set (keys_of (fixed_folders r))" using new(1) unfolding p(5) by simp
  have m: "map_of ?fs' = (map_of ?fs)(new_id \<mapsto> ?f)" using lookup_update_all(1)[OF p(1,3) fixed] .
  have agree: "map_of ?fs' j \<noteq> None \<and> parent_of ?fs' j = parent_of ?fs j" if "i = [] \<or> i \<in> set (keys_of ?fs)" "below ?fs i j" for i j
  proof -
    have "j \<in> set (keys_of ?fs)" using below_keys[OF _ that(2)] p(7)[of i] that rooted.top below_nonempty[OF that(2)] by blast
    then show ?thesis using new(1) same_other_parents[OF m, of j] by (auto simp: m key_unknown simp del: set_map)
  qed
  have root: "rooted ?fs i" if "i = [] \<or> i \<in> set (keys_of ?fs)" for i using that p(7) rooted.top by blast
  have same: "rooted ?fs' i" "placed r ?fs' i = placed r ?fs i" "below ?fs' i a = below ?fs i a" if "i = [] \<or> i \<in> set (keys_of ?fs)" for i a
    by (rule same_places[OF root[OF that] agree[OF that]], assumption)+
  have par: "parent_of ?fs' new_id = parent_id" by (simp add: parent_of_def m)
  have desc: "is_descendant ?fs parent_id a = below ?fs parent_id a" for a using valid_descendant[OF v c(1)] .
  show ?thesis
  proof (rule valid_set[OF v fixed new(2) _ _ refl])
    show "validate_name (f_name ?f) = Inr (f_name ?f)" using assms(3) by simp
    show "\<not> taken_name (others ?fs new_id) (f_parent ?f) (f_name ?f)"
      using c(4) by (auto simp: taken_name_def others_def list_ex_iff)
    show "rooted ?fs' j" if "j = new_id \<or> j \<in> set (keys_of ?fs)" for j
      using that
    proof
      assume "j = new_id"
      then show ?thesis using rooted.child[of ?fs' new_id ?f] same(1)[OF c(1)] by (simp add: m)
    qed (use same in blast)
    show "placed r ?fs' j" if "j = new_id \<or> j \<in> set (keys_of stored)" for j
      using that
    proof
      assume j: "j = new_id"
      have step: "below ?fs' new_id a \<longleftrightarrow> new_id = a \<or> below ?fs parent_id a" for a
        using below_step[OF new(2), of ?fs' a] same(3)[OF c(1), of a] by (simp add: par)
      show ?thesis
      proof (cases "r = ''modules''")
        case True
        have "set (keys_of ?fs) = set (keys_of (fixed_folders r)) \<union> set (keys_of stored)" by (simp add: p(5))
        with c(1,2) True have k: "parent_id \<in> set (keys_of (fixed_folders r)) \<or> parent_id \<in> set (keys_of stored)" "parent_id \<noteq> []"
          by blast+
        from k(1) have "\<exists>root \<in> set (keys_of (fixed_folders r)). below ?fs parent_id root"
          using p(8)[of parent_id] k(2) True below.self unfolding placed_def by auto
        then show ?thesis unfolding placed_def j step using True by auto
      next
        case False
        have "flat_repository r \<Longrightarrow> repository_builtin_folder_id r \<noteq> new_id" using fixed by (auto simp: fixed_flat)
        moreover have "flat_repository r \<Longrightarrow> \<not> below ?fs parent_id (repository_builtin_folder_id r)"
          using c(3) desc below_nonempty by metis
        ultimately show ?thesis using False unfolding placed_def j step by auto
      qed
    next
      assume "j \<in> set (keys_of stored)"
      then show ?thesis using p(8)[of j] same(2)[of j] by (auto simp: p(5))
    qed
    show "assignment_valid r ?fs' a" if "a \<in> set assigned" for a
    proof -
      obtain item_id folder_id where a: "a = (item_id, folder_id)" by force
      have av: "assignment_valid r ?fs (item_id, folder_id)" using p(9)[OF that] a by simp
      then have k: "folder_id = [] \<or> folder_id \<in> set (keys_of ?fs)" by (simp add: assignment_valid_def del: set_map)
      then have "folder_id = [] \<or> folder_id \<in> set (keys_of ?fs')" by (auto simp: key_unknown m simp del: set_map)
      then show ?thesis unfolding a by (rule same_assignment[OF av]) (use same(3) k in blast)
    qed
  qed
qed

subsection \<open>Rename\<close>

lemma rename_valid:
  assumes v: "repository_valid r stored assigned" and checks: "rename_checks r folder_id name stored (all_folders r stored) = Inr f"
    and "validate_name name = Inr name"
  shows "repository_valid r (AList.update folder_id (f\<lparr>f_name := name\<rparr>) stored) assigned"
proof -
  let ?fs = "all_folders r stored" and ?f = "f\<lparr>f_name := name\<rparr>"
  let ?fs' = "all_folders r (AList.update folder_id ?f stored)"
  note p = valid_parts[OF v]
  have c: "map_of stored folder_id = Some f" "\<not> taken_name (others ?fs folder_id) (f_parent f) name"
    using checks by (auto simp: rename_checks_def bind_r_Inr_iff guard_r_Inr_iff split: option.splits if_splits)
  have key: "folder_id \<in> set (keys_of stored)" using c(1) by (rule found_key)
  with p(3) have fixed: "folder_id \<notin> set (keys_of (fixed_folders r))" by blast
  have f: "(folder_id, f) \<in> set stored" using c(1) by (rule map_of_in_set)
  then have ne: "folder_id \<noteq> []" using p(4) unfolding repository_sound_def by blast
  have m: "map_of ?fs' = (map_of ?fs)(folder_id \<mapsto> ?f)" using lookup_update_all(1)[OF p(1,3) fixed] .
  have "(folder_id, f) \<in> set ?fs" using f by (simp add: p(5))
  with p(6) have fs: "map_of ?fs folder_id = Some f" by (rule map_of_is_SomeI)
  have agree: "map_of ?fs' j \<noteq> None \<and> parent_of ?fs' j = parent_of ?fs j" if "i = [] \<or> i \<in> set (keys_of ?fs)" "below ?fs i j" for i j
  proof -
    have "j \<in> set (keys_of ?fs)" using below_keys[OF _ that(2)] p(7)[of i] that rooted.top below_nonempty[OF that(2)] by blast
    then show ?thesis by (auto simp: m fs key_unknown parent_of_def simp del: set_map)
  qed
  have root: "rooted ?fs i" if "i = [] \<or> i \<in> set (keys_of ?fs)" for i using that p(7) rooted.top by blast
  have same: "rooted ?fs' i" "placed r ?fs' i = placed r ?fs i" "below ?fs' i a = below ?fs i a" if "i = [] \<or> i \<in> set (keys_of ?fs)" for i a
    by (rule same_places[OF root[OF that] agree[OF that]], assumption)+
  have mem: "i \<in> set (keys_of ?fs)" if "i \<in> set (keys_of stored)" for i using that by (simp add: p(5))
  show ?thesis
  proof (rule valid_set[OF v fixed ne _ _ refl])
    show "validate_name (f_name ?f) = Inr (f_name ?f)" using assms(3) by simp
    show "\<not> taken_name (others ?fs folder_id) (f_parent ?f) (f_name ?f)" using c(2) by simp
    show "rooted ?fs' j" if "j = folder_id \<or> j \<in> set (keys_of ?fs)" for j using that same(1) mem key by blast
    show "placed r ?fs' j" if "j = folder_id \<or> j \<in> set (keys_of stored)" for j
    proof -
      have "j \<in> set (keys_of stored)" using that key by blast
      then show ?thesis using same(2)[of j] p(8) mem by blast
    qed
    show "assignment_valid r ?fs' a" if "a \<in> set assigned" for a
    proof -
      obtain item_id folder where a: "a = (item_id, folder)" by force
      have av: "assignment_valid r ?fs (item_id, folder)" using p(9)[OF that] a by simp
      then have k: "folder = [] \<or> folder \<in> set (keys_of ?fs)" by (simp add: assignment_valid_def del: set_map)
      then have "folder = [] \<or> folder \<in> set (keys_of ?fs')" by (auto simp: key_unknown m simp del: set_map)
      then show ?thesis unfolding a by (rule same_assignment[OF av]) (use same(3) k in blast)
    qed
  qed
qed

subsection \<open>Delete\<close>

lemma delete_valid:
  assumes v: "repository_valid r stored assigned"
    and checks: "delete_checks r folder_id stored (all_folders r stored) assigned = Inr f"
  shows "repository_valid r (AList.delete folder_id stored) assigned"
proof -
  let ?fs = "all_folders r stored" and ?stored = "AList.delete folder_id stored"
  let ?fs' = "all_folders r ?stored"
  note p = valid_parts[OF v]
  have c: "map_of stored folder_id = Some f" "\<not> list_ex (\<lambda>(i, g). f_parent g = folder_id) ?fs" "folder_id \<notin> set (vals_of assigned)"
    using checks by (auto simp: delete_checks_def bind_r_Inr_iff guard_r_Inr_iff simp del: set_map split: option.splits)
  have key: "folder_id \<in> set (keys_of stored)" using c(1) by (rule found_key)
  with p(3) have fixed: "folder_id \<notin> set (keys_of (fixed_folders r))" by blast
  have sub: "set ?stored \<subseteq> set stored" by (auto simp: AList.delete_eq)
  have d: "distinct (keys_of ?stored)" using p(1) by (rule distinct_delete)
  have keys: "set (keys_of ?stored) = set (keys_of stored) - {folder_id}" by (rule ad.keys_drop)
  with p(3) have disj: "set (keys_of ?stored) \<inter> set (keys_of (fixed_folders r)) = {}" by blast
  have fs': "?fs' = fixed_folders r @ ?stored" using d disj by (rule all_folders_append)
  have allkeys: "set (keys_of ?fs') = set (keys_of ?fs) - {folder_id}" using keys fixed by (auto simp: fs' p(5))
  have m: "map_of ?fs' j = map_of ?fs j" if "j \<noteq> folder_id" for j using that by (simp add: fs' p(5) map_add_def delete_conv' split: option.split)
  have childless: "\<not> below ?fs i folder_id" if "i \<noteq> folder_id" for i
  proof
    assume "below ?fs i folder_id"
    from below_last[OF this] that obtain j g where "map_of ?fs j = Some g" "f_parent g = folder_id" by blast
    then show False using c(2) map_of_in_set by (fastforce simp: list_ex_iff)
  qed
  have agree: "map_of ?fs' j \<noteq> None \<and> parent_of ?fs' j = parent_of ?fs j"
    if i: "i = [] \<or> i \<in> set (keys_of ?fs)" "i \<noteq> folder_id" and b: "below ?fs i j" for i j
  proof -
    have "j \<in> set (keys_of ?fs)" using below_keys[OF _ b] p(7)[of i] i(1) rooted.top below_nonempty[OF b] by blast
    moreover have "j \<noteq> folder_id" using childless[OF i(2)] b by blast
    ultimately show ?thesis by (simp add: m parent_of_def key_unknown del: set_map)
  qed
  have root: "rooted ?fs i" if "i = [] \<or> i \<in> set (keys_of ?fs)" for i using that p(7) rooted.top by blast
  have same: "rooted ?fs' i" "placed r ?fs' i = placed r ?fs i" "below ?fs' i a = below ?fs i a"
    if "i = [] \<or> i \<in> set (keys_of ?fs)" "i \<noteq> folder_id" for i a
    by (rule same_places[OF root[OF that(1)] agree[OF that]], assumption)+
  have "siblings_distinct ?fs" using p(4) by (simp add: repository_sound_def)
  moreover have "set ?fs' \<subseteq> set ?fs" using sub by (auto simp: fs' p(5))
  moreover have "distinct ?fs'" using d disj fixed_distinct[of r] by (auto simp: fs' distinct_map)
  ultimately have "siblings_distinct ?fs'" unfolding siblings_distinct_def distinct_map by (blast intro: inj_on_subset)
  then have sound: "repository_sound r ?stored" using p(4) sub unfolding repository_sound_def by blast
  show ?thesis unfolding repository_valid_def
  proof (intro conjI ballI)
    show "rooted ?fs' i" if "i \<in> set (keys_of ?fs')" for i using that same(1) unfolding allkeys by blast
    show "placed r ?fs' i" if "i \<in> set (keys_of ?stored)" for i
      using that same(2)[of i] p(8)[of i] unfolding keys by (simp add: p(5))
    show "assignment_valid r ?fs' a" if "a \<in> set assigned" for a
    proof -
      obtain item_id folder where a: "a = (item_id, folder)" by force
      have av: "assignment_valid r ?fs (item_id, folder)" using p(9)[OF that] a by simp
      then have k: "folder = [] \<or> folder \<in> set (keys_of ?fs)" by (simp add: assignment_valid_def del: set_map)
      have ne: "folder \<noteq> folder_id" using c(3) that a by force
      with k have "folder = [] \<or> folder \<in> set (keys_of ?fs')" unfolding allkeys by blast
      then show ?thesis unfolding a by (rule same_assignment[OF av]) (use same(3) k ne in blast)
    qed
  qed (use d disj p(2) sound in auto)
qed

subsection \<open>Move\<close>

lemma below_top:
  assumes "below fs a b" "parent_of fs a = []" shows "a = b"
  using assms(1)
proof cases
  case up
  then show ?thesis using assms(2) below_nonempty by simp blast
qed simp

text \<open>The fixed root of a Module folder is the first fixed folder it is below.\<close>

lemma first_root:
  assumes "filter (below fs i) (keys_of (fixed_folders ''modules'')) = root # rest" "below fs i anchor" "anchor \<in> set (keys_of (fixed_folders ''modules''))"
    and parents: "\<And>j f. map_of (fixed_folders ''modules'') j = Some f \<Longrightarrow> parent_of fs j = f_parent f"
    and "parent_of fs anchor = []"
  shows "root = anchor"
proof -
  have tops: "a = b" if "below fs i a" "below fs i b" "parent_of fs a = []" "parent_of fs b = []" for a b
    using below_linear[OF that(1,2)] below_top[OF _ that(3)] below_top[OF _ that(4)] by blast
  have par: "parent_of fs ''modules-fixed-universe'' = []" "parent_of fs ''modules-fixed-signal'' = []" "parent_of fs ''modules-fixed-target'' = []"
    "parent_of fs ''modules-fixed-constraint'' = []"
    "parent_of fs ''modules-fixed-universe-builtin'' = ''modules-fixed-universe''" "parent_of fs ''modules-fixed-signal-builtin'' = ''modules-fixed-signal''"
    "parent_of fs ''modules-fixed-target-builtin'' = ''modules-fixed-target''" "parent_of fs ''modules-fixed-constraint-builtin'' = ''modules-fixed-constraint''"
    using parents by (simp_all add: fixed_modules)
  have up: "below fs i b \<Longrightarrow> below fs i (parent_of fs b)" if "parent_of fs b \<noteq> []" for b
  proof -
    assume b: "below fs i b"
    have "below fs b (parent_of fs b)" using below_nonempty[OF b] that by (blast intro: below.intros)
    with b show ?thesis by (rule below_trans)
  qed
  have root: "below fs i root" "root \<in> set (keys_of (fixed_folders ''modules''))"
    using arg_cong[OF assms(1), of set] by auto
  show ?thesis
  proof (cases "parent_of fs root = []")
    case True
    with tops[OF root(1) assms(2)] assms(5) show ?thesis by blast
  next
    case False
    from up[OF False root(1)] have b: "below fs i (parent_of fs root)" .
    have "root \<in> {''modules-fixed-universe'', ''modules-fixed-universe-builtin'', ''modules-fixed-signal'', ''modules-fixed-signal-builtin'',
      ''modules-fixed-target'', ''modules-fixed-target-builtin'', ''modules-fixed-constraint'', ''modules-fixed-constraint-builtin''}"
      using root(2) by (simp add: fixed_modules)
    with False par have "root \<in> {''modules-fixed-universe-builtin'', ''modules-fixed-signal-builtin'', ''modules-fixed-target-builtin'',
      ''modules-fixed-constraint-builtin''}"
      by (elim insertE emptyE) simp_all
    then consider "root = ''modules-fixed-universe-builtin''" | "root = ''modules-fixed-signal-builtin''"
      | "root = ''modules-fixed-target-builtin''" | "root = ''modules-fixed-constraint-builtin''"
      by (elim insertE emptyE)
    then have False by cases (use assms(1) b par in \<open>simp_all add: fixed_modules split: if_splits\<close>)
    then show ?thesis ..
  qed
qed

text \<open>What was below the moved folder is still below it.\<close>

lemma below_moved:
  assumes "below fs i a" "map_of fs' = (map_of fs)(a \<mapsto> f)" "rooted fs' a"
  shows "rooted fs' i \<and> below fs' i a"
  using assms
proof (induction rule: below.induct)
  case (self i fs)
  then show ?case by (blast intro: below.intros)
next
  case (up i fs a)
  show ?case
  proof (cases "i = a")
    case True
    then show ?thesis using up.prems(2) up.hyps(1) by (simp add: below.self)
  next
    case False
    have "parent_of fs i \<noteq> []" using below_nonempty[OF up.hyps(2)] by blast
    then obtain g where g: "map_of fs i = Some g" "f_parent g = parent_of fs i" by (auto simp: parent_of_def split: option.splits)
    have same: "map_of fs' i = Some g" using up.prems(1) g(1) False by simp
    with g(2) have p: "parent_of fs' i = parent_of fs i" by (simp add: parent_of_def)
    have "rooted fs' (parent_of fs i)" "below fs' (parent_of fs i) a" using up.IH[OF up.prems] by blast+
    then show ?thesis using rooted.child[OF same] below.up[OF up.hyps(1), of fs' a] by (simp add: p g(2))
  qed
qed

text \<open>The moved folder and what is below it stay outside of a top folder the new parent is not below.\<close>

lemma moved_outside:
  assumes "below fs' j i" "parent_of fs' anchor = []" "anchor \<noteq> i" "\<not> below fs' (parent_of fs' i) anchor"
  shows "\<not> below fs' j anchor"
proof
  assume "below fs' j anchor"
  from below_linear[OF assms(1) this] show False
  proof
    assume "below fs' i anchor"
    moreover have "i \<noteq> []" using below_nonempty[OF assms(1)] by blast
    ultimately show False using below_step[of i fs' anchor] assms(3,4) by simp
  next
    assume "below fs' anchor i"
    then show False using below_top assms(2,3) by blast
  qed
qed

lemma kind_anchor:
  "k \<in> set module_fixed_folders \<Longrightarrow> map_of (fixed_folders ''modules'') (fixed_folder_id k) = Some \<lparr>f_name = k, f_parent = []\<rparr>"
  by (auto simp: module_fixed_folders_def fixed_modules kind_folder_ids)

lemma move_valid:
  assumes v: "repository_valid r stored assigned" and checks: "move_checks r folder_id parent_id stored (all_folders r stored) = Inr f"
    and r: "r \<in> set repositories"
  shows "repository_valid r (AList.update folder_id (f\<lparr>f_parent := parent_id\<rparr>) stored) assigned"
proof -
  let ?fs = "all_folders r stored" and ?f = "f\<lparr>f_parent := parent_id\<rparr>"
  let ?fs' = "all_folders r (AList.update folder_id ?f stored)" and ?builtin = "repository_builtin_folder_id r"
  note p = valid_parts[OF v]
  have c: "map_of stored folder_id = Some f" "parent_id = [] \<or> parent_id \<in> set (keys_of ?fs)" "\<not> is_descendant ?fs parent_id folder_id"
      "\<not> taken_name (others ?fs folder_id) parent_id (f_name f)"
    and modules: "r = ''modules'' \<Longrightarrow>
      \<exists>root rest. filter (is_descendant ?fs folder_id) (keys_of (fixed_folders r)) = root # rest \<and> parent_id \<noteq> [] \<and> is_descendant ?fs parent_id root"
    and flat: "flat_repository r \<Longrightarrow> parent_id \<noteq> [] \<Longrightarrow> \<not> is_descendant ?fs parent_id ?builtin"
    using checks by (auto simp: move_checks_def bind_r_Inr_iff guard_r_Inr_iff flat_repository_def simp del: set_map split: option.splits list.splits if_splits)
  have key: "folder_id \<in> set (keys_of stored)" using c(1) by (rule found_key)
  with p(3) have fixed: "folder_id \<notin> set (keys_of (fixed_folders r))" by blast
  have stored: "(folder_id, f) \<in> set stored" using c(1) by (rule map_of_in_set)
  then have ne: "folder_id \<noteq> []" and name: "validate_name (f_name f) = Inr (f_name f)" using p(4) unfolding repository_sound_def by blast+
  have m: "map_of ?fs' = (map_of ?fs)(folder_id \<mapsto> ?f)" using lookup_update_all(1)[OF p(1,3) fixed] .
  have mem: "i \<in> set (keys_of ?fs)" if "i \<in> set (keys_of stored)" for i using that by (simp add: p(5))
  have desc: "is_descendant ?fs i a = below ?fs i a" if "i = [] \<or> i \<in> set (keys_of ?fs)" for i a using valid_descendant[OF v that] .
  have N: "\<not> below ?fs parent_id folder_id" using c(3) desc[OF c(2)] by simp
  have agree: "map_of ?fs' j \<noteq> None \<and> parent_of ?fs' j = parent_of ?fs j"
    if "i = [] \<or> i \<in> set (keys_of ?fs)" "\<not> below ?fs i folder_id" "below ?fs i j" for i j
  proof -
    have "j \<in> set (keys_of ?fs)" using below_keys[OF _ that(3)] p(7)[of i] that(1) rooted.top below_nonempty[OF that(3)] by blast
    moreover have "j \<noteq> folder_id" using that(2,3) by blast
    ultimately show ?thesis by (simp add: m key_unknown parent_of_def del: set_map)
  qed
  have root: "rooted ?fs i" if "i = [] \<or> i \<in> set (keys_of ?fs)" for i using that p(7) rooted.top by blast
  have same: "rooted ?fs' i" "placed r ?fs' i = placed r ?fs i" "below ?fs' i a = below ?fs i a"
    if "i = [] \<or> i \<in> set (keys_of ?fs)" "\<not> below ?fs i folder_id" for i a
    by (rule same_places[OF root[OF that(1)] agree[OF that]], assumption)+
  have par: "parent_of ?fs' folder_id = parent_id" by (simp add: parent_of_def m)
  have rooted: "rooted ?fs' folder_id" using rooted.child[of ?fs' folder_id ?f] same(1)[OF c(2) N] by (simp add: m)
  have step: "below ?fs' folder_id a \<longleftrightarrow> folder_id = a \<or> below ?fs parent_id a" for a
    using below_step[OF ne, of ?fs' a] same(3)[OF c(2) N, of a] by (simp add: par)
  have moved: "rooted ?fs' i" "below ?fs' i folder_id" if "below ?fs i folder_id" for i
    using below_moved[OF that m rooted] by blast+
  have under: "below ?fs' i a" if "below ?fs i folder_id" "below ?fs parent_id a" for i a
    by (rule below_trans[OF moved(2)[OF that(1)]]) (simp add: step that(2))
  have outside: "\<not> below ?fs' i ?builtin" if "flat_repository r" "below ?fs i folder_id" for i
  proof (rule moved_outside[OF moved(2)[OF that(2)]])
    have "(?builtin, \<lparr>f_name = ''BuiltIn'', f_parent = []\<rparr>) \<in> set ?fs" using that(1) by (simp add: p(5) fixed_flat)
    with p(6) have "map_of ?fs ?builtin = Some \<lparr>f_name = ''BuiltIn'', f_parent = []\<rparr>" by (rule map_of_is_SomeI)
    moreover show "?builtin \<noteq> folder_id" using fixed that(1) by (auto simp: fixed_flat)
    ultimately show "parent_of ?fs' ?builtin = []" by (simp add: m parent_of_def)
    have "\<not> below ?fs parent_id ?builtin" using flat[OF that(1)] desc[OF c(2)] below_nonempty by metis
    then show "\<not> below ?fs' (parent_of ?fs' folder_id) ?builtin" by (simp add: par same(3)[OF c(2) N])
  qed
  have fixed_lookup: "map_of ?fs j = Some g" if "map_of (fixed_folders r) j = Some g" for j g
  proof -
    have "(j, g) \<in> set ?fs" using map_of_in_set[OF that] by (simp add: p(5))
    with p(6) show ?thesis by (rule map_of_is_SomeI)
  qed
  show ?thesis
  proof (rule valid_set[OF v fixed ne _ _ refl])
    show "validate_name (f_name ?f) = Inr (f_name ?f)" using name by simp
    show "\<not> taken_name (others ?fs folder_id) (f_parent ?f) (f_name ?f)" using c(4) by simp
    show "rooted ?fs' j" if "j = folder_id \<or> j \<in> set (keys_of ?fs)" for j
      using that same(1)[of j] moved(1)[of j] mem[OF key] by blast
    show "placed r ?fs' j" if "j = folder_id \<or> j \<in> set (keys_of stored)" for j
    proof -
      have j: "j \<in> set (keys_of stored)" using that key by blast
      show ?thesis
      proof (cases "below ?fs j folder_id")
        case False
        with same(2)[of j] p(8)[OF j] mem[OF j] show ?thesis by blast
      next
        case True
        show ?thesis
        proof (cases "r = ''modules''")
          case mods: True
          from modules[OF mods] obtain root rest where q: "filter (is_descendant ?fs folder_id) (keys_of (fixed_folders r)) = root # rest"
            "is_descendant ?fs parent_id root" by blast
          from q(2) have "below ?fs parent_id root" by (simp add: desc[OF c(2)])
          with True have "below ?fs' j root" by (rule under)
          moreover have "root \<in> set (keys_of (fixed_folders r))" using arg_cong[OF q(1), of set] by auto
          ultimately show ?thesis unfolding placed_def using mods by auto
        qed (use outside[OF _ True] in \<open>simp add: placed_def\<close>)
      qed
    qed
    show "assignment_valid r ?fs' a" if "a \<in> set assigned" for a
    proof -
      obtain item_id folder where a: "a = (item_id, folder)" by force
      have av: "assignment_valid r ?fs (item_id, folder)" using p(9)[OF that] a by simp
      then have k: "folder = [] \<or> folder \<in> set (keys_of ?fs)" by (simp add: assignment_valid_def del: set_map)
      then have k': "folder = [] \<or> folder \<in> set (keys_of ?fs')" by (auto simp: key_unknown m simp del: set_map)
      show ?thesis
      proof (cases "below ?fs folder folder_id")
        case False
        show ?thesis unfolding a by (rule same_assignment[OF av k']) (rule same(3)[OF k False])
      next
        case b: True
        show ?thesis
        proof (cases "r = ''modules''")
          case mods: True
          let ?anchor = "fixed_folder_id (item_kind item_id)"
          have kind: "item_kind item_id \<in> set (repository_kinds r)" "folder \<noteq> []" "below ?fs folder ?anchor" "item_id \<noteq> []"
            using av by (simp_all add: assignment_valid_def mods module_repository_def)
          then have anchor: "map_of (fixed_folders r) ?anchor = Some \<lparr>f_name = item_kind item_id, f_parent = []\<rparr>"
            by (simp add: mods repository_kinds_def kind_anchor)
          then have akey: "?anchor \<in> set (keys_of (fixed_folders ''modules''))" using found_key mods by metis
          have top: "parent_of ?fs ?anchor = []" using parent_lookup[OF fixed_lookup[OF anchor]] by simp
          have "below ?fs folder_id ?anchor"
            using below_linear[OF b kind(3)] below_top[OF _ top] akey fixed mods by metis
          moreover from modules[OF mods] obtain root rest where q: "filter (is_descendant ?fs folder_id) (keys_of (fixed_folders r)) = root # rest"
            "is_descendant ?fs parent_id root" by blast
          moreover have "is_descendant ?fs folder_id = below ?fs folder_id" by (intro ext desc) (use mem[OF key] in blast)
          ultimately have "root = ?anchor"
            using first_root[of ?fs folder_id root rest ?anchor] akey top parent_lookup[OF fixed_lookup] mods by simp
          with q(2) have "below ?fs parent_id ?anchor" by (simp add: desc[OF c(2)])
          with b have "below ?fs' folder ?anchor" by (rule under)
          then show ?thesis using kind k' by (simp add: a assignment_valid_def mods del: set_map)
        next
          case False
          have "module_repository r \<Longrightarrow> \<not> below ?fs' folder ?builtin" using outside[OF _ b] False by (simp add: module_repository_def)
          then show ?thesis using av k' False by (simp add: a assignment_valid_def del: set_map)
        qed
      qed
    qed
  qed
qed

end
