(* ===== verification/Folder_Updates.thy ===== *)
theory Folder_Updates
  imports Folder_Changes
begin

section \<open>The changes over the file\<close>

text \<open>
  Each change of a repository, from the file it reads to the file it leaves: an abstract change of the state
  with its checks, which the operation of \<open>folders.py\<close> refines. The validation inside \<open>save_state\<close>
  and the reading back for the result never fail.
\<close>

subsection \<open>The state of one repository is replaced\<close>

lemma with_folders_valid:
  assumes v: "state_valid st" and r: "r \<in> set repositories"
    and new: "repository_valid r (g (stored_folders st r)) (stored_assignments st r)"
  shows "state_valid (with_folders r g st)" "stored_folders (with_folders r g st) r = g (stored_folders st r)"
proof -
  have keys: "keys_of (fs_folders st) = repositories" using v by (simp add: state_valid_def)
  have k: "keys_of (fs_folders (with_folders r g st)) = repositories"
    unfolding with_folders_def folder_state.simps using keys_update_old[of r "fs_folders st"] r keys by simp
  show f: "stored_folders (with_folders r g st) r = g (stored_folders st r)"
    by (simp add: with_folders_def stored_folders_def update_conv')
  have "stored_folders (with_folders r g st) q = stored_folders st q" if "q \<noteq> r" for q
    using that by (simp add: with_folders_def stored_folders_def update_conv')
  moreover have "stored_assignments (with_folders r g st) q = stored_assignments st q" for q
    by (simp add: with_folders_def stored_assignments_def)
  moreover have "keys_of (fs_assignments (with_folders r g st)) = repositories"
    using v by (simp add: with_folders_def state_valid_def del: set_map)
  ultimately show "state_valid (with_folders r g st)" using v k new f unfolding state_valid_def by metis
qed

lemma with_assignments_valid:
  assumes v: "state_valid st" and r: "r \<in> set repositories"
    and new: "repository_valid r (stored_folders st r) (g (stored_assignments st r))"
  shows "state_valid (with_assignments r g st)"
proof -
  have keys: "keys_of (fs_assignments st) = repositories" using v by (simp add: state_valid_def)
  have k: "keys_of (fs_assignments (with_assignments r g st)) = repositories"
    unfolding with_assignments_def folder_state.simps using keys_update_old[of r "fs_assignments st"] r keys by simp
  have f: "stored_assignments (with_assignments r g st) r = g (stored_assignments st r)"
    by (simp add: with_assignments_def stored_assignments_def update_conv')
  have "stored_assignments (with_assignments r g st) q = stored_assignments st q" if "q \<noteq> r" for q
    using that by (simp add: with_assignments_def stored_assignments_def update_conv')
  moreover have "stored_folders (with_assignments r g st) q = stored_folders st q" for q
    by (simp add: with_assignments_def stored_folders_def)
  moreover have "keys_of (fs_folders (with_assignments r g st)) = repositories"
    using v by (simp add: with_assignments_def state_valid_def del: set_map)
  ultimately show ?thesis using v k new f unfolding state_valid_def by metis
qed

lemma valid_repository: "state_valid st \<Longrightarrow> r \<in> set repositories \<Longrightarrow> repository_valid r (stored_folders st r) (stored_assignments st r)"
  by (simp add: state_valid_def)

subsection \<open>Items\<close>

lemma delete_assignment_valid: "repository_valid r stored assigned \<Longrightarrow> repository_valid r stored (AList.delete item_id assigned)"
  by (auto simp: repository_valid_def AList.delete_eq distinct_map inj_on_def)

lemma assign_valid:
  assumes v: "repository_valid r stored assigned" and checks: "assign_checks r folder_id it (all_folders r stored) = Inr ()"
    and item: "item_id \<noteq> []" "module_repository r \<Longrightarrow> it_kind it = item_kind item_id \<and> it_kind it \<in> set (repository_kinds r)"
  shows "repository_valid r stored (place_item r item_id folder_id it assigned)"
proof (cases "r \<noteq> ''data'' \<and> r \<noteq> ''backtest'' \<and> folder_id = default_item_folder r it")
  case True
  then show ?thesis using delete_assignment_valid[OF v] by (simp add: place_item_def)
next
  case False
  let ?fs = "all_folders r stored"
  have place: "place_item r item_id folder_id it assigned = AList.update item_id folder_id assigned" using False by (auto simp: place_item_def)
  have k: "folder_id = [] \<or> folder_id \<in> set (keys_of ?fs)"
    using checks by (auto simp: assign_checks_def bind_r_Inr_iff guard_r_Inr_iff simp del: set_map split: if_splits)
  have "assignment_valid r ?fs (item_id, folder_id)"
  proof (cases "module_repository r")
    case modules: True
    then have not: "folder_id \<noteq> default_item_folder r it" using False by (auto simp: module_repository_def flat_repository_def)
    have c: "\<not> it_builtin it"
      "r = ''modules'' \<Longrightarrow> folder_id \<noteq> [] \<and> is_descendant ?fs folder_id (default_item_folder r it)"
      "flat_repository r \<Longrightarrow> folder_id \<noteq> [] \<Longrightarrow> \<not> is_descendant ?fs folder_id (repository_builtin_folder_id r)"
      using checks modules not by (auto simp: assign_checks_def bind_r_Inr_iff guard_r_Inr_iff Let_def simp del: set_map)
    have kind: "it_kind it = item_kind item_id" "item_kind item_id \<in> set (repository_kinds r)" using item(2)[OF modules] by metis+
    have d: "is_descendant ?fs folder_id a = below ?fs folder_id a" for a using valid_descendant[OF v k] .
    show ?thesis
    proof (cases "r = ''modules''")
      case True
      then have "default_item_folder r it = fixed_folder_id (item_kind item_id)"
        using modules kind c(1) by (simp add: default_item_folder_def default_module_folder_def)
      with c(2)[OF True] item(1) kind k show ?thesis by (simp add: assignment_valid_def True d[unfolded True] del: set_map)
    next
      case other: False
      with modules have flat: "flat_repository r" by (simp add: module_repository_def)
      have "default_item_folder r it = []" using modules kind c(1) other by (simp add: default_item_folder_def default_module_folder_def)
      with not have "folder_id \<noteq> []" by simp
      with c(3)[OF flat] item(1) kind k other show ?thesis by (simp add: assignment_valid_def d del: set_map)
    qed
  qed (use item(1) k in \<open>simp add: assignment_valid_def del: set_map\<close>)
  moreover have "set (AList.update item_id folder_id assigned) \<subseteq> insert (item_id, folder_id) (set assigned)" by (rule set_update_subset)
  moreover have "distinct (keys_of (AList.update item_id folder_id assigned))" by (rule distinct_update) (rule valid_parts(2)[OF v])
  ultimately show ?thesis using v unfolding repository_valid_def place by blast
qed

subsection \<open>Reading back\<close>

lemma require_known: "r \<in> set repositories \<Longrightarrow> require_repository r = Inr r"
proof -
  have "list_all (\<lambda>r. require_repository r = Inr r) repositories" by code_simp
  then show "r \<in> set repositories \<Longrightarrow> ?thesis" by (simp add: list_all_iff)
qed

lemma require_Inr: "require_repository raw = Inr r \<Longrightarrow> r \<in> set repositories"
  by (auto simp: require_repository_def Let_def split: if_splits)

lemma paths_valid:
  assumes v: "state_valid st" and r: "r \<in> set repositories"
  obtains paths where "folder_paths (repository_folders st r) = Inr paths"
    "\<And>i. i = [] \<or> i \<in> set (keys_of (repository_folders st r)) \<Longrightarrow> \<exists>p. path_in paths i = Inr p"
proof -
  let ?fs = "all_folders r (stored_folders st r)"
  note p = valid_parts[OF valid_repository[OF v r]]
  note names = sound_names[OF p(4)]
  obtain paths where paths: "folder_paths ?fs = Inr paths" using folder_paths_total[OF _ names(1,3)] p(7) by blast
  note sound = folder_paths_sound[OF paths names(1,3)]
  have "\<exists>p. path_in paths i = Inr p" if "i = [] \<or> i \<in> set (keys_of ?fs)" for i
  proof -
    have "map_of paths i \<noteq> None" using that sound(1) sound(2)[of i] unfolding paths_ok_def by (elim disjE) simp_all
    then show ?thesis by (auto simp: path_in_def)
  qed
  with paths that show ?thesis unfolding repository_folders_def by blast
qed

lemma tree_of_valid:
  assumes v: "state_valid st" and r: "r \<in> set repositories"
  obtains tree where "tree_of st r = Inr tree" "row_id ` set (tree_folders tree) = set (keys_of (repository_folders st r))"
    "tree_repository tree = r" "tree_assignments tree = stored_assignments st r"
proof -
  let ?fs = "repository_folders st r"
  obtain paths where paths: "folder_paths ?fs = Inr paths" "\<And>i. i = [] \<or> i \<in> set (keys_of ?fs) \<Longrightarrow> \<exists>p. path_in paths i = Inr p"
    by (rule paths_valid[OF v r]) (rule that)
  let ?row = "\<lambda>(i, f). \<lparr>row_id = i, row_name = f_name f, row_parent = f_parent f, row_fixed = i \<notin> set (keys_of (stored_folders st r)),
    row_path = the (map_of paths i)\<rparr>"
  have "map_r (folder_row_of (stored_folders st r) paths) ?fs = Inr (map ?row ?fs)"
  proof (rule map_r_all_Inr)
    fix x assume "x \<in> set ?fs"
    then have "fst x \<in> set (keys_of ?fs)" by simp
    with paths(2) have "\<exists>p. path_in paths (fst x) = Inr p" by blast
    then show "folder_row_of (stored_folders st r) paths x = Inr (?row x)"
      by (auto simp: folder_row_of_def path_in_def split: prod.split option.splits)
  qed
  then show ?thesis
    using that paths(1) by (force simp: tree_of_def image_image case_prod_unfold)
qed

lemma load_written: "state_valid st \<Longrightarrow> load_state show (written st) = (Inr (sort_state st), written st)"
  by (simp add: load_state_def gets_s_def lift_s_def bind_s_def written_def validate_written)

lemma row_after_valid:
  assumes v: "state_valid st" and r: "r \<in> set repositories" and "folder_id \<in> set (keys_of (repository_folders st r))"
  obtains row where "row_after show r folder_id (written st) = (Inr row, written st)"
proof -
  obtain tree where tree: "tree_of (sort_state st) r = Inr tree" "row_id ` set (tree_folders tree) = set (keys_of (repository_folders (sort_state st) r))"
    using tree_of_valid[OF sort_state_valid[OF v] r] .
  have "set (keys_of (repository_folders (sort_state st) r)) = set (keys_of (repository_folders st r))"
    unfolding repository_folders_def valid_parts(5)[OF valid_repository[OF v r]]
      valid_parts(5)[OF valid_repository[OF sort_state_valid[OF v] r]] by (simp add: sort_state_stored r)
  with tree(2) assms(3) have "filter (\<lambda>row. row_id row = folder_id) (tree_folders tree) \<noteq> []"
    by (metis (mono_tags, lifting) filter_empty_conv imageE)
  then obtain row rest where "filter (\<lambda>row. row_id row = folder_id) (tree_folders tree) = row # rest" by (auto simp: neq_Nil_conv)
  then show ?thesis
    using that tree(1) load_written[OF v] by (simp add: row_after_def repository_tree_def require_known r lift_s_def ret_s_def bind_s_def)
qed

subsection \<open>The abstract changes\<close>

text \<open>
  The six mutations as data; \<open>perform\<close> is the operation of the code, its result apart, and \<open>plan_change\<close> the
  specification: the checks over the state, then the state to write, or \<open>None\<close> where nothing is written.
\<close>

datatype change =
    CreateFolder (new_id: string) string string
  | RenameFolder string string
  | MoveFolder string string
  | DeleteFolder string
  | AssignItem string string item
  | UnassignItem string

definition done_s :: "('s, 'a) act \<Rightarrow> ('s, unit) act" where
  "done_s m = bind_s m (\<lambda>_. ret_s ())"

fun perform :: "(pyval \<Rightarrow> string) \<Rightarrow> string \<Rightarrow> change \<Rightarrow> (folder_file, unit) act" where
  "perform show raw (CreateFolder i name parent) = done_s (create_folder show i raw name parent)"
| "perform show raw (RenameFolder i name) = done_s (rename_folder show raw i name)"
| "perform show raw (MoveFolder i parent) = done_s (move_folder show raw i parent)"
| "perform show raw (DeleteFolder i) = done_s (delete_folder show raw i)"
| "perform show raw (AssignItem item_id folder_id it) = done_s (assign_item show raw item_id folder_id it)"
| "perform show raw (UnassignItem item_id) = remove_item_assignment show raw item_id"

fun plan_in :: "string \<Rightarrow> change \<Rightarrow> folder_state \<Rightarrow> folder_state option res" where
  "plan_in r (CreateFolder i raw_name parent) st =
     bind_r (validate_name raw_name) (\<lambda>name.
     bind_r (create_checks r name parent (repository_folders st r)) (\<lambda>_.
     Inr (Some (with_folders r (AList.update i \<lparr>f_name = name, f_parent = parent\<rparr>) st))))"
| "plan_in r (RenameFolder i raw_name) st =
     bind_r (validate_name raw_name) (\<lambda>name.
     bind_r (rename_checks r i name (stored_folders st r) (repository_folders st r)) (\<lambda>f.
     Inr (Some (with_folders r (AList.update i (f\<lparr>f_name := name\<rparr>)) st))))"
| "plan_in r (MoveFolder i parent) st =
     bind_r (guard_r (i \<notin> set (keys_of (fixed_folders r))) (ValueError ''Fixed repository folders cannot be moved.'')) (\<lambda>_.
     bind_r (move_checks r i parent (stored_folders st r) (repository_folders st r)) (\<lambda>f.
     Inr (Some (with_folders r (AList.update i (f\<lparr>f_parent := parent\<rparr>)) st))))"
| "plan_in r (DeleteFolder i) st =
     bind_r (guard_r (i \<notin> set (keys_of (fixed_folders r))) (ValueError ''Fixed repository folders cannot be deleted.'')) (\<lambda>_.
     bind_r (delete_checks r i (stored_folders st r) (repository_folders st r) (stored_assignments st r)) (\<lambda>f.
     Inr (Some (with_folders r (AList.delete i) st))))"
| "plan_in r (AssignItem raw_item folder_id it) st =
     bind_r (guard_r (strip raw_item \<noteq> []) (ValueError ''Repository itemId is required.'')) (\<lambda>_.
     bind_r (assign_checks r folder_id it (repository_folders st r)) (\<lambda>_.
     Inr (Some (with_assignments r (place_item r (strip raw_item) folder_id it) st))))"
| "plan_in r (UnassignItem item_id) st =
     (if item_id \<in> set (keys_of (stored_assignments st r)) then Inr (Some (with_assignments r (AList.delete item_id) st)) else Inr None)"

definition plan_change :: "string \<Rightarrow> change \<Rightarrow> folder_state \<Rightarrow> folder_state option res" where
  "plan_change raw c st = bind_r (require_repository raw) (\<lambda>r. plan_in r c st)"

text \<open>
  What the callers give: the random ID of a new folder is new, and a Module Definition is assigned under an
  item ID that starts with its kind, one of its repository.
\<close>

fun change_fits :: "folder_state \<Rightarrow> string \<Rightarrow> change \<Rightarrow> bool" where
  "change_fits st r (CreateFolder i name parent) \<longleftrightarrow> i \<noteq> [] \<and> i \<notin> set (keys_of (repository_folders st r))"
| "change_fits st r (AssignItem raw_item folder_id it) \<longleftrightarrow>
     (module_repository r \<longrightarrow> it_kind it = item_kind (strip raw_item) \<and> it_kind it \<in> set (repository_kinds r))"
| "change_fits st r c \<longleftrightarrow> True"

definition change_fitting :: "folder_state \<Rightarrow> string \<Rightarrow> change \<Rightarrow> bool" where
  "change_fitting st raw c \<longleftrightarrow> (case require_repository raw of Inl _ \<Rightarrow> True | Inr r \<Rightarrow> change_fits st r c)"

lemma plan_valid:
  assumes v: "state_valid st" and "plan_in r c st = Inr (Some st')" "change_fits st r c" and r: "r \<in> set repositories"
  shows "state_valid st'"
proof -
  note rv = valid_repository[OF v r]
  show ?thesis
  proof (cases c)
    case (CreateFolder i raw_name parent)
    then obtain name where n: "validate_name raw_name = Inr name" "create_checks r name parent (repository_folders st r) = Inr ()"
      "st' = with_folders r (AList.update i \<lparr>f_name = name, f_parent = parent\<rparr>) st" using assms(2) by (auto simp: bind_r_Inr_iff)
    from create_valid[OF rv n(2)[unfolded repository_folders_def] validate_name_Inr(5)[OF n(1)], of i] assms(3) CreateFolder
    show ?thesis unfolding n(3) by (intro with_folders_valid(1)[OF v r]) (simp add: repository_folders_def del: set_map)
  next
    case (RenameFolder i raw_name)
    then obtain name f where n: "validate_name raw_name = Inr name"
      "rename_checks r i name (stored_folders st r) (repository_folders st r) = Inr f"
      "st' = with_folders r (AList.update i (f\<lparr>f_name := name\<rparr>)) st" using assms(2) by (auto simp: bind_r_Inr_iff)
    from rename_valid[OF rv n(2)[unfolded repository_folders_def] validate_name_Inr(5)[OF n(1)]]
    show ?thesis unfolding n(3) by (rule with_folders_valid(1)[OF v r])
  next
    case (MoveFolder i parent)
    then obtain f where n: "move_checks r i parent (stored_folders st r) (repository_folders st r) = Inr f"
      "st' = with_folders r (AList.update i (f\<lparr>f_parent := parent\<rparr>)) st" using assms(2) by (auto simp: bind_r_Inr_iff)
    from move_valid[OF rv n(1)[unfolded repository_folders_def] r]
    show ?thesis unfolding n(2) by (rule with_folders_valid(1)[OF v r])
  next
    case (DeleteFolder i)
    then obtain f where n: "delete_checks r i (stored_folders st r) (repository_folders st r) (stored_assignments st r) = Inr f"
      "st' = with_folders r (AList.delete i) st" using assms(2) by (auto simp: bind_r_Inr_iff)
    from delete_valid[OF rv n(1)[unfolded repository_folders_def]]
    show ?thesis unfolding n(2) by (rule with_folders_valid(1)[OF v r])
  next
    case (AssignItem raw_item folder_id it)
    then have n: "assign_checks r folder_id it (repository_folders st r) = Inr ()" "strip raw_item \<noteq> []"
      "st' = with_assignments r (place_item r (strip raw_item) folder_id it) st" using assms(2) by (auto simp: bind_r_Inr_iff guard_r_Inr_iff)
    have "module_repository r \<Longrightarrow> it_kind it = item_kind (strip raw_item) \<and> it_kind it \<in> set (repository_kinds r)"
      using assms(3) unfolding AssignItem change_fits.simps by blast
    from assign_valid[OF rv n(1)[unfolded repository_folders_def] n(2) this]
    show ?thesis unfolding n(3) by (rule with_assignments_valid[OF v r])
  next
    case (UnassignItem item_id)
    then have n: "st' = with_assignments r (AList.delete item_id) st" using assms(2) by (auto split: if_splits)
    from delete_assignment_valid[OF rv] show ?thesis unfolding n by (rule with_assignments_valid[OF v r])
  qed
qed

subsection \<open>The operations refine the plan\<close>

definition planned :: "folder_state option res \<Rightarrow> folder_file \<Rightarrow> unit res \<times> folder_file" where
  "planned p file = (case p of Inl e \<Rightarrow> (Inl e, file) | Inr None \<Rightarrow> (Inr (), file) | Inr (Some st) \<Rightarrow> (Inr (), written st))"

lemma with_folders_known:
  assumes "state_valid st" "r \<in> set repositories" "plan_in r c st = Inr (Some (with_folders r (AList.update i f) st))" "change_fits st r c"
  obtains row where "row_after show r i (written (with_folders r (AList.update i f) st)) = (Inr row, written (with_folders r (AList.update i f) st))"
proof -
  let ?st = "with_folders r (AList.update i f) st"
  have v: "state_valid ?st" using plan_valid[OF assms(1,3,4,2)] .
  have "stored_folders ?st r = AList.update i f (stored_folders st r)"
    by (simp add: with_folders_def stored_folders_def update_conv')
  then have "i \<in> set (keys_of (stored_folders ?st r))" by (simp add: ad.keys_put del: set_map)
  then have "i \<in> set (keys_of (repository_folders ?st r))"
    unfolding repository_folders_def valid_parts(5)[OF valid_repository[OF v assms(2)]] by simp
  from row_after_valid[OF v assms(2) this] that show ?thesis by blast
qed

lemma perform_in:
  assumes v: "state_valid st" and load: "load_state show file = (Inr st, file)"
    and req: "require_repository raw = Inr r" and "change_fits st r c"
  shows "perform show raw c file = planned (plan_in r c st) file"
proof -
  note r = require_Inr[OF req]
  note run = done_s_def bind_s_def lift_s_def guard_s_def ret_s_def planned_def req load Let_def
  have save: "save_state show st' file = (Inr (), written st')" if "plan_in r c st = Inr (Some st')" for st'
    using plan_valid[OF v that assms(4) r] by (rule save_valid)
  show ?thesis
  proof (cases "plan_in r c st")
    case (Inl e)
    then show ?thesis
      by (cases c) (auto simp: run create_folder_def rename_folder_def move_folder_def delete_folder_def assign_item_def
        bind_r_def split: sum.splits if_splits)
  next
    case (Inr p)
    note ok = this
    show ?thesis
    proof (cases c)
      case (CreateFolder i raw_name parent)
      with ok obtain name where n: "validate_name raw_name = Inr name" "create_checks r name parent (repository_folders st r) = Inr ()"
        "p = Some (with_folders r (AList.update i \<lparr>f_name = name, f_parent = parent\<rparr>) st)" by (auto simp: bind_r_Inr_iff)
      let ?f = "\<lparr>f_name = name, f_parent = parent\<rparr>"
      let ?st = "with_folders r (AList.update i ?f) st"
      have new: "i \<notin> set (keys_of (repository_folders st r))" using assms(4) CreateFolder by simp
      have v': "state_valid ?st" using plan_valid[OF v _ assms(4) r] ok n(3) by simp
      have stored: "stored_folders ?st r = AList.update i ?f (stored_folders st r)"
        by (simp add: with_folders_def stored_folders_def update_conv')
      have "AList.update i ?f (repository_folders st r) = repository_folders ?st r"
        using new unfolding repository_folders_def stored valid_parts(5)[OF valid_repository[OF v r]]
          valid_parts(5)[OF valid_repository[OF v' r], unfolded stored]
        by (simp add: update_fresh del: set_map)
      moreover have "i \<in> set (keys_of (AList.update i ?f (repository_folders st r)))" by (simp add: ad.keys_put del: set_map)
      ultimately obtain paths q where "folder_paths (AList.update i ?f (repository_folders st r)) = Inr paths" "path_in paths i = Inr q"
        using paths_valid[OF v' r] by metis
      then show ?thesis by (simp add: CreateFolder run create_folder_def folder_row_of_def n(1,2) save[OF ok[unfolded n(3)]])
    next
      case (RenameFolder i raw_name)
      with ok obtain name f where n: "validate_name raw_name = Inr name"
        "rename_checks r i name (stored_folders st r) (repository_folders st r) = Inr f"
        "p = Some (with_folders r (AList.update i (f\<lparr>f_name := name\<rparr>)) st)" by (auto simp: bind_r_Inr_iff)
      obtain row where row: "row_after show r i (written (with_folders r (AList.update i (f\<lparr>f_name := name\<rparr>)) st)) =
          (Inr row, written (with_folders r (AList.update i (f\<lparr>f_name := name\<rparr>)) st))"
        using with_folders_known[OF v r ok[unfolded n(3)] assms(4)] .
      show ?thesis by (simp add: RenameFolder run rename_folder_def n(1,2) save[OF ok[unfolded n(3)]] row)
    next
      case (MoveFolder i parent)
      with ok obtain f where n: "i \<notin> set (keys_of (fixed_folders r))" "move_checks r i parent (stored_folders st r) (repository_folders st r) = Inr f"
        "p = Some (with_folders r (AList.update i (f\<lparr>f_parent := parent\<rparr>)) st)" by (auto simp: bind_r_Inr_iff guard_r_Inr_iff)
      obtain row where row: "row_after show r i (written (with_folders r (AList.update i (f\<lparr>f_parent := parent\<rparr>)) st)) =
          (Inr row, written (with_folders r (AList.update i (f\<lparr>f_parent := parent\<rparr>)) st))"
        using with_folders_known[OF v r ok[unfolded n(3)] assms(4)] .
      show ?thesis using n(1) by (simp add: MoveFolder run move_folder_def n(2) save[OF ok[unfolded n(3)]] row del: set_map)
    next
      case (DeleteFolder i)
      with ok obtain f where n: "i \<notin> set (keys_of (fixed_folders r))"
        "delete_checks r i (stored_folders st r) (repository_folders st r) (stored_assignments st r) = Inr f"
        "p = Some (with_folders r (AList.delete i) st)" by (auto simp: bind_r_Inr_iff guard_r_Inr_iff)
      show ?thesis using n(1) by (simp add: DeleteFolder run delete_folder_def n(2) save[OF ok[unfolded n(3)]] del: set_map)
    next
      case (AssignItem raw_item folder_id it)
      with ok have n: "strip raw_item \<noteq> []" "assign_checks r folder_id it (repository_folders st r) = Inr ()"
        "p = Some (with_assignments r (place_item r (strip raw_item) folder_id it) st)" by (auto simp: bind_r_Inr_iff guard_r_Inr_iff)
      have "folder_id = [] \<or> folder_id \<in> set (keys_of (repository_folders st r))"
        using n(2) by (auto simp: assign_checks_def bind_r_Inr_iff guard_r_Inr_iff simp del: set_map split: if_splits)
      then obtain paths q where "folder_paths (repository_folders st r) = Inr paths" "path_in paths folder_id = Inr q"
        using paths_valid[OF v r] by metis
      then show ?thesis by (simp add: AssignItem run assign_item_def n(1,2) save[OF ok[unfolded n(3)]])
    next
      case (UnassignItem item_id)
      show ?thesis
      proof (cases "item_id \<in> set (keys_of (stored_assignments st r))")
        case True
        then have "plan_in r c st = Inr (Some (with_assignments r (AList.delete item_id) st))" by (simp add: UnassignItem del: set_map)
        from save[OF this] show ?thesis using True by (simp add: UnassignItem run remove_item_assignment_def del: set_map)
      qed (simp add: UnassignItem run remove_item_assignment_def del: set_map)
    qed
  qed
qed

end
