(* ===== verification/Folder_History.thy ===== *)
theory Folder_History
  imports Folder_Updates
begin

section \<open>Properties of the repository folders\<close>

text \<open>
  The folder file over its whole life: every change is the planned one, the file stays readable, every item
  has a folder, and paths name folders uniquely.
\<close>

subsection \<open>Changes\<close>

lemma plan_of:
  assumes "state_valid st" "load_state show file = (Inr st, file)" "change_fitting st raw c"
  shows "perform show raw c file = planned (plan_change raw c st) file" "plan_change raw c st = Inr (Some st') \<Longrightarrow> state_valid st'"
proof -
  show "perform show raw c file = planned (plan_change raw c st) file"
  proof (cases "require_repository raw")
    case (Inl e)
    then show ?thesis
      by (cases c) (simp_all add: plan_change_def planned_def done_s_def create_folder_def rename_folder_def move_folder_def delete_folder_def
        assign_item_def remove_item_assignment_def bind_s_def lift_s_def)
  next
    case (Inr r)
    with perform_in[OF assms(1,2) Inr] assms(3) show ?thesis by (simp add: plan_change_def change_fitting_def)
  qed
  show "state_valid st'" if "plan_change raw c st = Inr (Some st')"
  proof -
    from that obtain r where "require_repository raw = Inr r" "plan_in r c st = Inr (Some st')" by (auto simp: plan_change_def bind_r_Inr_iff)
    with plan_valid[OF assms(1)] assms(3) require_Inr show ?thesis by (simp add: change_fitting_def)
  qed
qed

lemma loaded_valid:
  assumes "file_valid file" "load_state show file = (Inr st, file)" shows "state_valid st"
  using load_valid[OF assms(1), of "show"] assms(2) by (metis Pair_inject sum.inject(2))


definition example_change :: change where
  "example_change = CreateFolder ''folder-1'' ''  Prices '' []"

definition example_state :: folder_state where
  "example_state = with_folders ''data'' (AList.update ''folder-1'' \<lparr>f_name = ''Prices'', f_parent = []\<rparr>) empty_state"

lemma example_plan: "plan_change ''Data'' example_change empty_state = Inr (Some example_state)"
  by code_simp

lemma example_fits: "change_fitting empty_state ''Data'' example_change"
  by code_simp

lemma load_absent: "load_state show None = (Inr empty_state, None)"
  by (simp add: load_state_def gets_s_def ret_s_def bind_s_def)


subsection \<open>The life of the file\<close>

text \<open>The file after any sequence of changes, failed ones included\<close>

inductive history :: "(pyval \<Rightarrow> string) \<Rightarrow> folder_file \<Rightarrow> bool" where
  absent: "history show None"
| changed: "history show file \<Longrightarrow> load_state show file = (Inr st, file) \<Longrightarrow> change_fitting st raw c \<Longrightarrow>
    perform show raw c file = (result, file') \<Longrightarrow> history show file'"

lemma history_valid: "history show file \<Longrightarrow> file_valid file"
proof (induction rule: history.induct)
  case (changed sh f st raw c result f')
  note p = plan_of[OF loaded_valid[OF changed.IH changed.hyps(2)] changed.hyps(2,3)]
  have "f' = f \<or> (\<exists>st'. plan_change raw c st = Inr (Some st') \<and> f' = written st')"
    using changed.hyps(4) p(1) by (auto simp: planned_def split: sum.splits option.splits)
  then show ?case using changed.IH p(2) by (auto simp: file_valid_def)
qed (simp add: file_valid_def)

lemma tree_read:
  assumes "file_valid file" "r \<in> set repositories"
  obtains st tree where "state_valid st" "load_state show file = (Inr st, file)" "repository_tree show r file = (Inr tree, file)"
    "row_id ` set (tree_folders tree) = set (keys_of (repository_folders st r))" "tree_repository tree = r"
    "tree_assignments tree = stored_assignments st r"
proof -
  obtain st where st: "state_valid st" "load_state show file = (Inr st, file)" using load_valid[OF assms(1)] .
  obtain tree where tree: "tree_of st r = Inr tree" "row_id ` set (tree_folders tree) = set (keys_of (repository_folders st r))"
    "tree_repository tree = r" "tree_assignments tree = stored_assignments st r" using tree_of_valid[OF st(1) assms(2)] .
  have "repository_tree show r file = (Inr tree, file)"
    by (simp add: repository_tree_def require_known assms(2) st(2) tree(1) lift_s_def bind_s_def)
  then show ?thesis by (rule that[OF st _ tree(2-4)])
qed

text \<open>\<^bold>\<open>C14\<close>. After any sequence of changes, starting from no file, whether they succeeded or not, the file reads as
  a valid state and the tree of every repository can be built.\<close>

theorem folder_history_readable:
  assumes "history show file" "r \<in> set repositories"
  shows "\<exists>st tree. state_valid st \<and> load_state show file = (Inr st, file) \<and> repository_tree show r file = (Inr tree, file) \<and>
    set (map row_id (tree_folders tree)) = set (keys_of (repository_folders st r))"
  using tree_read[OF history_valid[OF assms(1)] assms(2)] by (metis set_map)

lemma example_history: "history (\<lambda>_. []) (written example_state)"
proof (rule history.changed[OF history.absent load_absent example_fits])
  show "perform (\<lambda>_. []) ''Data'' example_change None = (Inr (), written example_state)"
    using plan_of(1)[OF empty_valid load_absent example_fits] by (simp add: example_plan planned_def)
qed

theorem folder_history_readable_witness:
  "\<exists>st tree. state_valid st \<and> load_state (\<lambda>_. []) (written example_state) = (Inr st, written example_state) \<and>
    repository_tree (\<lambda>_. []) ''data'' (written example_state) = (Inr tree, written example_state) \<and>
    set (map row_id (tree_folders tree)) = set (keys_of (repository_folders st ''data''))"
  by (rule folder_history_readable[OF example_history]) (simp add: repositories_def)

text \<open>\<^bold>\<open>C16\<close>. In the folder tree of a repository, whatever is in the file, no two folders have paths that are equal
  up to case.\<close>

theorem folder_paths_distinct:
  assumes "repository_tree show repository file = (Inr tree, file')"
  shows "distinct (map (\<lambda>row. casefold (row_path row)) (tree_folders tree))"
proof -
  from assms obtain r st where t: "load_state show file = (Inr st, file')" "tree_of st r = Inr tree"
    by (auto simp: repository_tree_def lift_s_def load_state_def gets_s_def ret_s_def elim!: bind_s_InrE split: option.splits)
  then have sound: "repository_sound r (stored_folders st r)"
    by (auto simp: load_state_def gets_s_def ret_s_def lift_s_def bind_s_def no_folders_sound intro: validated_sound split: option.splits)
  from t(2) obtain paths rows where "folder_paths (all_folders r (stored_folders st r)) = Inr paths"
    "map_r (folder_row_of (stored_folders st r) paths) (all_folders r (stored_folders st r)) = Inr rows"
    "tree_folders tree = sort_key (\<lambda>row. (casefold (row_path row), row_id row)) rows"
    by (auto simp: tree_of_def repository_folders_def bind_r_Inr_iff Let_def)
  with sound_paths_distinct[OF sound] show ?thesis
    using mset_eq_imp_distinct_iff[of "map (\<lambda>row. casefold (row_path row)) (tree_folders tree)" "map (\<lambda>row. casefold (row_path row)) rows"]
    by simp
qed

theorem folder_paths_distinct_witness:
  "\<exists>tree. repository_tree (\<lambda>_. []) ''data'' (written example_state) = (Inr tree, written example_state) \<and>
    distinct (map (\<lambda>row. casefold (row_path row)) (tree_folders tree))"
proof -
  have "''data'' \<in> set repositories" by (simp add: repositories_def)
  from tree_read[OF history_valid[OF example_history] this]
  obtain tree where "repository_tree (\<lambda>_. []) ''data'' (written example_state) = (Inr tree, written example_state)" by metis
  with folder_paths_distinct[OF this] show ?thesis by blast
qed

subsection \<open>Items\<close>

lemma builtin_anchor:
  "k \<in> set module_fixed_folders \<Longrightarrow>
     map_of (fixed_folders ''modules'') (builtin_folder_id k) = Some \<lparr>f_name = ''BuiltIn'', f_parent = fixed_folder_id k\<rparr>"
  by (auto simp: module_fixed_folders_def fixed_modules builtin_folder_id_def kind_folder_ids)

lemma default_known: "default_item_folder r it = [] \<or> default_item_folder r it \<in> set (keys_of (fixed_folders r))"
proof (cases "r = ''modules''")
  case True
  then show ?thesis
    using found_key[OF kind_anchor[of "it_kind it"]] found_key[OF builtin_anchor[of "it_kind it"]]
    by (simp add: default_item_folder_def default_module_folder_def repository_kinds_def del: set_map)
qed (auto simp: default_item_folder_def default_module_folder_def module_repository_def fixed_flat)

lemma kind_below:
  assumes "repository_valid ''modules'' stored assigned" and k: "it_kind it \<in> set module_fixed_folders"
  shows "below (all_folders ''modules'' stored) (default_item_folder ''modules'' it) (fixed_folder_id (it_kind it))"
proof -
  let ?fs = "all_folders ''modules'' stored" and ?a = "fixed_folder_id (it_kind it)" and ?b = "builtin_folder_id (it_kind it)"
  have ne: "?a \<noteq> []" "?b \<noteq> []" by (simp_all add: fixed_folder_id_def builtin_folder_id_def)
  note p = valid_parts[OF assms(1)]
  have "(?b, \<lparr>f_name = ''BuiltIn'', f_parent = ?a\<rparr>) \<in> set ?fs" using map_of_in_set[OF builtin_anchor[OF k]] by (simp add: p(5))
  with p(6) have "map_of ?fs ?b = Some \<lparr>f_name = ''BuiltIn'', f_parent = ?a\<rparr>" by (rule map_of_is_SomeI)
  then have "parent_of ?fs ?b = ?a" by (simp add: parent_of_def)
  then have "below ?fs ?b ?a" using below.up[OF ne(2), of ?fs ?a] below.self[OF ne(1)] by simp
  then show ?thesis using ne(1) k
    by (simp add: default_item_folder_def default_module_folder_def module_repository_def repository_kinds_def below.self)
qed

text \<open>\<^bold>\<open>C15\<close>. After any sequence of changes every item, placed or not, resolves to a folder of its repository, and a
  Module to one inside the fixed folder of its kind; built-in Modules to their BuiltIn folder.\<close>

theorem items_stay_placed:
  assumes "history show file" "r \<in> set repositories"
  shows "\<exists>st folder_id path. load_state show file = (Inr st, file) \<and> item_folder show r item_id it file = (Inr (folder_id, path), file) \<and>
    (folder_id = [] \<or> folder_id \<in> set (keys_of (repository_folders st r))) \<and>
    (r = ''modules'' \<and> it_kind it = item_kind item_id \<and> it_kind it \<in> set (repository_kinds r) \<longrightarrow>
      is_descendant (repository_folders st r) folder_id (fixed_folder_id (it_kind it))) \<and>
    (module_repository r \<and> it_builtin it \<longrightarrow> folder_id = default_item_folder r it)"
proof -
  obtain st tree where t: "state_valid st" "load_state show file = (Inr st, file)" "repository_tree show r file = (Inr tree, file)"
    "row_id ` set (tree_folders tree) = set (keys_of (repository_folders st r))" "tree_repository tree = r"
    "tree_assignments tree = stored_assignments st r" using tree_read[OF history_valid[OF assms(1)] assms(2)] .
  let ?fs = "repository_folders st r"
  note rv = valid_repository[OF t(1) assms(2)]
  define folder_id where "folder_id = (if module_repository r \<and> it_builtin it then default_item_folder r it
    else case map_of (stored_assignments st r) item_id of Some assigned \<Rightarrow> assigned | None \<Rightarrow> default_item_folder r it)"
  have assigned: "assignment_valid r ?fs (item_id, f)" if "map_of (stored_assignments st r) item_id = Some f" for f
    using valid_parts(9)[OF rv map_of_in_set[OF that]] by (simp add: repository_folders_def)
  have "default_item_folder r it = [] \<or> default_item_folder r it \<in> set (keys_of ?fs)"
    using default_known[of r it] by (auto simp: repository_folders_def valid_parts(5)[OF rv])
  moreover have "f = [] \<or> f \<in> set (keys_of ?fs)" if "map_of (stored_assignments st r) item_id = Some f" for f
    using assigned[OF that] by (simp add: assignment_valid_def del: set_map)
  ultimately have known: "folder_id = [] \<or> folder_id \<in> set (keys_of ?fs)" unfolding folder_id_def by (auto split: option.split simp del: set_map)
  let ?paths = "([], ''/'') # map (\<lambda>row. (row_id row, row_path row)) (tree_folders tree)"
  have "set (keys_of ?paths) = insert [] (row_id ` set (tree_folders tree))" by (auto simp: image_iff)
  with known t(4) have "folder_id \<in> set (keys_of ?paths)" by blast
  then have "folder_id \<in> set (keys_of (rev ?paths))" by (simp only: rev_map[symmetric] set_rev)
  then obtain path where "map_of (rev ?paths) folder_id = Some path" using key_lookup by metis
  then have "resolve_item_folder tree item_id it = Inr (folder_id, path)"
    unfolding resolve_item_folder_def t(5,6) require_known[OF assms(2)] bind_r_simps Let_def folder_id_def[symmetric] by simp
  then have "item_folder show r item_id it file = (Inr (folder_id, path), file)"
    by (simp add: item_folder_def require_known[OF assms(2)] t(3) lift_s_def bind_s_def)
  moreover have "is_descendant ?fs folder_id (fixed_folder_id (it_kind it))"
    if m: "r = ''modules''" "it_kind it = item_kind item_id" "it_kind it \<in> set (repository_kinds r)"
  proof -
    have "below ?fs (default_item_folder r it) (fixed_folder_id (it_kind it))"
      using kind_below[of _ _ it] rv m by (simp add: repository_folders_def repository_kinds_def)
    moreover have "below ?fs f (fixed_folder_id (it_kind it))" if "map_of (stored_assignments st r) item_id = Some f" for f
      using assigned[OF that] m by (simp add: assignment_valid_def module_repository_def)
    ultimately have "below ?fs folder_id (fixed_folder_id (it_kind it))" by (simp add: folder_id_def split: option.split)
    then show ?thesis using valid_descendant[OF rv] known by (simp add: repository_folders_def del: set_map)
  qed
  moreover have "module_repository r \<and> it_builtin it \<Longrightarrow> folder_id = default_item_folder r it" by (simp add: folder_id_def)
  ultimately show ?thesis using t(2) known by blast
qed

theorem items_stay_placed_witness:
  "\<exists>st folder_id path. load_state (\<lambda>_. []) None = (Inr st, None) \<and>
    item_folder (\<lambda>_. []) ''modules'' ''Signal/abc'' \<lparr>it_kind = ''Signal'', it_builtin = True\<rparr> None = (Inr (folder_id, path), None) \<and>
    is_descendant (repository_folders st ''modules'') folder_id ''modules-fixed-signal''"
proof -
  have "fixed_folder_id ''Signal'' = ''modules-fixed-signal''" "item_kind ''Signal/abc'' = ''Signal''" by code_simp+
  then show ?thesis
    using items_stay_placed[OF history.absent, of "''modules''" "\<lambda>_. []" "''Signal/abc''" "\<lparr>it_kind = ''Signal'', it_builtin = True\<rparr>"]
    by (auto simp: repositories_def repository_kinds_def module_fixed_folders_def)
qed

end
