(* ===== verification/Folder_Locks.thy ===== *)
theory Folder_Locks
  imports Effects
begin

section \<open>The lock of the repository folders\<close>

text \<open>
  \<open>_ThreadReadWriteLock\<close> and the reentrant \<open>_state_lock\<close> of \<open>engine/repository/folders.py\<close>, among the threads of
  one process. Everything between taking the condition and releasing it is one step: a thread that finds the
  lock taken falls asleep in \<open>Condition.wait()\<close>, and tests again once \<open>notify_all\<close> has woken it. A thread's
  transaction is its mode and depth. The file lock taken inside, which keeps out other processes, and the
  bookkeeping after a fork are left out.
\<close>

subsection \<open>The lock\<close>

record rw_lock =
  lk_readers :: nat
  lk_writer :: bool
  lk_waiting :: nat

definition new_lock :: rw_lock where
  "new_lock = \<lparr>lk_readers = 0, lk_writer = False, lk_waiting = 0\<rparr>"

text \<open>The test of the waiting loop; \<open>None\<close> means to wait.\<close>

definition take_shared :: "rw_lock \<Rightarrow> rw_lock option" where
  "take_shared l = (if lk_writer l \<or> lk_waiting l \<noteq> 0 then None else Some (l\<lparr>lk_readers := lk_readers l + 1\<rparr>))"

definition want_exclusive :: "rw_lock \<Rightarrow> rw_lock" where
  "want_exclusive l = l\<lparr>lk_waiting := lk_waiting l + 1\<rparr>"

definition drop_want :: "rw_lock \<Rightarrow> rw_lock" where
  "drop_want l = l\<lparr>lk_waiting := lk_waiting l - 1\<rparr>"

definition take_exclusive :: "rw_lock \<Rightarrow> rw_lock option" where
  "take_exclusive l = (if lk_writer l \<or> lk_readers l \<noteq> 0 then None else Some (drop_want (l\<lparr>lk_writer := True\<rparr>)))"

text \<open>The lock after a release, and whether every waiting thread is notified\<close>

definition release_shared :: "rw_lock \<Rightarrow> rw_lock \<times> bool" where
  "release_shared l = (l\<lparr>lk_readers := lk_readers l - 1\<rparr>, lk_readers l - 1 = 0)"

definition release_exclusive :: "rw_lock \<Rightarrow> rw_lock \<times> bool" where
  "release_exclusive l = (l\<lparr>lk_writer := False\<rparr>, True)"

subsection \<open>Threads\<close>

text \<open>\<open>Waiting exclusive asleep\<close>, \<open>Holding exclusive depth\<close>\<close>

datatype phase = Idle | Waiting bool bool | Holding bool nat

record lock_state =
  ls_lock :: rw_lock
  ls_phases :: "phase list"

fun wake :: "phase \<Rightarrow> phase" where
  "wake (Waiting exclusive asleep) = Waiting exclusive False"
| "wake p = p"

definition try_take :: "nat \<Rightarrow> bool \<Rightarrow> rw_lock \<Rightarrow> phase list \<Rightarrow> lock_state" where
  "try_take t exclusive l ps =
     (case (if exclusive then take_exclusive l else take_shared l) of
        None \<Rightarrow> \<lparr>ls_lock = l, ls_phases = ps[t := Waiting exclusive True]\<rparr>
      | Some l' \<Rightarrow> \<lparr>ls_lock = l', ls_phases = ps[t := Holding exclusive 1]\<rparr>)"

text \<open>Entering \<open>_state_lock\<close>: a nested transaction only counts, and cannot turn a shared one into an exclusive one.\<close>

definition enter :: "nat \<Rightarrow> bool \<Rightarrow> (lock_state, unit) act" where
  "enter t exclusive s =
     (case ls_phases s ! t of
        Holding mode depth \<Rightarrow>
          if exclusive \<and> \<not> mode
          then (Inl (RuntimeError ''A repository-folder shared snapshot cannot be upgraded to a mutation.''), s)
          else (Inr (), s\<lparr>ls_phases := (ls_phases s)[t := Holding mode (depth + 1)]\<rparr>)
      | _ \<Rightarrow> (Inr (), try_take t exclusive (if exclusive then want_exclusive (ls_lock s) else ls_lock s) (ls_phases s)))"

definition leave :: "nat \<Rightarrow> lock_state \<Rightarrow> lock_state" where
  "leave t s =
     (case ls_phases s ! t of
        Holding mode depth \<Rightarrow>
          if 1 < depth then s\<lparr>ls_phases := (ls_phases s)[t := Holding mode (depth - 1)]\<rparr>
          else (case (if mode then release_exclusive (ls_lock s) else release_shared (ls_lock s)) of (l, notify) \<Rightarrow>
            \<lparr>ls_lock = l, ls_phases = (if notify then map wake else id) ((ls_phases s)[t := Idle])\<rparr>)
      | _ \<Rightarrow> s)"

text \<open>A thread woken tests again; one that \<open>wait()\<close> raises in gives up.\<close>

definition resume :: "nat \<Rightarrow> lock_state \<Rightarrow> lock_state" where
  "resume t s =
     (case ls_phases s ! t of Waiting exclusive _ \<Rightarrow> try_take t exclusive (ls_lock s) (ls_phases s) | _ \<Rightarrow> s)"

definition give_up :: "nat \<Rightarrow> lock_state \<Rightarrow> lock_state" where
  "give_up t s =
     (case ls_phases s ! t of
        Waiting exclusive _ \<Rightarrow> \<lparr>ls_lock = (if exclusive then drop_want (ls_lock s) else ls_lock s), ls_phases = (ls_phases s)[t := Idle]\<rparr>
      | _ \<Rightarrow> s)"

text \<open>The runs of \<open>n\<close> threads; \<open>calm\<close> runs have no exception inside \<open>wait()\<close>.\<close>

fun is_waiting :: "phase \<Rightarrow> bool" where
  "is_waiting (Waiting _ _) = True"
| "is_waiting _ = False"

inductive lock_run :: "bool \<Rightarrow> nat \<Rightarrow> lock_state \<Rightarrow> bool" for calm n where
  start: "lock_run calm n \<lparr>ls_lock = new_lock, ls_phases = replicate n Idle\<rparr>"
| enters: "lock_run calm n s \<Longrightarrow> t < n \<Longrightarrow> \<not> is_waiting (ls_phases s ! t) \<Longrightarrow> enter t exclusive s = (r, s') \<Longrightarrow> lock_run calm n s'"
| leaves: "lock_run calm n s \<Longrightarrow> t < n \<Longrightarrow> lock_run calm n (leave t s)"
| resumes: "lock_run calm n s \<Longrightarrow> t < n \<Longrightarrow> ls_phases s ! t = Waiting exclusive False \<Longrightarrow> lock_run calm n (resume t s)"
| gives_up: "lock_run calm n s \<Longrightarrow> t < n \<Longrightarrow> \<not> calm \<Longrightarrow> lock_run calm n (give_up t s)"

subsection \<open>The counters count the threads\<close>

abbreviation count_phases :: "(phase \<Rightarrow> bool) \<Rightarrow> phase list \<Rightarrow> nat" where
  "count_phases P ps \<equiv> length (filter P ps)"

lemma count_update:
  "t < length ps \<Longrightarrow> count_phases P (ps[t := p]) + of_bool (P (ps ! t)) = count_phases P ps + of_bool (P p)"
proof (induction ps arbitrary: t)
  case (Cons q ps)
  then show ?case by (cases t) auto
qed simp

lemma count_positive: "t < length ps \<Longrightarrow> P (ps ! t) \<Longrightarrow> 0 < count_phases P ps"
  by (auto simp: filter_empty_conv)

lemma count_two: "t < length ps \<Longrightarrow> u < length ps \<Longrightarrow> t \<noteq> u \<Longrightarrow> P (ps ! t) \<Longrightarrow> P (ps ! u) \<Longrightarrow> \<not> P p \<Longrightarrow> 1 < count_phases P ps"
  using count_update[of t ps P p] count_positive[of u "ps[t := p]" P] by (simp del: length_greater_0_conv)

fun reads :: "phase \<Rightarrow> bool" where
  "reads (Holding exclusive _) \<longleftrightarrow> \<not> exclusive"
| "reads _ \<longleftrightarrow> False"

fun writes :: "phase \<Rightarrow> bool" where
  "writes (Holding exclusive _) \<longleftrightarrow> exclusive"
| "writes _ \<longleftrightarrow> False"

fun wants :: "phase \<Rightarrow> bool" where
  "wants (Waiting exclusive _) \<longleftrightarrow> exclusive"
| "wants _ \<longleftrightarrow> False"

definition counted :: "nat \<Rightarrow> lock_state \<Rightarrow> bool" where
  "counted n s \<longleftrightarrow> length (ls_phases s) = n \<and> lk_readers (ls_lock s) = count_phases reads (ls_phases s) \<and>
     count_phases writes (ls_phases s) = of_bool (lk_writer (ls_lock s)) \<and> lk_waiting (ls_lock s) = count_phases wants (ls_phases s) \<and>
     (lk_writer (ls_lock s) \<longrightarrow> lk_readers (ls_lock s) = 0)"

lemma wake_phases [simp]: "reads \<circ> wake = reads" "writes \<circ> wake = writes" "wants \<circ> wake = wants"
proof -
  have "reads (wake p) = reads p" "writes (wake p) = writes p" "wants (wake p) = wants p" for p by (cases p; simp)+
  then show "reads \<circ> wake = reads" "writes \<circ> wake = writes" "wants \<circ> wake = wants" by auto
qed

text \<open>A thread registered as waiting tries to take the lock.\<close>

definition registered :: "nat \<Rightarrow> bool \<Rightarrow> rw_lock \<Rightarrow> phase list \<Rightarrow> bool" where
  "registered t exclusive l ps \<longleftrightarrow> t < length ps \<and> \<not> reads (ps ! t) \<and> \<not> writes (ps ! t) \<and>
     lk_readers l = count_phases reads ps \<and> count_phases writes ps = of_bool (lk_writer l) \<and>
     lk_waiting l + of_bool (wants (ps ! t)) = count_phases wants ps + of_bool exclusive \<and> (lk_writer l \<longrightarrow> lk_readers l = 0)"

lemma try_take_counted:
  assumes "registered t exclusive l ps" shows "counted (length ps) (try_take t exclusive l ps)"
proof -
  note a = assms[unfolded registered_def]
  then have t: "t < length ps" by blast
  note u = count_update[OF t, of reads] count_update[OF t, of writes] count_update[OF t, of wants]
  show ?thesis
    using a u[of "Waiting exclusive True"] u[of "Holding exclusive 1"]
    by (cases exclusive) (auto simp: counted_def try_take_def take_exclusive_def take_shared_def drop_want_def split: option.split)
qed

lemma counted_step:
  "counted n s \<Longrightarrow> t < n \<Longrightarrow> \<not> is_waiting (ls_phases s ! t) \<Longrightarrow> enter t exclusive s = (r, s') \<Longrightarrow> counted n s'"
  "counted n s \<Longrightarrow> t < n \<Longrightarrow> counted n (leave t s)"
  "counted n s \<Longrightarrow> t < n \<Longrightarrow> counted n (resume t s)"
  "counted n s \<Longrightarrow> t < n \<Longrightarrow> counted n (give_up t s)"
proof -
  assume c: "counted n s" and "t < n"
  then have t: "t < length (ls_phases s)" and n: "length (ls_phases s) = n" by (simp_all add: counted_def)
  note u = count_update[OF t, of reads] count_update[OF t, of writes] count_update[OF t, of wants]
  show "counted n s'" if "\<not> is_waiting (ls_phases s ! t)" "enter t exclusive s = (r, s')"
  proof (cases "ls_phases s ! t")
    case Idle
    then have "registered t exclusive (if exclusive then want_exclusive (ls_lock s) else ls_lock s) (ls_phases s)"
      using c t by (auto simp: registered_def counted_def want_exclusive_def)
    from try_take_counted[OF this] that(2) show ?thesis by (simp add: enter_def Idle n)
  next
    case (Holding mode depth)
    then show ?thesis using that(2) c u[of "Holding mode (depth + 1)"]
      by (auto simp: enter_def counted_def split: if_splits)
  qed (use that(1) in simp)
  show "counted n (resume t s)"
  proof (cases "ls_phases s ! t")
    case (Waiting exclusive asleep)
    then have "registered t exclusive (ls_lock s) (ls_phases s)" using c t by (auto simp: registered_def counted_def)
    from try_take_counted[OF this] show ?thesis by (simp add: resume_def Waiting n)
  qed (use c in \<open>simp_all add: resume_def\<close>)
  show "counted n (give_up t s)"
    using c u[of Idle] by (auto simp: give_up_def counted_def drop_want_def split: phase.split)
  show "counted n (leave t s)"
  proof (cases "ls_phases s ! t")
    case (Holding mode depth)
    note up = u[of "Holding mode (depth - 1)"] u[of Idle]
    show ?thesis
    proof (cases "1 < depth")
      case True
      then show ?thesis using c up by (auto simp: leave_def Holding counted_def)
    next
      case False
      then show ?thesis using c up
        by (cases mode) (auto simp: leave_def Holding counted_def release_exclusive_def release_shared_def filter_map of_bool_def
          simp flip: length_0_conv split: if_splits)
    qed
  qed (use c in \<open>simp_all add: leave_def\<close>)
qed

lemma run_counted: "lock_run calm n s \<Longrightarrow> counted n s"
proof (induction rule: lock_run.induct)
  case start
  show ?case by (simp add: counted_def new_lock_def)
qed (blast intro: counted_step)+

subsection \<open>Exclusion\<close>

fun holds :: "phase \<Rightarrow> bool" where
  "holds (Holding _ _) = True"
| "holds _ = False"

lemma holds_iff: "holds p \<longleftrightarrow> reads p \<or> writes p"
  by (cases p) auto

text \<open>\<^bold>\<open>C17\<close>. While a thread is in an exclusive transaction on the folder state, however deeply nested, no other
  thread is in any transaction, in every interleaving, with exceptions inside the wait.\<close>

theorem exclusive_transaction_alone:
  assumes "lock_run calm n s" "t < n" "ls_phases s ! t = Holding True depth" "u < n" "u \<noteq> t"
  shows "\<not> holds (ls_phases s ! u)"
proof
  note c = run_counted[OF assms(1), unfolded counted_def]
  have t: "t < length (ls_phases s)" "u < length (ls_phases s)" using c assms(2,4) by simp_all
  have w: "writes (ls_phases s ! t)" using assms(3) by simp
  then have writer: "lk_writer (ls_lock s)" using count_positive[OF t(1), of writes] c by (cases "lk_writer (ls_lock s)") auto
  assume "holds (ls_phases s ! u)"
  then consider "reads (ls_phases s ! u)" | "writes (ls_phases s ! u)" by (auto simp: holds_iff)
  then show False
  proof cases
    case 1
    then show False using count_positive[OF t(2), of reads] c writer by auto
  next
    case 2
    then show False using count_two[OF t(1,2) _ w 2, of Idle] assms(5) c writer by simp
  qed
qed

definition both_wait :: "lock_state" where
  "both_wait = \<lparr>ls_lock = \<lparr>lk_readers = 0, lk_writer = True, lk_waiting = 1\<rparr>, ls_phases = [Holding True 1, Waiting True True]\<rparr>"

lemma both_wait_run: "lock_run calm 2 both_wait"
proof -
  have a: "lock_run calm 2 \<lparr>ls_lock = \<lparr>lk_readers = 0, lk_writer = True, lk_waiting = 0\<rparr>, ls_phases = [Holding True 1, Idle]\<rparr>"
    by (rule lock_run.enters[OF lock_run.start, of 0 _ True])
      (simp_all add: numeral_2_eq_2 enter_def try_take_def take_exclusive_def want_exclusive_def drop_want_def new_lock_def)
  show ?thesis
    by (rule lock_run.enters[OF a, of 1 True])
      (simp_all add: both_wait_def enter_def try_take_def take_exclusive_def want_exclusive_def)
qed

theorem exclusive_transaction_alone_witness:
  "lock_run True 2 both_wait \<and> \<not> holds (ls_phases both_wait ! 1)"
  using both_wait_run exclusive_transaction_alone[OF both_wait_run, of 0 1 1] by (simp add: both_wait_def)

subsection \<open>No wakeup is lost\<close>

definition free :: "rw_lock \<Rightarrow> bool" where
  "free l \<longleftrightarrow> lk_readers l = 0 \<and> \<not> lk_writer l"

definition alert :: "lock_state \<Rightarrow> bool" where
  "alert s \<longleftrightarrow> (free (ls_lock s) \<longrightarrow> Waiting True True \<notin> set (ls_phases s) \<and>
     (Waiting False True \<in> set (ls_phases s) \<longrightarrow> lk_waiting (ls_lock s) \<noteq> 0))"

lemma try_take_alert:
  assumes "free l \<Longrightarrow> Waiting True True \<notin> set ps" "free l \<Longrightarrow> Waiting False True \<in> set ps \<Longrightarrow> lk_waiting l \<noteq> 0"
  shows "alert (try_take t exclusive l ps)"
proof -
  have sub: "set (ps[t := p]) \<subseteq> insert p (set ps)" for p by (rule set_update_subset_insert)
  show ?thesis
  proof (cases exclusive)
    case True
    then show ?thesis by (auto simp: alert_def try_take_def take_exclusive_def drop_want_def free_def)
  next
    case False
    then show ?thesis using assms sub[of "Waiting False True"]
      by (auto simp: alert_def try_take_def take_shared_def free_def)
  qed
qed

lemma no_asleep: "Waiting exclusive True \<notin> set (map wake ps)"
proof -
  have "wake p \<noteq> Waiting exclusive True" for p by (cases p) auto
  then show ?thesis by (auto simp: eq_commute[of "Waiting exclusive True"])
qed

lemma update_alert:
  assumes "alert s" "\<not> is_waiting p" shows "alert (s\<lparr>ls_phases := (ls_phases s)[t := p]\<rparr>)"
proof -
  have "set ((ls_phases s)[t := p]) \<subseteq> insert p (set (ls_phases s))" by (rule set_update_subset_insert)
  then show ?thesis using assms by (auto simp: alert_def)
qed

lemma run_alert: "lock_run True n s \<Longrightarrow> alert s"
proof (induction rule: lock_run.induct)
  case start
  show ?case by (simp add: alert_def)
next
  case (enters s t exclusive r s')
  show ?case
  proof (cases "ls_phases s ! t")
    case Idle
    have "alert (try_take t exclusive (if exclusive then want_exclusive (ls_lock s) else ls_lock s) (ls_phases s))"
      by (rule try_take_alert) (use enters.IH in \<open>auto simp: alert_def free_def want_exclusive_def split: if_splits\<close>)
    then show ?thesis using enters.hyps(4) by (simp add: enter_def Idle)
  next
    case (Holding mode depth)
    then show ?thesis using enters.hyps(4) enters.IH update_alert[OF enters.IH, of "Holding mode (depth + 1)" t]
      by (auto simp: enter_def split: if_splits)
  qed (use enters.hyps(3) in simp)
next
  case (leaves s t)
  show ?case
  proof (cases "ls_phases s ! t")
    case (Holding mode depth)
    then show ?thesis using leaves.IH update_alert[OF leaves.IH, of "Holding mode (depth - 1)" t] no_asleep
      by (auto simp: leave_def release_exclusive_def release_shared_def alert_def free_def simp del: set_map)
  qed (use leaves.IH in \<open>simp_all add: leave_def\<close>)
next
  case (resumes s t exclusive)
  have "alert (try_take t exclusive (ls_lock s) (ls_phases s))"
    by (rule try_take_alert) (use resumes.IH in \<open>auto simp: alert_def\<close>)
  then show ?case using resumes.hyps(3) by (simp add: resume_def)
qed simp



text \<open>An exception inside \<open>wait()\<close> loses one: a writer that gives up takes back its claim without notifying the
  reader that waits because of it.\<close>

lemma abandoned_reader:
  "lock_run False 3 \<lparr>ls_lock = new_lock, ls_phases = [Idle, Idle, Waiting False True]\<rparr>"
proof -
  note defs = enter_def leave_def resume_def give_up_def try_take_def take_exclusive_def take_shared_def want_exclusive_def drop_want_def
    release_shared_def new_lock_def
  have "lock_run False 3 \<lparr>ls_lock = \<lparr>lk_readers = 1, lk_writer = False, lk_waiting = 0\<rparr>, ls_phases = [Holding False 1, Idle, Idle]\<rparr>"
    by (rule lock_run.enters[OF lock_run.start, of 0 _ False]) (simp_all add: numeral_3_eq_3 defs)
  then have "lock_run False 3 \<lparr>ls_lock = \<lparr>lk_readers = 1, lk_writer = False, lk_waiting = 1\<rparr>,
      ls_phases = [Holding False 1, Waiting True True, Idle]\<rparr>"
    by (rule lock_run.enters[where t = 1 and exclusive = True]) (simp_all add: defs)
  then have "lock_run False 3 \<lparr>ls_lock = \<lparr>lk_readers = 1, lk_writer = False, lk_waiting = 1\<rparr>,
      ls_phases = [Holding False 1, Waiting True True, Waiting False True]\<rparr>"
    by (rule lock_run.enters[where t = 2 and exclusive = False]) (simp_all add: defs)
  from lock_run.leaves[OF this, of 0] have "lock_run False 3 \<lparr>ls_lock = \<lparr>lk_readers = 0, lk_writer = False, lk_waiting = 1\<rparr>,
      ls_phases = [Idle, Waiting True False, Waiting False False]\<rparr>" by (simp add: defs)
  from lock_run.resumes[OF this, of 2 False] have "lock_run False 3 \<lparr>ls_lock = \<lparr>lk_readers = 0, lk_writer = False, lk_waiting = 1\<rparr>,
      ls_phases = [Idle, Waiting True False, Waiting False True]\<rparr>" by (simp add: defs)
  from lock_run.gives_up[OF this, of 1] show ?thesis by (simp add: defs)
qed

end
