(* ===== verification/Spec2Isabelle.thy ===== *)
theory Spec2Isabelle
  imports Reducer_Termination Cycle_Runtime Pipeline_Runtime Job_Refinement Job_Liveness Folder_History Folder_Locks
begin

text \<open>
  \<^bold>\<open>Verification of the TradeEngine.\<close>

  TradeEngine runs user-written Modules, wired into Graphs, on JSON data, and keeps the Backtests that do so as
  jobs. What its users rely on is decided in five places, and these are the program modelled here.

  \<^bold>\<open>The parts and their theories\<close>

  \<^item> \<^bold>\<open>Data contracts\<close> (\<open>src/engine/contracts/\<close>). A DataKey is a dotted path into a Data Dict; its contract
    is a JSON Schema of a transportable subset. \<open>Strict_Json\<close> models \<open>strict_json.py\<close> (which values are exact JSON),
    \<open>Data_Path\<close> \<open>data_path.py\<close> (parsing, reading, writing, deleting and projecting paths), \<open>Data_Model\<close>
    \<open>data_model.py\<close> (normal forms, the reference and the compiled validator, inference), with its facts in
    \<open>Schema_Normal\<close> and \<open>Data_Validation\<close>; \<open>Data_Compatibility\<close> \<open>data_compatibility.py\<close> (the prover that lets a
    producer feed a consumer), proved in \<open>Schema_Semantics\<close> and \<open>Compatibility_Soundness\<close>; \<open>Contract_Expansion\<close>
    \<open>contract_expansion.py\<close> (maps of contracts, path queries, cache), proved in \<open>Contract_Paths\<close> and
    \<open>Expansion_Soundness\<close>; \<open>Contract_Reducer\<close> \<open>contract_reducer.py\<close> (the contract of a Data Dict under writes), proved
    in \<open>Reducer_Soundness\<close> and \<open>Reducer_Termination\<close>; \<open>Data_Boundary\<close> and \<open>Declared_Data\<close> \<open>data.py\<close> (the
    validators and isolators compiled once and run on every cycle).
  \<^item> \<^bold>\<open>Graphs\<close>. \<open>Module_Contract\<close> models \<open>contracts/module.py\<close>, \<open>Graph_Contract\<close> \<open>contracts/graph.py\<close> and
    \<open>contracts/graph_cycle.py\<close>, \<open>Graph_Compiler\<close> \<open>compiler/graph.py\<close> and \<open>compiler/module_binding.py\<close>: a Graph and
    the contracts of its sources become a typed plan. \<open>Module_Invoker\<close> models \<open>runtime/module_invoker.py\<close> and
    \<open>Graph_Runtime\<close> \<open>runtime/graph.py\<close>: the plan is bound to proofs and executed. \<open>Graph_Order\<close>, \<open>Graph_Wiring\<close> and
    \<open>Graph_Soundness\<close> hold the facts about the two and their agreement. \<open>Cycle_Runtime\<close> models
    \<open>runtime/graph_cycle.py\<close>, a Graph run once per causal cycle, and \<open>Pipeline_Runtime\<close> \<open>runtime/pipeline.py\<close> with
    \<open>runtime/lifecycle.py\<close>, Modules before and after a Signal Graph on one Data Dict.
  \<^item> \<^bold>\<open>Backtest jobs\<close>. \<open>Backtest_Request\<close> models \<open>contracts/backtest.py\<close> with \<open>exact_fields.py\<close> and \<open>digest.py\<close>,
    \<open>Job_Repository\<close> \<open>jobs/repository.py\<close> (the table of jobs of \<open>control/database.py\<close>) and \<open>Job_Manager\<close>
    \<open>jobs/manager.py\<close>; \<open>Job_Safety\<close>, \<open>Job_Refinement\<close> and \<open>Job_Liveness\<close> hold their properties.
  \<^item> \<^bold>\<open>Repository folders\<close> (\<open>src/engine/repository/folders.py\<close>). \<open>Folder_State\<close> models the state file, its
    validation and its reading, \<open>Folder_Operations\<close> the mutations and the migration; \<open>Folder_Forest\<close>,
    \<open>Folder_Safety\<close>, \<open>Folder_Changes\<close>, \<open>Folder_Updates\<close> and \<open>Folder_History\<close> hold the properties; \<open>Folder_Locks\<close> models
    the lock that serializes the operations.
  \<^item> \<^bold>\<open>What they share.\<close> \<open>Prelude\<close>: exceptions as sums, loops that may raise, dictionaries as association lists;
    \<open>Py_Value\<close>: Python objects; \<open>Effects\<close>: state with exceptions and the rules of invariants.

  \<^bold>\<open>How the model corresponds to the code\<close>

  Definitions bear the names of the functions they translate, without leading underscore; where a function has
  stages (the compiler, the manager's \<open>_execute\<close>, the binding of a plan) each stage is a definition over
  what the one before has collected. A function that may raise returns \<open>py_error + 'a\<close>, the error with its class
  and text; one that changes state is an action of \<open>Effects\<close> that also leaves the state reached when it raises.
  A \<open>dict\<close> is an association list in insertion order. An \<open>int\<close> is unbounded, a \<open>float\<close> is its binary64 pattern, a
  string is a list of code points below 256. Values are trees.

  The parts meet as in the code. The compiler calls expansion and path queries on the contracts of the sources, the
  prover for every wire and the reducer for every output; the runtime binds the boundary validators to the plan;
  the invoker validates and isolates the values of a Module; cycle and Pipeline runtimes drive the Graph runtime. The job manager changes the index only through the
  repository's operations. The folder operations read the file, check, write it and read it back.

  \<^bold>\<open>Interfaces\<close>

  \<^item> \<open>py_dict\<close> (Prelude): the laws of a dictionary, interpreted on association lists.
  \<^item> \<open>path_store\<close> (\<open>Data_Path\<close>): reading after writing a path, interpreted on the in-place and the
    copy-on-write operations.
  \<^item> \<open>contract_semantics\<close> (\<open>Compatibility_Soundness\<close>): what the prover needs of acceptance, interpreted on the
    validator's acceptance; the soundness of every function of the prover is proved inside.
  \<^item> \<open>job_update\<close> (\<open>Job_Repository\<close>): a statement that updates selected rows, interpreted once for each of the six
    statements; \<open>index_contract\<close> (\<open>Job_Safety\<close>): what a property needs in order to survive every statement,
    interpreted for the development of the table, its validity and the refinement.

  \<^bold>\<open>What the lemmas show\<close>

  \<^item> Contracts: normalization is idempotent; the compiled validator is the reference validator, error texts
    included; accepted values are exact JSON of a type that topology predicts; the prover approves only what every
    produced value satisfies, and the disjointness test separates only contracts without a common value; the
    contract found for a path describes the value found there; the reducer describes the Data Dict it runs beside.
  \<^item> Boundaries: every fast path, compiled validator, isolator and declared proof agrees with the complete
    implementation on values, errors and results.
  \<^item> Graphs: the node order is topological or there is a cycle; a Graph that compiles can be executed without
    checking the inputs of its Modules, since that check would find nothing (the theorem over compiler and runtime);
    a cycle runs on the reference input; a Pipeline sees the whitelisted part of an Observation only and closes
    everything it opened.
  \<^item> Jobs: every interleaving of the manager is a run of the abstract lifecycle machine; evidence is immutable,
    terminal rows are final, the index stays readable; completion needs sealed evidence; submission leaves no
    orphan; restart, shutdown and the end of a task settle what they must; the pool is bounded.
  \<^item> Folders: each mutation does what its plan over the abstract state says, its checks being enough for the validation
    of the whole file; the file stays readable; items keep a folder of their kind; a path names one folder; writers
    of the lock are alone and no wakeup is lost.

  \<^bold>\<open>Bounds and fuel\<close>

  All functions are total. Two carry the interpreter's recursion limit as an argument and raise \<open>RecursionError\<close>
  beyond it, as the code does: \<open>emit_path\<close> of the expansion and \<open>write_nested_schema\<close>, for which
  \<open>Reducer_Termination\<close> shows that a limit above the nesting of the contract is never reached. The limit of 64
  containers in \<open>is_exact_json\<close> and the 32 entries of the expansion cache are those of the code. Everything else
  recurses over a measure; the prover, for example, over the consumer's contract and the weight of its unions, and
  the walk along folder parents over the folders not seen yet.

  \<^bold>\<open>What is a parameter\<close>

  SHA-256 of canonical JSON (\<open>digest\<close>) and the JSON encoder (\<open>dumps\<close>), the archive's verification of Module Definitions
  and the \<open>jsonschema\<close> package (record \<open>services\<close> of the compiler), the Module behind its adapter, the job services, process
  supervisor, clock and identifiers (records over a \<open>world\<close>), \<open>str\<close> of a value in error texts, and the random IDs of new
  folders. Where a theorem needs something of them it is a named hypothesis: \<open>wf_request\<close> (services answer with
  well-formed values), \<open>tells_apart\<close> (the encoder is injective on the contracts of the plan), \<open>deployed\<close> (the Modules
  invoked are those compiled), \<open>change_fitting\<close> (a new folder ID is new; a Module is assigned under an ID of
  its kind). \<open>unknown_unproven\<close> excludes property names with dots, for which the claim of the runtime is wrong.

  \<^bold>\<open>Not modelled\<close>

  Sharing of containers between owners and the identity tests that detect it; subclasses of the built-in types;
  characters beyond 255; the text of JSON files and its parser; SQLite beyond its statement semantics; times,
  metrics and metadata; the sealed authorities, whose protection is Python object identity; \<open>flock\<close>, torn
  writes and \<open>fork\<close>. Of modelled files: the normalization cache of \<open>data_model.py\<close>, \<open>validate_module_definition\<close> of
  \<open>module.py\<close> and \<open>validate_compiled_graph\<close> of \<open>graph.py\<close>, which re-read archived records, and the receipts of reusable outputs
  of \<open>module_invoker.py\<close>. Of the program: the HTTP service, workers and Module processes, the Dataset and
  Result runtime on columnar files, the archive, control plane, remaining compilers and repositories, the mining
  service, the devkit, the builtin Modules and the web interface; they are input and output, numerical
  libraries, or checks of single records field by field.
\<close>

end
